(* ===== verification/Blinker_Prelude.thy ===== *)
theory Blinker_Prelude
  imports Main "HOL-Library.Word" "HOL-Library.Sublist"
begin

text \<open>
  The vocabulary the component theories share: the operations of
  \<^verbatim>\<open>std::string_view\<close> the sources use, the parts of Chromium's base, net and url
  libraries they call (which are not in this repository and are therefore
  parameters), parsed URLs, and the boot log.  The general lemmas on strings are
  collected in \<open>sv_simps\<close>; \<open>labels\<close> is the specification-side view of a host name
  as the list of its dot-separated labels.
\<close>

named_theorems sv_simps \<open>rewriting std::string_view operations to list operations\<close>
named_theorems api_simps \<open>the documented behaviour of the library parameters\<close>

type_synonym u32 = "32 word"
type_synonym u64 = "64 word"

subsection \<open>std::string_view\<close>

text \<open>\<^verbatim>\<open>find(char)\<close>: \<open>None\<close> is \<^verbatim>\<open>npos\<close>.\<close>

fun sv_find_char :: "char \<Rightarrow> string \<Rightarrow> nat option" where
  "sv_find_char c [] = None"
| "sv_find_char c (x # xs) = (if x = c then Some 0 else map_option Suc (sv_find_char c xs))"

text \<open>\<^verbatim>\<open>find_first_of(chars)\<close>.\<close>

fun sv_find_first_of :: "char list \<Rightarrow> string \<Rightarrow> nat option" where
  "sv_find_first_of cs [] = None"
| "sv_find_first_of cs (x # xs) =
     (if x \<in> set cs then Some 0 else map_option Suc (sv_find_first_of cs xs))"

definition sv_starts_with :: "string \<Rightarrow> string \<Rightarrow> bool" where
  "sv_starts_with s p \<longleftrightarrow> take (length p) s = p"

definition sv_ends_with :: "string \<Rightarrow> string \<Rightarrow> bool" where
  "sv_ends_with s p \<longleftrightarrow> length p \<le> length s \<and> drop (length s - length p) s = p"

text \<open>\<^verbatim>\<open>find(string_view)\<close>: the position of the first occurrence.\<close>

fun sv_find :: "string \<Rightarrow> string \<Rightarrow> nat option" where
  "sv_find p [] = (if p = [] then Some 0 else None)"
| "sv_find p (x # xs) =
     (if sv_starts_with (x # xs) p then Some 0 else map_option Suc (sv_find p xs))"

text \<open>\<^verbatim>\<open>find(p) != npos\<close>.\<close>

definition sv_contains :: "string \<Rightarrow> string \<Rightarrow> bool" where
  "sv_contains s p \<longleftrightarrow> sv_find p s \<noteq> None"

text \<open>
  The loops \<^verbatim>\<open>while (!v.empty() && P(v.front())) v.remove_prefix(1)\<close> and
  \<^verbatim>\<open>while (!v.empty() && P(v.back())) v.remove_suffix(1)\<close>.
\<close>

definition sv_trim_front :: "(char \<Rightarrow> bool) \<Rightarrow> string \<Rightarrow> string" where
  "sv_trim_front P s = dropWhile P s"

definition sv_trim_back :: "(char \<Rightarrow> bool) \<Rightarrow> string \<Rightarrow> string" where
  "sv_trim_back P s = rev (dropWhile P (rev s))"

lemma sv_starts_with_prefix [sv_simps]: "sv_starts_with s p \<longleftrightarrow> prefix p s"
  by (metis sv_starts_with_def prefix_def append_eq_conv_conj append_take_drop_id)

lemma sv_ends_with_suffix [sv_simps]: "sv_ends_with s p \<longleftrightarrow> suffix p s"
proof
  assume "sv_ends_with s p"
  then have "s = take (length s - length p) s @ p"
    by (metis sv_ends_with_def append_take_drop_id)
  then show "suffix p s" by (auto simp: suffix_def)
next
  assume "suffix p s"
  then show "sv_ends_with s p" by (auto simp: sv_ends_with_def suffix_def)
qed

lemma sv_find_char_None [sv_simps]: "sv_find_char c s = None \<longleftrightarrow> c \<notin> set s"
  by (induction s) auto

lemma sv_find_char_Some:
  "sv_find_char c s = Some n \<longleftrightarrow>
     n < length s \<and> s ! n = c \<and> c \<notin> set (take n s)"
proof (induction s arbitrary: n)
  case (Cons x xs)
  show ?case by (cases n) (auto simp: Cons.IH)
qed simp

lemma sv_find_char_split:
  "sv_find_char c s = Some n \<Longrightarrow> s = take n s @ c # drop (Suc n) s"
  by (metis sv_find_char_Some id_take_nth_drop)

lemma sv_find_None: "sv_find p s = None \<longleftrightarrow> \<not> sublist p s"
proof (induction s)
  case (Cons x xs)
  then show ?case by (auto simp: sv_starts_with_prefix sublist_Cons_right)
qed auto

lemma sv_contains_sublist [sv_simps]: "sv_contains s p \<longleftrightarrow> sublist p s"
  by (simp add: sv_contains_def sv_find_None)

lemma sv_find_Some_split:
  "sv_find p s = Some n \<Longrightarrow> s = take n s @ p @ drop (n + length p) s"
proof (induction s arbitrary: n)
  case (Cons x xs)
  show ?case
  proof (cases "sv_starts_with (x # xs) p")
    case True
    with Cons.prems have "n = 0" by simp
    with True show ?thesis
      by (metis sv_starts_with_def add_0 append_Nil append_take_drop_id take0)
  next
    case False
    with Cons.prems obtain m where "n = Suc m" "sv_find p xs = Some m" by auto
    with Cons.IH show ?thesis by simp
  qed
qed (auto split: if_splits)

lemma set_sv_trim [simp]:
  "set (sv_trim_front P s) \<subseteq> set s" "set (sv_trim_back P s) \<subseteq> set s"
  by (auto simp: sv_trim_front_def sv_trim_back_def dest: set_dropWhileD)

subsection \<open>Host names as label lists\<close>

text \<open>The dot-separated labels of a host name; every host has at least one.\<close>

fun labels :: "string \<Rightarrow> string list" where
  "labels [] = [[]]"
| "labels (c # cs) =
     (if c = CHR ''.'' then [] # labels cs
      else (case labels cs of [] \<Rightarrow> [[c]] | l # ls \<Rightarrow> (c # l) # ls))"

lemma labels_not_Nil [simp]: "labels s \<noteq> []"
  by (induction s) (auto split: list.splits)

lemma labels_append_dot: "labels (a @ CHR ''.'' # b) = labels a @ labels b"
  by (induction a) (auto split: list.splits)

lemma labels_no_dot: "CHR ''.'' \<notin> set s \<Longrightarrow> labels s = [s]"
  by (induction s) auto

text \<open>Joining labels with dots is the inverse of splitting.\<close>

fun join_labels :: "string list \<Rightarrow> string" where
  "join_labels [] = []"
| "join_labels [l] = l"
| "join_labels (l # ls) = l @ CHR ''.'' # join_labels ls"

lemma join_labels_Cons: "ls \<noteq> [] \<Longrightarrow> join_labels (l # ls) = l @ CHR ''.'' # join_labels ls"
  by (cases ls) auto

lemma join_labels_labels [simp]: "join_labels (labels s) = s"
proof (induction s)
  case (Cons c cs)
  obtain l ls where ls: "labels cs = l # ls" by (meson labels_not_Nil neq_Nil_conv)
  with Cons show ?case by (cases ls) (auto simp: join_labels_Cons)
qed simp

lemma labels_inject [simp]: "labels a = labels b \<longleftrightarrow> a = b"
  by (metis join_labels_labels)

lemma join_labels_append:
  "xs \<noteq> [] \<Longrightarrow> ys \<noteq> [] \<Longrightarrow> join_labels (xs @ ys) = join_labels xs @ CHR ''.'' # join_labels ys"
  by (induction xs rule: join_labels.induct) (auto simp: join_labels_Cons)

text \<open>
  \<open>label_suffix d h\<close>: the host \<open>h\<close> is the domain \<open>d\<close> or lies under it, whole
  labels only.
\<close>

definition label_suffix :: "string \<Rightarrow> string \<Rightarrow> bool" where
  "label_suffix d h \<longleftrightarrow> suffix (labels d) (labels h)"

lemma label_suffix_iff: "label_suffix d h \<longleftrightarrow> h = d \<or> (\<exists>pre. h = pre @ CHR ''.'' # d)"
proof
  assume "label_suffix d h"
  then obtain xs where xs: "labels h = xs @ labels d"
    by (auto simp: label_suffix_def suffix_def)
  show "h = d \<or> (\<exists>pre. h = pre @ CHR ''.'' # d)"
  proof (cases "xs = []")
    case True
    with xs show ?thesis by simp
  next
    case False
    have "h = join_labels (xs @ labels d)" by (metis xs join_labels_labels)
    with False have "h = join_labels xs @ CHR ''.'' # d" by (simp add: join_labels_append)
    then show ?thesis by blast
  qed
next
  assume "h = d \<or> (\<exists>pre. h = pre @ CHR ''.'' # d)"
  then show "label_suffix d h"
    by (auto simp: label_suffix_def suffix_def labels_append_dot)
qed

lemma label_suffix_refl [simp, intro]: "label_suffix d d"
  by (simp add: label_suffix_def)

lemma label_suffix_trans [trans]: "label_suffix a b \<Longrightarrow> label_suffix b c \<Longrightarrow> label_suffix a c"
  by (auto simp: label_suffix_def intro: suffix_order.trans)

lemma label_suffix_length: "label_suffix d h \<Longrightarrow> length d \<le> length h"
  by (auto simp: label_suffix_iff)

lemma label_suffix_linear:
  assumes "label_suffix a h" "label_suffix b h" "length a \<le> length b"
  shows "label_suffix a b"
proof -
  have "suffix (labels a) (labels b) \<or> suffix (labels b) (labels a)"
    using assms(1,2) suffix_same_cases unfolding label_suffix_def by blast
  then show ?thesis
  proof
    assume "suffix (labels b) (labels a)"
    then have "label_suffix b a" by (simp add: label_suffix_def)
    with assms(3) have "a = b" by (auto simp: label_suffix_iff)
    then show ?thesis by simp
  qed (simp add: label_suffix_def)
qed

subsection \<open>Library parameters\<close>

text \<open>
  The functions of Chromium's \<^verbatim>\<open>base\<close> and \<^verbatim>\<open>net\<close> libraries the shell calls.  Their
  sources are not part of this repository, so the model takes them as one record of
  arguments: \<^verbatim>\<open>base::ToLowerASCII\<close>, \<^verbatim>\<open>base::IsAsciiAlphaNumeric\<close>,
  \<^verbatim>\<open>base::SplitStringPiece(list, sep, TRIM_WHITESPACE, SPLIT_WANT_NONEMPTY)\<close> and
  \<^verbatim>\<open>GetDomainAndRegistry(host, INCLUDE_PRIVATE_REGISTRIES)\<close>.
\<close>

record base_api =
  ToLowerASCII :: "string \<Rightarrow> string"
  IsAsciiAlphaNumeric :: "char \<Rightarrow> bool"
  SplitStringPiece :: "string \<Rightarrow> string \<Rightarrow> string list"
  GetDomainAndRegistry :: "string \<Rightarrow> string"

definition upper_letters :: string where "upper_letters = ''ABCDEFGHIJKLMNOPQRSTUVWXYZ''"
definition lower_letters :: string where "lower_letters = ''abcdefghijklmnopqrstuvwxyz''"

definition ascii_lower :: "char \<Rightarrow> char" where
  "ascii_lower c = (case map_of (zip upper_letters lower_letters) c of None \<Rightarrow> c | Some d \<Rightarrow> d)"

definition ascii_alnum :: "char \<Rightarrow> bool" where
  "ascii_alnum c \<longleftrightarrow> c \<in> set (''0123456789'' @ upper_letters @ lower_letters)"

text \<open>
  The documented behaviour of the character functions (\<open>ascii_api_ok\<close>) and of the
  public-suffix lookup (\<open>registry_api_ok\<close>: the registrable domain of a host is a
  domain the host lies under).
\<close>

definition ascii_api_ok :: "base_api \<Rightarrow> bool" where
  "ascii_api_ok B \<longleftrightarrow> ToLowerASCII B = map ascii_lower \<and> IsAsciiAlphaNumeric B = ascii_alnum"

definition registry_api_ok :: "base_api \<Rightarrow> bool" where
  "registry_api_ok B \<longleftrightarrow>
     (\<forall>h. GetDomainAndRegistry B h \<noteq> [] \<longrightarrow> label_suffix (GetDomainAndRegistry B h) h)"

lemma registry_api_okD:
  "registry_api_ok B \<Longrightarrow> GetDomainAndRegistry B h \<noteq> [] \<Longrightarrow>
     label_suffix (GetDomainAndRegistry B h) h"
  by (simp add: registry_api_ok_def)

subsection \<open>Parsed URLs\<close>

text \<open>
  \<^verbatim>\<open>GURL\<close> is a class of the url library; the model takes a parsed URL as the record of
  what its accessors return, \<^verbatim>\<open>DomainIs\<close> being a function of the queried domain.
\<close>

record gurl =
  url_spec :: string
  url_host :: string
  url_path :: string
  url_query :: string
  url_is_valid :: bool
  url_is_empty :: bool
  url_has_host :: bool
  url_http_or_https :: bool
  url_about_blank :: bool
  DomainIs :: "string \<Rightarrow> bool"

text \<open>The default-constructed URL \<^verbatim>\<open>GURL()\<close>: empty and not valid.\<close>

definition empty_gurl :: gurl where
  "empty_gurl = \<lparr>url_spec = [], url_host = [], url_path = [], url_query = [],
     url_is_valid = False, url_is_empty = True, url_has_host = False,
     url_http_or_https = False, url_about_blank = False, DomainIs = (\<lambda>_. False)\<rparr>"

subsection \<open>User defaults\<close>

text \<open>
  The property-list values the sources read from and write to the application's user
  defaults (\<^verbatim>\<open>CFPreferencesCopyAppValue\<close>, \<^verbatim>\<open>CFPreferencesSetAppValue\<close>), by dynamic type.
\<close>

datatype cf_value =
    CFBoolean bool | CFNumber int | CFString string | CFArray "cf_value list" | CFOther

subsection \<open>Decimal numbers\<close>

text \<open>The conversions \<^verbatim>\<open>%llu\<close>, \<^verbatim>\<open>%zu\<close> (\<open>nat_str\<close>) and \<^verbatim>\<open>%d\<close>, \<^verbatim>\<open>%ld\<close> (\<open>int_str\<close>) of \<^verbatim>\<open>printf\<close>.\<close>

fun nat_str :: "nat \<Rightarrow> string" where
  "nat_str n =
     (if n < 10 then [''0123456789'' ! n] else nat_str (n div 10) @ [''0123456789'' ! (n mod 10)])"

declare nat_str.simps [simp del]

definition int_str :: "int \<Rightarrow> string" where
  "int_str i = (if i < 0 then CHR ''-'' # nat_str (nat (- i)) else nat_str (nat i))"

end
