(* ===== verification/Site_Policy.thy ===== *)
theory Site_Policy
  imports Blinker_Prelude
begin

unbundle bit_operations_syntax

text \<open>
  The per-site policy table of \<^verbatim>\<open>content/shell/common/blinker_site_policy.h\<close>: the
  whole-label domain match, the trait bits, the table and the lookup.
\<close>

text \<open>\<^verbatim>\<open>HostMatchesDomain\<close>; the index is evaluated only under the length test.\<close>

definition HostMatchesDomain :: "string \<Rightarrow> string \<Rightarrow> bool" where
  "HostMatchesDomain host0 domain =
     (let host = (if sv_ends_with host0 ''.'' then butlast host0 else host0)
      in host = domain \<or>
         (length host > length domain \<and> sv_ends_with host domain \<and>
          host ! (length host - length domain - 1) = CHR ''.''))"

datatype SiteTrait = kHeavy | kAI | kMonitorMemory | kChatKeyboard | kSkipSessionRestore
  | kVerificationResource

text \<open>The enumerators' values, \<^verbatim>\<open>1 << i\<close> in a \<^verbatim>\<open>uint32_t\<close>.\<close>

fun trait_bits :: "SiteTrait \<Rightarrow> u32" where
  "trait_bits kHeavy = push_bit 0 1"
| "trait_bits kAI = push_bit 1 1"
| "trait_bits kMonitorMemory = push_bit 2 1"
| "trait_bits kChatKeyboard = push_bit 3 1"
| "trait_bits kSkipSessionRestore = push_bit 4 1"
| "trait_bits kVerificationResource = push_bit 5 1"

record SitePolicy =
  policy_host :: string
  include_subdomains :: bool
  traits :: u32

fun or_traits :: "SiteTrait list \<Rightarrow> u32" where
  "or_traits [] = 0"
| "or_traits (t # ts) = trait_bits t OR or_traits ts"

definition mk_policy :: "string \<Rightarrow> bool \<Rightarrow> SiteTrait list \<Rightarrow> SitePolicy" where
  "mk_policy h sub ts = \<lparr>policy_host = h, include_subdomains = sub, traits = or_traits ts\<rparr>"

definition kSitePolicies :: "SitePolicy list" where
  "kSitePolicies =
    [mk_policy ''reddit.com'' True [kHeavy, kSkipSessionRestore],
     mk_policy ''youtube.com'' True [kHeavy],
     mk_policy ''github.com'' True [kHeavy, kMonitorMemory],
     mk_policy ''claude.ai'' True [kHeavy, kAI, kMonitorMemory, kChatKeyboard],
     mk_policy ''chatgpt.com'' True [kHeavy, kAI, kMonitorMemory, kChatKeyboard],
     mk_policy ''mail.google.com'' False [kHeavy, kMonitorMemory, kSkipSessionRestore],
     mk_policy ''gemini.google.com'' False [kHeavy, kMonitorMemory, kChatKeyboard],
     mk_policy ''accounts.google.com'' False
       [kHeavy, kSkipSessionRestore, kVerificationResource],
     mk_policy ''discord.com'' True [kHeavy],
     mk_policy ''homedepot.com'' True [kHeavy],
     mk_policy ''recaptcha.net'' True [kVerificationResource],
     mk_policy ''hcaptcha.com'' True [kVerificationResource],
     mk_policy ''challenges.cloudflare.com'' False [kVerificationResource],
     mk_policy ''arkoselabs.com'' True [kVerificationResource],
     mk_policy ''funcaptcha.com'' True [kVerificationResource]]"

text \<open>The \<^verbatim>\<open>for\<close> loop of \<^verbatim>\<open>HasTrait\<close> with its early return.\<close>

fun has_trait_loop :: "SitePolicy list \<Rightarrow> string \<Rightarrow> SiteTrait \<Rightarrow> bool" where
  "has_trait_loop [] host trait = False"
| "has_trait_loop (p # ps) host trait =
     (if traits p AND trait_bits trait \<noteq> 0 \<and>
         (if include_subdomains p then HostMatchesDomain host (policy_host p)
          else host = policy_host p)
      then True else has_trait_loop ps host trait)"

definition HasTrait :: "string \<Rightarrow> SiteTrait \<Rightarrow> bool" where
  "HasTrait host trait = has_trait_loop kSitePolicies host trait"

subsection \<open>Whole-label matching\<close>

definition strip_root_dot :: "string \<Rightarrow> string" where
  "strip_root_dot h = (if sv_ends_with h ''.'' then butlast h else h)"

lemma suffix_before_dot:
  "length h > length d \<and> suffix d h \<and> h ! (length h - length d - 1) = CHR ''.'' \<longleftrightarrow>
     (\<exists>pre. h = pre @ CHR ''.'' # d)"
proof
  assume a: "length h > length d \<and> suffix d h \<and> h ! (length h - length d - 1) = CHR ''.''"
  then obtain ys where ys: "h = ys @ d" by (auto simp: suffix_def)
  with a have ne: "ys \<noteq> []" by auto
  with a ys have "last ys = CHR ''.''" by (simp add: nth_append last_conv_nth)
  with ne ys have "h = butlast ys @ CHR ''.'' # d"
    by (metis append_butlast_last_id append.assoc append_Cons append_Nil)
  then show "\<exists>pre. h = pre @ CHR ''.'' # d" by blast
next
  assume "\<exists>pre. h = pre @ CHR ''.'' # d"
  then show "length h > length d \<and> suffix d h \<and> h ! (length h - length d - 1) = CHR ''.''"
    by (auto simp: suffix_def nth_append)
qed

text \<open>
  C5: a host matches a domain exactly when, after dropping one trailing root dot, the
  domain's dot-separated labels are the last labels of the host: no unrelated suffix and
  no lookalike inherits a site's policy, and every real subdomain does.
\<close>

theorem HostMatchesDomain_labels:
  "HostMatchesDomain h d \<longleftrightarrow> suffix (labels d) (labels (strip_root_dot h))"
proof -
  have "HostMatchesDomain h d \<longleftrightarrow>
      strip_root_dot h = d \<or> (\<exists>pre. strip_root_dot h = pre @ CHR ''.'' # d)"
    using suffix_before_dot [of d "strip_root_dot h"]
    by (simp only: HostMatchesDomain_def Let_def strip_root_dot_def sv_ends_with_suffix)
  then show ?thesis by (simp only: label_suffix_iff [symmetric] label_suffix_def)
qed

subsection \<open>The table\<close>

lemma has_trait_loop_iff:
  "has_trait_loop ps h t \<longleftrightarrow>
     (\<exists>p \<in> set ps. traits p AND trait_bits t \<noteq> 0 \<and>
        (if include_subdomains p then HostMatchesDomain h (policy_host p)
         else h = policy_host p))"
  by (induction ps) auto

lemma or_traits_and:
  "or_traits ts AND trait_bits t \<noteq> 0 \<longleftrightarrow> t \<in> set ts"
proof (induction ts)
  case (Cons u us)
  have bits: "trait_bits u AND trait_bits t \<noteq> 0 \<longleftrightarrow> u = t"
    by (cases u; cases t) simp_all
  have "or_traits (u # us) AND trait_bits t =
          (trait_bits u AND trait_bits t) OR (or_traits us AND trait_bits t)"
    by (simp add: bit.conj_disj_distrib2)
  then show ?case using bits Cons.IH by (auto simp: or_eq_0_iff)
qed simp

lemma traits_mk_policy [simp]:
  "traits (mk_policy h s ts) AND trait_bits t \<noteq> 0 \<longleftrightarrow> t \<in> set ts"
  "policy_host (mk_policy h s ts) = h" "include_subdomains (mk_policy h s ts) = s"
  using or_traits_and by (simp_all add: mk_policy_def)

lemma HasTrait_iff:
  "HasTrait h t \<longleftrightarrow>
     (\<exists>p \<in> set kSitePolicies. traits p AND trait_bits t \<noteq> 0 \<and>
        (if include_subdomains p then HostMatchesDomain h (policy_host p)
         else h = policy_host p))"
  by (simp only: HasTrait_def has_trait_loop_iff)

lemmas table_simps = HasTrait_iff kSitePolicies_def traits_mk_policy list.set bex_simps
  insert_iff empty_iff SiteTrait.distinct if_True if_False simp_thms

lemma HasTrait_kAI:
  "HasTrait h kAI \<longleftrightarrow> HostMatchesDomain h ''claude.ai'' \<or> HostMatchesDomain h ''chatgpt.com''"
  by (simp only: table_simps)

lemma HasTrait_kChatKeyboard:
  "HasTrait h kChatKeyboard \<longleftrightarrow> HostMatchesDomain h ''claude.ai'' \<or>
     HostMatchesDomain h ''chatgpt.com'' \<or> h = ''gemini.google.com''"
  by (simp only: table_simps)

lemma HasTrait_kMonitorMemory:
  "HasTrait h kMonitorMemory \<longleftrightarrow> HostMatchesDomain h ''github.com'' \<or>
     HostMatchesDomain h ''claude.ai'' \<or> HostMatchesDomain h ''chatgpt.com'' \<or>
     h = ''mail.google.com'' \<or> h = ''gemini.google.com''"
  by (simp only: table_simps)

lemma HasTrait_kSkipSessionRestore:
  "HasTrait h kSkipSessionRestore \<longleftrightarrow> HostMatchesDomain h ''reddit.com'' \<or>
     h = ''mail.google.com'' \<or> h = ''accounts.google.com''"
  by (simp only: table_simps)

lemma HasTrait_kHeavy:
  "HasTrait h kHeavy \<longleftrightarrow> HostMatchesDomain h ''reddit.com'' \<or>
     HostMatchesDomain h ''youtube.com'' \<or> HostMatchesDomain h ''github.com'' \<or>
     HostMatchesDomain h ''claude.ai'' \<or> HostMatchesDomain h ''chatgpt.com'' \<or>
     h = ''mail.google.com'' \<or> h = ''gemini.google.com'' \<or> h = ''accounts.google.com'' \<or>
     HostMatchesDomain h ''discord.com'' \<or> HostMatchesDomain h ''homedepot.com''"
  by (simp only: table_simps)

text \<open>
  the hosts exempt from request filtering are exactly the two single hosts
  accounts.google.com and challenges.cloudflare.com and the domains recaptcha.net,
  hcaptcha.com, arkoselabs.com and funcaptcha.com with their subdomains; in particular
  no other google.com host is exempt through the table.
\<close>

lemma verification_hosts:
  "HasTrait h kVerificationResource \<longleftrightarrow>
     h = ''accounts.google.com'' \<or> h = ''challenges.cloudflare.com'' \<or>
     (\<exists>d \<in> {''recaptcha.net'', ''hcaptcha.com'', ''arkoselabs.com'', ''funcaptcha.com''}.
        HostMatchesDomain h d)"
  by (simp only: table_simps) blast

text \<open>
  the table keeps its traits nested the way the guards rely on: an AI host is a
  chat-keyboard host, a chat-keyboard host is monitored, a monitored host is heavy; and
  the reverse of the last fails (youtube.com is heavy and has no other trait), so heavy
  does not imply the keyboard fallback.
\<close>

lemma trait_nesting:
  "(HasTrait h kAI \<longrightarrow> HasTrait h kChatKeyboard) \<and>
   (HasTrait h kChatKeyboard \<longrightarrow> HasTrait h kMonitorMemory) \<and>
   (HasTrait h kMonitorMemory \<longrightarrow> HasTrait h kHeavy) \<and>
   (HasTrait ''youtube.com'' t \<longleftrightarrow> t = kHeavy)"
proof -
  have "HasTrait ''youtube.com'' kHeavy \<and> \<not> HasTrait ''youtube.com'' kAI \<and>
      \<not> HasTrait ''youtube.com'' kMonitorMemory \<and> \<not> HasTrait ''youtube.com'' kChatKeyboard \<and>
      \<not> HasTrait ''youtube.com'' kSkipSessionRestore \<and>
      \<not> HasTrait ''youtube.com'' kVerificationResource"
    by code_simp
  then have "HasTrait ''youtube.com'' t \<longleftrightarrow> t = kHeavy" by (cases t) simp_all
  then show ?thesis
    by (simp only: HasTrait_kAI HasTrait_kChatKeyboard HasTrait_kMonitorMemory HasTrait_kHeavy)
      blast
qed

lemma trait_nesting_witness:
  "HasTrait ''www.claude.ai'' kAI \<and> HasTrait ''www.claude.ai'' kChatKeyboard"
proof -
  have "HasTrait ''www.claude.ai'' kAI" by code_simp
  then show ?thesis using trait_nesting [of "''www.claude.ai''"] by blast
qed

end
