(* ===== verification/Memory_Policy.thy ===== *)
theory Memory_Policy
  imports Blinker_Prelude
begin

text \<open>
  The memory thresholds of \<^verbatim>\<open>content/shell/common/blinker_memory_policy.h\<close>, in
  \<^verbatim>\<open>uint64_t\<close> arithmetic.  What the kernel answers (\<^verbatim>\<open>sysctlbyname\<close>,
  \<^verbatim>\<open>os_proc_available_memory\<close>, \<^verbatim>\<open>task_info\<close>) is the record \<open>kernel_env\<close>; the two
  function-local statics are the record \<open>memory_cache\<close>.
\<close>

definition kMiB :: u64 where "kMiB = 1024 * 1024"
definition kCeilingFloor :: u64 where "kCeilingFloor = 700 * kMiB"
definition kCeilingCap :: u64 where "kCeilingCap = 1800 * kMiB"
definition kFallbackCeiling :: u64 where "kFallbackCeiling = 900 * kMiB"
definition kModeratePercent :: u64 where "kModeratePercent = 55"
definition kCriticalPercent :: u64 where "kCriticalPercent = 72"
definition kBlockNewContentsPercent :: u64 where "kBlockNewContentsPercent = 82"
definition kMinModerateAvailable :: u64 where "kMinModerateAvailable = 280 * kMiB"
definition kMinCriticalAvailable :: u64 where "kMinCriticalAvailable = 140 * kMiB"

lemmas memory_constants = kMiB_def kCeilingFloor_def kCeilingCap_def kFallbackCeiling_def
  kModeratePercent_def kCriticalPercent_def kBlockNewContentsPercent_def
  kMinModerateAvailable_def kMinCriticalAvailable_def

record kernel_env =
  hw_memsize :: "u64 option"      \<comment> \<open>sysctlbyname; \<open>None\<close> when it fails\<close>
  ios13_available :: bool         \<comment> \<open>\<^verbatim>\<open>__builtin_available(iOS 13.0, *)\<close>\<close>
  proc_available_memory :: u64    \<comment> \<open>\<^verbatim>\<open>os_proc_available_memory()\<close>\<close>
  task_phys_footprint :: "u64 option" \<comment> \<open>TASK_VM_INFO; \<open>None\<close> when not KERN_SUCCESS\<close>

record memory_cache =
  physical_mem :: "u64 option"    \<comment> \<open>the static of DevicePhysicalMemory, unset before its first call\<close>
  cached_ceiling :: u64           \<comment> \<open>the static atomic of MemoryCeiling, 0 when unset\<close>

definition initial_cache :: memory_cache where
  "initial_cache = \<lparr>physical_mem = None, cached_ceiling = 0\<rparr>"

definition DevicePhysicalMemory :: "kernel_env \<Rightarrow> memory_cache \<Rightarrow> u64 \<times> memory_cache" where
  "DevicePhysicalMemory E m =
     (case physical_mem m of
        Some v \<Rightarrow> (v, m)
      | None \<Rightarrow>
          let v = (case hw_memsize E of None \<Rightarrow> 2048 * kMiB | Some value \<Rightarrow> value)
          in (v, m\<lparr>physical_mem := Some v\<rparr>))"

text \<open>\<^verbatim>\<open>std::clamp(v, lo, hi)\<close>\<close>

definition clamp :: "u64 \<Rightarrow> u64 \<Rightarrow> u64 \<Rightarrow> u64" where
  "clamp v lo hi = (if v < lo then lo else if hi < v then hi else v)"

definition MemoryCeiling :: "kernel_env \<Rightarrow> memory_cache \<Rightarrow> u64 \<times> memory_cache" where
  "MemoryCeiling E m =
     (if cached_ceiling m \<noteq> 0 then (cached_ceiling m, m)
      else if \<not> ios13_available E then
        (let (mem, m') = DevicePhysicalMemory E m
         in (if mem < 1500 * kMiB then kCeilingFloor else kFallbackCeiling, m'))
      else
        (let available = proc_available_memory E in
         if available = 0 then (kFallbackCeiling, m)
         else
           (let footprint = (case task_phys_footprint E of None \<Rightarrow> 0 | Some f \<Rightarrow> f);
                ceiling = clamp (footprint + available) kCeilingFloor kCeilingCap
            in (ceiling, m\<lparr>cached_ceiling := ceiling\<rparr>))))"

definition ModerateFootprint :: "kernel_env \<Rightarrow> memory_cache \<Rightarrow> u64 \<times> memory_cache" where
  "ModerateFootprint E m = (let (c, m') = MemoryCeiling E m in (c * kModeratePercent div 100, m'))"

definition CriticalFootprint :: "kernel_env \<Rightarrow> memory_cache \<Rightarrow> u64 \<times> memory_cache" where
  "CriticalFootprint E m = (let (c, m') = MemoryCeiling E m in (c * kCriticalPercent div 100, m'))"

definition BlockNewContentsFootprint :: "kernel_env \<Rightarrow> memory_cache \<Rightarrow> u64 \<times> memory_cache" where
  "BlockNewContentsFootprint E m =
     (let (c, m') = MemoryCeiling E m in (c * kBlockNewContentsPercent div 100, m'))"

definition ModerateAvailable :: "kernel_env \<Rightarrow> memory_cache \<Rightarrow> u64 \<times> memory_cache" where
  "ModerateAvailable E m =
     (let (c, m') = MemoryCeiling E m in (max kMinModerateAvailable (c * 18 div 100), m'))"

definition CriticalAvailable :: "kernel_env \<Rightarrow> memory_cache \<Rightarrow> u64 \<times> memory_cache" where
  "CriticalAvailable E m =
     (let (c, m') = MemoryCeiling E m in (max kMinCriticalAvailable (c * 9 div 100), m'))"

subsection \<open>The ceiling\<close>

text \<open>The cache holds nothing or a clamped ceiling.\<close>

definition cache_ok :: "memory_cache \<Rightarrow> bool" where
  "cache_ok m \<longleftrightarrow> cached_ceiling m = 0 \<or>
     (kCeilingFloor \<le> cached_ceiling m \<and> cached_ceiling m \<le> kCeilingCap)"

lemma cache_ok_initial: "cache_ok initial_cache"
  by (simp add: cache_ok_def initial_cache_def)

lemma clamp_range:
  "kCeilingFloor \<le> clamp v kCeilingFloor kCeilingCap \<and> clamp v kCeilingFloor kCeilingCap \<le> kCeilingCap"
  by (auto simp: clamp_def memory_constants)

lemma DevicePhysicalMemory_cache [simp]:
  "cached_ceiling (snd (DevicePhysicalMemory E m)) = cached_ceiling m"
  by (auto simp: DevicePhysicalMemory_def Let_def split: option.splits)

lemma MemoryCeiling_range:
  assumes "cache_ok m"
  shows "kCeilingFloor \<le> fst (MemoryCeiling E m) \<and> fst (MemoryCeiling E m) \<le> kCeilingCap"
proof -
  have cs: "kCeilingFloor \<le> kFallbackCeiling" "kFallbackCeiling \<le> kCeilingCap"
    "kCeilingFloor \<le> kCeilingCap" by (simp_all add: memory_constants)
  from assms show ?thesis
    using cs clamp_range
    by (auto simp: MemoryCeiling_def cache_ok_def Let_def split: prod.splits)
qed

lemma MemoryCeiling_cache_ok: "cache_ok m \<Longrightarrow> cache_ok (snd (MemoryCeiling E m))"
  using clamp_range
  by (auto simp: MemoryCeiling_def cache_ok_def Let_def split: prod.splits
      dest!: arg_cong [where f = "\<lambda>p. cached_ceiling (snd p)"])

lemma ceiling_unat:
  assumes "kCeilingFloor \<le> c" "c \<le> kCeilingCap"
  shows "734003200 \<le> unat c" "unat c \<le> 1887436800"
  using assms by (simp_all add: word_le_nat_alt memory_constants)

lemma percent_unat:
  assumes "unat c \<le> 1887436800" "unat p \<le> 100"
  shows "unat (c * p div (100 :: u64)) = unat c * unat p div 100"
proof -
  have "unat c * unat p \<le> 1887436800 * 100" using assms by (rule mult_le_mono)
  then have "unat (c * p) = unat c * unat p" by (simp add: unat_word_ariths)
  then show ?thesis by (simp add: unat_div)
qed

text \<open>
  C6: from any cache the code can be in, the ceiling lies between 700 MiB and 1800 MiB
  whatever the kernel answers, also when footprint + available wraps around; the three
  footprint thresholds are then strictly ordered below it (shed caches, purge, refuse
  new contents), none of the multiplications overflows, and the cache stays well formed.
\<close>

theorem thresholds_ordered:
  assumes "cache_ok m"
  shows "kCeilingFloor \<le> fst (MemoryCeiling E m) \<and> fst (MemoryCeiling E m) \<le> kCeilingCap \<and>
    fst (ModerateFootprint E m) < fst (CriticalFootprint E m) \<and>
    fst (CriticalFootprint E m) < fst (BlockNewContentsFootprint E m) \<and>
    fst (BlockNewContentsFootprint E m) < fst (MemoryCeiling E m) \<and>
    unat (fst (BlockNewContentsFootprint E m)) = unat (fst (MemoryCeiling E m)) * 82 div 100 \<and>
    cache_ok (snd (MemoryCeiling E m))"
proof -
  obtain c m' where cm: "MemoryCeiling E m = (c, m')" by (cases "MemoryCeiling E m")
  from MemoryCeiling_range [OF assms, of E] cm
  have range: "kCeilingFloor \<le> c" "c \<le> kCeilingCap" by simp_all
  note u = ceiling_unat [OF range]
  have pc: "unat (c * 55 div 100) = unat c * 55 div 100"
    "unat (c * 72 div 100) = unat c * 72 div 100"
    "unat (c * 82 div 100) = unat c * 82 div 100"
    using u by (simp_all add: percent_unat)
  have "unat c * 55 div 100 < unat c * 72 div 100"
    "unat c * 72 div 100 < unat c * 82 div 100" "unat c * 82 div 100 < unat c"
    using u by linarith+
  with range pc cm MemoryCeiling_cache_ok [OF assms, of E] show ?thesis
    by (simp add: ModerateFootprint_def CriticalFootprint_def BlockNewContentsFootprint_def
        kModeratePercent_def kCriticalPercent_def kBlockNewContentsPercent_def word_less_nat_alt)
qed

theorem thresholds_ordered_witness:
  "cache_ok initial_cache \<and>
   fst (ModerateFootprint \<lparr>hw_memsize = None, ios13_available = True,
       proc_available_memory = 1000, task_phys_footprint = Some (- 500)\<rparr> initial_cache)
   < fst (CriticalFootprint \<lparr>hw_memsize = None, ios13_available = True,
       proc_available_memory = 1000, task_phys_footprint = Some (- 500)\<rparr> initial_cache)"
  using thresholds_ordered [OF cache_ok_initial] cache_ok_initial by blast

text \<open>
  the first foreground reading fixes the ceiling for the life of the process: once a
  call has stored it, every later call returns the same value under any kernel answers
  and leaves the cache alone; an unavailable reading (0 bytes) is answered with the
  fallback and is not stored.
\<close>

lemma MemoryCeiling_cached:
  "(cached_ceiling (snd (MemoryCeiling E m)) \<noteq> 0 \<longrightarrow>
      MemoryCeiling E' (snd (MemoryCeiling E m)) =
        (cached_ceiling (snd (MemoryCeiling E m)), snd (MemoryCeiling E m))) \<and>
   (ios13_available E \<longrightarrow> proc_available_memory E \<noteq> 0 \<longrightarrow>
      cached_ceiling (snd (MemoryCeiling E m)) = fst (MemoryCeiling E m) \<and>
      fst (MemoryCeiling E m) \<noteq> 0) \<and>
   (ios13_available E \<longrightarrow> proc_available_memory E = 0 \<longrightarrow> cached_ceiling m = 0 \<longrightarrow>
      MemoryCeiling E m = (kFallbackCeiling, m))"
proof -
  have "clamp v kCeilingFloor kCeilingCap \<noteq> 0" for v
    using clamp_range [of v] by (auto simp: memory_constants)
  then show ?thesis by (simp add: MemoryCeiling_def Let_def)
qed

lemma MemoryCeiling_cached_witness:
  "MemoryCeiling \<lparr>hw_memsize = None, ios13_available = True, proc_available_memory = 0,
     task_phys_footprint = None\<rparr> initial_cache = (kFallbackCeiling, initial_cache)"
  using MemoryCeiling_cached [of "\<lparr>hw_memsize = None, ios13_available = True,
     proc_available_memory = 0, task_phys_footprint = None\<rparr>" initial_cache]
  by (simp add: initial_cache_def)

text \<open>
  The remaining-headroom triggers never fall below their floors: 140 MiB for an
  imminent kill, 280 MiB for shedding caches, and the critical trigger is always the
  tighter one.
\<close>

lemma available_floors:
  assumes "cache_ok m"
  shows "kMinCriticalAvailable \<le> fst (CriticalAvailable E m) \<and>
    kMinModerateAvailable \<le> fst (ModerateAvailable E m) \<and>
    fst (CriticalAvailable E m) < fst (ModerateAvailable E m)"
proof -
  obtain c m' where cm: "MemoryCeiling E m = (c, m')" by (cases "MemoryCeiling E m")
  from MemoryCeiling_range [OF assms, of E] cm
  have u: "734003200 \<le> unat c" "unat c \<le> 1887436800" by (auto dest: ceiling_unat)
  have pc: "unat (c * 18 div 100) = unat c * 18 div 100" "unat (c * 9 div 100) = unat c * 9 div 100"
    using u by (simp_all add: percent_unat)
  then have "c * 9 div 100 < c * 18 div 100" using u by (simp add: word_less_nat_alt)
  moreover have "kMinCriticalAvailable < kMinModerateAvailable" by (simp add: memory_constants)
  ultimately show ?thesis
    by (auto simp: cm CriticalAvailable_def ModerateAvailable_def max_def)
qed

lemma available_floors_witness:
  "cache_ok initial_cache \<and>
   kMinCriticalAvailable \<le> fst (CriticalAvailable \<lparr>hw_memsize = Some 1, ios13_available = False,
     proc_available_memory = 0, task_phys_footprint = None\<rparr> initial_cache)"
  using available_floors [OF cache_ok_initial] cache_ok_initial by blast

end
