(* ===== verification/Private_Logging.thy ===== *)
theory Private_Logging
  imports Blinker_Prelude
begin

text \<open>
  The boot log: the diagnostics gate of
  \<^verbatim>\<open>content/shell/common/blinker_diagnostics.h\<close> and the private-session rule of
  \<^verbatim>\<open>content/shell/common/blinker_private_logging.h\<close>.  A log statement of the sources
  is a \<open>log_line\<close>: the macro used, the format string, and the values formatted into it.
  A value that is a URL or a host is an \<open>LUrl\<close>, so that the rule "a private session
  never writes page URLs or hosts" is a predicate on lines.
\<close>

datatype log_arg = LText string | LNum nat | LInt int | LUrl string

datatype log_line =
    BLINKER_LOG string "log_arg list"    \<comment> \<open>\<^verbatim>\<open>BLINKER_LOG\<close>, \<^verbatim>\<open>BLINKER_LOGF\<close>: always ship\<close>
  | BLINKER_DIAG string "log_arg list"   \<comment> \<open>\<^verbatim>\<open>BLINKER_DIAG\<close>, \<^verbatim>\<open>BLINKER_DIAGF\<close>: tracing\<close>

fun log_args :: "log_line \<Rightarrow> log_arg list" where
  "log_args (BLINKER_LOG f as) = as"
| "log_args (BLINKER_DIAG f as) = as"

fun log_format :: "log_line \<Rightarrow> string" where
  "log_format (BLINKER_LOG f as) = f"
| "log_format (BLINKER_DIAG f as) = f"

text \<open>What reaches blink_boot.log: tracing is compiled out of a release build.\<close>

fun boot_log_line :: "bool \<Rightarrow> log_line \<Rightarrow> log_line list" where
  "boot_log_line diagnostics (BLINKER_LOG f as) = [BLINKER_LOG f as]"
| "boot_log_line diagnostics (BLINKER_DIAG f as) =
     (if diagnostics then [BLINKER_DIAG f as] else [])"

definition boot_log :: "bool \<Rightarrow> log_line list \<Rightarrow> log_line list" where
  "boot_log diagnostics ls = concat (map (boot_log_line diagnostics) ls)"

text \<open>
  \<^verbatim>\<open>IsPrivateSession\<close>: the preference's \<^verbatim>\<open>valid\<close> and \<^verbatim>\<open>enabled\<close> results, read once in
  the life of the process; every log site below takes the resulting flag.
\<close>

definition IsPrivateSession :: "bool \<Rightarrow> bool \<Rightarrow> bool" where
  "IsPrivateSession valid enabled \<longleftrightarrow> valid \<and> enabled"

definition LoggableURLSpec :: "bool \<Rightarrow> gurl \<Rightarrow> string" where
  "LoggableURLSpec priv url = (if priv then ''[private]'' else url_spec url)"

definition LoggableHost :: "bool \<Rightarrow> string \<Rightarrow> string" where
  "LoggableHost priv host = (if priv then ''[private]'' else host)"

subsection \<open>The rule\<close>

fun arg_private :: "log_arg \<Rightarrow> bool" where
  "arg_private (LUrl t) \<longleftrightarrow> t = ''[private]''"
| "arg_private _ \<longleftrightarrow> True"

definition line_private :: "log_line \<Rightarrow> bool" where
  "line_private l \<longleftrightarrow> list_all arg_private (log_args l)"

definition log_private :: "log_line list \<Rightarrow> bool" where
  "log_private ls \<longleftrightarrow> list_all line_private ls"

named_theorems log_simps \<open>deciding whether a log line obeys the private-session rule\<close>

lemma Loggable_private [simp, log_simps]:
  "LoggableURLSpec True url = ''[private]''" "LoggableHost True host = ''[private]''"
  by (simp_all add: LoggableURLSpec_def LoggableHost_def)

lemma log_private_simps [simp, log_simps]:
  "log_private []"
  "log_private (l # ls) \<longleftrightarrow> line_private l \<and> log_private ls"
  "log_private (ls @ ls') \<longleftrightarrow> log_private ls \<and> log_private ls'"
  "line_private (BLINKER_LOG f as) \<longleftrightarrow> list_all arg_private as"
  "line_private (BLINKER_DIAG f as) \<longleftrightarrow> list_all arg_private as"
  by (simp_all add: log_private_def line_private_def)

lemma boot_log_private: "log_private ls \<Longrightarrow> log_private (boot_log d ls)"
proof (induction ls)
  case (Cons l ls)
  then show ?case by (cases l) (auto simp: boot_log_def)
qed (simp add: boot_log_def)

lemma boot_log_release:
  "boot_log False ls = filter (\<lambda>l. case l of BLINKER_LOG _ _ \<Rightarrow> True | _ \<Rightarrow> False) ls"
  by (induction ls) (auto simp: boot_log_def split: log_line.splits)

end
