(* ===== verification/Content_Filter.thy ===== *)
theory Content_Filter
  imports Site_Policy Private_Logging
begin

text \<open>
  The ad and tracker filter of \<^verbatim>\<open>content/shell/browser/blinker_content_filter.cc\<close> and
  its header: the rule store, the loaders and parsers that fill it, the request decision
  \<^verbatim>\<open>ShouldBlock\<close>, the element-hiding CSS, and the URL-loader throttle.
\<close>

subsection \<open>The rule lists that ship with the browser\<close>

definition kBuiltinBlocklist :: "string list" where
  "kBuiltinBlocklist =
    [''doubleclick.net'', ''googlesyndication.com'', ''googleadservices.com'',
    ''google-analytics.com'', ''googletagmanager.com'', ''googletagservices.com'',
    ''adservice.google.com'', ''pagead2.googlesyndication.com'',
    ''partner.googleadservices.com'', ''analytics.google.com'', ''2mdn.net'',
    ''app-measurement.com'', ''connect.facebook.net'', ''pixel.facebook.com'',
    ''an.facebook.com'', ''amazon-adsystem.com'', ''assoc-amazon.com'',
    ''aax.amazon-adsystem.com'', ''criteo.com'', ''criteo.net'', ''adnxs.com'',
    ''rubiconproject.com'', ''pubmatic.com'', ''openx.net'', ''casalemedia.com'',
    ''adform.net'', ''smartadserver.com'', ''spotxchange.com'', ''spotx.tv'', ''3lift.com'',
    ''sharethrough.com'', ''districtm.io'', ''gumgum.com'', ''indexww.com'', ''media.net'',
    ''yieldmo.com'', ''adcolony.com'', ''applovin.com'', ''unityads.unity3d.com'',
    ''inmobi.com'', ''mopub.com'', ''vungle.com'', ''scorecardresearch.com'',
    ''quantserve.com'', ''quantcount.com'', ''chartbeat.com'', ''chartbeat.net'',
    ''hotjar.com'', ''mouseflow.com'', ''fullstory.com'', ''mixpanel.com'', ''segment.com'',
    ''segment.io'', ''amplitude.com'', ''branch.io'', ''adjust.com'', ''appsflyer.com'',
    ''kochava.com'', ''bugsnag.com'', ''newrelic.com'', ''nr-data.net'', ''optimizely.com'',
    ''crazyegg.com'', ''clicktale.net'', ''bizographics.com'', ''demdex.net'', ''omtrdc.net'',
    ''everesttech.net'', ''adobedtm.com'', ''krxd.net'', ''bluekai.com'', ''agkn.com'',
    ''rlcdn.com'', ''crwdcntrl.net'', ''exelator.com'', ''mathtag.com'', ''bidswitch.net'',
    ''rfihub.com'', ''tapad.com'', ''eyeota.net'', ''adsrvr.org'', ''taboola.com'',
    ''outbrain.com'', ''revcontent.com'', ''mgid.com'', ''zergnet.com'', ''content-ad.net'',
    ''adblade.com'', ''onesignal.com'', ''pushcrew.com'', ''propellerads.com'', ''popads.net'',
    ''popcash.net'', ''adsterra.com'', ''hilltopads.net'', ''exoclick.com'', ''juicyads.com'',
    ''trafficjunky.net'', ''mc.yandex.ru'', ''an.yandex.ru'', ''top-fwz1.mail.ru'',
    ''vk.com/rtrg'', ''bat.bing.com'', ''clarity.ms'', ''ads.linkedin.com'',
    ''px.ads.linkedin.com'', ''ads-twitter.com'', ''analytics.twitter.com'',
    ''static.ads-twitter.com'', ''analytics.tiktok.com'', ''ads.tiktok.com'',
    ''business-api.tiktok.com'']"

definition kBuiltinCosmetic :: "string list" where
  \<open>kBuiltinCosmetic =
    [''.adsbygoogle'', ''ins.adsbygoogle'', ''[id^="google_ads_iframe"]'',
    ''[id^="div-gpt-ad"]'', ''[id^="google_ads_frame"]'', ''iframe[src*="doubleclick.net"]'',
    ''iframe[src*="googlesyndication.com"]'', ''iframe[src*="adnxs.com"]'',
    ''[class^="adsbox"]'', ''.trc_related_container'', ''.OUTBRAIN'', ''.taboola-placeholder'']\<close>

subsection \<open>Hosts, selectors and domain lists\<close>

text \<open>
  \<^verbatim>\<open>ForEachHostAndParent\<close> calls its function on the host and its parents, in this order,
  down to the registrable domain; the model is the list of those arguments.
\<close>

function host_parent_loop :: "nat \<Rightarrow> string \<Rightarrow> string list" where
  "host_parent_loop n cursor =
     cursor #
     (if length cursor \<le> n then []
      else case sv_find_char CHR ''.'' cursor of
             None \<Rightarrow> []
           | Some dot \<Rightarrow> host_parent_loop n (drop (dot + 1) cursor))"
  by pat_completeness auto
termination
  by (relation "measure (\<lambda>(n, c). length c)") auto

declare host_parent_loop.simps [simp del]

definition ForEachHostAndParent :: "base_api \<Rightarrow> string \<Rightarrow> string list" where
  "ForEachHostAndParent B host =
     (let registered = GetDomainAndRegistry B host
      in if registered = [] then [] else host_parent_loop (length registered) host)"

definition NormalizeHost :: "base_api \<Rightarrow> string \<Rightarrow> string" where
  "NormalizeHost B host =
     (let h = sv_trim_front (\<lambda>c. c = CHR ''.'') (ToLowerASCII B host)
      in if h \<noteq> [] \<and> last h = CHR ''.'' then butlast h else h)"

definition unsafe_chars :: "char list" where
  "unsafe_chars = [CHR ''{'', CHR ''}'', CHR 0x5C, CHR ''<'', CHR 0x0A, CHR 0x0D]"

definition IsSafeSelector :: "string \<Rightarrow> bool" where
  "IsSafeSelector sel \<longleftrightarrow>
     \<not> (sel = [] \<or> length sel > 400) \<and> list_all (\<lambda>c. c \<notin> set unsafe_chars) sel"

definition LooksLikeDomain :: "base_api \<Rightarrow> string \<Rightarrow> bool" where
  "LooksLikeDomain B s \<longleftrightarrow>
     \<not> (length s < 3 \<or> sv_find_char CHR ''.'' s = None) \<and>
     list_all (\<lambda>c. IsAsciiAlphaNumeric B c \<or> c = CHR ''.'' \<or> c = CHR ''-'' \<or> c = CHR ''_'') s"

text \<open>The domains \<^verbatim>\<open>ForEachDomain\<close> calls its function on.\<close>

definition ForEachDomain :: "base_api \<Rightarrow> string \<Rightarrow> string list" where
  "ForEachDomain B domains =
     filter (\<lambda>d. case d of [] \<Rightarrow> False | c # _ \<Rightarrow> c \<noteq> CHR ''~'') (SplitStringPiece B domains '','')"

subsection \<open>The filter's state\<close>

type_synonym selector_map = "string \<rightharpoonup> string list"

record content_filter =
  enabled :: bool
  blocked_count :: u64
  blocked_hosts :: "string set"
  allowed_hosts :: "string set"
  generic_hide_selectors :: "string list"
  host_hide_selectors :: selector_map
  host_hide_exceptions :: selector_map
  generic_hide_css :: string
  loaded :: bool

definition new_filter :: content_filter where
  "new_filter = \<lparr>enabled = False, blocked_count = 0, blocked_hosts = {}, allowed_hosts = {},
     generic_hide_selectors = [], host_hide_selectors = Map.empty,
     host_hide_exceptions = Map.empty, generic_hide_css = [], loaded = False\<rparr>"

text \<open>\<^verbatim>\<open>m[k].emplace_back(sel)\<close>\<close>

definition push_selector :: "string \<Rightarrow> string \<Rightarrow> selector_map \<Rightarrow> selector_map" where
  "push_selector sel k m = m(k \<mapsto> (case m k of None \<Rightarrow> [] | Some v \<Rightarrow> v) @ [sel])"

definition AddHost :: "base_api \<Rightarrow> string \<Rightarrow> content_filter \<Rightarrow> content_filter" where
  "AddHost B host F =
     (let h = NormalizeHost B host
      in if LooksLikeDomain B h then F\<lparr>blocked_hosts := insert h (blocked_hosts F)\<rparr> else F)"

definition AddAllowedHost :: "base_api \<Rightarrow> string \<Rightarrow> content_filter \<Rightarrow> content_filter" where
  "AddAllowedHost B host F =
     (let normalized = NormalizeHost B host
      in if LooksLikeDomain B normalized
         then F\<lparr>allowed_hosts := insert normalized (allowed_hosts F)\<rparr> else F)"

definition LoadBuiltinList :: "base_api \<Rightarrow> content_filter \<Rightarrow> content_filter" where
  "LoadBuiltinList B F =
     (let F1 = fold (AddHost B) kBuiltinBlocklist F
      in F1\<lparr>generic_hide_selectors := generic_hide_selectors F1 @ kBuiltinCosmetic\<rparr>)"

subsection \<open>Reading the lists from disk\<close>

text \<open>
  \<^verbatim>\<open>ReadBlinkerUserFile\<close>: \<open>fs dir leaf\<close> is what \<^verbatim>\<open>ReadFileToString\<close> yields for that
  file, \<open>docs\<close> is \<^verbatim>\<open>BlinkDocumentsDir()\<close>.
\<close>

definition ReadBlinkerUserFile ::
  "(string \<Rightarrow> string \<Rightarrow> string option) \<Rightarrow> string option \<Rightarrow> string \<Rightarrow> string option" where
  "ReadBlinkerUserFile fs docs leaf =
     (case fs ''/var/mobile/Documents'' leaf of
        Some contents \<Rightarrow> Some contents
      | None \<Rightarrow> (case docs of None \<Rightarrow> None | Some dir \<Rightarrow> fs dir leaf))"

text \<open>The lines the two reading loops see: split at newlines, none after a final newline.\<close>

function text_lines :: "string \<Rightarrow> string list" where
  "text_lines text =
     (if text = [] then []
      else case sv_find_char CHR 0x0A text of
             None \<Rightarrow> [text]
           | Some eol \<Rightarrow> take eol text # text_lines (drop (eol + 1) text))"
  by pat_completeness auto
termination
  by (relation "measure length") auto

declare text_lines.simps [simp del]

definition is_blank :: "char \<Rightarrow> bool" where
  "is_blank c \<longleftrightarrow> c = CHR '' '' \<or> c = CHR 0x09 \<or> c = CHR 0x0D"

definition is_space_or_tab :: "char \<Rightarrow> bool" where
  "is_space_or_tab c \<longleftrightarrow> c = CHR '' '' \<or> c = CHR 0x09"

text \<open>One iteration of \<^verbatim>\<open>LoadUserListFromDisk\<close>: the text given to AddHost, if any.\<close>

definition user_list_entry :: "string \<Rightarrow> string option" where
  "user_list_entry line0 =
     (let line1 = (case sv_find_char CHR ''#'' line0 of None \<Rightarrow> line0 | Some hash \<Rightarrow> take hash line0);
          line2 = sv_trim_back is_blank (sv_trim_front is_blank line1)
      in if line2 = [] then None
         else case sv_find_first_of [CHR '' '', CHR 0x09] line2 of
                None \<Rightarrow> Some line2
              | Some sp \<Rightarrow>
                  (let first = take sp line2
                   in if first = ''0.0.0.0'' \<or> first = ''127.0.0.1'' \<or> first = ''::1''
                      then Some (sv_trim_front is_space_or_tab (drop (sp + 1) line2))
                      else Some line2))"

definition user_list_step ::
  "base_api \<Rightarrow> string \<Rightarrow> content_filter \<times> nat \<Rightarrow> content_filter \<times> nat" where
  "user_list_step B line = (\<lambda>(F, added).
     case user_list_entry line of
       None \<Rightarrow> (F, added)
     | Some host \<Rightarrow>
         (let before = card (blocked_hosts F); F' = AddHost B host F
          in (F', if card (blocked_hosts F') \<noteq> before then added + 1 else added)))"

definition LoadUserListFromDisk ::
  "base_api \<Rightarrow> (string \<Rightarrow> string option) \<Rightarrow> content_filter \<Rightarrow> content_filter \<times> log_line list" where
  "LoadUserListFromDisk B read F =
     (case read ''blinker_blocklist.txt'' of
        None \<Rightarrow> (F, [])
      | Some contents \<Rightarrow>
          (let (F', added) = fold (user_list_step B) (text_lines contents) (F, 0)
           in (F', if added \<noteq> 0
                   then [BLINKER_DIAG ''ADBLOCK: loaded %zu extra host rules from user list''
                           [LNum added]]
                   else [])))"

text \<open>
  \<^verbatim>\<open>ParseFilterLine\<close>: one line of Adblock Plus / uBO / EasyList syntax, with every early
  return of the source.
\<close>

definition ParseFilterLine :: "base_api \<Rightarrow> string \<Rightarrow> content_filter \<Rightarrow> content_filter" where
  "ParseFilterLine B line0 F =
     (let line = sv_trim_back is_blank (sv_trim_front is_blank line0) in
      if line = [] \<or> hd line = CHR ''!'' \<or> hd line = CHR ''['' then F
      else case sv_find ''#@#'' line of
        Some p \<Rightarrow>
          (let sel = drop (p + 3) line
           in if IsSafeSelector sel
              then F\<lparr>host_hide_exceptions :=
                     fold (\<lambda>d. push_selector sel (NormalizeHost B d))
                       (ForEachDomain B (take p line)) (host_hide_exceptions F)\<rparr>
              else F)
      | None \<Rightarrow>
        if sv_contains line ''#?#'' \<or> sv_contains line ''#$#'' \<or> sv_contains line ''#%#'' then F
        else case sv_find ''##'' line of
          Some p \<Rightarrow>
            (let sel = drop (p + 2) line in
             if \<not> IsSafeSelector sel then F
             else (let domains = take p line
                   in if domains = []
                      then F\<lparr>generic_hide_selectors := generic_hide_selectors F @ [sel]\<rparr>
                      else F\<lparr>host_hide_selectors :=
                             fold (\<lambda>d. push_selector sel (NormalizeHost B d))
                               (ForEachDomain B domains) (host_hide_selectors F)\<rparr>))
        | None \<Rightarrow>
            (let exception = sv_starts_with line ''@@'';
                 line1 = (if exception then drop 2 line else line) in
             if exception \<and> \<not> sv_starts_with line1 ''||'' then F
             else
               (let line2 = (if sv_starts_with line1 ''||'' then drop 2 line1 else line1);
                    line3 = (if sv_ends_with line2 ''^'' then butlast line2 else line2)
                in if \<not> LooksLikeDomain B line3 then F
                   else if exception then AddAllowedHost B line3 F
                   else AddHost B line3 F)))"

definition LoadFilterListsFromDisk ::
  "base_api \<Rightarrow> (string \<Rightarrow> string option) \<Rightarrow> content_filter \<Rightarrow> content_filter \<times> log_line list" where
  "LoadFilterListsFromDisk B read F =
     (case read ''blinker_filters.txt'' of
        None \<Rightarrow> (F, [])
      | Some contents \<Rightarrow>
          (let hosts_before = card (blocked_hosts F);
               F' = fold (ParseFilterLine B) (text_lines contents) F
           in (F', [BLINKER_DIAG ''ADBLOCK: filter list +%zu net, %zu generic + %zu host cosmetic''
                      [LNum (card (blocked_hosts F') - hosts_before),
                       LNum (length (generic_hide_selectors F')),
                       LNum (card (dom (host_hide_selectors F')))]])))"

subsection \<open>Element hiding\<close>

text \<open>\<^verbatim>\<open>if (!css.empty()) css += ','; css += s;\<close>\<close>

definition css_append :: "string \<Rightarrow> string \<Rightarrow> string" where
  "css_append s css = (if css = [] then s else css @ '','' @ s)"

definition kMaxGeneric :: nat where "kMaxGeneric = 30000"

fun build_generic_loop :: "nat \<Rightarrow> string list \<Rightarrow> string \<Rightarrow> string" where
  "build_generic_loop n [] css = css"
| "build_generic_loop n (s # ss) css =
     (if n \<ge> kMaxGeneric then css else build_generic_loop (n + 1) ss (css_append s css))"

definition BuildGenericCSS :: "content_filter \<Rightarrow> content_filter" where
  "BuildGenericCSS F =
     F\<lparr>generic_hide_css := build_generic_loop 0 (generic_hide_selectors F) (generic_hide_css F)\<rparr>"

text \<open>The closure \<^verbatim>\<open>CosmeticCSSFor\<close> runs on the host and each parent.\<close>

definition gather_rules ::
  "content_filter \<Rightarrow> string \<Rightarrow> string set \<times> string list \<Rightarrow> string set \<times> string list" where
  "gather_rules F key = (\<lambda>(exceptions, host_specific).
     (case host_hide_exceptions F key of None \<Rightarrow> exceptions | Some ss \<Rightarrow> exceptions \<union> set ss,
      case host_hide_selectors F key of None \<Rightarrow> host_specific | Some ss \<Rightarrow> host_specific @ ss))"

definition append_unless_excepted :: "string set \<Rightarrow> string \<Rightarrow> string \<Rightarrow> string" where
  "append_unless_excepted exceptions s css = (if s \<in> exceptions then css else css_append s css)"

definition CosmeticCSSFor :: "base_api \<Rightarrow> content_filter \<Rightarrow> string \<Rightarrow> string" where
  "CosmeticCSSFor B F host =
     (if \<not> enabled F then []
      else
        (let h = NormalizeHost B host;
             (exceptions, host_specific) =
                fold (gather_rules F) (ForEachHostAndParent B h) ({}, []);
             css0 = (if exceptions = {} then generic_hide_css F
                     else fold (append_unless_excepted exceptions) (generic_hide_selectors F) []);
             css = fold (append_unless_excepted exceptions) host_specific css0
         in if css = [] then [] else css @ ''{display:none!important}''))"

subsection \<open>Loading, switching and counting\<close>

definition SetEnabled :: "bool \<Rightarrow> content_filter \<Rightarrow> content_filter" where
  "SetEnabled b F = F\<lparr>enabled := b\<rparr>"

definition RecordBlocked :: "content_filter \<Rightarrow> content_filter" where
  "RecordBlocked F = F\<lparr>blocked_count := blocked_count F + 1\<rparr>"

definition rule_count :: "content_filter \<Rightarrow> nat" where
  "rule_count F = card (blocked_hosts F)"

definition EnsureLoaded ::
  "base_api \<Rightarrow> (string \<Rightarrow> string option) \<Rightarrow> cf_value option \<Rightarrow> content_filter
     \<Rightarrow> content_filter \<times> log_line list" where
  "EnsureLoaded B read pref F =
     (if loaded F then (F, [])
      else
        (let F1 = LoadBuiltinList B (F\<lparr>loaded := True\<rparr>);
             (F2, l2) = LoadUserListFromDisk B read F1;
             (F3, l3) = LoadFilterListsFromDisk B read F2;
             F4 = BuildGenericCSS F3;
             persisted_enabled = (case pref of Some (CFBoolean b) \<Rightarrow> b | _ \<Rightarrow> True);
             F5 = SetEnabled persisted_enabled F4
         in (F5, l2 @ l3 @
              [BLINKER_DIAG ''ADBLOCK: %zu host rules loaded, enabled=%d''
                 [LNum (card (blocked_hosts F5)), LNum (if enabled F5 then 1 else 0)]])))"

subsection \<open>The request decision\<close>

definition verification_exempt :: "base_api \<Rightarrow> gurl \<Rightarrow> bool" where
  "verification_exempt B url =
     (let host = NormalizeHost B (url_host url);
          path = url_path url;
          verification_host = HasTrait host kVerificationResource;
          google_verification_path =
            (DomainIs url ''google.com'' \<or> DomainIs url ''gstatic.com'') \<and>
            (sv_contains path ''/recaptcha/'' \<or> sv_contains path ''/captcha/'')
      in verification_host \<or> google_verification_path)"

definition ShouldBlock :: "base_api \<Rightarrow> content_filter \<Rightarrow> gurl \<Rightarrow> bool" where
  "ShouldBlock B F url =
     (if \<not> enabled F then False
      else if \<not> url_has_host url \<or> \<not> url_http_or_https url then False
      else if verification_exempt B url then False
      else
        (let host = NormalizeHost B (url_host url);
             (allowed, blocked) =
               fold (\<lambda>domain (allowed, blocked).
                       (allowed \<or> domain \<in> allowed_hosts F, blocked \<or> domain \<in> blocked_hosts F))
                 (ForEachHostAndParent B host) (False, False)
         in blocked \<and> \<not> allowed))"

subsection \<open>The throttle\<close>

text \<open>
  \<^verbatim>\<open>WillStartRequest\<close> and \<^verbatim>\<open>WillRedirectRequest\<close>: the new filter, whether the request was
  cancelled with \<^verbatim>\<open>ERR_BLOCKED_BY_CLIENT\<close>, and the log lines.  \<open>redirect = None\<close> is a
  null \<^verbatim>\<open>redirect_info\<close>.
\<close>

definition WillStartRequest ::
  "base_api \<Rightarrow> bool \<Rightarrow> gurl \<Rightarrow> content_filter \<Rightarrow> content_filter \<times> bool \<times> log_line list" where
  "WillStartRequest B priv url F =
     (if ShouldBlock B F url then
        (let F' = RecordBlocked F; n = blocked_count F'
         in (F', True,
             if n \<le> 12
             then [BLINKER_DIAG ''ADBLOCK_HIT #%llu: %.200s''
                     [LNum (unat n), LUrl (LoggableURLSpec priv url)]]
             else []))
      else (F, False, []))"

definition WillRedirectRequest ::
  "base_api \<Rightarrow> gurl option \<Rightarrow> content_filter \<Rightarrow> content_filter \<times> bool" where
  "WillRedirectRequest B redirect F =
     (case redirect of
        None \<Rightarrow> (F, False)
      | Some new_url \<Rightarrow>
          if ShouldBlock B F new_url then (RecordBlocked F, True) else (F, False))"

subsection \<open>Which domains a lookup visits\<close>

lemma label_suffix_first:
  "CHR ''.'' \<notin> set pre \<Longrightarrow>
     label_suffix d (pre @ CHR ''.'' # rest) \<longleftrightarrow> d = pre @ CHR ''.'' # rest \<or> label_suffix d rest"
proof -
  assume pre: "CHR ''.'' \<notin> set pre"
  have "labels d = pre # labels rest \<longleftrightarrow> d = pre @ CHR ''.'' # rest"
    by (metis append_Cons append_Nil labels_append_dot labels_inject labels_no_dot pre)
  with pre show ?thesis
    by (simp add: label_suffix_def labels_append_dot labels_no_dot suffix_Cons)
qed

lemma label_suffix_no_dot: "CHR ''.'' \<notin> set h \<Longrightarrow> label_suffix d h \<longleftrightarrow> d = h"
  by (auto simp: label_suffix_iff)

lemma label_suffix_antisym: "label_suffix a b \<Longrightarrow> label_suffix b a \<Longrightarrow> a = b"
  by (metis label_suffix_def labels_inject suffix_order.antisym)

lemma set_host_parent_loop:
  assumes "label_suffix r cursor"
  shows "set (host_parent_loop (length r) cursor) = {d. label_suffix d cursor \<and> label_suffix r d}"
  using assms
proof (induction "length r" cursor rule: host_parent_loop.induct)
  case (1 cursor)
  show ?case
  proof (cases "length cursor \<le> length r")
    case True
    with "1.prems" have "cursor = r" by (auto simp: label_suffix_iff)
    then show ?thesis
      by (subst host_parent_loop.simps) (auto intro: label_suffix_antisym)
  next
    case False
    then have ne: "cursor \<noteq> r" by auto
    show ?thesis
    proof (cases "sv_find_char CHR ''.'' cursor")
      case None
      with "1.prems" ne show ?thesis by (auto simp: sv_simps label_suffix_no_dot)
    next
      case (Some dot)
      let ?pre = "take dot cursor" and ?rest = "drop (dot + 1) cursor"
      have split: "cursor = ?pre @ CHR ''.'' # ?rest"
        using sv_find_char_split [OF Some] by simp
      have pre: "CHR ''.'' \<notin> set ?pre" using Some by (simp add: sv_find_char_Some)
      have sub: "label_suffix d cursor \<longleftrightarrow> d = cursor \<or> label_suffix d ?rest" for d
        by (metis split pre label_suffix_first)
      with "1.prems" ne have r: "label_suffix r ?rest" by auto
      have "set (host_parent_loop (length r) cursor) =
          insert cursor (set (host_parent_loop (length r) ?rest))"
        using False Some by (subst host_parent_loop.simps) simp
      also have "\<dots> = insert cursor {d. label_suffix d ?rest \<and> label_suffix r d}"
        using "1.hyps" [OF False Some r] by simp
      also have "\<dots> = {d. label_suffix d cursor \<and> label_suffix r d}"
        using sub "1.prems" by auto
      finally show ?thesis .
    qed
  qed
qed

lemma set_ForEachHostAndParent:
  assumes "registry_api_ok B"
  shows "set (ForEachHostAndParent B h) =
    (let r = GetDomainAndRegistry B h
     in if r = [] then {} else {d. label_suffix d h \<and> label_suffix r d})"
  using registry_api_okD [OF assms] set_host_parent_loop
  by (simp add: ForEachHostAndParent_def Let_def)

subsection \<open>The rule stores\<close>

text \<open>
  The interface the loaders use for the two host sets: an insertion that normalises its
  argument and drops what is not a domain.  The lemmas hold for any order of insertions.
\<close>

locale host_rule_store =
  fixes add :: "string \<Rightarrow> 'f \<Rightarrow> 'f"
    and hosts :: "'f \<Rightarrow> string set"
    and key :: "string \<Rightarrow> string"
    and valid :: "string \<Rightarrow> bool"
  assumes hosts_add: "hosts (add h f) = hosts f \<union> (if valid (key h) then {key h} else {})"
begin

lemma hosts_add_mono: "hosts f \<subseteq> hosts (add h f)"
  by (simp add: hosts_add)

lemma hosts_fold: "hosts (fold add hs f) = hosts f \<union> {k \<in> key ` set hs. valid k}"
  by (induction hs arbitrary: f) (auto simp: hosts_add)

lemma hosts_fold_perm: "set hs = set hs' \<Longrightarrow> hosts (fold add hs f) = hosts (fold add hs' f)"
  by (simp add: hosts_fold)

lemma hosts_fold_valid: "(\<forall>k \<in> hosts f. valid k) \<Longrightarrow> \<forall>k \<in> hosts (fold add hs f). valid k"
  by (auto simp: hosts_fold)

end

interpretation blocked: host_rule_store "AddHost B" blocked_hosts "NormalizeHost B" "LooksLikeDomain B"
  for B
  by unfold_locales (simp add: AddHost_def Let_def)

interpretation allowed: host_rule_store "AddAllowedHost B" allowed_hosts "NormalizeHost B"
  "LooksLikeDomain B" for B
  by unfold_locales (simp add: AddAllowedHost_def Let_def)

lemma AddHost_frame [simp]:
  "enabled (AddHost B h F) = enabled F" "blocked_count (AddHost B h F) = blocked_count F"
  "allowed_hosts (AddHost B h F) = allowed_hosts F"
  "generic_hide_selectors (AddHost B h F) = generic_hide_selectors F"
  "host_hide_selectors (AddHost B h F) = host_hide_selectors F"
  "host_hide_exceptions (AddHost B h F) = host_hide_exceptions F"
  "generic_hide_css (AddHost B h F) = generic_hide_css F" "loaded (AddHost B h F) = loaded F"
  by (simp_all add: AddHost_def Let_def)

lemma AddAllowedHost_frame [simp]:
  "enabled (AddAllowedHost B h F) = enabled F"
  "blocked_count (AddAllowedHost B h F) = blocked_count F"
  "blocked_hosts (AddAllowedHost B h F) = blocked_hosts F"
  "generic_hide_selectors (AddAllowedHost B h F) = generic_hide_selectors F"
  "host_hide_selectors (AddAllowedHost B h F) = host_hide_selectors F"
  "host_hide_exceptions (AddAllowedHost B h F) = host_hide_exceptions F"
  "generic_hide_css (AddAllowedHost B h F) = generic_hide_css F"
  "loaded (AddAllowedHost B h F) = loaded F"
  by (simp_all add: AddAllowedHost_def Let_def)

subsection \<open>The decision\<close>

lemma decision_fold:
  "fold (\<lambda>d (a, b). (a \<or> d \<in> A, b \<or> d \<in> C)) ds (a0, b0) =
     (a0 \<or> (\<exists>d \<in> set ds. d \<in> A), b0 \<or> (\<exists>d \<in> set ds. d \<in> C))"
  by (induction ds arbitrary: a0 b0) auto

lemma ShouldBlock_visited:
  "ShouldBlock B F u \<longleftrightarrow> enabled F \<and> url_has_host u \<and> url_http_or_https u \<and>
     \<not> verification_exempt B u \<and>
     (\<exists>d \<in> set (ForEachHostAndParent B (NormalizeHost B (url_host u))). d \<in> blocked_hosts F) \<and>
     \<not> (\<exists>d \<in> set (ForEachHostAndParent B (NormalizeHost B (url_host u))). d \<in> allowed_hosts F)"
  by (auto simp: ShouldBlock_def decision_fold Let_def)

text \<open>\<open>covers B h d\<close>: a rule for \<open>d\<close> applies to the (normalised) host \<open>h\<close>.\<close>

definition covers :: "base_api \<Rightarrow> string \<Rightarrow> string \<Rightarrow> bool" where
  "covers B h d \<longleftrightarrow> GetDomainAndRegistry B h \<noteq> [] \<and> label_suffix d h \<and>
     label_suffix (GetDomainAndRegistry B h) d"

lemma visited_covers:
  "registry_api_ok B \<Longrightarrow> d \<in> set (ForEachHostAndParent B h) \<longleftrightarrow> covers B h d"
  by (auto simp: set_ForEachHostAndParent covers_def Let_def)

lemma ShouldBlock_covers:
  "registry_api_ok B \<Longrightarrow> ShouldBlock B F u \<longleftrightarrow>
    enabled F \<and> url_has_host u \<and> url_http_or_https u \<and> \<not> verification_exempt B u \<and>
    (\<exists>d \<in> blocked_hosts F. covers B (NormalizeHost B (url_host u)) d) \<and>
    \<not> (\<exists>d \<in> allowed_hosts F. covers B (NormalizeHost B (url_host u)) d)"
  by (auto simp: ShouldBlock_visited visited_covers)

text \<open>
  C1: a request is blocked exactly when blocking is on, the URL is an http(s) URL with a
  host, it is no human-verification resource, some rule covers its host and no exception
  covers it; a rule covers the host when the host is the rule's domain or lies under it
  by whole labels and the rule's domain is at least the host's registrable domain.
\<close>

theorem ShouldBlock_iff:
  assumes "registry_api_ok B"
  shows "ShouldBlock B F u \<longleftrightarrow>
    enabled F \<and> url_has_host u \<and> url_http_or_https u \<and> \<not> verification_exempt B u \<and>
    (\<exists>d \<in> blocked_hosts F. covers B (NormalizeHost B (url_host u)) d) \<and>
    \<not> (\<exists>d \<in> allowed_hosts F. covers B (NormalizeHost B (url_host u)) d)"
  using assms by (rule ShouldBlock_covers)

text \<open>
  a rule for a public suffix (a proper parent of the registrable domain, such as
  co.uk for ads.example.co.uk) never decides a request: adding it to the blocked hosts
  or to the exceptions leaves the decision unchanged.
\<close>

lemma public_suffix_rule_ignored:
  assumes "registry_api_ok B"
    and "length d < length (GetDomainAndRegistry B (NormalizeHost B (url_host u)))"
  shows "ShouldBlock B (F\<lparr>blocked_hosts := insert d (blocked_hosts F)\<rparr>) u = ShouldBlock B F u \<and>
         ShouldBlock B (F\<lparr>allowed_hosts := insert d (allowed_hosts F)\<rparr>) u = ShouldBlock B F u"
proof -
  have "\<not> covers B (NormalizeHost B (url_host u)) d"
    using assms(2) label_suffix_length by (force simp: covers_def)
  with assms(1) show ?thesis by (auto simp: ShouldBlock_covers)
qed

subsection \<open>The parser as reading and effect\<close>

text \<open>
  The parser splits into a reading of the line as a rule and the effect of the rule on the
  store; the proofs about parsed rules go through this split.  What a line means, stated on
  its text alone, is in \<^verbatim>\<open>Filter_Syntax\<close>.
\<close>

datatype filter_rule =
    NoRule
  | Unhide "string list" string
  | HideEverywhere string
  | Hide "string list" string
  | AllowHost string
  | BlockHost string

definition classify_network :: "base_api \<Rightarrow> string \<Rightarrow> filter_rule" where
  "classify_network B line =
     (let exception = sv_starts_with line ''@@'';
          body = (if exception then drop 2 line else line);
          anchored = sv_starts_with body ''||'';
          body1 = (if anchored then drop 2 body else body);
          body2 = (if sv_ends_with body1 ''^'' then butlast body1 else body1)
      in if exception \<and> \<not> anchored \<or> \<not> LooksLikeDomain B body2 then NoRule
         else if exception then AllowHost body2 else BlockHost body2)"

definition classify_text :: "base_api \<Rightarrow> string \<Rightarrow> filter_rule" where
  "classify_text B line =
     (if line = [] \<or> hd line = CHR ''!'' \<or> hd line = CHR ''['' then NoRule
      else case sv_find ''#@#'' line of
        Some p \<Rightarrow> if IsSafeSelector (drop (p + 3) line)
                  then Unhide (ForEachDomain B (take p line)) (drop (p + 3) line) else NoRule
      | None \<Rightarrow>
        if sv_contains line ''#?#'' \<or> sv_contains line ''#$#'' \<or> sv_contains line ''#%#'' then NoRule
        else case sv_find ''##'' line of
          Some p \<Rightarrow> if \<not> IsSafeSelector (drop (p + 2) line) then NoRule
                    else if take p line = [] then HideEverywhere (drop (p + 2) line)
                    else Hide (ForEachDomain B (take p line)) (drop (p + 2) line)
        | None \<Rightarrow> classify_network B line)"

definition classify_line :: "base_api \<Rightarrow> string \<Rightarrow> filter_rule" where
  "classify_line B line0 = classify_text B (sv_trim_back is_blank (sv_trim_front is_blank line0))"

fun apply_rule :: "base_api \<Rightarrow> filter_rule \<Rightarrow> content_filter \<Rightarrow> content_filter" where
  "apply_rule B NoRule F = F"
| "apply_rule B (Unhide ds sel) F =
     F\<lparr>host_hide_exceptions :=
         fold (\<lambda>d. push_selector sel (NormalizeHost B d)) ds (host_hide_exceptions F)\<rparr>"
| "apply_rule B (HideEverywhere sel) F =
     F\<lparr>generic_hide_selectors := generic_hide_selectors F @ [sel]\<rparr>"
| "apply_rule B (Hide ds sel) F =
     F\<lparr>host_hide_selectors :=
         fold (\<lambda>d. push_selector sel (NormalizeHost B d)) ds (host_hide_selectors F)\<rparr>"
| "apply_rule B (AllowHost d) F = AddAllowedHost B d F"
| "apply_rule B (BlockHost d) F = AddHost B d F"

lemma ParseFilterLine_refines: "ParseFilterLine B l F = apply_rule B (classify_line B l) F"
proof -
  let ?l = "sv_trim_back is_blank (sv_trim_front is_blank l)"
  have net: "(let exception = sv_starts_with line ''@@'';
            line1 = (if exception then drop 2 line else line) in
         if exception \<and> \<not> sv_starts_with line1 ''||'' then F
         else
           (let line2 = (if sv_starts_with line1 ''||'' then drop 2 line1 else line1);
                line3 = (if sv_ends_with line2 ''^'' then butlast line2 else line2)
            in if \<not> LooksLikeDomain B line3 then F
               else if exception then AddAllowedHost B line3 F
               else AddHost B line3 F)) = apply_rule B (classify_network B line) F" for line
    unfolding classify_network_def Let_def by auto
  show ?thesis
    unfolding ParseFilterLine_def classify_line_def classify_text_def
    by (simp only: Let_def [of ?l] net)
      (cases "sv_find ''#@#'' ?l"; cases "sv_find ''##'' ?l"; simp add: Let_def)
qed

text \<open>A rule is well formed when what it stores passed the checks of the source.\<close>

fun rule_ok :: "base_api \<Rightarrow> filter_rule \<Rightarrow> bool" where
  "rule_ok B NoRule \<longleftrightarrow> True"
| "rule_ok B (Unhide ds sel) \<longleftrightarrow> IsSafeSelector sel"
| "rule_ok B (HideEverywhere sel) \<longleftrightarrow> IsSafeSelector sel"
| "rule_ok B (Hide ds sel) \<longleftrightarrow> IsSafeSelector sel"
| "rule_ok B (AllowHost d) \<longleftrightarrow> LooksLikeDomain B d"
| "rule_ok B (BlockHost d) \<longleftrightarrow> LooksLikeDomain B d"

lemma classify_line_ok: "rule_ok B (classify_line B l)"
  by (simp add: classify_line_def classify_text_def classify_network_def Let_def split: option.split)

text \<open>The texts of a network rule: no path, option or wildcard is ever dropped.\<close>

lemma classify_network_BlockHost:
  "classify_network B line = BlockHost d \<Longrightarrow>
     line \<in> {d, ''||'' @ d, d @ ''^'', ''||'' @ d @ ''^''}"
  by (auto simp: classify_network_def Let_def sv_simps prefix_def suffix_def split: if_splits)

lemma classify_network_AllowHost:
  "classify_network B line = AllowHost d \<Longrightarrow> line \<in> {''@@||'' @ d, ''@@||'' @ d @ ''^''}"
  by (auto simp: classify_network_def Let_def sv_simps prefix_def suffix_def split: if_splits)

lemma classify_line_network:
  "classify_line B l = BlockHost d \<or> classify_line B l = AllowHost d \<Longrightarrow>
     classify_network B (sv_trim_back is_blank (sv_trim_front is_blank l)) = classify_line B l"
  by (auto simp: classify_line_def classify_text_def Let_def split: option.splits if_splits)

text \<open>
  a filter line adds a blocked host only if, blanks trimmed, it is a bare domain
  with an optional || anchor and an optional ^ terminator, and it adds an exception only
  if it is such a domain behind @@||; a line with a path, options, a wildcard or any
  other constraint changes neither host set.
\<close>

lemma ParseFilterLine_no_broadening:
  "let line = sv_trim_back is_blank (sv_trim_front is_blank l); F' = ParseFilterLine B l F in
   (blocked_hosts F' = blocked_hosts F \<or>
      (\<exists>d. LooksLikeDomain B d \<and> line \<in> {d, ''||'' @ d, d @ ''^'', ''||'' @ d @ ''^''} \<and>
           blocked_hosts F' = insert (NormalizeHost B d) (blocked_hosts F))) \<and>
   (allowed_hosts F' = allowed_hosts F \<or>
      (\<exists>d. LooksLikeDomain B d \<and> line \<in> {''@@||'' @ d, ''@@||'' @ d @ ''^''} \<and>
           allowed_hosts F' = insert (NormalizeHost B d) (allowed_hosts F)))"
proof (cases "classify_line B l")
  case (BlockHost d)
  then have net: "classify_network B (sv_trim_back is_blank (sv_trim_front is_blank l)) = BlockHost d"
    using classify_line_network by metis
  have ok: "LooksLikeDomain B d" using classify_line_ok [of B l] BlockHost by simp
  show ?thesis
    using BlockHost ok classify_network_BlockHost [OF net] blocked.hosts_add [of B d F]
    unfolding Let_def ParseFilterLine_refines by (auto split: if_splits)
next
  case (AllowHost d)
  then have net: "classify_network B (sv_trim_back is_blank (sv_trim_front is_blank l)) = AllowHost d"
    using classify_line_network by metis
  have ok: "LooksLikeDomain B d" using classify_line_ok [of B l] AllowHost by simp
  show ?thesis
    using AllowHost ok classify_network_AllowHost [OF net] allowed.hosts_add [of B d F]
    unfolding Let_def ParseFilterLine_refines by (auto split: if_splits)
qed (simp_all add: ParseFilterLine_refines Let_def)

subsection \<open>The store's invariant\<close>

definition selectors_safe :: "selector_map \<Rightarrow> bool" where
  "selectors_safe m \<longleftrightarrow> (\<forall>k ss. m k = Some ss \<longrightarrow> list_all IsSafeSelector ss)"

definition css_clean :: "string \<Rightarrow> bool" where
  "css_clean s \<longleftrightarrow> set s \<inter> set unsafe_chars = {}"

definition filter_ok :: "base_api \<Rightarrow> content_filter \<Rightarrow> bool" where
  "filter_ok B F \<longleftrightarrow>
     (\<forall>h \<in> blocked_hosts F \<union> allowed_hosts F. LooksLikeDomain B h) \<and>
     list_all IsSafeSelector (generic_hide_selectors F) \<and>
     selectors_safe (host_hide_selectors F) \<and> selectors_safe (host_hide_exceptions F) \<and>
     css_clean (generic_hide_css F)"

lemma filter_ok_new: "filter_ok B new_filter"
  by (simp add: filter_ok_def new_filter_def selectors_safe_def css_clean_def)

lemma selectors_safe_push:
  "IsSafeSelector sel \<Longrightarrow> selectors_safe m \<Longrightarrow> selectors_safe (push_selector sel k m)"
  by (auto simp: selectors_safe_def push_selector_def split: option.splits)

lemma selectors_safe_fold_push:
  "IsSafeSelector sel \<Longrightarrow> selectors_safe m \<Longrightarrow>
     selectors_safe (fold (\<lambda>d. push_selector sel (f d)) ds m)"
  by (induction ds arbitrary: m) (simp_all add: selectors_safe_push)

lemma AddHost_ok: "filter_ok B F \<Longrightarrow> filter_ok B (AddHost B h F)"
  by (auto simp: filter_ok_def blocked.hosts_add)

lemma AddAllowedHost_ok: "filter_ok B F \<Longrightarrow> filter_ok B (AddAllowedHost B h F)"
  by (auto simp: filter_ok_def allowed.hosts_add)

lemma apply_rule_ok: "rule_ok B r \<Longrightarrow> filter_ok B F \<Longrightarrow> filter_ok B (apply_rule B r F)"
  by (cases r) (simp_all add: AddHost_ok AddAllowedHost_ok, simp_all add: filter_ok_def
      selectors_safe_fold_push)

lemma ParseFilterLine_ok: "filter_ok B F \<Longrightarrow> filter_ok B (ParseFilterLine B l F)"
  by (simp add: ParseFilterLine_refines apply_rule_ok classify_line_ok)

lemma fold_ok: "(\<And>x F. P F \<Longrightarrow> P (f x F)) \<Longrightarrow> P F \<Longrightarrow> P (fold f xs F)"
  by (induction xs arbitrary: F) simp_all

lemma builtin_cosmetic_safe: "list_all IsSafeSelector kBuiltinCosmetic"
  by code_simp

lemma LoadBuiltinList_ok: "filter_ok B F \<Longrightarrow> filter_ok B (LoadBuiltinList B F)"
proof -
  assume "filter_ok B F"
  then have "filter_ok B (fold (AddHost B) kBuiltinBlocklist F)"
    by (intro fold_ok [where P = "filter_ok B"] AddHost_ok)
  with builtin_cosmetic_safe show ?thesis by (simp add: LoadBuiltinList_def Let_def filter_ok_def)
qed

lemma user_list_step_fst: "fst (user_list_step B l Fn) =
    (case user_list_entry l of None \<Rightarrow> fst Fn | Some h \<Rightarrow> AddHost B h (fst Fn))"
  by (auto simp: user_list_step_def Let_def split: option.splits prod.splits)

lemma fold_user_list_fst:
  "fst (fold (user_list_step B) ls Fn) = fold (AddHost B) (List.map_filter user_list_entry ls) (fst Fn)"
  by (induction ls arbitrary: Fn)
    (simp_all add: user_list_step_fst map_filter_simps split: option.splits)

lemma LoadUserListFromDisk_fst:
  "fst (LoadUserListFromDisk B read F) =
     (case read ''blinker_blocklist.txt'' of None \<Rightarrow> F
      | Some c \<Rightarrow> fold (AddHost B) (List.map_filter user_list_entry (text_lines c)) F)"
  using fold_user_list_fst [of B _ "(F, 0)"]
  by (simp add: LoadUserListFromDisk_def case_prod_beta split: option.split)

lemma LoadUserListFromDisk_ok: "filter_ok B F \<Longrightarrow> filter_ok B (fst (LoadUserListFromDisk B read F))"
  by (auto simp: LoadUserListFromDisk_fst intro!: fold_ok [where P = "filter_ok B"] AddHost_ok split: option.splits)

lemma LoadFilterListsFromDisk_fst:
  "fst (LoadFilterListsFromDisk B read F) =
     (case read ''blinker_filters.txt'' of None \<Rightarrow> F
      | Some c \<Rightarrow> fold (ParseFilterLine B) (text_lines c) F)"
  by (auto simp: LoadFilterListsFromDisk_def Let_def split: option.splits)

lemma LoadFilterListsFromDisk_ok:
  "filter_ok B F \<Longrightarrow> filter_ok B (fst (LoadFilterListsFromDisk B read F))"
  by (auto simp: LoadFilterListsFromDisk_fst intro!: fold_ok [where P = "filter_ok B"] ParseFilterLine_ok split: option.splits)

subsection \<open>The stylesheet\<close>

text \<open>The specification of the joins: the selectors separated by commas.\<close>

fun comma_join :: "string list \<Rightarrow> string" where
  "comma_join [] = []"
| "comma_join (s # ss) = s @ concat (map (\<lambda>t. CHR '','' # t) ss)"

lemma fold_css_append_from:
  "css \<noteq> [] \<Longrightarrow> fold css_append ss css = css @ concat (map (\<lambda>t. CHR '','' # t) ss)"
  by (induction ss arbitrary: css) (simp_all add: css_append_def)

lemma fold_css_append: "list_all IsSafeSelector ss \<Longrightarrow> fold css_append ss [] = comma_join ss"
  by (cases ss) (simp_all add: css_append_def fold_css_append_from IsSafeSelector_def)

lemma fold_append_unless:
  "fold (append_unless_excepted E) ss css = fold css_append (filter (\<lambda>s. s \<notin> E) ss) css"
  by (induction ss arbitrary: css) (simp_all add: append_unless_excepted_def)

lemma build_generic_loop_fold:
  "build_generic_loop n ss css = fold css_append (take (kMaxGeneric - n) ss) css"
proof (induction ss arbitrary: n css)
  case (Cons s ss)
  show ?case
  proof (cases "n \<ge> kMaxGeneric")
    case False
    then have "kMaxGeneric - n = Suc (kMaxGeneric - (n + 1))" by simp
    with False Cons show ?thesis by simp
  qed simp
qed simp

lemma list_all_filter_subset: "list_all P xs \<Longrightarrow> list_all P (filter Q xs)"
  by (auto simp: list_all_iff)

lemma list_all_take: "list_all P xs \<Longrightarrow> list_all P (take n xs)"
  by (auto simp: list_all_iff dest: in_set_takeD)

lemma safe_css_clean: "IsSafeSelector s \<Longrightarrow> css_clean s"
  by (auto simp: IsSafeSelector_def css_clean_def list_all_iff)

lemma css_clean_simps [simp]:
  "css_clean []" "css_clean (a @ b) \<longleftrightarrow> css_clean a \<and> css_clean b"
  "css_clean (c # a) \<longleftrightarrow> c \<notin> set unsafe_chars \<and> css_clean a"
  by (auto simp: css_clean_def)

lemma css_append_clean: "css_clean s \<Longrightarrow> css_clean css \<Longrightarrow> css_clean (css_append s css)"
  by (simp add: css_append_def unsafe_chars_def)

lemma fold_css_append_clean:
  "list_all IsSafeSelector ss \<Longrightarrow> css_clean css \<Longrightarrow> css_clean (fold css_append ss css)"
  by (induction ss arbitrary: css) (simp_all add: css_append_clean safe_css_clean)

lemma BuildGenericCSS_ok: "filter_ok B F \<Longrightarrow> filter_ok B (BuildGenericCSS F)"
  by (simp add: BuildGenericCSS_def build_generic_loop_fold filter_ok_def fold_css_append_clean
      list_all_take)

definition stored :: "selector_map \<Rightarrow> string \<Rightarrow> string list" where
  "stored m k = (case m k of None \<Rightarrow> [] | Some ss \<Rightarrow> ss)"

lemma fold_gather_rules:
  "fold (gather_rules F) ks (E, S) =
     (E \<union> (\<Union>k \<in> set ks. set (stored (host_hide_exceptions F) k)),
      S @ concat (map (stored (host_hide_selectors F)) ks))"
  by (induction ks arbitrary: E S) (auto simp: gather_rules_def stored_def split: option.splits)

text \<open>
  The exceptions and the host rules in force on a page, and the selectors its stylesheet
  should list: the generic ones, then the host's, without the excepted ones.
\<close>

definition page_exceptions :: "base_api \<Rightarrow> content_filter \<Rightarrow> string \<Rightarrow> string set" where
  "page_exceptions B F host =
     (\<Union>k \<in> set (ForEachHostAndParent B (NormalizeHost B host)).
        set (stored (host_hide_exceptions F) k))"

definition page_host_rules :: "base_api \<Rightarrow> content_filter \<Rightarrow> string \<Rightarrow> string list" where
  "page_host_rules B F host =
     concat (map (stored (host_hide_selectors F)) (ForEachHostAndParent B (NormalizeHost B host)))"

definition page_selectors :: "base_api \<Rightarrow> content_filter \<Rightarrow> string \<Rightarrow> string list" where
  "page_selectors B F host =
     (let E = page_exceptions B F host
      in filter (\<lambda>s. s \<notin> E)
           ((if E = {} then take kMaxGeneric (generic_hide_selectors F)
             else generic_hide_selectors F) @ page_host_rules B F host))"

text \<open>The cached join is in step with the rules, as BuildGenericCSS leaves it.\<close>

definition css_synced :: "content_filter \<Rightarrow> bool" where
  "css_synced F \<longleftrightarrow>
     generic_hide_css F = comma_join (take kMaxGeneric (generic_hide_selectors F))"

lemma stored_safe: "selectors_safe m \<Longrightarrow> list_all IsSafeSelector (stored m k)"
  by (auto simp: selectors_safe_def stored_def split: option.splits)

lemma page_host_rules_safe:
  "filter_ok B F \<Longrightarrow> list_all IsSafeSelector (page_host_rules B F host)"
proof -
  assume "filter_ok B F"
  then have "list_all IsSafeSelector (stored (host_hide_selectors F) k)" for k
    by (simp add: filter_ok_def stored_safe)
  then show ?thesis by (auto simp: page_host_rules_def list_all_iff)
qed

lemma page_selectors_safe: "filter_ok B F \<Longrightarrow> list_all IsSafeSelector (page_selectors B F host)"
  unfolding page_selectors_def Let_def using page_host_rules_safe
  by (intro list_all_filter_subset) (simp add: filter_ok_def list_all_take)

lemma CosmeticCSSFor_gathered:
  "CosmeticCSSFor B F host =
     (if \<not> enabled F then []
      else (let E = page_exceptions B F host;
                css0 = (if E = {} then generic_hide_css F
                        else fold css_append (filter (\<lambda>s. s \<notin> E) (generic_hide_selectors F)) []);
                css = fold css_append (filter (\<lambda>s. s \<notin> E) (page_host_rules B F host)) css0
            in if css = [] then [] else css @ ''{display:none!important}''))"
  unfolding CosmeticCSSFor_def page_exceptions_def page_host_rules_def fold_gather_rules
    fold_append_unless Let_def
  by simp

lemma comma_join_eq_Nil: "list_all IsSafeSelector ss \<Longrightarrow> comma_join ss = [] \<longleftrightarrow> ss = []"
  by (cases ss) (auto simp: IsSafeSelector_def)

lemma CosmeticCSSFor_page_selectors:
  assumes "enabled F" "filter_ok B F" "css_synced F"
  shows "CosmeticCSSFor B F host =
    (if page_selectors B F host = [] then []
     else comma_join (page_selectors B F host) @ ''{display:none!important}'')"
proof -
  let ?E = "page_exceptions B F host"
  let ?gen = "if ?E = {} then take kMaxGeneric (generic_hide_selectors F)
              else generic_hide_selectors F"
  have safe_gen: "list_all IsSafeSelector (generic_hide_selectors F)"
    using assms(2) by (simp add: filter_ok_def)
  have "(if ?E = {} then generic_hide_css F
         else fold css_append (filter (\<lambda>s. s \<notin> ?E) (generic_hide_selectors F)) []) =
        fold css_append (filter (\<lambda>s. s \<notin> ?E) ?gen) []"
    using assms(3) fold_css_append [OF list_all_take [OF safe_gen]] by (simp add: css_synced_def)
  moreover have "fold css_append (page_selectors B F host) [] = comma_join (page_selectors B F host)"
    using page_selectors_safe [OF assms(2)] by (rule fold_css_append)
  ultimately show ?thesis
    using assms(1) comma_join_eq_Nil [OF page_selectors_safe [OF assms(2)], of host]
    unfolding CosmeticCSSFor_gathered
    by (simp add: Let_def page_selectors_def)
qed

text \<open>
  on a loaded, enabled filter the page's stylesheet hides exactly the generic
  selectors followed by the selectors of the host and its parents, less every selector
  excepted for one of them, comma-separated, in one display:none rule; the cached join
  and the join rebuilt under exceptions agree, but only the cached one stops at 30000
  selectors.
\<close>

lemma CosmeticCSSFor_spec:
  assumes "enabled F" "filter_ok B F" "css_synced F"
  shows "CosmeticCSSFor B F host =
    (if page_selectors B F host = [] then []
     else comma_join (page_selectors B F host) @ ''{display:none!important}'') \<and>
    (\<forall>s \<in> set (page_selectors B F host). s \<notin> page_exceptions B F host)"
proof
  show "\<forall>s \<in> set (page_selectors B F host). s \<notin> page_exceptions B F host"
    by (auto simp: page_selectors_def Let_def)
qed (rule CosmeticCSSFor_page_selectors [OF assms])


subsection \<open>Loading\<close>

lemma apply_rule_frame [simp]:
  "generic_hide_css (apply_rule B r F) = generic_hide_css F"
  "enabled (apply_rule B r F) = enabled F" "loaded (apply_rule B r F) = loaded F"
  "blocked_count (apply_rule B r F) = blocked_count F"
  by (cases r; simp)+

lemma ParseFilterLine_frame [simp]:
  "generic_hide_css (ParseFilterLine B l F) = generic_hide_css F"
  "enabled (ParseFilterLine B l F) = enabled F" "loaded (ParseFilterLine B l F) = loaded F"
  "blocked_count (ParseFilterLine B l F) = blocked_count F"
  by (simp_all add: ParseFilterLine_refines)

lemma fold_field: "(\<And>x F. f (g x F) = f F) \<Longrightarrow> f (fold g xs F) = f F"
  by (induction xs arbitrary: F) simp_all

lemma load_frame [simp]:
  "generic_hide_css (LoadBuiltinList B F) = generic_hide_css F"
  "generic_hide_css (fst (LoadUserListFromDisk B read F)) = generic_hide_css F"
  "generic_hide_css (fst (LoadFilterListsFromDisk B read F)) = generic_hide_css F"
  "loaded (LoadBuiltinList B F) = loaded F"
  "loaded (fst (LoadUserListFromDisk B read F)) = loaded F"
  "loaded (fst (LoadFilterListsFromDisk B read F)) = loaded F"
  by (simp_all add: LoadBuiltinList_def LoadUserListFromDisk_fst LoadFilterListsFromDisk_fst
      Let_def fold_field split: option.split)

lemma apply_rule_mono: "blocked_hosts F \<subseteq> blocked_hosts (apply_rule B r F)"
  by (cases r) (simp_all add: blocked.hosts_add_mono)

lemma fold_ParseFilterLine_mono: "blocked_hosts F \<subseteq> blocked_hosts (fold (ParseFilterLine B) ls F)"
proof (induction ls arbitrary: F)
  case (Cons l ls)
  then show ?case
    using apply_rule_mono [of F B "classify_line B l"]
    by (metis ParseFilterLine_refines fold_simps(2) order_trans)
qed simp

lemma load_lists_mono:
  "blocked_hosts F \<subseteq> blocked_hosts (fst (LoadUserListFromDisk B read F))"
  "blocked_hosts F \<subseteq> blocked_hosts (fst (LoadFilterListsFromDisk B read F))"
  using fold_ParseFilterLine_mono
  by (auto simp: LoadUserListFromDisk_fst LoadFilterListsFromDisk_fst blocked.hosts_fold
      split: option.splits)

text \<open>The stages of a first EnsureLoaded, without the log.\<close>

definition load_stages ::
  "base_api \<Rightarrow> (string \<Rightarrow> string option) \<Rightarrow> content_filter \<Rightarrow> content_filter" where
  "load_stages B read F =
     fst (LoadFilterListsFromDisk B read
       (fst (LoadUserListFromDisk B read (LoadBuiltinList B (F\<lparr>loaded := True\<rparr>)))))"

lemma EnsureLoaded_stages:
  "fst (EnsureLoaded B read pref F) =
     (if loaded F then F
      else SetEnabled (case pref of Some (CFBoolean b) \<Rightarrow> b | _ \<Rightarrow> True)
             (BuildGenericCSS (load_stages B read F)))"
  by (simp add: EnsureLoaded_def load_stages_def Let_def case_prod_beta)

lemma load_stages_frame [simp]:
  "generic_hide_css (load_stages B read F) = generic_hide_css F" "loaded (load_stages B read F)"
  by (simp_all add: load_stages_def)

lemma load_stages_ok: "filter_ok B F \<Longrightarrow> filter_ok B (load_stages B read F)"
proof -
  assume "filter_ok B F"
  then have "filter_ok B (F\<lparr>loaded := True\<rparr>)" by (simp add: filter_ok_def)
  then show ?thesis unfolding load_stages_def
    by (intro LoadFilterListsFromDisk_ok LoadUserListFromDisk_ok LoadBuiltinList_ok)
qed

text \<open>
  whatever the two files on disk contain, loading a new filter establishes the
  store's invariant (only domains among the host rules, only safe selectors), leaves the
  cached stylesheet in step with the selectors, honours the persisted switch (on unless
  stored as off), and a second call changes nothing and logs nothing.
\<close>

lemma EnsureLoaded_establishes:
  fixes B read pref
  defines "F \<equiv> fst (EnsureLoaded B read pref new_filter)"
  shows "filter_ok B F \<and> css_synced F \<and> loaded F \<and>
    (enabled F \<longleftrightarrow> pref \<noteq> Some (CFBoolean False)) \<and>
    EnsureLoaded B read' pref' F = (F, [])"
proof -
  let ?S = "load_stages B read new_filter"
  have F: "F = SetEnabled (case pref of Some (CFBoolean b) \<Rightarrow> b | _ \<Rightarrow> True) (BuildGenericCSS ?S)"
    by (simp add: F_def EnsureLoaded_stages new_filter_def)
  have ok: "filter_ok B ?S" by (rule load_stages_ok [OF filter_ok_new])
  then have "filter_ok B (BuildGenericCSS ?S)" by (rule BuildGenericCSS_ok)
  then have "filter_ok B F" by (simp add: F SetEnabled_def filter_ok_def)
  moreover have "list_all IsSafeSelector (take kMaxGeneric (generic_hide_selectors ?S))"
    using ok by (simp add: filter_ok_def list_all_take)
  then have "css_synced F"
    by (simp add: F css_synced_def SetEnabled_def BuildGenericCSS_def build_generic_loop_fold
        fold_css_append new_filter_def)
  moreover have "loaded F" by (simp add: F SetEnabled_def BuildGenericCSS_def)
  moreover have "enabled F \<longleftrightarrow> pref \<noteq> Some (CFBoolean False)"
    by (auto simp: F SetEnabled_def split: option.splits cf_value.splits)
  ultimately show ?thesis by (simp add: EnsureLoaded_def)
qed

subsection \<open>A concrete library\<close>

text \<open>The documented character functions with a given public-suffix lookup.\<close>

definition std_api :: "(string \<Rightarrow> string) \<Rightarrow> base_api" where
  "std_api reg = \<lparr>ToLowerASCII = map ascii_lower, IsAsciiAlphaNumeric = ascii_alnum,
     SplitStringPiece = (\<lambda>s sep. [s]), GetDomainAndRegistry = reg\<rparr>"

lemma std_api_ok: "ascii_api_ok (std_api reg)"
  by (simp add: ascii_api_ok_def std_api_def)

lemma ascii_api_std:
  assumes "ascii_api_ok B"
  shows "NormalizeHost B = NormalizeHost (std_api reg)"
    and "LooksLikeDomain B = LooksLikeDomain (std_api reg)"
  using assms
  by (simp_all add: fun_eq_iff NormalizeHost_def LooksLikeDomain_def ascii_api_ok_def std_api_def)

definition domain_chars :: string where
  "domain_chars = ''etaoinscrdlmpghuybfvkwxjqz.0123456789-_''"

lemma domain_chars_normal:
  "list_all (\<lambda>c. ascii_lower c = c \<and> (ascii_alnum c \<or> c = CHR ''.'' \<or> c = CHR ''-'' \<or> c = CHR ''_''))
     domain_chars"
  by code_simp

lemma host_of_domain_chars:
  assumes "set h \<subseteq> set domain_chars" "hd h \<noteq> CHR ''.''" "last h \<noteq> CHR ''.''"
    "\<not> length h < 3" "CHR ''.'' \<in> set h"
  shows "NormalizeHost (std_api reg) h = h \<and> LooksLikeDomain (std_api reg) h"
proof -
  have c: "ascii_lower c = c \<and> (ascii_alnum c \<or> c = CHR ''.'' \<or> c = CHR ''-'' \<or> c = CHR ''_'')"
    if "c \<in> set h" for c
    using domain_chars_normal assms(1) that by (auto simp: list_all_iff)
  then have "map ascii_lower h = h" by (simp add: map_idI)
  moreover have "dropWhile (\<lambda>c. c = CHR ''.'') h = h" using assms(2) by (cases h) auto
  ultimately show ?thesis
    using c assms(3-5)
    by (auto simp: NormalizeHost_def LooksLikeDomain_def std_api_def sv_trim_front_def Let_def
        list_all_iff sv_find_char_None)
qed

lemma builtin_hosts_checked:
  "list_all (\<lambda>h. h = ''vk.com/rtrg'' \<or>
       (list_all (\<lambda>c. c \<in> set domain_chars) h \<and> hd h \<noteq> CHR ''.'' \<and> last h \<noteq> CHR ''.'' \<and>
        \<not> length h < 3 \<and> list_ex (\<lambda>c. c = CHR ''.'') h)) kBuiltinBlocklist"
  by code_simp

lemma builtin_hosts_normal:
  "list_all (\<lambda>h. h = ''vk.com/rtrg'' \<or>
       NormalizeHost (std_api reg) h = h \<and> LooksLikeDomain (std_api reg) h) kBuiltinBlocklist"
  using builtin_hosts_checked host_of_domain_chars [of _ reg]
  by (auto simp: list_all_iff list_ex_iff subset_iff)

lemma vk_rule_rejected:
  "NormalizeHost (std_api (\<lambda>h. h)) ''vk.com/rtrg'' = ''vk.com/rtrg'' \<and>
   \<not> LooksLikeDomain (std_api (\<lambda>h. h)) ''vk.com/rtrg''"
  by code_simp

text \<open>
  after loading, every host of the built-in list is a blocked host, except the entry
  "vk.com/rtrg": it carries a path, is no domain, and is silently dropped.
\<close>

lemma builtin_list_loaded:
  assumes "ascii_api_ok B"
  shows "set kBuiltinBlocklist - {''vk.com/rtrg''}
      \<subseteq> blocked_hosts (fst (EnsureLoaded B read pref new_filter)) \<and>
    ''vk.com/rtrg'' \<in> set kBuiltinBlocklist \<and>
    ''vk.com/rtrg'' \<notin> blocked_hosts (fst (EnsureLoaded B read pref new_filter))"
proof -
  let ?F = "new_filter\<lparr>loaded := True\<rparr>" and ?E = "fst (EnsureLoaded B read pref new_filter)"
  note api = ascii_api_std [OF assms, of "\<lambda>h. h"]
  have hosts: "blocked_hosts ?E = blocked_hosts (load_stages B read new_filter)"
    by (simp add: EnsureLoaded_stages new_filter_def SetEnabled_def BuildGenericCSS_def)
  have "blocked_hosts (LoadBuiltinList B ?F) \<subseteq> blocked_hosts ?E"
    unfolding hosts load_stages_def using load_lists_mono by (blast intro: order_trans)
  moreover have "h \<in> blocked_hosts (LoadBuiltinList B ?F)"
    if h: "h \<in> set kBuiltinBlocklist" "h \<noteq> ''vk.com/rtrg''" for h
  proof -
    from h builtin_hosts_normal [of "\<lambda>h. h"] have "NormalizeHost B h = h" "LooksLikeDomain B h"
      unfolding list_all_iff api by blast+
    then have "h \<in> {k \<in> NormalizeHost B ` set kBuiltinBlocklist. LooksLikeDomain B k}"
      using h(1) image_eqI [of h "NormalizeHost B" h] by simp
    then show ?thesis by (simp add: LoadBuiltinList_def Let_def blocked.hosts_fold)
  qed
  moreover have "filter_ok B (load_stages B read new_filter)"
    by (rule load_stages_ok [OF filter_ok_new])
  then have "''vk.com/rtrg'' \<notin> blocked_hosts ?E"
    using vk_rule_rejected unfolding hosts api [symmetric] filter_ok_def by blast
  moreover have "''vk.com/rtrg'' \<in> set kBuiltinBlocklist" by (simp add: kBuiltinBlocklist_def)
  ultimately show ?thesis by blast
qed

lemma builtin_list_loaded_witness:
  "ascii_api_ok (std_api (\<lambda>h. h)) \<and>
   ''vk.com/rtrg'' \<notin> blocked_hosts
     (fst (EnsureLoaded (std_api (\<lambda>h. h)) (\<lambda>_. Some ''||vk.com/rtrg^'') None new_filter))"
  using builtin_list_loaded [OF std_api_ok] std_api_ok by blast

subsection \<open>From a rule to its effect\<close>

lemma sv_find_absent: "c \<in> set p \<Longrightarrow> c \<notin> set s \<Longrightarrow> sv_find p s = None"
  by (metis set_mono_sublist sv_find_None subsetD)

lemma domain_no_hash:
  assumes "ascii_api_ok B" "LooksLikeDomain B d"
  shows "CHR ''#'' \<notin> set d"
proof
  assume "CHR ''#'' \<in> set d"
  with assms have "ascii_alnum CHR ''#''"
    by (force simp: LooksLikeDomain_def ascii_api_ok_def list_all_iff)
  moreover have "\<not> ascii_alnum CHR ''#''" by code_simp
  ultimately show False by simp
qed

lemma trim_framed:
  "\<not> is_blank a \<Longrightarrow> \<not> is_blank z \<Longrightarrow>
     sv_trim_back is_blank (sv_trim_front is_blank (a # s @ [z])) = a # s @ [z]"
  by (simp add: sv_trim_front_def sv_trim_back_def)

lemma classify_block_rule:
  assumes "ascii_api_ok B" "LooksLikeDomain B d"
  shows "classify_line B (''||'' @ d @ ''^'') = BlockHost d"
proof -
  let ?l = "''||'' @ d @ ''^''"
  have hash: "CHR ''#'' \<notin> set ?l" using domain_no_hash [OF assms] by simp
  have "sv_trim_back is_blank (sv_trim_front is_blank ?l) = ?l"
    using trim_framed [of "CHR ''|''" "CHR ''^''" "''|'' @ d"] by (simp add: is_blank_def)
  moreover have "classify_network B ?l = BlockHost d"
    using assms(2) by (simp add: classify_network_def sv_starts_with_def sv_ends_with_suffix
        suffix_def Let_def butlast_append)
  ultimately show ?thesis
    using sv_find_absent [OF _ hash] by (simp add: classify_line_def classify_text_def sv_contains_def)
qed

lemma classify_allow_rule:
  assumes "ascii_api_ok B" "LooksLikeDomain B d"
  shows "classify_line B (''@@||'' @ d @ ''^'') = AllowHost d"
proof -
  let ?l = "''@@||'' @ d @ ''^''"
  have hash: "CHR ''#'' \<notin> set ?l" using domain_no_hash [OF assms] by simp
  have "sv_trim_back is_blank (sv_trim_front is_blank ?l) = ?l"
    using trim_framed [of "CHR ''@''" "CHR ''^''" "''@||'' @ d"] by (simp add: is_blank_def)
  moreover have "classify_network B ?l = AllowHost d"
    using assms(2) by (simp add: classify_network_def sv_starts_with_def sv_ends_with_suffix
        suffix_def Let_def butlast_append)
  ultimately show ?thesis
    using sv_find_absent [OF _ hash] by (simp add: classify_line_def classify_text_def sv_contains_def)
qed

text \<open>
  C2: parsing the line ||d^ makes every URL whose host lies under the domain d blocked,
  unless it is exempt, excepted or blocking is off; parsing @@||d^ makes none of them
  blocked, whatever rules were loaded before.
\<close>

theorem filter_rule_roundtrip:
  assumes "registry_api_ok B" "ascii_api_ok B" "LooksLikeDomain B d" "NormalizeHost B d = d"
    and "covers B (NormalizeHost B (url_host u)) d"
  shows "(ShouldBlock B (ParseFilterLine B (''||'' @ d @ ''^'') F) u \<longleftrightarrow>
       enabled F \<and> url_has_host u \<and> url_http_or_https u \<and> \<not> verification_exempt B u \<and>
       \<not> (\<exists>a \<in> allowed_hosts F. covers B (NormalizeHost B (url_host u)) a)) \<and>
     \<not> ShouldBlock B (ParseFilterLine B (''@@||'' @ d @ ''^'') F) u"
proof -
  have b: "ParseFilterLine B (''||'' @ d @ ''^'') F = AddHost B d F"
    unfolding ParseFilterLine_refines classify_block_rule [OF assms(2,3)] by simp
  have a: "ParseFilterLine B (''@@||'' @ d @ ''^'') F = AddAllowedHost B d F"
    unfolding ParseFilterLine_refines classify_allow_rule [OF assms(2,3)] by simp
  have "d \<in> blocked_hosts (AddHost B d F)" "d \<in> allowed_hosts (AddAllowedHost B d F)"
    using assms(3,4) by (simp_all add: blocked.hosts_add allowed.hosts_add)
  with assms(1,5) show ?thesis unfolding a b ShouldBlock_covers [OF assms(1)] by auto
qed

subsection \<open>Request streams\<close>

text \<open>The throttle's two callbacks as the events of a stream of requests.\<close>

datatype request_event = Start gurl | Redirect gurl

fun event_url :: "request_event \<Rightarrow> gurl" where
  "event_url (Start u) = u"
| "event_url (Redirect u) = u"

fun throttle_event ::
  "base_api \<Rightarrow> bool \<Rightarrow> request_event \<Rightarrow> content_filter \<Rightarrow> content_filter \<times> bool \<times> log_line list" where
  "throttle_event B priv (Start u) F = WillStartRequest B priv u F"
| "throttle_event B priv (Redirect u) F =
     (let (F', c) = WillRedirectRequest B (Some u) F in (F', c, []))"

fun run_throttle ::
  "base_api \<Rightarrow> bool \<Rightarrow> request_event list \<Rightarrow> content_filter
     \<Rightarrow> content_filter \<times> bool list \<times> log_line list" where
  "run_throttle B priv [] F = (F, [], [])"
| "run_throttle B priv (e # es) F =
     (let (F1, c, l) = throttle_event B priv e F; (F2, cs, ls) = run_throttle B priv es F1
      in (F2, c # cs, l @ ls))"

lemma ShouldBlock_RecordBlocked [simp]: "ShouldBlock B (RecordBlocked F) u = ShouldBlock B F u"
  by (simp add: ShouldBlock_def RecordBlocked_def)

lemma ShouldBlock_count [simp]: "ShouldBlock B (F\<lparr>blocked_count := n\<rparr>) u = ShouldBlock B F u"
  by (simp add: ShouldBlock_def)

lemma throttle_event_eq:
  "fst (throttle_event B priv e F) = (if ShouldBlock B F (event_url e) then RecordBlocked F else F)"
  "fst (snd (throttle_event B priv e F)) = ShouldBlock B F (event_url e)"
  "priv \<Longrightarrow> log_private (snd (snd (throttle_event B priv e F)))"
  by (cases e; simp add: WillStartRequest_def WillRedirectRequest_def Let_def)+

text \<open>
  over any sequence of started and redirected requests, exactly the requests the
  rules block are cancelled, the counter shown in the settings grows by their number
  (modulo 2^64) and no rule changes; in a private session no log line carries a URL.
\<close>

lemma run_throttle_counts:
  "fst (snd (run_throttle B priv es F)) = map (\<lambda>e. ShouldBlock B F (event_url e)) es \<and>
   fst (run_throttle B priv es F) =
     F\<lparr>blocked_count := blocked_count F +
         of_nat (length (filter (\<lambda>e. ShouldBlock B F (event_url e)) es))\<rparr> \<and>
   (priv \<longrightarrow> log_private (snd (snd (run_throttle B priv es F))))"
proof (induction es arbitrary: F)
  case (Cons e es)
  obtain F1 c l where e: "throttle_event B priv e F = (F1, c, l)"
    by (cases "throttle_event B priv e F")
  note ev = throttle_event_eq [where B = B and priv = priv and e = e and F = F, unfolded e fst_conv snd_conv]
  have same: "ShouldBlock B F1 u = ShouldBlock B F u" for u using ev(1) by (simp split: if_splits)
  have run: "run_throttle B priv (e # es) F =
      (fst (run_throttle B priv es F1), c # fst (snd (run_throttle B priv es F1)),
       l @ snd (snd (run_throttle B priv es F1)))"
    by (simp add: e case_prod_beta)
  show ?case
    unfolding run using Cons.IH [of F1] ev(1,2)
    by (auto simp: same RecordBlocked_def add_ac intro: ev(3))
qed simp

text \<open>
  With the switch off the filter does nothing: no request is cancelled, nothing is
  counted, and no stylesheet is injected on any page.
\<close>

lemma disabled_filter_inert:
  "\<not> ShouldBlock B (SetEnabled False F) u \<and> CosmeticCSSFor B (SetEnabled False F) host = [] \<and>
   WillStartRequest B priv u (SetEnabled False F) = (SetEnabled False F, False, []) \<and>
   WillRedirectRequest B r (SetEnabled False F) = (SetEnabled False F, False)"
  by (simp add: SetEnabled_def ShouldBlock_def CosmeticCSSFor_def WillStartRequest_def
      WillRedirectRequest_def split: option.split)

subsection \<open>Concrete instances\<close>

text \<open>
  A public-suffix lookup for the examples: the registrable domain of every host under
  example.co.uk, nothing for any other host.
\<close>

definition demo_registry :: "string \<Rightarrow> string" where
  "demo_registry h = (if HostMatchesDomain h ''example.co.uk'' \<and> last h \<noteq> CHR ''.''
                      then ''example.co.uk'' else [])"

abbreviation demo_api :: base_api where "demo_api \<equiv> std_api demo_registry"

definition demo_url :: gurl where
  "demo_url = \<lparr>url_spec = ''https://ads.example.co.uk/ad.js'', url_host = ''ads.example.co.uk'',
     url_path = ''/ad.js'', url_query = [], url_is_valid = True, url_is_empty = False,
     url_has_host = True, url_http_or_https = True, url_about_blank = False,
     DomainIs = (\<lambda>d. HostMatchesDomain ''ads.example.co.uk'' d)\<rparr>"

lemma demo_registry_ok: "registry_api_ok demo_api"
proof -
  have "label_suffix ''example.co.uk'' h"
    if "HostMatchesDomain h ''example.co.uk''" "last h \<noteq> CHR ''.''" for h
  proof -
    have "\<not> suffix ''.'' h" using that(2) by (auto simp: suffix_def)
    then show ?thesis
      using that(1) suffix_before_dot [of "''example.co.uk''" h]
      by (auto simp: HostMatchesDomain_def sv_ends_with_suffix label_suffix_iff Let_def)
  qed
  then show ?thesis by (auto simp: registry_api_ok_def std_api_def demo_registry_def)
qed

lemma demo_host: "NormalizeHost demo_api (url_host demo_url) = ''ads.example.co.uk''"
  by code_simp

lemma demo_covers: "covers demo_api ''ads.example.co.uk'' ''example.co.uk''"
  by code_simp

theorem ShouldBlock_iff_witness:
  "registry_api_ok demo_api \<and>
   ShouldBlock demo_api (new_filter\<lparr>enabled := True, blocked_hosts := {''example.co.uk''}\<rparr>) demo_url"
proof -
  have "\<not> verification_exempt demo_api demo_url" by code_simp
  then show ?thesis
    using ShouldBlock_iff [OF demo_registry_ok] demo_registry_ok demo_covers demo_host
    by (simp add: new_filter_def demo_url_def)
qed

lemma public_suffix_rule_ignored_witness:
  "registry_api_ok demo_api \<and>
   length ''co.uk'' < length (GetDomainAndRegistry demo_api (NormalizeHost demo_api (url_host demo_url))) \<and>
   ShouldBlock demo_api (new_filter\<lparr>blocked_hosts := insert ''co.uk'' (blocked_hosts new_filter)\<rparr>) demo_url
     = ShouldBlock demo_api new_filter demo_url"
proof -
  have len: "length ''co.uk'' <
      length (GetDomainAndRegistry demo_api (NormalizeHost demo_api (url_host demo_url)))"
    by code_simp
  show ?thesis
    using public_suffix_rule_ignored [OF demo_registry_ok len, of new_filter] demo_registry_ok len
    by blast
qed

theorem filter_rule_roundtrip_witness:
  "covers demo_api (NormalizeHost demo_api (url_host demo_url)) ''example.co.uk'' \<and>
   \<not> ShouldBlock demo_api (ParseFilterLine demo_api (''@@||'' @ ''example.co.uk'' @ ''^'') new_filter) demo_url"
proof -
  have d: "LooksLikeDomain demo_api ''example.co.uk''" by code_simp
  have n: "NormalizeHost demo_api ''example.co.uk'' = ''example.co.uk''" by code_simp
  have c: "covers demo_api (NormalizeHost demo_api (url_host demo_url)) ''example.co.uk''"
    unfolding demo_host by (rule demo_covers)
  show ?thesis
    using filter_rule_roundtrip [OF demo_registry_ok std_api_ok d n c, of new_filter] c by blast
qed

lemma demo_loaded:
  "enabled (new_filter\<lparr>enabled := True, generic_hide_selectors := [''.ad''], generic_hide_css := ''.ad''\<rparr>)
   \<and> filter_ok demo_api (new_filter\<lparr>enabled := True, generic_hide_selectors := [''.ad''],
        generic_hide_css := ''.ad''\<rparr>)
   \<and> css_synced (new_filter\<lparr>enabled := True, generic_hide_selectors := [''.ad''],
        generic_hide_css := ''.ad''\<rparr>)"
  by (simp add: new_filter_def filter_ok_def selectors_safe_def css_synced_def kMaxGeneric_def
      IsSafeSelector_def unsafe_chars_def)

lemma CosmeticCSSFor_spec_witness:
  "CosmeticCSSFor demo_api (new_filter\<lparr>enabled := True, generic_hide_selectors := [''.ad''],
     generic_hide_css := ''.ad''\<rparr>) ''example.com'' = ''.ad{display:none!important}''"
proof -
  let ?F = "new_filter\<lparr>enabled := True, generic_hide_selectors := [''.ad''], generic_hide_css := ''.ad''\<rparr>"
  have "ForEachHostAndParent demo_api (NormalizeHost demo_api ''example.com'') = []" by code_simp
  then have "page_selectors demo_api ?F ''example.com'' = [''.ad'']"
    by (simp add: page_selectors_def page_exceptions_def page_host_rules_def Let_def
        kMaxGeneric_def new_filter_def)
  then show ?thesis
    using CosmeticCSSFor_spec [of ?F demo_api "''example.com''"] demo_loaded by simp
qed


lemma run_throttle_counts_witness:
  "log_private (snd (snd (run_throttle demo_api True [Start demo_url, Redirect demo_url]
     (new_filter\<lparr>enabled := True, blocked_hosts := {''example.co.uk''}\<rparr>))))"
  using run_throttle_counts [of demo_api True] by blast

end
