(* ===== verification/Filter_Syntax.thy ===== *)
theory Filter_Syntax
  imports Content_Filter
begin

text \<open>
  The syntax of filter lines as a grammar, independent of the parser: a line is read by the shape of its text, as a
  concatenation of its parts, without searching or cutting; selectors and domains are the texts that satisfy a
  condition on their characters and length.  The theorem is that the handler \<^verbatim>\<open>ParseFilterLine\<close> of
  \<^verbatim>\<open>content/shell/browser/blinker_content_filter.cc\<close> reads every line so, and stores what the rule says.
\<close>

subsection \<open>The grammar\<close>

text \<open>The line without the blanks around it.\<close>

definition trimmed :: "string \<Rightarrow> string \<Rightarrow> bool" where
  "trimmed l line \<longleftrightarrow> (\<exists>a b. l = a @ line @ b \<and> list_all is_blank (a @ b)) \<and>
     (line = [] \<or> \<not> is_blank (hd line) \<and> \<not> is_blank (last line))"

definition comment_line :: "string \<Rightarrow> bool" where
  "comment_line line \<longleftrightarrow> (\<exists>t. line = CHR ''!'' # t \<or> line = CHR ''['' # t)"

text \<open>\<open>line\<close> is \<open>ds\<close>, the first separator in the line, and \<open>sel\<close>.\<close>

definition split_at :: "string \<Rightarrow> string \<Rightarrow> string \<Rightarrow> string \<Rightarrow> bool" where
  "split_at sep line ds sel \<longleftrightarrow> line = ds @ sep @ sel \<and> (\<forall>a b. line = a @ sep @ b \<longrightarrow> length ds \<le> length a)"

text \<open>Markers of cosmetic rules other than plain hiding.\<close>

definition extended :: "string \<Rightarrow> bool" where
  "extended line \<longleftrightarrow> sublist ''#@#'' line \<or> sublist ''#?#'' line \<or> sublist ''#$#'' line \<or> sublist ''#%#'' line"

text \<open>The texts of a selector and of a domain, and the domains a comma-separated list names; negated ones are left out.\<close>

definition selector_text :: "string \<Rightarrow> bool" where
  "selector_text sel \<longleftrightarrow> length sel \<in> {1..400} \<and> set sel \<inter> {CHR ''{'', CHR ''}'', CHR ''<'', CHR 0x5C, CHR 0x0A, CHR 0x0D} = {}"

definition domain_text :: "string \<Rightarrow> bool" where
  "domain_text d \<longleftrightarrow> 3 \<le> length d \<and> CHR ''.'' \<in> set d \<and> (\<forall>c \<in> set d. ascii_alnum c \<or> c \<in> set ''.-_'')"

definition named_domains :: "base_api \<Rightarrow> string \<Rightarrow> string list" where
  "named_domains B ds = [d \<leftarrow> SplitStringPiece B ds '',''. d \<noteq> [] \<and> \<not> prefix ''~'' d]"

inductive reads_as :: "base_api \<Rightarrow> string \<Rightarrow> filter_rule \<Rightarrow> bool" for B where
  unhide: "\<not> comment_line line \<Longrightarrow> split_at ''#@#'' line ds sel \<Longrightarrow> selector_text sel \<Longrightarrow> reads_as B line (Unhide (named_domains B ds) sel)"
| hide_all: "\<not> extended (''##'' @ sel) \<Longrightarrow> selector_text sel \<Longrightarrow> reads_as B (''##'' @ sel) (HideEverywhere sel)"
| hide: "\<not> comment_line line \<Longrightarrow> \<not> extended line \<Longrightarrow> split_at ''##'' line ds sel \<Longrightarrow> ds \<noteq> [] \<Longrightarrow> selector_text sel \<Longrightarrow>
    reads_as B line (Hide (named_domains B ds) sel)"
| allow: "domain_text d \<Longrightarrow> line = ''@@||'' @ d \<or> line = ''@@||'' @ d @ ''^'' \<Longrightarrow> reads_as B line (AllowHost d)"
| block: "domain_text d \<Longrightarrow> line = d \<or> line = ''||'' @ d \<or> line = d @ ''^'' \<or> line = ''||'' @ d @ ''^'' \<Longrightarrow> reads_as B line (BlockHost d)"

text \<open>Everything else is no rule.\<close>

definition line_means :: "base_api \<Rightarrow> string \<Rightarrow> filter_rule \<Rightarrow> bool" where
  "line_means B l r \<longleftrightarrow> (\<exists>line. trimmed l line \<and> (reads_as B line r \<or> r = NoRule \<and> (\<nexists>r'. reads_as B line r')))"

text \<open>
  What a rule does to the store: a selector is added once for each listed domain, under the normalised domain, behind the selectors already
  there; a host is added when its normal form is a domain.
\<close>

definition listed :: "base_api \<Rightarrow> string list \<Rightarrow> string \<Rightarrow> selector_map \<Rightarrow> selector_map" where
  "listed B ds sel m = (\<lambda>k. let n = count_list (map (NormalizeHost B) ds) k in if n = 0 then m k else Some (stored m k @ replicate n sel))"

definition domain_set :: "base_api \<Rightarrow> string \<Rightarrow> string set" where
  "domain_set B d = {h. h = NormalizeHost B d \<and> domain_text h}"

fun rule_effect :: "base_api \<Rightarrow> filter_rule \<Rightarrow> content_filter \<Rightarrow> content_filter" where
  "rule_effect B NoRule F = F"
| "rule_effect B (Unhide ds sel) F = F\<lparr>host_hide_exceptions := listed B ds sel (host_hide_exceptions F)\<rparr>"
| "rule_effect B (HideEverywhere sel) F = F\<lparr>generic_hide_selectors := generic_hide_selectors F @ [sel]\<rparr>"
| "rule_effect B (Hide ds sel) F = F\<lparr>host_hide_selectors := listed B ds sel (host_hide_selectors F)\<rparr>"
| "rule_effect B (AllowHost d) F = F\<lparr>allowed_hosts := allowed_hosts F \<union> domain_set B d\<rparr>"
| "rule_effect B (BlockHost d) F = F\<lparr>blocked_hosts := blocked_hosts F \<union> domain_set B d\<rparr>"

subsection \<open>The parser's checks and searches\<close>

lemma selector_text_iff: "IsSafeSelector sel \<longleftrightarrow> selector_text sel"
proof -
  have "set unsafe_chars = {CHR ''{'', CHR ''}'', CHR ''<'', CHR 0x5C, CHR 0x0A, CHR 0x0D}"
    unfolding unsafe_chars_def list.set by (simp only: insert_commute)
  then have "list_all (\<lambda>c. c \<notin> set unsafe_chars) sel \<longleftrightarrow>
      set sel \<inter> {CHR ''{'', CHR ''}'', CHR ''<'', CHR 0x5C, CHR 0x0A, CHR 0x0D} = {}" by (simp only: list_all_iff) blast
  moreover have "length sel \<in> {1..400} \<longleftrightarrow> \<not> (sel = [] \<or> length sel > 400)" by (cases sel) auto
  ultimately show ?thesis unfolding IsSafeSelector_def selector_text_def by (simp only:)
qed

lemma domain_text_iff: "ascii_api_ok B \<Longrightarrow> LooksLikeDomain B d \<longleftrightarrow> domain_text d"
  by (auto simp: LooksLikeDomain_def domain_text_def ascii_api_ok_def list_all_iff sv_find_char_None not_less)

lemma named_domains_iff: "ForEachDomain B ds = named_domains B ds"
  unfolding ForEachDomain_def named_domains_def by (rule filter_cong) (auto split: list.splits)

lemmas code_checks = selector_text_iff named_domains_iff

lemma sv_find_least: "sv_find p s = Some n \<Longrightarrow> s = a @ p @ b \<Longrightarrow> n \<le> length a"
proof (induction p s arbitrary: n a rule: sv_find.induct)
  case (2 p x xs)
  show ?case
  proof (cases "sv_starts_with (x # xs) p")
    case False
    then have "a \<noteq> []" using "2.prems"(2) by (auto simp: sv_starts_with_prefix prefix_def)
    then obtain a' where a: "a = x # a'" "xs = a' @ p @ b" using "2.prems"(2) by (cases a) auto
    obtain m where m: "sv_find p xs = Some m" "n = Suc m" using "2.prems"(1) False by auto
    show ?thesis using "2.IH" [OF False m(1) a(2)] a(1) m(2) by simp
  qed (use "2.prems"(1) in simp)
qed (simp split: if_splits)

lemma find_split_at: "sv_find sep line = Some n \<Longrightarrow> split_at sep line (take n line) (drop (n + length sep) line)"
  unfolding split_at_def using sv_find_Some_split [of sep line n] sv_find_least [of sep line n] by (metis length_take min.coboundedI2)

lemma split_at_find:
  assumes "split_at sep line ds sel"
  shows "sv_find sep line = Some (length ds)"
proof -
  have l: "line = ds @ sep @ sel" using assms by (simp add: split_at_def)
  then obtain m where m: "sv_find sep line = Some m" using sv_find_None [of sep line] by auto
  have "length ds \<le> length (take m line)" using assms sv_find_Some_split [OF m] unfolding split_at_def by blast
  then have "length ds \<le> m" by simp
  with sv_find_least [OF m l] m show ?thesis by simp
qed

lemma trim_trimmed: "trimmed l line \<longleftrightarrow> line = sv_trim_back is_blank (sv_trim_front is_blank l)"
proof -
  let ?f = "sv_trim_front is_blank l" and ?t = "sv_trim_back is_blank (sv_trim_front is_blank l)"
  have f: "l = takeWhile is_blank l @ ?f" by (simp add: sv_trim_front_def)
  have b: "?f = ?t @ rev (takeWhile is_blank (rev ?f))"
    by (metis sv_trim_back_def rev_append rev_rev_ident takeWhile_dropWhile_id)
  have ends: "?t = [] \<or> \<not> is_blank (hd ?t) \<and> \<not> is_blank (last ?t)"
  proof (cases "?t = []")
    case False
    then have "dropWhile is_blank (rev ?f) \<noteq> []" by (simp add: sv_trim_back_def)
    then have "\<not> is_blank (last ?t)" using hd_dropWhile [of is_blank "rev ?f"] by (simp add: sv_trim_back_def last_rev)
    moreover have "hd ?t = hd ?f" using False b by (metis hd_append2)
    moreover have "?f \<noteq> []" using False b by force
    ultimately show ?thesis using hd_dropWhile [of is_blank l] by (simp add: sv_trim_front_def)
  qed simp
  have trim: "sv_trim_back is_blank (sv_trim_front is_blank (a @ m @ c)) = m"
    if "list_all is_blank a" "list_all is_blank c" "m = [] \<or> \<not> is_blank (hd m) \<and> \<not> is_blank (last m)" for a m c
  proof (cases "m = []")
    case True
    then have "dropWhile is_blank (rev (dropWhile is_blank (a @ c))) = []" using that by (auto simp: list_all_iff dest: set_dropWhileD)
    then show ?thesis using True by (simp only: sv_trim_front_def sv_trim_back_def append_Nil rev.simps)
  next
    case False
    then obtain x xs where m: "m = x # xs" by (cases m) auto
    obtain ys y where m': "m = ys @ [y]" using False by (cases m rule: rev_cases) auto
    have "dropWhile is_blank (a @ m @ c) = m @ c" using that(1,3) m by (simp add: list_all_iff dropWhile_append)
    moreover have "dropWhile is_blank (rev (m @ c)) = rev m" using that(2,3) m' False by (simp add: list_all_iff dropWhile_append)
    ultimately show ?thesis by (simp add: sv_trim_front_def sv_trim_back_def)
  qed
  show ?thesis
  proof
    assume "trimmed l line"
    then obtain a b where "l = a @ line @ b" "list_all is_blank a" "list_all is_blank b" "line = [] \<or> \<not> is_blank (hd line) \<and> \<not> is_blank (last line)"
      by (auto simp: trimmed_def)
    with trim [of a b line] show "line = ?t" by simp
  next
    assume "line = ?t"
    moreover have "l = takeWhile is_blank l @ ?t @ rev (takeWhile is_blank (rev ?f))" using f b by simp
    moreover have "list_all is_blank (takeWhile is_blank l @ rev (takeWhile is_blank (rev ?f)))"
      by (auto simp: list_all_iff dest: set_takeWhileD)
    ultimately show "trimmed l line" using ends unfolding trimmed_def by blast
  qed
qed

subsection \<open>The grammar and the parser\<close>

text \<open>A domain has none of the characters that the syntax gives a meaning.\<close>

lemma domain_chars:
  assumes "domain_text d"
  shows "set d \<inter> set ''!#@|^[$%?'' = {}" "d \<noteq> []"
proof -
  have "ascii_alnum c \<or> c = CHR ''.'' \<or> c = CHR ''-'' \<or> c = CHR ''_''" if "c \<in> set d" for c
    using assms that by (auto simp: domain_text_def)
  moreover have "\<not> ascii_alnum c" if "c \<in> set ''!#@|^[$%?''" for c
    using that by (auto simp: ascii_alnum_def upper_letters_def lower_letters_def)
  ultimately show "set d \<inter> set ''!#@|^[$%?'' = {}" by fastforce
  show "d \<noteq> []" using assms by (auto simp: domain_text_def)
qed

lemma domain_parts:
  assumes "domain_text d"
  shows "hd d \<notin> set ''!#@|^[$%?''" "last d \<notin> set ''!#@|^[$%?''" "\<not> prefix ''@@'' d" "\<not> prefix ''||'' d" "\<not> suffix ''^'' d" "CHR ''#'' \<notin> set d"
proof -
  note c = domain_chars [OF assms]
  have in_d: "hd d \<in> set d" "last d \<in> set d" using c(2) by simp_all
  then show "hd d \<notin> set ''!#@|^[$%?''" "last d \<notin> set ''!#@|^[$%?''" "CHR ''#'' \<notin> set d" using c(1) by auto
  show "\<not> prefix ''@@'' d" "\<not> prefix ''||'' d" "\<not> suffix ''^'' d" using c(1) by (auto simp: prefix_def suffix_def)
qed

lemma ends_caret: "sv_ends_with s ''^'' \<longleftrightarrow> s \<noteq> [] \<and> last s = CHR ''^''"
  by (cases s rule: rev_cases) (auto simp: sv_ends_with_suffix)

lemma no_marker:
  assumes "CHR ''#'' \<notin> set line"
  shows "classify_text B line = (if line = [] \<or> hd line = CHR ''!'' \<or> hd line = CHR ''['' then NoRule else classify_network B line)"
  using sv_find_absent [OF _ assms] by (simp add: classify_text_def sv_contains_def)

lemma comment_hd: "comment_line line \<longleftrightarrow> line \<noteq> [] \<and> (hd line = CHR ''!'' \<or> hd line = CHR ''['')"
  by (cases line) (auto simp: comment_line_def)

lemma extended_find: "extended line \<longleftrightarrow> sv_find ''#@#'' line \<noteq> None \<or> sv_contains line ''#?#'' \<or> sv_contains line ''#$#'' \<or> sv_contains line ''#%#''"
  by (simp add: extended_def sv_find_None sv_contains_sublist)

text \<open>What the grammar reads the parser reads.\<close>

lemma reads_as_classified:
  assumes B: "ascii_api_ok B" and "reads_as B line r"
  shows "classify_text B line = r \<and> r \<noteq> NoRule"
  using assms(2)
proof cases
  case (unhide ds sel)
  from split_at_find [OF unhide(3)] have f: "sv_find ''#@#'' line = Some (length ds)" .
  have l: "line = ds @ ''#@#'' @ sel" using unhide(3) by (simp add: split_at_def)
  then have "drop (length ds + 3) line = sel" "take (length ds) line = ds" "line \<noteq> []" by simp_all
  then show ?thesis using unhide f by (simp add: code_checks classify_text_def comment_hd)
next
  case (hide_all sel)
  have "split_at ''##'' line [] sel" using hide_all by (simp add: split_at_def)
  from split_at_find [OF this] have f: "sv_find ''##'' line = Some 0" by simp
  then show ?thesis using hide_all by (simp add: code_checks classify_text_def extended_find)
next
  case (hide ds sel)
  from split_at_find [OF hide(4)] have f: "sv_find ''##'' line = Some (length ds)" .
  have l: "line = ds @ ''##'' @ sel" using hide(4) by (simp add: split_at_def)
  then have "drop (length ds + 2) line = sel" "take (length ds) line = ds" "line \<noteq> []" by simp_all
  then show ?thesis using hide f by (simp add: code_checks classify_text_def comment_hd extended_find)
next
  case (allow d)
  note d = domain_parts [OF allow(2)] domain_chars(2) [OF allow(2)]
  have "CHR ''#'' \<notin> set line" "line \<noteq> []" "hd line = CHR ''@''" using allow(3) d(6) by auto
  moreover have "classify_network B line = AllowHost d"
    using allow(2,3) d by (auto simp: code_checks domain_text_iff [OF B] classify_network_def sv_starts_with_prefix ends_caret Let_def butlast_append)
  ultimately show ?thesis using allow(1) by (simp add: no_marker)
next
  case (block d)
  note d = domain_parts [OF block(2)] domain_chars(2) [OF block(2)]
  have "CHR ''#'' \<notin> set line" "line \<noteq> []" "hd line = CHR ''|'' \<or> hd line = hd d" using block(3) d(6,7) by auto
  moreover have "classify_network B line = BlockHost d"
    using block(2,3) d by (auto simp: code_checks domain_text_iff [OF B] classify_network_def sv_starts_with_prefix ends_caret Let_def butlast_append)
  ultimately show ?thesis using block(1) d(1) by (auto simp: no_marker)
qed

text \<open>What the parser reads the grammar reads.\<close>

lemma network_reads_as:
  assumes B: "ascii_api_ok B" and "classify_network B line = r" "r \<noteq> NoRule"
  shows "reads_as B line r"
proof (cases r)
  case (AllowHost d)
  have "domain_text d" using assms AllowHost by (auto simp: domain_text_iff [OF B] classify_network_def Let_def split: if_splits)
  with classify_network_AllowHost [of B line d] assms(2) AllowHost show ?thesis by (auto intro: reads_as.allow)
next
  case (BlockHost d)
  have "domain_text d" using assms BlockHost by (auto simp: domain_text_iff [OF B] classify_network_def Let_def split: if_splits)
  with classify_network_BlockHost [of B line d] assms(2) BlockHost show ?thesis by (auto intro: reads_as.block)
qed (use assms in \<open>auto simp: classify_network_def Let_def split: if_splits\<close>)

lemma classified_reads_as:
  assumes B: "ascii_api_ok B" and c0: "classify_text B line = r" "r \<noteq> NoRule"
  shows "reads_as B line r"
proof -
  have c: "\<not> comment_line line" using c0 by (auto simp: code_checks classify_text_def comment_hd split: if_splits)
  have ne: "\<not> (line = [] \<or> hd line = CHR ''!'' \<or> hd line = CHR ''['')" using c0 by (auto simp: code_checks classify_text_def split: if_splits)
  show ?thesis
  proof (cases "sv_find ''#@#'' line")
    case (Some p)
    with c0 ne have "selector_text (drop (p + 3) line)" "r = Unhide (named_domains B (take p line)) (drop (p + 3) line)"
      by (auto simp: code_checks classify_text_def split: if_splits)
    with find_split_at [OF Some] show ?thesis using reads_as.unhide [OF c] by (simp add: numeral_3_eq_3)
  next
    case None
    have x: "\<not> extended line" using c0 ne None by (auto simp: code_checks classify_text_def extended_find split: if_splits)
    show ?thesis
    proof (cases "sv_find ''##'' line")
      case (Some p)
      note sp = find_split_at [OF Some]
      have sel: "selector_text (drop (p + 2) line)" using c0 ne None x Some by (auto simp: code_checks classify_text_def extended_find split: if_splits)
      show ?thesis
      proof (cases "take p line = []")
        case True
        with sp have l: "line = ''##'' @ drop (p + 2) line" by (simp add: split_at_def)
        have "r = HideEverywhere (drop (p + 2) line)" using c0(1) ne None x Some True sel by (simp add: code_checks classify_text_def extended_find)
        then show ?thesis using reads_as.hide_all [of "drop (p + 2) line" B] x sel l by simp
      next
        case False
        have "r = Hide (named_domains B (take p line)) (drop (p + 2) line)" using c0(1) ne None x Some False sel by (simp add: code_checks classify_text_def extended_find)
        then show ?thesis using reads_as.hide [OF c x _ False sel] sp by simp
      qed
    next
      case None': None
      have "classify_network B line = r" using c0(1) ne None None' x by (simp add: code_checks classify_text_def extended_find)
      then show ?thesis using c0(2) by (rule network_reads_as [OF B])
    qed
  qed
qed

lemma line_means_iff:
  assumes "ascii_api_ok B"
  shows "line_means B l r \<longleftrightarrow> r = classify_line B l"
proof -
  let ?t = "sv_trim_back is_blank (sv_trim_front is_blank l)"
  have reads: "reads_as B ?t r' \<longleftrightarrow> r' = classify_text B ?t \<and> r' \<noteq> NoRule" for r'
    using reads_as_classified [OF assms] classified_reads_as [OF assms] by metis
  have "line_means B l r \<longleftrightarrow> reads_as B ?t r \<or> r = NoRule \<and> (\<nexists>r'. reads_as B ?t r')" by (simp only: line_means_def trim_trimmed simp_thms)
  moreover have "(\<nexists>r'. reads_as B ?t r') \<longleftrightarrow> classify_text B ?t = NoRule" unfolding reads by blast
  ultimately show ?thesis unfolding classify_line_def using reads [of r] by auto
qed

lemma fold_push_selector: "fold (\<lambda>d. push_selector sel (NormalizeHost B d)) ds m = listed B ds sel m"
proof (induction ds arbitrary: m)
  case (Cons d ds)
  have "listed B ds sel (push_selector sel (NormalizeHost B d) m) k = listed B (d # ds) sel m k" for k
    by (auto simp: listed_def push_selector_def stored_def Let_def replicate_append_same [symmetric] split: option.splits)
  then show ?case using Cons.IH by (simp add: fun_eq_iff)
qed (simp add: listed_def fun_eq_iff)

lemma domain_set_if: "domain_set B d = (if domain_text (NormalizeHost B d) then {NormalizeHost B d} else {})"
  by (auto simp: domain_set_def)

lemma apply_rule_effect: "ascii_api_ok B \<Longrightarrow> apply_rule B r F = rule_effect B r F"
  by (cases r) (simp_all add: domain_text_iff fold_push_selector AddHost_def AddAllowedHost_def domain_set_if Let_def)

text \<open>
  C4: every line has exactly one meaning under the grammar, a rule or none, its selectors and hosts have passed the checks of the source, and
  parsing the line changes the store as this rule says and in no other way.
\<close>

theorem ParseFilterLine_refinement:
  assumes "ascii_api_ok B"
  shows "\<exists>r. (\<forall>r'. line_means B l r' \<longleftrightarrow> r' = r) \<and> rule_ok B r \<and> ParseFilterLine B l F = rule_effect B r F"
  using line_means_iff [OF assms] classify_line_ok [of B l] by (auto simp: ParseFilterLine_refines apply_rule_effect [OF assms])

theorem ParseFilterLine_refinement_witness:
  "reads_as demo_api ''a.example.co.uk##.ad'' (Hide [''a.example.co.uk''] ''.ad'') \<and>
   host_hide_selectors (ParseFilterLine demo_api ''  a.example.co.uk##.ad'' new_filter) ''a.example.co.uk'' = Some [''.ad'']"
proof -
  let ?l = "''  a.example.co.uk##.ad''" and ?t = "''a.example.co.uk##.ad''"
  have "\<exists>r. (\<forall>r'. line_means demo_api ?l r' \<longleftrightarrow> r' = r) \<and> rule_ok demo_api r \<and> ParseFilterLine demo_api ?l new_filter = rule_effect demo_api r new_filter"
    by (rule ParseFilterLine_refinement [OF std_api_ok])
  then obtain r where r: "\<forall>r'. line_means demo_api ?l r' \<longleftrightarrow> r' = r" "ParseFilterLine demo_api ?l new_filter = rule_effect demo_api r new_filter"
    by blast
  have c: "classify_text demo_api ?t = Hide [''a.example.co.uk''] ''.ad''" by code_simp
  then have reads: "reads_as demo_api ?t (Hide [''a.example.co.uk''] ''.ad'')" by (rule classified_reads_as [OF std_api_ok]) simp
  moreover have "trimmed ?l ?t" by (simp add: trim_trimmed sv_trim_front_def sv_trim_back_def is_blank_def)
  ultimately have "line_means demo_api ?l (Hide [''a.example.co.uk''] ''.ad'')" unfolding line_means_def by blast
  with r(1) have "r = Hide [''a.example.co.uk''] ''.ad''" by simp
  moreover have "NormalizeHost demo_api ''a.example.co.uk'' = ''a.example.co.uk''" by code_simp
  ultimately show ?thesis using r(2) reads by (simp add: listed_def stored_def new_filter_def)
qed

end
