(* ===== verification/Permission_Manager.thy ===== *)
theory Permission_Manager
  imports Blinker_Prelude
begin

text \<open>
  Web permissions on iOS: \<^verbatim>\<open>content/shell/browser/shell_permission_manager.cc\<close>.  The
  synchronous replies are functions; a request that needs a camera or microphone prompt
  is a state machine, because the system may answer its prompts in any order, also while
  the loop that issues them is still running.
\<close>

datatype PermissionType =
    GEOLOCATION | GEOLOCATION_APPROXIMATE | SENSORS | PAYMENT_HANDLER | WAKE_LOCK_SCREEN
  | BACKGROUND_SYNC | BACKGROUND_FETCH | PERIODIC_BACKGROUND_SYNC | IDLE_DETECTION | NFC
  | MIDI | MIDI_SYSEX | NOTIFICATIONS | PROTECTED_MEDIA_IDENTIFIER | PERSISTENT_STORAGE
  | AUDIO_CAPTURE | VIDEO_CAPTURE | CLIPBOARD_READ_WRITE | CLIPBOARD_SANITIZED_WRITE | NUM
  | WAKE_LOCK_SYSTEM | HAND_TRACKING | VR | AR | STORAGE_ACCESS_GRANT | CAMERA_PAN_TILT_ZOOM
  | WINDOW_MANAGEMENT | LOCAL_FONTS | DISPLAY_CAPTURE | TOP_LEVEL_STORAGE_ACCESS
  | CAPTURED_SURFACE_CONTROL | SMART_CARD | WEB_PRINTING | SPEAKER_SELECTION | KEYBOARD_LOCK
  | POINTER_LOCK | AUTOMATIC_FULLSCREEN | WEB_APP_INSTALLATION | LOCAL_NETWORK_ACCESS
  | LOCAL_NETWORK | LOOPBACK_NETWORK

text \<open>
  What the manager asks the system: \<^verbatim>\<open>BlinkIOSSystemPermissionStatus\<close> (0 location, 1
  microphone, 2 camera), two feature flags and the command line switches.
\<close>

record permission_env =
  BlinkIOSSystemPermissionStatus :: "nat \<Rightarrow> int"
  kBlockMidiByDefault :: bool
  kApproximateGeolocationPermission :: bool
  kUseFakeDeviceForMediaStream :: "string option"
  kUseFakeUIForMediaStream :: bool

text \<open>The switch statement with its fall-through cases, in the iOS configuration.\<close>

fun IsAllowlistedPermissionType :: "permission_env \<Rightarrow> PermissionType \<Rightarrow> bool" where
  "IsAllowlistedPermissionType E p =
     (if p \<in> {GEOLOCATION, GEOLOCATION_APPROXIMATE}
      then BlinkIOSSystemPermissionStatus E 0 \<noteq> 0
      else if p \<in> {SENSORS, PAYMENT_HANDLER, WAKE_LOCK_SCREEN, BACKGROUND_SYNC, BACKGROUND_FETCH,
                   PERIODIC_BACKGROUND_SYNC, IDLE_DETECTION, NFC} then True
      else if p = MIDI then (if kBlockMidiByDefault E then False else True)
      else if p \<in> {MIDI_SYSEX, NOTIFICATIONS, PROTECTED_MEDIA_IDENTIFIER, PERSISTENT_STORAGE,
                   AUDIO_CAPTURE}
      then BlinkIOSSystemPermissionStatus E 1 \<noteq> 0
      else if p = VIDEO_CAPTURE then BlinkIOSSystemPermissionStatus E 2 \<noteq> 0
      else False)"

declare IsAllowlistedPermissionType.simps [simp del]

datatype PermissionStatus = GRANTED | DENIED
datatype GeolocationSetting = AllowedAllowed

record PermissionResult =
  status :: PermissionStatus
  retrieved_permission_setting :: "GeolocationSetting option"

definition plain_result :: "PermissionStatus \<Rightarrow> PermissionResult" where
  "plain_result s = \<lparr>status = s, retrieved_permission_setting = None\<rparr>"

definition status_of :: "bool \<Rightarrow> PermissionStatus" where
  "status_of b = (if b then GRANTED else DENIED)"

definition allowlist_result :: "permission_env \<Rightarrow> PermissionType \<Rightarrow> PermissionResult" where
  "allowlist_result E p = plain_result (status_of (IsAllowlistedPermissionType E p))"

subsection \<open>Queries\<close>

definition GetPermissionStatus :: "permission_env \<Rightarrow> PermissionType \<Rightarrow> PermissionStatus" where
  "GetPermissionStatus E p =
     (if (p = AUDIO_CAPTURE \<or> p = VIDEO_CAPTURE) \<and>
         kUseFakeDeviceForMediaStream E \<noteq> None \<and> kUseFakeUIForMediaStream E \<and>
         kUseFakeDeviceForMediaStream E \<noteq> Some ''deny''
      then GRANTED
      else if IsAllowlistedPermissionType E p then GRANTED else DENIED)"

definition GetPermissionResultForOriginWithoutContext ::
  "permission_env \<Rightarrow> PermissionType \<Rightarrow> PermissionResult" where
  "GetPermissionResultForOriginWithoutContext E p = plain_result (GetPermissionStatus E p)"

text \<open>\<open>fenced\<close> is \<^verbatim>\<open>render_frame_host->IsNestedWithinFencedFrame()\<close>.\<close>

definition GetPermissionResultForCurrentDocument ::
  "permission_env \<Rightarrow> bool \<Rightarrow> PermissionType \<Rightarrow> PermissionResult" where
  "GetPermissionResultForCurrentDocument E fenced p =
     (if fenced then plain_result DENIED else plain_result (GetPermissionStatus E p))"

definition GetPermissionResultForWorker :: "permission_env \<Rightarrow> PermissionType \<Rightarrow> PermissionResult" where
  "GetPermissionResultForWorker E p = plain_result (GetPermissionStatus E p)"

definition GetPermissionResultForEmbeddedRequester ::
  "permission_env \<Rightarrow> bool \<Rightarrow> PermissionType \<Rightarrow> PermissionResult" where
  "GetPermissionResultForEmbeddedRequester E fenced p =
     (if fenced then plain_result DENIED else plain_result (GetPermissionStatus E p))"

subsection \<open>Requests\<close>

definition is_capture :: "PermissionType \<Rightarrow> bool" where
  "is_capture p \<longleftrightarrow> p = AUDIO_CAPTURE \<or> p = VIDEO_CAPTURE"

definition system_permission :: "PermissionType \<Rightarrow> nat" where
  "system_permission p = (if p = AUDIO_CAPTURE then 1 else 2)"

definition needs_system_prompt :: "permission_env \<Rightarrow> PermissionType \<Rightarrow> bool" where
  "needs_system_prompt E p \<longleftrightarrow>
     is_capture p \<and> BlinkIOSSystemPermissionStatus E (system_permission p) = 0"

text \<open>
  \<^verbatim>\<open>PendingMediaPermissionRequest\<close> with what surrounds it: the prompt flags computed before
  the loop, the loop position, the prompts the system has not answered, the calls the
  barrier has seen, the callback's runs (it is a OnceCallback: running it twice would be
  a crash), the answers given so far and the system state each iteration of the loop saw,
  which an answer arriving during the loop may have changed.
\<close>

record pending_request =
  request_types :: "PermissionType list"
  prompt_flags :: "bool list"
  result :: "PermissionResult list"
  loop_index :: nat
  outstanding :: "nat set"
  barrier_runs :: nat
  callback_runs :: "PermissionResult list list"
  answers :: "nat \<rightharpoonup> bool"
  seen_env :: "nat \<rightharpoonup> permission_env"

datatype request_outcome = Replied "PermissionResult list" | Prompting pending_request

definition start_prompting :: "permission_env \<Rightarrow> PermissionType list \<Rightarrow> pending_request" where
  "start_prompting E ps =
     \<lparr>request_types = ps, prompt_flags = map (needs_system_prompt E) ps,
      result = replicate (length ps) (plain_result DENIED), loop_index = 0,
      outstanding = {}, barrier_runs = 0, callback_runs = [], answers = Map.empty,
      seen_env = Map.empty\<rparr>"

definition immediate_result :: "permission_env \<Rightarrow> PermissionType \<Rightarrow> PermissionResult" where
  "immediate_result E p =
     (if kApproximateGeolocationPermission E \<and> p = GEOLOCATION \<and> IsAllowlistedPermissionType E p
      then \<lparr>status = GRANTED, retrieved_permission_setting = Some AllowedAllowed\<rparr>
      else allowlist_result E p)"

definition RequestPermissionsFromCurrentDocument ::
  "permission_env \<Rightarrow> bool \<Rightarrow> PermissionType list \<Rightarrow> request_outcome" where
  "RequestPermissionsFromCurrentDocument E fenced ps =
     (if fenced then Replied (replicate (length ps) (plain_result DENIED))
      else if list_ex (needs_system_prompt E) ps then Prompting (start_prompting E ps)
      else Replied (map (immediate_result E) ps))"

text \<open>
  One call of the barrier closure.  \<^verbatim>\<open>base::BarrierClosure\<close> is library code: \<open>fires n k\<close>
  says whether the k-th call of a barrier made for n calls runs its closure, which here
  runs the request's callback on the results collected so far.
\<close>

definition barrier_run :: "(nat \<Rightarrow> nat \<Rightarrow> bool) \<Rightarrow> pending_request \<Rightarrow> pending_request" where
  "barrier_run fires r =
     (let k = Suc (barrier_runs r) in
      if fires (length (request_types r)) k
      then r\<lparr>barrier_runs := k, callback_runs := callback_runs r @ [result r]\<rparr>
      else r\<lparr>barrier_runs := k\<rparr>)"

text \<open>One iteration of the issuing loop, and one answer through the trampoline.\<close>

definition issue_next :: "(nat \<Rightarrow> nat \<Rightarrow> bool) \<Rightarrow> permission_env \<Rightarrow> pending_request \<Rightarrow> pending_request" where
  "issue_next fires E r =
     (let i = loop_index r;
          r' = r\<lparr>loop_index := Suc i, seen_env := (seen_env r)(i \<mapsto> E)\<rparr> in
      if \<not> prompt_flags r ! i
      then barrier_run fires
             (r'\<lparr>result := (result r)[i := allowlist_result E (request_types r ! i)]\<rparr>)
      else r'\<lparr>outstanding := insert i (outstanding r)\<rparr>)"

definition answer_prompt ::
  "(nat \<Rightarrow> nat \<Rightarrow> bool) \<Rightarrow> nat \<Rightarrow> bool \<Rightarrow> pending_request \<Rightarrow> pending_request" where
  "answer_prompt fires i granted r =
     barrier_run fires
       (r\<lparr>outstanding := outstanding r - {i}, answers := (answers r)(i \<mapsto> granted),
         result := (result r)[i := plain_result (status_of granted)]\<rparr>)"

text \<open>The C callback's integer answer: any non-zero value is a grant.\<close>

definition OnSystemPermissionTrampoline ::
  "(nat \<Rightarrow> nat \<Rightarrow> bool) \<Rightarrow> nat \<Rightarrow> int \<Rightarrow> pending_request \<Rightarrow> pending_request" where
  "OnSystemPermissionTrampoline fires i granted r = answer_prompt fires i (granted \<noteq> 0) r"

inductive perm_step :: "(nat \<Rightarrow> nat \<Rightarrow> bool) \<Rightarrow> pending_request \<Rightarrow> pending_request \<Rightarrow> bool"
  for fires where
  issue: "loop_index r < length (request_types r) \<Longrightarrow> perm_step fires r (issue_next fires E' r)"
| system_answer: "i \<in> outstanding r \<Longrightarrow> 
    perm_step fires r (OnSystemPermissionTrampoline fires i granted r)"

inductive perm_reachable ::
  "permission_env \<Rightarrow> (nat \<Rightarrow> nat \<Rightarrow> bool) \<Rightarrow> PermissionType list \<Rightarrow> pending_request \<Rightarrow> bool"
  for E fires ps where
  start: "perm_reachable E fires ps (start_prompting E ps)"
| step: "perm_reachable E fires ps r \<Longrightarrow> perm_step fires r r' \<Longrightarrow> perm_reachable E fires ps r'"

inductive_cases perm_stepE: "perm_step fires r r'"

subsection \<open>What is granted\<close>

text \<open>
  the permissions the browser grants without asking, exactly: the fixed list always,
  MIDI unless blocked by default, location with the system's location permission, the
  camera with the system's camera permission, and with the system's microphone
  permission the microphone and also MIDI system-exclusive messages, notifications,
  protected media identifiers and persistent storage; nothing else is ever granted.
\<close>

lemma allowlist_exact:
  "IsAllowlistedPermissionType E p \<longleftrightarrow>
     p \<in> {SENSORS, PAYMENT_HANDLER, WAKE_LOCK_SCREEN, BACKGROUND_SYNC, BACKGROUND_FETCH,
          PERIODIC_BACKGROUND_SYNC, IDLE_DETECTION, NFC} \<or>
     (p = MIDI \<and> \<not> kBlockMidiByDefault E) \<or>
     (p \<in> {GEOLOCATION, GEOLOCATION_APPROXIMATE} \<and> BlinkIOSSystemPermissionStatus E 0 \<noteq> 0) \<or>
     (p = VIDEO_CAPTURE \<and> BlinkIOSSystemPermissionStatus E 2 \<noteq> 0) \<or>
     (p \<in> {AUDIO_CAPTURE, MIDI_SYSEX, NOTIFICATIONS, PROTECTED_MEDIA_IDENTIFIER, PERSISTENT_STORAGE} \<and>
        BlinkIOSSystemPermissionStatus E 1 \<noteq> 0)"
  by (cases p) (simp_all add: IsAllowlistedPermissionType.simps)

text \<open>
  Inside a fenced frame nothing is granted by any query or request, and no system
  prompt is shown.
\<close>

lemma fenced_frame_denied:
  "RequestPermissionsFromCurrentDocument E True ps =
     Replied (replicate (length ps) (plain_result DENIED)) \<and>
   GetPermissionResultForCurrentDocument E True p = plain_result DENIED \<and>
   GetPermissionResultForEmbeddedRequester E True p = plain_result DENIED"
  by (simp add: RequestPermissionsFromCurrentDocument_def
      GetPermissionResultForCurrentDocument_def GetPermissionResultForEmbeddedRequester_def)

subsection \<open>The prompting state machine\<close>

text \<open>The documented behaviour of a barrier made for n calls: it fires at the n-th.\<close>

definition barrier_ok :: "(nat \<Rightarrow> nat \<Rightarrow> bool) \<Rightarrow> bool" where
  "barrier_ok fires \<longleftrightarrow> (\<forall>n k. 0 < k \<longrightarrow> (fires n k \<longleftrightarrow> k = n))"

text \<open>
  The result a request should have at an index: the system's answer where it was
  prompted, the allowlist as the loop saw it elsewhere.
\<close>

definition expected_result ::
  "permission_env \<Rightarrow> PermissionType list \<Rightarrow> pending_request \<Rightarrow> nat \<Rightarrow> PermissionResult" where
  "expected_result E ps r i =
     (if needs_system_prompt E (ps ! i) then plain_result (status_of (answers r i = Some True))
      else allowlist_result (the (seen_env r i)) (ps ! i))"

definition settled :: "pending_request \<Rightarrow> nat set" where
  "settled r = {i. i < loop_index r \<and> i \<notin> outstanding r}"

text \<open>The invariant without its last clause, which the barrier call restores.\<close>

definition perm_core :: "permission_env \<Rightarrow> PermissionType list \<Rightarrow> pending_request \<Rightarrow> bool" where
  "perm_core E ps r \<longleftrightarrow>
     request_types r = ps \<and> prompt_flags r = map (needs_system_prompt E) ps \<and>
     length (result r) = length ps \<and> loop_index r \<le> length ps \<and>
     outstanding r = {i. i < loop_index r \<and> needs_system_prompt E (ps ! i) \<and> answers r i = None} \<and>
     dom (answers r) \<subseteq> {i. i < loop_index r \<and> needs_system_prompt E (ps ! i)} \<and>
     (\<forall>i \<in> settled r. result r ! i = expected_result E ps r i)"

definition perm_inv :: "permission_env \<Rightarrow> PermissionType list \<Rightarrow> pending_request \<Rightarrow> bool" where
  "perm_inv E ps r \<longleftrightarrow>
     perm_core E ps r \<and> barrier_runs r = card (settled r) \<and>
     callback_runs r = (if card (settled r) = length ps \<and> ps \<noteq> [] then [result r] else [])"

lemma perm_inv_start: "perm_inv E ps (start_prompting E ps)"
  by (auto simp: perm_inv_def perm_core_def start_prompting_def settled_def)

lemma finite_settled [simp]: "finite (settled r)"
  by (simp add: settled_def)

lemma settled_bound: "perm_core E ps r \<Longrightarrow> settled r \<subseteq> {..<length ps}"
  by (auto simp: perm_core_def settled_def)

lemma settled_card_le: "perm_core E ps r \<Longrightarrow> card (settled r) \<le> length ps"
  using card_mono [OF _ settled_bound] by fastforce

text \<open>
  A barrier call after a new index has settled restores the whole invariant: the count
  goes up by one, and before the last call the callback has not run.
\<close>

lemma barrier_run_inv:
  assumes "barrier_ok fires" and core: "perm_core E ps r"
    and runs: "card (settled r) = Suc (barrier_runs r)" and fresh: "callback_runs r = []"
  shows "perm_inv E ps (barrier_run fires r)"
proof -
  have "fires (length ps) (Suc (barrier_runs r)) \<longleftrightarrow> Suc (barrier_runs r) = length ps"
    using assms(1) by (simp add: barrier_ok_def)
  then show ?thesis
    using core runs fresh
    by (auto simp: perm_inv_def perm_core_def barrier_run_def Let_def settled_def expected_result_def)
qed

lemma new_settled_fresh:
  assumes inv: "perm_inv E ps r" and core: "perm_core E ps r'"
    and ins: "settled r' = insert i (settled r)" and new: "i \<notin> settled r"
    and same: "barrier_runs r' = barrier_runs r" "callback_runs r' = callback_runs r"
  shows "card (settled r') = Suc (barrier_runs r')" "callback_runs r' = []"
proof -
  have c: "card (settled r') = Suc (card (settled r))"
    by (simp add: ins new)
  then show "card (settled r') = Suc (barrier_runs r')"
    using inv same by (simp add: perm_inv_def)
  show "callback_runs r' = []"
    using inv same c settled_card_le [OF core] by (auto simp: perm_inv_def)
qed

lemma issue_next_inv:
  assumes ok: "barrier_ok fires" and inv: "perm_inv E ps r" and i: "loop_index r < length ps"
  shows "perm_inv E ps (issue_next fires E' r)"
proof (cases "needs_system_prompt E (ps ! loop_index r)")
  case True
  let ?r = "r\<lparr>loop_index := Suc (loop_index r), seen_env := (seen_env r)(loop_index r \<mapsto> E'),
              outstanding := insert (loop_index r) (outstanding r)\<rparr>"
  have s: "settled ?r = settled r"
    using inv by (auto simp: perm_inv_def perm_core_def settled_def less_Suc_eq)
  have n: "answers r (loop_index r) = None"
    using inv by (auto simp: perm_inv_def perm_core_def dom_def)
  have "perm_core E ps ?r"
    using inv i n True unfolding perm_core_def s
    by (auto simp: perm_inv_def perm_core_def expected_result_def settled_def less_Suc_eq)
  then have "perm_inv E ps ?r"
    using inv s by (simp add: perm_inv_def)
  then show ?thesis
    using inv i True by (simp add: issue_next_def Let_def perm_inv_def perm_core_def)
next
  case False
  let ?i = "loop_index r"
  let ?r = "r\<lparr>loop_index := Suc ?i, seen_env := (seen_env r)(?i \<mapsto> E'),
              result := (result r)[?i := allowlist_result E' (ps ! ?i)]\<rparr>"
  have s: "settled ?r = insert ?i (settled r)" "?i \<notin> settled r"
    using inv by (auto simp: perm_inv_def perm_core_def settled_def less_Suc_eq)
  have "perm_core E ps ?r"
    using inv i False s unfolding perm_core_def s
    by (auto simp: perm_inv_def perm_core_def expected_result_def settled_def less_Suc_eq nth_list_update)
  note core = this
  have "perm_inv E ps (barrier_run fires ?r)"
    using new_settled_fresh [OF inv core s] by (intro barrier_run_inv [OF ok core]) simp_all
  then show ?thesis
    using inv i False by (simp add: issue_next_def Let_def perm_inv_def perm_core_def)
qed

lemma answer_prompt_inv:
  assumes ok: "barrier_ok fires" and inv: "perm_inv E ps r" and i: "i \<in> outstanding r"
  shows "perm_inv E ps (answer_prompt fires i granted r)"
proof -
  let ?r = "r\<lparr>outstanding := outstanding r - {i}, answers := (answers r)(i \<mapsto> granted),
              result := (result r)[i := plain_result (status_of granted)]\<rparr>"
  have s: "settled ?r = insert i (settled r)" "i \<notin> settled r"
    using inv i by (auto simp: perm_inv_def perm_core_def settled_def)
  have core: "perm_core E ps ?r"
    using inv i s unfolding perm_core_def s
    by (auto simp: perm_inv_def perm_core_def expected_result_def settled_def nth_list_update)
  show ?thesis
    unfolding answer_prompt_def
    using new_settled_fresh [OF inv core s] by (intro barrier_run_inv [OF ok core]) simp_all
qed

lemma perm_reachable_inv:
  "perm_reachable E fires ps r \<Longrightarrow> barrier_ok fires \<Longrightarrow> perm_inv E ps r"
proof (induction rule: perm_reachable.induct)
  case start
  show ?case by (rule perm_inv_start)
next
  case (step r r')
  then have inv: "perm_inv E ps r" by simp
  from step.hyps(2) show ?case
  proof (cases rule: perm_step.cases)
    case (issue E')
    then show ?thesis
      using issue_next_inv [OF step.prems inv] inv by (simp add: perm_inv_def perm_core_def)
  next
    case (system_answer i granted)
    then show ?thesis
      using answer_prompt_inv [OF step.prems inv] by (simp add: OnSystemPermissionTrampoline_def)
  qed
qed

text \<open>The reply in terms of what the loop stores.\<close>

lemma replies_with_expected:
  assumes "barrier_ok fires" and "ps \<noteq> []" and "perm_reachable E fires ps r"
  shows "callback_runs r =
           (if loop_index r = length ps \<and> outstanding r = {}
            then [map (expected_result E ps r) [0..<length ps]] else [])"
proof -
  have inv: "perm_inv E ps r"
    using perm_reachable_inv assms by blast
  then have core: "perm_core E ps r" by (simp add: perm_inv_def)
  have full: "card (settled r) = length ps \<longleftrightarrow> settled r = {..<length ps}"
    using card_subset_eq [OF finite_lessThan settled_bound [OF core]] by (metis card_lessThan)
  have "settled r = {..<length ps} \<longleftrightarrow> loop_index r = length ps \<and> outstanding r = {}"
  proof
    assume s: "settled r = {..<length ps}"
    then have "length ps - 1 \<in> settled r"
      using assms(2) by (simp add: length_greater_0_conv [symmetric] del: length_greater_0_conv)
    then have "loop_index r = length ps"
      using core by (auto simp: perm_core_def settled_def)
    moreover have "outstanding r \<subseteq> {..<length ps} - settled r"
      using core by (auto simp: perm_core_def settled_def)
    ultimately show "loop_index r = length ps \<and> outstanding r = {}"
      using s by auto
  qed (auto simp: settled_def)
  moreover have "settled r = {..<length ps} \<Longrightarrow> result r = map (expected_result E ps r) [0..<length ps]"
    using core by (auto simp: perm_core_def intro: nth_equalityI)
  ultimately show ?thesis
    using inv full assms(2) by (auto simp: perm_inv_def)
qed

text \<open>
  What a permission should get: the system's answer where it was prompted, elsewhere what the request without prompts gives, which for a granted
  geolocation under the approximate-geolocation feature includes the setting that the feature requires. The loop with prompts leaves that setting out.
\<close>

definition intended_result ::
  "permission_env \<Rightarrow> PermissionType list \<Rightarrow> pending_request \<Rightarrow> nat \<Rightarrow> PermissionResult" where
  "intended_result E ps r i =
     (if needs_system_prompt E (ps ! i) then plain_result (status_of (answers r i = Some True))
      else immediate_result (the (seen_env r i)) (ps ! i))"

definition lacks_setting :: "PermissionType list \<Rightarrow> pending_request \<Rightarrow> nat \<Rightarrow> bool" where
  "lacks_setting ps r i \<longleftrightarrow> ps ! i = GEOLOCATION \<and> kApproximateGeolocationPermission (the (seen_env r i)) \<and>
     BlinkIOSSystemPermissionStatus (the (seen_env r i)) 0 \<noteq> 0"

lemma expected_intended:
  "expected_result E ps r i = (if lacks_setting ps r i then plain_result GRANTED else intended_result E ps r i)"
  by (auto simp: expected_result_def intended_result_def lacks_setting_def immediate_result_def allowlist_result_def needs_system_prompt_def
      is_capture_def status_of_def IsAllowlistedPermissionType.simps)

text \<open>
  C7: a request with prompts replies exactly once.  In every state the prompts and the
  loop can reach, in any order of answers, the reply callback has run at most once; while
  a prompt is unanswered or the loop is not done it has not run; and once the loop is done
  and every prompt is answered it has run, on one result per requested permission: the
  system's answer where a prompt was needed, elsewhere the result of a request without
  prompts, but for one case, a geolocation granted under the approximate-geolocation
  feature, which is reported without the setting the feature requires.
\<close>

theorem prompting_replies_once:
  assumes "barrier_ok fires" and "ps \<noteq> []" and "perm_reachable E fires ps r"
  shows "callback_runs r =
           (if loop_index r = length ps \<and> outstanding r = {}
            then [map (\<lambda>i. if lacks_setting ps r i then plain_result GRANTED else intended_result E ps r i) [0..<length ps]] else [])"
  using replies_with_expected [OF assms] by (simp add: expected_intended)

text \<open>
  A camera and geolocation request on a phone where location is allowed and the camera is undecided, with the feature on: the loop issues
  the camera prompt, grants the location without its setting, and the person then allows the camera.
\<close>

definition demo_env :: permission_env where
  "demo_env = \<lparr>BlinkIOSSystemPermissionStatus = (\<lambda>p. if p = 0 then 1 else 0), kBlockMidiByDefault = False,
     kApproximateGeolocationPermission = True, kUseFakeDeviceForMediaStream = None,
     kUseFakeUIForMediaStream = False\<rparr>"

definition demo_barrier :: "nat \<Rightarrow> nat \<Rightarrow> bool" where
  "demo_barrier n k \<longleftrightarrow> k = n"

definition demo_request :: pending_request where
  "demo_request =
     OnSystemPermissionTrampoline demo_barrier 0 1 (issue_next demo_barrier demo_env
       (issue_next demo_barrier demo_env (start_prompting demo_env [VIDEO_CAPTURE, GEOLOCATION])))"

lemmas demo_request_simps =
  demo_request_def OnSystemPermissionTrampoline_def answer_prompt_def issue_next_def barrier_run_def start_prompting_def Let_def
  demo_env_def demo_barrier_def needs_system_prompt_def is_capture_def system_permission_def
  allowlist_result_def plain_result_def status_of_def IsAllowlistedPermissionType.simps

lemma demo_request_reachable:
  "perm_reachable demo_env demo_barrier [VIDEO_CAPTURE, GEOLOCATION] demo_request"
  unfolding demo_request_def
  by (intro perm_reachable.step [OF _ perm_step.system_answer] perm_reachable.step [OF _ perm_step.issue]
        perm_reachable.start) (simp_all add: demo_request_simps)

theorem prompting_replies_once_witness:
  "callback_runs demo_request = [[plain_result GRANTED, plain_result GRANTED]] \<and>
   intended_result demo_env [VIDEO_CAPTURE, GEOLOCATION] demo_request 1 = \<lparr>status = GRANTED, retrieved_permission_setting = Some AllowedAllowed\<rparr>"
proof -
  have ok: "barrier_ok demo_barrier" by (simp add: barrier_ok_def demo_barrier_def)
  have "loop_index demo_request = 2" "outstanding demo_request = {}" by (simp_all add: demo_request_simps)
  then have "callback_runs demo_request = [map (\<lambda>i. if lacks_setting [VIDEO_CAPTURE, GEOLOCATION] demo_request i then plain_result GRANTED
      else intended_result demo_env [VIDEO_CAPTURE, GEOLOCATION] demo_request i) [0, 1]]"
    using prompting_replies_once [OF ok _ demo_request_reachable] by (simp add: numeral_2_eq_2)
  moreover have "lacks_setting [VIDEO_CAPTURE, GEOLOCATION] demo_request 1" "\<not> lacks_setting [VIDEO_CAPTURE, GEOLOCATION] demo_request 0"
    "intended_result demo_env [VIDEO_CAPTURE, GEOLOCATION] demo_request 0 = plain_result GRANTED"
    "intended_result demo_env [VIDEO_CAPTURE, GEOLOCATION] demo_request 1 = \<lparr>status = GRANTED, retrieved_permission_setting = Some AllowedAllowed\<rparr>"
    by (simp_all add: lacks_setting_def intended_result_def immediate_result_def demo_request_simps)
  ultimately show ?thesis by simp
qed

end
