(* ===== verification/Browser_World.thy ===== *)
theory Browser_World
  imports Blinker_Prelude Memory_Policy Private_Logging
begin

text \<open>
  The state the shell's C++ code works on and the calls it makes out of it.

  A \<open>world\<close> holds the heap of live WebContents, the Shell objects and the ordered list
  \<^verbatim>\<open>Shell::windows_\<close>, the user defaults, the namespace-level globals of
  \<^verbatim>\<open>content/shell/browser/shell.cc\<close> and the list of calls made so far, log statements
  included.  The content library itself is not part of this repository: what a call does
  to the WebContents is the parameter \<open>react\<close>, what the kernel and UIKit answer is the
  parameter \<open>sys\<close>.  A procedure of the sources is a function \<open>world \<Rightarrow> world\<close>, a function
  of the sources a function \<open>world \<Rightarrow> 'a \<times> world\<close>; statements
  are put together with \<open>seq\<close>, \<open>after\<close> and \<open>bindw\<close>.
\<close>

named_theorems world_simps \<open>unfolding the primitive operations on the world\<close>

type_synonym contents_id = nat
type_synonym shell_id = nat

text \<open>\<^verbatim>\<open>base::TimeTicks\<close> in microseconds; the null time is 0.\<close>

type_synonym time_ticks = int

definition is_null :: "time_ticks \<Rightarrow> bool" where "is_null t \<longleftrightarrow> t = 0"
definition Seconds :: "int \<Rightarrow> time_ticks" where "Seconds n = n * 1000000"
definition Milliseconds :: "int \<Rightarrow> time_ticks" where "Milliseconds n = n * 1000"

lemmas time_defs = is_null_def Seconds_def Milliseconds_def

record UserAgentMetadata =
  brand_version_list :: "(string \<times> string) list"
  brand_full_version_list :: "(string \<times> string) list"
  full_version :: string
  platform :: string
  platform_version :: string
  architecture :: string
  model :: string
  mobile :: bool
  bitness :: string
  wow64 :: bool
  form_factors :: "string list"

record UserAgentOverride =
  ua_string_override :: string
  ua_metadata_override :: "UserAgentMetadata option"

definition no_override :: UserAgentOverride where
  "no_override = \<lparr>ua_string_override = [], ua_metadata_override = None\<rparr>"

text \<open>
  A WebContents as its accessors show it.  \<open>primary_main_frame\<close> is \<open>None\<close> for a null frame
  and \<open>Some live\<close> otherwise; \<open>browser_context\<close> is \<open>Some off_the_record\<close>; \<open>pending_entry\<close> is
  the URL of the pending navigation entry; \<open>storage_partition\<close> is \<open>Some c\<close> where \<open>c\<close> says
  whether it has a cookie manager.
\<close>

record web_contents =
  GetVisibleURL :: gurl
  GetLastCommittedURL :: gurl
  IsLoading :: bool
  pending_entry :: "gurl option"
  primary_main_frame :: "bool option"
  browser_context :: "bool option"
  storage_partition :: "bool option"
  GetUserAgentOverride :: UserAgentOverride
  GetCurrentEntryIndex :: int
  GetEntryCount :: int
  WasDiscarded :: bool
  HasUncommittedNavigation :: bool

type_synonym heap = "contents_id \<rightharpoonup> web_contents"
type_synonym window_size = "int \<times> int"

datatype pressure_level = MEMORY_PRESSURE_LEVEL_MODERATE | MEMORY_PRESSURE_LEVEL_CRITICAL

datatype UIControl = BACK_BUTTON | FORWARD_BUTTON | STOP_BUTTON

datatype transition = PAGE_TRANSITION_TYPED_FROM_ADDRESS_BAR | PAGE_TRANSITION_LINK

record LoadURLParams =
  load_url :: gurl
  frame_name :: string
  transition_type :: transition
  load_data :: "(string \<times> gurl \<times> gurl) option"
    \<comment> \<open>\<^verbatim>\<open>LOAD_TYPE_DATA\<close>: the data URL text, \<^verbatim>\<open>base_url_for_data_url\<close>, \<^verbatim>\<open>virtual_url_for_special_cases\<close>\<close>

text \<open>Tasks the shell posts to the UI thread's queue.\<close>

datatype task = ShowOOMGuardPage_task | BreakChatGPTMwebLoop_task gurl | StopFrontShellLoad_task

text \<open>Calls on \<^verbatim>\<open>g_platform\<close> and on the functions of the iOS platform delegate.\<close>

datatype platform_call =
    CreatePlatformWindow shell_id window_size
  | PlatformSetContents shell_id
  | DidCreateOrAttachWebContents shell_id contents_id
  | MainFrameCreated shell_id contents_id
  | PlatformCleanUp shell_id
  | DidCloseLastWindow
  | ResignKeyWindow shell_id
  | MakeKeyAndVisible shell_id
  | ShowShellWindow shell_id bool
  | EnableUIControl shell_id UIControl bool
  | SetIsLoading shell_id bool
  | SetAddressBarURL shell_id gurl
  | SetTitle shell_id string
  | PlatformToggleFullscreen shell_id "contents_id option" bool
  | PlatformRunFileChooser nat
  | ResizeWebContent shell_id window_size
  | PlatformInitialize window_size
  | ShowDevToolsFrontend shell_id
  | ActivateDevToolsFrontend shell_id
  | CloseDevToolsFrontend shell_id

datatype renderer_pref =
    SystemFontPrefs | accept_languages string | use_custom_colors bool
  | webrtc_ip_handling_policy string

text \<open>Calls that start, stop or redirect what the content library does with a page.\<close>

datatype page_call =
    Stop contents_id
  | LoadURLWithParams contents_id LoadURLParams
  | GoToOffset contents_id int
  | ReloadContents contents_id bool
  | SetUserAgentOverride contents_id UserAgentOverride bool
  | NotifyPreferencesChanged contents_id
  | ExecuteJavaScriptInIsolatedWorld contents_id string int
  | ClearData contents_id gurl
  | FlushCookieStore contents_id
  | GetAllCookies contents_id
  | FocusContents contents_id
  | WasHidden contents_id
  | SetPageFrozen contents_id bool
  | Discard contents_id
  | SetDelegate contents_id "shell_id option"
  | SetRendererPrefs contents_id renderer_pref
  | SyncRendererPrefs contents_id
  | RunNavigationHandleCallback contents_id
  | SynchronizeVisualProperties contents_id
  | SetChildWebContents contents_id contents_id
  | GotResponseToPointerLockRequest contents_id

text \<open>Everything the shell does outside its own state, and its log statements, in order.\<close>

datatype call =
    Log log_line
  | NotifyMemoryPressure pressure_level
  | Page page_call
  | Platform platform_call
  | PostTask task
  | BlinkObserveGoogleAvatarURL shell_id string
  | FileSelectionCanceled nat
  | DetachAllClients
  | DeletePlatform
  | DisableRefCounts
  | RunQuitClosure
  | RunShellCreatedCallback shell_id

subsection \<open>The state\<close>

text \<open>The variables of the anonymous namespace of \<^verbatim>\<open>shell.cc\<close> with their initial values.\<close>

record shell_globals =
  g_global_low_memory_mode :: bool
  g_main_frame_navigation_start_count :: int
  g_duplicate_view_first_seen :: time_ticks
  g_last_oom_watchdog_sample :: time_ticks
  g_last_oom_watchdog_footprint :: u64
  g_last_oom_watchdog_rss :: u64
  g_last_user_action :: string
  g_recent_load_starts :: "time_ticks list"
  g_recent_load_start_head :: nat
  g_ai_guard_logged_for_page :: bool
  g_last_ai_purge :: time_ticks
  g_last_heavy_heartbeat_footprint :: u64
  g_in_auth_flow :: bool
  g_recent_auth_urls :: "string list"
  g_recent_auth_times :: "time_ticks list"
  g_recent_auth_head :: nat
  g_chatgpt_auth_breaker_used :: bool
  g_chatgpt_mweb_logged :: bool
  g_chatgpt_auth_profile :: int
  g_keyboard_chat_fallback_ratio :: int  \<comment> \<open>a float constant, in hundredths\<close>
  g_is_chat_keyboard_relocation_site :: bool
  g_auth_popup_contents :: "contents_id option"
  g_auth_popup_opener :: "contents_id option"

definition kRecentLoadStartSlots :: nat where "kRecentLoadStartSlots = 16"
definition kRecentAuthSlots :: nat where "kRecentAuthSlots = 10"

definition initial_globals :: shell_globals where
  "initial_globals =
     \<lparr>g_global_low_memory_mode = False, g_main_frame_navigation_start_count = 0,
      g_duplicate_view_first_seen = 0, g_last_oom_watchdog_sample = 0,
      g_last_oom_watchdog_footprint = 0, g_last_oom_watchdog_rss = 0,
      g_last_user_action = ''startup'',
      g_recent_load_starts = replicate kRecentLoadStartSlots 0, g_recent_load_start_head = 0,
      g_ai_guard_logged_for_page = False, g_last_ai_purge = 0,
      g_last_heavy_heartbeat_footprint = 0, g_in_auth_flow = False,
      g_recent_auth_urls = replicate kRecentAuthSlots [],
      g_recent_auth_times = replicate kRecentAuthSlots 0, g_recent_auth_head = 0,
      g_chatgpt_auth_breaker_used = False, g_chatgpt_mweb_logged = False,
      g_chatgpt_auth_profile = 2, g_keyboard_chat_fallback_ratio = 0,
      g_is_chat_keyboard_relocation_site = False, g_auth_popup_contents = None,
      g_auth_popup_opener = None\<rparr>"

text \<open>The members of a \<^verbatim>\<open>Shell\<close> object (\<^verbatim>\<open>shell.h\<close>).\<close>

record shell =
  shell_web_contents :: "contents_id option"
  devtools_frontend :: bool
  is_fullscreen :: bool
  delay_popup_contents_delegate_for_testing :: bool
  hold_file_chooser :: bool
  held_file_chooser_listener :: "nat option"
  run_file_chooser_count :: nat

record world =
  contents :: heap
  shells :: "shell_id \<rightharpoonup> shell"
  windows :: "shell_id list"
  next_shell :: shell_id
  has_platform :: bool
  quit_closure :: bool
  shell_created_callback :: bool
  default_shell_size :: window_size
  prefs :: "string \<rightharpoonup> cf_value"
  mem_cache :: memory_cache
  force_desktop_site :: int
  heartbeat_timer_running :: bool
  globals :: shell_globals
  queries :: nat
  trace :: "call list"

definition initial_world :: world where
  "initial_world =
     \<lparr>contents = Map.empty, shells = Map.empty, windows = [], next_shell = 0,
      has_platform = False, quit_closure = False, shell_created_callback = False,
      default_shell_size = (0, 0), prefs = Map.empty, mem_cache = initial_cache,
      force_desktop_site = 0, heartbeat_timer_running = False, globals = initial_globals,
      queries = 0, trace = []\<rparr>"

subsection \<open>The environment\<close>

text \<open>
  The system at one moment: Mach's two \<^verbatim>\<open>task_info\<close> answers, what the memory policy asks
  the kernel, the clocks, and the object counts kept by the iOS view code.
\<close>

record sys_sample =
  task_basic_kr :: int
  task_resident_size :: u64
  task_virtual_size :: u64
  task_vm_kr :: int
  task_footprint :: u64
  kernel :: kernel_env
  TimeTicks_Now :: time_ticks
  wall_time :: int
  BlinkActiveRWHVCount :: int
  BlinkActiveBrowserCompositorCount :: int
  BlinkActiveAttachedCALayerCount :: int
  renderer_process_count :: nat
  key_window :: "shell_id option"

text \<open>
  The parameters of the model.  \<open>sys n\<close> is the system when the n-th memory query is made
  and until the next one, so that two queries of one handler may see different systems.
\<close>

record browser_env =
  api :: base_api
  sys :: "nat \<Rightarrow> sys_sample"
  react :: "call \<Rightarrow> heap \<Rightarrow> heap"
  private_session :: bool
  uname_release :: "string option"
  StringToInt :: "string \<Rightarrow> int option"
  AppendOrReplaceQueryParameter :: "gurl \<Rightarrow> string \<Rightarrow> string option \<Rightarrow> gurl"
  make_url :: "string \<Rightarrow> gurl"
  zoom_factor_string :: "int \<Rightarrow> string"
  EscapeJSONString :: "string \<Rightarrow> string"
  CFStringCreateWithCString :: "string \<Rightarrow> string option"
  ISOLATED_WORLD_ID_CONTENT_END :: int
  CONTENT_SHELL_VERSION :: string
  CONTENT_SHELL_MAJOR_VERSION :: string
  switch_value :: "string \<Rightarrow> string option"
  gfx_size :: "int \<Rightarrow> int \<Rightarrow> window_size"
  size_is_empty :: "window_size \<Rightarrow> bool"

definition now_sample :: "browser_env \<Rightarrow> world \<Rightarrow> sys_sample" where
  "now_sample E w = sys E (queries w)"

definition Now :: "browser_env \<Rightarrow> world \<Rightarrow> time_ticks" where
  "Now E w = TimeTicks_Now (now_sample E w)"

definition IsRunWebTestsSwitchPresent :: "browser_env \<Rightarrow> bool" where
  "IsRunWebTestsSwitchPresent E \<longleftrightarrow> switch_value E ''run-web-tests'' \<noteq> None"

text \<open>
  Following a WebContents pointer: \<open>None\<close> is null.  Ids not in the heap belong to destroyed
  WebContents; the invariant of \<open>Shell_Windows\<close> excludes them.
\<close>

definition deref :: "world \<Rightarrow> contents_id option \<Rightarrow> web_contents option" where
  "deref w c = Option.bind c (contents w)"

lemma deref_simps [simp]: "deref w None = None" "deref w (Some i) = contents w i"
  by (simp_all add: deref_def)

subsection \<open>Primitive operations\<close>

definition emit :: "browser_env \<Rightarrow> call \<Rightarrow> world \<Rightarrow> world" where
  "emit E c w = w\<lparr>trace := trace w @ [c], contents := react E c (contents w)\<rparr>"

definition log :: "log_line \<Rightarrow> world \<Rightarrow> world" where
  "log l w = w\<lparr>trace := trace w @ [Log l]\<rparr>"

definition diag :: "string \<Rightarrow> log_arg list \<Rightarrow> world \<Rightarrow> world" where
  "diag f as = log (BLINKER_DIAG f as)"

definition ship :: "string \<Rightarrow> log_arg list \<Rightarrow> world \<Rightarrow> world" where
  "ship f as = log (BLINKER_LOG f as)"

definition only_if :: "bool \<Rightarrow> (world \<Rightarrow> world) \<Rightarrow> world \<Rightarrow> world" where
  "only_if b f = (if b then f else id)"

text \<open>
  A block of statements, a block followed by a computation with a result, and a computation
  whose result the rest uses.
\<close>

primrec seq :: "(world \<Rightarrow> world) list \<Rightarrow> world \<Rightarrow> world" where
  "seq [] w = w"
| "seq (f # fs) w = seq fs (f w)"

definition after :: "(world \<Rightarrow> world) list \<Rightarrow> (world \<Rightarrow> 'b) \<Rightarrow> world \<Rightarrow> 'b" where
  "after fs k w = k (seq fs w)"

definition bindw :: "(world \<Rightarrow> 'a \<times> world) \<Rightarrow> ('a \<Rightarrow> world \<Rightarrow> 'b) \<Rightarrow> world \<Rightarrow> 'b" where
  "bindw m f w = (case m w of (x, w') \<Rightarrow> f x w')"

definition ret :: "'a \<Rightarrow> world \<Rightarrow> 'a \<times> world" where
  "ret x w = (x, w)"

text \<open>Assigning globals, and reading the world.\<close>

definition assign :: "(shell_globals \<Rightarrow> shell_globals) \<Rightarrow> world \<Rightarrow> world" where
  "assign f w = w\<lparr>globals := f (globals w)\<rparr>"

definition set_pref :: "string \<Rightarrow> cf_value \<Rightarrow> world \<Rightarrow> world" where
  "set_pref k v w = w\<lparr>prefs := (prefs w)(k \<mapsto> v)\<rparr>"

definition reading :: "(world \<Rightarrow> 'a) \<Rightarrow> ('a \<Rightarrow> world \<Rightarrow> 'b) \<Rightarrow> world \<Rightarrow> 'b" where
  "reading q k w = k (q w) w"

definition url_arg :: "browser_env \<Rightarrow> gurl \<Rightarrow> log_arg" where
  "url_arg E u = LUrl (LoggableURLSpec (private_session E) u)"

definition host_arg :: "browser_env \<Rightarrow> string \<Rightarrow> log_arg" where
  "host_arg E h = LUrl (LoggableHost (private_session E) h)"

definition u64_arg :: "u64 \<Rightarrow> log_arg" where
  "u64_arg x = LNum (unat x)"

definition bool_arg :: "bool \<Rightarrow> log_arg" where
  "bool_arg b = LNum (if b then 1 else 0)"

lemma after_apply [simp]: "after fs k w = k (seq fs w)"
  by (simp add: after_def)

lemma bindw_apply [simp]: "bindw m f w = (case m w of (x, w') \<Rightarrow> f x w')"
  by (simp add: bindw_def)

lemma only_if_simps [simp]: "only_if True f = f" "only_if False f = id"
  by (simp_all add: only_if_def)

lemma reading_apply [world_simps]: "reading q k w = k (q w) w"
  by (simp add: reading_def)

lemma log_selectors [simp]:
  "contents (log l w) = contents w" "shells (log l w) = shells w" "windows (log l w) = windows w"
  "prefs (log l w) = prefs w" "mem_cache (log l w) = mem_cache w" "globals (log l w) = globals w"
  "queries (log l w) = queries w" "force_desktop_site (log l w) = force_desktop_site w"
  "heartbeat_timer_running (log l w) = heartbeat_timer_running w"
  "next_shell (log l w) = next_shell w" "has_platform (log l w) = has_platform w"
  "quit_closure (log l w) = quit_closure w"
  "shell_created_callback (log l w) = shell_created_callback w"
  "default_shell_size (log l w) = default_shell_size w"
  "trace (log l w) = trace w @ [Log l]"
  by (simp_all add: log_def)

lemma diag_selectors [simp]:
  "contents (diag f as w) = contents w" "shells (diag f as w) = shells w"
  "windows (diag f as w) = windows w" "prefs (diag f as w) = prefs w"
  "mem_cache (diag f as w) = mem_cache w" "globals (diag f as w) = globals w"
  "queries (diag f as w) = queries w" "force_desktop_site (diag f as w) = force_desktop_site w"
  "heartbeat_timer_running (diag f as w) = heartbeat_timer_running w"
  "next_shell (diag f as w) = next_shell w" "has_platform (diag f as w) = has_platform w"
  "quit_closure (diag f as w) = quit_closure w"
  "shell_created_callback (diag f as w) = shell_created_callback w"
  "default_shell_size (diag f as w) = default_shell_size w"
  "trace (diag f as w) = trace w @ [Log (BLINKER_DIAG f as)]"
  by (simp_all add: diag_def)

lemma ship_selectors [simp]:
  "contents (ship f as w) = contents w" "shells (ship f as w) = shells w"
  "windows (ship f as w) = windows w" "prefs (ship f as w) = prefs w"
  "mem_cache (ship f as w) = mem_cache w" "globals (ship f as w) = globals w"
  "queries (ship f as w) = queries w" "force_desktop_site (ship f as w) = force_desktop_site w"
  "heartbeat_timer_running (ship f as w) = heartbeat_timer_running w"
  "next_shell (ship f as w) = next_shell w" "has_platform (ship f as w) = has_platform w"
  "quit_closure (ship f as w) = quit_closure w"
  "shell_created_callback (ship f as w) = shell_created_callback w"
  "default_shell_size (ship f as w) = default_shell_size w"
  "trace (ship f as w) = trace w @ [Log (BLINKER_LOG f as)]"
  by (simp_all add: ship_def)

lemma emit_selectors [simp]:
  "shells (emit E c w) = shells w" "windows (emit E c w) = windows w"
  "contents (emit E c w) = react E c (contents w)"
  "prefs (emit E c w) = prefs w" "mem_cache (emit E c w) = mem_cache w"
  "globals (emit E c w) = globals w" "queries (emit E c w) = queries w"
  "force_desktop_site (emit E c w) = force_desktop_site w"
  "heartbeat_timer_running (emit E c w) = heartbeat_timer_running w"
  "next_shell (emit E c w) = next_shell w" "has_platform (emit E c w) = has_platform w"
  "quit_closure (emit E c w) = quit_closure w"
  "shell_created_callback (emit E c w) = shell_created_callback w"
  "default_shell_size (emit E c w) = default_shell_size w"
  "trace (emit E c w) = trace w @ [c]"
  by (simp_all add: emit_def)

lemma assign_selectors [simp]:
  "contents (assign f w) = contents w" "shells (assign f w) = shells w"
  "windows (assign f w) = windows w" "prefs (assign f w) = prefs w"
  "mem_cache (assign f w) = mem_cache w" "globals (assign f w) = f (globals w)"
  "queries (assign f w) = queries w" "force_desktop_site (assign f w) = force_desktop_site w"
  "heartbeat_timer_running (assign f w) = heartbeat_timer_running w"
  "next_shell (assign f w) = next_shell w" "has_platform (assign f w) = has_platform w"
  "quit_closure (assign f w) = quit_closure w"
  "shell_created_callback (assign f w) = shell_created_callback w"
  "default_shell_size (assign f w) = default_shell_size w"
  "trace (assign f w) = trace w"
  by (simp_all add: assign_def)

lemma set_pref_selectors [simp]:
  "contents (set_pref k v w) = contents w" "shells (set_pref k v w) = shells w"
  "windows (set_pref k v w) = windows w" "prefs (set_pref k v w) = (prefs w)(k \<mapsto> v)"
  "mem_cache (set_pref k v w) = mem_cache w" "globals (set_pref k v w) = globals w"
  "queries (set_pref k v w) = queries w"
  "force_desktop_site (set_pref k v w) = force_desktop_site w"
  "heartbeat_timer_running (set_pref k v w) = heartbeat_timer_running w"
  "next_shell (set_pref k v w) = next_shell w" "has_platform (set_pref k v w) = has_platform w"
  "quit_closure (set_pref k v w) = quit_closure w"
  "shell_created_callback (set_pref k v w) = shell_created_callback w"
  "default_shell_size (set_pref k v w) = default_shell_size w"
  "trace (set_pref k v w) = trace w"
  by (simp_all add: set_pref_def)

subsection \<open>The private-session rule on a trace\<close>

text \<open>
  Every log statement made so far obeys the rule of \<open>Private_Logging\<close>, except that statements
  with a format string in \<open>X\<close> are not looked at.
\<close>

fun call_private :: "string set \<Rightarrow> call \<Rightarrow> bool" where
  "call_private X (Log l) \<longleftrightarrow> line_private l \<or> log_format l \<in> X"
| "call_private X _ \<longleftrightarrow> True"

definition private_except :: "string set \<Rightarrow> world \<Rightarrow> bool" where
  "private_except X w \<longleftrightarrow> list_all (call_private X) (trace w)"

abbreviation private_trace :: "world \<Rightarrow> bool" where
  "private_trace \<equiv> private_except {}"

lemma private_except_simps [simp]:
  "private_except X (log l w) \<longleftrightarrow> private_except X w \<and> (line_private l \<or> log_format l \<in> X)"
  "private_except X (diag f as w) \<longleftrightarrow> private_except X w \<and> (list_all arg_private as \<or> f \<in> X)"
  "private_except X (ship f as w) \<longleftrightarrow> private_except X w \<and> (list_all arg_private as \<or> f \<in> X)"
  "private_except X (emit E c w) \<longleftrightarrow> private_except X w \<and> call_private X c"
  "private_except X (assign h w) = private_except X w" "private_except X (set_pref k v w) = private_except X w"
  "private_except X (w\<lparr>queries := n\<rparr>) = private_except X w"
  "private_except X (w\<lparr>mem_cache := m\<rparr>) = private_except X w"
  "private_except X (w\<lparr>contents := h'\<rparr>) = private_except X w"
  "private_except X (w\<lparr>shells := sh\<rparr>) = private_except X w"
  "private_except X (w\<lparr>windows := ws\<rparr>) = private_except X w"
  "private_except X (w\<lparr>next_shell := ns\<rparr>) = private_except X w"
  "private_except X (w\<lparr>heartbeat_timer_running := b\<rparr>) = private_except X w"
  "private_except X (w\<lparr>force_desktop_site := i\<rparr>) = private_except X w"
  "private_except X (w\<lparr>default_shell_size := sz\<rparr>) = private_except X w"
  "private_except X (w\<lparr>shell_created_callback := b\<rparr>) = private_except X w"
  "private_except X (w\<lparr>has_platform := b\<rparr>) = private_except X w"
  "private_except X (w\<lparr>quit_closure := b\<rparr>) = private_except X w"
  by (simp_all add: private_except_def diag_def ship_def log_def)

lemma args_private [simp]:
  "private_session E \<Longrightarrow> arg_private (url_arg E u)" "private_session E \<Longrightarrow> arg_private (host_arg E h)"
  "arg_private (u64_arg x)" "arg_private (bool_arg b)"
  by (simp_all add: url_arg_def host_arg_def u64_arg_def bool_arg_def)

subsection \<open>The tabs of a world\<close>

text \<open>
  What the bookkeeping of windows is about: the list of windows, the WebContents each shell
  owns, the authentication-popup trackers, and which WebContents are alive.
\<close>

definition shell_contents :: "shell_id \<Rightarrow> world \<Rightarrow> contents_id option" where
  "shell_contents s w = Option.bind (shells w s) shell_web_contents"

definition tabs_view :: "world \<Rightarrow> shell_id list \<times> (shell_id \<rightharpoonup> contents_id) \<times> shell_id \<times>
    contents_id option \<times> contents_id option \<times> contents_id set" where
  "tabs_view w = (windows w, (\<lambda>s. shell_contents s w), next_shell w,
     g_auth_popup_contents (globals w), g_auth_popup_opener (globals w), dom (contents w))"

text \<open>The content library neither creates nor destroys WebContents behind the shell's back.\<close>

definition engine_keeps_tabs :: "browser_env \<Rightarrow> bool" where
  "engine_keeps_tabs E \<longleftrightarrow> (\<forall>c h. dom (react E c h) = dom h)"

lemma engine_keeps_tabsD [simp]: "engine_keeps_tabs E \<Longrightarrow> dom (react E c h) = dom h"
  by (simp add: engine_keeps_tabs_def)

lemma tabs_view_simps [simp]:
  "tabs_view (log l w) = tabs_view w" "tabs_view (diag f as w) = tabs_view w"
  "tabs_view (ship f as w) = tabs_view w" "tabs_view (set_pref k v w) = tabs_view w"
  "engine_keeps_tabs E \<Longrightarrow> tabs_view (emit E c w) = tabs_view w"
  "tabs_view (w\<lparr>queries := n\<rparr>) = tabs_view w" "tabs_view (w\<lparr>mem_cache := m\<rparr>) = tabs_view w"
  "tabs_view (w\<lparr>heartbeat_timer_running := b\<rparr>) = tabs_view w"
  "tabs_view (w\<lparr>force_desktop_site := i\<rparr>) = tabs_view w"
  "tabs_view (w\<lparr>default_shell_size := sz\<rparr>) = tabs_view w"
  "tabs_view (w\<lparr>shell_created_callback := b\<rparr>) = tabs_view w"
  "tabs_view (w\<lparr>has_platform := b\<rparr>) = tabs_view w"
  "tabs_view (w\<lparr>quit_closure := b\<rparr>) = tabs_view w"
  by (simp_all add: tabs_view_def shell_contents_def)

lemma tabs_view_assign [simp]:
  "g_auth_popup_contents (h (globals w)) = g_auth_popup_contents (globals w) \<Longrightarrow>
   g_auth_popup_opener (h (globals w)) = g_auth_popup_opener (globals w) \<Longrightarrow>
     tabs_view (assign h w) = tabs_view w"
  by (simp add: tabs_view_def shell_contents_def)

text \<open>The page loads started so far.\<close>

fun is_load :: "call \<Rightarrow> bool" where
  "is_load (Page (LoadURLWithParams c p)) = True"
| "is_load _ = False"

definition loads :: "world \<Rightarrow> call list" where
  "loads w = filter is_load (trace w)"

lemma loads_simps [simp]:
  "loads (log l w) = loads w" "loads (diag f as w) = loads w" "loads (ship f as w) = loads w"
  "loads (assign h w) = loads w" "loads (set_pref k v w) = loads w"
  "loads (emit E c w) = loads w @ (if is_load c then [c] else [])"
  "loads (w\<lparr>queries := n\<rparr>) = loads w" "loads (w\<lparr>mem_cache := m\<rparr>) = loads w"
  "loads (w\<lparr>heartbeat_timer_running := b\<rparr>) = loads w"
  "loads (w\<lparr>windows := ws\<rparr>) = loads w" "loads (w\<lparr>shells := sh\<rparr>) = loads w"
  "loads (w\<lparr>contents := h'\<rparr>) = loads w" "loads (w\<lparr>force_desktop_site := i\<rparr>) = loads w"
  "loads (w\<lparr>default_shell_size := sz\<rparr>) = loads w"
  by (simp_all add: loads_def)

named_theorems shell_frame \<open>what a procedure leaves unchanged: tabs, started loads, the logging rule\<close>

subsection \<open>A concrete instance\<close>

text \<open>
  An environment and a world with one tab, for evaluating the definitions: the content
  library answers only to user-agent overrides, the system reports \<open>footprint\<close> bytes at every
  query and one second passes between queries.
\<close>

definition sample_react :: "call \<Rightarrow> heap \<Rightarrow> heap" where
  "sample_react c h =
     (case c of
        Page (SetUserAgentOverride i ov b) \<Rightarrow>
          (case h i of None \<Rightarrow> h | Some wc \<Rightarrow> h(i \<mapsto> wc\<lparr>GetUserAgentOverride := ov\<rparr>))
      | _ \<Rightarrow> h)"

definition sample_sys :: "u64 \<Rightarrow> nat \<Rightarrow> sys_sample" where
  "sample_sys footprint n =
     \<lparr>task_basic_kr = 0, task_resident_size = footprint, task_virtual_size = footprint,
      task_vm_kr = 0, task_footprint = footprint,
      kernel = \<lparr>hw_memsize = None, ios13_available = True, proc_available_memory = 0,
                task_phys_footprint = None\<rparr>,
      TimeTicks_Now = Seconds (int n + 1), wall_time = 0, BlinkActiveRWHVCount = 1,
      BlinkActiveBrowserCompositorCount = 1, BlinkActiveAttachedCALayerCount = 1,
      renderer_process_count = 1, key_window = None\<rparr>"

definition sample_env :: "u64 \<Rightarrow> bool \<Rightarrow> browser_env" where
  "sample_env footprint priv =
     \<lparr>api = \<lparr>ToLowerASCII = map ascii_lower, IsAsciiAlphaNumeric = ascii_alnum,
             SplitStringPiece = (\<lambda>s sep. [s]), GetDomainAndRegistry = (\<lambda>h. h)\<rparr>,
      sys = sample_sys footprint, react = sample_react, private_session = priv,
      uname_release = None, StringToInt = (\<lambda>_. None),
      AppendOrReplaceQueryParameter = (\<lambda>u _ _. u), make_url = (\<lambda>s. empty_gurl\<lparr>url_spec := s\<rparr>),
      zoom_factor_string = (\<lambda>_. ''1''), EscapeJSONString = (\<lambda>s. s),
      CFStringCreateWithCString = Some, ISOLATED_WORLD_ID_CONTENT_END = 0,
      CONTENT_SHELL_VERSION = ''149.0.0.0'', CONTENT_SHELL_MAJOR_VERSION = ''149'',
      switch_value = (\<lambda>_. None), gfx_size = Pair,
      size_is_empty = (\<lambda>(x, y). x \<le> 0 \<or> y \<le> 0)\<rparr>"

definition sample_url :: "string \<Rightarrow> string \<Rightarrow> gurl" where
  "sample_url host path =
     \<lparr>url_spec = ''https://'' @ host @ path, url_host = host, url_path = path, url_query = [],
      url_is_valid = True, url_is_empty = False, url_has_host = True, url_http_or_https = True,
      url_about_blank = False, DomainIs = (\<lambda>d. label_suffix d host)\<rparr>"

definition sample_tab :: "gurl \<Rightarrow> web_contents" where
  "sample_tab u =
     \<lparr>GetVisibleURL = u, GetLastCommittedURL = u, IsLoading = False, pending_entry = None,
      primary_main_frame = Some True, browser_context = Some False, storage_partition = Some True,
      GetUserAgentOverride = no_override, GetCurrentEntryIndex = 0, GetEntryCount = 1,
      WasDiscarded = False, HasUncommittedNavigation = False\<rparr>"

definition sample_shell :: "contents_id \<Rightarrow> shell" where
  "sample_shell c =
     \<lparr>shell_web_contents = Some c, devtools_frontend = False, is_fullscreen = False,
      delay_popup_contents_delegate_for_testing = False, hold_file_chooser = False,
      held_file_chooser_listener = None, run_file_chooser_count = 0\<rparr>"

definition sample_world :: "web_contents \<Rightarrow> world" where
  "sample_world wc =
     initial_world\<lparr>contents := [0 \<mapsto> wc], shells := [0 \<mapsto> sample_shell 0], windows := [0],
       next_shell := 1, has_platform := True\<rparr>"

lemmas sample_defs = sample_react_def sample_sys_def sample_env_def sample_url_def sample_tab_def
  sample_shell_def sample_world_def initial_world_def initial_globals_def no_override_def

end
