(* ===== verification/Browser_Client.thy ===== *)
theory Browser_Client
  imports Browser_World
begin

text \<open>
  The parts of \<^verbatim>\<open>content/shell/browser/shell_content_browser_client.cc\<close> that decide something:
  the language and user-agent identity the browser presents, the renderer preferences of the
  desktop-site mode, the code-cache rule for private contexts, and the stack of client
  instances.
\<close>

subsection \<open>Identity\<close>

text \<open>
  \<^verbatim>\<open>GetShellLanguage\<close>: the stored value is used when it is a string that fits the 128-byte
  buffer with its terminator.
\<close>

definition GetShellLanguage :: "(string \<rightharpoonup> cf_value) \<Rightarrow> string" where
  "GetShellLanguage ps =
     (case ps ''BlinkLanguageAccept'' of
        Some (CFString v) \<Rightarrow> if length v < 128 then v else ''en-us,en''
      | _ \<Rightarrow> ''en-us,en'')"

text \<open>\<^verbatim>\<open>CONTENT_SHELL_VERSION\<close> and its major number come from the build.\<close>

definition GetShellUserAgentMetadata :: "string \<Rightarrow> string \<Rightarrow> UserAgentMetadata" where
  "GetShellUserAgentMetadata version major_version =
     \<lparr>brand_version_list = [(''Chromium'', major_version), (''Google Chrome'', major_version),
        (''Not-A.Brand'', ''99'')],
      brand_full_version_list = [(''Chromium'', version), (''Google Chrome'', version),
        (''Not-A.Brand'', ''99.0.0.0'')],
      full_version = version, platform = ''Android'', platform_version = ''15.0.0'',
      architecture = ''arm'', model = ''Pixel 8'', mobile = True, bitness = [], wow64 = False,
      form_factors = [''Mobile'']\<rparr>"

definition GetShellUserAgentMetadataForSiteMode ::
  "string \<Rightarrow> string \<Rightarrow> bool \<Rightarrow> UserAgentMetadata" where
  "GetShellUserAgentMetadataForSiteMode version major_version desktop =
     (let metadata = GetShellUserAgentMetadata version major_version in
      if desktop
      then metadata\<lparr>platform := ''macOS'', platform_version := ''10_15_7'', architecture := ''x86'',
             model := [], mobile := False\<rparr>
      else metadata)"

subsection \<open>Renderer preferences\<close>

datatype PreferredColorScheme = kDark | kLight
datatype PreferredContrast = kMore | kNoPreference
datatype ViewportStyle = kDefault | kMobile | kTelevision

record WebPreferences =
  preferred_color_scheme :: PreferredColorScheme
  in_forced_colors :: bool
  preferred_contrast :: PreferredContrast
  double_tap_to_zoom_enabled :: bool
  viewport_meta_enabled :: bool
  viewport_style :: ViewportStyle
  shrinks_viewport_contents_to_fit :: bool

text \<open>\<open>scheme\<close> is \<^verbatim>\<open>g_blink_preferred_color_scheme\<close>; the two switches and \<^verbatim>\<open>g_force_desktop_site\<close> follow.\<close>

definition OverrideWebPreferences ::
  "int \<Rightarrow> bool \<Rightarrow> bool \<Rightarrow> int \<Rightarrow> WebPreferences \<Rightarrow> WebPreferences" where
  "OverrideWebPreferences scheme force_dark force_high_contrast force_desktop p =
     (let dark = (scheme = 2 \<or> force_dark);
          p = p\<lparr>preferred_color_scheme := if dark then kDark else kLight\<rparr>;
          p = (if force_high_contrast
               then p\<lparr>in_forced_colors := True, preferred_contrast := kMore\<rparr>
               else p\<lparr>in_forced_colors := False, preferred_contrast := kNoPreference\<rparr>);
          p = p\<lparr>double_tap_to_zoom_enabled := False\<rparr>
      in if force_desktop \<noteq> 0
         then p\<lparr>viewport_meta_enabled := False, viewport_style := kDefault,
                shrinks_viewport_contents_to_fit := True\<rparr>
         else p)"

subsection \<open>Code cache and client instances\<close>

record GeneratedCodeCacheSettings =
  cache_enabled :: bool
  cache_size :: nat
  cache_path :: string

definition GetGeneratedCodeCacheSettings :: "bool \<Rightarrow> string \<Rightarrow> GeneratedCodeCacheSettings" where
  "GetGeneratedCodeCacheSettings off_the_record path =
     (if off_the_record then \<lparr>cache_enabled = False, cache_size = 0, cache_path = []\<rparr>
      else \<lparr>cache_enabled = True, cache_size = 0, cache_path = path\<rparr>)"

text \<open>The list of instances, oldest first; \<^verbatim>\<open>Get\<close> answers the newest.\<close>

definition register_client :: "nat \<Rightarrow> nat list \<Rightarrow> nat list" where
  "register_client c instances = instances @ [c]"

definition unregister_client :: "nat \<Rightarrow> nat list \<Rightarrow> nat list" where
  "unregister_client c instances = filter (\<lambda>x. x \<noteq> c) instances"

definition current_client :: "nat list \<Rightarrow> nat option" where
  "current_client instances = (if instances = [] then None else Some (last instances))"

text \<open>
  \<^verbatim>\<open>GetIsolatedContextOriginSetFromFlag\<close>: \<open>origin_of\<close> is \<^verbatim>\<open>url::Origin::Create(GURL(s))\<close>, \<open>None\<close> for an
  opaque origin; the rejected strings are the error log.
\<close>

definition isolated_origin_step ::
  "(string \<Rightarrow> 'o option) \<Rightarrow> string \<Rightarrow> 'o set \<times> string list \<Rightarrow> 'o set \<times> string list" where
  "isolated_origin_step origin_of s acc =
     (case origin_of s of
        Some o' \<Rightarrow> (insert o' (fst acc), snd acc)
      | None \<Rightarrow> (fst acc, snd acc @ [s]))"

definition GetIsolatedContextOriginSetFromFlag ::
  "base_api \<Rightarrow> (string \<Rightarrow> 'o option) \<Rightarrow> string \<Rightarrow> 'o set \<times> string list" where
  "GetIsolatedContextOriginSetFromFlag B origin_of cmdline_origins =
     fold (isolated_origin_step origin_of) (SplitStringPiece B cmdline_origins '','') ({}, [])"

lemma fold_isolated_origin_step:
  "fold (isolated_origin_step f) ss (A, errs) =
     (A \<union> {o'. \<exists>s \<in> set ss. f s = Some o'}, errs @ filter (\<lambda>s. f s = None) ss)"
  by (induction ss arbitrary: A errs) (auto simp: isolated_origin_step_def split: option.splits)

end
