(* ===== verification/Extensions.thy ===== *)
theory Extensions
  imports Browser_Client Content_Filter
begin

text \<open>
  Per-site page zoom, cosmetic filter injection, desktop-site mode and site-data clearing:
  \<^verbatim>\<open>content/shell/browser/blinker_extensions.cc\<close>.  All of them run on a committed navigation
  of a WebContents; the per-host choices are kept in the user defaults.
\<close>

definition kBlinkDesktopUserAgent :: string where
  "kBlinkDesktopUserAgent =
     ''Mozilla/5.0 (Macintosh; Intel Mac OS X 10_15_7) AppleWebKit/537.36 '' @
     ''(KHTML, like Gecko) Chrome/149.0.0.0 Safari/537.36''"

definition kBlinkerZoomWorld :: "browser_env \<Rightarrow> int" where
  "kBlinkerZoomWorld E = ISOLATED_WORLD_ID_CONTENT_END E + 2"

definition kBlinkerCosmeticWorld :: "browser_env \<Rightarrow> int" where
  "kBlinkerCosmeticWorld E = ISOLATED_WORLD_ID_CONTENT_END E + 3"

subsection \<open>Stored choices\<close>

definition HostPreferenceKey :: "browser_env \<Rightarrow> string \<Rightarrow> string \<Rightarrow> string option" where
  "HostPreferenceKey E pfx host = CFStringCreateWithCString E (pfx @ host)"

definition ReadHostZoom :: "browser_env \<Rightarrow> (string \<rightharpoonup> cf_value) \<Rightarrow> string \<Rightarrow> int" where
  "ReadHostZoom E ps host =
     (case HostPreferenceKey E ''BlinkZoom_'' host of
        None \<Rightarrow> 100
      | Some key \<Rightarrow> (case ps key of Some (CFNumber n) \<Rightarrow> n | _ \<Rightarrow> 100))"

datatype HostFlag = kUnset | kFalse | kTrue

definition ReadHostFlag ::
  "browser_env \<Rightarrow> (string \<rightharpoonup> cf_value) \<Rightarrow> string \<Rightarrow> string \<Rightarrow> HostFlag" where
  "ReadHostFlag E ps pfx host =
     (case HostPreferenceKey E pfx host of
        None \<Rightarrow> kUnset
      | Some key \<Rightarrow>
          (case ps key of Some (CFBoolean b) \<Rightarrow> if b then kTrue else kFalse | _ \<Rightarrow> kUnset))"

definition WriteHostFlag :: "browser_env \<Rightarrow> string \<Rightarrow> string \<Rightarrow> bool \<Rightarrow> world \<Rightarrow> world" where
  "WriteHostFlag E pfx host b w =
     (case HostPreferenceKey E pfx host of
        None \<Rightarrow> w
      | Some key \<Rightarrow> set_pref key (CFBoolean b) w)"

subsection \<open>Zoom and cosmetic filters\<close>

definition zoom_script :: "browser_env \<Rightarrow> int \<Rightarrow> string" where
  "zoom_script E percent =
     (let v = (if percent = 100 then [CHR 0x27, CHR 0x27] else zoom_factor_string E percent) in
      ''(()=>{const z='' @ v @
      '';const run=()=>{if(document.documentElement)'' @
      ''document.documentElement.style.zoom=z;};run();'' @
      ''document.readyState==='' @ [CHR 0x27] @ ''loading'' @ [CHR 0x27] @ ''?'' @
      ''document.addEventListener('' @ [CHR 0x27] @ ''DOMContentLoaded'' @ [CHR 0x27] @ '',run,{'' @
      ''once:true}):run();})()'')"

definition BlinkSetPageZoom :: "browser_env \<Rightarrow> contents_id option \<Rightarrow> int \<Rightarrow> world \<Rightarrow> world" where
  "BlinkSetPageZoom E c percent w =
     (case (c, deref w c) of
        (Some i, Some wc) \<Rightarrow>
          if primary_main_frame wc \<noteq> Some True then w
          else emit E (Page (ExecuteJavaScriptInIsolatedWorld i (zoom_script E percent)
                               (kBlinkerZoomWorld E))) w
      | _ \<Rightarrow> w)"

definition BlinkApplyPageZoom :: "browser_env \<Rightarrow> contents_id option \<Rightarrow> gurl \<Rightarrow> world \<Rightarrow> world" where
  "BlinkApplyPageZoom E c url w =
     (if \<not> url_http_or_https url then w
      else if (case deref w c of None \<Rightarrow> False | Some wc \<Rightarrow> browser_context wc = Some True) then w
      else BlinkSetPageZoom E c (ReadHostZoom E (prefs w) (url_host url)) w)"

definition cosmetic_script :: "browser_env \<Rightarrow> string \<Rightarrow> string" where
  "cosmetic_script E css =
     ''(()=>{const run=()=>{const s=document.createElement('' @ [CHR 0x27] @ ''style'' @ [CHR 0x27] @
     '');'' @ ''s.dataset.blinkerCosmetic='' @ [CHR 0x27] @ ''1'' @ [CHR 0x27] @ '';s.textContent='' @
     EscapeJSONString E css @
     '';(document.head||document.documentElement).appendChild(s);};run();'' @
     ''document.readyState==='' @ [CHR 0x27] @ ''loading'' @ [CHR 0x27] @ ''?'' @
     ''document.addEventListener('' @ [CHR 0x27] @ ''DOMContentLoaded'' @ [CHR 0x27] @
     '',run,{once:true}):void 0;})()''"

definition BlinkInjectCosmeticFilters ::
  "browser_env \<Rightarrow> content_filter \<Rightarrow> contents_id option \<Rightarrow> gurl \<Rightarrow> world \<Rightarrow> world" where
  "BlinkInjectCosmeticFilters E F c url w =
     (case (c, deref w c) of
        (Some i, Some wc) \<Rightarrow>
          if \<not> url_http_or_https url then w
          else
            (let css = CosmeticCSSFor (api E) F (url_host url) in
             if css = [] then w
             else if primary_main_frame wc \<noteq> Some True then w
             else emit E (Page (ExecuteJavaScriptInIsolatedWorld i (cosmetic_script E css)
                                  (kBlinkerCosmeticWorld E))) w)
      | _ \<Rightarrow> w)"

subsection \<open>Desktop-site mode\<close>

definition site_mode_active :: "web_contents \<Rightarrow> bool" where
  "site_mode_active wc \<longleftrightarrow> ua_string_override (GetUserAgentOverride wc) \<noteq> []"

definition site_mode_override :: "browser_env \<Rightarrow> bool \<Rightarrow> UserAgentOverride" where
  "site_mode_override E desktop =
     (if desktop
      then \<lparr>ua_string_override = kBlinkDesktopUserAgent,
            ua_metadata_override = Some (GetShellUserAgentMetadataForSiteMode
              (CONTENT_SHELL_VERSION E) (CONTENT_SHELL_MAJOR_VERSION E) True)\<rparr>
      else no_override)"

definition BlinkApplySiteMode :: "browser_env \<Rightarrow> contents_id option \<Rightarrow> gurl \<Rightarrow> world \<Rightarrow> world" where
  "BlinkApplySiteMode E c url w =
     (case (c, deref w c) of
        (Some i, Some wc) \<Rightarrow>
          if \<not> url_http_or_https url \<or> url_host url = [] then w
          else
            (let stored = ReadHostFlag E (prefs w) ''BlinkDesktopMode_'' (url_host url);
                 active = site_mode_active wc in
             if stored = kUnset then
               (let w = (if active then WriteHostFlag E ''BlinkDesktopMode_'' (url_host url) True w else w)
                in w\<lparr>force_desktop_site := if active then 1 else 0\<rparr>)
             else
               (let desktop = (stored = kTrue);
                    w = w\<lparr>force_desktop_site := if desktop then 1 else 0\<rparr> in
                if desktop = active then w
                else (seq [emit E (Page (SetUserAgentOverride i (site_mode_override E desktop) True)),
                      emit E (Page (NotifyPreferencesChanged i)),
                      diag (if desktop then ''SITE_MODE: per-site desktop restored''
                            else ''SITE_MODE: per-site mobile restored'') []]) w))
      | _ \<Rightarrow> w)"

definition BlinkClearSiteData :: "browser_env \<Rightarrow> contents_id option \<Rightarrow> gurl \<Rightarrow> world \<Rightarrow> world" where
  "BlinkClearSiteData E c url w =
     (case (c, deref w c) of
        (Some i, Some wc) \<Rightarrow>
          if \<not> url_http_or_https url then w
          else if storage_partition wc = None then w
          else (seq [emit E (Page (ClearData i url)),
                diag ''SITE_DATA: cleared data for current site'' []]) w
      | _ \<Rightarrow> w)"

subsection \<open>What the site mode guarantees\<close>

text \<open>
  What the code relies on in the content library: setting an override makes it the one in
  force, and announcing changed preferences does not change it.
\<close>

definition ua_engine_ok :: "browser_env \<Rightarrow> bool" where
  "ua_engine_ok E \<longleftrightarrow>
     (\<forall>c ov b h. h c \<noteq> None \<longrightarrow>
        map_option GetUserAgentOverride (react E (Page (SetUserAgentOverride c ov b)) h c) = Some ov) \<and>
     (\<forall>c c' h. map_option GetUserAgentOverride (react E (Page (NotifyPreferencesChanged c)) h c') =
                map_option GetUserAgentOverride (h c'))"

text \<open>The mode a page should be in: the stored choice, or the current mode when there is none.\<close>

definition wanted_mode :: "browser_env \<Rightarrow> (string \<rightharpoonup> cf_value) \<Rightarrow> string \<Rightarrow> bool \<Rightarrow> bool" where
  "wanted_mode E ps host active =
     (case ReadHostFlag E ps ''BlinkDesktopMode_'' host of
        kUnset \<Rightarrow> active | kTrue \<Rightarrow> True | kFalse \<Rightarrow> False)"

definition tab_mode :: "world \<Rightarrow> contents_id \<Rightarrow> bool option" where
  "tab_mode w c = map_option site_mode_active (contents w c)"

lemma kBlinkDesktopUserAgent_not_Nil [simp]: "kBlinkDesktopUserAgent \<noteq> []"
  by (simp add: kBlinkDesktopUserAgent_def)

lemma site_mode_override_active [simp]:
  "ua_string_override (site_mode_override E d) \<noteq> [] \<longleftrightarrow> d"
  by (simp add: site_mode_override_def no_override_def)

lemma site_mode_of_override:
  "map_option GetUserAgentOverride x = Some ov \<Longrightarrow>
     map_option site_mode_active x = Some (ua_string_override ov \<noteq> [])"
  by (auto simp: site_mode_active_def)

lemma switch_mode:
  assumes "ua_engine_ok E" "h c \<noteq> None"
  shows "map_option site_mode_active
           (react E (Page (NotifyPreferencesChanged c))
             (react E (Page (SetUserAgentOverride c (site_mode_override E d) b)) h) c) = Some d"
proof -
  have "map_option GetUserAgentOverride
          (react E (Page (NotifyPreferencesChanged c))
            (react E (Page (SetUserAgentOverride c (site_mode_override E d) b)) h) c) =
        Some (site_mode_override E d)"
    using assms by (simp add: ua_engine_ok_def)
  then show ?thesis by (simp add: site_mode_of_override)
qed

lemma ReadHostFlag_write:
  "HostPreferenceKey E p h \<noteq> None \<Longrightarrow>
     ReadHostFlag E (prefs (WriteHostFlag E p h b w)) p h = (if b then kTrue else kFalse)"
  by (auto simp: ReadHostFlag_def WriteHostFlag_def)

lemma WriteHostFlag_selectors [simp]:
  "contents (WriteHostFlag E p h b w) = contents w" "trace (WriteHostFlag E p h b w) = trace w"
  by (auto simp: WriteHostFlag_def split: option.splits)

text \<open>One application, on a page it applies to.\<close>

lemma BlinkApplySiteMode_mode:
  assumes E: "ua_engine_ok E" and u: "url_http_or_https url" "url_host url \<noteq> []"
    and c: "tab_mode w c = Some active"
  defines "w' \<equiv> BlinkApplySiteMode E (Some c) url w"
  shows "tab_mode w' c = Some (wanted_mode E (prefs w) (url_host url) active)"
    and "force_desktop_site w' = (if wanted_mode E (prefs w) (url_host url) active then 1 else 0)"
proof -
  obtain wc where wc: "contents w c = Some wc" "site_mode_active wc = active"
    using c by (auto simp: tab_mode_def)
  show "tab_mode w' c = Some (wanted_mode E (prefs w) (url_host url) active)"
    using wc u switch_mode [OF E, of "contents w" c]
    by (auto simp: w'_def BlinkApplySiteMode_def Let_def tab_mode_def wanted_mode_def
        split: HostFlag.splits)
  show "force_desktop_site w' = (if wanted_mode E (prefs w) (url_host url) active then 1 else 0)"
    using wc u
    by (auto simp: w'_def BlinkApplySiteMode_def Let_def wanted_mode_def split: HostFlag.splits)
qed

lemma BlinkApplySiteMode_stored:
  assumes "HostPreferenceKey E ''BlinkDesktopMode_'' (url_host url) \<noteq> None"
    and u: "url_http_or_https url" "url_host url \<noteq> []" and c: "tab_mode w c = Some active"
  shows "wanted_mode E (prefs (BlinkApplySiteMode E (Some c) url w)) (url_host url) b =
     (if ReadHostFlag E (prefs w) ''BlinkDesktopMode_'' (url_host url) = kUnset \<and> \<not> active
      then b else wanted_mode E (prefs w) (url_host url) active)"
proof -
  obtain wc where wc: "contents w c = Some wc" "site_mode_active wc = active"
    using c by (auto simp: tab_mode_def)
  show ?thesis
    using wc u ReadHostFlag_write [OF assms(1), of True w]
    by (auto simp: BlinkApplySiteMode_def Let_def wanted_mode_def split: HostFlag.splits)
qed

lemma BlinkApplySiteMode_settled:
  assumes "url_http_or_https url" "url_host url \<noteq> []" "tab_mode w c = Some active"
    and "wanted_mode E (prefs w) (url_host url) active = active"
  shows "trace (BlinkApplySiteMode E (Some c) url w) = trace w"
    "contents (BlinkApplySiteMode E (Some c) url w) = contents w"
proof -
  obtain wc where wc: "contents w c = Some wc" "site_mode_active wc = active"
    using assms(3) by (auto simp: tab_mode_def)
  then show "trace (BlinkApplySiteMode E (Some c) url w) = trace w"
    "contents (BlinkApplySiteMode E (Some c) url w) = contents w"
    using assms by (auto simp: BlinkApplySiteMode_def Let_def wanted_mode_def split: HostFlag.splits)
qed

text \<open>
  applying the site mode to a committed page puts the tab into the mode stored for the
  host, or leaves it where it was when nothing is stored; the viewport flag follows; and
  applying it again, as the reload it may cause does, makes no further call, so the
  override never restarts a navigation twice.
\<close>

lemma site_mode_converges:
  assumes "ua_engine_ok E" and "HostPreferenceKey E ''BlinkDesktopMode_'' (url_host url) \<noteq> None"
    and "url_http_or_https url" and "url_host url \<noteq> []" and "tab_mode w c = Some active"
  defines "w' \<equiv> BlinkApplySiteMode E (Some c) url w"
  shows "tab_mode w' c = Some (wanted_mode E (prefs w) (url_host url) active) \<and>
    force_desktop_site w' = (if wanted_mode E (prefs w) (url_host url) active then 1 else 0) \<and>
    trace (BlinkApplySiteMode E (Some c) url w') = trace w' \<and>
    contents (BlinkApplySiteMode E (Some c) url w') = contents w'"
proof -
  note mode = BlinkApplySiteMode_mode [OF assms(1,3-5), folded w'_def]
  have "wanted_mode E (prefs w') (url_host url) (wanted_mode E (prefs w) (url_host url) active) =
        wanted_mode E (prefs w) (url_host url) active"
    unfolding w'_def BlinkApplySiteMode_stored [OF assms(2-5)]
    by (auto simp: wanted_mode_def split: HostFlag.splits)
  with BlinkApplySiteMode_settled [OF assms(3,4) mode(1)] mode show ?thesis by blast
qed

text \<open>
  a desktop choice survives a redirect.  When a tab in desktop mode commits a host the
  user never toggled, the mode is kept and recorded for that host, and a later direct visit
  in any tab, whatever mode it is in, comes up in desktop mode.
\<close>

lemma desktop_choice_survives_redirect:
  assumes "ua_engine_ok E" and "HostPreferenceKey E ''BlinkDesktopMode_'' (url_host url) \<noteq> None"
    and "url_http_or_https url" and "url_host url \<noteq> []" and "tab_mode w c = Some True"
    and "ReadHostFlag E (prefs w) ''BlinkDesktopMode_'' (url_host url) = kUnset"
    and "prefs v = prefs (BlinkApplySiteMode E (Some c) url w)" and "tab_mode v d = Some b"
  shows "tab_mode (BlinkApplySiteMode E (Some c) url w) c = Some True \<and>
    trace (BlinkApplySiteMode E (Some c) url w) = trace w \<and>
    tab_mode (BlinkApplySiteMode E (Some d) url v) d = Some True"
proof -
  have m: "wanted_mode E (prefs w) (url_host url) True"
    using assms(6) by (simp add: wanted_mode_def)
  have "wanted_mode E (prefs v) (url_host url) b"
    unfolding assms(7) using BlinkApplySiteMode_stored [OF assms(2-5), of b] m by simp
  then show ?thesis
    using m BlinkApplySiteMode_mode(1) [OF assms(1,3,4,5)] BlinkApplySiteMode_mode(1) [OF assms(1,3,4,8)]
      BlinkApplySiteMode_settled(1) [OF assms(3,4,5)]
    by simp
qed

text \<open>
  a private tab never applies stored zoom, but it does record hosts: a private tab in
  desktop mode that commits a host with no stored choice writes that host's name into the
  user defaults.
\<close>

lemma private_tab_zoom_and_site_mode:
  assumes "contents w c = Some wc" and "browser_context wc = Some True"
  shows "BlinkApplyPageZoom E (Some c) url w = w \<and>
    (url_http_or_https url \<longrightarrow> url_host url \<noteq> [] \<longrightarrow> site_mode_active wc \<longrightarrow>
     HostPreferenceKey E ''BlinkDesktopMode_'' (url_host url) = Some key \<longrightarrow> prefs w key = None \<longrightarrow>
       prefs (BlinkApplySiteMode E (Some c) url w) = (prefs w)(key \<mapsto> CFBoolean True))"
  using assms
  by (auto simp: BlinkApplyPageZoom_def BlinkApplySiteMode_def Let_def ReadHostFlag_def WriteHostFlag_def)

text \<open>
  nothing is run in a page but the two fixed scripts, each only in a live main frame of
  an http(s) page and in its own isolated world, and the filter's stylesheet enters its
  script only through the JSON escaper; an empty stylesheet injects nothing.
\<close>

lemma injected_scripts_exact:
  "trace (BlinkInjectCosmeticFilters E F c url w) = trace w @
     (case (c, deref w c) of
        (Some i, Some wc) \<Rightarrow>
          if url_http_or_https url \<and> CosmeticCSSFor (api E) F (url_host url) \<noteq> [] \<and>
             primary_main_frame wc = Some True
          then [Page (ExecuteJavaScriptInIsolatedWorld i
                  (cosmetic_script E (CosmeticCSSFor (api E) F (url_host url)))
                  (ISOLATED_WORLD_ID_CONTENT_END E + 3))] else []
      | _ \<Rightarrow> []) \<and>
   trace (BlinkApplyPageZoom E c url w) = trace w @
     (case (c, deref w c) of
        (Some i, Some wc) \<Rightarrow>
          if url_http_or_https url \<and> browser_context wc \<noteq> Some True \<and> primary_main_frame wc = Some True
          then [Page (ExecuteJavaScriptInIsolatedWorld i
                  (zoom_script E (ReadHostZoom E (prefs w) (url_host url)))
                  (ISOLATED_WORLD_ID_CONTENT_END E + 2))] else []
      | _ \<Rightarrow> [])"
  by (auto simp: BlinkInjectCosmeticFilters_def BlinkApplyPageZoom_def BlinkSetPageZoom_def Let_def
      kBlinkerZoomWorld_def kBlinkerCosmeticWorld_def split: option.splits)

subsection \<open>Instances\<close>

lemma sample_engine_ok: "ua_engine_ok (sample_env f p)"
  by (auto simp: ua_engine_ok_def sample_env_def sample_react_def split: option.splits)

definition desktop_tab :: web_contents where
  "desktop_tab = (sample_tab (sample_url ''m.youtube.com'' ''/''))
     \<lparr>GetUserAgentOverride := \<lparr>ua_string_override = kBlinkDesktopUserAgent, ua_metadata_override = None\<rparr>\<rparr>"

lemma sample_key [simp]: "HostPreferenceKey (sample_env f p) x h = Some (x @ h)"
  by (simp add: HostPreferenceKey_def sample_env_def)

lemma sample_tab_modes:
  "tab_mode (sample_world (sample_tab u)) 0 = Some False"
  "tab_mode (sample_world desktop_tab) 0 = Some True"
  by (simp_all add: tab_mode_def site_mode_active_def desktop_tab_def sample_defs)

lemma sample_youtube [simp]:
  "url_http_or_https (sample_url h p)" "url_host (sample_url h p) = h"
  by (simp_all add: sample_url_def)

lemma site_mode_converges_witness:
  "tab_mode (BlinkApplySiteMode (sample_env 0 False) (Some 0) (sample_url ''www.youtube.com'' ''/'')
     ((sample_world (sample_tab (sample_url ''m.youtube.com'' ''/'')))
        \<lparr>prefs := [''BlinkDesktopMode_www.youtube.com'' \<mapsto> CFBoolean True]\<rparr>)) 0 = Some True"
  using site_mode_converges [OF sample_engine_ok, of 0 False "sample_url ''www.youtube.com'' ''/''"
      "(sample_world (sample_tab (sample_url ''m.youtube.com'' ''/'')))
        \<lparr>prefs := [''BlinkDesktopMode_www.youtube.com'' \<mapsto> CFBoolean True]\<rparr>" 0 False]
    sample_tab_modes(1) [of "sample_url ''m.youtube.com'' ''/''"]
  by (simp add: wanted_mode_def ReadHostFlag_def tab_mode_def)

lemma desktop_choice_survives_redirect_witness:
  "tab_mode (BlinkApplySiteMode (sample_env 0 False) (Some 0) (sample_url ''www.youtube.com'' ''/'')
     ((sample_world (sample_tab empty_gurl))
        \<lparr>prefs := prefs (BlinkApplySiteMode (sample_env 0 False) (Some 0)
           (sample_url ''www.youtube.com'' ''/'') (sample_world desktop_tab))\<rparr>)) 0 = Some True"
  using desktop_choice_survives_redirect [OF sample_engine_ok, of 0 False
      "sample_url ''www.youtube.com'' ''/''" "sample_world desktop_tab" 0
      "(sample_world (sample_tab empty_gurl))
        \<lparr>prefs := prefs (BlinkApplySiteMode (sample_env 0 False) (Some 0)
           (sample_url ''www.youtube.com'' ''/'') (sample_world desktop_tab))\<rparr>" 0 False]
    sample_tab_modes
  by (simp add: ReadHostFlag_def tab_mode_def sample_world_def initial_world_def)

lemma private_tab_zoom_and_site_mode_witness:
  "prefs (BlinkApplySiteMode (sample_env 0 True) (Some 0) (sample_url ''example.com'' ''/'')
     (sample_world (desktop_tab\<lparr>browser_context := Some True\<rparr>))) ''BlinkDesktopMode_example.com'' =
   Some (CFBoolean True)"
  using private_tab_zoom_and_site_mode [of
      "sample_world (desktop_tab\<lparr>browser_context := Some True\<rparr>)" 0
      "desktop_tab\<lparr>browser_context := Some True\<rparr>" "sample_env 0 True"
      "sample_url ''example.com'' ''/''" "''BlinkDesktopMode_example.com''"]
  by (simp add: sample_world_def initial_world_def desktop_tab_def site_mode_active_def)

end
