(* ===== verification/Ring_Buffer.thy ===== *)
theory Ring_Buffer
  imports Blinker_Prelude
begin

text \<open>
  The fixed-size history the shell keeps in two places, an array with a write position: its
  contract as a locale.  The specification of such a ring is the list of its entries in the
  order they were written (\<open>view\<close>), where writing drops the oldest entry.
\<close>

locale ring_buffer =
  fixes N :: nat and push :: "'a \<Rightarrow> 's \<Rightarrow> 's" and slots :: "'s \<Rightarrow> 'a list" and head :: "'s \<Rightarrow> nat"
  assumes N_pos: "0 < N"
    and slots_push: "slots (push x s) = (slots s)[head s := x]"
    and head_push: "head (push x s) = (head s + 1) mod N"
begin

definition ring_ok :: "'s \<Rightarrow> bool" where
  "ring_ok s \<longleftrightarrow> length (slots s) = N \<and> head s < N"

definition view :: "'s \<Rightarrow> 'a list" where
  "view s = drop (head s) (slots s) @ take (head s) (slots s)"

lemma ring_ok_push: "ring_ok s \<Longrightarrow> ring_ok (push x s)"
  using N_pos by (simp add: ring_ok_def slots_push head_push)

lemma length_view: "ring_ok s \<Longrightarrow> length (view s) = N"
  by (auto simp: ring_ok_def view_def)

text \<open>The refinement step: writing through the position is appending and forgetting the oldest.\<close>

lemma view_push:
  assumes "ring_ok s"
  shows "view (push x s) = tl (view s) @ [x]"
proof (cases "head s + 1 = N")
  case True
  then have len: "length (slots s) = Suc (head s)"
    using assms by (simp add: ring_ok_def)
  have "view (push x s) = (slots s)[head s := x]"
    using True by (simp add: view_def slots_push head_push)
  also have "\<dots> = take (head s) (slots s) @ [x]"
    using len by (simp add: upd_conv_take_nth_drop)
  also have "take (head s) (slots s) = tl (view s)"
    using len by (simp add: view_def Cons_nth_drop_Suc [symmetric])
  finally show ?thesis .
next
  case False
  then have len: "Suc (head s) < length (slots s)"
    using assms by (auto simp: ring_ok_def)
  then have "view (push x s) = drop (Suc (head s)) (slots s) @ (take (head s) (slots s) @ [x])"
    using assms by (simp add: view_def slots_push head_push ring_ok_def take_Suc_conv_app_nth nth_list_update)
  moreover have "tl (view s) = drop (Suc (head s)) (slots s) @ take (head s) (slots s)"
    using len by (simp add: view_def Cons_nth_drop_Suc [symmetric])
  ultimately show ?thesis by simp
qed

lemma view_fold:
  "ring_ok s \<Longrightarrow> ring_ok (fold push xs s) \<and> view (fold push xs s) = drop (length xs) (view s @ xs)"
proof (induction xs arbitrary: s)
  case (Cons x xs)
  have len: "view s \<noteq> []" using length_view [OF Cons.prems] N_pos by auto
  with Cons.IH [OF ring_ok_push [OF Cons.prems, of x]] view_push [OF Cons.prems, of x]
  show ?case by (cases "view s") simp_all
qed simp

text \<open>Counting entries does not depend on where the ring starts.\<close>

lemma count_slots: "length (filter P (slots s)) = length (filter P (view s))"
  by (metis view_def add.commute append_take_drop_id filter_append length_append)

text \<open>
  From a ring filled with entries that do not satisfy \<open>P\<close>, the count is over the last \<open>N\<close>
  writes.
\<close>

lemma count_last:
  assumes "ring_ok s" and "\<forall>y \<in> set (view s). \<not> P y"
  shows "length (filter P (slots (fold push xs s))) = length (filter P (drop (length xs - N) xs))"
proof -
  have "filter P (view (fold push xs s)) = filter P (drop (length xs) (view s @ xs))"
    using view_fold [OF assms(1)] by simp
  also have "\<dots> = filter P (drop (length xs - N) xs)"
    using assms(2) length_view [OF assms(1)]
    by (auto simp: filter_empty_conv dest: in_set_dropD)
  finally show ?thesis by (simp add: count_slots)
qed

end

end
