(* ===== verification/Shell_Guards.thy ===== *)
theory Shell_Guards
  imports Browser_World Site_Policy Ring_Buffer
begin

text \<open>
  The guards of \<^verbatim>\<open>content/shell/browser/shell.cc\<close>: URL classification, memory statistics,
  the purges and refusals that keep a single-process iOS browser under the kernel's memory
  limit, the load and heartbeat history, and the authentication-flow diagnostics.  Every
  definition is one function of the anonymous namespace of that file.
\<close>

subsection \<open>Memory statistics\<close>

record BlinkMemoryStats =
  resident_size :: u64
  phys_footprint :: u64
  virtual_size :: u64
  basic_kr :: int
  vm_kr :: int

definition stats_of :: "sys_sample \<Rightarrow> BlinkMemoryStats" where
  "stats_of s =
     \<lparr>resident_size = (if task_basic_kr s = 0 then task_resident_size s else 0),
      phys_footprint = (if task_vm_kr s = 0 then task_footprint s else 0),
      virtual_size = (if task_basic_kr s = 0 then task_virtual_size s else 0),
      basic_kr = task_basic_kr s, vm_kr = task_vm_kr s\<rparr>"

text \<open>A memory query moves on to the next system sample and is answered from it.\<close>

definition GetBlinkMemoryStats :: "browser_env \<Rightarrow> world \<Rightarrow> BlinkMemoryStats \<times> world" where
  "GetBlinkMemoryStats E w =
     (let w' = w\<lparr>queries := Suc (queries w)\<rparr> in (stats_of (now_sample E w'), w'))"

text \<open>
  The thresholds, with the memory policy's cache.  A repeated call at one moment answers the
  same and changes nothing more (\<open>threshold_stable\<close>), so where the code calls one of them
  again the model reuses the answer.
\<close>

definition threshold ::
  "(kernel_env \<Rightarrow> memory_cache \<Rightarrow> u64 \<times> memory_cache) \<Rightarrow> browser_env \<Rightarrow> world \<Rightarrow> u64 \<times> world" where
  "threshold f E w =
     (let (v, m) = f (kernel (now_sample E w)) (mem_cache w) in (v, w\<lparr>mem_cache := m\<rparr>))"

definition CountLivePrimaryFrames :: "world \<Rightarrow> nat" where
  "CountLivePrimaryFrames w =
     length (filter (\<lambda>s. case Option.bind (shells w s) shell_web_contents of
                           None \<Rightarrow> False
                         | Some c \<Rightarrow> map_option primary_main_frame (contents w c) = Some (Some True))
               (windows w))"

definition CountRendererProcesses :: "browser_env \<Rightarrow> world \<Rightarrow> nat" where
  "CountRendererProcesses E w = renderer_process_count (now_sample E w)"

subsection \<open>URL classification\<close>

definition IsRedditURL :: "gurl \<Rightarrow> bool" where "IsRedditURL url = DomainIs url ''reddit.com''"
definition IsYouTubeURL :: "gurl \<Rightarrow> bool" where "IsYouTubeURL url = DomainIs url ''youtube.com''"
definition IsGitHubURL :: "gurl \<Rightarrow> bool" where "IsGitHubURL url = DomainIs url ''github.com''"
definition IsGoogleAuthURL :: "gurl \<Rightarrow> bool" where "IsGoogleAuthURL url = DomainIs url ''google.com''"

text \<open>The WebContents of each window in order, null pointers included.\<close>

definition window_contents :: "world \<Rightarrow> web_contents option list" where
  "window_contents w = map (\<lambda>s. deref w (Option.bind (shells w s) shell_web_contents)) (windows w)"

definition current_or_committed :: "web_contents \<Rightarrow> gurl" where
  "current_or_committed wc =
     (if url_is_valid (GetVisibleURL wc) then GetVisibleURL wc else GetLastCommittedURL wc)"

fun google_auth_window :: "web_contents option list \<Rightarrow> bool" where
  "google_auth_window [] = False"
| "google_auth_window (None # cs) = google_auth_window cs"
| "google_auth_window (Some wc # cs) =
     (if IsGoogleAuthURL (current_or_committed wc) then True else google_auth_window cs)"

definition IsGoogleAuthPopupRequest :: "world \<Rightarrow> gurl \<Rightarrow> bool" where
  "IsGoogleAuthPopupRequest w requested_url =
     (if \<not> url_about_blank requested_url then False else google_auth_window (window_contents w))"

definition IsClaudeGoogleAuthPopup :: "web_contents option \<Rightarrow> gurl \<Rightarrow> bool" where
  "IsClaudeGoogleAuthPopup source target_url =
     (case source of
        None \<Rightarrow> False
      | Some wc \<Rightarrow>
          (let opener = (if url_is_valid (GetLastCommittedURL wc) then GetLastCommittedURL wc
                         else GetVisibleURL wc);
               opener_ok = (DomainIs opener ''claude.ai'' \<or> url_host opener = ''accounts.google.com'') in
           if \<not> opener_ok then False
           else url_about_blank target_url \<or> IsGoogleAuthURL target_url \<or>
                url_host target_url = ''accounts.google.com''))"

definition IsHeavySiteURL :: "gurl \<Rightarrow> bool" where
  "IsHeavySiteURL url \<longleftrightarrow>
     HasTrait (url_host url) kHeavy \<or> (DomainIs url ''google.com'' \<and> url_path url = ''/search'')"

definition SameHeavySite :: "gurl \<Rightarrow> gurl \<Rightarrow> bool" where
  "SameHeavySite a b =
     (if \<not> IsHeavySiteURL a \<or> \<not> IsHeavySiteURL b then False
      else url_host a = url_host b \<or> (IsRedditURL a \<and> IsRedditURL b) \<or>
           (IsYouTubeURL a \<and> IsYouTubeURL b))"

definition IsSameTopLevelSite :: "gurl \<Rightarrow> gurl \<Rightarrow> bool" where
  "IsSameTopLevelSite a b =
     (if \<not> url_is_valid a \<or> \<not> url_is_valid b then False else url_host a = url_host b)"

definition IsMonitoredHeavyHost :: "gurl \<Rightarrow> bool" where
  "IsMonitoredHeavyHost url \<longleftrightarrow> url_is_valid url \<and> HasTrait (url_host url) kMonitorMemory"

definition IsAISiteURL :: "gurl \<Rightarrow> bool" where
  "IsAISiteURL url \<longleftrightarrow> url_is_valid url \<and> HasTrait (url_host url) kAI"

definition kReserved :: "string list" where
  "kReserved = [''login'', ''logout'', ''join'', ''settings'', ''notifications'', ''search'',
     ''marketplace'', ''sponsors'', ''about'', ''features'', ''topics'', ''explore'', ''new'']"

definition IsGitHubRepoPage :: "browser_env \<Rightarrow> gurl \<Rightarrow> bool" where
  "IsGitHubRepoPage E url =
     (if \<not> IsGitHubURL url \<or> url_host url \<noteq> ''github.com'' then False
      else
        (let segs = SplitStringPiece (api E) (url_path url) ''/'' in
         if length segs < 2 then False else hd segs \<notin> set kReserved))"

subsection \<open>Heartbeat storage\<close>

definition StoreHeavyPageHeartbeat ::
  "browser_env \<Rightarrow> gurl option \<Rightarrow> BlinkMemoryStats \<Rightarrow> world \<Rightarrow> world" where
  "StoreHeavyPageHeartbeat E url stats =
     (case url of
        None \<Rightarrow> id
      | Some u \<Rightarrow>
          if \<not> url_is_valid u \<or> \<not> IsHeavySiteURL u then id
          else seq [(case CFStringCreateWithCString E (nat_str (unat (phys_footprint stats))) of
                  None \<Rightarrow> id
                | Some v \<Rightarrow> set_pref ''BlinkLastHeartbeatFootprint'' (CFString v)),
               reading (\<lambda>w. wall_time (now_sample E w)) (\<lambda>t.
                 diag ''HEARTBEAT: timestamp=%ld footprint=%llu url=%s''
                   [LInt t, u64_arg (phys_footprint stats), url_arg E u])])"

definition BlinkLogMemoryPressurePoint ::
  "browser_env \<Rightarrow> string \<Rightarrow> gurl option \<Rightarrow> world \<Rightarrow> world" where
  "BlinkLogMemoryPressurePoint E label url =
     bindw (GetBlinkMemoryStats E) (\<lambda>stats.
     seq [reading (\<lambda>w. (CountRendererProcesses E w, length (windows w), CountLivePrimaryFrames w))
       (\<lambda>(renderers, contents, frames).
        diag (''MEMSTAT: %s rss=%llu footprint=%llu vsize=%llu basic_kr=%d '' @
              ''vm_kr=%d renderers=%zu web_contents=%zu active_frames=%zu '' @
              ''cache_size=-1 url=%s'')
          [LText label, u64_arg (resident_size stats), u64_arg (phys_footprint stats),
           u64_arg (virtual_size stats), LInt (basic_kr stats), LInt (vm_kr stats),
           LNum renderers, LNum contents, LNum frames,
           (case url of None \<Rightarrow> LText ''(none)'' | Some u \<Rightarrow> url_arg E u)]),
     StoreHeavyPageHeartbeat E url stats,
     (bindw (threshold CriticalFootprint E) (\<lambda>critical.
       only_if (critical \<le> phys_footprint stats)
         (seq [diag ''GLOBAL_MEM_GUARD: footprint over critical threshold -> purge'' [],
          emit E (NotifyMemoryPressure MEMORY_PRESSURE_LEVEL_CRITICAL)])))])"

text \<open>The loop \<^verbatim>\<open>while (CFArrayGetCount(arr) > 5) CFArrayRemoveValueAtIndex(arr, 0)\<close>.\<close>

fun trim_heartbeats :: "'a list \<Rightarrow> 'a list" where
  "trim_heartbeats [] = []"
| "trim_heartbeats (x # xs) = (if length (x # xs) > 5 then trim_heartbeats xs else x # xs)"

definition StoreRecentHeartbeat :: "browser_env \<Rightarrow> string \<Rightarrow> world \<Rightarrow> world" where
  "StoreRecentHeartbeat E entry w =
     (let arr = (case prefs w ''BlinkRecentHeartbeats'' of Some (CFArray xs) \<Rightarrow> xs | _ \<Rightarrow> []);
          arr = (case CFStringCreateWithCString E entry of None \<Rightarrow> arr | Some v \<Rightarrow> arr @ [CFString v])
      in set_pref ''BlinkRecentHeartbeats'' (CFArray (trim_heartbeats arr)) w)"

subsection \<open>Site switches and the allocation guard\<close>

definition RunSiteSwitchCleanupIfNeeded ::
  "browser_env \<Rightarrow> gurl \<Rightarrow> gurl \<Rightarrow> bool \<Rightarrow> world \<Rightarrow> world" where
  "RunSiteSwitchCleanupIfNeeded E url current_url top_level_starting_navigation =
     (if \<not> top_level_starting_navigation \<or> \<not> url_http_or_https url \<or>
         IsSameTopLevelSite url current_url then id
      else seq [diag ''SITE_SWITCH_CLEANUP: running before top-level site change'' [],
           emit E (NotifyMemoryPressure MEMORY_PRESSURE_LEVEL_CRITICAL),
           diag ''SITE_SWITCH_CLEANUP: memory pressure purge sent'' [],
           diag ''SITE_SWITCH_CLEANUP: transient caches cleared'' []])"

definition HasPersistentDuplicateViewOrCompositor ::
  "browser_env \<Rightarrow> int \<Rightarrow> int \<Rightarrow> world \<Rightarrow> bool \<times> world" where
  "HasPersistentDuplicateViewOrCompositor E active_rwhv active_compositors w =
     (let expected = int (length (windows w));
          duplicate = (active_rwhv > expected \<or> active_compositors > expected);
          now = Now E w;
          first_seen = g_duplicate_view_first_seen (globals w) in
      if \<not> duplicate then (False, assign (g_duplicate_view_first_seen_update (\<lambda>_. 0)) w)
      else if is_null first_seen then
        (False, (seq [assign (g_duplicate_view_first_seen_update (\<lambda>_. now)),
                 diag ''IOS_VIEW_LIFECYCLE: transient duplicate tolerated'' []]) w)
      else if now - first_seen < Seconds 2 then
        (False, diag ''IOS_VIEW_LIFECYCLE: transient duplicate tolerated'' [] w)
      else (True, diag ''IOS_VIEW_LIFECYCLE: persistent duplicate leak suspected'' [] w))"

definition front_contents :: "world \<Rightarrow> contents_id option" where
  "front_contents w =
     (case windows w of [] \<Rightarrow> None | s # _ \<Rightarrow> Option.bind (shells w s) shell_web_contents)"

definition growth :: "u64 \<Rightarrow> u64 \<Rightarrow> u64" where
  "growth cur prev = (if cur > prev then cur - prev else 0)"

definition stop_front_if_loading :: "browser_env \<Rightarrow> world \<Rightarrow> world" where
  "stop_front_if_loading E w =
     (case (front_contents w, deref w (front_contents w)) of
        (Some c, Some wc) \<Rightarrow>
          if IsLoading wc then (seq [emit E (Page (Stop c)), ship ''OOM_WATCHDOG: heavy load paused'' []]) w
          else w
      | _ \<Rightarrow> w)"

definition record_watchdog_sample :: "time_ticks \<Rightarrow> BlinkMemoryStats \<Rightarrow> world \<Rightarrow> world" where
  "record_watchdog_sample now stats =
     assign (\<lambda>g. g\<lparr>g_last_oom_watchdog_sample := now,
       g_last_oom_watchdog_footprint := phys_footprint stats,
       g_last_oom_watchdog_rss := resident_size stats\<rparr>)"

definition RunOOMWatchdogForHeavyLoad ::
  "browser_env \<Rightarrow> gurl \<Rightarrow> BlinkMemoryStats \<Rightarrow> world \<Rightarrow> world" where
  "RunOOMWatchdogForHeavyLoad E url stats w =
     (if \<not> IsHeavySiteURL url then w
      else
        (let now = Now E w; g = globals w in
         if is_null (g_last_oom_watchdog_sample g) then record_watchdog_sample now stats w
         else
           (let elapsed = now - g_last_oom_watchdog_sample g;
                footprint_growth = growth (phys_footprint stats) (g_last_oom_watchdog_footprint g);
                rss_growth = growth (resident_size stats) (g_last_oom_watchdog_rss g) in
            (seq [only_if (elapsed \<le> Seconds 1 \<and>
                      (footprint_growth > 100 * 1024 * 1024 \<or> rss_growth > 100 * 1024 * 1024))
               (seq [ship ''OOM_WATCHDOG: rapid memory growth'' [],
                emit E (NotifyMemoryPressure MEMORY_PRESSURE_LEVEL_CRITICAL),
                ship ''OOM_WATCHDOG: critical purge sent'' [],
                stop_front_if_loading E]),
             only_if (elapsed \<ge> Milliseconds 250) (record_watchdog_sample now stats)]) w)))"

definition ApplyDirectAllocationDangerGuard ::
  "browser_env \<Rightarrow> gurl \<Rightarrow> bool \<Rightarrow> world \<Rightarrow> bool \<times> world" where
  "ApplyDirectAllocationDangerGuard E url top_level_starting_navigation =
     (if \<not> top_level_starting_navigation \<or> \<not> IsHeavySiteURL url then ret False
      else
        bindw (GetBlinkMemoryStats E) (\<lambda>stats.
        after [assign (g_main_frame_navigation_start_count_update (\<lambda>n. n + 1))]
        (reading (\<lambda>w. now_sample E w) (\<lambda>s.
          let active_rwhv = BlinkActiveRWHVCount s;
              active_compositors = BlinkActiveBrowserCompositorCount s;
              active_layers = BlinkActiveAttachedCALayerCount s in
          bindw (HasPersistentDuplicateViewOrCompositor E active_rwhv active_compositors)
          (\<lambda>persistent_duplicate.
           after [RunOOMWatchdogForHeavyLoad E url stats,
           reading (\<lambda>w. g_main_frame_navigation_start_count (globals w)) (\<lambda>starts.
             ship (''OOM_GUARD: direct allocation risk footprint=%llu rwhv=%d '' @
                   ''compositors=%d attached_layers=%d nav_starts=%d url=%s'')
               [u64_arg (phys_footprint stats), LInt active_rwhv, LInt active_compositors,
                LInt active_layers, LInt starts, url_arg E url]),
           only_if (phys_footprint stats \<ge> 300 * 1024 * 1024)
             (emit E (NotifyMemoryPressure MEMORY_PRESSURE_LEVEL_CRITICAL))]
           (if phys_footprint stats \<ge> 350 * 1024 * 1024 \<and> persistent_duplicate
            then after [ship ''OOM_GUARD: active compositor leak suspected'' [],
                 ship ''OOM_GUARD: blocked navigation before PartitionAlloc risk'' [],
                 emit E (PostTask ShowOOMGuardPage_task)]
                 (ret True)
            else ret False))))))"

subsection \<open>Load history and breadcrumbs\<close>

definition RecordLoadStart :: "browser_env \<Rightarrow> world \<Rightarrow> world" where
  "RecordLoadStart E w =
     assign (\<lambda>g. g\<lparr>g_recent_load_starts := (g_recent_load_starts g)[g_recent_load_start_head g := Now E w],
       g_recent_load_start_head := (g_recent_load_start_head g + 1) mod kRecentLoadStartSlots\<rparr>) w"

definition LoadStartsInLast10s :: "browser_env \<Rightarrow> world \<Rightarrow> nat" where
  "LoadStartsInLast10s E w =
     length (filter (\<lambda>t. \<not> is_null t \<and> Now E w - t \<le> Seconds 10) (g_recent_load_starts (globals w)))"

definition LogCrashBreadcrumb ::
  "browser_env \<Rightarrow> contents_id option \<Rightarrow> string option \<Rightarrow> world \<Rightarrow> world" where
  "LogCrashBreadcrumb E source action =
     seq [(case action of None \<Rightarrow> id | Some a \<Rightarrow> assign (g_last_user_action_update (\<lambda>_. a))),
     reading (\<lambda>w. deref w source) (\<lambda>tab.
       case tab of
         None \<Rightarrow> id
       | Some wc \<Rightarrow>
           bindw (GetBlinkMemoryStats E) (\<lambda>stats.
           reading (\<lambda>w. (g_last_user_action (globals w), LoadStartsInLast10s E w, now_sample E w))
             (\<lambda>(act, loads, s).
              diag (''CRASH_BREADCRUMB: action=%s loading=%d loads10s=%d '' @
                    ''footprint=%llu rss=%llu vsize=%llu rwhv=%d compositors=%d '' @
                    ''layers=%d url=%s committed=%s'')
                [LText act, bool_arg (IsLoading wc), LNum loads, u64_arg (phys_footprint stats),
                 u64_arg (resident_size stats), u64_arg (virtual_size stats),
                 LInt (BlinkActiveRWHVCount s), LInt (BlinkActiveBrowserCompositorCount s),
                 LInt (BlinkActiveAttachedCALayerCount s), url_arg E (GetVisibleURL wc),
                 url_arg E (GetLastCommittedURL wc)])))]"

definition committed_or_visible :: "web_contents \<Rightarrow> gurl" where
  "committed_or_visible wc =
     (if url_is_empty (GetLastCommittedURL wc) then GetVisibleURL wc else GetLastCommittedURL wc)"

text \<open>The 640-byte buffer of the stored entry holds 639 characters.\<close>

definition heartbeat_entry :: "browser_env \<Rightarrow> sys_sample \<Rightarrow> BlinkMemoryStats \<Rightarrow> gurl \<Rightarrow> string" where
  "heartbeat_entry E s stats url =
     take 639 (''ts='' @ int_str (wall_time s) @ '' footprint='' @ nat_str (unat (phys_footprint stats)) @
       '' rss='' @ nat_str (unat (resident_size stats)) @ '' rwhv='' @ int_str (BlinkActiveRWHVCount s) @
       '' comps='' @ int_str (BlinkActiveBrowserCompositorCount s) @ '' url='' @
       LoggableURLSpec (private_session E) url)"

definition ai_site_guard ::
  "browser_env \<Rightarrow> web_contents \<Rightarrow> BlinkMemoryStats \<Rightarrow> world \<Rightarrow> world" where
  "ai_site_guard E wc stats =
     seq [reading (\<lambda>w. g_ai_guard_logged_for_page (globals w)) (\<lambda>logged.
       only_if (\<not> logged)
         (seq [diag ''AI_SITE_GUARD: on AI site, heartbeat monitoring'' [],
          assign (g_ai_guard_logged_for_page_update (\<lambda>_. True))])),
     reading (\<lambda>w. (globals w, Now E w)) (\<lambda>(g, now).
       let prev = g_last_heavy_heartbeat_footprint g;
           growing = (prev \<noteq> 0 \<and> phys_footprint stats > prev + 40 * 1024 * 1024);
           cooled = (is_null (g_last_ai_purge g) \<or> now - g_last_ai_purge g > Seconds 3) in
       seq [only_if (growing \<and> \<not> IsLoading wc)
         (diag ''AI_SITE_GUARD: footprint +40MB since last tick, not loading'' []),
       only_if (cooled \<and> (growing \<or> phys_footprint stats \<ge> 320 * 1024 * 1024))
         (seq [diag ''AI_SITE_GUARD: purge (footprint growth or >=320MB)'' [],
          emit E (NotifyMemoryPressure MEMORY_PRESSURE_LEVEL_CRITICAL),
          assign (g_last_ai_purge_update (\<lambda>_. now))])])]"

definition HeavyHeartbeatTick :: "browser_env \<Rightarrow> world \<Rightarrow> world" where
  "HeavyHeartbeatTick E =
     reading (\<lambda>w. deref w (front_contents w)) (\<lambda>tab.
       case tab of
         None \<Rightarrow> (\<lambda>w. w\<lparr>heartbeat_timer_running := False\<rparr>)
       | Some wc \<Rightarrow>
           (let url = committed_or_visible wc in
            if \<not> IsMonitoredHeavyHost url then (\<lambda>w. w\<lparr>heartbeat_timer_running := False\<rparr>)
            else
              bindw (GetBlinkMemoryStats E) (\<lambda>stats.
              seq [reading (now_sample E) (\<lambda>s.
                seq [diag (''HEARTBEAT_HEAVY: footprint=%llu rss=%llu rwhv=%d '' @ ''compositors=%d url=%s'')
                  [u64_arg (phys_footprint stats), u64_arg (resident_size stats),
                   LInt (BlinkActiveRWHVCount s), LInt (BlinkActiveBrowserCompositorCount s), url_arg E url],
                StoreRecentHeartbeat E (heartbeat_entry E s stats url)]),
              only_if (IsAISiteURL url) (ai_site_guard E wc stats),
              assign (g_last_heavy_heartbeat_footprint_update (\<lambda>_. phys_footprint stats))])))"

definition StartHeavyHeartbeatIfNeeded :: "gurl \<Rightarrow> world \<Rightarrow> world" where
  "StartHeavyHeartbeatIfNeeded url w =
     (if \<not> IsMonitoredHeavyHost url \<or> heartbeat_timer_running w then w
      else (diag ''HEARTBEAT_HEAVY: monitor started'' [] w)\<lparr>heartbeat_timer_running := True\<rparr>)"

subsection \<open>The global memory guard\<close>

definition ApplyGitHubRepoGuard :: "browser_env \<Rightarrow> gurl \<Rightarrow> world \<Rightarrow> world" where
  "ApplyGitHubRepoGuard E url =
     (if \<not> IsGitHubRepoPage E url then id
      else
        bindw (GetBlinkMemoryStats E) (\<lambda>stats.
        seq [diag ''GITHUB_REPO_GUARD: repo page detected'' [],
        diag ''GITHUB_REPO_GUARD: footprint=%llu'' [u64_arg (phys_footprint stats)],
        diag ''GITHUB_REPO_GUARD: pre-repo purge'' [],
        emit E (NotifyMemoryPressure MEMORY_PRESSURE_LEVEL_CRITICAL)]))"

definition purge_only_host :: "string \<Rightarrow> bool" where
  "purge_only_host host \<longleftrightarrow>
     host = ''discord.com'' \<or> sv_ends_with host ''.discord.com'' \<or>
     host = ''homedepot.com'' \<or> sv_ends_with host ''.homedepot.com'' \<or>
     host = ''claude.ai'' \<or> sv_ends_with host ''.claude.ai'' \<or>
     host = ''chatgpt.com'' \<or> sv_ends_with host ''.chatgpt.com'' \<or>
     host = ''gemini.google.com''"

text \<open>
  \<^verbatim>\<open>BlinkDiscardBackgroundTabsExcept\<close> and its two callers, from the iOS platform delegate: every
  window but \<open>keep\<close> is hidden and frozen, and discarded unless it already is or is navigating.
\<close>

definition discard_tab :: "browser_env \<Rightarrow> shell_id option \<Rightarrow> shell_id \<Rightarrow> world \<Rightarrow> world" where
  "discard_tab E keep s w =
     (case (if Some s = keep then None else Option.bind (shells w s) shell_web_contents) of
        None \<Rightarrow> w
      | Some c \<Rightarrow>
          (seq [emit E (Page (WasHidden c)), emit E (Page (SetPageFrozen c True)),
           reading (\<lambda>w. contents w c) (\<lambda>tab.
             only_if (case tab of None \<Rightarrow> False
                      | Some wc \<Rightarrow> \<not> WasDiscarded wc \<and> \<not> HasUncommittedNavigation wc)
               (seq [emit E (Page (Discard c)), diag ''TAB_LIFECYCLE: discarded inactive renderer'' []]))]) w)"

definition BlinkDiscardBackgroundTabsExcept :: "browser_env \<Rightarrow> shell_id option \<Rightarrow> world \<Rightarrow> world" where
  "BlinkDiscardBackgroundTabsExcept E keep w = fold (discard_tab E keep) (windows w) w"

definition BlinkDiscardBackgroundTabs :: "browser_env \<Rightarrow> shell_id option \<Rightarrow> world \<Rightarrow> world" where
  "BlinkDiscardBackgroundTabs E keep w =
     (if length (windows w) < 6 then w else BlinkDiscardBackgroundTabsExcept E keep w)"

definition BlinkDiscardBackgroundTabsUnderPressure :: "browser_env \<Rightarrow> world \<Rightarrow> world" where
  "BlinkDiscardBackgroundTabsUnderPressure E w =
     (if length (windows w) < 2 then w
      else
        (let keep = (case find (\<lambda>s. key_window (now_sample E w) = Some s) (windows w) of
                       Some s \<Rightarrow> Some s | None \<Rightarrow> Some (hd (windows w))) in
         (seq [diag ''TAB_LIFECYCLE: memory pressure -> shedding background tabs'' [],
          BlinkDiscardBackgroundTabsExcept E keep]) w))"

definition global_guard_purge ::
  "browser_env \<Rightarrow> BlinkMemoryStats \<Rightarrow> u64 \<Rightarrow> u64 \<Rightarrow> world \<Rightarrow> world" where
  "global_guard_purge E stats soft critical =
     seq [only_if (phys_footprint stats \<ge> soft)
       (seq [diag ''GLOBAL_MEM_GUARD: footprint over soft threshold -> purge'' [],
        emit E (NotifyMemoryPressure MEMORY_PRESSURE_LEVEL_MODERATE)]),
     only_if (phys_footprint stats \<ge> critical)
       (seq [diag ''GLOBAL_MEM_GUARD: footprint over critical threshold -> purge'' [],
        emit E (NotifyMemoryPressure MEMORY_PRESSURE_LEVEL_CRITICAL),
        BlinkDiscardBackgroundTabsUnderPressure E]),
     only_if (phys_footprint stats \<ge> soft)
       (diag ''V8_OOM_CONTEXT near heavy URL before fatal OOM risk'' [])]"

definition global_guard_decide ::
  "gurl \<Rightarrow> gurl \<Rightarrow> bool \<Rightarrow> BlinkMemoryStats \<Rightarrow> u64 \<Rightarrow> u64 \<Rightarrow> u64 \<Rightarrow> world \<Rightarrow> bool \<times> world" where
  "global_guard_decide url current_url top_level stats soft critical block =
     (if IsYouTubeURL url then after [diag ''GLOBAL_MEM_GUARD: youtube purge-only mode'' []] (ret False)
      else if IsGitHubURL url then
        after [diag ''GITHUB_MEM_GUARD: purge-only mode'' [],
        only_if (phys_footprint stats \<ge> soft)
          (diag ''GITHUB_MEM_GUARD: footprint over soft threshold'' []),
        only_if (phys_footprint stats \<ge> critical)
          (diag ''GITHUB_MEM_GUARD: footprint over critical threshold'' [])]
        (ret False)
      else if purge_only_host (url_host url) then
        after [diag ''GLOBAL_MEM_GUARD: common heavy site purge-only mode'' []] (ret False)
      else if url_host url = ''accounts.google.com'' \<and> IsGoogleAuthURL current_url then
        after [diag ''AUTH_POPUP_GUARD: allowed accounts.google.com navigation'' []] (ret False)
      else if top_level \<and> phys_footprint stats \<ge> block \<and> \<not> SameHeavySite current_url url \<and>
              \<not> IsRedditURL url then
        after [assign (g_global_low_memory_mode_update (\<lambda>_. True)),
        diag ''GLOBAL_MEM_GUARD: low-memory mode active'' [],
        diag ''GLOBAL_MEM_GUARD: blocked heavy navigation'' []] (ret True)
      else ret False)"

definition ApplyGlobalMemoryGuard ::
  "browser_env \<Rightarrow> gurl \<Rightarrow> gurl \<Rightarrow> string \<Rightarrow> bool \<Rightarrow> world \<Rightarrow> bool \<times> world" where
  "ApplyGlobalMemoryGuard E url current_url label top_level_starting_navigation =
     (if \<not> IsHeavySiteURL url then ret False
      else
        bindw (GetBlinkMemoryStats E) (\<lambda>stats.
        bindw (threshold ModerateFootprint E) (\<lambda>soft.
        bindw (threshold CriticalFootprint E) (\<lambda>critical.
        bindw (threshold BlockNewContentsFootprint E) (\<lambda>block.
        after [diag (''GLOBAL_MEM_GUARD: %s footprint=%llu soft_at=%llu critical_at=%llu '' @
              ''block_at=%llu url=%s'')
          [LText label, u64_arg (phys_footprint stats), u64_arg soft, u64_arg critical,
           u64_arg block, url_arg E url],
        global_guard_purge E stats soft critical]
        (global_guard_decide url current_url top_level_starting_navigation stats soft critical block))))))"

definition ShouldBlockNewWebContents :: "browser_env \<Rightarrow> string \<Rightarrow> gurl \<Rightarrow> world \<Rightarrow> bool \<times> world" where
  "ShouldBlockNewWebContents E path url =
     bindw (GetBlinkMemoryStats E) (\<lambda>stats.
     reading windows (\<lambda>ws.
       if ws = [] then ret False
       else
         bindw (threshold BlockNewContentsFootprint E) (\<lambda>block.
         if phys_footprint stats < block then
           after [diag ''WEB_CONTENTS_GUARD: allowed path=%s existing=%zu footprint=%llu''
             [LText path, LNum (length ws), u64_arg (phys_footprint stats)]] (ret False)
         else
           after [diag (''WEB_CONTENTS_GUARD: blocked new window path=%s existing=%zu '' @
                 ''footprint=%llu block_at=%llu url=%s'')
             [LText path, LNum (length ws), u64_arg (phys_footprint stats), u64_arg block,
              url_arg E url]] (ret True))))"

subsection \<open>Queries and thresholds\<close>

lemma GetBlinkMemoryStats_eq [world_simps]:
  "GetBlinkMemoryStats E w = (stats_of (sys E (Suc (queries w))), w\<lparr>queries := Suc (queries w)\<rparr>)"
  by (simp add: GetBlinkMemoryStats_def now_sample_def Let_def)

lemma threshold_eq [world_simps]:
  "threshold t E w =
     (fst (t (kernel (now_sample E w)) (mem_cache w)),
      w\<lparr>mem_cache := snd (t (kernel (now_sample E w)) (mem_cache w))\<rparr>)"
  by (simp add: threshold_def Let_def case_prod_unfold)

lemma now_sample_simps [simp]:
  "now_sample E (w\<lparr>mem_cache := m\<rparr>) = now_sample E w"
  "now_sample E (w\<lparr>queries := n\<rparr>) = sys E n"
  "now_sample E (diag f as w) = now_sample E w" "now_sample E (ship f as w) = now_sample E w"
  "now_sample E (emit E' c w) = now_sample E w" "now_sample E (assign h w) = now_sample E w"
  "now_sample E (set_pref k v w) = now_sample E w"
  by (simp_all add: now_sample_def)

text \<open>Asking for the ceiling again at the same moment changes nothing.\<close>

lemma MemoryCeiling_stable:
  "MemoryCeiling K (snd (MemoryCeiling K m)) = (fst (MemoryCeiling K m), snd (MemoryCeiling K m))"
proof -
  have "clamp v kCeilingFloor kCeilingCap \<noteq> 0" for v
    using clamp_range [of v] by (auto simp: memory_constants)
  then show ?thesis
    by (auto simp: MemoryCeiling_def DevicePhysicalMemory_def Let_def split: option.splits)
qed

lemma threshold_stable:
  fixes f g :: "kernel_env \<Rightarrow> memory_cache \<Rightarrow> u64 \<times> memory_cache"
  assumes "f \<in> {ModerateFootprint, CriticalFootprint, BlockNewContentsFootprint}"
    and "g \<in> {ModerateFootprint, CriticalFootprint, BlockNewContentsFootprint}"
  shows "g K (snd (f K m)) = (fst (g K m), snd (f K m))" "snd (f K m) = snd (g K m)"
  using assms
  by (auto simp: ModerateFootprint_def CriticalFootprint_def BlockNewContentsFootprint_def
      case_prod_unfold Let_def MemoryCeiling_stable)

lemmas thresholds_stable =
  threshold_stable(1) [of ModerateFootprint CriticalFootprint, simplified]
  threshold_stable(1) [of ModerateFootprint BlockNewContentsFootprint, simplified]
  threshold_stable(1) [of CriticalFootprint BlockNewContentsFootprint, simplified]

subsection \<open>Calls other than log statements\<close>

fun is_log :: "call \<Rightarrow> bool" where
  "is_log (Log l) = True"
| "is_log _ = False"

definition actions :: "world \<Rightarrow> call list" where
  "actions w = filter (\<lambda>c. \<not> is_log c) (trace w)"

lemma actions_simps [simp]:
  "actions (diag f as w) = actions w" "actions (ship f as w) = actions w"
  "actions (assign h w) = actions w" "actions (set_pref k v w) = actions w"
  "actions (w\<lparr>queries := n\<rparr>) = actions w" "actions (w\<lparr>mem_cache := m\<rparr>) = actions w"
  "actions (emit E c w) = actions w @ (if is_log c then [] else [c])"
  by (simp_all add: actions_def)

subsection \<open>The global memory guard\<close>

lemma discard_tab_selectors [simp]:
  "windows (discard_tab E k s w) = windows w" "shells (discard_tab E k s w) = shells w"
  "globals (discard_tab E k s w) = globals w" "queries (discard_tab E k s w) = queries w"
  "mem_cache (discard_tab E k s w) = mem_cache w" "prefs (discard_tab E k s w) = prefs w"
  by (simp_all add: discard_tab_def world_simps only_if_def split: option.splits)

lemma fold_discard_tab_selectors [simp]:
  "windows (fold (discard_tab E k) ss w) = windows w" "shells (fold (discard_tab E k) ss w) = shells w"
  "globals (fold (discard_tab E k) ss w) = globals w" "queries (fold (discard_tab E k) ss w) = queries w"
  "mem_cache (fold (discard_tab E k) ss w) = mem_cache w" "prefs (fold (discard_tab E k) ss w) = prefs w"
  by (induction ss arbitrary: w) simp_all

lemma under_pressure_selectors [simp]:
  "windows (BlinkDiscardBackgroundTabsUnderPressure E w) = windows w"
  "shells (BlinkDiscardBackgroundTabsUnderPressure E w) = shells w"
  "globals (BlinkDiscardBackgroundTabsUnderPressure E w) = globals w"
  "queries (BlinkDiscardBackgroundTabsUnderPressure E w) = queries w"
  by (simp_all add: BlinkDiscardBackgroundTabsUnderPressure_def BlinkDiscardBackgroundTabsExcept_def
      world_simps Let_def)

lemma global_guard_purge_selectors [simp]:
  "windows (global_guard_purge E st a b w) = windows w" "shells (global_guard_purge E st a b w) = shells w"
  "globals (global_guard_purge E st a b w) = globals w" "queries (global_guard_purge E st a b w) = queries w"
  by (simp_all add: global_guard_purge_def only_if_def)

text \<open>The footprint and block threshold a guard sees: those of the next memory query.\<close>

definition next_footprint :: "browser_env \<Rightarrow> world \<Rightarrow> u64" where
  "next_footprint E w = phys_footprint (stats_of (sys E (Suc (queries w))))"

definition next_threshold ::
  "(kernel_env \<Rightarrow> memory_cache \<Rightarrow> u64 \<times> memory_cache) \<Rightarrow> browser_env \<Rightarrow> world \<Rightarrow> u64" where
  "next_threshold f E w = fst (f (kernel (sys E (Suc (queries w)))) (mem_cache w))"

definition never_blocked :: "gurl \<Rightarrow> gurl \<Rightarrow> bool" where
  "never_blocked url current_url \<longleftrightarrow>
     IsYouTubeURL url \<or> IsGitHubURL url \<or> IsRedditURL url \<or> purge_only_host (url_host url) \<or>
     (url_host url = ''accounts.google.com'' \<and> IsGoogleAuthURL current_url) \<or>
     SameHeavySite current_url url"

lemma ApplyGlobalMemoryGuard_result:
  "fst (ApplyGlobalMemoryGuard E url cur label top w) \<longleftrightarrow>
     IsHeavySiteURL url \<and> top \<and> \<not> never_blocked url cur \<and>
     next_threshold BlockNewContentsFootprint E w \<le> next_footprint E w"
  by (simp add: ApplyGlobalMemoryGuard_def global_guard_decide_def never_blocked_def world_simps
      next_footprint_def next_threshold_def thresholds_stable ret_def) blast

lemma ApplyGlobalMemoryGuard_globals:
  "globals (snd (ApplyGlobalMemoryGuard E url cur label top w)) =
     (if fst (ApplyGlobalMemoryGuard E url cur label top w)
      then (globals w)\<lparr>g_global_low_memory_mode := True\<rparr> else globals w)"
  by (simp add: ApplyGlobalMemoryGuard_def global_guard_decide_def world_simps ret_def only_if_def)

text \<open>
  the memory guard refuses a navigation exactly when it is a top-level one to a heavy
  site, the footprint has reached 82 percent of the memory ceiling, the site is none of the
  purge-only ones (YouTube, GitHub, Reddit, the listed hosts, Google sign-in from a Google
  page) and the tab is not already on that site; only then is low-memory mode entered, and
  no other shell variable changes.
\<close>

lemma global_guard_blocks_iff:
  "(fst (ApplyGlobalMemoryGuard E url cur label top w) \<longleftrightarrow>
      IsHeavySiteURL url \<and> top \<and> \<not> never_blocked url cur \<and>
      next_threshold BlockNewContentsFootprint E w \<le> next_footprint E w) \<and>
   globals (snd (ApplyGlobalMemoryGuard E url cur label top w)) =
     (if fst (ApplyGlobalMemoryGuard E url cur label top w)
      then (globals w)\<lparr>g_global_low_memory_mode := True\<rparr> else globals w)"
  by (simp only: ApplyGlobalMemoryGuard_result ApplyGlobalMemoryGuard_globals)

subsection \<open>Duplicate views\<close>

text \<open>An observation: the system it is made in and the two counts.\<close>

type_synonym view_observation = "browser_env \<times> int \<times> int"

definition observe_views :: "view_observation \<Rightarrow> world \<Rightarrow> world" where
  "observe_views ob w = (case ob of (E, r, c) \<Rightarrow> snd (HasPersistentDuplicateViewOrCompositor E r c w))"

definition sees_duplicate :: "world \<Rightarrow> view_observation \<Rightarrow> bool" where
  "sees_duplicate w ob =
     (case ob of (E, r, c) \<Rightarrow> r > int (length (windows w)) \<or> c > int (length (windows w)))"

text \<open>The observations of the current uninterrupted run of duplicates, newest first.\<close>

definition duplicate_run :: "world \<Rightarrow> view_observation list \<Rightarrow> view_observation list" where
  "duplicate_run w obs = takeWhile (sees_duplicate w) (rev obs)"

definition run_start :: "world \<Rightarrow> view_observation list \<Rightarrow> time_ticks" where
  "run_start w obs =
     (case duplicate_run w obs of [] \<Rightarrow> 0 | xs \<Rightarrow> Now (fst (last xs)) w)"

lemma Now_cong: "queries w = queries w' \<Longrightarrow> Now E w = Now E w'"
  by (simp add: Now_def now_sample_def)

lemma observe_views_selectors [simp]:
  "windows (observe_views ob w) = windows w" "queries (observe_views ob w) = queries w"
  by (simp_all add: observe_views_def HasPersistentDuplicateViewOrCompositor_def Let_def
      split: prod.splits)

lemma observe_views_first_seen:
  "g_duplicate_view_first_seen (globals (observe_views ob w)) =
     (if \<not> sees_duplicate w ob then 0
      else if g_duplicate_view_first_seen (globals w) = 0 then Now (fst ob) w
      else g_duplicate_view_first_seen (globals w))"
  by (cases ob) (simp add: observe_views_def HasPersistentDuplicateViewOrCompositor_def Let_def
      sees_duplicate_def is_null_def)

lemma fold_observe_selectors [simp]:
  "windows (fold observe_views obs w) = windows w" "queries (fold observe_views obs w) = queries w"
  by (induction obs arbitrary: w) simp_all

lemma sees_duplicate_cong: "windows w = windows w' \<Longrightarrow> sees_duplicate w = sees_duplicate w'"
  by (simp add: sees_duplicate_def fun_eq_iff)

lemma run_start_null:
  assumes "\<forall>ob \<in> set obs. 0 < Now (fst ob) w"
  shows "run_start w obs = 0 \<longleftrightarrow> duplicate_run w obs = []"
proof (cases "duplicate_run w obs")
  case (Cons a list)
  then have "last (a # list) \<in> set (duplicate_run w obs)" by (metis last_in_set list.discI)
  then have "last (a # list) \<in> set obs"
    by (auto simp: duplicate_run_def dest: set_takeWhileD)
  with assms Cons show ?thesis by (auto simp: run_start_def)
qed (simp add: run_start_def)

lemma run_start_snoc:
  "run_start w (obs @ [ob]) =
     (if sees_duplicate w ob
      then if duplicate_run w obs = [] then Now (fst ob) w else run_start w obs else 0)"
  by (auto simp: run_start_def duplicate_run_def split: list.split)

lemma first_seen_run_start:
  assumes "g_duplicate_view_first_seen (globals w) = 0" and "\<forall>ob \<in> set obs. 0 < Now (fst ob) w"
  shows "g_duplicate_view_first_seen (globals (fold observe_views obs w)) = run_start w obs"
  using assms
proof (induction obs rule: rev_induct)
  case Nil
  then show ?case by (simp add: run_start_def duplicate_run_def)
next
  case (snoc ob obs)
  let ?w = "fold observe_views obs w"
  have "g_duplicate_view_first_seen (globals ?w) = run_start w obs"
    using snoc by simp
  moreover have "Now (fst ob) ?w = Now (fst ob) w" by (rule Now_cong) simp
  moreover have "sees_duplicate ?w ob = sees_duplicate w ob"
    by (simp add: sees_duplicate_cong [of ?w w])
  ultimately show ?case
    using run_start_null [of obs w] snoc.prems by (simp add: run_start_snoc observe_views_first_seen)
qed

text \<open>
  a duplicate view is reported as a leak exactly when it has been seen in an
  uninterrupted run of observations that began at least two seconds ago; one observation
  without a duplicate, such as the end of a tab transition, starts the waiting anew.
\<close>

lemma duplicate_leak_iff:
  assumes "g_duplicate_view_first_seen (globals w) = 0" and "\<forall>ob \<in> set obs. 0 < Now (fst ob) w"
  shows "fst (HasPersistentDuplicateViewOrCompositor E r c (fold observe_views obs w)) \<longleftrightarrow>
     sees_duplicate w (E, r, c) \<and> duplicate_run w obs \<noteq> [] \<and> Now E w - run_start w obs \<ge> Seconds 2"
proof -
  have n: "Now E (fold observe_views obs w) = Now E w" by (rule Now_cong) simp
  show ?thesis
    using first_seen_run_start [OF assms] run_start_null [OF assms(2)]
    by (auto simp: HasPersistentDuplicateViewOrCompositor_def Let_def n sees_duplicate_def is_null_def)
qed

subsection \<open>Load history\<close>

definition push_load_start :: "time_ticks \<Rightarrow> shell_globals \<Rightarrow> shell_globals" where
  "push_load_start t g =
     g\<lparr>g_recent_load_starts := (g_recent_load_starts g)[g_recent_load_start_head g := t],
       g_recent_load_start_head := (g_recent_load_start_head g + 1) mod kRecentLoadStartSlots\<rparr>"

interpretation load_ring: ring_buffer kRecentLoadStartSlots push_load_start g_recent_load_starts
  g_recent_load_start_head
  by unfold_locales (simp_all add: kRecentLoadStartSlots_def push_load_start_def)

lemma RecordLoadStart_push: "RecordLoadStart E w = assign (push_load_start (Now E w)) w"
  by (simp add: RecordLoadStart_def push_load_start_def [abs_def])

lemma fold_RecordLoadStart:
  "globals (fold RecordLoadStart Es w) = fold push_load_start (map (\<lambda>E. Now E w) Es) (globals w) \<and>
   queries (fold RecordLoadStart Es w) = queries w"
proof (induction Es arbitrary: w)
  case (Cons E Es)
  have "Now E' (RecordLoadStart E w) = Now E' w" for E'
    by (rule Now_cong) (simp add: RecordLoadStart_push)
  with Cons.IH [of "RecordLoadStart E w"] show ?case by (simp add: RecordLoadStart_push)
qed simp

lemma initial_load_ring:
  "load_ring.ring_ok initial_globals" "set (load_ring.view initial_globals) \<subseteq> {0}"
  using load_ring.N_pos by (auto simp: load_ring.ring_ok_def load_ring.view_def initial_globals_def)

text \<open>
  the load counter in the breadcrumbs is exact over its window: whatever loads have
  started since launch, it counts the starts among the last sixteen that are at most ten
  seconds old.
\<close>

lemma load_starts_exact:
  assumes "globals w = initial_globals"
  shows "LoadStartsInLast10s E (fold RecordLoadStart Es w) =
    length (filter (\<lambda>t. t \<noteq> 0 \<and> Now E w - t \<le> Seconds 10)
      (drop (length Es - 16) (map (\<lambda>E. Now E w) Es)))"
proof -
  let ?P = "\<lambda>t. \<not> is_null t \<and> Now E w - t \<le> Seconds 10"
  have n: "Now E (fold RecordLoadStart Es w) = Now E w"
    by (rule Now_cong) (simp add: fold_RecordLoadStart)
  have "\<forall>y \<in> set (load_ring.view initial_globals). \<not> ?P y"
    using initial_load_ring(2) by (auto simp: is_null_def)
  from load_ring.count_last [OF initial_load_ring(1) this, of "map (\<lambda>E. Now E w) Es"]
  show ?thesis
    unfolding LoadStartsInLast10s_def n using assms
    by (simp add: fold_RecordLoadStart kRecentLoadStartSlots_def is_null_def drop_map)
qed

subsection \<open>Heartbeats\<close>

lemma trim_heartbeats_drop: "trim_heartbeats xs = drop (length xs - 5) xs"
  by (induction xs) (auto simp: drop_Cons')

lemma StoreRecentHeartbeat_step:
  assumes "CFStringCreateWithCString E e = Some e"
    and "prefs w ''BlinkRecentHeartbeats'' = (if xs = [] then None else Some (CFArray (map CFString xs)))"
  shows "prefs (StoreRecentHeartbeat E e w) ''BlinkRecentHeartbeats'' =
     Some (CFArray (map CFString (drop (Suc (length xs) - 5) (xs @ [e]))))"
  using assms by (simp add: StoreRecentHeartbeat_def Let_def trim_heartbeats_drop drop_map)

text \<open>
  the heartbeat history kept for diagnosing exits without a crash report is the last
  five entries, oldest first, however many heartbeats have been stored.
\<close>

lemma heartbeat_history:
  assumes "\<forall>e \<in> set es. CFStringCreateWithCString E e = Some e" and "es \<noteq> []"
    and "prefs w ''BlinkRecentHeartbeats'' = None"
  shows "prefs (fold (StoreRecentHeartbeat E) es w) ''BlinkRecentHeartbeats'' =
    Some (CFArray (map CFString (drop (length es - 5) es)))"
  using assms(1,2)
proof (induction es rule: rev_induct)
  case (snoc e es)
  let ?xs = "drop (length es - 5) es"
  have nil: "?xs = [] \<longleftrightarrow> es = []" by (cases es) auto
  have "prefs (fold (StoreRecentHeartbeat E) es w) ''BlinkRecentHeartbeats'' =
      (if ?xs = [] then None else Some (CFArray (map CFString ?xs)))"
    using snoc.IH snoc.prems assms(3) by (cases "es = []") (simp_all add: nil del: drop_eq_Nil)
  moreover have "length es - (length es - 5 + 4) + (length es - 5) = length es - 4" by arith
  ultimately show ?case
    using StoreRecentHeartbeat_step [of E e "fold (StoreRecentHeartbeat E) es w" ?xs] snoc.prems by simp
qed simp

lemma StoreRecentHeartbeat_selectors [simp]:
  "contents (StoreRecentHeartbeat E e w) = contents w" "globals (StoreRecentHeartbeat E e w) = globals w"
  "queries (StoreRecentHeartbeat E e w) = queries w" "actions (StoreRecentHeartbeat E e w) = actions w"
  "heartbeat_timer_running (StoreRecentHeartbeat E e w) = heartbeat_timer_running w"
  by (simp_all add: StoreRecentHeartbeat_def Let_def)

text \<open>When the heartbeat purges: on an AI site, cooled down, and grown or large.\<close>

definition heartbeat_purges :: "browser_env \<Rightarrow> gurl \<Rightarrow> world \<Rightarrow> bool" where
  "heartbeat_purges E url w \<longleftrightarrow>
     IsAISiteURL url \<and>
     (g_last_ai_purge (globals w) = 0 \<or>
      TimeTicks_Now (sys E (Suc (queries w))) - g_last_ai_purge (globals w) > Seconds 3) \<and>
     (g_last_heavy_heartbeat_footprint (globals w) \<noteq> 0 \<and>
      next_footprint E w > g_last_heavy_heartbeat_footprint (globals w) + 40 * 1024 * 1024 \<or>
      next_footprint E w \<ge> 320 * 1024 * 1024)"

lemma Now_simps [simp]:
  "Now E (diag f as w) = Now E w" "Now E (assign h w) = Now E w" "Now E (emit E' c w) = Now E w"
  "Now E (w\<lparr>queries := n\<rparr>) = TimeTicks_Now (sys E n)" "Now E (StoreRecentHeartbeat E' e w) = Now E w"
  by (simp_all add: Now_def now_sample_def)

text \<open>
  a heartbeat on a monitored page keeps the timer running, remembers the footprint it
  saw, and sends at most one purge: on an AI site only, when the footprint has grown by more
  than 40 MiB since the last beat or is at least 320 MiB, and never within three seconds of
  the purge before it.  On any other page, or with no window, it stops the timer and does
  nothing else.
\<close>

lemma heartbeat_tick_exact:
  "(case deref w (front_contents w) of
      None \<Rightarrow> HeavyHeartbeatTick E w = w\<lparr>heartbeat_timer_running := False\<rparr>
    | Some wc \<Rightarrow>
        if \<not> IsMonitoredHeavyHost (committed_or_visible wc)
        then HeavyHeartbeatTick E w = w\<lparr>heartbeat_timer_running := False\<rparr>
        else
          actions (HeavyHeartbeatTick E w) = actions w @
            (if heartbeat_purges E (committed_or_visible wc) w
             then [NotifyMemoryPressure MEMORY_PRESSURE_LEVEL_CRITICAL] else []) \<and>
          g_last_ai_purge (globals (HeavyHeartbeatTick E w)) =
            (if heartbeat_purges E (committed_or_visible wc) w
             then TimeTicks_Now (sys E (Suc (queries w))) else g_last_ai_purge (globals w)) \<and>
          g_last_heavy_heartbeat_footprint (globals (HeavyHeartbeatTick E w)) = next_footprint E w \<and>
          heartbeat_timer_running (HeavyHeartbeatTick E w) = heartbeat_timer_running w)"
  by (auto simp: HeavyHeartbeatTick_def ai_site_guard_def heartbeat_purges_def next_footprint_def
      world_simps Let_def only_if_def is_null_def split: option.splits)

subsection \<open>The allocation guard\<close>

lemma RunOOMWatchdog_selectors [simp]:
  "windows (RunOOMWatchdogForHeavyLoad E u st w) = windows w"
  "shells (RunOOMWatchdogForHeavyLoad E u st w) = shells w"
  "queries (RunOOMWatchdogForHeavyLoad E u st w) = queries w"
  by (simp_all add: RunOOMWatchdogForHeavyLoad_def stop_front_if_loading_def record_watchdog_sample_def
      Let_def only_if_def split: option.splits)

lemma HasPersistent_selectors [simp]:
  "actions (snd (HasPersistentDuplicateViewOrCompositor E r c w)) = actions w"
  "windows (snd (HasPersistentDuplicateViewOrCompositor E r c w)) = windows w"
  "shells (snd (HasPersistentDuplicateViewOrCompositor E r c w)) = shells w"
  "queries (snd (HasPersistentDuplicateViewOrCompositor E r c w)) = queries w"
  by (simp_all add: HasPersistentDuplicateViewOrCompositor_def Let_def)

text \<open>
  the allocation guard stops a navigation only for a top-level load of a heavy site at
  350 MiB or more while a duplicate view persists, and then its last act is to post the
  low-memory page; otherwise it never posts anything.
\<close>

lemma allocation_guard_blocks_iff:
  fixes E url top w
  defines "s \<equiv> sys E (Suc (queries w))"
  defines "w1 \<equiv> assign (g_main_frame_navigation_start_count_update (\<lambda>n. n + 1)) (w\<lparr>queries := Suc (queries w)\<rparr>)"
  defines "r \<equiv> ApplyDirectAllocationDangerGuard E url top w"
  shows "(fst r \<longleftrightarrow> top \<and> IsHeavySiteURL url \<and> 350 * 1024 * 1024 \<le> next_footprint E w \<and>
      fst (HasPersistentDuplicateViewOrCompositor E (BlinkActiveRWHVCount s)
             (BlinkActiveBrowserCompositorCount s) w1)) \<and>
    (\<exists>xs. actions (snd r) = actions w @ xs @ (if fst r then [PostTask ShowOOMGuardPage_task] else []) \<and>
      set xs \<subseteq> {NotifyMemoryPressure MEMORY_PRESSURE_LEVEL_CRITICAL} \<union> (Page \<circ> Stop) ` UNIV)"
proof -
  let ?H = "HasPersistentDuplicateViewOrCompositor E (BlinkActiveRWHVCount s)
      (BlinkActiveBrowserCompositorCount s) w1"
  have wd: "\<exists>xs. actions (RunOOMWatchdogForHeavyLoad E url st v) = actions v @ xs \<and>
      set xs \<subseteq> {NotifyMemoryPressure MEMORY_PRESSURE_LEVEL_CRITICAL} \<union> (Page \<circ> Stop) ` UNIV" for st v
    by (auto simp: RunOOMWatchdogForHeavyLoad_def stop_front_if_loading_def record_watchdog_sample_def
        Let_def only_if_def split: option.splits)
  from wd [of "stats_of s" "snd ?H"] obtain xs where
    xs: "actions (RunOOMWatchdogForHeavyLoad E url (stats_of s) (snd ?H)) = actions (snd ?H) @ xs"
      "set xs \<subseteq> {NotifyMemoryPressure MEMORY_PRESSURE_LEVEL_CRITICAL} \<union> (Page \<circ> Stop) ` UNIV" by blast
  have w1: "actions w1 = actions w" by (simp add: w1_def)
  show ?thesis
  proof (cases "top \<and> IsHeavySiteURL url")
    case False
    then show ?thesis
      by (auto simp: r_def ApplyDirectAllocationDangerGuard_def ret_def intro: exI [of _ "[]"])
  next
    case True
    let ?n = "if 300 * 1024 * 1024 \<le> next_footprint E w
              then [NotifyMemoryPressure MEMORY_PRESSURE_LEVEL_CRITICAL] else []"
    have "actions (snd r) = actions w @ (xs @ ?n) @ (if fst r then [PostTask ShowOOMGuardPage_task] else [])"
      using True xs(1) w1
      by (simp add: r_def ApplyDirectAllocationDangerGuard_def world_simps Let_def ret_def only_if_def
          case_prod_unfold s_def w1_def next_footprint_def now_sample_def)
    moreover have "fst r \<longleftrightarrow> 350 * 1024 * 1024 \<le> next_footprint E w \<and> fst ?H"
      using True
      by (simp add: r_def ApplyDirectAllocationDangerGuard_def world_simps Let_def ret_def only_if_def
          case_prod_unfold s_def w1_def next_footprint_def now_sample_def)
    moreover have "set (xs @ ?n) \<subseteq> {NotifyMemoryPressure MEMORY_PRESSURE_LEVEL_CRITICAL} \<union> (Page \<circ> Stop) ` UNIV"
      using xs(2) by auto
    ultimately show ?thesis using True by metis
  qed
qed

subsection \<open>Instances\<close>

text \<open>A second window leaks: two views for one window, seen at one, two and four seconds.\<close>

definition at_time :: "time_ticks \<Rightarrow> browser_env" where
  "at_time t = (sample_env 0 False)\<lparr>sys := \<lambda>n. (sample_sys 0 n)\<lparr>TimeTicks_Now := t\<rparr>\<rparr>"

lemma Now_at_time [simp]: "Now (at_time t) w = t"
  by (simp add: Now_def now_sample_def at_time_def sample_sys_def sample_env_def)

lemma duplicate_leak_iff_witness:
  "fst (HasPersistentDuplicateViewOrCompositor (at_time (Seconds 4)) 2 1
     (fold observe_views [(at_time (Seconds 1), 2, 1), (at_time (Seconds 2), 2, 1)]
       (sample_world (sample_tab empty_gurl))))"
proof -
  let ?w = "sample_world (sample_tab empty_gurl)"
  have ws: "windows ?w = [0]" "g_duplicate_view_first_seen (globals ?w) = 0"
    by (simp_all add: sample_defs)
  show ?thesis
    using duplicate_leak_iff [of ?w "[(at_time (Seconds 1), 2, 1), (at_time (Seconds 2), 2, 1)]"
        "at_time (Seconds 4)" 2 1] ws
    by (simp add: sees_duplicate_def duplicate_run_def run_start_def Seconds_def)
qed

lemma load_starts_exact_witness:
  "LoadStartsInLast10s (at_time (Seconds 20))
     (fold RecordLoadStart [at_time (Seconds 1), at_time (Seconds 15)] (sample_world (sample_tab empty_gurl))) = 1"
  using load_starts_exact [of "sample_world (sample_tab empty_gurl)" "at_time (Seconds 20)"
      "[at_time (Seconds 1), at_time (Seconds 15)]"]
  by (simp add: sample_world_def initial_world_def Seconds_def)

lemma heartbeat_history_witness:
  "prefs (fold (StoreRecentHeartbeat (sample_env 0 False)) [''1'', ''2'', ''3'', ''4'', ''5'', ''6''] initial_world)
     ''BlinkRecentHeartbeats'' = Some (CFArray (map CFString [''2'', ''3'', ''4'', ''5'', ''6'']))"
  using heartbeat_history [of "[''1'', ''2'', ''3'', ''4'', ''5'', ''6'']" "sample_env 0 False" initial_world]
  by (simp add: sample_env_def initial_world_def)

end
