(* ===== verification/Shell_Auth.thy ===== *)
theory Shell_Auth
  imports Shell_Guards
begin

text \<open>
  Authentication flows in \<^verbatim>\<open>content/shell/browser/shell.cc\<close>: which URLs belong to one, the
  ring of recent authentication URLs and the redirect-loop detector on it, cookie
  diagnostics, the user-agent identities used for sign-in, and the chat-site keyboard hint.
\<close>

subsection \<open>URLs of a flow\<close>

definition IsAuthFlowURL :: "gurl \<Rightarrow> bool" where
  "IsAuthFlowURL url =
     (if \<not> url_is_valid url then False
      else
        (let host = url_host url; path = url_path url in
         if host = ''auth.openai.com'' \<or> host = ''accounts.google.com'' then True
         else
           (let openai_family = (host = ''chatgpt.com'' \<or> sv_ends_with host ''.chatgpt.com'' \<or>
                                 host = ''openai.com'' \<or> sv_ends_with host ''.openai.com'') in
            if openai_family \<and>
               (sv_starts_with path ''/auth'' \<or> sv_contains path ''/oauth'' \<or>
                sv_contains path ''login_with'') then True
            else sv_contains path ''/auth/callback'' \<or> sv_contains path ''/oauth/callback'' \<or>
                 sv_contains path ''/login/callback'')))"

definition IsChatGPTMwebFallback :: "gurl \<Rightarrow> bool" where
  "IsChatGPTMwebFallback url =
     (if \<not> url_is_valid url then False
      else
        (let host = url_host url in
         if host \<noteq> ''chatgpt.com'' \<and> \<not> sv_ends_with host ''.chatgpt.com'' then False
         else if \<not> sv_contains (url_path url) ''/auth/login_with'' then False
         else sv_contains (url_query url) ''mweb_fallback=1'' \<and>
              sv_contains (url_query url) ''connection=google-oauth2''))"

subsection \<open>The redirect-loop detector\<close>

definition record_auth_url :: "time_ticks \<Rightarrow> string \<Rightarrow> shell_globals \<Rightarrow> shell_globals" where
  "record_auth_url now spec g =
     g\<lparr>g_recent_auth_urls := (g_recent_auth_urls g)[g_recent_auth_head g := spec],
       g_recent_auth_times := (g_recent_auth_times g)[g_recent_auth_head g := now],
       g_recent_auth_head := (g_recent_auth_head g + 1) mod kRecentAuthSlots\<rparr>"

definition auth_repeats :: "time_ticks \<Rightarrow> string \<Rightarrow> shell_globals \<Rightarrow> nat" where
  "auth_repeats now spec g =
     length (filter (\<lambda>i. \<not> is_null (g_recent_auth_times g ! i) \<and>
                         now - g_recent_auth_times g ! i \<le> Seconds 5 \<and>
                         g_recent_auth_urls g ! i = spec) [0..<kRecentAuthSlots])"

text \<open>The lines of the loop that dumps the ring, oldest slot first; empty slots are skipped.\<close>

definition auth_dump_line :: "shell_globals \<Rightarrow> nat \<Rightarrow> world \<Rightarrow> world" where
  "auth_dump_line g i =
     (let idx = (g_recent_auth_head g + i) mod kRecentAuthSlots in
      only_if (g_recent_auth_urls g ! idx \<noteq> [])
        (diag ''AUTH_FLOW:   [%zu]=%s'' [LNum i, LUrl (g_recent_auth_urls g ! idx)]))"

definition RecordAuthUrlAndDetectLoop :: "browser_env \<Rightarrow> gurl \<Rightarrow> world \<Rightarrow> world" where
  "RecordAuthUrlAndDetectLoop E url w =
     (let now = Now E w; spec = url_spec url; w = assign (record_auth_url now spec) w in
      only_if (3 \<le> auth_repeats now spec (globals w))
        (seq [diag ''AUTH_FLOW: redirect loop suspected'' [],
         diag ''AUTH_FLOW: repeated url=%s'' [LUrl spec],
         diag ''AUTH_FLOW: last 10 redirects='' [],
         fold (auth_dump_line (globals w)) [0..<kRecentAuthSlots]]) w)"

subsection \<open>Cookies\<close>

record CanonicalCookie =
  cookie_domain :: string
  IsPartitioned :: bool

definition auth_bucket_domains :: "string list" where
  "auth_bucket_domains = [''chatgpt.com'', ''auth.openai.com'', ''openai.com'', ''accounts.google.com'']"

definition strip_leading_dot :: "string \<Rightarrow> string" where
  "strip_leading_dot d = (if d \<noteq> [] \<and> hd d = CHR ''.'' then tl d else d)"

definition count_cookie :: "CanonicalCookie \<Rightarrow> (string \<times> nat) list \<Rightarrow> (string \<times> nat) list" where
  "count_cookie c buckets =
     (let d = strip_leading_dot (cookie_domain c) in
      map (\<lambda>(dom, n). if d = dom \<or> sv_ends_with d (CHR ''.'' # dom) then (dom, Suc n) else (dom, n))
        buckets)"

definition LogAuthCookieCounts :: "browser_env \<Rightarrow> CanonicalCookie list \<Rightarrow> world \<Rightarrow> world" where
  "LogAuthCookieCounts E cookies =
     (let buckets = fold count_cookie cookies (map (\<lambda>d. (d, 0)) auth_bucket_domains);
          partitioned_seen = list_ex IsPartitioned cookies in
      seq [fold (\<lambda>(dom, n). diag ''AUTH_COOKIES: domain=%s count=%d'' [host_arg E dom, LNum n]) buckets,
      only_if partitioned_seen (diag ''AUTH_COOKIES: partitioned cookie seen'' [])])"

text \<open>The two cookie-manager callbacks run later, outside this function.\<close>

definition FlushAndDiagnoseAuthCookies :: "browser_env \<Rightarrow> contents_id option \<Rightarrow> world \<Rightarrow> world" where
  "FlushAndDiagnoseAuthCookies E c w =
     (case (c, deref w c) of
        (Some i, Some wc) \<Rightarrow>
          if storage_partition wc \<noteq> Some True then w
          else (seq [diag ''AUTH_COOKIES: flushing after auth navigation'' [],
                emit E (Page (FlushCookieStore i)), emit E (Page (GetAllCookies i))]) w
      | _ \<Rightarrow> w)"

subsection \<open>Sign-in identities\<close>

definition kChatGPTDesktopUA :: string where
  "kChatGPTDesktopUA =
     ''Mozilla/5.0 (Macintosh; Intel Mac OS X 10_15_7) AppleWebKit/537.36 '' @
     ''(KHTML, like Gecko) Chrome/149.0.0.0 Safari/537.36''"

definition kChatGPTIPhoneSafariUA :: string where
  "kChatGPTIPhoneSafariUA =
     ''Mozilla/5.0 (iPhone; CPU iPhone OS 15_8 like Mac OS X) '' @
     ''AppleWebKit/605.1.15 (KHTML, like Gecko) Version/15.6 Mobile/15E148 '' @ ''Safari/604.1''"

definition kGoogleLegacySafariUA :: string where
  "kGoogleLegacySafariUA =
     ''Mozilla/5.0 (iPhone; CPU iPhone OS 17_5 like Mac OS X) '' @
     ''AppleWebKit/605.1.15 (KHTML, like Gecko) Version/17.5 Mobile/15E148 '' @ ''Safari/604.1''"

definition IsLegacyIOS11Or12Runtime :: "browser_env \<Rightarrow> bool" where
  "IsLegacyIOS11Or12Runtime E =
     (case uname_release E of
        None \<Rightarrow> False
      | Some release \<Rightarrow>
          (let major = (case sv_find_char (CHR ''.'') release of None \<Rightarrow> release | Some n \<Rightarrow> take n release)
           in case StringToInt E major of None \<Rightarrow> False | Some darwin_major \<Rightarrow> darwin_major \<le> 18))"

definition ApplyLegacyGoogleAuthIdentity ::
  "browser_env \<Rightarrow> contents_id option \<Rightarrow> gurl \<Rightarrow> world \<Rightarrow> world" where
  "ApplyLegacyGoogleAuthIdentity E c url w =
     (case (c, deref w c) of
        (Some i, Some wc) \<Rightarrow>
          if url_host url \<noteq> ''accounts.google.com'' \<or> \<not> IsLegacyIOS11Or12Runtime E then w
          else if ua_string_override (GetUserAgentOverride wc) = kGoogleLegacySafariUA then w
          else (seq [emit E (Page (SetUserAgentOverride i
                  \<lparr>ua_string_override = kGoogleLegacySafariUA, ua_metadata_override = None\<rparr> True)),
                diag ''AUTH_FLOW: legacy Google Safari identity enabled'' []]) w
      | _ \<Rightarrow> w)"

definition StopFrontShellLoad :: "browser_env \<Rightarrow> world \<Rightarrow> world" where
  "StopFrontShellLoad E w =
     (case front_contents w of None \<Rightarrow> w | Some c \<Rightarrow> emit E (Page (Stop c)) w)"

subsection \<open>The keyboard hint for chat sites\<close>

definition kChatInputFallbackBottomRatio :: int where "kChatInputFallbackBottomRatio = 92"

definition UpdateKeyboardChatFallback :: "browser_env \<Rightarrow> gurl \<Rightarrow> world \<Rightarrow> world" where
  "UpdateKeyboardChatFallback E url =
     (let host = url_host url; path = url_path url;
          auth_page = (sv_contains path ''/auth'' \<or> sv_contains path ''/login'' \<or>
                       sv_contains path ''/signin'' \<or> sv_contains path ''/sign-in'');
          chat = (\<not> auth_page \<and> HasTrait host kChatKeyboard) in
      if host = [] then
        diag (''KEYBOARD_RELOCATE: chat fallback disabled reason=empty host (kept '' @ ''previous)'') []
      else
        seq [assign (\<lambda>g. g\<lparr>g_is_chat_keyboard_relocation_site := chat,
          g_keyboard_chat_fallback_ratio := if chat then kChatInputFallbackBottomRatio else 0\<rparr>),
        diag ''KEYBOARD_RELOCATE: current host=%s'' [host_arg E host],
        diag ''KEYBOARD_RELOCATE: chat fallback enabled=%d'' [bool_arg chat],
        only_if (\<not> chat) (diag ''KEYBOARD_RELOCATE: chat fallback disabled reason=non-chat host'' [])])"

subsection \<open>The detector over a history\<close>

definition auth_entries :: "shell_globals \<Rightarrow> (string \<times> time_ticks) list" where
  "auth_entries g = zip (g_recent_auth_urls g) (g_recent_auth_times g)"

definition push_auth :: "string \<times> time_ticks \<Rightarrow> shell_globals \<Rightarrow> shell_globals" where
  "push_auth e g = record_auth_url (snd e) (fst e) g"

interpretation auth_ring: ring_buffer kRecentAuthSlots push_auth auth_entries g_recent_auth_head
  by unfold_locales
    (simp_all add: kRecentAuthSlots_def push_auth_def auth_entries_def record_auth_url_def update_zip)

definition recent_hit :: "time_ticks \<Rightarrow> string \<Rightarrow> string \<times> time_ticks \<Rightarrow> bool" where
  "recent_hit now spec e \<longleftrightarrow> snd e \<noteq> 0 \<and> now - snd e \<le> Seconds 5 \<and> fst e = spec"

lemma filter_indices: "length (filter P xs) = length (filter (\<lambda>i. P (xs ! i)) [0..<length xs])"
proof -
  have "length (filter P (map ((!) xs) [0..<length xs])) = length (filter (\<lambda>i. P (xs ! i)) [0..<length xs])"
    by (simp add: filter_map comp_def)
  then show ?thesis by (simp only: map_nth)
qed

definition auth_lengths_ok :: "shell_globals \<Rightarrow> bool" where
  "auth_lengths_ok g \<longleftrightarrow> length (g_recent_auth_urls g) = kRecentAuthSlots \<and>
     length (g_recent_auth_times g) = kRecentAuthSlots \<and> g_recent_auth_head g < kRecentAuthSlots"

lemma auth_lengths_ring_ok: "auth_lengths_ok g \<Longrightarrow> auth_ring.ring_ok g"
  by (simp add: auth_lengths_ok_def auth_ring.ring_ok_def auth_entries_def)

lemma auth_lengths_push: "auth_lengths_ok g \<Longrightarrow> auth_lengths_ok (push_auth e g)"
  using auth_ring.N_pos by (simp add: auth_lengths_ok_def push_auth_def record_auth_url_def)

lemma auth_lengths_fold: "auth_lengths_ok g \<Longrightarrow> auth_lengths_ok (fold push_auth es g)"
  by (induction es arbitrary: g) (simp_all add: auth_lengths_push)

lemma auth_lengths_initial: "auth_lengths_ok initial_globals"
  using auth_ring.N_pos by (simp add: auth_lengths_ok_def initial_globals_def)

lemma auth_repeats_entries:
  assumes "auth_lengths_ok g"
  shows "auth_repeats now spec g = length (filter (recent_hit now spec) (auth_entries g))"
proof -
  have "length (auth_entries g) = kRecentAuthSlots"
    using assms by (simp add: auth_lengths_ok_def auth_entries_def)
  then show ?thesis
    unfolding filter_indices [of "recent_hit now spec"] auth_repeats_def using assms
    by (auto simp: recent_hit_def auth_entries_def auth_lengths_ok_def is_null_def
        intro!: arg_cong [where f = length] filter_cong)
qed

lemma fold_auth_dump_selectors [simp]:
  "globals (fold (auth_dump_line g) is w) = globals w" "queries (fold (auth_dump_line g) is w) = queries w"
  "contents (fold (auth_dump_line g) is w) = contents w" "windows (fold (auth_dump_line g) is w) = windows w"
  "shells (fold (auth_dump_line g) is w) = shells w" "prefs (fold (auth_dump_line g) is w) = prefs w"
  "mem_cache (fold (auth_dump_line g) is w) = mem_cache w" "actions (fold (auth_dump_line g) is w) = actions w"
  "next_shell (fold (auth_dump_line g) is w) = next_shell w"
  by (induction "is" arbitrary: w) (simp_all add: auth_dump_line_def Let_def only_if_def)

lemma RecordAuth_selectors [simp]:
  "globals (RecordAuthUrlAndDetectLoop E u w) = push_auth (url_spec u, Now E w) (globals w)"
  "queries (RecordAuthUrlAndDetectLoop E u w) = queries w"
  "contents (RecordAuthUrlAndDetectLoop E u w) = contents w"
  "windows (RecordAuthUrlAndDetectLoop E u w) = windows w"
  "shells (RecordAuthUrlAndDetectLoop E u w) = shells w"
  "prefs (RecordAuthUrlAndDetectLoop E u w) = prefs w"
  "mem_cache (RecordAuthUrlAndDetectLoop E u w) = mem_cache w"
  "next_shell (RecordAuthUrlAndDetectLoop E u w) = next_shell w"
  "actions (RecordAuthUrlAndDetectLoop E u w) = actions w"
  by (simp_all add: RecordAuthUrlAndDetectLoop_def Let_def only_if_def push_auth_def)

definition visit_auth :: "browser_env \<times> gurl \<Rightarrow> world \<Rightarrow> world" where
  "visit_auth v = RecordAuthUrlAndDetectLoop (fst v) (snd v)"

lemma fold_visit_auth:
  "globals (fold visit_auth vs w) = fold push_auth (map (\<lambda>(E, u). (url_spec u, Now E w)) vs) (globals w) \<and>
   queries (fold visit_auth vs w) = queries w"
proof (induction vs arbitrary: w)
  case (Cons v vs)
  have "Now E (visit_auth v w) = Now E w" for E
    by (rule Now_cong) (simp add: visit_auth_def)
  with Cons.IH [of "visit_auth v w"] show ?case
    by (simp add: visit_auth_def case_prod_unfold)
qed simp

definition loop_suspected :: "browser_env \<Rightarrow> gurl \<Rightarrow> world \<Rightarrow> bool" where
  "loop_suspected E url w \<longleftrightarrow>
     3 \<le> auth_repeats (Now E w) (url_spec url) (push_auth (url_spec url, Now E w) (globals w))"

lemma loop_suspected_logged:
  "trace (RecordAuthUrlAndDetectLoop E url w) =
     trace w @ (if loop_suspected E url w
       then Log (BLINKER_DIAG ''AUTH_FLOW: redirect loop suspected'' []) #
            Log (BLINKER_DIAG ''AUTH_FLOW: repeated url=%s'' [LUrl (url_spec url)]) #
            Log (BLINKER_DIAG ''AUTH_FLOW: last 10 redirects='' []) #
            drop (Suc (Suc (Suc (length (trace w))))) (trace (RecordAuthUrlAndDetectLoop E url w))
       else [])"
proof -
  have "\<exists>ys. trace (fold (auth_dump_line g) is v) = trace v @ ys" for g "is" v
  proof (induction "is" arbitrary: v)
    case (Cons i "is")
    have "\<exists>ys. trace (auth_dump_line g i v) = trace v @ ys"
      by (simp add: auth_dump_line_def Let_def only_if_def)
    with Cons.IH [of "auth_dump_line g i v"] show ?case by auto
  qed simp
  from this [of "push_auth (url_spec url, Now E w) (globals w)" "[0..<kRecentAuthSlots]"
      "diag ''AUTH_FLOW: last 10 redirects='' []
        (diag ''AUTH_FLOW: repeated url=%s'' [LUrl (url_spec url)]
          (diag ''AUTH_FLOW: redirect loop suspected'' []
            (assign (record_auth_url (Now E w) (url_spec url)) w)))"]
  show ?thesis
    by (auto simp: RecordAuthUrlAndDetectLoop_def Let_def loop_suspected_def push_auth_def only_if_def)
qed

lemma auth_loop_history:
  assumes "globals w = initial_globals"
  shows "loop_suspected E url (fold visit_auth vs w) \<longleftrightarrow>
    3 \<le> length (filter (recent_hit (Now E w) (url_spec url))
          (drop (Suc (length vs) - 10) (map (\<lambda>(E, u). (url_spec u, Now E w)) vs @ [(url_spec url, Now E w)])))"
proof -
  let ?es = "map (\<lambda>(E, u). (url_spec u, Now E w)) vs @ [(url_spec url, Now E w)]"
  have n: "Now E (fold visit_auth vs w) = Now E w"
    by (rule Now_cong) (simp add: fold_visit_auth)
  have g: "push_auth (url_spec url, Now E w) (globals (fold visit_auth vs w)) = fold push_auth ?es initial_globals"
    using assms by (simp add: fold_visit_auth)
  have "\<forall>y \<in> set (auth_ring.view initial_globals). \<not> recent_hit (Now E w) (url_spec url) y"
    by (auto simp: auth_ring.view_def auth_entries_def initial_globals_def recent_hit_def set_zip)
  from auth_ring.count_last [OF auth_lengths_ring_ok [OF auth_lengths_initial] this, of ?es]
  show ?thesis
    unfolding loop_suspected_def n g
    unfolding auth_repeats_entries [OF auth_lengths_fold [OF auth_lengths_initial]]
    by (simp add: kRecentAuthSlots_def)
qed

text \<open>
  a redirect loop is reported exactly when the URL just visited occurs at least three
  times among the last ten authentication URLs within the last five seconds, counting this
  visit, whatever was visited before.
\<close>

lemma auth_loop_detected_iff:
  assumes "globals w = initial_globals"
  shows "loop_suspected E url (fold visit_auth vs w) \<longleftrightarrow>
    3 \<le> length (filter (recent_hit (Now E w) (url_spec url))
          (drop (Suc (length vs) - 10) (map (\<lambda>(E, u). (url_spec u, Now E w)) vs @ [(url_spec url, Now E w)])))"
  using assms by (rule auth_loop_history)

text \<open>
  in a private session the detector breaks the logging rule exactly when it fires: a
  suspected loop writes the repeated URL and the URLs of the ring as they are, otherwise
  nothing is logged.
\<close>

lemma auth_loop_log_breach:
  assumes "private_session E" and "private_trace w" and "url_spec url \<noteq> ''[private]''"
  shows "private_trace (RecordAuthUrlAndDetectLoop E url w) \<longleftrightarrow> \<not> loop_suspected E url w"
proof (cases "loop_suspected E url w")
  case True
  have "Log (BLINKER_DIAG ''AUTH_FLOW: repeated url=%s'' [LUrl (url_spec url)]) \<in>
      set (trace (RecordAuthUrlAndDetectLoop E url w))"
    by (subst loop_suspected_logged) (simp add: True)
  then show ?thesis
    using assms(3) True unfolding private_except_def list_all_iff by force
next
  case False
  then have "trace (RecordAuthUrlAndDetectLoop E url w) = trace w"
    by (subst loop_suspected_logged) simp
  then show ?thesis using assms(2) False by (simp add: private_except_def)
qed

subsection \<open>Chat keyboard hint\<close>

text \<open>
  the keyboard hint is on exactly for chat sites outside their sign-in pages, its ratio
  is 0.92 then and 0 otherwise, and a URL without a host, as seen in mid-navigation, leaves
  the previous answer in place.
\<close>

lemma keyboard_hint_exact:
  "globals (UpdateKeyboardChatFallback E url w) =
     (if url_host url = [] then globals w
      else (let chat = (HasTrait (url_host url) kChatKeyboard \<and>
                        \<not> (\<exists>p \<in> {''/auth'', ''/login'', ''/signin'', ''/sign-in''}. sublist p (url_path url)))
            in (globals w)\<lparr>g_is_chat_keyboard_relocation_site := chat,
                 g_keyboard_chat_fallback_ratio := if chat then 92 else 0\<rparr>)) \<and>
   actions (UpdateKeyboardChatFallback E url w) = actions w"
  by (simp add: UpdateKeyboardChatFallback_def Let_def only_if_def sv_contains_sublist
      kChatInputFallbackBottomRatio_def)

subsection \<open>Cookie diagnostics\<close>

definition cookie_under :: "string \<Rightarrow> CanonicalCookie \<Rightarrow> bool" where
  "cookie_under d c \<longleftrightarrow> label_suffix d (strip_leading_dot (cookie_domain c))"

lemma fold_count_cookie:
  "fold count_cookie cs (map (\<lambda>d. (d, f d)) ds) =
     map (\<lambda>d. (d, f d + length (filter (cookie_under d) cs))) ds"
proof (induction cs arbitrary: f)
  case (Cons c cs)
  have step: "count_cookie c (map (\<lambda>d. (d, f d)) ds) =
      map (\<lambda>d. (d, (if cookie_under d c then Suc (f d) else f d))) ds"
    by (auto simp: count_cookie_def Let_def cookie_under_def label_suffix_iff sv_ends_with_suffix suffix_def)
  show ?case unfolding fold_simps step Cons.IH by auto
qed simp

lemma fold_diag_trace:
  "trace (fold (\<lambda>x. diag f (h x)) xs w) = trace w @ map (\<lambda>x. Log (BLINKER_DIAG f (h x))) xs"
  by (induction xs arbitrary: w) simp_all

text \<open>
  the cookie report shows, for each of the four sign-in domains, the number of cookies
  set for it or a subdomain, never a name or value, and withholds the domains in a private
  session.
\<close>

lemma cookie_counts_exact:
  "trace (LogAuthCookieCounts E cookies w) = trace w @
     map (\<lambda>d. Log (BLINKER_DIAG ''AUTH_COOKIES: domain=%s count=%d''
           [LUrl (if private_session E then ''[private]'' else d),
            LNum (length (filter (cookie_under d) cookies))]))
       [''chatgpt.com'', ''auth.openai.com'', ''openai.com'', ''accounts.google.com''] @
     (if \<exists>c \<in> set cookies. IsPartitioned c
      then [Log (BLINKER_DIAG ''AUTH_COOKIES: partitioned cookie seen'' [])] else [])"
proof -
  have "fold count_cookie cookies (map (\<lambda>d. (d, 0)) auth_bucket_domains) =
      map (\<lambda>d. (d, length (filter (cookie_under d) cookies))) auth_bucket_domains"
    using fold_count_cookie [of cookies "\<lambda>_. 0" auth_bucket_domains] by simp
  then show ?thesis
    by (simp add: LogAuthCookieCounts_def Let_def case_prod_unfold fold_diag_trace host_arg_def
        LoggableHost_def auth_bucket_domains_def only_if_def list_ex_iff)
qed

subsection \<open>Instances\<close>

definition login_url :: gurl where
  "login_url = sample_url ''auth.openai.com'' ''/login''"

lemma three_logins:
  "loop_suspected (at_time (Seconds 3)) login_url
     (fold visit_auth [(at_time (Seconds 1), login_url), (at_time (Seconds 2), login_url)] initial_world)"
  by (subst auth_loop_history) (simp_all add: initial_world_def recent_hit_def Seconds_def)

lemma auth_loop_detected_iff_witness:
  "loop_suspected (at_time (Seconds 3)) login_url
     (fold visit_auth [(at_time (Seconds 1), login_url), (at_time (Seconds 2), login_url)] initial_world)"
  by (subst auth_loop_detected_iff) (simp_all add: initial_world_def recent_hit_def Seconds_def)

lemma auth_loop_log_breach_witness:
  "\<exists>w. private_trace w \<and>
     \<not> private_trace (RecordAuthUrlAndDetectLoop ((at_time (Seconds 3))\<lparr>private_session := True\<rparr>) login_url w)"
proof -
  let ?E = "(at_time (Seconds 3))\<lparr>private_session := True\<rparr>"
  let ?w = "initial_world\<lparr>globals := globals (fold visit_auth
      [(at_time (Seconds 1), login_url), (at_time (Seconds 2), login_url)] initial_world)\<rparr>"
  have "loop_suspected ?E login_url ?w"
    using three_logins
    by (simp add: loop_suspected_def Now_def now_sample_def at_time_def fold_visit_auth initial_world_def)
  moreover have "private_trace ?w" by (simp add: private_except_def initial_world_def)
  moreover have "url_spec login_url \<noteq> ''[private]''" by (simp add: login_url_def sample_url_def)
  ultimately show ?thesis
    using auth_loop_log_breach [of ?E ?w login_url] by auto
qed

end
