(* ===== verification/Shell_Windows.thy ===== *)
theory Shell_Windows
  imports Shell_Auth Browser_Client
begin

text \<open>
  The Shell objects of \<^verbatim>\<open>content/shell/browser/shell.cc\<close>: construction and destruction, the
  list of windows, creating and closing tabs, the authentication-popup trackers, and
  starting loads through the guards of \<open>Shell_Guards\<close>.
\<close>

subsection \<open>Window sizes\<close>

text \<open>
  \<^verbatim>\<open>sscanf(s, "%dx%d", ...)\<close>: optional white space and sign and at least one digit before the
  letter x and after it; \<open>None\<close> when fewer than two numbers are read.
\<close>

definition is_c_space :: "char \<Rightarrow> bool" where
  "is_c_space c \<longleftrightarrow> c \<in> {CHR '' '', CHR 0x09, CHR 0x0A, CHR 0x0B, CHR 0x0C, CHR 0x0D}"

definition digit_value :: "char \<Rightarrow> nat option" where
  "digit_value c = map_of (zip ''0123456789'' [0..<10]) c"

fun scan_digits :: "nat \<Rightarrow> string \<Rightarrow> nat \<times> string" where
  "scan_digits n [] = (n, [])"
| "scan_digits n (c # cs) =
     (case digit_value c of None \<Rightarrow> (n, c # cs) | Some d \<Rightarrow> scan_digits (10 * n + d) cs)"

definition scan_nat :: "string \<Rightarrow> (nat \<times> string) option" where
  "scan_nat s = (case s of [] \<Rightarrow> None | c # _ \<Rightarrow> if digit_value c = None then None else Some (scan_digits 0 s))"

definition scan_int :: "string \<Rightarrow> (int \<times> string) option" where
  "scan_int s =
     (case dropWhile is_c_space s of
        [] \<Rightarrow> None
      | c # cs \<Rightarrow>
          if c = CHR ''-'' then map_option (\<lambda>(n, r). (- int n, r)) (scan_nat cs)
          else if c = CHR ''+'' then map_option (\<lambda>(n, r). (int n, r)) (scan_nat cs)
          else map_option (\<lambda>(n, r). (int n, r)) (scan_nat (c # cs)))"

definition sscanf_dxd :: "string \<Rightarrow> (int \<times> int) option" where
  "sscanf_dxd s =
     (case scan_int s of
        Some (width, CHR ''x'' # r) \<Rightarrow>
          (case scan_int r of None \<Rightarrow> None | Some (height, _) \<Rightarrow> Some (width, height))
      | _ \<Rightarrow> None)"

definition kDefaultTestWindowWidthDip :: int where "kDefaultTestWindowWidthDip = 800"
definition kDefaultTestWindowHeightDip :: int where "kDefaultTestWindowHeightDip = 600"

text \<open>The invalid-size message goes to \<^verbatim>\<open>LOG(ERROR)\<close>, not to the boot log, and is left out.\<close>

definition GetShellDefaultSize :: "browser_env \<Rightarrow> world \<Rightarrow> window_size \<times> world" where
  "GetShellDefaultSize E w =
     (if \<not> size_is_empty E (default_shell_size w) then (default_shell_size w, w)
      else
        (let sz = (case switch_value E ''content-shell-host-window-size'' of
                     None \<Rightarrow> default_shell_size w
                   | Some size_str \<Rightarrow>
                       (case sscanf_dxd size_str of
                          Some (width, height) \<Rightarrow> gfx_size E width height
                        | None \<Rightarrow> default_shell_size w));
             sz = (if size_is_empty E sz
                   then gfx_size E kDefaultTestWindowWidthDip kDefaultTestWindowHeightDip else sz)
         in (sz, w\<lparr>default_shell_size := sz\<rparr>)))"

definition AdjustWindowSize :: "browser_env \<Rightarrow> window_size \<Rightarrow> world \<Rightarrow> window_size \<times> world" where
  "AdjustWindowSize E initial_size =
     (if \<not> size_is_empty E initial_size then ret initial_size else GetShellDefaultSize E)"

subsection \<open>Construction and destruction\<close>

definition new_shell :: "contents_id \<Rightarrow> shell" where
  "new_shell c =
     \<lparr>shell_web_contents = Some c, devtools_frontend = False, is_fullscreen = False,
      delay_popup_contents_delegate_for_testing = False, hold_file_chooser = False,
      held_file_chooser_listener = None, run_file_chooser_count = 0\<rparr>"

definition alloc_shell :: "contents_id \<Rightarrow> world \<Rightarrow> shell_id \<times> world" where
  "alloc_shell c w =
     (next_shell w, w\<lparr>next_shell := Suc (next_shell w), shells := (shells w)(next_shell w \<mapsto> new_shell c)\<rparr>)"

definition run_created_callback :: "browser_env \<Rightarrow> shell_id \<Rightarrow> world \<Rightarrow> world" where
  "run_created_callback E s w =
     (if shell_created_callback w
      then emit E (RunShellCreatedCallback s) (w\<lparr>shell_created_callback := False\<rparr>) else w)"

definition Shell_ctor :: "browser_env \<Rightarrow> contents_id \<Rightarrow> bool \<Rightarrow> world \<Rightarrow> shell_id \<times> world" where
  "Shell_ctor E c should_set_delegate =
     bindw (alloc_shell c) (\<lambda>s.
     after [only_if should_set_delegate (emit E (Page (SetDelegate c (Some s)))),
     only_if (\<not> IsRunWebTestsSwitchPresent E) (emit E (Page (SetRendererPrefs c SystemFontPrefs))),
     reading (\<lambda>w. GetShellLanguage (prefs w)) (\<lambda>lang.
       emit E (Page (SetRendererPrefs c (accept_languages lang)))),
     (\<lambda>w. w\<lparr>windows := windows w @ [s]\<rparr>),
     run_created_callback E s]
     (ret s))"

text \<open>Clearing the authentication-popup trackers when the shell that owns \<open>c\<close> dies.\<close>

definition clear_auth_trackers :: "contents_id option \<Rightarrow> shell_globals \<Rightarrow> shell_globals" where
  "clear_auth_trackers c g =
     (let g = (if c = g_auth_popup_contents g
               then g\<lparr>g_auth_popup_contents := None, g_auth_popup_opener := None\<rparr> else g)
      in if c = g_auth_popup_opener g then g\<lparr>g_auth_popup_opener := None\<rparr> else g)"

definition free_contents :: "contents_id option \<Rightarrow> world \<Rightarrow> world" where
  "free_contents c w = (case c of None \<Rightarrow> w | Some i \<Rightarrow> w\<lparr>contents := (contents w)(i := None)\<rparr>)"

definition Shell_dtor :: "browser_env \<Rightarrow> shell_id \<Rightarrow> world \<Rightarrow> world" where
  "Shell_dtor E s =
     seq [emit E (Platform (PlatformCleanUp s)),
     (\<lambda>w. w\<lparr>windows := remove1 s (windows w)\<rparr>),
     reading (\<lambda>w. Option.bind (shells w s) shell_web_contents) (\<lambda>c.
       seq [assign (clear_auth_trackers c),
       (case c of None \<Rightarrow> id | Some i \<Rightarrow> emit E (Page (SetDelegate i None))),
       free_contents c]),
     (\<lambda>w. w\<lparr>shells := (shells w)(s := None)\<rparr>),
     reading windows (\<lambda>ws. only_if (ws = []) (emit E (Platform DidCloseLastWindow)))]"

definition CreateShell ::
  "browser_env \<Rightarrow> contents_id \<Rightarrow> window_size \<Rightarrow> bool \<Rightarrow> world \<Rightarrow> shell_id \<times> world" where
  "CreateShell E c initial_size should_set_delegate =
     bindw (Shell_ctor E c should_set_delegate) (\<lambda>s.
     after [emit E (Platform (CreatePlatformWindow s initial_size)),
     only_if (IsRunWebTestsSwitchPresent E)
       (seq [emit E (Page (SetRendererPrefs c (use_custom_colors False))),
        emit E (Page (SyncRendererPrefs c))]),
     (case switch_value E ''force-webrtc-ip-handling-policy'' of
        None \<Rightarrow> id
      | Some p \<Rightarrow> emit E (Page (SetRendererPrefs c (webrtc_ip_handling_policy p)))),
     emit E (Platform (PlatformSetContents s)),
     emit E (Platform (DidCreateOrAttachWebContents s c)),
     reading (\<lambda>w. contents w c) (\<lambda>tab.
       only_if (map_option primary_main_frame tab = Some (Some True))
         (emit E (Platform (MainFrameCreated s c))))]
     (ret s))"

text \<open>
  \<^verbatim>\<open>Close\<close>: the iOS delegate's \<^verbatim>\<open>DestroyShell\<close> resigns the key window and answers false, so the
  shell always deletes itself.
\<close>

definition DestroyShell :: "browser_env \<Rightarrow> shell_id \<Rightarrow> world \<Rightarrow> bool \<times> world" where
  "DestroyShell E s = after [emit E (Platform (ResignKeyWindow s))] (ret False)"

definition Close :: "browser_env \<Rightarrow> shell_id \<Rightarrow> world \<Rightarrow> world" where
  "Close E s = bindw (DestroyShell E s) (\<lambda>destroyed. if destroyed then id else Shell_dtor E s)"

lemma windows_Shell_dtor [simp]: "windows (Shell_dtor E s w) = remove1 s (windows w)"
  by (simp add: Shell_dtor_def reading_def only_if_def free_contents_def split: option.splits)

lemma windows_Close [simp]: "windows (Close E s w) = remove1 s (windows w)"
  by (simp add: Close_def DestroyShell_def ret_def)

text \<open>\<^verbatim>\<open>while (!windows().empty()) windows().back()->Close()\<close>.\<close>

function close_all :: "browser_env \<Rightarrow> world \<Rightarrow> world" where
  "close_all E w = (if windows w = [] then w else close_all E (Close E (last (windows w)) w))"
  by pat_completeness auto
termination
  by (relation "measure (\<lambda>(E, w). length (windows w))")
    (auto simp: length_remove1 last_in_set intro: diff_Suc_less)

declare close_all.simps [simp del]

definition Shutdown :: "browser_env \<Rightarrow> world \<Rightarrow> world" where
  "Shutdown E w =
     (if \<not> has_platform w then w
      else
        (seq [emit E DetachAllClients,
         close_all E,
         emit E DeletePlatform,
         (\<lambda>w. w\<lparr>has_platform := False\<rparr>),
         reading (\<lambda>w. CountRendererProcesses E w) (\<lambda>n. emit E DisableRefCounts ^^ n),
         reading quit_closure (\<lambda>q.
           only_if q (\<lambda>w. emit E RunQuitClosure (w\<lparr>quit_closure := False\<rparr>)))]) w)"

definition Initialize :: "browser_env \<Rightarrow> world \<Rightarrow> world" where
  "Initialize E =
     seq [(\<lambda>w. w\<lparr>has_platform := True\<rparr>),
     (bindw (GetShellDefaultSize E) (\<lambda>sz. emit E (Platform (PlatformInitialize sz))))]"

definition SetMainMessageLoopQuitClosure :: "bool \<Rightarrow> world \<Rightarrow> world" where
  "SetMainMessageLoopQuitClosure q w = w\<lparr>quit_closure := q\<rparr>"

definition QuitMainMessageLoopForTesting :: "browser_env \<Rightarrow> world \<Rightarrow> world" where
  "QuitMainMessageLoopForTesting E w =
     (if quit_closure w then emit E RunQuitClosure (w\<lparr>quit_closure := False\<rparr>) else w)"

definition SetShellCreatedCallback :: "world \<Rightarrow> world" where
  "SetShellCreatedCallback w = w\<lparr>shell_created_callback := True\<rparr>"

definition ShouldHideToolbar :: "browser_env \<Rightarrow> bool" where
  "ShouldHideToolbar E \<longleftrightarrow> switch_value E ''content-shell-hide-toolbar'' \<noteq> None"

definition FromWebContents :: "world \<Rightarrow> contents_id \<Rightarrow> shell_id option" where
  "FromWebContents w c =
     find (\<lambda>s. Option.bind (shells w s) shell_web_contents = Some c) (windows w)"

subsection \<open>Loading\<close>

text \<open>\<^verbatim>\<open>LoadURLWithParams\<close> on the shell's WebContents.\<close>

definition load_with_params :: "browser_env \<Rightarrow> contents_id option \<Rightarrow> LoadURLParams \<Rightarrow> world \<Rightarrow> world" where
  "load_with_params E c params =
     (case c of None \<Rightarrow> id | Some i \<Rightarrow> emit E (Page (LoadURLWithParams i params)))"

definition url_params :: "gurl \<Rightarrow> string \<Rightarrow> transition \<Rightarrow> LoadURLParams" where
  "url_params url frame transition =
     \<lparr>load_url = url, frame_name = frame, transition_type = transition, load_data = None\<rparr>"

text \<open>
  The test whether a tab that is loading is already on its way to \<open>url\<close>: \<open>Some True\<close> to ignore
  the request, \<open>Some False\<close> to stop the load in flight first, \<open>None\<close> when nothing is loading.
\<close>

definition in_flight :: "web_contents option \<Rightarrow> gurl \<Rightarrow> bool option" where
  "in_flight tab url =
     (case tab of
        None \<Rightarrow> None
      | Some wc \<Rightarrow>
          if \<not> IsLoading wc then None
          else Some (case pending_entry wc of None \<Rightarrow> False | Some p \<Rightarrow> url_spec p = url_spec url))"

text \<open>The guards in front of a load; the answer is whether it is blocked.\<close>

definition load_guards :: "browser_env \<Rightarrow> gurl \<Rightarrow> gurl \<Rightarrow> bool \<Rightarrow> world \<Rightarrow> bool \<times> world" where
  "load_guards E url current_url top_level =
     (if IsAuthFlowURL url then
        after [diag ''AUTH_FLOW: guard purge-only'' [],
        (bindw (GetBlinkMemoryStats E) (\<lambda>astats.
         bindw (threshold CriticalFootprint E) (\<lambda>critical.
         only_if (phys_footprint astats \<ge> critical)
           (emit E (NotifyMemoryPressure MEMORY_PRESSURE_LEVEL_CRITICAL))))),
        diag ''AUTH_FLOW: redirect allowed'' []]
        (ret False)
      else
        after [RunSiteSwitchCleanupIfNeeded E url current_url top_level]
        (bindw (ApplyDirectAllocationDangerGuard E url top_level) (\<lambda>blocked.
         if blocked then ret True
         else ApplyGlobalMemoryGuard E url current_url ''before load'' top_level)))"

text \<open>
  The load itself, once the guards let it through: a tab already on its way to the URL is left
  alone, any other load in flight is stopped first.
\<close>

definition start_load ::
  "browser_env \<Rightarrow> contents_id option \<Rightarrow> gurl \<Rightarrow> gurl \<Rightarrow> string \<Rightarrow> transition \<Rightarrow> world \<Rightarrow> world" where
  "start_load E c url current_url frame transition =
     reading (\<lambda>w. in_flight (deref w c) url) (\<lambda>flight.
     if flight = Some True then id
     else
       seq [(case c of None \<Rightarrow> id | Some i \<Rightarrow> only_if (flight = Some False) (emit E (Page (Stop i)))),
            load_with_params E c (url_params url frame transition),
            BlinkLogMemoryPressurePoint E
              (if IsRedditURL url then ''after reddit.com load request'' else ''after page load request'')
              (Some url),
            bindw (ApplyGlobalMemoryGuard E url current_url ''after load request'' False) (\<lambda>_. id)])"

definition LoadURLForFrame ::
  "browser_env \<Rightarrow> shell_id \<Rightarrow> gurl \<Rightarrow> string \<Rightarrow> transition \<Rightarrow> world \<Rightarrow> world" where
  "LoadURLForFrame E s url frame transition =
     reading (shell_contents s) (\<lambda>c.
     seq [ApplyLegacyGoogleAuthIdentity E c url,
     reading (\<lambda>w. case deref w c of None \<Rightarrow> empty_gurl | Some wc \<Rightarrow> GetVisibleURL wc) (\<lambda>current_url.
     let top_level = (frame = []) in
     seq [BlinkLogMemoryPressurePoint E
       (if IsRedditURL url then ''before reddit.com load'' else ''before page load'') (Some url),
     bindw (load_guards E url current_url top_level) (\<lambda>blocked.
      if blocked then id
      else
        seq [ApplyGitHubRepoGuard E url,
        LogCrashBreadcrumb E c
          (Some (if IsGitHubRepoPage E url then ''repo page load''
                 else if IsAISiteURL url then ''ai site navigation'' else ''navigation'')),
        start_load E c url current_url frame transition])])])"

definition LoadURL :: "browser_env \<Rightarrow> shell_id \<Rightarrow> gurl \<Rightarrow> world \<Rightarrow> world" where
  "LoadURL E s url = LoadURLForFrame E s url [] PAGE_TRANSITION_TYPED_FROM_ADDRESS_BAR"

definition LoadDataWithBaseURLInternal ::
  "browser_env \<Rightarrow> shell_id \<Rightarrow> gurl \<Rightarrow> string \<Rightarrow> gurl \<Rightarrow> world \<Rightarrow> world" where
  "LoadDataWithBaseURLInternal E s url data base_url =
     reading (shell_contents s) (\<lambda>c.
       let text = ''data:text/html;charset=utf-8,'' @ data in
       load_with_params E c
         \<lparr>load_url = make_url E text, frame_name = [], transition_type = PAGE_TRANSITION_LINK,
          load_data = Some (text, base_url, url)\<rparr>)"

definition LoadDataWithBaseURL ::
  "browser_env \<Rightarrow> shell_id \<Rightarrow> gurl \<Rightarrow> string \<Rightarrow> gurl \<Rightarrow> world \<Rightarrow> world" where
  "LoadDataWithBaseURL E s url data base_url = LoadDataWithBaseURLInternal E s url data base_url"

definition oom_guard_html :: string where
  "oom_guard_html =
     ''%3Chtml%3E%3Cbody%3E%3Ch2%3ELow%20memory%20protection%3C%2Fh2%3E'' @
     ''%3Cp%3EBlinker%20Fluid%20blocked%20this%20navigation%20before%20a%20'' @
     ''large%20allocation%20could%20crash%20the%20app.%3C%2Fp%3E%3C%2Fbody%3E'' @ ''%3C%2Fhtml%3E''"

definition ShowOOMGuardPage :: "browser_env \<Rightarrow> world \<Rightarrow> world" where
  "ShowOOMGuardPage E w =
     (case windows w of
        [] \<Rightarrow> w
      | s # _ \<Rightarrow>
          LoadDataWithBaseURL E s (make_url E ''about:blank'') oom_guard_html (make_url E ''about:blank'') w)"

definition chatgpt_profile :: "int \<Rightarrow> string \<times> string" where
  "chatgpt_profile p =
     (if p = 1 then (''desktop'', kChatGPTDesktopUA)
      else if p = 2 then (''mobile-safari'', kChatGPTIPhoneSafariUA)
      else (''chromium-mobile'', []))"

definition BreakChatGPTMwebLoop :: "browser_env \<Rightarrow> gurl \<Rightarrow> world \<Rightarrow> world" where
  "BreakChatGPTMwebLoop E stripped_url =
     reading (\<lambda>w. (windows w, front_contents w, g_chatgpt_auth_profile (globals w))) (\<lambda>(ws, c, p).
       case (ws, c) of
         (s # _, Some i) \<Rightarrow>
           (let (profile, ua) = chatgpt_profile p in
            seq [diag ''AUTH_FLOW: chatgpt auth profile=%s'' [LText profile],
            only_if (ua \<noteq> [])
              (emit E (Page (SetUserAgentOverride i
                 \<lparr>ua_string_override = ua, ua_metadata_override = None\<rparr> True))),
            diag ''AUTH_FLOW: mweb loop stopped safely'' [],
            emit E (Page (Stop i)),
            (if url_is_valid stripped_url then
               seq [diag ''AUTH_FLOW: attempting direct provider fallback'' [],
               diag ''AUTH_FLOW: direct provider url=%s'' [url_arg E stripped_url],
               diag ''AUTH_FLOW: retrying without mweb_fallback'' [],
               diag ''AUTH_FLOW: stripped mweb_fallback'' [],
               LoadURL E s stripped_url]
             else diag ''AUTH_FLOW: no provider url found'' [])])
       | _ \<Rightarrow> id)"

text \<open>Running a task from the queue.\<close>

definition run_task :: "browser_env \<Rightarrow> task \<Rightarrow> world \<Rightarrow> world" where
  "run_task E t =
     (case t of
        ShowOOMGuardPage_task \<Rightarrow> ShowOOMGuardPage E
      | BreakChatGPTMwebLoop_task u \<Rightarrow> BreakChatGPTMwebLoop E u
      | StopFrontShellLoad_task \<Rightarrow> StopFrontShellLoad E)"

subsection \<open>New windows and closing\<close>

text \<open>\<open>created\<close> and \<open>tab\<close> are what \<^verbatim>\<open>WebContents::Create\<close> returns.\<close>

definition CreateNewWindow ::
  "browser_env \<Rightarrow> gurl \<Rightarrow> contents_id \<Rightarrow> web_contents \<Rightarrow> window_size \<Rightarrow> world \<Rightarrow>
     shell_id option \<times> world" where
  "CreateNewWindow E url created tab initial_size =
     after [reading windows (\<lambda>ws. case ws of [] \<Rightarrow> id | s # _ \<Rightarrow> BlinkDiscardBackgroundTabs E (Some s)),
     diag ''TAB_MANAGER: new tab created via CreateNewWindow'' []]
     (bindw (ShouldBlockNewWebContents E ''CreateNewWindow'' url) (\<lambda>blocked.
      if blocked then after [diag ''TAB_MANAGER: new tab blocked (extreme memory)'' []] (ret None)
      else
        after [(\<lambda>w. w\<lparr>contents := (contents w)(created \<mapsto> tab)\<rparr>)]
        (bindw (AdjustWindowSize E initial_size) (\<lambda>sz.
         bindw (CreateShell E created sz True) (\<lambda>s.
         after [only_if (\<not> url_is_empty url) (LoadURL E s url)] (ret (Some s)))))))"

datatype WindowOpenDisposition =
    CURRENT_TAB | SINGLETON_TAB | NEW_FOREGROUND_TAB | NEW_BACKGROUND_TAB | NEW_POPUP | NEW_WINDOW
  | SAVE_TO_DISK | OFF_THE_RECORD | IGNORE_ACTION | SWITCH_TO_TAB | NEW_PICTURE_IN_PICTURE

definition is_google_auth_popup :: "world \<Rightarrow> contents_id option \<Rightarrow> gurl \<Rightarrow> bool" where
  "is_google_auth_popup w source target_url \<longleftrightarrow>
     IsGoogleAuthPopupRequest w target_url \<or> url_host target_url = ''accounts.google.com'' \<or>
     IsClaudeGoogleAuthPopup (deref w source) target_url"

text \<open>
  \<open>AddNewContents\<close> on the shell \<open>this\<close>: the WebContents returned and whether \<^verbatim>\<open>*was_blocked\<close> was set.
  A refused popup is destroyed with the \<^verbatim>\<open>unique_ptr\<close> that owns it.
\<close>

definition AddNewContents ::
  "browser_env \<Rightarrow> shell_id \<Rightarrow> contents_id option \<Rightarrow> contents_id \<Rightarrow> gurl \<Rightarrow> WindowOpenDisposition \<Rightarrow>
     window_size \<Rightarrow> world \<Rightarrow> (contents_id option \<times> bool) \<times> world" where
  "AddNewContents E this source new_contents target_url disposition bounds =
     reading (\<lambda>w. is_google_auth_popup w source target_url) (\<lambda>auth_popup.
     if auth_popup then
       after [diag ''AUTH_POPUP_GUARD: detected google auth popup'' [],
       diag ''CLAUDE_AUTH: google button clicked'' [],
       diag ''AUTH_POPUP_GUARD: keeping popup as real window'' [],
       assign (\<lambda>g. g\<lparr>g_auth_popup_contents := Some new_contents, g_auth_popup_opener := source\<rparr>)]
       (bindw (AdjustWindowSize E bounds) (\<lambda>sz.
        bindw (CreateShell E new_contents sz True) (\<lambda>s.
        after [emit E (Platform (ShowShellWindow s True)),
        diag ''AUTH_POPUP_GUARD: allowed accounts.google.com navigation'' []]
        (ret (Some new_contents, False)))))
     else
       bindw (ShouldBlockNewWebContents E ''AddNewContents'' target_url) (\<lambda>blocked.
       if blocked then after [free_contents (Some new_contents)] (ret (None, True))
       else
         after [(case source of
            None \<Rightarrow> id
          | Some src \<Rightarrow> only_if (disposition = NEW_PICTURE_IN_PICTURE)
                          (emit E (Page (SetChildWebContents src new_contents))))]
         (reading (\<lambda>w. map_option delay_popup_contents_delegate_for_testing (shells w this) = Some True) (\<lambda>delay.
         bindw (AdjustWindowSize E bounds) (\<lambda>sz.
         bindw (CreateShell E new_contents sz (\<not> delay)) (\<lambda>s.
         after [emit E (Platform (ShowShellWindow s (disposition \<noteq> NEW_BACKGROUND_TAB)))]
         (ret (Some new_contents, False))))))))"

text \<open>
  \<^verbatim>\<open>BlinkShellWillCloseReactivate\<close> of the iOS delegate: when the closing shell owns the key window,
  another one is made key first, the preferred opener's when it has one.
\<close>

definition BlinkShellWillCloseReactivate ::
  "browser_env \<Rightarrow> shell_id \<Rightarrow> contents_id option \<Rightarrow> world \<Rightarrow> world" where
  "BlinkShellWillCloseReactivate E closing preferred_opener w =
     (if key_window (now_sample E w) \<noteq> Some closing then w
      else
        (let preferred = (case preferred_opener of
                            None \<Rightarrow> None
                          | Some o' \<Rightarrow> find (\<lambda>s. s \<noteq> closing \<and> shell_contents s w = Some o') (windows w));
             replacement = (case preferred of
                              Some s \<Rightarrow> Some s
                            | None \<Rightarrow> find (\<lambda>s. s \<noteq> closing) (windows w)) in
         case replacement of
           None \<Rightarrow> w
         | Some s \<Rightarrow>
             (seq [emit E (Platform (MakeKeyAndVisible s)),
              diag ''AUTH_POPUP_GUARD: reactivated previous window after close'' []]) w))"

definition CloseContents :: "browser_env \<Rightarrow> shell_id \<Rightarrow> contents_id option \<Rightarrow> world \<Rightarrow> world" where
  "CloseContents E this source =
     seq [diag ''AUTH_POPUP_GUARD: script window close'' [],
     reading (\<lambda>w. g_auth_popup_opener (globals w)) (BlinkShellWillCloseReactivate E this),
     reading (\<lambda>w. g_auth_popup_contents (globals w)) (\<lambda>popup.
       only_if (source = popup)
         (assign (\<lambda>g. g\<lparr>g_auth_popup_contents := None, g_auth_popup_opener := None\<rparr>))),
     Close E this]"

record OpenURLParams =
  open_url :: gurl
  open_disposition :: WindowOpenDisposition
  open_transition :: transition

definition opens_in_source :: "WindowOpenDisposition \<Rightarrow> bool" where
  "opens_in_source d \<longleftrightarrow>
     d \<in> {CURRENT_TAB, NEW_POPUP, NEW_WINDOW, NEW_BACKGROUND_TAB, NEW_FOREGROUND_TAB}"

text \<open>
  \<open>has_callback\<close>: a navigation-handle callback was passed; \<open>handle\<close>: \<^verbatim>\<open>LoadURLWithParams\<close> returned a
  live handle.
\<close>

definition OpenURLFromTab ::
  "browser_env \<Rightarrow> contents_id \<Rightarrow> OpenURLParams \<Rightarrow> bool \<Rightarrow> bool \<Rightarrow> world \<Rightarrow> contents_id option \<times> world" where
  "OpenURLFromTab E source params has_callback handle =
     (let d = open_disposition params in
      if \<not> opens_in_source d then ret None
      else
        after [only_if (d \<noteq> CURRENT_TAB)
          (diag ''WEB_CONTENTS_GUARD: target=_blank using existing WebContents'' [])]
        (reading (\<lambda>w. if d = CURRENT_TAB then in_flight (contents w source) (open_url params) else None)
          (\<lambda>flight.
           if flight = Some True then ret (Some source)
           else
             after [only_if (flight = Some False) (emit E (Page (Stop source))),
             emit E (Page (LoadURLWithParams source
               (url_params (open_url params) [] (open_transition params)))),
             only_if (has_callback \<and> handle) (emit E (Page (RunNavigationHandleCallback source)))]
             (ret (Some source)))))"

text \<open>
  \<^verbatim>\<open>ShellContentBrowserClient::OpenURL\<close> follows the pointer \<^verbatim>\<open>CreateNewWindow\<close> returns without a
  null check; \<open>Inl\<close> is the null dereference.
\<close>

datatype crash = NullDereference

definition OpenURL ::
  "browser_env \<Rightarrow> gurl \<Rightarrow> contents_id \<Rightarrow> web_contents \<Rightarrow> world \<Rightarrow>
     (crash + contents_id option) \<times> world" where
  "OpenURL E url created tab =
     bindw (CreateNewWindow E url created tab (gfx_size E 0 0)) (\<lambda>s.
     case s of
       None \<Rightarrow> ret (Inl NullDereference)
     | Some s' \<Rightarrow> reading (shell_contents s') (\<lambda>c. ret (Inr c)))"

end
