(* ===== verification/Shell_Navigation.thy ===== *)
theory Shell_Navigation
  imports Shell_Windows Extensions
begin

text \<open>
  The event handlers of \<^verbatim>\<open>content/shell/browser/shell.cc\<close>: loading-state changes, the three
  navigation observers with the authentication-flow lock and the ChatGPT redirect breaker,
  toolbar operations, fullscreen, protocol handlers and file choosers.
\<close>

subsection \<open>Toolbar operations\<close>

definition on_contents :: "shell_id \<Rightarrow> (contents_id \<Rightarrow> world \<Rightarrow> world) \<Rightarrow> world \<Rightarrow> world" where
  "on_contents s f = reading (shell_contents s) (\<lambda>c. case c of None \<Rightarrow> id | Some i \<Rightarrow> f i)"

definition GoBackOrForward :: "browser_env \<Rightarrow> shell_id \<Rightarrow> int \<Rightarrow> world \<Rightarrow> world" where
  "GoBackOrForward E s offset = on_contents s (\<lambda>c. emit E (Page (GoToOffset c offset)))"

definition Reload :: "browser_env \<Rightarrow> shell_id \<Rightarrow> world \<Rightarrow> world" where
  "Reload E s = on_contents s (\<lambda>c. emit E (Page (ReloadContents c False)))"

definition ReloadBypassingCache :: "browser_env \<Rightarrow> shell_id \<Rightarrow> world \<Rightarrow> world" where
  "ReloadBypassingCache E s = on_contents s (\<lambda>c. emit E (Page (ReloadContents c True)))"

definition Shell_Stop :: "browser_env \<Rightarrow> shell_id \<Rightarrow> world \<Rightarrow> world" where
  "Shell_Stop E s = on_contents s (\<lambda>c. emit E (Page (Stop c)))"

definition UpdateNavigationControls :: "browser_env \<Rightarrow> shell_id \<Rightarrow> bool \<Rightarrow> world \<Rightarrow> world" where
  "UpdateNavigationControls E s should_show_loading_ui =
     reading (\<lambda>w. deref w (shell_contents s w)) (\<lambda>tab. case tab of
        None \<Rightarrow> id
      | Some wc \<Rightarrow>
          (let current_index = GetCurrentEntryIndex wc; max_index = GetEntryCount wc - 1 in
           seq [emit E (Platform (EnableUIControl s BACK_BUTTON (current_index > 0))),
           emit E (Platform (EnableUIControl s FORWARD_BUTTON (current_index < max_index))),
           emit E (Platform (EnableUIControl s STOP_BUTTON (should_show_loading_ui \<and> IsLoading wc)))]))"

definition update_shell :: "shell_id \<Rightarrow> (shell \<Rightarrow> shell) \<Rightarrow> world \<Rightarrow> world" where
  "update_shell s f w = w\<lparr>shells := (shells w)(s := map_option f (shells w s))\<rparr>"

definition ShowDevTools :: "browser_env \<Rightarrow> shell_id \<Rightarrow> world \<Rightarrow> world" where
  "ShowDevTools E s =
     seq [reading (\<lambda>w. map_option devtools_frontend (shells w s) = Some True) (\<lambda>shown.
       only_if (\<not> shown)
         (seq [emit E (Platform (ShowDevToolsFrontend s)), update_shell s (devtools_frontend_update (\<lambda>_. True))])),
     emit E (Platform (ActivateDevToolsFrontend s))]"

definition CloseDevTools :: "browser_env \<Rightarrow> shell_id \<Rightarrow> world \<Rightarrow> world" where
  "CloseDevTools E s =
     reading (\<lambda>w. map_option devtools_frontend (shells w s) = Some True) (\<lambda>shown.
       only_if shown
         (seq [emit E (Platform (CloseDevToolsFrontend s)), update_shell s (devtools_frontend_update (\<lambda>_. False))]))"

subsection \<open>Loading state\<close>

text \<open>\<^verbatim>\<open>source->IsLoading()\<close>, read anew at every use.\<close>

definition source_loading :: "contents_id \<Rightarrow> world \<Rightarrow> bool" where
  "source_loading c w \<longleftrightarrow> map_option IsLoading (contents w c) = Some True"

definition LoadingStateChanged :: "browser_env \<Rightarrow> shell_id \<Rightarrow> contents_id \<Rightarrow> bool \<Rightarrow> world \<Rightarrow> world" where
  "LoadingStateChanged E s source should_show_loading_ui =
     reading (\<lambda>w. contents w source) (\<lambda>tab. case tab of
        None \<Rightarrow> id
      | Some wc \<Rightarrow>
          (let url = committed_or_visible wc in
           seq [UpdateKeyboardChatFallback E url,
           reading (source_loading source) (\<lambda>loading.
             BlinkLogMemoryPressurePoint E (if loading then ''page load started'' else ''page load stopped'')
               (Some url)),
           reading (source_loading source) (\<lambda>loading.
             bindw (ApplyGlobalMemoryGuard E url url
               (if loading then ''loading state active'' else ''loading state stopped'') False) (\<lambda>_. id)),
           reading (source_loading source) (\<lambda>loading.
             if loading then
               seq [RecordLoadStart E,
               assign (\<lambda>g. g\<lparr>g_ai_guard_logged_for_page := False, g_last_heavy_heartbeat_footprint := 0\<rparr>),
               LogCrashBreadcrumb E (Some source) (Some ''load started'')]
             else
               seq [LogCrashBreadcrumb E (Some source) (Some ''load committed''),
               StartHeavyHeartbeatIfNeeded url]),
           UpdateNavigationControls E s should_show_loading_ui,
           reading (source_loading source) (\<lambda>loading. emit E (Platform (SetIsLoading s loading)))]))"

definition BlinkShellIsInAuthFlow :: "world \<Rightarrow> bool" where
  "BlinkShellIsInAuthFlow w = g_in_auth_flow (globals w)"

definition BlinkKeyboardChatFallbackRatio :: "world \<Rightarrow> int" where
  "BlinkKeyboardChatFallbackRatio w = g_keyboard_chat_fallback_ratio (globals w)"

definition BlinkIsChatKeyboardRelocationSite :: "world \<Rightarrow> int" where
  "BlinkIsChatKeyboardRelocationSite w =
     (if g_is_chat_keyboard_relocation_site (globals w) then 1 else 0)"

subsection \<open>Navigation observers\<close>

record NavigationHandle =
  IsInPrimaryMainFrame :: bool
  GetURL :: gurl
  IsPost :: bool
  initiator :: "(string \<times> string) option"  \<comment> \<open>\<^verbatim>\<open>GetInitiatorOrigin\<close>: its \<^verbatim>\<open>Serialize()\<close> and \<^verbatim>\<open>host()\<close>\<close>
  GetRedirectChain :: "gurl list"
  HasCommitted :: bool
  IsErrorPage :: bool
  too_many_redirects :: bool

definition DidStartNavigation :: "browser_env \<Rightarrow> NavigationHandle \<Rightarrow> world \<Rightarrow> world" where
  "DidStartNavigation E h =
     (let url = GetURL h in
      if \<not> IsInPrimaryMainFrame h then id
      else if \<not> IsAuthFlowURL url then id
      else
        (let third_party = (case initiator h of None \<Rightarrow> False | Some (_, ihost) \<Rightarrow> ihost \<noteq> url_host url) in
         seq [assign (g_in_auth_flow_update (\<lambda>_. True)),
         diag ''AUTH_FLOW: navigation url=%s'' [url_arg E url],
         diag ''AUTH_FLOW: method=%s'' [LText (if IsPost h then ''POST'' else ''GET'')],
         diag ''AUTH_FLOW: top_frame=%d'' [bool_arg (IsInPrimaryMainFrame h)],
         diag ''AUTH_FLOW: initiator_origin=%s''
           [host_arg E (case initiator h of None \<Rightarrow> ''(none)'' | Some (ser, _) \<Rightarrow> ser)],
         diag ''AUTH_FLOW: same_site=%d'' [bool_arg (\<not> third_party)],
         diag ''AUTH_FLOW: third_party_context=%d'' [bool_arg third_party],
         diag ''AUTH_FLOW: site mode locked during auth'' [],
         diag ''AUTH_FLOW: user agent stable during auth'' [],
         RecordAuthUrlAndDetectLoop E url]))"

text \<open>Recovering from the login_with/mweb_fallback redirect cycle.\<close>

definition mweb_breaker :: "browser_env \<Rightarrow> gurl \<Rightarrow> nat \<Rightarrow> world \<Rightarrow> world" where
  "mweb_breaker E url hops =
     seq [reading (\<lambda>w. g_chatgpt_mweb_logged (globals w)) (\<lambda>logged.
       only_if (\<not> logged)
         (seq [assign (g_chatgpt_mweb_logged_update (\<lambda>_. True)),
          diag ''AUTH_FLOW: mweb_fallback loop detected'' [],
          diag ''AUTH_FLOW: stuck before provider redirect'' []])),
     only_if (6 \<le> hops)
       (reading (\<lambda>w. g_chatgpt_auth_breaker_used (globals w)) (\<lambda>used.
          if \<not> used then
            seq [assign (g_chatgpt_auth_breaker_used_update (\<lambda>_. True)),
            emit E (PostTask (BreakChatGPTMwebLoop_task
                (AppendOrReplaceQueryParameter E url ''mweb_fallback'' None)))]
          else
            seq [diag ''AUTH_FLOW: retry exhausted'' [],
            diag ''AUTH_FLOW: no provider url found'' [],
            emit E (PostTask StopFrontShellLoad_task)]))]"

definition DidRedirectNavigation :: "browser_env \<Rightarrow> NavigationHandle \<Rightarrow> world \<Rightarrow> world" where
  "DidRedirectNavigation E h =
     (let url = GetURL h; chain = GetRedirectChain h in
      if \<not> IsInPrimaryMainFrame h then id
      else
        reading (\<lambda>w. g_in_auth_flow (globals w)) (\<lambda>in_flow.
        if \<not> IsAuthFlowURL url \<and> \<not> in_flow then id
        else
          seq [only_if (2 \<le> length chain)
            (diag ''AUTH_FLOW: redirect from=%s'' [url_arg E (chain ! (length chain - 2))]),
          diag ''AUTH_FLOW: redirect to=%s'' [url_arg E url],
          diag ''AUTH_FLOW: redirect_count_for_chain=%zu'' [LNum (length chain)],
          RecordAuthUrlAndDetectLoop E url,
          only_if (IsChatGPTMwebFallback url) (mweb_breaker E url (length chain))]))"

definition log_last_redirects :: "browser_env \<Rightarrow> gurl list \<Rightarrow> world \<Rightarrow> world" where
  "log_last_redirects E chain =
     (let start = (if length chain > 10 then length chain - 10 else 0) in
      fold (\<lambda>i. diag ''AUTH_FLOW:   [%zu]=%s'' [LNum i, url_arg E (chain ! i)]) [start..<length chain])"

definition DidFinishNavigation ::
  "browser_env \<Rightarrow> content_filter \<Rightarrow> shell_id \<Rightarrow> NavigationHandle \<Rightarrow> world \<Rightarrow> world" where
  "DidFinishNavigation E F s h =
     (let url = GetURL h in
      if \<not> IsInPrimaryMainFrame h then id
      else
        reading (shell_contents s) (\<lambda>c.
        seq [only_if (HasCommitted h)
          (seq [UpdateKeyboardChatFallback E url,
           only_if (\<not> IsErrorPage h)
             (seq [BlinkApplyPageZoom E c url,
              BlinkInjectCosmeticFilters E F c url,
              BlinkApplySiteMode E c url])]),
        reading (\<lambda>w. g_in_auth_flow (globals w)) (\<lambda>in_flow.
        if \<not> IsAuthFlowURL url \<and> \<not> in_flow then id
        else
          seq [only_if (too_many_redirects h)
            (seq [diag ''AUTH_FLOW: redirect loop suspected'' [],
             diag ''AUTH_FLOW: last 10 redirects='' [],
             log_last_redirects E (GetRedirectChain h)]),
          FlushAndDiagnoseAuthCookies E c,
          only_if (\<not> IsAuthFlowURL url)
            (assign (\<lambda>g. g\<lparr>g_in_auth_flow := False, g_chatgpt_auth_breaker_used := False,
               g_chatgpt_mweb_logged := False\<rparr>))])]))"

text \<open>\<open>ok_image\<close>: the load succeeded and its destination is an image.\<close>

definition ResourceLoadComplete :: "browser_env \<Rightarrow> shell_id \<Rightarrow> bool \<Rightarrow> gurl \<Rightarrow> world \<Rightarrow> world" where
  "ResourceLoadComplete E s ok_image image_url =
     (let host = url_host image_url; path = url_path image_url;
          google_avatar_host = (host = ''lh3.googleusercontent.com'' \<or> sv_ends_with host ''.ggpht.com'') in
      if \<not> ok_image then id
      else if \<not> google_avatar_host \<or> (\<not> sv_contains path ''/a/'' \<and> \<not> sv_contains path ''/a-/'') then id
      else emit E (BlinkObserveGoogleAvatarURL s (url_spec image_url)))"

subsection \<open>Fullscreen\<close>

definition ToggleFullscreenModeForTab ::
  "browser_env \<Rightarrow> shell_id \<Rightarrow> contents_id option \<Rightarrow> bool \<Rightarrow> world \<Rightarrow> world" where
  "ToggleFullscreenModeForTab E s c enter_fullscreen =
     reading (\<lambda>w. case deref w c of None \<Rightarrow> empty_gurl | Some wc \<Rightarrow> GetVisibleURL wc) (\<lambda>url.
     seq [diag (if enter_fullscreen then ''FULLSCREEN: request'' else ''FULLSCREEN: exited'') [],
     only_if (IsYouTubeURL url) (diag ''FULLSCREEN: youtube path'' []),
     emit E (Platform (PlatformToggleFullscreen s c enter_fullscreen)),
     reading (\<lambda>w. map_option is_fullscreen (shells w s) \<noteq> Some enter_fullscreen) (\<lambda>changed.
       seq [only_if changed
         (seq [update_shell s (is_fullscreen_update (\<lambda>_. enter_fullscreen)),
          (case c of None \<Rightarrow> id | Some i \<Rightarrow> emit E (Page (SynchronizeVisualProperties i))),
          only_if enter_fullscreen (diag ''FULLSCREEN: entered'' [])]),
       only_if (enter_fullscreen \<and> \<not> changed) (diag ''FULLSCREEN: fallback'' [])])])"

definition EnterFullscreenModeForTab :: "browser_env \<Rightarrow> shell_id \<Rightarrow> contents_id \<Rightarrow> world \<Rightarrow> world" where
  "EnterFullscreenModeForTab E s c = ToggleFullscreenModeForTab E s (Some c) True"

definition ExitFullscreenModeForTab :: "browser_env \<Rightarrow> shell_id \<Rightarrow> contents_id option \<Rightarrow> world \<Rightarrow> world" where
  "ExitFullscreenModeForTab E s c = ToggleFullscreenModeForTab E s c False"

datatype DisplayMode = kFullscreen | kBrowser

definition GetDisplayMode :: "bool \<Rightarrow> DisplayMode" where
  "GetDisplayMode fullscreen_or_pending = (if fullscreen_or_pending then kFullscreen else kBrowser)"

subsection \<open>Protocol handlers\<close>

datatype registry_call =
    SilentlyHandleRegisterHandlerRequest | OnDenyRegisterProtocolHandler
  | OnIgnoreRegisterProtocolHandler | OnAcceptRegisterProtocolHandler | RemoveHandler

text \<open>
  The calls made on the registry.  \<open>handled\<close> is what the silent request answers; \<open>auto_accept\<close> is
  the registry's mode.
\<close>

definition RegisterProtocolHandler ::
  "world \<Rightarrow> bool \<Rightarrow> bool \<Rightarrow> bool \<Rightarrow> bool \<Rightarrow> bool \<Rightarrow> registry_call list" where
  "RegisterProtocolHandler w off_the_record handled user_gesture fenced auto_accept =
     (if off_the_record then []
      else SilentlyHandleRegisterHandlerRequest #
        (if handled then []
         else if \<not> user_gesture \<and> windows w \<noteq> [] then [OnDenyRegisterProtocolHandler]
         else if fenced then [OnIgnoreRegisterProtocolHandler]
         else if auto_accept then [OnAcceptRegisterProtocolHandler] else []))"

definition UnregisterProtocolHandler :: "bool \<Rightarrow> registry_call list" where
  "UnregisterProtocolHandler off_the_record = (if off_the_record then [] else [RemoveHandler])"

subsection \<open>File choosers and the remaining delegate methods\<close>

definition RunFileChooser :: "browser_env \<Rightarrow> shell_id \<Rightarrow> nat \<Rightarrow> world \<Rightarrow> world" where
  "RunFileChooser E s listener =
     seq [update_shell s (run_file_chooser_count_update Suc),
     reading (\<lambda>w. map_option hold_file_chooser (shells w s) = Some True) (\<lambda>hold.
       if hold then update_shell s (held_file_chooser_listener_update (\<lambda>_. Some listener))
       else emit E (Platform (PlatformRunFileChooser listener)))]"

definition EnumerateDirectory :: "browser_env \<Rightarrow> shell_id \<Rightarrow> nat \<Rightarrow> world \<Rightarrow> world" where
  "EnumerateDirectory E s listener =
     seq [update_shell s (run_file_chooser_count_update Suc),
     reading (\<lambda>w. map_option hold_file_chooser (shells w s) = Some True) (\<lambda>hold.
       if hold then update_shell s (held_file_chooser_listener_update (\<lambda>_. Some listener))
       else emit E (FileSelectionCanceled listener))]"

definition RequestPointerLock :: "browser_env \<Rightarrow> bool \<Rightarrow> contents_id \<Rightarrow> world \<Rightarrow> world" where
  "RequestPointerLock E platform_handled c =
     only_if (\<not> platform_handled) (emit E (Page (GotResponseToPointerLockRequest c)))"

definition NavigationStateChanged :: "browser_env \<Rightarrow> shell_id \<Rightarrow> contents_id \<Rightarrow> bool \<Rightarrow> world \<Rightarrow> world" where
  "NavigationStateChanged E s source url_invalidated =
     reading (\<lambda>w. contents w source) (\<lambda>tab. case tab of
        None \<Rightarrow> id
      | Some wc \<Rightarrow> only_if url_invalidated (emit E (Platform (SetAddressBarURL s (GetVisibleURL wc)))))"

definition ActivateContents :: "browser_env \<Rightarrow> contents_id \<Rightarrow> world \<Rightarrow> world" where
  "ActivateContents E c = emit E (Page (FocusContents c))"

definition ShouldAllowRunningInsecureContent :: "bool \<Rightarrow> bool \<Rightarrow> bool" where
  "ShouldAllowRunningInsecureContent allowed_per_prefs platform_allows =
     (if allowed_per_prefs then True else platform_allows)"

datatype PictureInPictureResult = kNotSupported | kSuccess

definition EnterPictureInPicture :: "browser_env \<Rightarrow> PictureInPictureResult" where
  "EnterPictureInPicture E = (if \<not> IsRunWebTestsSwitchPresent E then kNotSupported else kSuccess)"

definition ShouldResumeRequestsForCreatedWindow :: "shell \<Rightarrow> bool" where
  "ShouldResumeRequestsForCreatedWindow sh = (\<not> delay_popup_contents_delegate_for_testing sh)"

definition SetContentsBounds :: "browser_env \<Rightarrow> shell_id \<Rightarrow> window_size \<Rightarrow> world \<Rightarrow> world" where
  "SetContentsBounds E s sz =
     only_if (IsRunWebTestsSwitchPresent E) (emit E (Platform (ResizeWebContent s sz)))"

definition TitleWasSet :: "browser_env \<Rightarrow> shell_id \<Rightarrow> string option \<Rightarrow> world \<Rightarrow> world" where
  "TitleWasSet E s entry_title =
     (case entry_title of None \<Rightarrow> id | Some t \<Rightarrow> emit E (Platform (SetTitle s t)))"

definition RenderFrameCreated :: "browser_env \<Rightarrow> shell_id \<Rightarrow> contents_id \<Rightarrow> bool \<Rightarrow> world \<Rightarrow> world" where
  "RenderFrameCreated E s c outermost = only_if outermost (emit E (Platform (MainFrameCreated s c)))"

end
