(* ===== verification/Shell_Tabs.thy ===== *)
theory Shell_Tabs
  imports Shell_Navigation
begin

text \<open>
  The bookkeeping of tabs over everything the shell does: the invariant on windows, their
  WebContents and the authentication-popup trackers, one step relation with a rule for every
  handler of \<open>Shell_Windows\<close> and \<open>Shell_Navigation\<close>, and what holds in every reachable world.
\<close>

subsection \<open>What the guards leave unchanged\<close>

lemma stats_frame [shell_frame]:
  "tabs_view (snd (GetBlinkMemoryStats E w)) = tabs_view w"
  "loads (snd (GetBlinkMemoryStats E w)) = loads w"
  "private_except X (snd (GetBlinkMemoryStats E w)) = private_except X w"
  by (simp_all add: world_simps)

lemma StoreHeavyPageHeartbeat_frame [shell_frame]:
  "tabs_view (StoreHeavyPageHeartbeat E u st w) = tabs_view w"
  "loads (StoreHeavyPageHeartbeat E u st w) = loads w"
  "private_session E \<Longrightarrow> private_except X (StoreHeavyPageHeartbeat E u st w) = private_except X w"
  by (simp_all add: StoreHeavyPageHeartbeat_def world_simps split: option.splits)

lemma BlinkLogMemoryPressurePoint_frame [shell_frame]:
  "engine_keeps_tabs E \<Longrightarrow> tabs_view (BlinkLogMemoryPressurePoint E l u w) = tabs_view w"
  "loads (BlinkLogMemoryPressurePoint E l u w) = loads w"
  "private_session E \<Longrightarrow> private_except X (BlinkLogMemoryPressurePoint E l u w) = private_except X w"
  by (simp_all add: BlinkLogMemoryPressurePoint_def world_simps only_if_def shell_frame split: option.splits)

lemma RunSiteSwitchCleanup_frame [shell_frame]:
  "engine_keeps_tabs E \<Longrightarrow> tabs_view (RunSiteSwitchCleanupIfNeeded E u c t w) = tabs_view w"
  "loads (RunSiteSwitchCleanupIfNeeded E u c t w) = loads w"
  "private_except X (RunSiteSwitchCleanupIfNeeded E u c t w) = private_except X w"
  by (simp_all add: RunSiteSwitchCleanupIfNeeded_def)

lemma HasPersistent_frame [shell_frame]:
  "tabs_view (snd (HasPersistentDuplicateViewOrCompositor E r c w)) = tabs_view w"
  "loads (snd (HasPersistentDuplicateViewOrCompositor E r c w)) = loads w"
  "private_except X (snd (HasPersistentDuplicateViewOrCompositor E r c w)) = private_except X w"
  by (simp_all add: HasPersistentDuplicateViewOrCompositor_def Let_def)

lemma RunOOMWatchdog_frame [shell_frame]:
  "engine_keeps_tabs E \<Longrightarrow> tabs_view (RunOOMWatchdogForHeavyLoad E u st w) = tabs_view w"
  "loads (RunOOMWatchdogForHeavyLoad E u st w) = loads w"
  "private_except X (RunOOMWatchdogForHeavyLoad E u st w) = private_except X w"
  by (simp_all add: RunOOMWatchdogForHeavyLoad_def stop_front_if_loading_def record_watchdog_sample_def
      Let_def only_if_def split: option.splits)

lemma ApplyDirectAllocationDangerGuard_frame [shell_frame]:
  "engine_keeps_tabs E \<Longrightarrow> tabs_view (snd (ApplyDirectAllocationDangerGuard E u t w)) = tabs_view w"
  "loads (snd (ApplyDirectAllocationDangerGuard E u t w)) = loads w"
  "private_session E \<Longrightarrow>
     private_except X (snd (ApplyDirectAllocationDangerGuard E u t w)) = private_except X w"
  by (simp_all add: ApplyDirectAllocationDangerGuard_def world_simps Let_def ret_def only_if_def
      case_prod_unfold shell_frame)

lemma discard_tab_frame [shell_frame]:
  "engine_keeps_tabs E \<Longrightarrow> tabs_view (discard_tab E k s w) = tabs_view w"
  "loads (discard_tab E k s w) = loads w"
  "private_except X (discard_tab E k s w) = private_except X w"
  by (simp_all add: discard_tab_def world_simps only_if_def split: option.splits)

lemma discard_except_frame [shell_frame]:
  "engine_keeps_tabs E \<Longrightarrow> tabs_view (BlinkDiscardBackgroundTabsExcept E k w) = tabs_view w"
  "loads (BlinkDiscardBackgroundTabsExcept E k w) = loads w"
  "private_except X (BlinkDiscardBackgroundTabsExcept E k w) = private_except X w"
proof -
  have "(engine_keeps_tabs E \<longrightarrow> tabs_view (fold (discard_tab E k) ss w) = tabs_view w) \<and>
      loads (fold (discard_tab E k) ss w) = loads w \<and>
      private_except X (fold (discard_tab E k) ss w) = private_except X w" for ss
    by (induction ss arbitrary: w) (simp_all add: shell_frame)
  then show "engine_keeps_tabs E \<Longrightarrow> tabs_view (BlinkDiscardBackgroundTabsExcept E k w) = tabs_view w"
    "loads (BlinkDiscardBackgroundTabsExcept E k w) = loads w"
    "private_except X (BlinkDiscardBackgroundTabsExcept E k w) = private_except X w"
    by (simp_all add: BlinkDiscardBackgroundTabsExcept_def)
qed

lemma discard_frame [shell_frame]:
  "engine_keeps_tabs E \<Longrightarrow> tabs_view (BlinkDiscardBackgroundTabs E k w) = tabs_view w"
  "private_except X (BlinkDiscardBackgroundTabs E k w) = private_except X w"
  "engine_keeps_tabs E \<Longrightarrow> tabs_view (BlinkDiscardBackgroundTabsUnderPressure E w) = tabs_view w"
  "loads (BlinkDiscardBackgroundTabsUnderPressure E w) = loads w"
  "private_except X (BlinkDiscardBackgroundTabsUnderPressure E w) = private_except X w"
  by (simp_all add: BlinkDiscardBackgroundTabs_def BlinkDiscardBackgroundTabsUnderPressure_def shell_frame
      Let_def)

lemma ApplyGlobalMemoryGuard_frame [shell_frame]:
  "engine_keeps_tabs E \<Longrightarrow> tabs_view (snd (ApplyGlobalMemoryGuard E u c l t w)) = tabs_view w"
  "loads (snd (ApplyGlobalMemoryGuard E u c l t w)) = loads w"
  "private_session E \<Longrightarrow> private_except X (snd (ApplyGlobalMemoryGuard E u c l t w)) = private_except X w"
  by (simp_all add: ApplyGlobalMemoryGuard_def global_guard_decide_def global_guard_purge_def world_simps
      ret_def only_if_def shell_frame)

lemma ApplyGitHubRepoGuard_frame [shell_frame]:
  "engine_keeps_tabs E \<Longrightarrow> tabs_view (ApplyGitHubRepoGuard E u w) = tabs_view w"
  "loads (ApplyGitHubRepoGuard E u w) = loads w"
  "private_except X (ApplyGitHubRepoGuard E u w) = private_except X w"
  by (simp_all add: ApplyGitHubRepoGuard_def world_simps)

lemma LogCrashBreadcrumb_frame [shell_frame]:
  "tabs_view (LogCrashBreadcrumb E c a w) = tabs_view w"
  "loads (LogCrashBreadcrumb E c a w) = loads w"
  "private_session E \<Longrightarrow> private_except X (LogCrashBreadcrumb E c a w) = private_except X w"
  by (simp_all add: LogCrashBreadcrumb_def world_simps split: option.splits)

lemma ShouldBlockNewWebContents_frame [shell_frame]:
  "tabs_view (snd (ShouldBlockNewWebContents E p u w)) = tabs_view w"
  "loads (snd (ShouldBlockNewWebContents E p u w)) = loads w"
  "private_session E \<Longrightarrow> private_except X (snd (ShouldBlockNewWebContents E p u w)) = private_except X w"
  by (simp_all add: ShouldBlockNewWebContents_def world_simps ret_def)

lemma ApplyLegacyGoogleAuthIdentity_frame [shell_frame]:
  "engine_keeps_tabs E \<Longrightarrow> tabs_view (ApplyLegacyGoogleAuthIdentity E c u w) = tabs_view w"
  "loads (ApplyLegacyGoogleAuthIdentity E c u w) = loads w"
  "private_except X (ApplyLegacyGoogleAuthIdentity E c u w) = private_except X w"
  by (simp_all add: ApplyLegacyGoogleAuthIdentity_def split: option.splits)

lemma load_guards_frame [shell_frame]:
  "engine_keeps_tabs E \<Longrightarrow> tabs_view (snd (load_guards E u c t w)) = tabs_view w"
  "loads (snd (load_guards E u c t w)) = loads w"
  "private_session E \<Longrightarrow> private_except X (snd (load_guards E u c t w)) = private_except X w"
  by (simp_all add: load_guards_def world_simps ret_def only_if_def shell_frame case_prod_unfold)

subsection \<open>Starting a load\<close>

lemma load_with_params_frame [shell_frame]:
  "engine_keeps_tabs E \<Longrightarrow> tabs_view (load_with_params E c p w) = tabs_view w"
  "private_except X (load_with_params E c p w) = private_except X w"
  by (simp_all add: load_with_params_def split: option.splits)

lemma start_load_frame [shell_frame]:
  "engine_keeps_tabs E \<Longrightarrow> tabs_view (start_load E c u cur f t w) = tabs_view w"
  "private_session E \<Longrightarrow> private_except X (start_load E c u cur f t w) = private_except X w"
  by (simp_all add: start_load_def world_simps only_if_def shell_frame case_prod_unfold split: option.splits)

lemma LoadURLForFrame_frame [shell_frame]:
  "engine_keeps_tabs E \<Longrightarrow> tabs_view (LoadURLForFrame E s u f t w) = tabs_view w"
  "private_session E \<Longrightarrow> private_except X (LoadURLForFrame E s u f t w) = private_except X w"
  by (simp_all add: LoadURLForFrame_def world_simps Let_def shell_frame case_prod_unfold)

text \<open>Everything in front of the load: whether it is blocked, and the world it would start in.\<close>

definition load_prelude :: "browser_env \<Rightarrow> shell_id \<Rightarrow> gurl \<Rightarrow> string \<Rightarrow> world \<Rightarrow> (bool \<times> gurl) \<times> world" where
  "load_prelude E s url frame w =
     (let c = shell_contents s w;
          w0 = ApplyLegacyGoogleAuthIdentity E c url w;
          current = (case deref w0 c of None \<Rightarrow> empty_gurl | Some wc \<Rightarrow> GetVisibleURL wc);
          w1 = BlinkLogMemoryPressurePoint E
                 (if IsRedditURL url then ''before reddit.com load'' else ''before page load'') (Some url) w0;
          (blocked, w2) = load_guards E url current (frame = []) w1
      in ((blocked, current),
          if blocked then w2
          else LogCrashBreadcrumb E c
                 (Some (if IsGitHubRepoPage E url then ''repo page load''
                        else if IsAISiteURL url then ''ai site navigation'' else ''navigation''))
                 (ApplyGitHubRepoGuard E url w2)))"

lemma LoadURLForFrame_prelude:
  "LoadURLForFrame E s url frame t w =
     (case load_prelude E s url frame w of ((blocked, current), w') \<Rightarrow>
        if blocked then w' else start_load E (shell_contents s w) url current frame t w')"
  by (simp add: LoadURLForFrame_def load_prelude_def world_simps Let_def case_prod_unfold)

lemma load_prelude_loads: "loads (snd (load_prelude E s url frame w)) = loads w"
  by (simp add: load_prelude_def Let_def case_prod_unfold shell_frame)

lemma load_guards_auth: "IsAuthFlowURL url \<Longrightarrow> \<not> fst (load_guards E url cur t w)"
  by (simp add: load_guards_def world_simps ret_def)

lemma load_prelude_auth: "IsAuthFlowURL url \<Longrightarrow> \<not> fst (fst (load_prelude E s url frame w))"
  by (simp add: load_prelude_def Let_def case_prod_unfold load_guards_auth)

text \<open>Later statements only add to the trace.\<close>

lemma StoreHeavyPageHeartbeat_prefix: "prefix (trace w) (trace (StoreHeavyPageHeartbeat E u st w))"
  by (simp add: StoreHeavyPageHeartbeat_def world_simps split: option.splits)

lemma BlinkLogMemoryPressurePoint_prefix: "prefix (trace w) (trace (BlinkLogMemoryPressurePoint E l u w))"
proof -
  have "prefix xs (trace (StoreHeavyPageHeartbeat E u st v))" if "prefix xs (trace v)" for xs st v
    using that StoreHeavyPageHeartbeat_prefix prefix_order.trans by blast
  then show ?thesis
    by (auto simp: BlinkLogMemoryPressurePoint_def world_simps only_if_def intro: prefix_order.trans)
qed

lemma discard_prefix: "prefix (trace w) (trace (BlinkDiscardBackgroundTabsUnderPressure E w))"
proof -
  have step: "prefix (trace v) (trace (discard_tab E k s v))" for k s v
    by (simp add: discard_tab_def world_simps only_if_def split: option.splits)
  have "prefix (trace v) (trace (fold (discard_tab E k) ss v))" for k ss v
    by (induction ss arbitrary: v) (auto intro: prefix_order.trans [OF step])
  from this [of "diag ''TAB_LIFECYCLE: memory pressure -> shedding background tabs'' [] w"]
  have "prefix (trace w) (trace (fold (discard_tab E k) ss
      (diag ''TAB_LIFECYCLE: memory pressure -> shedding background tabs'' [] w)))" for k ss
    using append_prefixD by fastforce
  then show ?thesis
    by (simp add: BlinkDiscardBackgroundTabsUnderPressure_def BlinkDiscardBackgroundTabsExcept_def Let_def)
qed

lemma global_guard_purge_prefix: "prefix (trace w) (trace (global_guard_purge E st a b w))"
proof -
  have "prefix xs (trace (BlinkDiscardBackgroundTabsUnderPressure E v))" if "prefix xs (trace v)" for xs v
    using that discard_prefix prefix_order.trans by blast
  then show ?thesis by (auto simp: global_guard_purge_def only_if_def)
qed

lemma ApplyGlobalMemoryGuard_prefix: "prefix (trace w) (trace (snd (ApplyGlobalMemoryGuard E u c l t w)))"
proof -
  have "prefix xs (trace (global_guard_purge E st a b v))" if "prefix xs (trace v)" for xs st a b v
    using that global_guard_purge_prefix prefix_order.trans by blast
  then show ?thesis
    by (auto simp: ApplyGlobalMemoryGuard_def global_guard_decide_def world_simps ret_def only_if_def)
qed

lemma start_load_shape:
  "loads (start_load E (Some c) url cur f t w) = loads w @
     (if in_flight (contents w c) url = Some True then [] else [Page (LoadURLWithParams c (url_params url f t))])"
  "in_flight (contents w c) url = Some False \<Longrightarrow>
     prefix (trace w @ [Page (Stop c), Page (LoadURLWithParams c (url_params url f t))])
       (trace (start_load E (Some c) url cur f t w))"
proof -
  show "loads (start_load E (Some c) url cur f t w) = loads w @
     (if in_flight (contents w c) url = Some True then [] else [Page (LoadURLWithParams c (url_params url f t))])"
    by (simp add: start_load_def world_simps only_if_def load_with_params_def shell_frame case_prod_unfold)
  let ?w = "emit E (Page (LoadURLWithParams c (url_params url f t))) (emit E (Page (Stop c)) w)"
  have "prefix (trace ?w) (trace (snd (ApplyGlobalMemoryGuard E url cur l b
      (BlinkLogMemoryPressurePoint E m (Some url) ?w))))" for l b m
    using ApplyGlobalMemoryGuard_prefix BlinkLogMemoryPressurePoint_prefix prefix_order.trans by blast
  then show "in_flight (contents w c) url = Some False \<Longrightarrow>
     prefix (trace w @ [Page (Stop c), Page (LoadURLWithParams c (url_params url f t))])
       (trace (start_load E (Some c) url cur f t w))"
    by (simp add: start_load_def world_simps load_with_params_def case_prod_unfold del: emit_selectors)
      (simp add: emit_def)
qed

text \<open>
  what asking a shell to load a URL does.  A sign-in URL is never blocked by the memory
  guards.  A blocked request starts nothing; a request for the URL the tab is already loading
  starts nothing; any other request starts exactly one load, in the shell's own WebContents,
  and a different load in flight is stopped immediately before it.
\<close>

lemma load_url_exact:
  assumes "shell_contents s w = Some c" and "load_prelude E s url frame w = ((blocked, current), w')"
  shows "(IsAuthFlowURL url \<longrightarrow> \<not> blocked) \<and>
    loads (LoadURLForFrame E s url frame t w) = loads w @
      (if blocked \<or> in_flight (contents w' c) url = Some True then []
       else [Page (LoadURLWithParams c (url_params url frame t))]) \<and>
    (\<not> blocked \<longrightarrow> in_flight (contents w' c) url = Some False \<longrightarrow>
       prefix (trace w' @ [Page (Stop c), Page (LoadURLWithParams c (url_params url frame t))])
         (trace (LoadURLForFrame E s url frame t w)))"
  using assms load_prelude_loads [of E s url frame w] load_prelude_auth [of url E s frame w]
  by (simp add: LoadURLForFrame_prelude start_load_shape)

subsection \<open>The invariant of the windows\<close>

text \<open>
  Windows are distinct and older than the next Shell; each owns a live WebContents of its own;
  and each authentication-popup tracker is null or points to a WebContents some window owns.
\<close>

fun tabs_ok :: "shell_id list \<times> (shell_id \<rightharpoonup> contents_id) \<times> shell_id \<times> contents_id option \<times>
    contents_id option \<times> contents_id set \<Rightarrow> bool" where
  "tabs_ok (ws, own, n, popup, opener, live) \<longleftrightarrow>
     distinct ws \<and> (\<forall>s \<in> set ws. s < n) \<and> (\<forall>s \<in> set ws. \<exists>c \<in> live. own s = Some c) \<and>
     inj_on own (set ws) \<and>
     (\<forall>c \<in> set_option popup \<union> set_option opener. \<exists>s \<in> set ws. own s = Some c)"

declare tabs_ok.simps [simp del]

definition windows_inv :: "world \<Rightarrow> bool" where
  "windows_inv w \<longleftrightarrow> tabs_ok (tabs_view w)"

definition owned :: "world \<Rightarrow> contents_id \<Rightarrow> bool" where
  "owned w c \<longleftrightarrow> (\<exists>s \<in> set (windows w). shell_contents s w = Some c)"

lemma windows_inv_frame: "tabs_view w' = tabs_view w \<Longrightarrow> windows_inv w \<Longrightarrow> windows_inv w'"
  by (simp add: windows_inv_def)

lemma tabs_ok_create:
  assumes "tabs_ok (ws, own, n, p, q, live)" and "c \<in> live" and "\<forall>s \<in> set ws. own s \<noteq> Some c"
    and "\<forall>x \<in> set_option p' \<union> set_option q'. x = c \<or> (\<exists>s \<in> set ws. own s = Some x)"
  shows "tabs_ok (ws @ [n], own(n \<mapsto> c), Suc n, p', q', live)"
proof -
  have n: "n \<notin> set ws" using assms(1) by (auto simp: tabs_ok.simps)
  have "inj_on (own(n \<mapsto> c)) (set (ws @ [n]))"
    using assms(1,3) n by (auto simp: tabs_ok.simps inj_on_def)
  moreover have "\<forall>x \<in> set_option p' \<union> set_option q'. \<exists>s \<in> set (ws @ [n]). (own(n \<mapsto> c)) s = Some x"
    using assms(4) n by fastforce
  moreover have "\<forall>s \<in> set (ws @ [n]). \<exists>c' \<in> live. (own(n \<mapsto> c)) s = Some c'"
    using assms(1,2) by (auto simp: tabs_ok.simps)
  ultimately show ?thesis
    using assms(1) n by (auto simp: tabs_ok.simps less_Suc_eq)
qed

lemma tabs_ok_close:
  assumes "tabs_ok (ws, own, n, p, q, live)" and "s \<in> set ws" and "own s = Some c"
    and "set_option p' \<subseteq> set_option p - {c}" and "set_option q' \<subseteq> set_option q - {c}"
  shows "tabs_ok (remove1 s ws, own(s := None), n, p', q', live - {c})"
proof -
  have ws: "set (remove1 s ws) = set ws - {s}"
    using assms(1) by (simp add: tabs_ok.simps)
  have other: "own s' \<noteq> Some c" if "s' \<in> set ws - {s}" for s'
    using assms(1,2,3) that by (auto simp: tabs_ok.simps inj_on_def)
  have "inj_on (own(s := None)) (set ws - {s})"
    using assms(1) by (auto simp: tabs_ok.simps inj_on_def)
  moreover have "\<exists>s' \<in> set ws - {s}. own s' = Some x" if "x \<in> set_option p' \<union> set_option q'" for x
  proof -
    have "x \<in> set_option p \<union> set_option q" using that assms(4,5) by blast
    then obtain s' where "s' \<in> set ws" "own s' = Some x"
      using assms(1) unfolding tabs_ok.simps by blast
    with that assms(3,4,5) show ?thesis by (cases "s' = s") auto
  qed
  ultimately show ?thesis
    using assms(1) other ws by (fastforce simp: tabs_ok.simps)
qed

lemma tabs_ok_free:
  "tabs_ok (ws, own, n, p, q, live) \<Longrightarrow> \<forall>s \<in> set ws. own s \<noteq> Some c \<Longrightarrow>
     tabs_ok (ws, own, n, p, q, live - {c})"
  by (fastforce simp: tabs_ok.simps)

lemma tabs_ok_add_live: "tabs_ok (ws, own, n, p, q, live) \<Longrightarrow> tabs_ok (ws, own, n, p, q, insert c live)"
  by (auto simp: tabs_ok.simps)

subsection \<open>Creating and closing\<close>

lemma run_created_callback_frame [shell_frame]:
  "engine_keeps_tabs E \<Longrightarrow> tabs_view (run_created_callback E s w) = tabs_view w"
  "private_except X (run_created_callback E s w) = private_except X w"
  by (simp_all add: run_created_callback_def)

lemma fst_Shell_ctor [simp]: "fst (Shell_ctor E c d w) = next_shell w"
  by (simp add: Shell_ctor_def alloc_shell_def world_simps ret_def)

lemma Shell_ctor_tabs:
  assumes "engine_keeps_tabs E"
  shows "tabs_view (snd (Shell_ctor E c d w)) =
     (windows w @ [next_shell w], (\<lambda>s. shell_contents s w)(next_shell w \<mapsto> c), Suc (next_shell w),
      g_auth_popup_contents (globals w), g_auth_popup_opener (globals w), dom (contents w))"
  using assms
  by (simp add: Shell_ctor_def alloc_shell_def world_simps ret_def only_if_def run_created_callback_def
      tabs_view_def shell_contents_def new_shell_def fun_eq_iff)

lemma Shell_ctor_private: "private_except X (snd (Shell_ctor E c d w)) = private_except X w"
  by (simp add: Shell_ctor_def alloc_shell_def world_simps ret_def only_if_def shell_frame)

lemma CreateShell_tabs:
  assumes "engine_keeps_tabs E"
  shows "tabs_view (snd (CreateShell E c sz d w)) = tabs_view (snd (Shell_ctor E c d w))"
  using assms
  by (simp add: CreateShell_def world_simps ret_def only_if_def case_prod_unfold split: option.splits)

lemma CreateShell_private [shell_frame]:
  "private_except X (snd (CreateShell E c sz d w)) = private_except X w"
  by (simp add: CreateShell_def world_simps ret_def only_if_def case_prod_unfold Shell_ctor_private
      split: option.splits)

lemma AdjustWindowSize_frame [shell_frame]:
  "tabs_view (snd (AdjustWindowSize E sz w)) = tabs_view w"
  "private_except X (snd (AdjustWindowSize E sz w)) = private_except X w"
  by (simp_all add: AdjustWindowSize_def GetShellDefaultSize_def ret_def Let_def)

lemma Shell_dtor_tabs:
  assumes "engine_keeps_tabs E" and "shell_contents s w = Some c"
  shows "tabs_view (Shell_dtor E s w) =
     (remove1 s (windows w), (\<lambda>s. shell_contents s w)(s := None), next_shell w,
      g_auth_popup_contents (clear_auth_trackers (Some c) (globals w)),
      g_auth_popup_opener (clear_auth_trackers (Some c) (globals w)), dom (contents w) - {c})"
  using assms
  by (simp add: Shell_dtor_def world_simps only_if_def free_contents_def tabs_view_def shell_contents_def
      fun_eq_iff)

lemma clear_auth_trackers_set:
  "set_option (g_auth_popup_contents (clear_auth_trackers (Some c) g)) \<subseteq> set_option (g_auth_popup_contents g) - {c}"
  "set_option (g_auth_popup_opener (clear_auth_trackers (Some c) g)) \<subseteq> set_option (g_auth_popup_opener g) - {c}"
  by (auto simp: clear_auth_trackers_def Let_def split: if_splits)

lemma windows_inv_owner:
  "windows_inv w \<Longrightarrow> s \<in> set (windows w) \<Longrightarrow> \<exists>c. shell_contents s w = Some c \<and> c \<in> dom (contents w)"
  unfolding windows_inv_def tabs_view_def tabs_ok.simps by blast

lemma Close_eq: "Close E s w = Shell_dtor E s (emit E (Platform (ResignKeyWindow s)) w)"
  by (simp add: Close_def DestroyShell_def ret_def)

lemma Close_inv:
  assumes "engine_keeps_tabs E" "windows_inv w" "s \<in> set (windows w)"
  shows "windows_inv (Close E s w)"
proof -
  let ?w = "emit E (Platform (ResignKeyWindow s)) w"
  obtain c where c: "shell_contents s ?w = Some c"
    using windows_inv_owner [OF assms(2,3)] by (auto simp: shell_contents_def)
  have "tabs_ok (tabs_view ?w)" using assms(1,2) by (simp add: windows_inv_def)
  then show ?thesis
    using c assms(3) clear_auth_trackers_set [of c "globals ?w"]
    unfolding windows_inv_def Close_eq Shell_dtor_tabs [OF assms(1) c]
    by (intro tabs_ok_close [where p = "g_auth_popup_contents (globals ?w)" and q = "g_auth_popup_opener (globals ?w)"])
      (simp_all add: tabs_view_def)
qed

lemma Close_private [shell_frame]: "private_except X (Close E s w) = private_except X w"
  by (simp add: Close_eq Shell_dtor_def world_simps only_if_def free_contents_def split: option.splits)

lemma close_all_inv:
  "engine_keeps_tabs E \<Longrightarrow> windows_inv w \<Longrightarrow> windows_inv (close_all E w)"
proof (induction E w rule: close_all.induct)
  case (1 E w)
  then show ?case
    by (cases "windows w = []") (simp_all add: close_all.simps [of E w] Close_inv)
qed

lemma close_all_windows: "windows (close_all E w) = []"
proof (induction E w rule: close_all.induct)
  case (1 E w)
  then show ?case by (cases "windows w = []") (simp_all add: close_all.simps [of E w])
qed

lemma close_all_private [shell_frame]: "private_except X (close_all E w) = private_except X w"
proof (induction E w rule: close_all.induct)
  case (1 E w)
  then show ?case
    by (cases "windows w = []") (simp_all add: close_all.simps [of E w] shell_frame)
qed

text \<open>A new Shell around a live WebContents nobody owns yet, with trackers that may point to it.\<close>

lemma CreateShell_inv:
  assumes "engine_keeps_tabs E" and "tabs_view w = (ws, own, n, p, q, live)"
    and "tabs_ok (ws, own, n, p0, q0, live)" and "c \<in> live" and "\<forall>s \<in> set ws. own s \<noteq> Some c"
    and "\<forall>x \<in> set_option p \<union> set_option q. x = c \<or> (\<exists>s \<in> set ws. own s = Some x)"
  shows "windows_inv (snd (CreateShell E c sz d w))"
proof -
  have "tabs_view (snd (CreateShell E c sz d w)) = (ws @ [n], own(n \<mapsto> c), Suc n, p, q, live)"
    using assms(2) unfolding CreateShell_tabs [OF assms(1)] Shell_ctor_tabs [OF assms(1)]
    by (auto simp: tabs_view_def)
  then show ?thesis
    using tabs_ok_create [OF assms(3-6)] by (simp add: windows_inv_def)
qed

definition with_contents :: "contents_id \<Rightarrow> web_contents \<Rightarrow> world \<Rightarrow> world" where
  "with_contents c tab w = w\<lparr>contents := (contents w)(c \<mapsto> tab)\<rparr>"

lemma tabs_view_with_contents:
  "tabs_view (with_contents c tab w) =
     (windows w, (\<lambda>s. shell_contents s w), next_shell w, g_auth_popup_contents (globals w),
      g_auth_popup_opener (globals w), insert c (dom (contents w)))"
  by (simp add: with_contents_def tabs_view_def shell_contents_def)

lemma fresh_not_owned:
  "windows_inv w \<Longrightarrow> c \<notin> dom (contents w) \<Longrightarrow> s \<in> set (windows w) \<Longrightarrow> shell_contents s w \<noteq> Some c"
  using windows_inv_owner by fastforce

lemma with_contents_ok:
  "windows_inv w \<Longrightarrow> tabs_ok (tabs_view (with_contents c tab w))"
  by (simp add: windows_inv_def tabs_view_with_contents tabs_ok_add_live)
    (simp add: tabs_view_def tabs_ok_add_live)

lemma CreateNewWindow_unfold:
  "CreateNewWindow E u c tab sz w =
     (let w1 = (case windows w of [] \<Rightarrow> w | s # _ \<Rightarrow> BlinkDiscardBackgroundTabs E (Some s) w);
          w2 = diag ''TAB_MANAGER: new tab created via CreateNewWindow'' [] w1;
          (blocked, w3) = ShouldBlockNewWebContents E ''CreateNewWindow'' u w2 in
      if blocked then (None, diag ''TAB_MANAGER: new tab blocked (extreme memory)'' [] w3)
      else
        (let (sz', w4) = AdjustWindowSize E sz (with_contents c tab w3);
             (s, w5) = CreateShell E c sz' True w4
         in (Some s, only_if (\<not> url_is_empty u) (LoadURL E s u) w5)))"
  by (simp add: CreateNewWindow_def with_contents_def world_simps ret_def Let_def case_prod_unfold
      split: list.splits)

lemma CreateNewWindow_inv:
  assumes E: "engine_keeps_tabs E" and inv: "windows_inv w" and c: "c \<notin> dom (contents w)"
  shows "windows_inv (snd (CreateNewWindow E u c tab sz w))"
proof -
  define w1 where "w1 = (case windows w of [] \<Rightarrow> w | s # _ \<Rightarrow> BlinkDiscardBackgroundTabs E (Some s) w)"
  define w3 where "w3 = snd (ShouldBlockNewWebContents E ''CreateNewWindow'' u
      (diag ''TAB_MANAGER: new tab created via CreateNewWindow'' [] w1))"
  define w4 where "w4 = snd (AdjustWindowSize E sz (with_contents c tab w3))"
  have t1: "tabs_view w1 = tabs_view w"
    using E by (simp add: w1_def shell_frame split: list.splits)
  then have t3: "tabs_view w3 = tabs_view w" by (simp add: w3_def shell_frame)
  then have inv3: "windows_inv w3" by (simp add: windows_inv_frame inv)
  have c3: "c \<notin> dom (contents w3)" using t3 c by (simp add: tabs_view_def)
  have t4: "tabs_view w4 = tabs_view (with_contents c tab w3)" by (simp add: w4_def shell_frame)
  have "windows_inv (snd (CreateShell E c sz' d w4))" for sz' d
    using with_contents_ok [OF inv3, of c tab] fresh_not_owned [OF inv3 c3]
      inv3 [unfolded windows_inv_def tabs_view_def tabs_ok.simps]
    by (intro CreateShell_inv [OF E t4 [unfolded tabs_view_with_contents]])
      (simp_all add: tabs_view_with_contents)
  moreover have "windows_inv (only_if b (LoadURL E s' u) v)" if "windows_inv v" for b s' v
    using that windows_inv_frame [OF LoadURLForFrame_frame(1) [OF E]] by (simp add: only_if_def LoadURL_def)
  moreover have "windows_inv (diag f as w3)" for f as
    using inv3 by (simp add: windows_inv_def)
  ultimately show ?thesis
    unfolding CreateNewWindow_unfold Let_def w1_def [symmetric]
    by (simp add: case_prod_unfold w3_def w4_def)
qed

lemma AddNewContents_inv:
  assumes E: "engine_keeps_tabs E" and inv: "windows_inv w" and c: "c \<notin> dom (contents w)"
    and src: "\<forall>x \<in> set_option source. owned w x"
  shows "windows_inv (snd (AddNewContents E s source c u d sz (with_contents c tab w)))"
proof -
  let ?w = "with_contents c tab w"
  note ok = with_contents_ok [OF inv, of c tab, unfolded tabs_view_with_contents]
  note fresh = fresh_not_owned [OF inv c]
  have trackers: "\<forall>x \<in> set_option (g_auth_popup_contents (globals w)) \<union> set_option (g_auth_popup_opener (globals w)).
      \<exists>s \<in> set (windows w). shell_contents s w = Some x"
    using inv by (simp add: windows_inv_def tabs_view_def tabs_ok.simps)
  have popup: "windows_inv (snd (CreateShell E c sz' True v))"
    if "tabs_view v = (windows w, (\<lambda>s. shell_contents s w), next_shell w, Some c, source, insert c (dom (contents w)))"
    for sz' v
    using fresh src by (intro CreateShell_inv [OF E that ok]) (auto simp: owned_def)
  have plain: "windows_inv (snd (CreateShell E c sz' b v))" if "tabs_view v = tabs_view ?w" for sz' b v
    using fresh trackers by (intro CreateShell_inv [OF E that [unfolded tabs_view_with_contents] ok]) auto
  have freed: "windows_inv (free_contents (Some c) v)" if "tabs_view v = tabs_view ?w" for v
  proof -
    have "tabs_view (free_contents (Some c) v) =
        (windows w, (\<lambda>s. shell_contents s w), next_shell w, g_auth_popup_contents (globals w),
         g_auth_popup_opener (globals w), insert c (dom (contents w)) - {c})"
      using that [unfolded tabs_view_with_contents]
      by (auto simp: free_contents_def tabs_view_def shell_contents_def)
    with tabs_ok_free [OF ok, of c] fresh show ?thesis by (simp add: windows_inv_def)
  qed
  have step: "windows_inv (emit E x v) \<longleftrightarrow> windows_inv v" "windows_inv (diag f as v) \<longleftrightarrow> windows_inv v" for x f as v
    using E by (simp_all add: windows_inv_def)
  have tv: "tabs_view (assign (\<lambda>g. g\<lparr>g_auth_popup_contents := Some c, g_auth_popup_opener := source\<rparr>)
        (diag f3 a3 (diag f2 a2 (diag f1 a1 ?w)))) =
      (windows w, (\<lambda>s. shell_contents s w), next_shell w, Some c, source, insert c (dom (contents w)))"
    for f1 a1 f2 a2 f3 a3
    by (simp add: tabs_view_def with_contents_def shell_contents_def)
  show ?thesis
    using E
    by (simp add: AddNewContents_def world_simps ret_def case_prod_unfold step only_if_def popup plain freed
        tv shell_frame split: option.splits)
qed

lemma tabs_ok_forget: "tabs_ok (ws, own, n, p, q, live) \<Longrightarrow> tabs_ok (ws, own, n, None, None, live)"
  by (simp add: tabs_ok.simps)

lemma CloseContents_inv:
  assumes E: "engine_keeps_tabs E" and inv: "windows_inv w" and s: "s \<in> set (windows w)"
  shows "windows_inv (CloseContents E s source w)"
proof -
  have re: "tabs_view (BlinkShellWillCloseReactivate E s o' v) = tabs_view v" for o' v
    using E by (simp add: BlinkShellWillCloseReactivate_def Let_def split: option.splits)
  have clr: "windows_inv (assign (\<lambda>g. g\<lparr>g_auth_popup_contents := None, g_auth_popup_opener := None\<rparr>) v)"
    if "windows_inv v" for v
    using that tabs_ok_forget by (simp add: windows_inv_def tabs_view_def shell_contents_def)
  let ?v = "BlinkShellWillCloseReactivate E s (g_auth_popup_opener (globals w))
      (diag ''AUTH_POPUP_GUARD: script window close'' [] w)"
  have "tabs_view ?v = tabs_view w" by (simp add: re)
  with inv s have v: "windows_inv ?v" "s \<in> set (windows ?v)"
    by (simp_all add: windows_inv_def) (simp add: tabs_view_def)
  show ?thesis
    using v clr [OF v(1)] Close_inv [OF E]
    by (simp add: CloseContents_def world_simps only_if_def)
qed

lemma Shutdown_inv:
  assumes E: "engine_keeps_tabs E" and "windows_inv w"
  shows "windows_inv (Shutdown E w)"
proof -
  have em: "windows_inv (emit E x v) \<longleftrightarrow> windows_inv v" for x v
    using E by (simp add: windows_inv_def)
  have pow: "windows_inv ((emit E x ^^ n) v) \<longleftrightarrow> windows_inv v" for x n v
    by (induction n) (simp_all add: em)
  have upd: "windows_inv (v\<lparr>has_platform := b\<rparr>) \<longleftrightarrow> windows_inv v"
    "windows_inv (v\<lparr>quit_closure := b\<rparr>) \<longleftrightarrow> windows_inv v" for v b
    by (simp_all add: windows_inv_def)
  show ?thesis
    using assms(2) close_all_inv [OF E] by (simp add: Shutdown_def world_simps only_if_def em pow upd)
qed

lemma pow_emit_selectors [simp]:
  "windows ((emit E c ^^ n) w) = windows w" "has_platform ((emit E c ^^ n) w) = has_platform w"
  "quit_closure ((emit E c ^^ n) w) = quit_closure w"
  by (induction n) simp_all

text \<open>
  C10: shutting down terminates with every window closed, the platform released and the quit
  closure spent, from any number of windows; a second shutdown does nothing.
\<close>

theorem shutdown_complete:
  assumes "has_platform w"
  shows "windows (Shutdown E w) = [] \<and> \<not> has_platform (Shutdown E w) \<and> \<not> quit_closure (Shutdown E w) \<and>
    Shutdown E (Shutdown E w) = Shutdown E w"
  using assms by (simp add: Shutdown_def world_simps only_if_def close_all_windows)

subsection \<open>Frames of the event handlers\<close>

lemma keyboard_frame [shell_frame]:
  "tabs_view (UpdateKeyboardChatFallback E u w) = tabs_view w"
  "private_session E \<Longrightarrow> private_except X (UpdateKeyboardChatFallback E u w) = private_except X w"
  by (simp_all add: UpdateKeyboardChatFallback_def Let_def only_if_def)

lemma RecordLoadStart_frame [shell_frame]:
  "tabs_view (RecordLoadStart E w) = tabs_view w" "private_except X (RecordLoadStart E w) = private_except X w"
  by (simp_all add: RecordLoadStart_def)

lemma heartbeat_frame [shell_frame]:
  "tabs_view (StartHeavyHeartbeatIfNeeded u w) = tabs_view w"
  "private_except X (StartHeavyHeartbeatIfNeeded u w) = private_except X w"
  "tabs_view (StoreRecentHeartbeat E e w) = tabs_view w"
  "private_except X (StoreRecentHeartbeat E e w) = private_except X w"
  by (simp_all add: StartHeavyHeartbeatIfNeeded_def StoreRecentHeartbeat_def Let_def)

lemma HeavyHeartbeatTick_frame [shell_frame]:
  "engine_keeps_tabs E \<Longrightarrow> tabs_view (HeavyHeartbeatTick E w) = tabs_view w"
  "private_session E \<Longrightarrow> private_except X (HeavyHeartbeatTick E w) = private_except X w"
  by (simp_all add: HeavyHeartbeatTick_def ai_site_guard_def world_simps Let_def only_if_def shell_frame
      split: option.splits)

lemma UpdateNavigationControls_frame [shell_frame]:
  "engine_keeps_tabs E \<Longrightarrow> tabs_view (UpdateNavigationControls E s b w) = tabs_view w"
  "private_except X (UpdateNavigationControls E s b w) = private_except X w"
  by (simp_all add: UpdateNavigationControls_def world_simps Let_def split: option.splits)

lemma LoadingStateChanged_frame [shell_frame]:
  "engine_keeps_tabs E \<Longrightarrow> tabs_view (LoadingStateChanged E s c b w) = tabs_view w"
  "private_session E \<Longrightarrow> private_except X (LoadingStateChanged E s c b w) = private_except X w"
  by (simp_all add: LoadingStateChanged_def world_simps Let_def shell_frame case_prod_unfold
      split: option.splits)

lemma update_shell_frame [shell_frame]:
  "(\<And>sh. shell_web_contents (f sh) = shell_web_contents sh) \<Longrightarrow> tabs_view (update_shell s f w) = tabs_view w"
  "private_except X (update_shell s f w) = private_except X w"
  by (auto simp: update_shell_def tabs_view_def shell_contents_def fun_eq_iff split: bind_splits)

text \<open>The format strings of the two statements that write unguarded URLs.\<close>

definition detector_formats :: "string set" where
  "detector_formats = {''AUTH_FLOW: repeated url=%s'', ''AUTH_FLOW:   [%zu]=%s''}"

lemma RecordAuth_frame [shell_frame]:
  "tabs_view (RecordAuthUrlAndDetectLoop E u w) = tabs_view w"
  "private_except detector_formats (RecordAuthUrlAndDetectLoop E u w) = private_except detector_formats w"
proof -
  show "tabs_view (RecordAuthUrlAndDetectLoop E u w) = tabs_view w"
    by (simp add: tabs_view_def shell_contents_def push_auth_def record_auth_url_def)
  have "private_except detector_formats (fold (auth_dump_line g) is v) = private_except detector_formats v" for g "is" v
    by (induction "is" arbitrary: v)
      (simp_all add: auth_dump_line_def Let_def only_if_def detector_formats_def)
  then show "private_except detector_formats (RecordAuthUrlAndDetectLoop E u w) = private_except detector_formats w"
    by (simp add: RecordAuthUrlAndDetectLoop_def Let_def only_if_def) (simp add: detector_formats_def)
qed

lemma DidStartNavigation_frame [shell_frame]:
  "tabs_view (DidStartNavigation E h w) = tabs_view w"
  "private_session E \<Longrightarrow>
     private_except detector_formats (DidStartNavigation E h w) = private_except detector_formats w"
  by (simp_all add: DidStartNavigation_def Let_def shell_frame)

lemma DidRedirectNavigation_frame [shell_frame]:
  "engine_keeps_tabs E \<Longrightarrow> tabs_view (DidRedirectNavigation E h w) = tabs_view w"
  "private_session E \<Longrightarrow>
     private_except detector_formats (DidRedirectNavigation E h w) = private_except detector_formats w"
  by (simp_all add: DidRedirectNavigation_def mweb_breaker_def Let_def world_simps only_if_def shell_frame)

lemma extensions_frame [shell_frame]:
  "engine_keeps_tabs E \<Longrightarrow> tabs_view (BlinkApplyPageZoom E c u w) = tabs_view w"
  "private_except X (BlinkApplyPageZoom E c u w) = private_except X w"
  "engine_keeps_tabs E \<Longrightarrow> tabs_view (BlinkInjectCosmeticFilters E F c u w) = tabs_view w"
  "private_except X (BlinkInjectCosmeticFilters E F c u w) = private_except X w"
  "engine_keeps_tabs E \<Longrightarrow> tabs_view (BlinkApplySiteMode E c u w) = tabs_view w"
  "private_except X (BlinkApplySiteMode E c u w) = private_except X w"
  by (simp_all add: BlinkApplyPageZoom_def BlinkSetPageZoom_def BlinkInjectCosmeticFilters_def
      BlinkApplySiteMode_def WriteHostFlag_def Let_def split: option.splits)

lemma FlushAndDiagnose_frame [shell_frame]:
  "engine_keeps_tabs E \<Longrightarrow> tabs_view (FlushAndDiagnoseAuthCookies E c w) = tabs_view w"
  "private_except X (FlushAndDiagnoseAuthCookies E c w) = private_except X w"
  by (simp_all add: FlushAndDiagnoseAuthCookies_def split: option.splits)

lemma log_last_redirects_frame [shell_frame]:
  "tabs_view (log_last_redirects E ch w) = tabs_view w"
  "private_session E \<Longrightarrow> private_except X (log_last_redirects E ch w) = private_except X w"
proof -
  have "tabs_view (fold (\<lambda>i. diag f (a i)) xs v) = tabs_view v" for f a and xs :: "nat list" and v
    by (induction xs arbitrary: v) simp_all
  then show "tabs_view (log_last_redirects E ch w) = tabs_view w"
    by (simp add: log_last_redirects_def Let_def)
  assume "private_session E"
  then have "private_except X (fold (\<lambda>i. diag f [LNum i, url_arg E (ch ! i)]) xs v) = private_except X v" for f xs v
    by (induction xs arbitrary: v) simp_all
  then show "private_except X (log_last_redirects E ch w) = private_except X w"
    by (simp add: log_last_redirects_def Let_def)
qed

lemma DidFinishNavigation_frame [shell_frame]:
  "engine_keeps_tabs E \<Longrightarrow> tabs_view (DidFinishNavigation E F s h w) = tabs_view w"
  "private_session E \<Longrightarrow> private_except X (DidFinishNavigation E F s h w) = private_except X w"
  by (simp_all add: DidFinishNavigation_def Let_def world_simps only_if_def shell_frame)

lemma ToggleFullscreen_frame [shell_frame]:
  "engine_keeps_tabs E \<Longrightarrow> tabs_view (ToggleFullscreenModeForTab E s c b w) = tabs_view w"
  "private_except X (ToggleFullscreenModeForTab E s c b w) = private_except X w"
  by (simp_all add: ToggleFullscreenModeForTab_def world_simps only_if_def shell_frame split: option.splits)

lemma run_task_frame [shell_frame]:
  "engine_keeps_tabs E \<Longrightarrow> tabs_view (run_task E t w) = tabs_view w"
  "private_session E \<Longrightarrow> private_except X (run_task E t w) = private_except X w"
  by (simp_all add: run_task_def ShowOOMGuardPage_def LoadDataWithBaseURL_def LoadDataWithBaseURLInternal_def
      StopFrontShellLoad_def BreakChatGPTMwebLoop_def LoadURL_def world_simps Let_def only_if_def
      case_prod_unfold shell_frame split: task.splits list.splits option.splits)

lemma OpenURLFromTab_frame [shell_frame]:
  "engine_keeps_tabs E \<Longrightarrow> tabs_view (snd (OpenURLFromTab E c p a b w)) = tabs_view w"
  "private_except X (snd (OpenURLFromTab E c p a b w)) = private_except X w"
  by (simp_all add: OpenURLFromTab_def world_simps Let_def only_if_def ret_def)

lemma CreateNewWindow_private [shell_frame]:
  "private_session E \<Longrightarrow> private_except X (snd (CreateNewWindow E u c tab sz w)) = private_except X w"
  by (simp add: CreateNewWindow_unfold with_contents_def LoadURL_def Let_def only_if_def case_prod_unfold shell_frame
      split: list.splits)

lemma AddNewContents_private [shell_frame]:
  "private_session E \<Longrightarrow>
     private_except X (snd (AddNewContents E s src c u d sz w)) = private_except X w"
  by (simp add: AddNewContents_def world_simps ret_def case_prod_unfold only_if_def free_contents_def shell_frame
      split: option.splits)

lemma CloseContents_private [shell_frame]:
  "private_except X (CloseContents E s c w) = private_except X w"
  by (simp add: CloseContents_def BlinkShellWillCloseReactivate_def world_simps only_if_def Let_def shell_frame
      split: option.splits)

lemma Shutdown_private [shell_frame]: "private_except X (Shutdown E w) = private_except X w"
proof -
  have "private_except X ((emit E DisableRefCounts ^^ n) v) = private_except X v" for n v
    by (induction n) simp_all
  then show ?thesis by (simp add: Shutdown_def world_simps only_if_def shell_frame)
qed

subsection \<open>Every reachable world\<close>

text \<open>
  One rule for each entry point of the shell, with what the caller guarantees: a Shell that is
  called is one of the open windows, a WebContents handed over is new, an opener is a tab.
  \<open>engine\<close> is the content library changing its pages on its own, \<open>defaults\<close> the settings screen
  writing user defaults.
\<close>

inductive shell_step :: "browser_env \<Rightarrow> content_filter \<Rightarrow> world \<Rightarrow> world \<Rightarrow> bool" for E F where
  initialize: "shell_step E F w (Initialize E w)"
| load: "s \<in> set (windows w) \<Longrightarrow> shell_step E F w (LoadURLForFrame E s u f t w)"
| task: "PostTask t \<in> set (trace w) \<Longrightarrow> shell_step E F w (run_task E t w)"
| new_window: "c \<notin> dom (contents w) \<Longrightarrow> shell_step E F w (snd (CreateNewWindow E u c tab sz w))"
| add_contents: "s \<in> set (windows w) \<Longrightarrow> c \<notin> dom (contents w) \<Longrightarrow> \<forall>x \<in> set_option src. owned w x \<Longrightarrow>
    shell_step E F w (snd (AddNewContents E s src c u d sz (with_contents c tab w)))"
| open_url: "owned w c \<Longrightarrow> shell_step E F w (snd (OpenURLFromTab E c p a b w))"
| close: "s \<in> set (windows w) \<Longrightarrow> shell_step E F w (Close E s w)"
| close_contents: "s \<in> set (windows w) \<Longrightarrow> shell_step E F w (CloseContents E s (shell_contents s w) w)"
| shutdown: "shell_step E F w (Shutdown E w)"
| loading_state: "s \<in> set (windows w) \<Longrightarrow> shell_contents s w = Some c \<Longrightarrow>
    shell_step E F w (LoadingStateChanged E s c b w)"
| start_navigation: "shell_step E F w (DidStartNavigation E h w)"
| redirect_navigation: "shell_step E F w (DidRedirectNavigation E h w)"
| finish_navigation: "s \<in> set (windows w) \<Longrightarrow> shell_step E F w (DidFinishNavigation E F s h w)"
| heartbeat: "heartbeat_timer_running w \<Longrightarrow> shell_step E F w (HeavyHeartbeatTick E w)"
| fullscreen: "s \<in> set (windows w) \<Longrightarrow> shell_step E F w (ToggleFullscreenModeForTab E s (shell_contents s w) b w)"
| file_chooser: "s \<in> set (windows w) \<Longrightarrow> shell_step E F w (RunFileChooser E s l w)"
| directory: "s \<in> set (windows w) \<Longrightarrow> shell_step E F w (EnumerateDirectory E s l w)"
| devtools: "s \<in> set (windows w) \<Longrightarrow> shell_step E F w ((if b then ShowDevTools E s else CloseDevTools E s) w)"
| toolbar: "s \<in> set (windows w) \<Longrightarrow> g \<in> {Reload E s, ReloadBypassingCache E s, Shell_Stop E s, GoBackOrForward E s i} \<Longrightarrow>
    shell_step E F w (g w)"
| engine: "dom h = dom (contents w) \<Longrightarrow> shell_step E F w (w\<lparr>contents := h\<rparr>)"
| defaults: "shell_step E F w (w\<lparr>prefs := p\<rparr>)"

inductive shell_reachable :: "browser_env \<Rightarrow> content_filter \<Rightarrow> world \<Rightarrow> bool" for E F where
  start: "shell_reachable E F initial_world"
| step: "shell_reachable E F w \<Longrightarrow> shell_step E F w w' \<Longrightarrow> shell_reachable E F w'"

lemma remaining_frame [shell_frame]:
  "engine_keeps_tabs E \<Longrightarrow> tabs_view (Initialize E w) = tabs_view w"
  "private_except X (Initialize E w) = private_except X w"
  "engine_keeps_tabs E \<Longrightarrow> tabs_view (RunFileChooser E s l w) = tabs_view w"
  "private_except X (RunFileChooser E s l w) = private_except X w"
  "engine_keeps_tabs E \<Longrightarrow> tabs_view (EnumerateDirectory E s l w) = tabs_view w"
  "private_except X (EnumerateDirectory E s l w) = private_except X w"
  "engine_keeps_tabs E \<Longrightarrow> tabs_view (ShowDevTools E s w) = tabs_view w"
  "private_except X (ShowDevTools E s w) = private_except X w"
  "engine_keeps_tabs E \<Longrightarrow> tabs_view (CloseDevTools E s w) = tabs_view w"
  "private_except X (CloseDevTools E s w) = private_except X w"
  by (simp_all add: Initialize_def GetShellDefaultSize_def RunFileChooser_def EnumerateDirectory_def
      ShowDevTools_def CloseDevTools_def world_simps only_if_def Let_def shell_frame)

lemma toolbar_frame [shell_frame]:
  assumes "g \<in> {Reload E s, ReloadBypassingCache E s, Shell_Stop E s, GoBackOrForward E s i}"
  shows "engine_keeps_tabs E \<Longrightarrow> tabs_view (g w) = tabs_view w" "private_except X (g w) = private_except X w"
  using assms
  by (auto simp: Reload_def ReloadBypassingCache_def Shell_Stop_def GoBackOrForward_def on_contents_def
      world_simps split: option.splits)

lemma shell_step_inv:
  assumes "shell_step E F w w'" and E: "engine_keeps_tabs E" and inv: "windows_inv w"
  shows "windows_inv w'"
  using assms(1)
proof cases
  case (new_window c u tab sz)
  then show ?thesis using CreateNewWindow_inv [OF E inv] by simp
next
  case (add_contents s c src u d sz tab)
  then show ?thesis using AddNewContents_inv [OF E inv] by simp
next
  case (close s)
  then show ?thesis using Close_inv [OF E inv] by simp
next
  case (close_contents s)
  then show ?thesis using CloseContents_inv [OF E inv] by simp
next
  case shutdown
  then show ?thesis using Shutdown_inv [OF E inv] by simp
next
  case (toolbar s g i)
  then show ?thesis using toolbar_frame(1) [OF _ E] inv by (simp add: windows_inv_def)
next
  case (engine h)
  then show ?thesis using inv by (simp add: windows_inv_def tabs_view_def shell_contents_def)
next
  case (defaults p)
  then show ?thesis using inv by (simp add: windows_inv_def tabs_view_def shell_contents_def)
qed (use E inv in \<open>simp_all add: windows_inv_def shell_frame\<close>)

lemma shell_step_private:
  assumes "shell_step E F w w'" and "private_session E" and "private_except detector_formats w"
  shows "private_except detector_formats w'"
  using assms(1)
proof cases
  case (add_contents s c src u d sz tab)
  then show ?thesis using assms(2,3) by (simp add: shell_frame) (simp add: with_contents_def)
next
  case (toolbar s g i)
  then show ?thesis using toolbar_frame(2) assms(3) by simp
next
  case (defaults p)
  then show ?thesis using assms(3) by (simp add: private_except_def)
qed (use assms(2,3) in \<open>simp_all add: shell_frame\<close>)

lemma reachable_windows_inv:
  "shell_reachable E F w \<Longrightarrow> engine_keeps_tabs E \<Longrightarrow> windows_inv w"
proof (induction rule: shell_reachable.induct)
  case start
  show ?case
    by (simp add: windows_inv_def tabs_view_def tabs_ok.simps initial_world_def initial_globals_def)
next
  case (step w w')
  then show ?case using shell_step_inv by blast
qed

text \<open>
  C8: whatever the shell has been through, its bookkeeping of tabs is sound: the windows are
  distinct, each owns a live WebContents that no other window owns, and neither pointer kept
  for an authentication popup dangles: each is null or points to a live tab of some window.
\<close>

theorem reachable_tabs_sound:
  assumes "engine_keeps_tabs E" and "shell_reachable E F w"
  shows "distinct (windows w) \<and>
    (\<forall>s \<in> set (windows w). \<exists>c. shell_contents s w = Some c \<and> contents w c \<noteq> None) \<and>
    (\<forall>s \<in> set (windows w). \<forall>s' \<in> set (windows w). shell_contents s w = shell_contents s' w \<longrightarrow> s = s') \<and>
    (\<forall>c. g_auth_popup_contents (globals w) = Some c \<or> g_auth_popup_opener (globals w) = Some c \<longrightarrow>
       owned w c \<and> contents w c \<noteq> None)"
proof -
  have inv: "windows_inv w" using reachable_windows_inv [OF assms(2,1)] .
  then have t: "distinct (windows w)" "inj_on (\<lambda>s. shell_contents s w) (set (windows w))"
    "\<forall>c \<in> set_option (g_auth_popup_contents (globals w)) \<union> set_option (g_auth_popup_opener (globals w)). owned w c"
    unfolding windows_inv_def tabs_view_def tabs_ok.simps owned_def by blast+
  have live: "contents w c \<noteq> None" if "owned w c" for c
    using that windows_inv_owner [OF inv] unfolding owned_def by force
  have "owned w c" if "g_auth_popup_contents (globals w) = Some c \<or> g_auth_popup_opener (globals w) = Some c" for c
    using t(3) that by auto
  moreover have "\<exists>c. shell_contents s w = Some c \<and> contents w c \<noteq> None" if "s \<in> set (windows w)" for s
    using windows_inv_owner [OF inv that] unfolding domIff .
  ultimately show ?thesis
    using t(1,2) live unfolding inj_on_def by blast
qed

text \<open>
  in a private session no log statement the shell ever makes carries a page URL or host,
  whatever it has been through, with the single exception of the redirect-loop detector's two
  statements.
\<close>

lemma private_session_log:
  assumes "private_session E" and "shell_reachable E F w"
  shows "\<forall>l. Log l \<in> set (trace w) \<longrightarrow> line_private l \<or> log_format l \<in> detector_formats"
proof -
  have "private_except detector_formats w"
    using assms(2)
  proof induction
    case start
    show ?case by (simp add: private_except_def initial_world_def)
  next
    case (step w w')
    then show ?case using shell_step_private [OF _ assms(1)] by blast
  qed
  then show ?thesis unfolding private_except_def list_all_iff by force
qed

subsection \<open>New tabs\<close>

lemma queries_discard [simp]: "queries (BlinkDiscardBackgroundTabs E k w) = queries w"
  "mem_cache (BlinkDiscardBackgroundTabs E k w) = mem_cache w"
  by (simp_all add: BlinkDiscardBackgroundTabs_def BlinkDiscardBackgroundTabsExcept_def)

lemma ShouldBlockNewWebContents_result:
  "fst (ShouldBlockNewWebContents E p u w) \<longleftrightarrow>
     windows w \<noteq> [] \<and> next_threshold BlockNewContentsFootprint E w \<le> next_footprint E w"
  by (simp add: ShouldBlockNewWebContents_def world_simps ret_def next_threshold_def next_footprint_def)
    (auto simp: not_less)

definition new_tab_refused :: "browser_env \<Rightarrow> world \<Rightarrow> bool" where
  "new_tab_refused E w \<longleftrightarrow>
     windows w \<noteq> [] \<and> next_threshold BlockNewContentsFootprint E w \<le> next_footprint E w"

lemma windows_of_tabs: "tabs_view w' = tabs_view w \<Longrightarrow> windows w' = windows w \<and> next_shell w' = next_shell w"
  by (simp add: tabs_view_def)

lemma windows_LoadURL [simp]: "engine_keeps_tabs E \<Longrightarrow> windows (LoadURL E s u w) = windows w"
  using windows_of_tabs [OF LoadURLForFrame_frame(1)] by (simp add: LoadURL_def)

lemma windows_CreateShell [simp]:
  "fst (CreateShell E c sz d w) = next_shell w"
  "windows (snd (CreateShell E c sz d w)) = windows w @ [next_shell w]"
  by (simp_all add: CreateShell_def Shell_ctor_def alloc_shell_def run_created_callback_def world_simps ret_def
      only_if_def split: option.splits)

lemma CreateNewWindow_result:
  assumes E: "engine_keeps_tabs E"
  shows "fst (CreateNewWindow E u c tab sz w) = (if new_tab_refused E w then None else Some (next_shell w))"
    "windows (snd (CreateNewWindow E u c tab sz w)) =
       (if new_tab_refused E w then windows w else windows w @ [next_shell w])"
proof -
  define w1 where "w1 = (case windows w of [] \<Rightarrow> w | s # _ \<Rightarrow> BlinkDiscardBackgroundTabs E (Some s) w)"
  have t1: "windows w1 = windows w" "next_shell w1 = next_shell w" "queries w1 = queries w" "mem_cache w1 = mem_cache w"
    using windows_of_tabs [OF discard_frame(1) [OF E]]
    by (simp_all add: w1_def split: list.splits)
  let ?w2 = "diag ''TAB_MANAGER: new tab created via CreateNewWindow'' [] w1"
  let ?b = "ShouldBlockNewWebContents E ''CreateNewWindow'' u ?w2"
  have blocked: "fst ?b \<longleftrightarrow> new_tab_refused E w"
    using t1 by (simp add: ShouldBlockNewWebContents_result new_tab_refused_def next_threshold_def next_footprint_def)
  have t3: "windows (snd ?b) = windows w" "next_shell (snd ?b) = next_shell w"
    using windows_of_tabs [OF ShouldBlockNewWebContents_frame(1)] t1 by simp_all
  have t4: "windows (snd (AdjustWindowSize E sz (with_contents c tab (snd ?b)))) = windows w"
    "next_shell (snd (AdjustWindowSize E sz (with_contents c tab (snd ?b)))) = next_shell w"
    using windows_of_tabs [OF AdjustWindowSize_frame(1)] t3 by (simp_all add: with_contents_def)
  show "fst (CreateNewWindow E u c tab sz w) = (if new_tab_refused E w then None else Some (next_shell w))"
    "windows (snd (CreateNewWindow E u c tab sz w)) =
       (if new_tab_refused E w then windows w else windows w @ [next_shell w])"
    unfolding CreateNewWindow_unfold Let_def w1_def [symmetric]
    using blocked t3 t4 E by (simp_all add: case_prod_unfold only_if_def)
qed

text \<open>
  the New Tab button opens a separate tab of its own, appended to the windows, or nothing:
  it never answers with an existing window.  It is refused exactly when a window exists and the
  footprint has reached the block threshold, so the first window always opens.
\<close>

lemma new_tab_exact:
  assumes "engine_keeps_tabs E"
  shows "fst (CreateNewWindow E u c tab sz w) = (if new_tab_refused E w then None else Some (next_shell w)) \<and>
    windows (snd (CreateNewWindow E u c tab sz w)) =
      (if new_tab_refused E w then windows w else windows w @ [next_shell w])"
  using CreateNewWindow_result [OF assms] by blast

text \<open>
  opening a URL through the browser client dereferences a null Shell exactly when the memory
  guard refuses the new tab; otherwise it does not crash.
\<close>

lemma open_url_crash_iff:
  assumes "engine_keeps_tabs E"
  shows "fst (OpenURL E u c tab w) = Inl NullDereference \<longleftrightarrow> new_tab_refused E w"
  using CreateNewWindow_result(1) [OF assms, of u c tab "gfx_size E 0 0" w]
  by (simp add: OpenURL_def world_simps ret_def case_prod_unfold split: option.splits)

subsection \<open>The redirect breaker\<close>

datatype nav_event =
    NavStart NavigationHandle | NavRedirect NavigationHandle | NavFinish shell_id NavigationHandle

fun handle_nav :: "browser_env \<Rightarrow> content_filter \<Rightarrow> nav_event \<Rightarrow> world \<Rightarrow> world" where
  "handle_nav E F (NavStart h) = DidStartNavigation E h"
| "handle_nav E F (NavRedirect h) = DidRedirectNavigation E h"
| "handle_nav E F (NavFinish s h) = DidFinishNavigation E F s h"

text \<open>A finished main-frame navigation to a page outside the flow ends the flow.\<close>

fun ends_flow :: "nav_event \<Rightarrow> bool" where
  "ends_flow (NavFinish s h) \<longleftrightarrow> IsInPrimaryMainFrame h \<and> \<not> IsAuthFlowURL (GetURL h)"
| "ends_flow _ \<longleftrightarrow> False"

fun is_retry :: "call \<Rightarrow> bool" where
  "is_retry (PostTask (BreakChatGPTMwebLoop_task u)) \<longleftrightarrow> True"
| "is_retry _ \<longleftrightarrow> False"

definition retries :: "world \<Rightarrow> nat" where
  "retries w = length (filter is_retry (actions w))"

definition breaker_left :: "world \<Rightarrow> nat" where
  "breaker_left w = (if g_chatgpt_auth_breaker_used (globals w) then 0 else 1)"

lemma retries_simps [simp]:
  "retries (diag f as w) = retries w" "retries (assign g w) = retries w"
  "retries (emit E (Page x) w) = retries w" "retries (emit E (PostTask t) w) = retries w + (if is_retry (PostTask t) then 1 else 0)"
  "retries (RecordAuthUrlAndDetectLoop E u w) = retries w" "retries (set_pref k v w) = retries w"
  "retries (w\<lparr>force_desktop_site := i\<rparr>) = retries w"
  by (simp_all add: retries_def) (simp_all add: actions_def)

lemma retries_extensions [simp]:
  "retries (BlinkApplyPageZoom E c u w) = retries w" "retries (BlinkInjectCosmeticFilters E F c u w) = retries w"
  "retries (BlinkApplySiteMode E c u w) = retries w" "retries (FlushAndDiagnoseAuthCookies E c w) = retries w"
  "retries (UpdateKeyboardChatFallback E u w) = retries w"
  "globals (BlinkApplyPageZoom E c u w) = globals w" "globals (BlinkInjectCosmeticFilters E F c u w) = globals w"
  "globals (BlinkApplySiteMode E c u w) = globals w" "globals (FlushAndDiagnoseAuthCookies E c w) = globals w"
  by (simp_all add: BlinkApplyPageZoom_def BlinkSetPageZoom_def BlinkInjectCosmeticFilters_def
      BlinkApplySiteMode_def WriteHostFlag_def FlushAndDiagnoseAuthCookies_def UpdateKeyboardChatFallback_def
      Let_def only_if_def split: option.splits)

lemma log_last_redirects_selectors [simp]:
  "retries (log_last_redirects E ch w) = retries w" "globals (log_last_redirects E ch w) = globals w"
proof -
  have "retries (fold (\<lambda>i. diag f (a i)) xs v) = retries v \<and> globals (fold (\<lambda>i. diag f (a i)) xs v) = globals v"
    for f a and xs :: "nat list" and v
    by (induction xs arbitrary: v) simp_all
  then show "retries (log_last_redirects E ch w) = retries w" "globals (log_last_redirects E ch w) = globals w"
    by (simp_all add: log_last_redirects_def Let_def)
qed

lemma breaker_used_keyboard [simp]:
  "g_chatgpt_auth_breaker_used (globals (UpdateKeyboardChatFallback E u w)) = g_chatgpt_auth_breaker_used (globals w)"
  by (simp add: UpdateKeyboardChatFallback_def Let_def only_if_def)

lemma breaker_budget:
  "\<not> ends_flow ev \<Longrightarrow> retries (handle_nav E F ev w) + breaker_left (handle_nav E F ev w) = retries w + breaker_left w"
proof (cases ev)
  case (NavStart h)
  then show ?thesis
    by (simp add: DidStartNavigation_def Let_def breaker_left_def push_auth_def record_auth_url_def)
next
  case (NavRedirect h)
  then show ?thesis
    by (simp add: DidRedirectNavigation_def mweb_breaker_def Let_def world_simps only_if_def breaker_left_def
        push_auth_def record_auth_url_def)
next
  case (NavFinish s h)
  assume "\<not> ends_flow ev"
  with NavFinish show ?thesis
    by (simp add: DidFinishNavigation_def Let_def world_simps only_if_def breaker_left_def)
qed

text \<open>
  C9: the recovery from the ChatGPT sign-in redirect loop is tried at most once per
  authentication flow: over any sequence of navigation events in which no page outside the flow
  is reached, at most one retry is posted, and none when one was posted before.
\<close>

theorem breaker_retries_once:
  assumes "\<forall>ev \<in> set evs. \<not> ends_flow ev"
  shows "retries (fold (handle_nav E F) evs w) + breaker_left (fold (handle_nav E F) evs w) = retries w + breaker_left w"
  using assms by (induction evs arbitrary: w) (simp_all add: breaker_budget)

text \<open>
  the sixth redirect of a ChatGPT mobile-web fallback, in the main frame of a flow, posts
  exactly one recovery task: the retry on the URL without the fallback parameter the first time,
  a plain stop afterwards.
\<close>

lemma breaker_posts:
  assumes "IsInPrimaryMainFrame h" and "IsAuthFlowURL (GetURL h)" and "IsChatGPTMwebFallback (GetURL h)"
    and "6 \<le> length (GetRedirectChain h)"
  shows "actions (DidRedirectNavigation E h w) = actions w @
      [PostTask (if g_chatgpt_auth_breaker_used (globals w) then StopFrontShellLoad_task
         else BreakChatGPTMwebLoop_task (AppendOrReplaceQueryParameter E (GetURL h) ''mweb_fallback'' None))] \<and>
    g_chatgpt_auth_breaker_used (globals (DidRedirectNavigation E h w))"
  using assms
  by (simp add: DidRedirectNavigation_def mweb_breaker_def Let_def world_simps only_if_def
      push_auth_def record_auth_url_def)

subsection \<open>Instances\<close>

lemma sample_keeps_tabs: "engine_keeps_tabs (sample_env f p)"
  by (auto simp: engine_keeps_tabs_def sample_env_def sample_react_def
      split: call.splits page_call.splits option.splits)

definition one_window :: "bool \<Rightarrow> world" where
  "one_window p = snd (CreateNewWindow (sample_env 0 p) empty_gurl 0 (sample_tab empty_gurl) (800, 600) initial_world)"

lemma one_window_reachable: "shell_reachable (sample_env 0 p) new_filter (one_window p)"
  unfolding one_window_def
  by (rule shell_reachable.step [OF shell_reachable.start shell_step.new_window]) (simp add: initial_world_def)

lemma one_window_windows: "windows (one_window p) = [0]"
  unfolding one_window_def by (cases p; code_simp)

theorem reachable_tabs_sound_witness:
  "windows (one_window False) = [0] \<and>
   (\<exists>c. shell_contents 0 (one_window False) = Some c \<and> contents (one_window False) c \<noteq> None)"
  using reachable_tabs_sound [OF sample_keeps_tabs one_window_reachable, of False]
  by (simp add: one_window_windows)

lemma private_session_log_witness:
  "[e \<leftarrow> trace (one_window True). case e of Log l \<Rightarrow> \<not> (line_private l \<or> log_format l \<in> detector_formats) | _ \<Rightarrow> False] = []"
  using private_session_log [OF _ one_window_reachable, of True]
  by (auto simp: sample_env_def filter_empty_conv split: call.splits)

theorem shutdown_complete_witness:
  "windows (Shutdown (sample_env 0 False) (sample_world (sample_tab empty_gurl))) = []"
  using shutdown_complete [of "sample_world (sample_tab empty_gurl)" "sample_env 0 False"]
  by (simp add: sample_world_def)

lemma load_url_exact_witness:
  "\<not> fst (fst (load_prelude (sample_env 0 False) 0 login_url [] (sample_world (sample_tab empty_gurl))))"
proof -
  let ?w = "sample_world (sample_tab empty_gurl)"
  obtain b cur w' where p: "load_prelude (sample_env 0 False) 0 login_url [] ?w = ((b, cur), w')"
    by (metis prod.exhaust)
  have "shell_contents 0 ?w = Some 0" by (simp add: shell_contents_def sample_world_def sample_shell_def)
  from load_url_exact [OF this p, of PAGE_TRANSITION_LINK]
  have "IsAuthFlowURL login_url \<longrightarrow> \<not> b" by blast
  moreover have "IsAuthFlowURL login_url" by (simp add: IsAuthFlowURL_def login_url_def sample_url_def)
  ultimately show ?thesis using p by simp
qed

lemma new_tab_exact_witness:
  "fst (CreateNewWindow (sample_env 0 False) empty_gurl 1 (sample_tab empty_gurl) (800, 600) initial_world) = Some 0"
  using new_tab_exact [OF sample_keeps_tabs, of 0 False empty_gurl 1 "sample_tab empty_gurl" "(800, 600)" initial_world]
  by (simp add: new_tab_refused_def initial_world_def)

text \<open>At 800 MiB of a 900 MiB ceiling a second tab is refused.\<close>

lemma sample_refused: "new_tab_refused (sample_env (800 * 1024 * 1024) False) (sample_world (sample_tab empty_gurl))"
  by (simp add: new_tab_refused_def next_threshold_def next_footprint_def BlockNewContentsFootprint_def
      MemoryCeiling_def memory_constants stats_of_def sample_defs initial_cache_def)

lemma open_url_crash_iff_witness:
  "fst (OpenURL (sample_env (800 * 1024 * 1024) False) empty_gurl 1 (sample_tab empty_gurl)
     (sample_world (sample_tab empty_gurl))) = Inl NullDereference"
  using open_url_crash_iff [OF sample_keeps_tabs] sample_refused by blast

definition fallback_url :: gurl where
  "fallback_url = (sample_url ''chatgpt.com'' ''/auth/login_with'')
     \<lparr>url_query := ''mweb_fallback=1&connection=google-oauth2''\<rparr>"

definition fallback_redirect :: NavigationHandle where
  "fallback_redirect = \<lparr>IsInPrimaryMainFrame = True, GetURL = fallback_url, IsPost = False, initiator = None,
     GetRedirectChain = replicate 6 fallback_url, HasCommitted = False, IsErrorPage = False, too_many_redirects = False\<rparr>"

lemma fallback_url_class: "IsAuthFlowURL fallback_url" "IsChatGPTMwebFallback fallback_url"
  by (simp_all add: fallback_url_def sample_url_def IsAuthFlowURL_def IsChatGPTMwebFallback_def) code_simp+

lemma breaker_posts_witness:
  "actions (DidRedirectNavigation (sample_env 0 False) fallback_redirect initial_world) =
     [PostTask (BreakChatGPTMwebLoop_task fallback_url)]"
  using breaker_posts [of fallback_redirect "sample_env 0 False" initial_world] fallback_url_class
  by (simp add: fallback_redirect_def initial_world_def initial_globals_def actions_def sample_env_def)

theorem breaker_retries_once_witness:
  "retries (fold (handle_nav (sample_env 0 False) new_filter)
     [NavRedirect fallback_redirect, NavRedirect fallback_redirect] initial_world) \<le> 1"
  using breaker_retries_once [of "[NavRedirect fallback_redirect, NavRedirect fallback_redirect]"
      "sample_env 0 False" new_filter initial_world]
  by (simp add: retries_def breaker_left_def actions_def initial_world_def initial_globals_def)

end
