(* ===== verification/File_Select.thy ===== *)
theory File_Select
  imports Blinker_Prelude
begin

text \<open>
  The file chooser of the shell: \<^verbatim>\<open>content/shell/browser/shell_file_select_helper.cc\<close>, and the part of the
  dialog in \<^verbatim>\<open>ui/shell_dialogs/select_file_dialog_ios.mm\<close> that calls it back. The helper is
  reference counted and keeps itself alive between the request and the answer; a page waits for that answer.

  \<open>None\<close> is a null dereference or \<^verbatim>\<open>NOTREACHED\<close>. The native dialog may report at any time and any
  number of times, the directory lister reports until it is done or destroyed, and the tab may close in between.
\<close>

subsection \<open>Accept types\<close>

type_synonym u16string = "16 word list"
type_synonym path = string

text \<open>
  The string conversions are those of \<^verbatim>\<open>base\<close>, and \<open>to_utf8\<close> stands for \<^verbatim>\<open>FilePath::FromUTF16Unsafe\<close>; \<open>mime_extensions t xs\<close> is the vector \<open>xs\<close> after
  \<^verbatim>\<open>net::GetExtensionsForMimeType\<close>, which adds to it the extensions of \<open>t\<close>.
\<close>

record mime_env =
  IsStringASCII :: "u16string \<Rightarrow> bool"
  UTF16ToASCII :: "u16string \<Rightarrow> string"
  to_utf8 :: "u16string \<Rightarrow> string"
  mime_extensions :: "string \<Rightarrow> string list \<Rightarrow> string list"

definition mime_env_ok :: "mime_env \<Rightarrow> bool" where
  "mime_env_ok M \<longleftrightarrow> (\<forall>t xs. mime_extensions M t xs = xs @ mime_extensions M t [])"

text \<open>Indexing the terminator of an empty string gives the null character.\<close>

definition first_unit :: "u16string \<Rightarrow> 16 word" where
  "first_unit s = (case s of [] \<Rightarrow> 0 | c # _ \<Rightarrow> c)"

definition accept_step :: "mime_env \<Rightarrow> u16string \<Rightarrow> string list \<times> nat \<Rightarrow> string list \<times> nat" where
  "accept_step M accept_type st =
     (let (exts, valid_type_count) = st; old_extension_size = length exts in
      if first_unit accept_type = 46
      then (exts @ [drop 1 (to_utf8 M accept_type)], valid_type_count + 1)
      else if \<not> IsStringASCII M accept_type then (exts, valid_type_count)
      else (let exts = mime_extensions M (UTF16ToASCII M accept_type) exts
            in (exts, if length exts > old_extension_size then valid_type_count + 1 else valid_type_count)))"

definition GetFileTypesFromAcceptType :: "mime_env \<Rightarrow> u16string list \<Rightarrow> string list list" where
  "GetFileTypesFromAcceptType M accept_types =
     (if accept_types = [] then []
      else (let (exts, valid_type_count) = fold (accept_step M) accept_types ([], 0)
            in if valid_type_count = 0 then [] else [exts]))"

subsection \<open>The helper\<close>

datatype chooser_mode = kOpen | kOpenMultiple | kUploadFolder | kSave | other_mode

datatype dialog_kind =
    SELECT_NONE | SELECT_OPEN_FILE | SELECT_OPEN_MULTI_FILE | SELECT_UPLOAD_FOLDER | SELECT_SAVEAS_FILE

record chooser_params =
  mode :: chooser_mode
  accept_types :: "u16string list"
  use_media_capture :: bool
  need_local_path :: bool

record file_type_info =
  extensions :: "string list list"
  info_accept_types :: "u16string list"
  info_use_media_capture :: bool
  native_path_only :: bool

record native_file =
  file_path :: path
  display_name :: string

datatype answer =
    Canceled
  | Selected "native_file list" path chooser_mode

text \<open>
  The helper's members, the reference count, whether the dialog still has its listener, and what the page's
  \<^verbatim>\<open>FileSelectListener\<close> was told. \<open>lister\<close> is set from \<^verbatim>\<open>Start\<close> until the last report.
\<close>

record helper =
  web_contents :: bool
  listener :: bool
  select_file_dialog :: bool
  dialog_type :: dialog_kind
  dialog_mode :: chooser_mode
  base_dir :: path
  directory_enumeration :: "path list option"
  lister :: bool
  refs :: nat
  dialog_listener :: bool
  shown :: "(dialog_kind \<times> file_type_info \<times> nat) option"
  answers :: "answer list"

definition new_helper :: helper where
  "new_helper = \<lparr>web_contents = False, listener = False, select_file_dialog = False, dialog_type = SELECT_NONE,
     dialog_mode = kOpen, base_dir = [], directory_enumeration = None, lister = False, refs = 1,
     dialog_listener = False, shown = None, answers = []\<rparr>"

text \<open>Dropping a reference: the last one destroys the helper, its enumeration and the lister, and detaches the dialog.\<close>

definition Release :: "helper \<Rightarrow> helper" where
  "Release h =
     (if refs h = 1
      then h\<lparr>refs := 0, dialog_listener := (dialog_listener h \<and> \<not> select_file_dialog h), select_file_dialog := False,
             directory_enumeration := None, lister := False\<rparr>
      else h\<lparr>refs := refs h - 1\<rparr>)"

definition dialog_kind_of :: "chooser_mode \<Rightarrow> dialog_kind option" where
  "dialog_kind_of m = (case m of kOpen \<Rightarrow> Some SELECT_OPEN_FILE | kOpenMultiple \<Rightarrow> Some SELECT_OPEN_MULTI_FILE
     | kUploadFolder \<Rightarrow> Some SELECT_UPLOAD_FOLDER | kSave \<Rightarrow> Some SELECT_SAVEAS_FILE | other_mode \<Rightarrow> None)"

text \<open>
  The static entry point with the member function it calls. The caller's reference is dropped at the end;
  \<open>created\<close> says whether the platform has a dialog.
\<close>

definition RunFileChooser :: "mime_env \<Rightarrow> bool \<Rightarrow> chooser_params \<Rightarrow> helper option" where
  "RunFileChooser M created params =
     (let h = new_helper in
      if \<not> created then Some (Release (h\<lparr>answers := answers h @ [Canceled]\<rparr>))
      else (let select_file_types = \<lparr>extensions = GetFileTypesFromAcceptType M (accept_types params), info_accept_types = accept_types params,
                  info_use_media_capture = use_media_capture params, native_path_only = need_local_path params\<rparr>;
                file_type_index = (if extensions select_file_types \<noteq> [] then 1 else 0)
            in case dialog_kind_of (mode params) of None \<Rightarrow> None
               | Some k \<Rightarrow> Some (Release (h\<lparr>select_file_dialog := True, dialog_listener := True, listener := True, web_contents := True,
                   dialog_mode := mode params, dialog_type := k, shown := Some (k, select_file_types, file_type_index),
                   refs := refs h + 1\<rparr>))))"

definition RunFileChooserEnd :: "helper \<Rightarrow> helper option" where
  "RunFileChooserEnd h =
     (let h = (if listener h then h\<lparr>answers := answers h @ [Canceled]\<rparr> else h)
      in if \<not> select_file_dialog h then None
         else Some (Release (h\<lparr>dialog_listener := False, select_file_dialog := False\<rparr>)))"

definition StartNewEnumeration :: "path \<Rightarrow> helper \<Rightarrow> helper" where
  "StartNewEnumeration p h = h\<lparr>base_dir := p, lister := True, directory_enumeration := Some []\<rparr>"

definition FileSelectionCanceled :: "helper \<Rightarrow> helper option" where
  "FileSelectionCanceled h = RunFileChooserEnd h"

definition ConvertToFileChooserFileInfoList :: "native_file list \<Rightarrow> helper \<Rightarrow> helper option" where
  "ConvertToFileChooserFileInfoList files h =
     (if \<not> web_contents h then RunFileChooserEnd h
      else if \<not> listener h then None
      else RunFileChooserEnd (h\<lparr>answers := answers h @ [Selected files [] (dialog_mode h)], listener := False\<rparr>))"

definition FileSelected :: "native_file \<Rightarrow> helper \<Rightarrow> helper option" where
  "FileSelected file h =
     (if dialog_type h = SELECT_UPLOAD_FOLDER then Some (StartNewEnumeration (file_path file) h)
      else ConvertToFileChooserFileInfoList [file] h)"

definition MultiFilesSelected :: "native_file list \<Rightarrow> helper \<Rightarrow> helper option" where
  "MultiFilesSelected files h = ConvertToFileChooserFileInfoList files h"

definition OnListFile :: "path \<Rightarrow> bool \<Rightarrow> helper \<Rightarrow> helper option" where
  "OnListFile p is_directory h =
     (if is_directory then Some h
      else (case directory_enumeration h of None \<Rightarrow> None | Some rs \<Rightarrow> Some (h\<lparr>directory_enumeration := Some (rs @ [p])\<rparr>)))"

definition OnListDone :: "int \<Rightarrow> helper \<Rightarrow> helper option" where
  "OnListDone error h =
     (let h = h\<lparr>lister := False\<rparr> in
      if \<not> web_contents h then RunFileChooserEnd h
      else (let entry = directory_enumeration h; h = h\<lparr>directory_enumeration := None\<rparr> in
        if error \<noteq> 0 then FileSelectionCanceled h
        else (case entry of None \<Rightarrow> None
          | Some results \<Rightarrow> if \<not> listener h then None
              else RunFileChooserEnd (h\<lparr>answers := answers h @
                [Selected (map (\<lambda>p. \<lparr>file_path = p, display_name = []\<rparr>) results) (base_dir h) kUploadFolder], listener := False\<rparr>))))"

text \<open>\<^verbatim>\<open>SelectFileDialogImpl::FileWasSelected\<close>: what the native dialog reports, if anyone still listens.\<close>

definition FileWasSelected :: "(path \<Rightarrow> native_file) \<Rightarrow> bool \<Rightarrow> path list \<Rightarrow> helper \<Rightarrow> helper option" where
  "FileWasSelected info was_cancelled files h =
     (if \<not> dialog_listener h then Some h
      else (case files of [] \<Rightarrow> FileSelectionCanceled h
        | f # _ \<Rightarrow> if was_cancelled then FileSelectionCanceled h
            else if dialog_type h = SELECT_OPEN_MULTI_FILE then MultiFilesSelected (map info files) h
            else FileSelected (info f) h))"

subsection \<open>Lives of a helper\<close>

datatype chooser_event =
    Tab_Closed
  | Dialog_Reports bool "path list"
  | Lister_Reports path bool
  | Lister_Done int

fun chooser_step :: "(path \<Rightarrow> native_file) \<Rightarrow> chooser_event \<Rightarrow> helper \<Rightarrow> helper option" where
  "chooser_step info Tab_Closed h = Some (h\<lparr>web_contents := False\<rparr>)"
| "chooser_step info (Dialog_Reports c fs) h = FileWasSelected info c fs h"
| "chooser_step info (Lister_Reports p d) h = OnListFile p d h"
| "chooser_step info (Lister_Done e) h = OnListDone e h"

text \<open>The lister reports while it runs; a destroyed helper has none.\<close>

fun possible :: "chooser_event \<Rightarrow> helper \<Rightarrow> bool" where
  "possible (Lister_Reports p d) h \<longleftrightarrow> lister h"
| "possible (Lister_Done e) h \<longleftrightarrow> lister h"
| "possible e h \<longleftrightarrow> True"

inductive chooser_life :: "mime_env \<Rightarrow> (path \<Rightarrow> native_file) \<Rightarrow> chooser_params \<Rightarrow> helper option \<Rightarrow> bool"
  for M info params where
  start: "chooser_life M info params (RunFileChooser M created params)"
| event: "\<lbrakk> chooser_life M info params (Some h); possible e h \<rbrakk> \<Longrightarrow> chooser_life M info params (chooser_step info e h)"

text \<open>
  While the helper lives it has its dialog, its listener and one reference, and the page has heard nothing; once it is gone
  the page has heard once and nobody can call it.
\<close>

definition helper_ok :: "helper \<Rightarrow> bool" where
  "helper_ok h \<longleftrightarrow>
     (if refs h = 0 then length (answers h) = 1 \<and> \<not> dialog_listener h \<and> \<not> lister h
      else refs h = 1 \<and> select_file_dialog h \<and> dialog_listener h \<and> listener h \<and> answers h = [] \<and>
        (lister h \<longrightarrow> directory_enumeration h \<noteq> None))"

lemmas helper_ops = RunFileChooserEnd_def StartNewEnumeration_def FileSelectionCanceled_def ConvertToFileChooserFileInfoList_def
  FileSelected_def MultiFilesSelected_def OnListFile_def OnListDone_def FileWasSelected_def Release_def Let_def

lemma start_ok:
  assumes "mode params \<noteq> other_mode"
  shows "\<exists>h. RunFileChooser M created params = Some h \<and> helper_ok h"
  using assms
  by (cases "mode params") (auto simp: RunFileChooser_def dialog_kind_of_def new_helper_def Release_def helper_ok_def Let_def)

lemma step_ok:
  assumes "helper_ok h" "possible e h"
  shows "\<exists>h'. chooser_step info e h = Some h' \<and> helper_ok h'"
  using assms
  by (cases e) (auto simp: helper_ok_def helper_ops split: if_splits option.splits list.splits)

text \<open>
  C30: The page is answered exactly once. Whatever the dialog, the directory lister and the tab do, and in whatever order, the
  helper never dereferences null, has told its listener nothing while it lives and exactly one thing when it is gone.
\<close>

theorem chooser_answers_once:
  assumes "chooser_life M info params st" "mode params \<noteq> other_mode"
  shows "\<exists>h. st = Some h \<and> length (answers h) = (if refs h = 0 then 1 else 0)"
proof -
  have "\<exists>h. st = Some h \<and> helper_ok h"
    using assms(1)
  proof induction
    case (start created)
    show ?case using start_ok [OF assms(2)] .
  next
    case (event h e)
    then show ?case using step_ok [of h e info] by simp
  qed
  then show ?thesis by (auto simp: helper_ok_def)
qed

theorem chooser_answers_once_witness:
  "\<exists>h. (case RunFileChooser \<lparr>IsStringASCII = (\<lambda>_. True), UTF16ToASCII = (\<lambda>_. []), to_utf8 = (\<lambda>_. []), mime_extensions = (\<lambda>_ xs. xs)\<rparr> True
        \<lparr>mode = kOpen, accept_types = [], use_media_capture = False, need_local_path = False\<rparr> of None \<Rightarrow> None
      | Some h \<Rightarrow> chooser_step (\<lambda>p. \<lparr>file_path = p, display_name = p\<rparr>) (Dialog_Reports False [''a'', ''b'']) h) = Some h \<and>
    length (answers h) = 1"
proof -
  let ?M = "\<lparr>IsStringASCII = (\<lambda>_. True), UTF16ToASCII = (\<lambda>_. []), to_utf8 = (\<lambda>_. []), mime_extensions = (\<lambda>_ xs. xs)\<rparr>" and ?info = "\<lambda>p. \<lparr>file_path = p, display_name = p\<rparr>"
  let ?ps = "\<lparr>mode = kOpen, accept_types = [], use_media_capture = False, need_local_path = False\<rparr>"
  obtain h where h: "RunFileChooser ?M True ?ps = Some h" "helper_ok h" using start_ok [of ?ps ?M True] by auto
  have "chooser_life ?M ?info ?ps (Some h)" using chooser_life.start [of ?M ?info ?ps True] h(1) by simp
  then have life: "chooser_life ?M ?info ?ps (chooser_step ?info (Dialog_Reports False [''a'', ''b'']) h)" by (rule chooser_life.event) simp
  have gone: "refs h' = 0" if "chooser_step ?info (Dialog_Reports False [''a'', ''b'']) h = Some h'" for h'
    using that h by (auto simp: RunFileChooser_def dialog_kind_of_def new_helper_def helper_ops GetFileTypesFromAcceptType_def)
  from chooser_answers_once [OF life] gone h(1) show ?thesis by auto
qed

subsection \<open>What is answered\<close>

fun chooser_run :: "(path \<Rightarrow> native_file) \<Rightarrow> chooser_event list \<Rightarrow> helper \<Rightarrow> helper option" where
  "chooser_run info [] h = Some h"
| "chooser_run info (e # es) h = (case chooser_step info e h of None \<Rightarrow> None | Some h' \<Rightarrow> chooser_run info es h')"

lemma chooser_run_append:
  "chooser_run info (es @ fs) h = (case chooser_run info es h of None \<Rightarrow> None | Some h' \<Rightarrow> chooser_run info fs h')"
  by (induction es arbitrary: h) (simp_all split: option.split)

lemma listing_run:
  assumes "directory_enumeration h = Some rs"
  shows "chooser_run info (map (\<lambda>(p, d). Lister_Reports p d) xs) h =
    Some (h\<lparr>directory_enumeration := Some (rs @ map fst (filter (\<lambda>x. \<not> snd x) xs))\<rparr>)"
  using assms
proof (induction xs arbitrary: h rs)
  case (Cons x xs)
  obtain p d where x: "x = (p, d)" by force
  show ?case
  proof (cases d)
    case True
    with Cons show ?thesis by (simp add: x OnListFile_def)
  next
    case False
    let ?h = "h\<lparr>directory_enumeration := Some (rs @ [p])\<rparr>"
    from Cons.IH [of ?h "rs @ [p]"] False Cons.prems show ?thesis by (simp add: x OnListFile_def)
  qed
qed simp

text \<open>
  A folder upload delivers the folder. When the user picks a folder and the tab stays open, the page gets exactly the files
  the lister reported, in that order and without the directories, with the folder as their base; when the listing fails it is told
  of a cancellation instead.
\<close>

lemma folder_upload_exact:
  assumes "helper_ok h" "refs h = 1" "web_contents h" "dialog_type h = SELECT_UPLOAD_FOLDER"
  shows "map_option answers (chooser_run info (Dialog_Reports False [f] # map (\<lambda>(p, d). Lister_Reports p d) xs @ [Lister_Done err]) h) =
    Some [if err = 0 then Selected (map (\<lambda>x. \<lparr>file_path = fst x, display_name = []\<rparr>) (filter (\<lambda>x. \<not> snd x) xs)) (file_path (info f)) kUploadFolder
          else Canceled]"
proof -
  let ?h = "StartNewEnumeration (file_path (info f)) h"
  have ok: "listener h" "select_file_dialog h" "dialog_listener h" "answers h = []"
    using assms(1,2) by (simp_all add: helper_ok_def)
  then have "chooser_step info (Dialog_Reports False [f]) h = Some ?h"
    using assms(4) by (simp add: FileWasSelected_def FileSelected_def)
  moreover have "directory_enumeration ?h = Some []" by (simp add: StartNewEnumeration_def)
  note listing_run [OF this, of info xs]
  ultimately show ?thesis
    using ok assms(2,3) by (simp add: chooser_run_append StartNewEnumeration_def OnListDone_def FileSelectionCanceled_def RunFileChooserEnd_def Release_def comp_def)
qed

lemma folder_upload_exact_witness:
  "\<exists>h. map_option answers (chooser_run (\<lambda>p. \<lparr>file_path = p, display_name = p\<rparr>)
      [Dialog_Reports False [''d''], Lister_Reports ''d/x'' False, Lister_Reports ''d/s'' True, Lister_Done 0] h) =
    Some [Selected [\<lparr>file_path = ''d/x'', display_name = []\<rparr>] ''d'' kUploadFolder]"
  using folder_upload_exact [of "new_helper\<lparr>web_contents := True, listener := True, select_file_dialog := True, dialog_listener := True,
      dialog_type := SELECT_UPLOAD_FOLDER\<rparr>" "\<lambda>p. \<lparr>file_path = p, display_name = p\<rparr>" "''d''" "[(''d/x'', False), (''d/s'', True)]" 0]
  by (intro exI) (simp add: helper_ok_def new_helper_def)

subsection \<open>The extensions offered\<close>

definition contribution :: "mime_env \<Rightarrow> u16string \<Rightarrow> string list" where
  "contribution M t = (if first_unit t = 46 then [drop 1 (to_utf8 M t)]
     else if IsStringASCII M t then mime_extensions M (UTF16ToASCII M t) [] else [])"

lemma accept_step_contribution:
  assumes "mime_env_ok M"
  shows "accept_step M t (xs, n) = (xs @ contribution M t, if contribution M t = [] then n else n + 1)"
proof -
  let ?c = "mime_extensions M (UTF16ToASCII M t) []"
  have "mime_extensions M (UTF16ToASCII M t) xs = xs @ ?c" using assms unfolding mime_env_ok_def by blast
  then show ?thesis by (cases ?c) (simp_all add: accept_step_def contribution_def)
qed

text \<open>The dialog offers exactly the extensions the accept types stand for, in their order, and no filter when there are none.\<close>

lemma file_types_exact:
  assumes "mime_env_ok M"
  shows "GetFileTypesFromAcceptType M ts =
    (if concat (map (contribution M) ts) = [] then [] else [concat (map (contribution M) ts)])"
proof -
  have "fold (accept_step M) ts (xs, n) =
      (xs @ concat (map (contribution M) ts), n + length (filter (\<lambda>t. contribution M t \<noteq> []) ts))" for xs n
    by (induction ts arbitrary: xs n) (simp_all add: accept_step_contribution [OF assms])
  moreover have "length (filter (\<lambda>t. contribution M t \<noteq> []) ts) = 0 \<longleftrightarrow> concat (map (contribution M) ts) = []"
    by (simp add: filter_empty_conv)
  ultimately show ?thesis by (simp add: GetFileTypesFromAcceptType_def split_beta)
qed

end
