(* ===== verification/Downloads.thy ===== *)
theory Downloads
  imports Blinker_Prelude
begin

text \<open>
  The download delegate of the shell, \<^verbatim>\<open>content/shell/browser/shell_download_manager_delegate.cc\<close>, in its iOS
  configuration: a download asks for its target, a pool task makes the name, a task on the UI thread
  chooses the path and answers. Several downloads may be anywhere on that way at the same time.

  \<open>None\<close> is a null dereference. Parameters: the operations on file paths, the default of a \<^verbatim>\<open>DownloadTargetInfo\<close>, the name from \<^verbatim>\<open>net::GenerateFileName\<close>, and
  \<^verbatim>\<open>base::GetUniquePath\<close> on the files that exist, which answers with a path that does not exist, the given one if it is free, and with the empty
  path when it finds none.
\<close>

type_synonym path = string

datatype disposition = TARGET_DISPOSITION_OVERWRITE | TARGET_DISPOSITION_PROMPT

record download_env =
  GenerateFileName :: "nat \<Rightarrow> string"
  GetUniquePath :: "path set \<Rightarrow> path \<Rightarrow> path"
  DirName :: "path \<Rightarrow> path"
  Append :: "path \<Rightarrow> string \<Rightarrow> path"
  AddExtension :: "path \<Rightarrow> string \<Rightarrow> path"
  context_path :: path
  default_disposition :: disposition

definition download_env_ok :: "download_env \<Rightarrow> bool" where
  "download_env_ok E \<longleftrightarrow>
     (\<forall>fs p. GetUniquePath E fs p = [] \<or> GetUniquePath E fs p \<notin> fs) \<and>
     (\<forall>fs p. p \<notin> fs \<longrightarrow> GetUniquePath E fs p = p) \<and>
     (\<forall>d n. Append E d n \<noteq> []) \<and> (\<forall>p x. p \<noteq> [] \<longrightarrow> x \<noteq> [] \<longrightarrow> AddExtension E p x \<noteq> p)"

record target_info =
  target_path :: path
  intermediate_path :: path
  target_disposition :: disposition

record download_item =
  forced_file_path :: path
  in_progress :: bool

text \<open>
  A pool task still to make the name of a download, or a UI task with the suggested path. The UI task is bound to
  a weak pointer, which \<^verbatim>\<open>Shutdown\<close> invalidates.
\<close>

datatype task =
    Generate (task_id : nat) (task_dir : path)
  | Generated (task_id : nat) (task_path : path)

record delegate =
  download_manager :: bool
  default_download_path :: path
  suppress_prompting :: bool
  weak_ptrs_valid :: bool
  items :: "nat \<Rightarrow> download_item option"
  tasks :: "task list"
  files :: "path set"
  directories :: "path set"
  targets :: "(nat \<times> target_info) list"
  attention :: nat

definition answer_target :: "nat \<Rightarrow> target_info \<Rightarrow> delegate \<Rightarrow> delegate" where
  "answer_target i t s = s\<lparr>targets := targets s @ [(i, t)]\<rparr>"

definition CreateDirectory :: "path \<Rightarrow> delegate \<Rightarrow> delegate" where
  "CreateDirectory p s = s\<lparr>directories := insert p (directories s)\<rparr>"

definition DetermineDownloadTarget :: "download_env \<Rightarrow> nat \<Rightarrow> delegate \<Rightarrow> delegate option" where
  "DetermineDownloadTarget E i s =
     (if default_download_path s = [] \<and> \<not> download_manager s then None
      else (let s = (if default_download_path s = []
                     then (let d = Append E (Append E (context_path E) ''MyFiles'') ''Downloads''
                           in CreateDirectory d (s\<lparr>default_download_path := d\<rparr>))
                     else s)
            in case items s i of None \<Rightarrow> None
               | Some x \<Rightarrow>
                  if forced_file_path x \<noteq> []
                  then Some (answer_target i \<lparr>target_path = forced_file_path x, intermediate_path = forced_file_path x,
                         target_disposition = default_disposition E\<rparr> s)
                  else Some (s\<lparr>tasks := tasks s @ [Generate i (default_download_path s)]\<rparr>)))"

definition GenerateFilename :: "download_env \<Rightarrow> nat \<Rightarrow> path \<Rightarrow> delegate \<Rightarrow> delegate" where
  "GenerateFilename E i suggested_directory s =
     (let generated_name = GenerateFileName E i;
          s = (if suggested_directory \<in> directories s then s else CreateDirectory suggested_directory s)
      in s\<lparr>tasks := tasks s @ [Generated i (Append E suggested_directory generated_name)]\<rparr>)"

definition crdownload :: "download_env \<Rightarrow> path \<Rightarrow> path" where
  "crdownload E p = AddExtension E p ''.crdownload''"

definition ChooseDownloadPath :: "download_env \<Rightarrow> nat \<Rightarrow> path \<Rightarrow> delegate \<Rightarrow> delegate option" where
  "ChooseDownloadPath E i suggested_path s =
     (if \<not> download_manager s then None
      else (case items s i of None \<Rightarrow> Some s
        | Some x \<Rightarrow>
            if \<not> in_progress x then Some s
            else (let result = GetUniquePath E (files s) suggested_path;
                      result = (if result = [] then suggested_path else result)
                  in Some (answer_target i \<lparr>target_path = result, intermediate_path = crdownload E result,
                             target_disposition = TARGET_DISPOSITION_OVERWRITE\<rparr>
                           ((CreateDirectory (DirName E suggested_path) s)\<lparr>attention := attention s + 1\<rparr>)))))"

definition OnDownloadPathGenerated :: "download_env \<Rightarrow> nat \<Rightarrow> path \<Rightarrow> delegate \<Rightarrow> delegate option" where
  "OnDownloadPathGenerated E i suggested_path s =
     (if suppress_prompting s
      then Some (answer_target i \<lparr>target_path = suggested_path, intermediate_path = crdownload E suggested_path,
                   target_disposition = default_disposition E\<rparr> s)
      else ChooseDownloadPath E i suggested_path s)"

definition Shutdown :: "delegate \<Rightarrow> delegate" where
  "Shutdown s = s\<lparr>weak_ptrs_valid := False, download_manager := False\<rparr>"

definition SetDownloadBehaviorForTesting :: "path \<Rightarrow> delegate \<Rightarrow> delegate" where
  "SetDownloadBehaviorForTesting p s = s\<lparr>default_download_path := p, suppress_prompting := True\<rparr>"

text \<open>The counter behind \<^verbatim>\<open>GetNextId\<close>: the identifier given out and the next one.\<close>

definition GetNextId :: "32 word \<Rightarrow> 32 word \<times> 32 word" where
  "GetNextId next_id = (next_id, next_id + 1)"

subsection \<open>Interleavings\<close>

text \<open>
  Requests, tasks in any order, downloads that end and files that appear (a finished download, another app), shutdown.
\<close>

datatype download_event =
    Request nat
  | Run_Task nat
  | Item_Changes nat "download_item option"
  | File_Appears path
  | Shut_Down

definition run_task :: "download_env \<Rightarrow> task \<Rightarrow> delegate \<Rightarrow> delegate option" where
  "run_task E t s = (case t of Generate i d \<Rightarrow> Some (GenerateFilename E i d s)
     | Generated i p \<Rightarrow> if weak_ptrs_valid s then OnDownloadPathGenerated E i p s else Some s)"

fun download_step :: "download_env \<Rightarrow> download_event \<Rightarrow> delegate \<Rightarrow> delegate option" where
  "download_step E (Request i) s = DetermineDownloadTarget E i s"
| "download_step E (Run_Task k) s = run_task E (tasks s ! k) (s\<lparr>tasks := take k (tasks s) @ drop (Suc k) (tasks s)\<rparr>)"
| "download_step E (Item_Changes i x) s = Some (s\<lparr>items := (items s)(i := x)\<rparr>)"
| "download_step E (File_Appears p) s = Some (s\<lparr>files := insert p (files s)\<rparr>)"
| "download_step E Shut_Down s = Some (Shutdown s)"

text \<open>The manager asks for downloads it has, until it shuts down.\<close>

fun enabled :: "download_event \<Rightarrow> delegate \<Rightarrow> bool" where
  "enabled (Request i) s \<longleftrightarrow> download_manager s \<and> items s i \<noteq> None"
| "enabled (Run_Task k) s \<longleftrightarrow> k < length (tasks s)"
| "enabled e s \<longleftrightarrow> True"

inductive download_trace :: "download_env \<Rightarrow> download_event list \<Rightarrow> delegate option \<Rightarrow> bool" for E where
  fresh: "\<lbrakk> tasks s = []; targets s = []; download_manager s; weak_ptrs_valid s \<rbrakk> \<Longrightarrow> download_trace E [] (Some s)"
| event: "\<lbrakk> download_trace E es (Some s); enabled e s \<rbrakk> \<Longrightarrow> download_trace E (es @ [e]) (download_step E e s)"

definition requests :: "nat \<Rightarrow> download_event list \<Rightarrow> nat" where
  "requests i es = length (filter (\<lambda>e. e = Request i) es)"

definition answered :: "nat \<Rightarrow> delegate \<Rightarrow> nat" where
  "answered i s = length (filter (\<lambda>x. fst x = i) (targets s))"

definition pending :: "nat \<Rightarrow> delegate \<Rightarrow> nat" where
  "pending i s = length (filter (\<lambda>t. task_id t = i) (tasks s))"

definition delegate_ok :: "delegate \<Rightarrow> bool" where
  "delegate_ok s \<longleftrightarrow> (weak_ptrs_valid s \<longrightarrow> download_manager s)"

lemmas delegate_ops = DetermineDownloadTarget_def GenerateFilename_def ChooseDownloadPath_def OnDownloadPathGenerated_def
  Shutdown_def answer_target_def CreateDirectory_def Let_def

lemmas counts = answered_def pending_def

lemma request_step:
  assumes "delegate_ok s" "download_manager s" "items s i \<noteq> None"
  shows "\<exists>s'. DetermineDownloadTarget E i s = Some s' \<and> delegate_ok s' \<and> items s' = items s \<and> weak_ptrs_valid s' = weak_ptrs_valid s \<and>
    (\<forall>j. answered j s' + pending j s' = answered j s + pending j s + (if i = j then 1 else 0))"
  using assms by (auto simp: delegate_ops delegate_ok_def counts)

text \<open>A task either hands over or answers; it drops the download only after shutdown or when the download has ended.\<close>

definition lost :: "nat \<Rightarrow> delegate \<Rightarrow> bool" where
  "lost j s \<longleftrightarrow> \<not> weak_ptrs_valid s \<or> (\<forall>x. items s j = Some x \<longrightarrow> \<not> in_progress x)"

lemma task_step:
  assumes "delegate_ok s"
  shows "\<exists>s'. run_task E t s = Some s' \<and> delegate_ok s' \<and> items s' = items s \<and> weak_ptrs_valid s' = weak_ptrs_valid s \<and>
    (\<forall>j. answered j s' + pending j s' \<le> answered j s + pending j s + (if task_id t = j then 1 else 0) \<and>
         (\<not> lost j s \<longrightarrow> answered j s' + pending j s' = answered j s + pending j s + (if task_id t = j then 1 else 0)))"
  using assms by (cases t) (auto simp: run_task_def delegate_ops delegate_ok_def counts lost_def split: option.split)

lemma taken_task:
  assumes "k < length (tasks s)"
  shows "pending j (s\<lparr>tasks := take k (tasks s) @ drop (Suc k) (tasks s)\<rparr>) + (if task_id (tasks s ! k) = j then 1 else 0) = pending j s"
proof -
  have "tasks s = take k (tasks s) @ tasks s ! k # drop (Suc k) (tasks s)" using id_take_nth_drop [OF assms] .
  then have "length (filter (\<lambda>t. task_id t = j) (tasks s)) =
      length (filter (\<lambda>t. task_id t = j) (take k (tasks s) @ tasks s ! k # drop (Suc k) (tasks s)))" by simp
  then show ?thesis by (simp add: pending_def)
qed

lemma event_step:
  assumes "delegate_ok s" "enabled e s"
  shows "\<exists>s'. download_step E e s = Some s' \<and> delegate_ok s' \<and>
    (\<forall>j. answered j s' + pending j s' \<le> answered j s + pending j s + (if e = Request j then 1 else 0) \<and>
         (\<not> lost j s \<longrightarrow> answered j s' + pending j s' = answered j s + pending j s + (if e = Request j then 1 else 0)) \<and>
         (e \<noteq> Shut_Down \<longrightarrow> (\<forall>x. e \<noteq> Item_Changes j x) \<longrightarrow> lost j s' = lost j s))"
proof (cases e)
  case (Request i)
  then show ?thesis using request_step [of s i E] assms by (auto simp: lost_def)
next
  case (Run_Task k)
  let ?s = "s\<lparr>tasks := take k (tasks s) @ drop (Suc k) (tasks s)\<rparr>"
  have "delegate_ok ?s" using assms(1) by (simp add: delegate_ok_def)
  from task_step [OF this, of E "tasks s ! k"] obtain s' where s': "run_task E (tasks s ! k) ?s = Some s'" "delegate_ok s'"
    "items s' = items ?s" "weak_ptrs_valid s' = weak_ptrs_valid ?s"
    "\<forall>j. answered j s' + pending j s' \<le> answered j ?s + pending j ?s + (if task_id (tasks s ! k) = j then 1 else 0) \<and>
         (\<not> lost j ?s \<longrightarrow> answered j s' + pending j s' = answered j ?s + pending j ?s + (if task_id (tasks s ! k) = j then 1 else 0))" by blast
  have same: "answered j ?s = answered j s" "lost j ?s = lost j s" "lost j s' = lost j s" for j
    using s'(3,4) by (simp_all add: answered_def lost_def)
  then have "answered j s' + pending j s' \<le> answered j s + pending j s \<and>
      (\<not> lost j s \<longrightarrow> answered j s' + pending j s' = answered j s + pending j s)" for j
    using s'(5) [rule_format, of j] taken_task [of k s j] assms(2) Run_Task by simp
  with s'(1,2) same(3) Run_Task show ?thesis by simp
qed (use assms in \<open>auto simp: delegate_ok_def Shutdown_def counts lost_def\<close>)

lemma weak_kept:
  assumes "download_step E e s = Some s'" "e \<noteq> Shut_Down"
  shows "weak_ptrs_valid s' = weak_ptrs_valid s"
proof (cases e)
  case (Run_Task k)
  with assms show ?thesis
    by (cases "tasks s ! k") (auto simp: run_task_def delegate_ops split: if_splits option.splits)
qed (use assms in \<open>auto simp: delegate_ops split: if_splits option.splits\<close>)

text \<open>
  C31: A download is told its target once per request. Over any interleaving of requests, tasks, ended downloads, new
  files and shutdown, the delegate never uses the manager after shutdown, and for each download the targets announced and the
  tasks still pending are together never more than the requests; they are exactly as many for a download that stays in progress
  in a session that does not shut down, so nothing is lost.
\<close>

theorem targets_announced_once:
  assumes "download_trace E es st"
  shows "\<exists>s. st = Some s \<and> (\<forall>i. answered i s + pending i s \<le> requests i es \<and>
    (Shut_Down \<notin> set es \<longrightarrow> (\<forall>x. Item_Changes i x \<notin> set es) \<longrightarrow> (\<exists>x. items s i = Some x \<and> in_progress x) \<longrightarrow>
       answered i s + pending i s = requests i es))"
proof -
  have "\<exists>s. st = Some s \<and> delegate_ok s \<and> (Shut_Down \<notin> set es \<longrightarrow> weak_ptrs_valid s) \<and>
      (\<forall>i. answered i s + pending i s \<le> requests i es \<and>
        (Shut_Down \<notin> set es \<longrightarrow> (\<forall>x. Item_Changes i x \<notin> set es) \<longrightarrow> \<not> lost i s \<longrightarrow> answered i s + pending i s = requests i es))"
    using assms
  proof induction
    case (fresh s)
    then show ?case by (simp add: delegate_ok_def counts requests_def)
  next
    case (event es s e)
    then have IH: "delegate_ok s" "Shut_Down \<notin> set es \<Longrightarrow> weak_ptrs_valid s" "\<And>i. answered i s + pending i s \<le> requests i es"
      "\<And>i. \<lbrakk> Shut_Down \<notin> set es; \<forall>x. Item_Changes i x \<notin> set es; \<not> lost i s \<rbrakk> \<Longrightarrow> answered i s + pending i s = requests i es"
      by auto
    obtain s' where s': "download_step E e s = Some s'" "delegate_ok s'"
      "\<And>j. answered j s' + pending j s' \<le> answered j s + pending j s + (if e = Request j then 1 else 0)"
      "\<And>j. \<not> lost j s \<Longrightarrow> answered j s' + pending j s' = answered j s + pending j s + (if e = Request j then 1 else 0)"
      "\<And>j. \<lbrakk> e \<noteq> Shut_Down; \<forall>x. e \<noteq> Item_Changes j x \<rbrakk> \<Longrightarrow> lost j s' = lost j s"
      using event_step [OF IH(1) event.hyps(2), of E] by blast
    have req: "requests i (es @ [e]) = requests i es + (if e = Request i then 1 else 0)" for i by (simp add: requests_def)
    have "weak_ptrs_valid s'" if "Shut_Down \<notin> set (es @ [e])"
      using weak_kept [OF s'(1)] IH(2) that by auto
    moreover have "answered i s' + pending i s' \<le> requests i (es @ [e])" for i
      using s'(3) [of i] IH(3) [of i] unfolding req by linarith
    moreover have "answered i s' + pending i s' = requests i (es @ [e])"
      if no: "Shut_Down \<notin> set (es @ [e])" "\<forall>x. Item_Changes i x \<notin> set (es @ [e])" "\<not> lost i s'" for i
    proof -
      have "e \<noteq> Shut_Down" "\<forall>x. e \<noteq> Item_Changes i x" using no(1,2) by force+
      with s'(5) no(3) have "\<not> lost i s" by blast
      with s'(4) [of i] IH(4) [of i] no(1,2) show ?thesis unfolding req by simp
    qed
    ultimately show ?case using s'(1,2) by blast
  qed
  then show ?thesis by (auto simp: lost_def)
qed


theorem targets_announced_once_witness:
  "\<exists>s. download_trace \<lparr>GenerateFileName = (\<lambda>_. ''a''), GetUniquePath = (\<lambda>fs p. if p \<in> fs then [] else p), DirName = (\<lambda>p. p), Append = (\<lambda>d n. d @ ''/'' @ n), AddExtension = (\<lambda>p x. p @ x),
      context_path = ''c'', default_disposition = TARGET_DISPOSITION_OVERWRITE\<rparr> [Request 1, Run_Task 0, Run_Task 0] (Some s) \<and> answered 1 s = 1"
proof -
  let ?E = "\<lparr>GenerateFileName = (\<lambda>_. ''a''), GetUniquePath = (\<lambda>fs p. if p \<in> fs then [] else p), DirName = (\<lambda>p. p), Append = (\<lambda>d n. d @ ''/'' @ n), AddExtension = (\<lambda>p x. p @ x),
      context_path = ''c'', default_disposition = TARGET_DISPOSITION_OVERWRITE\<rparr>"
  define s0 where "s0 = \<lparr>download_manager = True, default_download_path = ''d'', suppress_prompting = False, weak_ptrs_valid = True,
      items = (\<lambda>_. Some \<lparr>forced_file_path = [], in_progress = True\<rparr>), tasks = [], files = {}, directories = {}, targets = [], attention = 0\<rparr>"
  have 0: "download_trace ?E [] (Some s0)" by (rule download_trace.fresh) (simp_all add: s0_def)
  obtain s1 where s1: "download_step ?E (Request 1) s0 = Some s1" "tasks s1 = [Generate 1 ''d'']" "weak_ptrs_valid s1" "items s1 = items s0"
    "files s1 = {}" "download_manager s1" "suppress_prompting s1 = False"
    by (simp add: s0_def delegate_ops)
  have 1: "download_trace ?E [Request 1] (Some s1)" using download_trace.event [OF 0, of "Request 1"] s1(1) by (simp add: s0_def)
  obtain s2 where s2: "download_step ?E (Run_Task 0) s1 = Some s2" "tasks s2 = [Generated 1 ''d/a'']" "weak_ptrs_valid s2" "items s2 = items s0"
    "files s2 = {}" "download_manager s2" "suppress_prompting s2 = False"
    using s1 by (simp add: run_task_def delegate_ops)
  have 2: "download_trace ?E [Request 1, Run_Task 0] (Some s2)" using download_trace.event [OF 1, of "Run_Task 0"] s1 s2(1) by simp
  obtain s3 where s3: "download_step ?E (Run_Task 0) s2 = Some s3" "tasks s3 = []" "items s3 = items s0"
    using s2 by (simp add: run_task_def delegate_ops s0_def)
  have 3: "download_trace ?E [Request 1, Run_Task 0, Run_Task 0] (Some s3)" using download_trace.event [OF 2, of "Run_Task 0"] s2 s3(1) by simp
  from targets_announced_once [OF this] s3 have "answered 1 s3 = 1" by (auto simp: s0_def pending_def requests_def)
  with 3 show ?thesis by blast
qed

subsection \<open>Which path\<close>

text \<open>The path chosen for a download does not exist yet, unless no unique path is found: then an existing file is overwritten.\<close>

lemma chosen_path_fresh:
  assumes "download_env_ok E" "download_manager s" "items s i = Some x" "in_progress x" "GetUniquePath E (files s) p \<noteq> []"
  shows "\<exists>s' t. ChooseDownloadPath E i p s = Some s' \<and> targets s' = targets s @ [(i, t)] \<and> target_path t \<notin> files s"
  using assms by (auto simp: ChooseDownloadPath_def answer_target_def CreateDirectory_def download_env_ok_def Let_def)

fun download_run :: "download_env \<Rightarrow> download_event list \<Rightarrow> delegate \<Rightarrow> delegate option" where
  "download_run E [] s = Some s"
| "download_run E (e # es) s = (case download_step E e s of None \<Rightarrow> None | Some s' \<Rightarrow> download_run E es s')"

text \<open>
  Downloads of the same name collide. Two downloads whose generated names agree and that are both running get the same
  target and the same intermediate file, with the disposition to overwrite, even when the first is already writing its intermediate
  file: the path is chosen by looking at existing files, and nothing reserves it.
\<close>

lemma same_name_downloads_collide:
  assumes "download_env_ok E" "i \<noteq> j" "GenerateFileName E i = GenerateFileName E j"
    "items s i = Some \<lparr>forced_file_path = [], in_progress = True\<rparr>" "items s j = Some \<lparr>forced_file_path = [], in_progress = True\<rparr>"
    "download_manager s" "weak_ptrs_valid s" "\<not> suppress_prompting s" "tasks s = []" "targets s = []" "default_download_path s \<noteq> []"
    "Append E (default_download_path s) (GenerateFileName E i) \<notin> files s"
  shows "let p = Append E (default_download_path s) (GenerateFileName E i);
      t = \<lparr>target_path = p, intermediate_path = crdownload E p, target_disposition = TARGET_DISPOSITION_OVERWRITE\<rparr>
    in map_option targets (download_run E
         [Request i, Run_Task 0, Run_Task 0, File_Appears (crdownload E p), Request j, Run_Task 0, Run_Task 0] s) = Some [(i, t), (j, t)]"
proof -
  let ?p = "Append E (default_download_path s) (GenerateFileName E i)"
  have p: "?p \<noteq> []" "crdownload E ?p \<noteq> ?p" using assms(1) by (simp_all add: download_env_ok_def crdownload_def)
  have u: "GetUniquePath E fs ?p = ?p" if "?p \<notin> fs" for fs using assms(1) that by (simp add: download_env_ok_def)
  show ?thesis
    using assms p u by (simp add: run_task_def delegate_ops)
qed

lemma same_name_downloads_collide_witness:
  "\<exists>E s t. map_option targets (download_run E [Request 1, Run_Task 0, Run_Task 0, File_Appears ''d/a.crdownload'', Request 2, Run_Task 0, Run_Task 0] s) =
    Some [(1, t), (2, t)]"
proof -
  let ?E = "\<lparr>GenerateFileName = (\<lambda>_. ''a''), GetUniquePath = (\<lambda>fs p. if p \<in> fs then [] else p), DirName = (\<lambda>p. p), Append = (\<lambda>d n. d @ ''/'' @ n), AddExtension = (\<lambda>p x. p @ x),
      context_path = ''c'', default_disposition = TARGET_DISPOSITION_OVERWRITE\<rparr>"
  let ?s = "\<lparr>download_manager = True, default_download_path = ''d'', suppress_prompting = False, weak_ptrs_valid = True,
      items = (\<lambda>_. Some \<lparr>forced_file_path = [], in_progress = True\<rparr>), tasks = [], files = {}, directories = {}, targets = [], attention = 0\<rparr>"
  let ?t = "\<lparr>target_path = ''d/a'', intermediate_path = ''d/a.crdownload'', target_disposition = TARGET_DISPOSITION_OVERWRITE\<rparr>"
  have ok: "download_env_ok ?E" by (simp add: download_env_ok_def)
  have p: "Append ?E ''d'' ''a'' = ''d/a''" "crdownload ?E ''d/a'' = ''d/a.crdownload''" by (simp_all add: crdownload_def)
  note collide = same_name_downloads_collide [of ?E 1 2 ?s, OF ok]
  then have "map_option targets (download_run ?E [Request 1, Run_Task 0, Run_Task 0, File_Appears ''d/a.crdownload'', Request 2, Run_Task 0, Run_Task 0] ?s) =
      Some [(1, ?t), (2, ?t)]" by (simp only: delegate.select_convs p download_env.select_convs Let_def) (simp add: crdownload_def)
  then show ?thesis by blast
qed

text \<open>The first \<open>2 ^ 32 - 1\<close> identifiers are distinct and valid; the next one is \<^verbatim>\<open>kInvalidId\<close>.\<close>

lemma next_id_after: "((snd \<circ> GetNextId) ^^ k) 1 = of_nat (k + 1)"
  by (induction k) (simp_all add: GetNextId_def)

lemma ids_valid:
  assumes "k < 2 ^ 32 - 1" "m < 2 ^ 32 - 1" "k \<noteq> m"
  shows "((snd \<circ> GetNextId) ^^ k) 1 \<noteq> ((snd \<circ> GetNextId) ^^ m) 1 \<and> ((snd \<circ> GetNextId) ^^ k) 1 \<noteq> 0"
proof -
  have u: "unat (of_nat (n + 1) :: 32 word) = n + 1" if "n < 2 ^ 32 - 1" for n
    using that by (simp add: unat_of_nat del: of_nat_add of_nat_Suc)
  have "(of_nat (k + 1) :: 32 word) \<noteq> of_nat (m + 1)" "(of_nat (k + 1) :: 32 word) \<noteq> 0"
    using u [OF assms(1)] u [OF assms(2)] assms(3) by (metis add_right_cancel, metis add_is_0 one_neq_zero unat_0)
  then show ?thesis by (simp only: next_id_after) simp
qed

end
