(* ===== verification/Crash_Record.thy ===== *)
theory Crash_Record
  imports Blinker_Prelude
begin

text \<open>
  The crash record of \<^verbatim>\<open>content/shell/app/shell_main.cc\<close>: where the diagnostic files live
  (\<open>BlinkDocumentsDir\<close> and the paths built on it), and what the fatal-signal handlers write:
  the number of the signal for the next launch (\<open>BlinkRecordCrashSignal\<close>) and the lines of
  the boot log (\<open>BlinkCrashHandlerWithInfo\<close>, \<open>BlinkCrashHandler\<close>).  The handlers may not
  call \<^verbatim>\<open>printf\<close>, so the digit loops and the sizes of the stack buffers are part of the
  model.  \<open>atoi\<close> is the reader of the next launch (\<^verbatim>\<open>TakeLastCrashSignal\<close> of
  \<^verbatim>\<open>shell_main_delegate.cc\<close>).
\<close>

subsection \<open>Where the files live\<close>

text \<open>
  \<^verbatim>\<open>strlcpy\<close> and \<^verbatim>\<open>snprintf\<close> into a buffer of \<open>n\<close> bytes keep the first \<open>n - 1\<close>.
  \<^verbatim>\<open>PATH_MAX\<close> is 1024 on Darwin.
\<close>

definition PATH_MAX :: nat where "PATH_MAX = 1024"

definition into_buffer :: "nat \<Rightarrow> string \<Rightarrow> string" where
  "into_buffer n s = take (n - 1) s"

text \<open>
  What the process finds: Foundation's answer (\<^verbatim>\<open>BlinkIOSContainerDocumentsDirectory\<close>, an
  Objective-C++ function), the environment variables, and which directories \<^verbatim>\<open>access(W_OK)\<close>
  accepts once \<^verbatim>\<open>mkdir\<close> was tried.  An empty string is a null or empty C string.
\<close>

record path_env =
  container_documents :: string
  env_CFFIXED_USER_HOME :: string
  env_HOME :: string
  access_W_OK :: "string \<Rightarrow> bool"

record path_cache =
  g_blink_docs_dir :: string
  g_blink_boot_log_path :: string
  g_blink_boot_log_prev_path :: string
  g_blink_crash_signal_path :: string
  g_blink_full_log_path :: string

definition no_paths :: path_cache where
  "no_paths = \<lparr>g_blink_docs_dir = [], g_blink_boot_log_path = [], g_blink_boot_log_prev_path = [],
     g_blink_crash_signal_path = [], g_blink_full_log_path = []\<rparr>"

definition home_documents :: "path_env \<Rightarrow> string" where
  "home_documents E =
     (let home = (if env_CFFIXED_USER_HOME E = [] then env_HOME E else env_CFFIXED_USER_HOME E)
      in if home = [] then [] else into_buffer PATH_MAX (home @ ''/Documents''))"

definition BlinkDocumentsDir :: "path_env \<Rightarrow> path_cache \<Rightarrow> string \<times> path_cache" where
  "BlinkDocumentsDir E c =
     (let found = (\<lambda>d. (d, c\<lparr>g_blink_docs_dir := d\<rparr>)) in
      if g_blink_docs_dir c \<noteq> [] then (g_blink_docs_dir c, c)
      else
        (let container = into_buffer PATH_MAX (container_documents E) in
         if container \<noteq> [] \<and> access_W_OK E container then found container
         else if access_W_OK E ''/var/mobile/Documents'' then found ''/var/mobile/Documents''
         else
           (let home = home_documents E in
            if home \<noteq> [] \<and> access_W_OK E home then found home else found ''/tmp'')))"

text \<open>\<^verbatim>\<open>BlinkDocsFile\<close>: the cached path, built on first use.\<close>

definition BlinkDocsFile :: "path_env \<Rightarrow> string \<Rightarrow> string \<Rightarrow> path_cache \<Rightarrow> string \<times> path_cache" where
  "BlinkDocsFile E cache leaf c =
     (if cache \<noteq> [] then (cache, c)
      else (let (d, c') = BlinkDocumentsDir E c
            in (into_buffer PATH_MAX (d @ CHR ''/'' # leaf), c')))"

definition BlinkBootLogPath :: "path_env \<Rightarrow> path_cache \<Rightarrow> string \<times> path_cache" where
  "BlinkBootLogPath E c =
     (let (p, c') = BlinkDocsFile E (g_blink_boot_log_path c) ''blink_boot.log'' c
      in (p, c'\<lparr>g_blink_boot_log_path := p\<rparr>))"

definition BlinkBootLogPrevPath :: "path_env \<Rightarrow> path_cache \<Rightarrow> string \<times> path_cache" where
  "BlinkBootLogPrevPath E c =
     (let (p, c') = BlinkDocsFile E (g_blink_boot_log_prev_path c) ''blink_boot_prev.log'' c
      in (p, c'\<lparr>g_blink_boot_log_prev_path := p\<rparr>))"

definition BlinkCrashSignalPath :: "path_env \<Rightarrow> path_cache \<Rightarrow> string \<times> path_cache" where
  "BlinkCrashSignalPath E c =
     (let (p, c') = BlinkDocsFile E (g_blink_crash_signal_path c) ''.blink_last_crash_signal'' c
      in (p, c'\<lparr>g_blink_crash_signal_path := p\<rparr>))"

definition BlinkFullLogPath :: "path_env \<Rightarrow> path_cache \<Rightarrow> string \<times> path_cache" where
  "BlinkFullLogPath E c =
     (let (p, c') = BlinkDocsFile E (g_blink_full_log_path c) ''content_shell_full.log'' c
      in (p, c'\<lparr>g_blink_full_log_path := p\<rparr>))"

text \<open>The loader's constructor resolves every path before anything can fault.\<close>

definition BlinkBootLogImageLoaded :: "path_env \<Rightarrow> path_cache \<Rightarrow> path_cache" where
  "BlinkBootLogImageLoaded E c =
     (let (_, c) = BlinkBootLogPath E c; (_, c) = BlinkBootLogPrevPath E c;
          (_, c) = BlinkCrashSignalPath E c; (_, c) = BlinkFullLogPath E c in c)"

subsection \<open>The number of the signal\<close>

definition digit :: "nat \<Rightarrow> char" where "digit d = ''0123456789'' ! d"

text \<open>
  The loop \<^verbatim>\<open>while (n > 0 && t < sizeof(digits)) digits[t++] = '0' + n % 10, n /= 10\<close>; the
  array so far is \<open>digits\<close>.
\<close>

function digit_loop :: "nat \<Rightarrow> int \<Rightarrow> string \<Rightarrow> string" where
  "digit_loop cap n digits =
     (if n > 0 \<and> length digits < cap
      then digit_loop cap (n div 10) (digits @ [digit (nat (n mod 10))]) else digits)"
  by pat_completeness auto
termination
  by (relation "measure (\<lambda>(cap, n, ds). nat n)") auto

declare digit_loop.simps [simp del]

text \<open>What \<^verbatim>\<open>BlinkRecordCrashSignal\<close> writes: the digits in reverse order of production.\<close>

definition crash_signal_text :: "int \<Rightarrow> string" where
  "crash_signal_text sig = rev (digit_loop 8 sig (if sig = 0 then ''0'' else []))"

text \<open>The file after the handler: truncated and rewritten when it can be opened.\<close>

definition BlinkRecordCrashSignal :: "bool \<Rightarrow> int \<Rightarrow> string option \<Rightarrow> string option" where
  "BlinkRecordCrashSignal can_open sig crash_file =
     (if can_open then Some (crash_signal_text sig) else crash_file)"

text \<open>
  \<^verbatim>\<open>BlinkCrashHandler\<close>'s own header line \<^verbatim>\<open>CRASH: signal N\<close>; its digit array \<^verbatim>\<open>tmp\<close> has eight
  bytes and the loop no test on \<open>t\<close>, so \<open>None\<close> stands for the overrun of the array.
\<close>

function unchecked_digits :: "int \<Rightarrow> string \<Rightarrow> string" where
  "unchecked_digits n digits =
     (if n > 0 then unchecked_digits (n div 10) (digits @ [digit (nat (n mod 10))]) else digits)"
  by pat_completeness auto
termination
  by (relation "measure (\<lambda>(n, ds). nat n)") auto

declare unchecked_digits.simps [simp del]

definition crash_header :: "int \<Rightarrow> string option" where
  "crash_header sig =
     (let tmp = unchecked_digits sig (if sig = 0 then ''0'' else [])
      in if length tmp \<le> 8 then Some (''CRASH: signal '' @ rev tmp @ [CHR 0x0A]) else None)"

subsection \<open>Hexadecimal lines\<close>

definition hex_digit :: "nat \<Rightarrow> char" where "hex_digit d = ''0123456789abcdef'' ! d"

definition nibble :: "u64 \<Rightarrow> nat \<Rightarrow> nat" where
  "nibble value shift = unat (and (drop_bit shift value) 0xF)"

text \<open>The loop over the shifts 60, 56, ..., 0 with its \<^verbatim>\<open>leading\<close> flag.\<close>

fun hex_loop :: "u64 \<Rightarrow> bool \<Rightarrow> nat list \<Rightarrow> string" where
  "hex_loop value leading [] = []"
| "hex_loop value leading (shift # shifts) =
     (let d = nibble value shift
      in if d = 0 \<and> leading \<and> shift \<noteq> 0 then hex_loop value leading shifts
         else hex_digit d # hex_loop value False shifts)"

definition hex_shifts :: "nat list" where
  "hex_shifts = [60, 56, 52, 48, 44, 40, 36, 32, 28, 24, 20, 16, 12, 8, 4, 0]"

definition hex_text :: "u64 \<Rightarrow> string" where
  "hex_text value = hex_loop value True hex_shifts"

text \<open>The bytes \<^verbatim>\<open>BlinkWriteHex\<close> builds in its 64-byte buffer: at most 32 of the label.\<close>

definition BlinkWriteHex :: "string \<Rightarrow> u64 \<Rightarrow> string" where
  "BlinkWriteHex label value = take 32 label @ ''0x'' @ hex_text value @ [CHR 0x0A]"


text \<open>
  \<^verbatim>\<open>BlinkLogRegionProt\<close>: the answer of \<^verbatim>\<open>vm_region_recurse_64\<close> is an argument, an error code or
  the protections, base and size of the region.
\<close>

datatype region_answer = RegionError u32 | RegionInfo (protection: u64) (max_protection: u64) (region_base: u64) (region_size: u64)

fun BlinkLogRegionProt :: "string \<Rightarrow> region_answer \<Rightarrow> string list" where
  "BlinkLogRegionProt label (RegionError kr) = [BlinkWriteHex label (ucast (or 0xDEAD0000 kr))]"
| "BlinkLogRegionProt label (RegionInfo prot maxp base sz) =
     [BlinkWriteHex label (or (push_bit 4 (and prot 0xF)) (and maxp 0xF)),
      BlinkWriteHex ''  region_base: '' base, BlinkWriteHex ''  region_size: '' sz]"

subsection \<open>The handlers\<close>

text \<open>
  What the handler receives: \<^verbatim>\<open>siginfo_t\<close> with the region around the fault address, the
  answer of \<^verbatim>\<open>BlinkIOSWxState\<close> (absent when the weak symbol is), and the saved pc, lr, sp.
\<close>

record crash_context =
  siginfo :: "(u64 \<times> u32 \<times> region_answer) option"
  wx_state :: "(u64 \<times> u64 \<times> u64 \<times> u64) option"
  mcontext :: "(u64 \<times> u64 \<times> u64) option"
  backtrace_symbols :: "string list"
  signal_file_opens :: bool
  boot_log_opens :: bool

text \<open>The crash-signal file and the lines appended to the boot log.\<close>

definition BlinkCrashHandler ::
  "int \<Rightarrow> crash_context \<Rightarrow> string option \<times> string list \<Rightarrow> string option \<times> string list" where
  "BlinkCrashHandler sig x st =
     (let (crash_file, boot) = st;
          crash_file = BlinkRecordCrashSignal (signal_file_opens x) sig crash_file
      in (crash_file,
          if boot_log_opens x
          then boot @ (case crash_header sig of None \<Rightarrow> [] | Some h \<Rightarrow> [h]) @ backtrace_symbols x
          else boot))"

definition fault_lines :: "crash_context \<Rightarrow> string list" where
  "fault_lines x =
     (case siginfo x of
        None \<Rightarrow> []
      | Some (addr, code, region) \<Rightarrow>
          [BlinkWriteHex ''CRASH_FAULT_ADDR: '' addr, BlinkWriteHex ''CRASH_FAULT_CODE: '' (ucast code)] @
          BlinkLogRegionProt ''CRASH_FAULT_PROT: '' region) @
     (case wx_state x of
        None \<Rightarrow> []
      | Some (depth, whole, transitions, fails) \<Rightarrow>
          [BlinkWriteHex ''CRASH_WX_DEPTH: '' depth, BlinkWriteHex ''CRASH_WX_WHOLE_WRITABLE: '' whole,
           BlinkWriteHex ''CRASH_WX_TRANSITIONS: '' transitions, BlinkWriteHex ''CRASH_WX_FAILURES: '' fails]) @
     (case mcontext x of
        None \<Rightarrow> []
      | Some (pc, lr, sp) \<Rightarrow>
          [BlinkWriteHex ''CRASH_PC: '' pc, BlinkWriteHex ''CRASH_LR: '' lr, BlinkWriteHex ''CRASH_SP: '' sp])"

definition BlinkCrashHandlerWithInfo ::
  "int \<Rightarrow> crash_context \<Rightarrow> string option \<times> string list \<Rightarrow> string option \<times> string list" where
  "BlinkCrashHandlerWithInfo sig x st =
     (let (crash_file, boot) = st;
          crash_file = BlinkRecordCrashSignal (signal_file_opens x) sig crash_file;
          boot = (if boot_log_opens x then boot @ fault_lines x else boot)
      in BlinkCrashHandler sig x (crash_file, boot))"

text \<open>The signals \<^verbatim>\<open>BlinkArmCrashHandler\<close> installs the handler for, with Darwin's numbers.\<close>

definition SIGILL :: int where "SIGILL = 4"
definition SIGTRAP :: int where "SIGTRAP = 5"
definition SIGABRT :: int where "SIGABRT = 6"
definition SIGFPE :: int where "SIGFPE = 8"
definition SIGBUS :: int where "SIGBUS = 10"
definition SIGSEGV :: int where "SIGSEGV = 11"

lemmas signal_numbers = SIGILL_def SIGTRAP_def SIGABRT_def SIGFPE_def SIGBUS_def SIGSEGV_def

definition armed_signals :: "int list" where
  "armed_signals = [SIGSEGV, SIGBUS, SIGABRT, SIGILL, SIGTRAP, SIGFPE]"

subsection \<open>The reader of the next launch\<close>

text \<open>C's \<^verbatim>\<open>atoi\<close>: white space, an optional sign, decimal digits up to the first other character.\<close>

definition c_isspace :: "char \<Rightarrow> bool" where
  "c_isspace c \<longleftrightarrow> c \<in> {CHR '' '', CHR 0x09, CHR 0x0A, CHR 0x0B, CHR 0x0C, CHR 0x0D}"

definition digit_value :: "char \<Rightarrow> nat option" where
  "digit_value c = map_of (zip ''0123456789'' [0, 1, 2, 3, 4, 5, 6, 7, 8, 9]) c"

fun digits_value :: "int \<Rightarrow> string \<Rightarrow> int" where
  "digits_value acc [] = acc"
| "digits_value acc (c # cs) =
     (case digit_value c of None \<Rightarrow> acc | Some d \<Rightarrow> digits_value (10 * acc + int d) cs)"

definition atoi :: "string \<Rightarrow> int" where
  "atoi s =
     (case dropWhile c_isspace s of
        [] \<Rightarrow> 0
      | c # cs \<Rightarrow>
          if c = CHR ''-'' then - digits_value 0 cs
          else if c = CHR ''+'' then digits_value 0 cs else digits_value 0 (c # cs))"

subsection \<open>Digits\<close>

lemma digit_cases: "d < 10 \<Longrightarrow> d \<in> {0, 1, 2, 3, 4, 5, 6, 7, 8, 9}" for d :: nat
  by auto

lemma digit_value_digit [simp]: "d < 10 \<Longrightarrow> digit_value (digit d) = Some d"
  by (drule digit_cases) (auto simp: digit_value_def digit_def)

lemma digit_not_special [simp]:
  "d < 10 \<Longrightarrow> \<not> c_isspace (digit d)" "d < 10 \<Longrightarrow> digit d \<noteq> CHR ''-''" "d < 10 \<Longrightarrow> digit d \<noteq> CHR ''+''"
  by (drule digit_cases, auto simp: digit_def c_isspace_def)+

text \<open>The decimal digits of a natural number, most significant first, none for zero.\<close>

fun dec_digits :: "nat \<Rightarrow> nat list" where
  "dec_digits n = (if n = 0 then [] else dec_digits (n div 10) @ [n mod 10])"

declare dec_digits.simps [simp del]

lemma dec_digits_0 [simp]: "dec_digits 0 = []"
  by (simp add: dec_digits.simps)

lemma dec_digits_rec: "n > 0 \<Longrightarrow> dec_digits n = dec_digits (n div 10) @ [n mod 10]"
  by (simp add: dec_digits.simps)

lemma dec_digits_small: "\<forall>d \<in> set (dec_digits n). d < 10"
  by (induction n rule: dec_digits.induct) (subst dec_digits.simps, auto)

lemma dec_digits_length: "n < 10 ^ k \<Longrightarrow> length (dec_digits n) \<le> k"
proof (induction k arbitrary: n)
  case (Suc k)
  show ?case
  proof (cases "n = 0")
    case False
    have "n div 10 < 10 ^ k" using Suc.prems by auto
    with Suc.IH False show ?thesis by (simp add: dec_digits_rec)
  qed simp
qed simp

lemma digits_value_append:
  "\<forall>d \<in> set ds. d < 10 \<Longrightarrow> digits_value acc (map digit ds @ s) = digits_value (digits_value acc (map digit ds)) s"
  by (induction ds arbitrary: acc) auto

lemma digits_value_dec: "digits_value 0 (map digit (dec_digits n)) = int n"
proof (induction n rule: dec_digits.induct)
  case (1 n)
  show ?case
  proof (cases "n = 0")
    case False
    then have n: "n > 0" by simp
    have IH: "digits_value 0 (map digit (dec_digits (n div 10))) = int (n div 10)" using 1 False by simp
    have "digits_value 0 (map digit (dec_digits n)) =
        digits_value (digits_value 0 (map digit (dec_digits (n div 10)))) [digit (n mod 10)]"
      unfolding dec_digits_rec [OF n] map_append
      by (simp only: digits_value_append [OF dec_digits_small] list.map)
    also have "\<dots> = 10 * int (n div 10) + int (n mod 10)"
      unfolding IH by (simp del: of_nat_div of_nat_mod)
    also have "\<dots> = int (10 * (n div 10) + n mod 10)" by (simp only: of_nat_add of_nat_mult of_nat_numeral)
    finally show ?thesis by simp
  qed simp
qed

lemma unchecked_digits_dec: "unchecked_digits (int n) ds = ds @ map digit (rev (dec_digits n))"
proof (induction n arbitrary: ds rule: dec_digits.induct)
  case (1 n)
  show ?case
  proof (cases "n = 0")
    case False
    have "nat (int n mod 10) = n mod 10" "int n div 10 = int (n div 10)"
      by (simp_all add: zdiv_int nat_mod_distrib)
    with 1 False show ?thesis
      by (subst unchecked_digits.simps) (simp add: dec_digits_rec)
  qed (subst unchecked_digits.simps, simp)
qed

lemma digit_loop_dec:
  "length ds + length (dec_digits n) \<le> cap \<Longrightarrow> digit_loop cap (int n) ds = ds @ map digit (rev (dec_digits n))"
proof (induction n arbitrary: ds rule: dec_digits.induct)
  case (1 n)
  show ?case
  proof (cases "n = 0")
    case False
    have "nat (int n mod 10) = n mod 10" "int n div 10 = int (n div 10)"
      by (simp_all add: zdiv_int nat_mod_distrib)
    with 1 False show ?thesis
      by (subst digit_loop.simps) (simp add: dec_digits_rec)
  qed (subst digit_loop.simps, simp)
qed


lemma crash_signal_text_dec:
  assumes "0 \<le> sig" "sig < 10 ^ 8"
  shows "crash_signal_text sig = (if sig = 0 then ''0'' else map digit (dec_digits (nat sig)))"
proof (cases "sig = 0")
  case True
  then show ?thesis by (simp add: crash_signal_text_def digit_loop.simps)
next
  case False
  have "length (dec_digits (nat sig)) \<le> 8"
    using assms by (intro dec_digits_length) auto
  then show ?thesis
    using False assms digit_loop_dec [of "[]" "nat sig" 8] by (simp add: crash_signal_text_def rev_map)
qed

text \<open>
  What the handler writes, the next launch reads back.
\<close>

lemma crash_signal_atoi:
  assumes "0 \<le> sig" "sig < 10 ^ 8"
  shows "atoi (crash_signal_text sig) = sig"
proof (cases "sig = 0")
  case True
  then show ?thesis by (simp add: crash_signal_text_dec assms atoi_def) (simp add: c_isspace_def digit_value_def)
next
  case False
  let ?ds = "dec_digits (nat sig)"
  have "nat sig > 0" using False assms by simp
  then obtain d ds where ds: "?ds = d # ds"
    by (metis dec_digits_rec append_is_Nil_conv list.exhaust not_Cons_self2)
  then have "d < 10" using dec_digits_small [of "nat sig"] by simp
  then have "atoi (map digit ?ds) = digits_value 0 (map digit ?ds)" by (simp add: ds atoi_def)
  then show ?thesis
    using False assms digits_value_dec [of "nat sig"] by (simp add: crash_signal_text_dec)
qed

subsection \<open>Hexadecimal\<close>

text \<open>The value of a string of hexadecimal digits.\<close>

definition hex_value :: "char \<Rightarrow> nat" where
  "hex_value c = (case map_of (zip ''0123456789abcdef'' [0, 1, 2, 3, 4, 5, 6, 7, 8, 9, 10, 11, 12, 13, 14, 15]) c of None \<Rightarrow> 0 | Some d \<Rightarrow> d)"

definition hex_number :: "string \<Rightarrow> nat" where
  "hex_number s = foldl (\<lambda>acc c. 16 * acc + hex_value c) 0 s"

lemma hex_value_digit [simp]: "d < 16 \<Longrightarrow> hex_value (hex_digit d) = d"
proof -
  have "\<forall>d \<in> set [0..<16]. hex_value (hex_digit d) = d" by code_simp
  then show "d < 16 \<Longrightarrow> hex_value (hex_digit d) = d" by simp
qed

lemma nibble_nat: "nibble v s = unat v div 2 ^ s mod 16"
proof -
  have "and (drop_bit s v) 0xF = take_bit 4 (drop_bit s v)" by (simp add: take_bit_eq_mask mask_eq_exp_minus_1)
  then have "nibble v s = take_bit 4 (drop_bit s (unat v))"
    by (simp only: nibble_def unsigned_take_bit_eq unat_drop_bit_eq)
  then show ?thesis by (simp add: take_bit_eq_mod drop_bit_eq_div)
qed

lemma nibble_less [simp]: "nibble v s < 16"
  by (simp add: nibble_nat)

lemma foldl_hex_zeros:
  "foldl (\<lambda>acc c. 16 * acc + hex_value c) acc (hex_loop v False ss) =
   foldl (\<lambda>acc s. 16 * acc + nibble v s) acc ss"
  by (induction ss arbitrary: acc) (auto simp: Let_def)

lemma hex_loop_value:
  "hex_number (hex_loop v b ss) = foldl (\<lambda>acc s. 16 * acc + nibble v s) 0 ss"
proof (induction ss)
  case (Cons s ss)
  then show ?case
    by (cases b) (auto simp: Let_def hex_number_def foldl_hex_zeros)
qed (simp add: hex_number_def)

lemma hex_loop_length: "length (hex_loop v b ss) \<le> length ss"
  by (induction v b ss rule: hex_loop.induct) (auto simp: Let_def)

lemma foldl_nibbles:
  "foldl (\<lambda>acc s. 16 * acc + nibble v s) acc (map ((*) 4) (rev [0..<n])) = 16 ^ n * acc + unat v mod 16 ^ n"
proof (induction n arbitrary: acc)
  case (Suc n)
  have "(2::nat) ^ (4 * n) = 16 ^ n" by (simp add: power_mult)
  moreover have "unat v mod 16 ^ Suc n = 16 ^ n * (unat v div 16 ^ n mod 16) + unat v mod 16 ^ n"
    by (metis mod_mult2_eq power_Suc2)
  ultimately have "16 ^ n * (16 * acc + nibble v (4 * n)) + unat v mod 16 ^ n = 16 ^ Suc n * acc + unat v mod 16 ^ Suc n"
    by (simp add: nibble_nat algebra_simps)
  then show ?case by (simp add: Suc.IH)
qed simp

lemma nibbles_value: "foldl (\<lambda>acc s. 16 * acc + nibble v s) 0 hex_shifts = unat v"
proof -
  have "hex_shifts = map ((*) 4) (rev [0..<16])" by code_simp
  moreover have "unat v < 16 ^ 16" using unsigned_less [of v] by simp
  ultimately show ?thesis using foldl_nibbles [of v 0 16] by simp
qed

lemma hex_text_value: "hex_number (hex_text v) = unat v"
  by (simp add: hex_text_def hex_loop_value nibbles_value)

lemma hex_loop_zero_first:
  "hex_loop v True (pre @ [0]) = c # cs \<Longrightarrow> 0 \<notin> set pre \<Longrightarrow> hex_value c = 0 \<Longrightarrow> cs = []"
  by (induction pre) (auto simp: Let_def split: if_splits)

lemma hex_text_no_leading_zero:
  assumes "hex_text v = CHR ''0'' # cs"
  shows "v = 0 \<and> cs = []"
proof -
  have "hex_shifts = [60, 56, 52, 48, 44, 40, 36, 32, 28, 24, 20, 16, 12, 8, 4] @ [0]"
    by (simp add: hex_shifts_def)
  then have "cs = []"
    using assms hex_loop_zero_first [of v "[60, 56, 52, 48, 44, 40, 36, 32, 28, 24, 20, 16, 12, 8, 4]"]
    by (simp only: hex_text_def) (simp add: hex_value_def)
  with assms hex_text_value [of v] show ?thesis
    by (simp add: hex_number_def hex_value_def unsigned_eq_0_iff)
qed

lemma WriteHex_fits: "length (BlinkWriteHex label v) \<le> 64"
  using hex_loop_length [of v True hex_shifts] by (simp add: BlinkWriteHex_def hex_text_def hex_shifts_def)

subsection \<open>Properties\<close>

text \<open>
  C11: What a crash leaves behind can be read back. For every signal number a process can be given,
  the handler leaves in the crash-signal file a text that \<open>atoi\<close> reads back as that number (writing
  it twice, once per handler, changes nothing), and the header line of the boot log does not overrun
  its eight digits. Every hexadecimal line fits its 64-byte buffer, has no leading zero, and reads
  back as the 64-bit value.
\<close>

theorem crash_record_roundtrip:
  assumes "0 \<le> sig" and "sig < 10 ^ 8" and "signal_file_opens x"
    and "BlinkCrashHandlerWithInfo sig x (file, boot) = (file', boot')"
  shows "(\<exists>t. file' = Some t \<and> atoi t = sig) \<and> crash_header sig \<noteq> None \<and>
    (\<forall>label v. length (BlinkWriteHex label v) \<le> 64 \<and> hex_number (hex_text v) = unat v \<and>
       (hd (hex_text v) = CHR ''0'' \<longrightarrow> v = 0))"
proof -
  have "file' = Some (crash_signal_text sig)"
    using assms(3,4) by (simp add: BlinkCrashHandlerWithInfo_def BlinkCrashHandler_def BlinkRecordCrashSignal_def Let_def)
  moreover have "crash_header sig \<noteq> None"
    using assms(1,2) dec_digits_length [of "nat sig" 8] unchecked_digits_dec [of "nat sig" "[]"] unchecked_digits_dec [of 0 "''0''"]
    by (cases "sig = 0") (simp_all add: crash_header_def Let_def)
  moreover have "hd (hex_text v) = CHR ''0'' \<Longrightarrow> v = 0" for v
  proof -
    assume h: "hd (hex_text v) = CHR ''0''"
    show "v = 0"
    proof (cases "hex_text v")
      case Nil
      then show ?thesis using hex_text_value [of v] by (simp add: hex_number_def unsigned_eq_0_iff)
    next
      case (Cons c cs)
      then show ?thesis using h hex_text_no_leading_zero [of v cs] by simp
    qed
  qed
  ultimately show ?thesis
    using crash_signal_atoi [OF assms(1,2)] WriteHex_fits hex_text_value by blast
qed

theorem crash_record_roundtrip_witness:
  "atoi (the (fst (BlinkCrashHandlerWithInfo SIGSEGV
     \<lparr>siginfo = None, wx_state = None, mcontext = None, backtrace_symbols = [], signal_file_opens = True,
       boot_log_opens = False\<rparr> (None, [])))) = SIGSEGV"
proof -
  let ?x = "\<lparr>siginfo = None, wx_state = None, mcontext = None, backtrace_symbols = [], signal_file_opens = True,
       boot_log_opens = False\<rparr>"
  obtain f b where run: "BlinkCrashHandlerWithInfo SIGSEGV ?x (None, []) = (f, b)" by fastforce
  have "0 \<le> SIGSEGV" "SIGSEGV < 10 ^ 8" by (simp_all add: SIGSEGV_def)
  from crash_record_roundtrip [OF this _ run] have "\<exists>t. f = Some t \<and> atoi t = SIGSEGV" by simp
  then show ?thesis by (auto simp: run)
qed

end
