(* ===== verification/Jit_Tier.thy ===== *)
theory Jit_Tier
  imports Crash_Record Private_Logging Memory_Policy
begin

text \<open>
  Start-up of \<^verbatim>\<open>content/shell/app/shell_main_delegate.cc\<close> on iOS: the probes for executable
  memory, the decision whether V8 may generate code, the tier and its crash guard, and the
  command line the engine is started with.  The guard keeps two user defaults
  (\<^verbatim>\<open>BlinkJITTier\<close>, \<^verbatim>\<open>BlinkJITTierProbe\<close>) and reads the signal file of \<open>Crash_Record\<close>; it
  is disarmed by \<^verbatim>\<open>BlinkClearJITTierProbe\<close> of \<^verbatim>\<open>shell_application_ios.mm\<close>.

  What the kernel answers to the probes is an argument: the success of every call and what
  executing the code does, return a value or raise a signal.
\<close>

named_theorems tier_simps \<open>unfolding the tier selection\<close>

subsection \<open>Probing for executable memory\<close>

datatype probe_exec = Returned int | Raised int

record probe_env =
  mmap_ok :: bool
  commit_rw_ok :: bool
  mprotect_ok :: bool
  vm_remap_ok :: bool
  mirror_rw_ok :: bool
  execute1 :: probe_exec
  execute2 :: probe_exec
  probe_errno :: int

datatype probe_call =
    Mmap string | MmapFailed | Mprotect string string | VmRemap string | WriteCode string
  | SetHandler int | RestoreHandler int | Execute string | Munmap string | VmDeallocate string

definition probe_signals :: "int list" where
  "probe_signals = [SIGBUS, SIGILL, SIGSEGV]"

definition guarded :: "probe_call list \<Rightarrow> probe_call list" where
  "guarded body = map SetHandler probe_signals @ body @ map RestoreHandler probe_signals"

text \<open>\<^verbatim>\<open>sigsetjmp\<close> returns 0, then the code runs: its result is compared with the expected value.\<close>

fun exec_ok :: "int \<Rightarrow> probe_exec \<Rightarrow> bool" where
  "exec_ok expected (Returned v) \<longleftrightarrow> v = expected"
| "exec_ok expected (Raised s) \<longleftrightarrow> False"

text \<open>\<^verbatim>\<open>g_jit_probe_signal\<close> after an execution.\<close>

fun probe_signal :: "int \<Rightarrow> probe_exec \<Rightarrow> int" where
  "probe_signal before (Returned v) = before"
| "probe_signal before (Raised s) = s"

type_synonym probe_result = "bool \<times> probe_call list \<times> log_line list"

definition ProbeIOSCodeRangePatternExecutableMemory :: "probe_env \<Rightarrow> probe_result" where
  "ProbeIOSCodeRangePatternExecutableMemory P =
     (let err = [LInt (probe_errno P)] in
      if \<not> mmap_ok P then
        (False, [MmapFailed], [BLINKER_DIAG ''JITPROBE_RANGE_FAIL: PROT_NONE reservation errno=%d (%s)'' err])
      else if \<not> commit_rw_ok P then
        (False, [Mmap ''reservation'', Mprotect ''reservation'' ''RW'', Munmap ''reservation''],
         [BLINKER_DIAG ''JITPROBE_RANGE_FAIL: commit RW errno=%d (%s)'' err])
      else if \<not> mprotect_ok P then
        (False, [Mmap ''reservation'', Mprotect ''reservation'' ''RW'', WriteCode ''reservation'',
           Mprotect ''reservation'' ''RX'', Munmap ''reservation''],
         [BLINKER_DIAG ''JITPROBE_RANGE_FAIL: RW->RX errno=%d (%s)'' err])
      else
        (let ok = exec_ok 42 (execute1 P) in
         (ok, [Mmap ''reservation'', Mprotect ''reservation'' ''RW'', WriteCode ''reservation'',
                Mprotect ''reservation'' ''RX''] @ guarded [Execute ''reservation''] @ [Munmap ''reservation''],
          [if ok then BLINKER_DIAG ''JITPROBE_RANGE_OK: CodeRange-pattern executable memory works'' []
           else BLINKER_DIAG ''JITPROBE_RANGE_FAIL: execute from reservation raised signal %d''
                  [LInt (probe_signal 0 (execute1 P))]])))"

definition ProbeIOSRwxExecutableMemory :: "probe_env \<Rightarrow> probe_result" where
  "ProbeIOSRwxExecutableMemory P =
     (if \<not> mmap_ok P then (False, [MmapFailed], [BLINKER_DIAG ''JITPROBE_RWX_FAIL: mmap failed'' []])
      else if \<not> mprotect_ok P then
        (False, [Mmap ''code'', Mprotect ''code'' ''RWX'', Munmap ''code''],
         [BLINKER_DIAG ''JITPROBE_RWX_FAIL: mprotect RWX errno=%d (%s)'' [LInt (probe_errno P)]])
      else
        (let ok = exec_ok 42 (execute1 P) in
         (ok, [Mmap ''code'', Mprotect ''code'' ''RWX'', WriteCode ''code''] @ guarded [Execute ''code''] @ [Munmap ''code''],
          [if ok then BLINKER_DIAG ''JITPROBE_RWX_OK: write+execute pages work; V8's RWX model is fine here'' []
           else BLINKER_DIAG ''JITPROBE_RWX_FAIL: RWX page raised signal %d on execute''
                  [LInt (probe_signal 0 (execute1 P))]])))"

definition ProbeIOSDualMappingExecutableMemory :: "probe_env \<Rightarrow> probe_result" where
  "ProbeIOSDualMappingExecutableMemory P =
     (let err = [LInt (probe_errno P)]; entry = BLINKER_DIAG ''JITPROBE_DUAL0: entry'' [] in
      if \<not> mmap_ok P then
        (False, [MmapFailed], [entry, BLINKER_DIAG ''JITPROBE_DUAL_FAIL: rx mmap errno=%d (%s)'' err])
      else if \<not> vm_remap_ok P then
        (False, [Mmap ''rx'', Munmap ''rx''],
         [entry, BLINKER_DIAG ''JITPROBE_DUAL_FAIL: vm_remap kr=%d (%s)'' err])
      else if \<not> mirror_rw_ok P then
        (False, [Mmap ''rx'', VmRemap ''mirror'', Mprotect ''mirror'' ''RW'', VmDeallocate ''mirror'', Munmap ''rx''],
         [entry, BLINKER_DIAG ''JITPROBE_DUAL_FAIL: mirror mprotect RW errno=%d (%s)'' err])
      else
        (let ok_first = exec_ok 42 (execute1 P); ok_second = exec_ok 43 (execute2 P);
             sig = probe_signal (probe_signal 0 (execute1 P)) (execute2 P) in
         (ok_first \<and> ok_second,
          [Mmap ''rx'', VmRemap ''mirror'', Mprotect ''mirror'' ''RW''] @
          guarded [WriteCode ''mirror'', Execute ''rx'', WriteCode ''mirror'', Execute ''rx''] @
          [VmDeallocate ''mirror'', Munmap ''rx''],
          [entry, BLINKER_DIAG ''JITPROBE_DUAL1: remap ok rx=%p mirror=%llx cur_prot=%d'' [],
           BLINKER_DIAG ''JITPROBE_DUAL2: wrote via mirror, about to execute RX view'' [],
           BLINKER_DIAG ''JITPROBE_DUAL3: first execute returned'' [],
           if ok_first \<and> ok_second then BLINKER_DIAG ''JITPROBE_DUAL_OK: RW mirror and RX execution verified'' []
           else BLINKER_DIAG ''JITPROBE_DUAL_FAIL: first=%d second=%d signal=%d''
                  [LInt (of_bool ok_first), LInt (of_bool ok_second), LInt sig]])))"

definition try_executable_page :: "probe_env \<Rightarrow> probe_result" where
  "try_executable_page P =
     (let err = [LText ''plain'', LInt (probe_errno P)];
          start = BLINKER_DIAG ''JITPROBE1: %s mmap RW'' [LText ''plain''] in
      if \<not> mmap_ok P then
        (False, [MmapFailed], [start, BLINKER_DIAG ''JITPROBE_FAIL: %s mmap errno=%d (%s)'' err])
      else if \<not> mprotect_ok P then
        (False, [Mmap ''code'', WriteCode ''code'', Mprotect ''code'' ''RX'', Munmap ''code''],
         [start, BLINKER_DIAG ''JITPROBE_FAIL: %s mprotect RX errno=%d (%s)'' err])
      else
        (exec_ok 42 (execute1 P),
         [Mmap ''code'', WriteCode ''code'', Mprotect ''code'' ''RX''] @ guarded [Execute ''code''] @ [Munmap ''code''],
         [start,
          case execute1 P of
            Returned v \<Rightarrow>
              if v = 42 then BLINKER_DIAG ''JITPROBE_BASIC_EXEC_OK: %s executable memory works'' [LText ''plain'']
              else BLINKER_DIAG ''JITPROBE_FAIL: %s executable code returned %d, expected 42'' [LText ''plain'', LInt v]
          | Raised s \<Rightarrow> BLINKER_DIAG ''JITPROBE_FAIL: %s execution signal=%d'' [LText ''plain'', LInt s]]))"

definition ProbeIOSBasicExecutableMemory :: "probe_env \<Rightarrow> probe_result" where
  "ProbeIOSBasicExecutableMemory P =
     (let (ok, calls, logs) = try_executable_page P in
      (ok, calls,
       [BLINKER_DIAG ''JITPROBE0: starting basic executable-memory probe'' [],
        BLINKER_DIAG ''JITPROBE_INFO: skipping fatal-prone MAP_JIT probe; testing plain W^X'' []] @ logs @
       [if ok then BLINKER_DIAG ''JITPROBE_BASIC_EXEC_OK: basic executable memory available'' []
        else BLINKER_DIAG ''JITPROBE_DECISION_DETAIL: all basic executable-memory tests failed'' []]))"

subsection \<open>Authorization\<close>

text \<open>
  \<open>bundle_components\<close>: the dot-separated components of the bundle identifier, as
  CoreFoundation returns them (\<open>None\<close> without an identifier or an array); \<open>cs_status\<close>: the
  status word of \<^verbatim>\<open>csops\<close> before and after the jailbreak request, \<open>None\<close> when the call fails.
\<close>

record jit_env =
  bundle_components :: "string list option"
  cs_status_before :: "u32 option"
  cs_status_after :: "u32 option"
  dlopen_basebin :: bool
  dlopen_plain :: bool
  dlsym_found :: bool
  set_process_debugged_rv :: int

definition IsIOSProcessCSDebugged :: "u32 option \<Rightarrow> bool" where
  "IsIOSProcessCSDebugged status = (case status of None \<Rightarrow> False | Some s \<Rightarrow> and s 0x10000000 \<noteq> 0)"

definition TryEnableJITViaJailbreak :: "jit_env \<Rightarrow> log_line list" where
  "TryEnableJITViaJailbreak J =
     (if \<not> dlopen_basebin J \<and> \<not> dlopen_plain J then
        [BLINKER_DIAG ''JIT_AUTH: no jailbreak library found; cannot self-enable JIT'' []]
      else if \<not> dlsym_found J then
        [BLINKER_DIAG ''JIT_AUTH: jailbreak library has no set_process_debugged'' []]
      else [BLINKER_DIAG ''JIT_AUTH: jailbreak self-JIT request returned %d'' [LInt (set_process_debugged_rv J)]])"

fun has_jit_component :: "string list \<Rightarrow> bool" where
  "has_jit_component [] = False"
| "has_jit_component (c # cs) = (if c = ''jit'' then True else has_jit_component cs)"

definition IsIOSJITBundle :: "jit_env \<Rightarrow> bool" where
  "IsIOSJITBundle J = (case bundle_components J of None \<Rightarrow> False | Some cs \<Rightarrow> has_jit_component cs)"

definition IsIOSRuntimeJITAuthorized :: "jit_env \<Rightarrow> bool \<times> log_line list" where
  "IsIOSRuntimeJITAuthorized J =
     (if \<not> IsIOSJITBundle J then
        (False, [BLINKER_DIAG ''JIT_AUTH: stable bundle selected; using jitless engine'' []])
      else
        (let first = BLINKER_DIAG (if IsIOSProcessCSDebugged (cs_status_before J)
                                   then ''JIT_AUTH: CS_DEBUGGED already set at launch''
                                   else ''JIT_AUTH: CS_DEBUGGED not set at launch'') [];
             request = TryEnableJITViaJailbreak J in
         if IsIOSProcessCSDebugged (cs_status_after J) then
           (True, first # request @ [BLINKER_DIAG ''JIT_AUTH: process is debugged; JIT authorized without Open with JIT'' []])
         else
           (False, first # request @ [BLINKER_DIAG ''JIT_AUTH: CS_DEBUGGED absent; using safe jitless fallback'' []])))"

subsection \<open>The tier and its guard\<close>

definition kTierJitless :: int where "kTierJitless = 0"
definition kTierInterpreter :: int where "kTierInterpreter = 1"
definition kTierBaseline :: int where "kTierBaseline = 2"
definition kTierMidTier :: int where "kTierMidTier = 3"
definition kTierFull :: int where "kTierFull = 4"
definition kTierFullWasm :: int where "kTierFullWasm = 5"
definition kTierMax :: int where "kTierMax = kTierFullWasm"
definition kDefaultIOSJitTier :: int where "kDefaultIOSJitTier = kTierFull"

lemmas tier_numbers [tier_simps] = kTierJitless_def kTierInterpreter_def kTierBaseline_def
  kTierMidTier_def kTierFull_def kTierFullWasm_def kTierMax_def kDefaultIOSJitTier_def

definition IOSJitTierName :: "int \<Rightarrow> string" where
  "IOSJitTierName tier =
     (if tier = kTierJitless then ''jitless''
      else if tier = kTierInterpreter then ''interpreter''
      else if tier = kTierBaseline then ''baseline (Sparkplug)''
      else if tier = kTierMidTier then ''mid-tier (Maglev)''
      else if tier = kTierFull then ''full (TurboFan)''
      else if tier = kTierFullWasm then ''full + Wasm JIT'' else ''unknown'')"

text \<open>The flags, one string per switch; the source has them separated by single spaces.\<close>

definition IOSJitTierV8Flags :: "int \<Rightarrow> string list" where
  "IOSJitTierV8Flags tier =
     (if tier = kTierJitless then [''--jitless'', ''--wasm-jitless'', ''--bytecode-old-age=24'']
      else if tier = kTierInterpreter then
        [''--no-sparkplug'', ''--regexp-interpret-all'', ''--wasm-jitless'', ''--disable-optimizing-compilers'']
      else if tier = kTierBaseline then
        [''--sparkplug'', ''--regexp-interpret-all'', ''--wasm-jitless'', ''--disable-optimizing-compilers'']
      else if tier = kTierMidTier then [''--maglev-as-top-tier'', ''--wasm-jitless'']
      else if tier = kTierFull then [''--wasm-jitless'']
      else if tier = kTierFullWasm then []
      else [''--jitless'', ''--wasm-jitless''])"

text \<open>What survives a launch: the user defaults and the crash-signal file.\<close>

record device =
  defaults :: "string \<rightharpoonup> cf_value"
  crash_signal_file :: "string option"

definition ReadIOSPrefInt :: "string \<Rightarrow> int \<Rightarrow> device \<Rightarrow> int" where
  "ReadIOSPrefInt key fallback d = (case defaults d key of Some (CFNumber v) \<Rightarrow> v | _ \<Rightarrow> fallback)"

definition WriteIOSPrefInt :: "string \<Rightarrow> int \<Rightarrow> device \<Rightarrow> device" where
  "WriteIOSPrefInt key value d = d\<lparr>defaults := (defaults d)(key \<mapsto> CFNumber value)\<rparr>"

text \<open>The file is read up to 15 bytes and removed.\<close>

definition TakeLastCrashSignal :: "device \<Rightarrow> int \<times> device" where
  "TakeLastCrashSignal d =
     (case crash_signal_file d of
        None \<Rightarrow> (0, d)
      | Some text \<Rightarrow> (if text = [] then 0 else atoi (take 15 text), d\<lparr>crash_signal_file := None\<rparr>))"

definition codegen_fault :: "int \<Rightarrow> bool" where
  "codegen_fault sig \<longleftrightarrow> sig = SIGILL \<or> sig = SIGBUS \<or> sig = SIGSEGV \<or> sig = SIGTRAP"

definition capped_tier :: "bool \<Rightarrow> int \<Rightarrow> int \<times> log_line list" where
  "capped_tier coderange_execution_available tier =
     (if \<not> coderange_execution_available \<and> tier > kTierInterpreter then
        (kTierInterpreter,
         [BLINKER_DIAG ''JIT_TIER_CAPPED: tier %d (%s) needs executable code-range pages, which this OS refuses; running tier %d (%s)''
            [LInt tier, LText (IOSJitTierName tier), LInt kTierInterpreter, LText (IOSJitTierName kTierInterpreter)]])
      else (tier, []))"

text \<open>The block \<^verbatim>\<open>if (pending >= 0)\<close>.\<close>

definition apply_guard :: "int \<Rightarrow> int \<Rightarrow> device \<Rightarrow> int \<times> device \<times> log_line list" where
  "apply_guard pending tier d =
     (if pending \<ge> 0 then
        (let (sig, d) = TakeLastCrashSignal d in
         if codegen_fault sig then
           (let downgraded = max 0 (min pending tier - 1) in
            (downgraded, WriteIOSPrefInt ''BlinkJITTier'' downgraded d,
             [BLINKER_DIAG ''JIT_TIER_DOWNGRADE: tier %d (%s) died with signal %d; falling back to tier %d (%s)''
                [LInt pending, LText (IOSJitTierName pending), LInt sig, LInt downgraded,
                 LText (IOSJitTierName downgraded)]]))
         else
           (tier, d,
            [BLINKER_DIAG ''JIT_TIER_KEPT: last launch ended with signal %d, which is not a codegen fault; staying on tier %d (%s)''
               [LInt sig, LInt tier, LText (IOSJitTierName tier)]]))
      else (tier, d, []))"

definition ResolveIOSJitTier :: "bool \<Rightarrow> device \<Rightarrow> int \<times> device \<times> log_line list" where
  "ResolveIOSJitTier coderange_execution_available d =
     (let tier = ReadIOSPrefInt ''BlinkJITTier'' kDefaultIOSJitTier d;
          tier = max kTierJitless (min kTierMax tier);
          (tier, capped) = capped_tier coderange_execution_available tier;
          pending = ReadIOSPrefInt ''BlinkJITTierProbe'' (-1) d;
          (tier, d, guarded_log) = apply_guard pending tier d
      in (tier, WriteIOSPrefInt ''BlinkJITTierProbe'' (if tier \<ge> kTierBaseline then tier else -1) d,
          capped @ guarded_log))"

text \<open>\<^verbatim>\<open>BlinkClearJITTierProbe\<close>, called when the app enters the background or restarts itself.\<close>

definition BlinkClearJITTierProbe :: "device \<Rightarrow> device" where
  "BlinkClearJITTierProbe d =
     (if defaults d ''BlinkJITTierProbe'' \<noteq> None \<and> ReadIOSPrefInt ''BlinkJITTierProbe'' 0 d \<ge> 0
      then WriteIOSPrefInt ''BlinkJITTierProbe'' (-1) d else d)"


subsection \<open>Memory budgets\<close>

definition ram_mb :: "kernel_env \<Rightarrow> memory_cache \<Rightarrow> nat \<times> memory_cache" where
  "ram_mb K m = (let (v, m') = DevicePhysicalMemory K m in (unat (v div (1024 * 1024)), m'))"

definition heap_budget :: "nat \<Rightarrow> nat \<times> nat" where
  "heap_budget mb =
     (if mb \<ge> 5500 then (512, 16) else if mb \<ge> 3500 then (384, 16) else if mb < 1500 then (160, 4) else (256, 8))"

definition IOSV8HeapFlags :: "nat \<Rightarrow> string list" where
  "IOSV8HeapFlags mb =
     (let (old_space_mb, semi_space_mb) = heap_budget mb
      in [''--max-old-space-size='' @ nat_str old_space_mb, ''--max-semi-space-size='' @ nat_str semi_space_mb])"

definition gpu_mem_mb :: "nat \<Rightarrow> nat" where
  "gpu_mem_mb mb = (if mb \<ge> 5500 then 512 else if mb \<ge> 3500 then 384 else if mb \<ge> 1500 then 192 else 96)"

fun join_spaces :: "string list \<Rightarrow> string" where
  "join_spaces [] = []"
| "join_spaces [x] = x"
| "join_spaces (x # xs) = x @ CHR '' '' # join_spaces xs"

subsection \<open>BasicStartupComplete\<close>

text \<open>
  The command line is the map from switch names to values; \<^verbatim>\<open>AppendSwitch\<close> gives the empty value.
\<close>

type_synonym command_line = "string \<rightharpoonup> string"

definition AppendSwitchASCII :: "string \<Rightarrow> string \<Rightarrow> command_line \<Rightarrow> command_line" where
  "AppendSwitchASCII s v cl = cl(s \<mapsto> v)"

definition AppendSwitch :: "string \<Rightarrow> command_line \<Rightarrow> command_line" where
  "AppendSwitch s cl = AppendSwitchASCII s [] cl"

definition HasSwitch :: "string \<Rightarrow> command_line \<Rightarrow> bool" where
  "HasSwitch s cl \<longleftrightarrow> cl s \<noteq> None"

definition GetSwitchValue :: "string \<Rightarrow> command_line \<Rightarrow> string" where
  "GetSwitchValue s cl = (case cl s of None \<Rightarrow> [] | Some v \<Rightarrow> v)"

text \<open>
  Everything start-up consults besides the device: the probes' environments, the signing
  state, the kernel, the GPU family test (\<open>None\<close> when the weak symbol is absent) and the path
  of the full log.
\<close>

record startup_env =
  basic_probe :: probe_env
  range_probe :: probe_env
  rwx_probe :: probe_env
  dual_probe :: probe_env
  signing :: jit_env
  kernel :: kernel_env
  gpu_supports_graphite :: "bool option"
  full_log_path :: string
  temp_dir :: string

definition executable_jit_available :: "startup_env \<Rightarrow> bool" where
  "executable_jit_available S \<longleftrightarrow>
     IsIOSJITBundle (signing S) \<and>
     (fst (IsIOSRuntimeJITAuthorized (signing S)) \<or>
      fst (ProbeIOSBasicExecutableMemory (basic_probe S)) \<and>
      fst (ProbeIOSCodeRangePatternExecutableMemory (range_probe S)))"

text \<open>The probes run in this order; the last two only on request.\<close>

definition startup_probes :: "startup_env \<Rightarrow> device \<Rightarrow> probe_call list" where
  "startup_probes S d =
     fst (snd (ProbeIOSBasicExecutableMemory (basic_probe S))) @
     fst (snd (ProbeIOSCodeRangePatternExecutableMemory (range_probe S))) @
     (if ReadIOSPrefInt ''BlinkJITProbes'' 0 d \<noteq> 0
      then fst (snd (ProbeIOSRwxExecutableMemory (rwx_probe S))) @
           fst (snd (ProbeIOSDualMappingExecutableMemory (dual_probe S)))
      else [])"

definition startup_tier :: "startup_env \<Rightarrow> device \<Rightarrow> int \<times> device \<times> log_line list" where
  "startup_tier S d =
     (if executable_jit_available S
      then ResolveIOSJitTier (fst (ProbeIOSCodeRangePatternExecutableMemory (range_probe S))) d
      else (kTierJitless, d, []))"

definition startup_auth_log :: "startup_env \<Rightarrow> device \<Rightarrow> log_line list" where
  "startup_auth_log S d =
     snd (snd (ProbeIOSBasicExecutableMemory (basic_probe S))) @
     snd (IsIOSRuntimeJITAuthorized (signing S)) @
     (if fst (ProbeIOSBasicExecutableMemory (basic_probe S))
      then [BLINKER_DIAG ''JITPROBE_BASIC_EXEC_OK: basic executable memory succeeded'' []] else []) @
     snd (snd (ProbeIOSCodeRangePatternExecutableMemory (range_probe S))) @
     (if ReadIOSPrefInt ''BlinkJITProbes'' 0 d \<noteq> 0
      then snd (snd (ProbeIOSRwxExecutableMemory (rwx_probe S))) @
           snd (snd (ProbeIOSDualMappingExecutableMemory (dual_probe S)))
      else []) @
     (if \<not> fst (IsIOSRuntimeJITAuthorized (signing S)) \<and> executable_jit_available S
      then [BLINKER_DIAG ''JIT_AUTH: executable-memory probes authorize palera1n JIT'' []] else [])"

record startup_state =
  switches :: command_line
  dev :: device
  mem :: memory_cache
  boot :: "log_line list"

definition select_js_flags :: "startup_env \<Rightarrow> startup_state \<Rightarrow> startup_state" where
  "select_js_flags S t =
     (if HasSwitch ''js-flags'' (switches t) then t
      else
        (let (tier, d, logs) = startup_tier S (dev t);
             (mb, m) = ram_mb (kernel S) (mem t);
             js_flags = join_spaces (IOSJitTierV8Flags tier @ IOSV8HeapFlags mb) in
         t\<lparr>switches := AppendSwitchASCII ''js-flags'' js_flags (switches t), dev := d, mem := m,
           boot := boot t @ startup_auth_log S (dev t) @ logs @
             [BLINKER_DIAG ''JIT_TIER: %d (%s) js-flags=%s''
                [LInt tier, LText (IOSJitTierName tier), LText js_flags]]\<rparr>))"

definition bound_gpu_memory :: "startup_env \<Rightarrow> startup_state \<Rightarrow> startup_state" where
  "bound_gpu_memory S t =
     (if HasSwitch ''force-gpu-mem-available-mb'' (switches t) then t
      else
        (let (mb, m) = ram_mb (kernel S) (mem t);
             cl = AppendSwitchASCII ''force-gpu-mem-available-mb'' (nat_str (gpu_mem_mb mb)) (switches t);
             legacy = (mb < 1500 \<and> \<not> HasSwitch ''force-device-scale-factor'' cl) in
         t\<lparr>switches := (if legacy then AppendSwitchASCII ''force-device-scale-factor'' ''2'' cl else cl), mem := m,
           boot := boot t @
             (if legacy then [BLINKER_DIAG ''MEMBUDGET: 1GB legacy compositor scale forced to 2x'' []] else []) @
             [BLINKER_DIAG ''MEMBUDGET: device_ram=%lluMB gpu_mem=%sMB'' [LNum mb, LText (nat_str (gpu_mem_mb mb))]]\<rparr>))"

definition select_gpu_features :: "startup_env \<Rightarrow> startup_state \<Rightarrow> startup_state" where
  "select_gpu_features S t =
     (let t = (if gpu_supports_graphite S = Some False
               then t\<lparr>switches := AppendSwitch ''disable-skia-graphite'' (switches t),
                      boot := boot t @ [BLINKER_DIAG ''GPUFAMILY: below Apple3, Skia Graphite disabled'' []]\<rparr>
               else t) in
      if \<not> ios13_available (kernel S) then
        t\<lparr>switches :=
            AppendSwitchASCII ''disable-features''
              ''WebGPUService,avfoundation-overlays,overlay-fullscreen-video,BackForwardCache''
              (AppendSwitch ''disable-webgpu'' (AppendSwitch ''disable-webgl'' (switches t))),
          boot := boot t @
            [BLINKER_DIAG ''GPUFAMILY: legacy WebGL/WebGPU and black-screen AV video overlays disabled'' []]\<rparr>
      else
        t\<lparr>switches := AppendSwitchASCII ''disable-features'' ''overlay-fullscreen-video,BackForwardCache'' (switches t),
          boot := boot t @
            [BLINKER_DIAG ''VIDEO: native Apple video layer and PiP enabled with IOSurface fallback'' []]\<rparr>)"

text \<open>The proxy setting is used when it is a string that fits the 256-byte buffer.\<close>

definition apply_proxy :: "startup_state \<Rightarrow> startup_state" where
  "apply_proxy t =
     (case defaults (dev t) ''BlinkProxy'' of
        Some (CFString v) \<Rightarrow>
          if length v < 256 \<and> v \<noteq> [] then t\<lparr>switches := AppendSwitchASCII ''proxy-server'' v (switches t)\<rparr> else t
      | _ \<Rightarrow> t)"

text \<open>\<^verbatim>\<open>InitLogging\<close>: to stderr and the system log, or to all destinations with a log file.\<close>

definition InitLogging :: "startup_env \<Rightarrow> command_line \<Rightarrow> string option" where
  "InitLogging S cl =
     (if GetSwitchValue ''enable-logging'' cl = ''stderr'' then None
      else (let f = GetSwitchValue ''log-file'' cl
            in Some (if f = [] then temp_dir S @ ''/content_shell.log'' else f)))"

definition BasicStartupComplete :: "startup_env \<Rightarrow> startup_state \<Rightarrow> startup_state \<times> string option" where
  "BasicStartupComplete S t =
     (let cl = switches t;
          cl = (if HasSwitch ''run-layout-test'' cl then AppendSwitch ''run-web-tests'' cl else cl);
          cl = AppendSwitchASCII ''enable-features'' ''WebContentsDiscard'' (AppendSwitch ''single-process'' cl);
          cl = (if HasSwitch ''log-file'' cl then cl else AppendSwitchASCII ''log-file'' (full_log_path S) cl);
          t = select_js_flags S (t\<lparr>switches := cl\<rparr>);
          t = t\<lparr>switches := AppendSwitch ''disable-gpu-watchdog'' (switches t)\<rparr>;
          t = apply_proxy (select_gpu_features S (bound_gpu_memory S t))
      in (t, InitLogging S (switches t)))"


subsection \<open>Probes leave nothing behind\<close>

text \<open>The mappings held and the signal handlers installed after a list of calls.\<close>

fun probe_step :: "probe_call \<Rightarrow> string set \<times> int set \<Rightarrow> string set \<times> int set" where
  "probe_step (Mmap m) (ms, hs) = (insert m ms, hs)"
| "probe_step (VmRemap m) (ms, hs) = (insert m ms, hs)"
| "probe_step (Munmap m) (ms, hs) = (ms - {m}, hs)"
| "probe_step (VmDeallocate m) (ms, hs) = (ms - {m}, hs)"
| "probe_step (SetHandler s) (ms, hs) = (ms, insert s hs)"
| "probe_step (RestoreHandler s) (ms, hs) = (ms, hs - {s})"
| "probe_step _ (ms, hs) = (ms, hs)"

text \<open>Code runs only from a held mapping and under all three handlers.\<close>

fun probe_safe :: "string set \<times> int set \<Rightarrow> probe_call list \<Rightarrow> bool" where
  "probe_safe st [] \<longleftrightarrow> st = ({}, {})"
| "probe_safe st (c # cs) \<longleftrightarrow>
     (case c of
        Execute m \<Rightarrow> m \<in> fst st \<and> set probe_signals \<subseteq> snd st
      | WriteCode m \<Rightarrow> m \<in> fst st
      | Mprotect m p \<Rightarrow> m \<in> fst st
      | Munmap m \<Rightarrow> m \<in> fst st
      | VmDeallocate m \<Rightarrow> m \<in> fst st
      | _ \<Rightarrow> True) \<and> probe_safe (probe_step c st) cs"

lemmas probe_defs = ProbeIOSCodeRangePatternExecutableMemory_def ProbeIOSRwxExecutableMemory_def
  ProbeIOSDualMappingExecutableMemory_def ProbeIOSBasicExecutableMemory_def try_executable_page_def

lemma probe_safe_append:
  "probe_safe st cs \<Longrightarrow> probe_safe ({}, {}) ds \<Longrightarrow> probe_safe st (cs @ ds)"
  by (induction st cs rule: probe_safe.induct) auto

lemma probes_safe:
  "probe_safe ({}, {}) (fst (snd (ProbeIOSCodeRangePatternExecutableMemory P)))"
  "probe_safe ({}, {}) (fst (snd (ProbeIOSRwxExecutableMemory P)))"
  "probe_safe ({}, {}) (fst (snd (ProbeIOSDualMappingExecutableMemory P)))"
  "probe_safe ({}, {}) (fst (snd (ProbeIOSBasicExecutableMemory P)))"
  by (simp_all add: probe_defs guarded_def probe_signals_def signal_numbers Let_def) auto

text \<open>
  C14: the start-up probes are self-contained: whatever the kernel answers, every page they map
  or remap is released again, the handlers for SIGBUS, SIGILL and SIGSEGV are back in place at
  the end, no page is written, protected or released that is not held, and generated code runs
  only while all three handlers are installed.
\<close>

theorem startup_probes_clean: "probe_safe ({}, {}) (startup_probes S d)"
  unfolding startup_probes_def by (simp add: probe_safe_append probes_safe)

subsection \<open>Who may generate code\<close>

text \<open>What the guard reads, and what it resolves to.\<close>

definition stored_tier :: "device \<Rightarrow> int" where
  "stored_tier d = max 0 (min 5 (ReadIOSPrefInt ''BlinkJITTier'' 4 d))"

definition armed_tier :: "device \<Rightarrow> int" where
  "armed_tier d = ReadIOSPrefInt ''BlinkJITTierProbe'' (-1) d"

definition last_signal :: "device \<Rightarrow> int" where
  "last_signal d = fst (TakeLastCrashSignal d)"

definition base_tier :: "bool \<Rightarrow> device \<Rightarrow> int" where
  "base_tier c d = (if c then stored_tier d else min 1 (stored_tier d))"

definition demoting :: "device \<Rightarrow> bool" where
  "demoting d \<longleftrightarrow> armed_tier d \<ge> 0 \<and> codegen_fault (last_signal d)"

lemma stored_tier_range [simp]: "0 \<le> stored_tier d" "stored_tier d \<le> 5"
  by (auto simp: stored_tier_def)

lemma base_tier_bounds [simp]: "0 \<le> base_tier c d" "base_tier c d \<le> stored_tier d" "base_tier c d \<le> 5"
  by (auto simp: base_tier_def min_def)

lemma ReadPref_Write:
  "ReadIOSPrefInt k f (WriteIOSPrefInt k' v d) = (if k = k' then v else ReadIOSPrefInt k f d)"
  by (simp add: ReadIOSPrefInt_def WriteIOSPrefInt_def)

lemma file_Write [simp]: "crash_signal_file (WriteIOSPrefInt k v d) = crash_signal_file d"
  by (simp add: WriteIOSPrefInt_def)

lemma TakeLastCrashSignal_device:
  "snd (TakeLastCrashSignal d) = d\<lparr>crash_signal_file := None\<rparr>"
  by (simp add: TakeLastCrashSignal_def split: option.split)

lemma ReadPref_file [simp]: "ReadIOSPrefInt k f (d\<lparr>crash_signal_file := x\<rparr>) = ReadIOSPrefInt k f d"
  by (simp add: ReadIOSPrefInt_def)

lemma apply_guard_result:
  "fst (apply_guard (armed_tier d) t d) = (if demoting d then max 0 (min (armed_tier d) t - 1) else t)"
  "fst (snd (apply_guard (armed_tier d) t d)) =
     (let d1 = (if armed_tier d \<ge> 0 then d\<lparr>crash_signal_file := None\<rparr> else d)
      in if demoting d then WriteIOSPrefInt ''BlinkJITTier'' (max 0 (min (armed_tier d) t - 1)) d1 else d1)"
  using TakeLastCrashSignal_device [of d]
  by (auto simp: apply_guard_def demoting_def last_signal_def Let_def split: prod.split)

lemma capped_base: "fst (capped_tier c (stored_tier d)) = base_tier c d"
  by (auto simp: capped_tier_def base_tier_def tier_numbers)

lemma Resolve_unfold:
  "ResolveIOSJitTier c d =
     (let (t, d', l) = apply_guard (armed_tier d) (base_tier c d) d
      in (t, WriteIOSPrefInt ''BlinkJITTierProbe'' (if t \<ge> 2 then t else - 1) d',
          snd (capped_tier c (stored_tier d)) @ l))"
  unfolding ResolveIOSJitTier_def Let_def
  by (simp add: tier_numbers capped_base [symmetric] stored_tier_def armed_tier_def split: prod.split)

lemma Resolve_tier:
  "fst (ResolveIOSJitTier c d) =
     (if demoting d then max 0 (min (armed_tier d) (base_tier c d) - 1) else base_tier c d)"
  unfolding Resolve_unfold Let_def apply_guard_result(1) [symmetric] by (simp split: prod.split)

lemma Resolve_device_eq:
  "fst (snd (ResolveIOSJitTier c d)) =
     (let t = fst (ResolveIOSJitTier c d);
          d1 = (if armed_tier d \<ge> 0 then d\<lparr>crash_signal_file := None\<rparr> else d);
          d2 = (if demoting d then WriteIOSPrefInt ''BlinkJITTier'' t d1 else d1)
      in WriteIOSPrefInt ''BlinkJITTierProbe'' (if t \<ge> 2 then t else - 1) d2)"
proof -
  obtain t d' l where g: "apply_guard (armed_tier d) (base_tier c d) d = (t, d', l)" by (metis prod_cases3)
  then have "fst (ResolveIOSJitTier c d) = t"
    and "fst (snd (ResolveIOSJitTier c d)) = WriteIOSPrefInt ''BlinkJITTierProbe'' (if t \<ge> 2 then t else - 1) d'"
    by (simp_all add: Resolve_unfold)
  moreover have "d' = (let d1 = (if armed_tier d \<ge> 0 then d\<lparr>crash_signal_file := None\<rparr> else d)
      in if demoting d then WriteIOSPrefInt ''BlinkJITTier'' t d1 else d1)"
    using g apply_guard_result [of d "base_tier c d"] by (auto simp: Let_def)
  ultimately show ?thesis by (simp add: Let_def)
qed

lemma Resolve_device:
  fixes c :: bool and d :: device
  defines "d' \<equiv> fst (snd (ResolveIOSJitTier c d))" and "t \<equiv> fst (ResolveIOSJitTier c d)"
  shows "stored_tier d' = (if demoting d then max 0 (min 5 t) else stored_tier d)"
    and "armed_tier d' = (if t \<ge> 2 then t else - 1)"
    and "crash_signal_file d' = (if armed_tier d \<ge> 0 then None else crash_signal_file d)"
  unfolding d'_def Resolve_device_eq t_def [symmetric] Let_def
  by (simp_all add: stored_tier_def armed_tier_def ReadPref_Write)

lemma Resolve_range: "0 \<le> fst (ResolveIOSJitTier c d)" "fst (ResolveIOSJitTier c d) \<le> base_tier c d"
  by (auto simp: Resolve_tier)


lemma startup_tier_cases:
  "fst (startup_tier S d) =
     (if executable_jit_available S
      then fst (ResolveIOSJitTier (fst (ProbeIOSCodeRangePatternExecutableMemory (range_probe S))) d) else 0)"
  by (simp add: startup_tier_def tier_numbers)

text \<open>
  C12: V8 is started on a tier that generates code (baseline or above) only in a bundle whose
  identifier has a component \<^verbatim>\<open>jit\<close>, on a device whose kernel executed a page inside a reserved
  code range, and only when the process is debugged after the jailbreak request or the basic
  probe executed code too; every other launch carries \<^verbatim>\<open>--jitless\<close> or runs the interpreter, and
  WebAssembly is compiled on the last tier alone.
\<close>

theorem codegen_needs_authorization:
  assumes "fst (startup_tier S d) \<ge> kTierBaseline"
  shows "IsIOSJITBundle (signing S) \<and> exec_ok 42 (execute1 (range_probe S)) \<and>
    (IsIOSProcessCSDebugged (cs_status_after (signing S)) \<or> exec_ok 42 (execute1 (basic_probe S))) \<and>
    (''--wasm-jitless'' \<notin> set (IOSJitTierV8Flags (fst (startup_tier S d))) \<longrightarrow> fst (startup_tier S d) = kTierFullWasm)"
proof -
  have avail: "executable_jit_available S"
    and t: "fst (ResolveIOSJitTier (fst (ProbeIOSCodeRangePatternExecutableMemory (range_probe S))) d) \<ge> 2"
    using assms unfolding startup_tier_cases by (auto simp: tier_numbers split: if_splits)
  have "base_tier (fst (ProbeIOSCodeRangePatternExecutableMemory (range_probe S))) d \<ge> 2"
    using t Resolve_range(2) order_trans by blast
  then have range: "fst (ProbeIOSCodeRangePatternExecutableMemory (range_probe S))"
    by (auto simp: base_tier_def split: if_splits)
  have "IsIOSJITBundle (signing S)"
    and "IsIOSProcessCSDebugged (cs_status_after (signing S)) \<or> fst (ProbeIOSBasicExecutableMemory (basic_probe S))"
    using avail unfolding executable_jit_available_def
    by (auto simp: IsIOSRuntimeJITAuthorized_def Let_def split: if_splits)
  moreover have "exec_ok 42 (execute1 (range_probe S))"
    using range by (auto simp: ProbeIOSCodeRangePatternExecutableMemory_def Let_def split: if_splits)
  moreover have "fst (ProbeIOSBasicExecutableMemory (basic_probe S)) \<Longrightarrow> exec_ok 42 (execute1 (basic_probe S))"
    by (auto simp: ProbeIOSBasicExecutableMemory_def try_executable_page_def Let_def split: if_splits prod.splits)
  ultimately show ?thesis by (auto simp: IOSJitTierV8Flags_def tier_numbers split: if_splits)
qed

subsection \<open>The guard over many launches\<close>

text \<open>
  What can end or interrupt a session: the app enters the background, or a fatal signal reaches
  the handler.  A session without a fatal signal ends in a way no handler sees (a normal exit,
  or the kernel's \<^verbatim>\<open>SIGKILL\<close>).
\<close>

datatype session_event = EnterBackground | FatalSignal int

fun session :: "crash_context \<Rightarrow> session_event list \<Rightarrow> device \<Rightarrow> device" where
  "session x [] d = d"
| "session x (EnterBackground # es) d = session x es (BlinkClearJITTierProbe d)"
| "session x (FatalSignal sig # es) d =
     d\<lparr>crash_signal_file := fst (BlinkCrashHandlerWithInfo sig x (crash_signal_file d, []))\<rparr>"

text \<open>A launch: whether code-range pages execute, and what the session does at a given tier.\<close>

type_synonym launch = "bool \<times> (int \<Rightarrow> session_event list)"

definition run_launch :: "crash_context \<Rightarrow> launch \<Rightarrow> device \<Rightarrow> int \<times> device" where
  "run_launch x l d =
     (let (t, d', _) = ResolveIOSJitTier (fst l) d in (t, session x (snd l t) d'))"

text \<open>Generated code faults before the guard is disarmed.\<close>

fun armed_fault :: "session_event list \<Rightarrow> bool" where
  "armed_fault (FatalSignal sig # es) \<longleftrightarrow> codegen_fault sig"
| "armed_fault _ \<longleftrightarrow> False"

definition codegen_crash :: "launch \<Rightarrow> device \<Rightarrow> bool" where
  "codegen_crash l d \<longleftrightarrow>
     (let t = fst (ResolveIOSJitTier (fst l) d) in t \<ge> kTierBaseline \<and> armed_fault (snd l t))"

fun crash_count :: "crash_context \<Rightarrow> launch list \<Rightarrow> device \<Rightarrow> nat" where
  "crash_count x [] d = 0"
| "crash_count x (l # ls) d = of_bool (codegen_crash l d) + crash_count x ls (snd (run_launch x l d))"

text \<open>The tier the next launch will try, code-range pages permitting.\<close>

definition next_tier :: "device \<Rightarrow> int" where
  "next_tier d = (if demoting d then max 0 (min (armed_tier d) (stored_tier d) - 1) else stored_tier d)"

lemma next_tier_le_stored: "next_tier d \<le> stored_tier d"
  by (auto simp: next_tier_def)

lemma stored_ClearProbe [simp]: "stored_tier (BlinkClearJITTierProbe d) = stored_tier d"
  by (simp add: BlinkClearJITTierProbe_def stored_tier_def ReadPref_Write)

lemma stored_session [simp]: "stored_tier (session x es d) = stored_tier d"
  by (induction x es d rule: session.induct) (simp_all, simp add: stored_tier_def)

lemma crash_file_recorded:
  "signal_file_opens x \<Longrightarrow>
     fst (BlinkCrashHandlerWithInfo sig x st) = Some (crash_signal_text sig)"
  by (simp add: BlinkCrashHandlerWithInfo_def BlinkCrashHandler_def BlinkRecordCrashSignal_def Let_def
      split: prod.splits)

lemma crash_signal_text_short: "0 \<le> sig \<Longrightarrow> sig < 10 ^ 8 \<Longrightarrow> length (crash_signal_text sig) \<le> 8 \<and> crash_signal_text sig \<noteq> []"
  using dec_digits_length [of "nat sig" 8]
  by (auto simp: crash_signal_text_dec dec_digits_rec)

lemma last_signal_recorded:
  assumes "0 \<le> sig" "sig < 10 ^ 8" "crash_signal_file d = Some (crash_signal_text sig)"
  shows "last_signal d = sig"
  using assms crash_signal_text_short [OF assms(1,2)]
  by (simp add: last_signal_def TakeLastCrashSignal_def crash_signal_atoi)

lemma run_launch_simps:
  "fst (run_launch x l d) = fst (ResolveIOSJitTier (fst l) d)"
  "snd (run_launch x l d) =
     session x (snd l (fst (ResolveIOSJitTier (fst l) d))) (fst (snd (ResolveIOSJitTier (fst l) d)))"
  by (simp_all add: run_launch_def split: prod.split)

lemma Resolve_le_next: "fst (ResolveIOSJitTier c d) \<le> next_tier d"
proof (cases "demoting d")
  case True
  have "max 0 (min (armed_tier d) (base_tier c d) - 1) \<le> max 0 (min (armed_tier d) (stored_tier d) - 1)"
    by (intro max.mono diff_right_mono min.mono order_refl base_tier_bounds(2))
  with True show ?thesis by (simp add: Resolve_tier next_tier_def)
qed (simp add: Resolve_tier next_tier_def)

lemma stored_Resolve: "stored_tier (fst (snd (ResolveIOSJitTier c d))) \<le> next_tier d"
  using Resolve_le_next [of c d] Resolve_range(1) [of c d]
  by (auto simp: Resolve_device(1) next_tier_def)

lemma next_tier_antimono: "next_tier (snd (run_launch x l d)) \<le> next_tier d"
  using next_tier_le_stored [of "snd (run_launch x l d)"] stored_Resolve [of "fst l" d]
  by (simp add: run_launch_simps)

lemma codegen_signal_range: "codegen_fault sig \<Longrightarrow> 0 \<le> sig \<and> sig < 10 ^ 8"
  by (auto simp: codegen_fault_def signal_numbers)

lemma crash_lowers_next_tier:
  assumes "signal_file_opens x" "codegen_crash l d"
  shows "next_tier (snd (run_launch x l d)) < fst (run_launch x l d)" "fst (run_launch x l d) \<ge> 2"
proof -
  define t d' where "t = fst (ResolveIOSJitTier (fst l) d)" and "d' = fst (snd (ResolveIOSJitTier (fst l) d))"
  obtain sig es where ev: "snd l t = FatalSignal sig # es" and fault: "codegen_fault sig" and t2: "t \<ge> 2"
    using assms(2) unfolding codegen_crash_def t_def [symmetric] Let_def
    by (cases "snd l t" rule: armed_fault.cases) (auto simp: tier_numbers)
  let ?d2 = "session x (snd l t) d'"
  have "crash_signal_file ?d2 = Some (crash_signal_text sig)"
    using assms(1) by (simp add: ev crash_file_recorded)
  then have "last_signal ?d2 = sig"
    using codegen_signal_range [OF fault] last_signal_recorded by blast
  moreover have armed: "armed_tier ?d2 = t"
    using t2 by (simp add: ev armed_tier_def ReadPref_file) (simp add: d'_def t_def armed_tier_def [symmetric] Resolve_device(2))
  ultimately have "demoting ?d2" using fault t2 by (simp add: demoting_def)
  then have "next_tier ?d2 \<le> t - 1" using armed t2 by (simp add: next_tier_def)
  then show "next_tier (snd (run_launch x l d)) < fst (run_launch x l d)" "fst (run_launch x l d) \<ge> 2"
    using t2 by (simp_all add: run_launch_simps t_def d'_def)
qed

lemma codegen_crash_demotes:
  assumes "signal_file_opens x" "codegen_crash l d"
  shows "next_tier (snd (run_launch x l d)) < next_tier d" "next_tier d \<ge> 2"
  using crash_lowers_next_tier [OF assms] Resolve_le_next [of "fst l" d] by (simp_all add: run_launch_simps)

lemma crash_count_bound:
  "signal_file_opens x \<Longrightarrow> int (crash_count x ls d) \<le> max 0 (next_tier d - 1)"
proof (induction ls arbitrary: d)
  case (Cons l ls)
  have IH: "int (crash_count x ls (snd (run_launch x l d))) \<le> max 0 (next_tier (snd (run_launch x l d)) - 1)"
    using Cons by blast
  show ?case
  proof (cases "codegen_crash l d")
    case True
    with codegen_crash_demotes [OF Cons.prems True] IH show ?thesis by simp
  next
    case False
    with next_tier_antimono [of x l d] IH show ?thesis by simp
  qed
qed simp

lemma next_launch_lower:
  assumes "signal_file_opens x" "codegen_crash l d"
  shows "fst (run_launch x l' (snd (run_launch x l d))) < fst (run_launch x l d)"
  using crash_lowers_next_tier [OF assms] Resolve_le_next [of "fst l'" "snd (run_launch x l d)"] by (simp add: run_launch_simps)


text \<open>Without a code-generation signal on record the guard changes nothing.\<close>

lemma tier_kept:
  "\<not> demoting d \<Longrightarrow> fst (ResolveIOSJitTier c d) = base_tier c d \<and>
     stored_tier (fst (snd (ResolveIOSJitTier c d))) = stored_tier d"
  by (simp add: Resolve_tier Resolve_device(1))

lemma armed_ClearProbe: "armed_tier d \<ge> 0 \<Longrightarrow> armed_tier (BlinkClearJITTierProbe d) = - 1"
  by (auto simp: BlinkClearJITTierProbe_def armed_tier_def WriteIOSPrefInt_def ReadIOSPrefInt_def
      split: option.splits cf_value.splits)

text \<open>
  the guard acts on a stale record.  A session that was in the background once has disarmed
  the guard, so a later \<^verbatim>\<open>SIGSEGV\<close> of that session is recorded but not looked at by the next
  launch, which arms the guard again; when the kernel then kills that second session, the third
  launch reads the old record and runs, for good, one tier lower, although the second session
  saw no signal.
\<close>

lemma stale_signal_demotes:
  assumes "signal_file_opens x" and "\<not> demoting d" and "stored_tier d \<ge> 2"
  defines "d1 \<equiv> snd (run_launch x (True, \<lambda>_. [EnterBackground, FatalSignal SIGSEGV]) d)"
  defines "d2 \<equiv> snd (run_launch x (True, \<lambda>_. []) d1)"
  shows "fst (run_launch x (True, \<lambda>_. []) d1) = stored_tier d \<and>
    fst (run_launch x (True, \<lambda>_. []) d2) = stored_tier d - 1 \<and>
    stored_tier (snd (run_launch x (True, \<lambda>_. []) d2)) = stored_tier d - 1"
proof -
  let ?s = "stored_tier d"
  define e where "e = fst (snd (ResolveIOSJitTier True d))"
  have e: "stored_tier e = ?s" "armed_tier e = ?s"
    using assms(2,3) by (simp_all add: e_def Resolve_device Resolve_tier base_tier_def)
  have d1: "d1 = (BlinkClearJITTierProbe e)\<lparr>crash_signal_file := Some (crash_signal_text SIGSEGV)\<rparr>"
    using assms(1) by (simp add: d1_def run_launch_simps e_def crash_file_recorded)
  then have a1: "armed_tier d1 = - 1" "stored_tier d1 = ?s" "last_signal d1 = SIGSEGV"
    using armed_ClearProbe [of e] e assms(3) last_signal_recorded [of SIGSEGV d1]
    by (simp_all add: armed_tier_def stored_tier_def signal_numbers)
       (simp_all add: stored_tier_def [symmetric])
  then have n1: "\<not> demoting d1" by (simp add: demoting_def)
  have d2: "d2 = fst (snd (ResolveIOSJitTier True d1))" by (simp add: d2_def run_launch_simps)
  have a2: "armed_tier d2 = ?s" "stored_tier d2 = ?s" "crash_signal_file d2 = Some (crash_signal_text SIGSEGV)"
    using n1 a1 assms(3) by (simp_all add: d2 Resolve_device Resolve_tier base_tier_def d1)
  then have "last_signal d2 = SIGSEGV"
    using last_signal_recorded [of SIGSEGV d2] by (simp add: signal_numbers)
  then have "demoting d2" using a2 assms(3) by (simp add: demoting_def codegen_fault_def)
  then show ?thesis
    using n1 a1 a2 assms(3) stored_tier_range(2) [of d, unfolded order_le_less]
    by (auto simp: run_launch_simps Resolve_tier Resolve_device base_tier_def)
qed

subsection \<open>Instances\<close>

definition fresh_device :: device where
  "fresh_device = \<lparr>defaults = (\<lambda>_. None), crash_signal_file = None\<rparr>"

definition sample_crash :: crash_context where
  "sample_crash = \<lparr>siginfo = None, wx_state = None, mcontext = None, backtrace_symbols = [],
     signal_file_opens = True, boot_log_opens = True\<rparr>"

definition sample_probe :: probe_env where
  "sample_probe = \<lparr>mmap_ok = True, commit_rw_ok = True, mprotect_ok = True, vm_remap_ok = True,
     mirror_rw_ok = True, execute1 = Returned 42, execute2 = Returned 43, probe_errno = 0\<rparr>"

definition sample_startup :: startup_env where
  "sample_startup = \<lparr>basic_probe = sample_probe, range_probe = sample_probe, rwx_probe = sample_probe,
     dual_probe = sample_probe,
     signing = \<lparr>bundle_components = Some [''org'', ''blinker'', ''jit'', ''98MXA9GAM8''], cs_status_before = None,
       cs_status_after = None, dlopen_basebin = False, dlopen_plain = False, dlsym_found = False,
       set_process_debugged_rv = 0\<rparr>,
     kernel = \<lparr>hw_memsize = None, ios13_available = True, proc_available_memory = 0, task_phys_footprint = None\<rparr>,
     gpu_supports_graphite = None, full_log_path = [], temp_dir = []\<rparr>"

text \<open>
  Generated code that always faults with \<^verbatim>\<open>SIGILL\<close>: the fresh device runs at the tiers 4, 3, 2
  and then stays with the interpreter, after three crashes.
\<close>

definition faulting :: launch where
  "faulting = (True, \<lambda>t. if t \<ge> 2 then [FatalSignal SIGILL] else [])"


lemma stale_signal_demotes_witness:
  "fst (run_launch sample_crash (True, \<lambda>_. [])
     (snd (run_launch sample_crash (True, \<lambda>_. [])
        (snd (run_launch sample_crash (True, \<lambda>_. [EnterBackground, FatalSignal SIGSEGV]) fresh_device))))) = 3"
proof -
  have "stored_tier fresh_device = 4" "\<not> demoting fresh_device"
    by (simp_all add: stored_tier_def demoting_def armed_tier_def ReadIOSPrefInt_def fresh_device_def)
  then show ?thesis
    using stale_signal_demotes [of sample_crash fresh_device] by (simp add: sample_crash_def)
qed

lemma sample_tier: "fst (startup_tier sample_startup fresh_device) = 4"
  by code_simp

theorem codegen_needs_authorization_witness:
  "fst (startup_tier sample_startup fresh_device) = 4 \<and> IsIOSJITBundle (signing sample_startup)"
  using codegen_needs_authorization [of sample_startup fresh_device] sample_tier by (simp add: tier_numbers)

end
