(* ===== verification/Write_Protect.thy ===== *)
theory Write_Protect
  imports Blinker_Prelude "HOL-Library.Multiset"
begin

text \<open>
  The W^X implementation of \<^verbatim>\<open>v8/src/common/code-memory-access.cc\<close> on iOS
  (\<^verbatim>\<open>IOSCodeRangeWriteProtect\<close>): the heap's code range and its RW mirror, the eight mirrors of
  WebAssembly code spaces, and the \<^verbatim>\<open>mprotect\<close> fallback with its nested write scopes.

  The kernel is the record \<open>kernel_vm\<close>: the answers to the \<open>n\<close>-th \<^verbatim>\<open>mprotect\<close> and \<^verbatim>\<open>vm_remap\<close>
  call are arguments, the protection of every address and the mirrors mapped are state.
  Addresses and sizes are 64-bit words; \<^verbatim>\<open>intptr_t\<close> offsets are the same words, read modulo
  \<open>2 ^ 64\<close>.
\<close>

named_theorems wx_simps \<open>unfolding the write-protection operations\<close>

subsection \<open>The kernel\<close>

datatype prot = PROT_NONE | PROT_RW | PROT_RX

record vm_answers =
  page_size :: u64
  mprotect_succeeds :: "nat \<Rightarrow> bool"
  vm_remap :: "nat \<Rightarrow> u64 option"   \<comment> \<open>the address of the new mapping, \<open>None\<close> unless \<^verbatim>\<open>KERN_SUCCESS\<close>\<close>

record kernel_vm =
  page_prot :: "u64 \<Rightarrow> prot"
  mirrors :: "(u64 \<times> u64) multiset"
  mprotect_calls :: nat
  remap_calls :: nat

definition mprotect :: "vm_answers \<Rightarrow> u64 \<Rightarrow> u64 \<Rightarrow> prot \<Rightarrow> kernel_vm \<Rightarrow> bool \<times> kernel_vm" where
  "mprotect A start len p k =
     (let ok = mprotect_succeeds A (mprotect_calls k) in
      (ok, k\<lparr>mprotect_calls := Suc (mprotect_calls k),
             page_prot := (if ok then (\<lambda>a. if start \<le> a \<and> a - start < len then p else page_prot k a)
                            else page_prot k)\<rparr>))"

definition remap :: "vm_answers \<Rightarrow> u64 \<Rightarrow> kernel_vm \<Rightarrow> u64 option \<times> kernel_vm" where
  "remap A sz k =
     (let r = vm_remap A (remap_calls k);
          k = k\<lparr>remap_calls := Suc (remap_calls k)\<rparr>
      in (r, case r of None \<Rightarrow> k | Some m \<Rightarrow> k\<lparr>mirrors := add_mset (m, sz) (mirrors k)\<rparr>))"

definition vm_deallocate :: "u64 \<Rightarrow> u64 \<Rightarrow> kernel_vm \<Rightarrow> kernel_vm" where
  "vm_deallocate m sz k = k\<lparr>mirrors := mirrors k - {#(m, sz)#}\<rparr>"

subsection \<open>The globals\<close>

record WasmMirror =
  wm_base :: u64
  wm_size :: u64
  wm_offset :: u64
  wm_mirror_base :: u64

definition free_slot :: WasmMirror where
  "free_slot = \<lparr>wm_base = 0, wm_size = 0, wm_offset = 0, wm_mirror_base = 0\<rparr>"

definition kMaxWasmMirrors :: nat where "kMaxWasmMirrors = 8"

record wx =
  g_ios_code_range_base :: u64
  g_ios_code_range_size :: u64
  g_ios_wx_depth :: int
  g_ios_whole_range_writable :: bool
  g_ios_wx_transitions :: u64
  g_ios_wx_failures :: u64
  g_ios_mirror_offset :: u64
  g_ios_mirror_base :: u64
  g_ios_mirror_size :: u64
  g_wasm_mirrors :: "WasmMirror list"
  WritableSpans :: "(u64 \<times> u64) list"
  vm :: kernel_vm

definition initial_wx :: "kernel_vm \<Rightarrow> wx" where
  "initial_wx k = \<lparr>g_ios_code_range_base = 0, g_ios_code_range_size = 0, g_ios_wx_depth = 0,
     g_ios_whole_range_writable = False, g_ios_wx_transitions = 0, g_ios_wx_failures = 0,
     g_ios_mirror_offset = 0, g_ios_mirror_base = 0, g_ios_mirror_size = 0,
     g_wasm_mirrors = replicate kMaxWasmMirrors free_slot, WritableSpans = [], vm = k\<rparr>"

subsection \<open>Permission changes\<close>

definition page_start :: "vm_answers \<Rightarrow> u64 \<Rightarrow> u64" where
  "page_start A a = and a (not (page_size A - 1))"

definition page_end :: "vm_answers \<Rightarrow> u64 \<Rightarrow> u64 \<Rightarrow> u64" where
  "page_end A a sz = and (a + sz + page_size A - 1) (not (page_size A - 1))"

definition Protect :: "vm_answers \<Rightarrow> u64 \<Rightarrow> u64 \<Rightarrow> bool \<Rightarrow> wx \<Rightarrow> wx" where
  "Protect A addr sz writable s =
     (if addr = 0 \<or> sz = 0 then s
      else
        (let start = page_start A addr; stop = page_end A addr sz;
             (ok, k) = mprotect A start (stop - start) (if writable then PROT_RW else PROT_RX) (vm s)
         in s\<lparr>vm := k, g_ios_wx_failures := (if ok then g_ios_wx_failures s else g_ios_wx_failures s + 1),
              g_ios_wx_transitions := g_ios_wx_transitions s + 1\<rparr>))"

definition ClampToCodeRange :: "u64 \<Rightarrow> u64 \<Rightarrow> wx \<Rightarrow> (u64 \<times> u64) option" where
  "ClampToCodeRange addr sz s =
     (if g_ios_code_range_base s = 0 \<or> g_ios_code_range_size s = 0 then None
      else
        (let range_end = g_ios_code_range_base s + g_ios_code_range_size s in
         if addr + sz \<le> g_ios_code_range_base s \<or> addr \<ge> range_end then None
         else
           (let start = max addr (g_ios_code_range_base s); stop = min (addr + sz) range_end
            in if stop - start > 0 then Some (start, stop - start) else None)))"

definition RestoreAllLocked :: "vm_answers \<Rightarrow> wx \<Rightarrow> wx" where
  "RestoreAllLocked A s =
     (let s = (if g_ios_whole_range_writable s
               then (Protect A (g_ios_code_range_base s) (g_ios_code_range_size s) False s)
                      \<lparr>g_ios_whole_range_writable := False\<rparr>
               else s);
          s = fold (\<lambda>(a, n). Protect A a n False) (WritableSpans s) s
      in s\<lparr>WritableSpans := []\<rparr>)"

definition SetWritable :: "vm_answers \<Rightarrow> wx \<Rightarrow> wx" where
  "SetWritable A s =
     (if g_ios_mirror_offset s \<noteq> 0 then s
      else
        (let s = s\<lparr>g_ios_wx_depth := g_ios_wx_depth s + 1\<rparr> in
         if g_ios_whole_range_writable s then s
         else (Protect A (g_ios_code_range_base s) (g_ios_code_range_size s) True s)
                \<lparr>g_ios_whole_range_writable := True\<rparr>))"

definition SetWritableRange :: "vm_answers \<Rightarrow> u64 \<Rightarrow> u64 \<Rightarrow> wx \<Rightarrow> wx" where
  "SetWritableRange A addr sz s =
     (if g_ios_mirror_offset s \<noteq> 0 then s
      else
        (let s = s\<lparr>g_ios_wx_depth := g_ios_wx_depth s + 1\<rparr> in
         if g_ios_whole_range_writable s then s
         else
           (case ClampToCodeRange addr sz s of
              None \<Rightarrow> s
            | Some (a, n) \<Rightarrow>
                (let s = Protect A a n True s in s\<lparr>WritableSpans := WritableSpans s @ [(a, n)]\<rparr>))))"

definition SetExecutable :: "vm_answers \<Rightarrow> wx \<Rightarrow> wx" where
  "SetExecutable A s =
     (if g_ios_mirror_offset s \<noteq> 0 then s
      else if g_ios_wx_depth s > 0 then
        (let s = s\<lparr>g_ios_wx_depth := g_ios_wx_depth s - 1\<rparr>
         in if g_ios_wx_depth s = 0 then RestoreAllLocked A s else s)
      else s)"

subsection \<open>Registration\<close>

definition release_mirror :: "wx \<Rightarrow> wx" where
  "release_mirror s =
     (if g_ios_mirror_base s \<noteq> 0 \<and> g_ios_mirror_size s \<noteq> 0
      then s\<lparr>vm := vm_deallocate (g_ios_mirror_base s) (g_ios_mirror_size s) (vm s)\<rparr> else s)"

definition RegisterCodeRange :: "vm_answers \<Rightarrow> u64 \<Rightarrow> u64 \<Rightarrow> wx \<Rightarrow> wx" where
  "RegisterCodeRange A base sz s =
     (let s = s\<lparr>g_ios_code_range_base := base, g_ios_code_range_size := sz, g_ios_wx_depth := 0,
                g_ios_whole_range_writable := False, WritableSpans := []\<rparr>;
          s = (release_mirror s)\<lparr>g_ios_mirror_offset := 0, g_ios_mirror_base := 0, g_ios_mirror_size := 0\<rparr> in
      if base = 0 \<or> sz = 0 then s
      else
        (let (r, k) = remap A sz (vm s) in
         case r of
           None \<Rightarrow> s\<lparr>vm := k\<rparr>
         | Some mirror \<Rightarrow>
             (let (ok, k) = mprotect A mirror sz PROT_RW k in
              if \<not> ok then s\<lparr>vm := k\<rparr>
              else
                (let (_, k) = mprotect A base sz PROT_RX k in
                 s\<lparr>vm := k, g_ios_mirror_base := mirror, g_ios_mirror_size := sz,
                   g_ios_mirror_offset := mirror - base\<rparr>))))"

fun first_free :: "WasmMirror list \<Rightarrow> nat option" where
  "first_free [] = None"
| "first_free (m # ms) = (if wm_offset m = 0 then Some 0 else map_option Suc (first_free ms))"

definition RegisterWasmCodeRange :: "vm_answers \<Rightarrow> u64 \<Rightarrow> u64 \<Rightarrow> wx \<Rightarrow> bool \<times> wx" where
  "RegisterWasmCodeRange A base sz s =
     (if base = 0 \<or> sz = 0 then (False, s)
      else
        (case first_free (g_wasm_mirrors s) of
           None \<Rightarrow> (False, s)
         | Some i \<Rightarrow>
             (let (r, k) = remap A sz (vm s) in
              case r of
                None \<Rightarrow> (False, s\<lparr>vm := k\<rparr>)
              | Some mirror \<Rightarrow>
                  (let (ok, k) = mprotect A mirror sz PROT_RW k in
                   if \<not> ok then (False, s\<lparr>vm := vm_deallocate mirror sz k\<rparr>)
                   else
                     (let (ok, k) = mprotect A base sz PROT_RX k in
                      if \<not> ok then (False, s\<lparr>vm := vm_deallocate mirror sz k\<rparr>)
                      else
                        (True, s\<lparr>vm := k, g_wasm_mirrors := (g_wasm_mirrors s)
                           [i := \<lparr>wm_base = base, wm_size = sz, wm_offset = mirror - base, wm_mirror_base = mirror\<rparr>]\<rparr>))))))"

fun unregister_loop :: "u64 \<Rightarrow> WasmMirror list \<Rightarrow> kernel_vm \<Rightarrow> WasmMirror list \<times> kernel_vm" where
  "unregister_loop base [] k = ([], k)"
| "unregister_loop base (m # ms) k =
     (if wm_offset m = 0 \<or> wm_base m \<noteq> base
      then (let (ms', k') = unregister_loop base ms k in (m # ms', k'))
      else (free_slot # ms, if wm_mirror_base m \<noteq> 0 then vm_deallocate (wm_mirror_base m) (wm_size m) k else k))"

definition UnregisterWasmCodeRange :: "u64 \<Rightarrow> wx \<Rightarrow> wx" where
  "UnregisterWasmCodeRange base s =
     (let (ms, k) = unregister_loop base (g_wasm_mirrors s) (vm s) in s\<lparr>g_wasm_mirrors := ms, vm := k\<rparr>)"

definition HasMirror :: "wx \<Rightarrow> bool" where
  "HasMirror s \<longleftrightarrow> g_ios_mirror_offset s \<noteq> 0"

fun wasm_mirror_address :: "u64 \<Rightarrow> WasmMirror list \<Rightarrow> u64" where
  "wasm_mirror_address addr [] = addr"
| "wasm_mirror_address addr (m # ms) =
     (if wm_offset m \<noteq> 0 \<and> addr \<ge> wm_base m \<and> addr < wm_base m + wm_size m then addr + wm_offset m
      else wasm_mirror_address addr ms)"

definition MirrorWriteAddress :: "wx \<Rightarrow> u64 \<Rightarrow> u64" where
  "MirrorWriteAddress s addr =
     (if g_ios_mirror_offset s \<noteq> 0 \<and> addr \<ge> g_ios_code_range_base s \<and>
         addr < g_ios_code_range_base s + g_ios_code_range_size s
      then addr + g_ios_mirror_offset s
      else wasm_mirror_address addr (g_wasm_mirrors s))"

text \<open>What the crash logger is shown: depth, whole, transitions, failures.\<close>

definition BlinkIOSWxState :: "wx \<Rightarrow> u64 \<times> u64 \<times> u64 \<times> u64" where
  "BlinkIOSWxState s =
     (word_of_int (g_ios_wx_depth s), if g_ios_whole_range_writable s then 1 else 0,
      g_ios_wx_transitions s, g_ios_wx_failures s)"


subsection \<open>Write scopes in the fallback\<close>

text \<open>
  The scopes of \<^verbatim>\<open>RwxMemoryWriteScope\<close>: over the whole range, over a span, and the end of either.
\<close>

datatype scope_op = OpenWhole | OpenRange u64 u64 | CloseScope

fun scope_step :: "vm_answers \<Rightarrow> scope_op \<Rightarrow> wx \<Rightarrow> wx" where
  "scope_step A OpenWhole = SetWritable A"
| "scope_step A (OpenRange a n) = SetWritableRange A a n"
| "scope_step A CloseScope = SetExecutable A"

fun scope_depth :: "scope_op list \<Rightarrow> int \<Rightarrow> int" where
  "scope_depth [] d = d"
| "scope_depth (CloseScope # ops) d = scope_depth ops (if d > 0 then d - 1 else d)"
| "scope_depth (_ # ops) d = scope_depth ops (d + 1)"

definition in_range :: "wx \<Rightarrow> u64 \<Rightarrow> bool" where
  "in_range s a \<longleftrightarrow> g_ios_code_range_base s \<le> a \<and> a < g_ios_code_range_base s + g_ios_code_range_size s"

text \<open>The addresses whose protection \<open>Protect\<close> changes for a span.\<close>

definition in_pages :: "vm_answers \<Rightarrow> u64 \<times> u64 \<Rightarrow> u64 \<Rightarrow> bool" where
  "in_pages A = (\<lambda>(a, n) x. page_start A a \<le> x \<and> x - page_start A a < page_end A a n - page_start A a)"

text \<open>A registered range: not null, page-aligned, within the address space.\<close>

definition range_ok :: "vm_answers \<Rightarrow> wx \<Rightarrow> bool" where
  "range_ok A s \<longleftrightarrow>
     g_ios_code_range_base s \<noteq> 0 \<and> g_ios_code_range_size s \<noteq> 0 \<and>
     g_ios_code_range_base s \<le> g_ios_code_range_base s + g_ios_code_range_size s \<and>
     page_start A (g_ios_code_range_base s) = g_ios_code_range_base s \<and>
     page_end A (g_ios_code_range_base s) (g_ios_code_range_size s) =
       g_ios_code_range_base s + g_ios_code_range_size s"

text \<open>
  The system calls of a run.  Call number \<open>i\<close> fails when \<open>mprotect_succeeds A i\<close> is false;
  closing the outermost scope makes one restoring call for each of \<open>restore_spans\<close>, and
  \<open>failed_restores\<close> collects the spans whose restoring call failed.
\<close>

definition restore_spans :: "wx \<Rightarrow> (u64 \<times> u64) list" where
  "restore_spans s =
     (if g_ios_whole_range_writable s then [(g_ios_code_range_base s, g_ios_code_range_size s)] else []) @ WritableSpans s"

fun failing :: "vm_answers \<Rightarrow> nat \<Rightarrow> (u64 \<times> u64) list \<Rightarrow> (u64 \<times> u64) list" where
  "failing A i [] = []"
| "failing A i (sp # sps) = (if mprotect_succeeds A i then [] else [sp]) @ failing A (Suc i) sps"

fun failed_restores :: "vm_answers \<Rightarrow> scope_op list \<Rightarrow> wx \<Rightarrow> (u64 \<times> u64) list" where
  "failed_restores A [] s = []"
| "failed_restores A (op # ops) s =
     (if op = CloseScope \<and> g_ios_mirror_offset s = 0 \<and> g_ios_wx_depth s = 1
      then failing A (mprotect_calls (vm s)) (restore_spans s) else []) @
     failed_restores A ops (scope_step A op s)"

definition failed_calls :: "vm_answers \<Rightarrow> nat \<Rightarrow> nat \<Rightarrow> nat" where
  "failed_calls A i j = length (filter (\<lambda>k. \<not> mprotect_succeeds A k) [i..<j])"

text \<open>Every call between two states is counted, and every failed one among the failures.\<close>

definition counted :: "vm_answers \<Rightarrow> wx \<Rightarrow> wx \<Rightarrow> bool" where
  "counted A s s' \<longleftrightarrow>
     mprotect_calls (vm s) \<le> mprotect_calls (vm s') \<and>
     g_ios_wx_transitions s' = g_ios_wx_transitions s + of_nat (mprotect_calls (vm s') - mprotect_calls (vm s)) \<and>
     g_ios_wx_failures s' = g_ios_wx_failures s +
       of_nat (failed_calls A (mprotect_calls (vm s)) (mprotect_calls (vm s')))"

text \<open>The invariant, given the spans \<open>F\<close> whose restoring call has failed so far.\<close>

definition scopes_inv :: "vm_answers \<Rightarrow> (u64 \<times> u64) set \<Rightarrow> wx \<Rightarrow> bool" where
  "scopes_inv A F s \<longleftrightarrow>
     g_ios_mirror_offset s = 0 \<and> range_ok A s \<and> g_ios_wx_depth s \<ge> 0 \<and>
     (g_ios_wx_depth s = 0 \<longrightarrow> \<not> g_ios_whole_range_writable s \<and> WritableSpans s = []) \<and>
     (\<forall>(a, n) \<in> set (WritableSpans s). a \<noteq> 0 \<and> n \<noteq> 0) \<and>
     (\<forall>x. in_range s x \<longrightarrow>
        page_prot (vm s) x = PROT_RX \<or>
        page_prot (vm s) x = PROT_RW \<and>
          (g_ios_whole_range_writable s \<or> (\<exists>sp \<in> set (WritableSpans s) \<union> F. in_pages A sp x)))"

lemma Protect_fields [simp]:
  "g_ios_code_range_base (Protect A a n w s) = g_ios_code_range_base s"
  "g_ios_code_range_size (Protect A a n w s) = g_ios_code_range_size s"
  "g_ios_wx_depth (Protect A a n w s) = g_ios_wx_depth s"
  "g_ios_whole_range_writable (Protect A a n w s) = g_ios_whole_range_writable s"
  "g_ios_mirror_offset (Protect A a n w s) = g_ios_mirror_offset s"
  "WritableSpans (Protect A a n w s) = WritableSpans s"
  "g_wasm_mirrors (Protect A a n w s) = g_wasm_mirrors s"
  by (simp_all add: Protect_def Let_def mprotect_def)

text \<open>A failed call leaves every page as it was.\<close>

lemma Protect_prot:
  "page_prot (vm (Protect A a n w s)) x =
     (if a \<noteq> 0 \<and> n \<noteq> 0 \<and> mprotect_succeeds A (mprotect_calls (vm s)) \<and> in_pages A (a, n) x
      then (if w then PROT_RW else PROT_RX) else page_prot (vm s) x)"
  by (simp add: Protect_def Let_def mprotect_def in_pages_def)

lemma Protect_calls [simp]:
  "a \<noteq> 0 \<Longrightarrow> n \<noteq> 0 \<Longrightarrow> mprotect_calls (vm (Protect A a n w s)) = Suc (mprotect_calls (vm s))"
  by (simp add: Protect_def Let_def mprotect_def)

lemma Protect_whole [simp]:
  "Protect A a n w (s\<lparr>g_ios_whole_range_writable := b\<rparr>) = (Protect A a n w s)\<lparr>g_ios_whole_range_writable := b\<rparr>"
  by (simp add: Protect_def Let_def mprotect_def)

lemma range_in_pages:
  assumes "range_ok A s" "in_range s x"
  shows "in_pages A (g_ios_code_range_base s, g_ios_code_range_size s) x"
proof -
  let ?b = "g_ios_code_range_base s" and ?n = "g_ios_code_range_size s"
  have "?b \<le> x" "x < ?b + ?n" using assms(2) by (auto simp: in_range_def)
  then have "x - ?b < ?n" by uint_arith
  with assms(1) \<open>?b \<le> x\<close> show ?thesis by (simp add: range_ok_def in_pages_def)
qed

lemma fold_Protect_fields [simp]:
  "g_ios_code_range_base (fold (\<lambda>(a, n). Protect A a n w) sps s) = g_ios_code_range_base s"
  "g_ios_code_range_size (fold (\<lambda>(a, n). Protect A a n w) sps s) = g_ios_code_range_size s"
  "g_ios_wx_depth (fold (\<lambda>(a, n). Protect A a n w) sps s) = g_ios_wx_depth s"
  "g_ios_whole_range_writable (fold (\<lambda>(a, n). Protect A a n w) sps s) = g_ios_whole_range_writable s"
  "g_ios_mirror_offset (fold (\<lambda>(a, n). Protect A a n w) sps s) = g_ios_mirror_offset s"
  by (induction sps arbitrary: s; simp split: prod.split)+

lemma fold_Protect_whole:
  "fold (\<lambda>(a, n). Protect A a n w) sps (s\<lparr>g_ios_whole_range_writable := b\<rparr>) =
     (fold (\<lambda>(a, n). Protect A a n w) sps s)\<lparr>g_ios_whole_range_writable := b\<rparr>"
  by (induction sps arbitrary: s) (auto split: prod.split)

text \<open>After restoring calls an address is executable, or as before and each span over it failed.\<close>

lemma fold_Protect_RX:
  assumes "\<forall>(a, n) \<in> set sps. a \<noteq> 0 \<and> n \<noteq> 0"
  shows "page_prot (vm (fold (\<lambda>(a, n). Protect A a n False) sps s)) x = PROT_RX \<or>
    page_prot (vm (fold (\<lambda>(a, n). Protect A a n False) sps s)) x = page_prot (vm s) x \<and>
    (\<forall>sp \<in> set sps. in_pages A sp x \<longrightarrow> sp \<in> set (failing A (mprotect_calls (vm s)) sps))"
  using assms
proof (induction sps arbitrary: s)
  case (Cons sp sps)
  obtain a n where sp: "sp = (a, n)" by fastforce
  with Cons.prems have nz: "a \<noteq> 0" "n \<noteq> 0" by auto
  from Cons.IH [of "Protect A a n False s"] Cons.prems nz show ?case
    by (auto simp: sp Protect_prot split: if_splits)
qed simp

lemma RestoreAllLocked_fields [simp]:
  "g_ios_code_range_base (RestoreAllLocked A s) = g_ios_code_range_base s"
  "g_ios_code_range_size (RestoreAllLocked A s) = g_ios_code_range_size s"
  "g_ios_wx_depth (RestoreAllLocked A s) = g_ios_wx_depth s"
  "g_ios_mirror_offset (RestoreAllLocked A s) = g_ios_mirror_offset s"
  "\<not> g_ios_whole_range_writable (RestoreAllLocked A s)"
  "WritableSpans (RestoreAllLocked A s) = []"
  by (simp_all add: RestoreAllLocked_def Let_def)

lemma RestoreAllLocked_fold:
  "RestoreAllLocked A s = (fold (\<lambda>(a, n). Protect A a n False) (restore_spans s) s)
     \<lparr>g_ios_whole_range_writable := False, WritableSpans := []\<rparr>"
proof -
  have "s\<lparr>g_ios_whole_range_writable := False\<rparr> = s" if "\<not> g_ios_whole_range_writable s"
    using that by simp
  then show ?thesis
    by (auto simp: RestoreAllLocked_def restore_spans_def Let_def fold_Protect_whole)
qed

text \<open>Restoring makes the range executable again, but for the spans whose call failed.\<close>

lemma RestoreAllLocked_RX:
  assumes "range_ok A s" "in_range s x" "\<forall>(a, n) \<in> set (WritableSpans s). a \<noteq> 0 \<and> n \<noteq> 0"
    and "page_prot (vm s) x = PROT_RX \<or> page_prot (vm s) x = PROT_RW \<and>
      (g_ios_whole_range_writable s \<or> (\<exists>sp \<in> set (WritableSpans s) \<union> F. in_pages A sp x))"
  shows "page_prot (vm (RestoreAllLocked A s)) x = PROT_RX \<or>
    page_prot (vm (RestoreAllLocked A s)) x = PROT_RW \<and>
    (\<exists>sp \<in> F \<union> set (failing A (mprotect_calls (vm s)) (restore_spans s)). in_pages A sp x)"
proof -
  have nz: "\<forall>(a, n) \<in> set (restore_spans s). a \<noteq> 0 \<and> n \<noteq> 0"
    using assms(1,3) by (auto simp: restore_spans_def range_ok_def)
  have whole: "g_ios_whole_range_writable s \<Longrightarrow> \<exists>sp \<in> set (restore_spans s). in_pages A sp x"
    using range_in_pages [OF assms(1,2)] by (simp add: restore_spans_def)
  have "\<exists>sp \<in> set (restore_spans s) \<union> F. in_pages A sp x" if "page_prot (vm s) x \<noteq> PROT_RX"
    using that assms(4) whole by (auto simp: restore_spans_def)
  with fold_Protect_RX [OF nz, of A s x] assms(4)
  have "page_prot (vm (fold (\<lambda>(a, n). Protect A a n False) (restore_spans s) s)) x = PROT_RX \<or>
    page_prot (vm (fold (\<lambda>(a, n). Protect A a n False) (restore_spans s) s)) x = PROT_RW \<and>
    (\<exists>sp \<in> F \<union> set (failing A (mprotect_calls (vm s)) (restore_spans s)). in_pages A sp x)"
    by (metis UnCI UnE)
  then show ?thesis by (simp add: RestoreAllLocked_fold)
qed

lemma Clamp_nonzero:
  assumes "ClampToCodeRange a n s = Some (a', n')"
  shows "a' \<noteq> 0 \<and> n' \<noteq> 0"
proof -
  have "g_ios_code_range_base s \<noteq> 0" "a' = max a (g_ios_code_range_base s)" "n' > 0"
    using assms by (auto simp: ClampToCodeRange_def Let_def split: if_splits)
  then show ?thesis by (auto simp: max_def word_le_0_iff split: if_splits)
qed

lemma SetWritable_inv:
  assumes "scopes_inv A F s"
  shows "scopes_inv A F (SetWritable A s)"
  using assms
  by (auto simp: SetWritable_def Let_def scopes_inv_def range_ok_def in_range_def Protect_prot)

lemma SetWritableRange_inv:
  assumes "scopes_inv A F s"
  shows "scopes_inv A F (SetWritableRange A a n s)"
proof (cases "g_ios_whole_range_writable s \<or> ClampToCodeRange a n (s\<lparr>g_ios_wx_depth := g_ios_wx_depth s + 1\<rparr>) = None")
  case True
  then show ?thesis
    using assms by (auto simp: SetWritableRange_def Let_def scopes_inv_def range_ok_def in_range_def)
next
  case False
  then obtain a' n' where c: "ClampToCodeRange a n (s\<lparr>g_ios_wx_depth := g_ios_wx_depth s + 1\<rparr>) = Some (a', n')"
    by auto
  with Clamp_nonzero have "a' \<noteq> 0" "n' \<noteq> 0" by blast+
  with False c assms show ?thesis
    by (auto simp: SetWritableRange_def Let_def scopes_inv_def range_ok_def in_range_def Protect_prot)
qed

text \<open>Closing a scope adds the restoring calls that failed.\<close>

lemma SetExecutable_inv:
  assumes "scopes_inv A F s"
  shows "scopes_inv A (F \<union> set (failed_restores A [CloseScope] s)) (SetExecutable A s)"
proof (cases "g_ios_wx_depth s = 1")
  case True
  let ?s1 = "s\<lparr>g_ios_wx_depth := 0\<rparr>"
  let ?F = "F \<union> set (failed_restores A [CloseScope] s)"
  have F: "?F = F \<union> set (failing A (mprotect_calls (vm ?s1)) (restore_spans ?s1))"
    using True assms by (simp add: scopes_inv_def restore_spans_def)
  have s1: "SetExecutable A s = RestoreAllLocked A ?s1"
    using True assms by (simp add: SetExecutable_def Let_def scopes_inv_def)
  have ok: "range_ok A ?s1" "\<forall>(a, n) \<in> set (WritableSpans ?s1). a \<noteq> 0 \<and> n \<noteq> 0"
    using assms by (auto simp: scopes_inv_def range_ok_def)
  have "page_prot (vm (RestoreAllLocked A ?s1)) x = PROT_RX \<or>
      page_prot (vm (RestoreAllLocked A ?s1)) x = PROT_RW \<and> (\<exists>sp \<in> ?F. in_pages A sp x)" if "in_range s x" for x
    unfolding F using assms that ok
    by (intro RestoreAllLocked_RX) (auto simp: scopes_inv_def in_range_def)
  then show ?thesis
    unfolding s1 using assms by (auto simp: scopes_inv_def range_ok_def in_range_def)
next
  case False
  then show ?thesis
    using assms by (auto simp: SetExecutable_def Let_def scopes_inv_def range_ok_def in_range_def)
qed

lemma range_fields:
  "g_ios_code_range_base (fold (scope_step A) ops s) = g_ios_code_range_base s \<and>
   g_ios_code_range_size (fold (scope_step A) ops s) = g_ios_code_range_size s"
proof (induction ops arbitrary: s)
  case (Cons op ops)
  have "g_ios_code_range_base (scope_step A op s) = g_ios_code_range_base s \<and>
    g_ios_code_range_size (scope_step A op s) = g_ios_code_range_size s"
    by (cases op) (auto simp: SetWritable_def SetWritableRange_def SetExecutable_def Let_def split: option.split)
  with Cons show ?case by simp
qed simp

lemma scope_step_inv:
  "scopes_inv A F s \<Longrightarrow> scopes_inv A (F \<union> set (failed_restores A [op] s)) (scope_step A op s)"
  using SetExecutable_inv [of A F s]
  by (cases op) (auto simp: SetWritable_inv SetWritableRange_inv)

lemma scope_step_depth:
  "scopes_inv A F s \<Longrightarrow> g_ios_wx_depth (scope_step A op s) = scope_depth [op] (g_ios_wx_depth s)"
  by (cases op) (auto simp: SetWritable_def SetWritableRange_def SetExecutable_def Let_def scopes_inv_def
      split: option.split)

lemma scope_depth_Cons: "scope_depth (op # ops) d = scope_depth ops (scope_depth [op] d)"
  by (cases op) simp_all

lemma scopes_inv_run:
  "scopes_inv A F s \<Longrightarrow>
     scopes_inv A (F \<union> set (failed_restores A ops s)) (fold (scope_step A) ops s) \<and>
     g_ios_wx_depth (fold (scope_step A) ops s) = scope_depth ops (g_ios_wx_depth s)"
proof (induction ops arbitrary: F s)
  case (Cons op ops)
  let ?F = "F \<union> set (failed_restores A [op] s)"
  have "?F \<union> set (failed_restores A ops (scope_step A op s)) = F \<union> set (failed_restores A (op # ops) s)" by auto
  then show ?case
    using Cons.IH [OF scope_step_inv [OF Cons.prems, of op]] scope_step_depth [OF Cons.prems, of op]
    by (simp add: scope_depth_Cons [of op ops])
qed simp

lemma scope_step_mirror: "g_ios_mirror_offset s \<noteq> 0 \<Longrightarrow> scope_step A op s = s"
  by (cases op) (simp_all add: SetWritable_def SetWritableRange_def SetExecutable_def)

subsubsection \<open>The counters\<close>

lemma counted_refl [simp]: "counted A s s"
  by (simp add: counted_def failed_calls_def)

lemma counted_trans [trans]:
  assumes "counted A s s'" "counted A s' s''"
  shows "counted A s s''"
proof -
  let ?i = "mprotect_calls (vm s)" and ?j = "mprotect_calls (vm s')" and ?k = "mprotect_calls (vm s'')"
  have le: "?i \<le> ?j" "?j \<le> ?k" using assms by (auto simp: counted_def)
  then have "[?i..<?k] = [?i..<?j] @ [?j..<?k]" using upt_add_eq_append [of ?i ?j "?k - ?j"] by simp
  then have f: "failed_calls A ?i ?k = failed_calls A ?i ?j + failed_calls A ?j ?k"
    by (simp add: failed_calls_def)
  have c: "?k - ?i = (?j - ?i) + (?k - ?j)" using le by simp
  show ?thesis
    using assms le unfolding counted_def f c by (simp only: of_nat_add) (simp add: algebra_simps)
qed

lemma counted_Protect: "counted A s (Protect A a n w s)"
  by (simp add: counted_def failed_calls_def Protect_def mprotect_def Let_def)

lemma counted_ext:
  "vm t = vm s' \<Longrightarrow> g_ios_wx_transitions t = g_ios_wx_transitions s' \<Longrightarrow> g_ios_wx_failures t = g_ios_wx_failures s' \<Longrightarrow>
     counted A s t = counted A s s' \<and> counted A t s = counted A s' s"
  by (simp add: counted_def)

lemma counted_fold: "counted A s (fold (\<lambda>(a, n). Protect A a n w) sps s)"
proof (induction sps arbitrary: s)
  case (Cons sp sps)
  obtain a n where "sp = (a, n)" by fastforce
  then show ?case using counted_trans [OF counted_Protect Cons.IH] by simp
qed simp

lemma counted_Restore: "counted A s (RestoreAllLocked A s)"
  unfolding RestoreAllLocked_fold using counted_fold [of A s False "restore_spans s"] by (simp add: counted_def)

lemma counted_step: "counted A s (scope_step A op s)"
proof (cases op)
  case OpenWhole
  let ?s = "s\<lparr>g_ios_wx_depth := g_ios_wx_depth s + 1\<rparr>"
  show ?thesis
    using OpenWhole counted_Protect [of A ?s "g_ios_code_range_base s" "g_ios_code_range_size s" True]
    by (simp add: SetWritable_def Let_def counted_def failed_calls_def)
next
  case (OpenRange a n)
  let ?s = "s\<lparr>g_ios_wx_depth := g_ios_wx_depth s + 1\<rparr>"
  show ?thesis
    using OpenRange counted_Protect [of A ?s _ _ True]
    by (auto simp: SetWritableRange_def Let_def counted_def failed_calls_def split: option.split)
next
  case CloseScope
  show ?thesis
    using CloseScope counted_Restore [of A "s\<lparr>g_ios_wx_depth := g_ios_wx_depth s - 1\<rparr>"]
    by (auto simp: SetExecutable_def Let_def counted_def failed_calls_def)
qed

lemma counted_run: "counted A s (fold (scope_step A) ops s)"
proof (induction ops arbitrary: s)
  case (Cons op ops)
  then show ?case using counted_trans [OF counted_step [of A s op]] by simp
qed simp


text \<open>
  A page whose restoring call fails stays writable with no scope open: the span is forgotten,
  and only a later scope over the same page asks again.
\<close>

lemma failed_restore_forgotten:
  assumes "g_ios_mirror_offset s = 0" "g_ios_wx_depth s = 1" "\<not> g_ios_whole_range_writable s"
    and "WritableSpans s = [(a, n)]" "a \<noteq> 0" "n \<noteq> 0" "\<not> mprotect_succeeds A (mprotect_calls (vm s))"
    and "SetExecutable A s = s'"
  shows "page_prot (vm s') = page_prot (vm s) \<and> WritableSpans s' = [] \<and> g_ios_wx_depth s' = 0 \<and>
    g_ios_wx_failures s' = g_ios_wx_failures s + 1"
  using assms by (auto simp: SetExecutable_def RestoreAllLocked_def Protect_def mprotect_def Let_def)


subsection \<open>Mirrors\<close>

definition active :: "WasmMirror \<Rightarrow> bool" where
  "active m \<longleftrightarrow> wm_offset m \<noteq> 0"

definition covers :: "WasmMirror \<Rightarrow> u64 \<Rightarrow> bool" where
  "covers m a \<longleftrightarrow> active m \<and> wm_base m \<le> a \<and> a < wm_base m + wm_size m"

text \<open>An active slot describes its mirror; an inactive one is empty.\<close>

definition slot_ok :: "WasmMirror \<Rightarrow> bool" where
  "slot_ok m \<longleftrightarrow> (if active m then wm_offset m = wm_mirror_base m - wm_base m \<and> wm_mirror_base m \<noteq> 0 else m = free_slot)"

definition slot_mirrors :: "WasmMirror list \<Rightarrow> (u64 \<times> u64) multiset" where
  "slot_mirrors ms = mset (map (\<lambda>m. (wm_mirror_base m, wm_size m)) (filter active ms))"

lemma free_slot_ok [simp]: "slot_ok free_slot" "\<not> active free_slot"
  by (simp_all add: slot_ok_def active_def free_slot_def)

lemma slot_mirrors_simps [simp]:
  "slot_mirrors [] = {#}"
  "slot_mirrors (m # ms) = (if active m then add_mset (wm_mirror_base m, wm_size m) (slot_mirrors ms) else slot_mirrors ms)"
  by (simp_all add: slot_mirrors_def)

lemma first_free_Some:
  "first_free ms = Some i \<Longrightarrow> i < length ms \<and> \<not> active (ms ! i) \<and> (\<forall>j < i. active (ms ! j))"
proof (induction ms arbitrary: i)
  case (Cons m ms)
  show ?case
  proof (cases "wm_offset m = 0")
    case True
    with Cons.prems show ?thesis by (simp add: active_def)
  next
    case False
    with Cons.prems obtain k where k: "first_free ms = Some k" "i = Suc k" by auto
    with Cons.IH [OF k(1)] False show ?thesis by (auto simp: active_def less_Suc_eq_0_disj)
  qed
qed simp

lemma first_free_None: "first_free ms = None \<longleftrightarrow> (\<forall>m \<in> set ms. active m)"
  by (induction ms) (auto simp: active_def)

lemma slot_mirrors_update:
  "i < length ms \<Longrightarrow> \<not> active (ms ! i) \<Longrightarrow> active m \<Longrightarrow>
     slot_mirrors (ms[i := m]) = add_mset (wm_mirror_base m, wm_size m) (slot_mirrors ms)"
proof (induction ms arbitrary: i)
  case (Cons x ms)
  then show ?case by (cases i) (auto simp: add_mset_commute)
qed simp

text \<open>The invariant of the registry: eight sound slots, and the kernel holds exactly their mirrors besides \<open>M\<close>.\<close>

definition mirrors_inv :: "(u64 \<times> u64) multiset \<Rightarrow> wx \<Rightarrow> bool" where
  "mirrors_inv M s \<longleftrightarrow>
     length (g_wasm_mirrors s) = kMaxWasmMirrors \<and> list_all slot_ok (g_wasm_mirrors s) \<and>
     mirrors (vm s) = M + slot_mirrors (g_wasm_mirrors s)"

text \<open>\<^verbatim>\<open>vm_remap(VM_FLAGS_ANYWHERE)\<close> answers with a new address: not null, not the source.\<close>

definition fresh_mirrors :: "vm_answers \<Rightarrow> u64 set \<Rightarrow> bool" where
  "fresh_mirrors A bases \<longleftrightarrow> (\<forall>i m. vm_remap A i = Some m \<longrightarrow> m \<noteq> 0 \<and> m \<notin> bases)"

lemma mprotect_mirrors [simp]: "mirrors (snd (mprotect A a n p k)) = mirrors k"
  by (simp add: mprotect_def Let_def)

lemma RegisterWasm_cases:
  obtains (refused) k where "RegisterWasmCodeRange A base sz s = (False, s\<lparr>vm := k\<rparr>)" "mirrors k = mirrors (vm s)"
  | (registered) i k mirror where "first_free (g_wasm_mirrors s) = Some i" "base \<noteq> 0" "sz \<noteq> 0"
      "vm_remap A (remap_calls (vm s)) = Some mirror" "mirrors k = add_mset (mirror, sz) (mirrors (vm s))"
      "RegisterWasmCodeRange A base sz s = (True, s\<lparr>vm := k, g_wasm_mirrors := (g_wasm_mirrors s)
         [i := \<lparr>wm_base = base, wm_size = sz, wm_offset = mirror - base, wm_mirror_base = mirror\<rparr>]\<rparr>)"
proof (cases "base = 0 \<or> sz = 0 \<or> first_free (g_wasm_mirrors s) = None \<or> vm_remap A (remap_calls (vm s)) = None")
  case True
  show ?thesis
  proof (rule refused)
    show "RegisterWasmCodeRange A base sz s =
        (False, s\<lparr>vm := (if base = 0 \<or> sz = 0 \<or> first_free (g_wasm_mirrors s) = None then vm s
                        else (vm s)\<lparr>remap_calls := Suc (remap_calls (vm s))\<rparr>)\<rparr>)"
      using True by (auto simp: RegisterWasmCodeRange_def remap_def Let_def split: option.splits)
  qed simp
next
  case False
  then obtain i mirror where im: "first_free (g_wasm_mirrors s) = Some i" "vm_remap A (remap_calls (vm s)) = Some mirror"
    by auto
  define k0 where "k0 = snd (remap A sz (vm s))"
  have k0: "remap A sz (vm s) = (Some mirror, k0)" "mirrors k0 = add_mset (mirror, sz) (mirrors (vm s))"
    using im by (simp_all add: k0_def remap_def Let_def)
  obtain ok1 k1 where k1: "mprotect A mirror sz PROT_RW k0 = (ok1, k1)" by fastforce
  obtain ok2 k2 where k2: "mprotect A base sz PROT_RX k1 = (ok2, k2)" by fastforce
  have m: "mirrors k1 = mirrors k0" "mirrors k2 = mirrors k0"
    using k1 k2 mprotect_mirrors [of A mirror sz PROT_RW k0] mprotect_mirrors [of A base sz PROT_RX k1] by auto
  show ?thesis
  proof (cases "ok1 \<and> ok2")
    case True
    with False im k0 k1 k2 m show ?thesis
      by (intro registered [of i mirror k2]) (auto simp: RegisterWasmCodeRange_def)
  next
    case no: False
    have "RegisterWasmCodeRange A base sz s = (False, s\<lparr>vm := vm_deallocate mirror sz (if ok1 then k2 else k1)\<rparr>)"
      using no False im k0 k1 k2 by (auto simp: RegisterWasmCodeRange_def)
    then show ?thesis by (rule refused) (simp add: vm_deallocate_def m k0)
  qed
qed

lemma mirrors_inv_register:
  assumes "mirrors_inv M s" "fresh_mirrors A {base}"
  shows "mirrors_inv M (snd (RegisterWasmCodeRange A base sz s))"
proof (cases rule: RegisterWasm_cases [of A base sz s])
  case (refused k)
  with assms show ?thesis by (simp add: mirrors_inv_def)
next
  case (registered i k mirror)
  have "mirror \<noteq> 0" "mirror \<noteq> base" using assms(2) registered(4) by (auto simp: fresh_mirrors_def)
  then have "active \<lparr>wm_base = base, wm_size = sz, wm_offset = mirror - base, wm_mirror_base = mirror\<rparr>"
    by (simp add: active_def)
  with \<open>mirror \<noteq> 0\<close> registered first_free_Some [OF registered(1)] assms(1) show ?thesis
    by (simp add: mirrors_inv_def slot_mirrors_update slot_ok_def list_all_iff)
      (auto dest!: subsetD [OF set_update_subset_insert])
qed

lemma unregister_loop_inv:
  assumes "list_all slot_ok ms" "mirrors k = M + slot_mirrors ms" "unregister_loop base ms k = (ms', k')"
  shows "length ms' = length ms \<and> list_all slot_ok ms' \<and> mirrors k' = M + slot_mirrors ms'"
  using assms
proof (induction ms arbitrary: M k ms' k')
  case (Cons m ms)
  show ?case
  proof (cases "wm_offset m = 0 \<or> wm_base m \<noteq> base")
    case True
    let ?M = "if active m then add_mset (wm_mirror_base m, wm_size m) M else M"
    obtain ms1 where ms1: "unregister_loop base ms k = (ms1, k')" "ms' = m # ms1"
      using True Cons.prems(3) by (auto split: prod.splits)
    have "mirrors k = ?M + slot_mirrors ms" using Cons.prems(2) by simp
    with Cons.IH [of k ?M ms1 k'] ms1 Cons.prems(1) show ?thesis by auto
  next
    case False
    then have "active m" by (simp add: active_def)
    moreover from this have "wm_mirror_base m \<noteq> 0" using Cons.prems(1) by (simp add: slot_ok_def)
    ultimately show ?thesis
      using False Cons.prems by (auto simp: vm_deallocate_def)
  qed
qed simp

lemma mirrors_inv_unregister:
  assumes "mirrors_inv M s"
  shows "mirrors_inv M (UnregisterWasmCodeRange base s)"
proof -
  obtain ms k where u: "unregister_loop base (g_wasm_mirrors s) (vm s) = (ms, k)" by fastforce
  with unregister_loop_inv [OF _ _ u] assms show ?thesis
    by (auto simp: mirrors_inv_def UnregisterWasmCodeRange_def)
qed


text \<open>Registrations and releases of WebAssembly code spaces, in any order.\<close>

datatype mirror_op = AddSpace u64 u64 | DropSpace u64

fun mirror_step :: "vm_answers \<Rightarrow> mirror_op \<Rightarrow> wx \<Rightarrow> wx" where
  "mirror_step A (AddSpace base sz) s = snd (RegisterWasmCodeRange A base sz s)"
| "mirror_step A (DropSpace base) s = UnregisterWasmCodeRange base s"

lemma mirrors_inv_run:
  assumes "\<forall>base sz. AddSpace base sz \<in> set ops \<longrightarrow> fresh_mirrors A {base}" "mirrors_inv M s"
  shows "mirrors_inv M (fold (mirror_step A) ops s)"
  using assms
proof (induction ops arbitrary: s)
  case (Cons op ops)
  then have "mirrors_inv M (mirror_step A op s)"
    by (cases op) (auto simp: mirrors_inv_register mirrors_inv_unregister)
  moreover have "\<forall>base sz. AddSpace base sz \<in> set ops \<longrightarrow> fresh_mirrors A {base}" using Cons.prems(1) by auto
  ultimately show ?case using Cons.IH by simp
qed simp

lemma slot_mirrors_size: "size (slot_mirrors ms) \<le> length ms"
  unfolding slot_mirrors_def by (simp only: size_mset length_map length_filter_le)

text \<open>
  C16: mirrors of WebAssembly code spaces are neither leaked nor released twice.  After any
  sequence of registrations and releases, failing or not at any of their system calls, the
  kernel holds exactly one mirror per active slot, at most eight, and each active slot stores
  the distance from its range to its mirror.
\<close>

theorem wasm_mirrors_balanced:
  assumes "\<forall>base sz. AddSpace base sz \<in> set ops \<longrightarrow> fresh_mirrors A {base}" and "mirrors k = {#}"
    and "fold (mirror_step A) ops (initial_wx k) = s"
  shows "mirrors (vm s) = slot_mirrors (g_wasm_mirrors s) \<and> size (mirrors (vm s)) \<le> kMaxWasmMirrors \<and>
    list_all slot_ok (g_wasm_mirrors s)"
proof -
  have "slot_mirrors (replicate n free_slot) = {#}" for n by (induction n) simp_all
  then have "mirrors_inv {#} (initial_wx k)"
    using assms(2) by (simp add: mirrors_inv_def initial_wx_def list_all_iff)
  then have "mirrors_inv {#} s" using mirrors_inv_run [OF assms(1)] assms(3) by blast
  then show ?thesis using slot_mirrors_size [of "g_wasm_mirrors s"] by (simp add: mirrors_inv_def)
qed

text \<open>The heap's own registration does not give back a mirror it cannot make writable.\<close>

lemma code_range_mirror_leaked:
  assumes "base \<noteq> 0" "sz \<noteq> 0" "g_ios_mirror_base s = 0" "vm_remap A (remap_calls (vm s)) = Some m"
    and "\<not> mprotect_succeeds A (mprotect_calls (vm s))"
  shows "mirrors (vm (RegisterCodeRange A base sz s)) = add_mset (m, sz) (mirrors (vm s)) \<and>
    \<not> HasMirror (RegisterCodeRange A base sz s)"
  using assms by (simp add: RegisterCodeRange_def release_mirror_def remap_def mprotect_def Let_def HasMirror_def)

subsection \<open>Where code is written\<close>

lemma wasm_mirror_address_none:
  "\<forall>m \<in> set ms. \<not> covers m a \<Longrightarrow> wasm_mirror_address a ms = a"
  by (induction ms) (auto simp: covers_def active_def)

lemma wasm_mirror_address_append:
  "\<forall>m \<in> set ms. \<not> covers m a \<Longrightarrow> wasm_mirror_address a (ms @ ns) = wasm_mirror_address a ns"
  by (induction ms) (auto simp: covers_def active_def)

lemma wasm_mirror_address_update:
  assumes "i < length ms" "\<not> active (ms ! i)"
  shows "\<not> covers m a \<Longrightarrow> wasm_mirror_address a (ms[i := m]) = wasm_mirror_address a ms"
    and "covers m a \<Longrightarrow> \<forall>x \<in> set ms. \<not> covers x a \<Longrightarrow> wasm_mirror_address a (ms[i := m]) = a + wm_offset m"
  using assms
proof (induction ms arbitrary: i)
  case (Cons x ms)
  { case 1
    with Cons(1) show ?case by (cases i) (auto simp: covers_def active_def)
  next
    case 2
    with Cons(2) show ?case by (cases i) (auto simp: covers_def active_def)
  }
qed simp_all

text \<open>
  registering a WebAssembly code space redirects exactly its own writes.  When a mirror is
  established for a range disjoint from the heap's range and from every active space, each
  address of the range is written at the same distance into the mirror and every other address
  is written where it was before.
\<close>

lemma wasm_mirror_exact:
  assumes "RegisterWasmCodeRange A base sz s = (True, s')" and "fresh_mirrors A {base}"
    and "\<forall>a. base \<le> a \<and> a < base + sz \<longrightarrow> \<not> in_range s a \<and> (\<forall>m \<in> set (g_wasm_mirrors s). \<not> covers m a)"
    and "base \<le> base + sz" and "vm_remap A (remap_calls (vm s)) = Some mirror"
  shows "(\<forall>a. base \<le> a \<and> a < base + sz \<longrightarrow> MirrorWriteAddress s' a = mirror + (a - base)) \<and>
    (\<forall>a. \<not> (base \<le> a \<and> a < base + sz) \<longrightarrow> MirrorWriteAddress s' a = MirrorWriteAddress s a)"
proof (cases rule: RegisterWasm_cases [of A base sz s])
  case (refused k)
  with assms(1) show ?thesis by simp
next
  case (registered i k m)
  let ?slot = "\<lparr>wm_base = base, wm_size = sz, wm_offset = mirror - base, wm_mirror_base = mirror\<rparr>"
  have m: "m = mirror" "mirror \<noteq> base" using registered(4) assms(2,5) by (auto simp: fresh_mirrors_def)
  have s': "s' = s\<lparr>vm := k, g_wasm_mirrors := (g_wasm_mirrors s)[i := ?slot]\<rparr>"
    using registered(6) assms(1) m by simp
  have cov: "covers ?slot a \<longleftrightarrow> base \<le> a \<and> a < base + sz" for a
    using m by (simp add: covers_def active_def)
  note upd = wasm_mirror_address_update [of i "g_wasm_mirrors s" ?slot]
  have free: "i < length (g_wasm_mirrors s)" "\<not> active (g_wasm_mirrors s ! i)"
    using first_free_Some [OF registered(1)] by auto
  show ?thesis
  proof (intro conjI allI impI)
    fix a assume a: "base \<le> a \<and> a < base + sz"
    then have "wasm_mirror_address a ((g_wasm_mirrors s)[i := ?slot]) = a + (mirror - base)"
      using upd(2) [OF free] cov assms(3) by simp
    with a assms(3) show "MirrorWriteAddress s' a = mirror + (a - base)"
      unfolding s' MirrorWriteAddress_def in_range_def by auto
  next
    fix a assume "\<not> (base \<le> a \<and> a < base + sz)"
    then show "MirrorWriteAddress s' a = MirrorWriteAddress s a"
      using upd(1) [OF free] cov unfolding s' MirrorWriteAddress_def by simp
  qed
qed


subsection \<open>Instances\<close>

text \<open>A kernel with 16 KiB pages that grants every protection and two mirrors.\<close>

definition sample_answers :: vm_answers where
  "sample_answers = \<lparr>page_size = 0x4000, mprotect_succeeds = (\<lambda>_. True),
     vm_remap = (\<lambda>i. if i = 0 then Some 0x200000000 else if i = 1 then Some 0x210000000 else None)\<rparr>"

definition sample_vm :: kernel_vm where
  "sample_vm = \<lparr>page_prot = (\<lambda>_. PROT_RX), mirrors = {#}, mprotect_calls = 0, remap_calls = 0\<rparr>"

text \<open>A 16 MiB code range at 4 GiB without a mirror.\<close>

definition sample_range :: wx where
  "sample_range = (initial_wx sample_vm)\<lparr>g_ios_code_range_base := 0x100000000, g_ios_code_range_size := 0x1000000\<rparr>"

lemma sample_range_ok: "range_ok sample_answers sample_range"
  by (simp add: range_ok_def sample_range_def sample_answers_def page_start_def page_end_def initial_wx_def)

text \<open>
  A kernel that refuses the restoring call of the second span: its page stays writable, the
  other one is executable again.
\<close>

definition refusing_answers :: vm_answers where
  "refusing_answers = sample_answers\<lparr>mprotect_succeeds := (\<lambda>i. i \<noteq> 3)\<rparr>"

definition sample_scopes :: "scope_op list" where
  "sample_scopes = [OpenRange 0x100000010 4, OpenRange 0x100008000 4, CloseScope, CloseScope]"

lemma refused_restore:
  "failed_restores refusing_answers sample_scopes sample_range = [(0x100008000, 4)]"
  "page_prot (vm (fold (scope_step refusing_answers) sample_scopes sample_range)) 0x100008000 = PROT_RW"
  by (simp_all add: sample_scopes_def refusing_answers_def sample_answers_def sample_range_def sample_vm_def
      initial_wx_def SetWritableRange_def SetExecutable_def ClampToCodeRange_def RestoreAllLocked_def Protect_def
      mprotect_def page_start_def page_end_def restore_spans_def Let_def)


lemma sample_fresh: "fresh_mirrors sample_answers {0x180000000}"
  by (auto simp: fresh_mirrors_def sample_answers_def split: if_splits)

theorem wasm_mirrors_balanced_witness:
  "size (mirrors (vm (fold (mirror_step sample_answers) [AddSpace 0x180000000 0x100000, DropSpace 0x180000000]
     (initial_wx sample_vm)))) \<le> kMaxWasmMirrors"
proof -
  have "\<forall>base sz. AddSpace base sz \<in> set [AddSpace 0x180000000 0x100000, DropSpace 0x180000000] \<longrightarrow>
      fresh_mirrors sample_answers {base}"
    by (simp add: sample_fresh)
  moreover have "mirrors sample_vm = {#}" by (simp add: sample_vm_def)
  ultimately show ?thesis using wasm_mirrors_balanced by blast
qed

definition sample_registered :: wx where
  "sample_registered = snd (RegisterWasmCodeRange sample_answers 0x180000000 0x100000 (initial_wx sample_vm))"

lemma sample_first_free: "first_free (replicate kMaxWasmMirrors free_slot) = Some 0"
  by code_simp

lemma wasm_mirror_exact_witness:
  "MirrorWriteAddress sample_registered 0x180000040 = 0x200000040"
proof -
  have reg: "RegisterWasmCodeRange sample_answers 0x180000000 0x100000 (initial_wx sample_vm) = (True, sample_registered)"
    by (simp add: sample_registered_def RegisterWasmCodeRange_def sample_first_free sample_answers_def sample_vm_def
        initial_wx_def remap_def mprotect_def Let_def)
  have "\<not> in_range (initial_wx sample_vm) a" "\<forall>m \<in> set (g_wasm_mirrors (initial_wx sample_vm)). \<not> covers m a" for a
    by (auto simp: in_range_def initial_wx_def covers_def)
  moreover have "vm_remap sample_answers (remap_calls (vm (initial_wx sample_vm))) = Some 0x200000000"
    by (simp add: sample_answers_def sample_vm_def initial_wx_def)
  ultimately show ?thesis
    using wasm_mirror_exact [OF reg sample_fresh] by simp
qed

end
