(* ===== verification/Code_Pool.thy ===== *)
theory Code_Pool
  imports Blinker_Prelude
begin

text \<open>
  \<^verbatim>\<open>DisjointAllocationPool\<close> of \<^verbatim>\<open>v8/src/wasm/wasm-code-manager.cc\<close>: a set of disjoint address
  regions ordered by start address, with \<open>Merge\<close> and \<open>AllocateInRegion\<close>.

  \<^verbatim>\<open>base::AddressRegion\<close> is a pair of a start address and a size; its \<^verbatim>\<open>GetOverlap\<close> is not part
  of the repository and is a parameter with its documented behaviour \<open>overlap_ok\<close>.
  Addresses are natural numbers; regions of one address space do not wrap.
  \<^verbatim>\<open>std::set\<close> with the comparator on start addresses is a list in increasing order, without two
  elements of equal start.

  The locale \<open>address_pool\<close> states what the code allocator relies on, and what follows for any
  sequence of requests; the pool of the source interprets it.
\<close>

subsection \<open>Regions\<close>

record AddressRegion =
  rbegin :: nat
  rsize :: nat

definition rend :: "AddressRegion \<Rightarrow> nat" where "rend r = rbegin r + rsize r"
definition region :: "nat \<Rightarrow> nat \<Rightarrow> AddressRegion" where "region b n = \<lparr>rbegin = b, rsize = n\<rparr>"
definition empty_region :: AddressRegion where "empty_region = region 0 0"
definition is_empty :: "AddressRegion \<Rightarrow> bool" where "is_empty r \<longleftrightarrow> rsize r = 0"
definition addrs :: "AddressRegion \<Rightarrow> nat set" where "addrs r = {rbegin r..<rend r}"

lemma region_sel [simp]: "rbegin (region b n) = b" "rsize (region b n) = n" "rend (region b n) = b + n"
  by (simp_all add: region_def rend_def)

lemma addrs_region [simp]: "addrs (region b n) = {b..<b + n}"
  by (simp add: addrs_def)

text \<open>\<^verbatim>\<open>GetOverlap\<close>: the region of the common addresses.\<close>

definition overlap_ok :: "(AddressRegion \<Rightarrow> AddressRegion \<Rightarrow> AddressRegion) \<Rightarrow> bool" where
  "overlap_ok GetOverlap \<longleftrightarrow> (\<forall>a b. addrs (GetOverlap a b) = addrs a \<inter> addrs b)"

lemma overlap_size:
  assumes "overlap_ok ov"
  shows "rsize (ov a b) = card (addrs a \<inter> addrs b)"
proof -
  have "card (addrs (ov a b)) = rsize (ov a b)" by (simp add: addrs_def rend_def)
  with assms show ?thesis by (simp add: overlap_ok_def)
qed

lemma inter_interval: "addrs a \<inter> addrs b = {max (rbegin a) (rbegin b)..<min (rend a) (rend b)}"
  by (auto simp: addrs_def)

lemma overlap_exact:
  assumes "overlap_ok ov" "rsize (ov a b) > 0"
  shows "rbegin (ov a b) = max (rbegin a) (rbegin b)" "rend (ov a b) = min (rend a) (rend b)"
proof -
  have eq: "{rbegin (ov a b)..<rend (ov a b)} = {max (rbegin a) (rbegin b)..<min (rend a) (rend b)}"
    using assms(1) unfolding overlap_ok_def inter_interval [symmetric] by (simp add: addrs_def)
  have "rbegin (ov a b) < rend (ov a b)" using assms(2) by (simp add: rend_def)
  with eq show "rbegin (ov a b) = max (rbegin a) (rbegin b)" "rend (ov a b) = min (rend a) (rend b)"
    by (metis atLeastLessThan_eq_iff atLeastLessThan_empty_iff)+
qed

subsection \<open>The ordered set\<close>

type_synonym pool = "AddressRegion list"

definition pool_below :: "AddressRegion \<Rightarrow> pool \<Rightarrow> pool" where
  "pool_below r rs = takeWhile (\<lambda>x. rbegin x < rbegin r) rs"

text \<open>\<^verbatim>\<open>lower_bound(r)\<close> is the iterator at the first element of \<open>pool_above r rs\<close>.\<close>

definition pool_above :: "AddressRegion \<Rightarrow> pool \<Rightarrow> pool" where
  "pool_above r rs = dropWhile (\<lambda>x. rbegin x < rbegin r) rs"

definition set_erase :: "AddressRegion \<Rightarrow> pool \<Rightarrow> pool" where
  "set_erase r rs = filter (\<lambda>x. rbegin x \<noteq> rbegin r) rs"

definition set_insert :: "AddressRegion \<Rightarrow> pool \<Rightarrow> pool" where
  "set_insert r rs =
     (case pool_above r rs of
        [] \<Rightarrow> pool_below r rs @ [r]
      | x # xs \<Rightarrow> if rbegin x = rbegin r then rs else pool_below r rs @ r # x # xs)"

subsection \<open>Operations\<close>

definition Merge :: "AddressRegion \<Rightarrow> pool \<Rightarrow> AddressRegion \<times> pool" where
  "Merge new_region rs =
     (let lo = pool_below new_region rs; hi = pool_above new_region rs;
          joins_above = (case hi of [] \<Rightarrow> False | a # _ \<Rightarrow> rend new_region = rbegin a);
          joins_below = (lo \<noteq> [] \<and> rend (last lo) = rbegin new_region) in
      if joins_above then
        (let a = hd hi;
             merged_region = region (rbegin new_region) (rsize new_region + rsize a);
             (merged_region, rs) =
               (if joins_below
                then (region (rbegin (last lo)) (rsize (last lo) + rsize merged_region), set_erase (last lo) rs)
                else (merged_region, rs))
         in (merged_region, set_insert merged_region (set_erase a rs)))
      else if lo = [] then (new_region, set_insert new_region rs)
      else if joins_below then
        (let merged_region = region (rbegin (last lo)) (rsize (last lo) + rsize new_region)
         in (merged_region, set_insert merged_region (set_erase (last lo) rs)))
      else (new_region, set_insert new_region rs))"

text \<open>The body of the search loop for the first region with a large enough overlap.\<close>

definition take_from :: "nat \<Rightarrow> AddressRegion \<Rightarrow> AddressRegion \<Rightarrow> pool \<Rightarrow> AddressRegion \<times> pool" where
  "take_from sz overlap old rs =
     (let ret = region (rbegin overlap) sz; rs = set_erase old rs in
      (ret,
       if sz = rsize old then rs
       else if rbegin ret = rbegin old then set_insert (region (rbegin old + sz) (rsize old - sz)) rs
       else if rend ret = rend old then set_insert (region (rbegin old) (rsize old - sz)) rs
       else set_insert (region (rend ret) (rend old - rend ret))
              (set_insert (region (rbegin old) (rbegin ret - rbegin old)) rs)))"

fun search :: "(AddressRegion \<Rightarrow> AddressRegion \<Rightarrow> AddressRegion) \<Rightarrow> nat \<Rightarrow> AddressRegion \<Rightarrow> pool \<Rightarrow> pool \<Rightarrow> AddressRegion \<times> pool" where
  "search ov sz within rs [] = (empty_region, rs)"
| "search ov sz within rs (x # xs) =
     (if sz > rsize (ov x within) then search ov sz within rs xs else take_from sz (ov x within) x rs)"

text \<open>The search starts one element before the lower bound, if there is one.\<close>

definition AllocateInRegion ::
  "(AddressRegion \<Rightarrow> AddressRegion \<Rightarrow> AddressRegion) \<Rightarrow> nat \<Rightarrow> AddressRegion \<Rightarrow> pool \<Rightarrow> AddressRegion \<times> pool" where
  "AllocateInRegion ov sz within rs =
     search ov sz within rs (drop (length (pool_below within rs) - 1) rs)"

definition size_max :: nat where "size_max = 2 ^ 64 - 1"

definition kUnrestrictedRegion :: AddressRegion where
  "kUnrestrictedRegion = region 0 size_max"

definition Allocate ::
  "(AddressRegion \<Rightarrow> AddressRegion \<Rightarrow> AddressRegion) \<Rightarrow> nat \<Rightarrow> pool \<Rightarrow> AddressRegion \<times> pool" where
  "Allocate ov sz rs = AllocateInRegion ov sz (region 0 size_max) rs"

subsection \<open>The invariant\<close>

text \<open>Regions are not empty, in order, and neither overlap nor touch.\<close>

fun pool_ok :: "pool \<Rightarrow> bool" where
  "pool_ok [] \<longleftrightarrow> True"
| "pool_ok [r] \<longleftrightarrow> rsize r > 0"
| "pool_ok (r # r' # rs) \<longleftrightarrow> rsize r > 0 \<and> rend r < rbegin r' \<and> pool_ok (r' # rs)"

definition pool_addrs :: "pool \<Rightarrow> nat set" where
  "pool_addrs rs = (\<Union>r \<in> set rs. addrs r)"

text \<open>A block starts where the requested region starts, or where a run of pool addresses starts.\<close>

definition leftmost :: "nat set \<Rightarrow> AddressRegion \<Rightarrow> AddressRegion \<Rightarrow> bool" where
  "leftmost space within r \<longleftrightarrow> rbegin r = rbegin within \<or> rbegin r = 0 \<or> rbegin r - 1 \<notin> space"

lemma pool_addrs_simps [simp]:
  "pool_addrs [] = {}" "pool_addrs (r # rs) = addrs r \<union> pool_addrs rs" "pool_addrs (rs @ rs') = pool_addrs rs \<union> pool_addrs rs'"
  by (auto simp: pool_addrs_def)

lemma pool_ok_Cons [simp]:
  "pool_ok (r # rs) \<longleftrightarrow> rsize r > 0 \<and> pool_ok rs \<and> (\<forall>x \<in> set rs. rend r < rbegin x)"
proof (induction rs arbitrary: r)
  case (Cons x rs)
  have "rend r < rbegin x \<Longrightarrow> rsize x > 0 \<Longrightarrow> \<forall>y \<in> set rs. rend x < rbegin y \<Longrightarrow> \<forall>y \<in> set rs. rend r < rbegin y"
    by (fastforce simp: rend_def)
  with Cons show ?case by auto
qed simp

declare pool_ok.simps(2,3) [simp del]

lemma pool_ok_append [simp]:
  "pool_ok (as @ bs) \<longleftrightarrow> pool_ok as \<and> pool_ok bs \<and> (\<forall>a \<in> set as. \<forall>b \<in> set bs. rend a < rbegin b)"
  by (induction as) auto

lemma below_above [simp]: "pool_below r rs @ pool_above r rs = rs"
  by (simp add: pool_below_def pool_above_def)

lemma pool_ok_split:
  "pool_ok rs \<Longrightarrow> pool_ok (pool_below r rs) \<and> pool_ok (pool_above r rs)"
  by (metis below_above pool_ok_append)

lemma below_begin: "x \<in> set (pool_below r rs) \<Longrightarrow> rbegin x < rbegin r"
  by (auto simp: pool_below_def dest: set_takeWhileD)

lemma above_begin: "pool_ok rs \<Longrightarrow> x \<in> set (pool_above r rs) \<Longrightarrow> rbegin r \<le> rbegin x"
proof (induction rs)
  case (Cons y rs)
  then show ?case by (fastforce simp: pool_above_def rend_def split: if_splits)
qed (simp add: pool_above_def)


lemma below_split:
  assumes "\<forall>a \<in> set as. rbegin a < rbegin r" "\<forall>b \<in> set bs. rbegin r \<le> rbegin b"
  shows "pool_below r (as @ bs) = as" "pool_above r (as @ bs) = bs"
proof -
  have "takeWhile (\<lambda>x. rbegin x < rbegin r) bs = []" "dropWhile (\<lambda>x. rbegin x < rbegin r) bs = bs"
    using assms(2) by (cases bs; fastforce)+
  with assms(1) show "pool_below r (as @ bs) = as" "pool_above r (as @ bs) = bs"
    by (simp_all add: pool_below_def pool_above_def)
qed

lemma set_insert_mid:
  assumes "\<forall>a \<in> set as. rbegin a < rbegin r" "\<forall>b \<in> set bs. rbegin r < rbegin b"
  shows "set_insert r (as @ bs) = as @ r # bs"
proof -
  have "pool_below r (as @ bs) = as" "pool_above r (as @ bs) = bs"
    using below_split [OF assms(1)] assms(2) by (auto intro: less_imp_le)
  with assms(2) show ?thesis by (auto simp: set_insert_def split: list.split)
qed

lemma set_erase_mid:
  assumes "\<forall>a \<in> set as. rbegin a < rbegin r" "\<forall>b \<in> set bs. rbegin r < rbegin b"
  shows "set_erase r (as @ r # bs) = as @ bs"
proof -
  have "filter (\<lambda>x. rbegin x \<noteq> rbegin r) as = as" "filter (\<lambda>x. rbegin x \<noteq> rbegin r) bs = bs"
    using assms by (fastforce simp: filter_id_conv)+
  then show ?thesis by (simp add: set_erase_def)
qed

lemma addrs_disjoint_iff:
  "rsize a > 0 \<Longrightarrow> rsize b > 0 \<Longrightarrow> addrs a \<inter> addrs b = {} \<longleftrightarrow> rend a \<le> rbegin b \<or> rend b \<le> rbegin a"
  by (auto simp: addrs_def rend_def)

text \<open>A region disjoint from the pool lies between its lower and its upper part.\<close>

lemma new_region_between:
  assumes "pool_ok rs" "rsize r > 0" "addrs r \<inter> pool_addrs rs = {}"
  shows "\<forall>a \<in> set (pool_below r rs). rend a \<le> rbegin r" "\<forall>b \<in> set (pool_above r rs). rend r \<le> rbegin b"
proof -
  have pos: "rsize x > 0" if "x \<in> set rs" for x
    using assms(1) that by (induction rs) auto
  have disj: "rend r \<le> rbegin x \<or> rend x \<le> rbegin r" if "x \<in> set rs" for x
  proof -
    have "addrs r \<inter> addrs x = {}" using assms(3) that unfolding pool_addrs_def by blast
    then show ?thesis using addrs_disjoint_iff [OF assms(2) pos [OF that]] by simp
  qed
  have sub: "set (pool_below r rs) \<subseteq> set rs" "set (pool_above r rs) \<subseteq> set rs"
    by (auto simp: pool_below_def pool_above_def dest: set_takeWhileD set_dropWhileD)
  show "\<forall>a \<in> set (pool_below r rs). rend a \<le> rbegin r"
    using disj sub(1) below_begin assms(2) by (fastforce simp: rend_def)
  show "\<forall>b \<in> set (pool_above r rs). rend r \<le> rbegin b"
    using disj sub(2) above_begin [OF assms(1)] pos by (fastforce simp: rend_def)
qed


lemma rend_less: "rsize r > 0 \<Longrightarrow> rbegin r < rend r"
  by (simp add: rend_def)

lemma rbegin_less: "rend x < rbegin y \<Longrightarrow> rbegin x < rbegin y"
  by (simp add: rend_def)

text \<open>The neighbour below a new region touches it or is apart from it; so does the one above.\<close>

lemma lower_neighbour:
  assumes "pool_ok lo" "\<forall>a \<in> set lo. rend a \<le> b"
  obtains "\<forall>a \<in> set lo. rend a < b"
    | pre l where "lo = pre @ [l]" "rend l = b" "\<forall>a \<in> set pre. rend a < rbegin l"
proof (cases lo rule: rev_cases)
  case (snoc pre l)
  have "rend l < b \<Longrightarrow> \<forall>a \<in> set lo. rend a < b"
    using assms(1) by (fastforce simp: snoc rend_def)
  moreover have "rend l \<le> b" using assms(2) by (simp add: snoc)
  ultimately show ?thesis using that assms(1) by (cases "rend l = b") (auto simp: snoc)
qed (use that in simp)

lemma upper_neighbour:
  assumes "pool_ok hi" "\<forall>b \<in> set hi. e \<le> rbegin b"
  obtains "\<forall>b \<in> set hi. e < rbegin b"
    | u post where "hi = u # post" "rbegin u = e" "\<forall>b \<in> set post. rend u < rbegin b"
proof (cases hi)
  case (Cons u post)
  have "e < rbegin u \<Longrightarrow> \<forall>b \<in> set hi. e < rbegin b"
    using assms(1) by (fastforce simp: Cons rend_def)
  moreover have "e \<le> rbegin u" using assms(2) by (simp add: Cons)
  ultimately show ?thesis using that assms(1) by (cases "rbegin u = e") (auto simp: Cons)
qed (use that in simp)

text \<open>
  \<open>Merge\<close> replaces the neighbours the new region touches by one region: the four cases of
  neighbours that touch.
\<close>

lemma Merge_none:
  assumes "pool_below r rs = pre" "pool_above r rs = post" "rsize r > 0"
    "\<forall>a \<in> set pre. rend a < rbegin r" "\<forall>b \<in> set post. rend r < rbegin b"
  shows "Merge r rs = (r, pre @ r # post)"
proof -
  have "\<forall>a \<in> set pre. rbegin a < rbegin r" "\<forall>b \<in> set post. rbegin r < rbegin b"
    using assms(4,5) by (auto intro: rbegin_less)
  moreover have "rs = pre @ post" using assms(1,2) below_above [of r rs] by simp
  moreover have "\<not> (pre \<noteq> [] \<and> rend (last pre) = rbegin r)" using assms(4) by (metis last_in_set less_irrefl)
  moreover have "post = [] \<or> rend r \<noteq> rbegin (hd post)" using assms(5) by (cases post) auto
  moreover have "set_insert r (pre @ post) = pre @ r # post" using calculation(1,2) by (rule set_insert_mid)
  ultimately show ?thesis
    using assms(1,2) by (cases post) (auto simp: Merge_def Let_def)
qed

lemma Merge_below:
  assumes "pool_below r rs = pre @ [l]" "pool_above r rs = post" "rend l = rbegin r"
    "\<forall>a \<in> set pre. rend a < rbegin l" "\<forall>b \<in> set post. rend r < rbegin b"
  shows "Merge r rs = (region (rbegin l) (rsize l + rsize r), pre @ region (rbegin l) (rsize l + rsize r) # post)"
proof -
  have "\<forall>b \<in> set post. rend l < rbegin b" using assms(3,5) by (auto intro: rbegin_less)
  then have lt: "\<forall>a \<in> set pre. rbegin a < rbegin l" "\<forall>b \<in> set post. rbegin l < rbegin b"
    using assms(4) by (auto intro: rbegin_less)
  have "rs = pre @ l # post" using assms(1,2) below_above [of r rs] by simp
  moreover have "post = [] \<or> rend r \<noteq> rbegin (hd post)" using assms(5) by (cases post) auto
  moreover have "set_erase l (pre @ l # post) = pre @ post" using lt by (rule set_erase_mid)
  moreover have "set_insert (region (rbegin l) n) (pre @ post) = pre @ region (rbegin l) n # post" for n
    using lt by (intro set_insert_mid) simp_all
  ultimately show ?thesis
    using assms(1-3) by (cases post) (simp_all add: Merge_def Let_def)
qed

lemma Merge_above:
  assumes "pool_below r rs = pre" "pool_above r rs = u # post" "rbegin u = rend r" "rsize r > 0"
    "\<forall>a \<in> set pre. rend a < rbegin r" "\<forall>b \<in> set post. rend u < rbegin b"
  shows "Merge r rs = (region (rbegin r) (rsize r + rsize u), pre @ region (rbegin r) (rsize r + rsize u) # post)"
proof -
  have ru: "rbegin r < rbegin u" using assms(3,4) by (simp add: rend_def)
  have pre: "\<forall>a \<in> set pre. rbegin a < rbegin r" and post: "\<forall>b \<in> set post. rbegin u < rbegin b"
    using assms(5,6) by (auto intro: rbegin_less)
  have far: "\<forall>a \<in> set pre. rbegin a < rbegin u" "\<forall>b \<in> set post. rbegin r < rbegin b"
    using ru pre post by (auto dest: order_less_trans)
  have "rs = pre @ u # post" using assms(1,2) below_above [of r rs] by simp
  moreover have "\<not> (pre \<noteq> [] \<and> rend (last pre) = rbegin r)" using assms(5) by (metis last_in_set less_irrefl)
  moreover have "set_erase u (pre @ u # post) = pre @ post" using far(1) post by (rule set_erase_mid)
  moreover have "set_insert (region (rbegin r) n) (pre @ post) = pre @ region (rbegin r) n # post" for n
    using pre far(2) by (intro set_insert_mid) simp_all
  ultimately show ?thesis
    using assms(1-3) by (auto simp: Merge_def Let_def)
qed

lemma Merge_both:
  assumes "pool_below r rs = pre @ [l]" "pool_above r rs = u # post" "rend l = rbegin r" "rbegin u = rend r"
    "rsize r > 0" "\<forall>a \<in> set pre. rend a < rbegin l" "\<forall>b \<in> set post. rend u < rbegin b"
  shows "Merge r rs = (region (rbegin l) (rsize l + (rsize r + rsize u)),
                       pre @ region (rbegin l) (rsize l + (rsize r + rsize u)) # post)"
proof -
  have lu: "rbegin l < rbegin u" using assms(3,4,5) by (simp add: rend_def)
  have pre: "\<forall>a \<in> set pre. rbegin a < rbegin l" and post: "\<forall>b \<in> set post. rbegin u < rbegin b"
    using assms(6,7) by (auto intro: rbegin_less)
  have far: "\<forall>a \<in> set pre. rbegin a < rbegin u" "\<forall>b \<in> set post. rbegin l < rbegin b"
    using lu pre post by (auto dest: order_less_trans)
  have "rs = pre @ l # (u # post)" using assms(1,2) below_above [of r rs] by simp
  moreover have "set_erase l (pre @ l # (u # post)) = pre @ u # post"
    using pre far(2) lu by (intro set_erase_mid) auto
  moreover have "set_erase u (pre @ u # post) = pre @ post" using far(1) post by (rule set_erase_mid)
  moreover have "set_insert (region (rbegin l) n) (pre @ post) = pre @ region (rbegin l) n # post" for n
    using pre far(2) by (intro set_insert_mid) simp_all
  ultimately show ?thesis
    using assms(1-4) by (simp add: Merge_def Let_def)
qed

text \<open>
  A region disjoint from the pool is added to its addresses, the pool stays ordered with no two
  regions touching, and the answer is the region of the pool that contains the new one.
\<close>

lemma Merge_correct:
  assumes "pool_ok rs" "rsize r > 0" "addrs r \<inter> pool_addrs rs = {}" "Merge r rs = (m, rs')"
  shows "pool_ok rs'" "pool_addrs rs' = pool_addrs rs \<union> addrs r" "m \<in> set rs'" "addrs r \<subseteq> addrs m"
proof -
  define lo hi where "lo = pool_below r rs" and "hi = pool_above r rs"
  note lo_hi = lo_def [symmetric] hi_def [symmetric]
  have rs: "rs = lo @ hi" by (simp add: lo_def hi_def)
  have ok: "pool_ok (lo @ hi)" using assms(1) rs by simp
  have sep: "\<forall>a \<in> set lo. rend a \<le> rbegin r" "\<forall>b \<in> set hi. rend r \<le> rbegin b"
    using new_region_between [OF assms(1-3)] by (simp_all add: lo_hi)
  have parts: "pool_ok lo" "pool_ok hi" using ok by simp_all
  have goal: "pool_ok rs' \<and> pool_addrs rs' = pool_addrs rs \<union> addrs r \<and> m \<in> set rs' \<and> addrs r \<subseteq> addrs m"
  proof (cases rule: lower_neighbour [OF parts(1) sep(1)])
    case 1
    note lower = this
    show ?thesis
    proof (cases rule: upper_neighbour [OF parts(2) sep(2)])
      case 1
      then show ?thesis using lower Merge_none [of r rs lo hi] assms(2,4) ok lo_hi by (auto simp: rs)
    next
      case (2 u post)
      then show ?thesis using lower Merge_above [of r rs lo u post] assms(2,4) ok lo_hi by (auto simp: rs addrs_def rend_def)
    qed
  next
    case (2 pre l)
    note lower = this
    show ?thesis
    proof (cases rule: upper_neighbour [OF parts(2) sep(2)])
      case 1
      then show ?thesis using lower Merge_below [of r rs pre l hi] assms(2,4) ok lo_hi by (auto simp: rs addrs_def rend_def)
    next
      case (2 u post)
      then show ?thesis using lower Merge_both [of r rs pre l u post] assms(2,4) ok lo_hi by (auto simp: rs addrs_def rend_def)
    qed
  qed
  then show "pool_ok rs'" "pool_addrs rs' = pool_addrs rs \<union> addrs r" "m \<in> set rs'" "addrs r \<subseteq> addrs m"
    by blast+
qed

lemma take_from_correct:
  assumes "pool_ok rs" "old \<in> set rs" "0 < sz" "sz \<le> rsize ov" "rbegin old \<le> rbegin ov" "rend ov \<le> rend old"
    "take_from sz ov old rs = (ret, rs')"
  shows "pool_ok rs'" "pool_addrs rs' = pool_addrs rs - addrs ret" "addrs ret \<subseteq> addrs ov" "rsize ret = sz"
    "addrs ret \<subseteq> pool_addrs rs" "rbegin ret = rbegin ov"
proof -
  obtain pre post where rs: "rs = pre @ old # post" using assms(2) by (auto dest: split_list)
  have apart: "\<forall>a \<in> set pre. rend a < rbegin old" "\<forall>b \<in> set post. rend old < rbegin b" and old: "rsize old > 0"
    and parts: "pool_ok pre" "pool_ok post" and through: "\<forall>a \<in> set pre. \<forall>b \<in> set post. rend a < rbegin b"
    using assms(1) by (simp_all add: rs)
  have lt: "\<forall>a \<in> set pre. rbegin a < rbegin old" "\<forall>b \<in> set post. rbegin old < rbegin b"
    using apart by (auto intro: rbegin_less)
  have erase: "set_erase old rs = pre @ post" unfolding rs using lt by (rule set_erase_mid)
  have insert: "set_insert (region b n) (pre @ post) = pre @ region b n # post" if "rbegin old \<le> b" "b \<le> rend old" for b n
    using that apart lt by (intro set_insert_mid) fastforce+
  have insert2: "set_insert (region b n) (pre @ region b' n' # post) = (pre @ [region b' n']) @ region b n # post"
    if "rbegin old \<le> b'" "b' < b" "b \<le> rend old" for b n b' n'
    using that apart lt set_insert_mid [of "pre @ [region b' n']" "region b n" post] by fastforce
  have ret: "ret = region (rbegin ov) sz" using assms(7) by (simp add: take_from_def Let_def)
  have le: "rbegin old \<le> rbegin ret" "rend ret \<le> rend old" using assms(4-6) by (simp_all add: ret rend_def)
  have old_eq: "rend old = rbegin old + rsize old" by (simp add: rend_def)
  have outside: "\<forall>a \<in> set pre. addrs a \<inter> addrs old = {}" "\<forall>b \<in> set post. addrs b \<inter> addrs old = {}"
    using apart by (fastforce simp: addrs_def rend_def)+
  show "rbegin ret = rbegin ov" by (simp add: ret)
  show "rsize ret = sz" "addrs ret \<subseteq> addrs ov" using assms(4) by (auto simp: ret addrs_def rend_def)
  show "addrs ret \<subseteq> pool_addrs rs" using le by (auto simp: rs addrs_def)
  have cases: "(sz = rsize old \<and> rbegin ret = rbegin old \<and> rend ret = rend old \<and> rs' = pre @ post) \<or>
      (rbegin ret = rbegin old \<and> rend ret < rend old \<and> rs' = pre @ region (rend ret) (rend old - rend ret) # post) \<or>
      (rbegin old < rbegin ret \<and> rend ret = rend old \<and> rs' = pre @ region (rbegin old) (rbegin ret - rbegin old) # post) \<or>
      (rbegin old < rbegin ret \<and> rend ret < rend old \<and>
       rs' = pre @ region (rbegin old) (rbegin ret - rbegin old) # region (rend ret) (rend old - rend ret) # post)"
  proof -
    consider "sz = rsize old" | "sz \<noteq> rsize old" "rbegin ov = rbegin old"
      | "sz \<noteq> rsize old" "rbegin ov \<noteq> rbegin old" "rend ret = rend old"
      | "sz \<noteq> rsize old" "rbegin ov \<noteq> rbegin old" "rend ret \<noteq> rend old" by blast
    then show ?thesis
      using assms(3,7) le insert insert2 [of "rbegin old" "rend ret"]
      by cases (auto simp: take_from_def Let_def erase ret old_eq)
  qed
  have ret_pos: "rbegin ret < rend ret" using assms(3) by (simp add: ret)
  show "pool_ok rs'"
    using cases parts through apart ret_pos le by (elim disjE) fastforce+
  have "pool_addrs rs' = pool_addrs pre \<union> (addrs old - addrs ret) \<union> pool_addrs post"
    using cases le ret_pos by (elim disjE) (auto simp: addrs_def)
  moreover have "pool_addrs pre \<inter> addrs ret = {}" "pool_addrs post \<inter> addrs ret = {}"
    using outside le unfolding pool_addrs_def by (fastforce simp: addrs_def)+
  ultimately show "pool_addrs rs' = pool_addrs rs - addrs ret" by (auto simp: rs)
qed

lemma before_region_free:
  assumes "pool_ok rs" "x \<in> set rs" "0 < rbegin x"
  shows "rbegin x - 1 \<notin> pool_addrs rs"
proof -
  obtain pre post where rs: "rs = pre @ x # post" using assms(2) by (auto dest: split_list)
  have "\<forall>a \<in> set pre. rend a < rbegin x" "\<forall>b \<in> set post. rend x < rbegin b" using assms(1) by (simp_all add: rs)
  then show ?thesis using assms(3) by (fastforce simp: rs pool_addrs_def addrs_def rend_def)
qed

lemma search_correct:
  assumes "pool_ok rs" "set xs \<subseteq> set rs" "0 < sz" "overlap_ok ov" "search ov sz within rs xs = (ret, rs')"
  shows "(\<forall>x \<in> set xs. card (addrs x \<inter> addrs within) < sz) \<and> ret = empty_region \<and> rs' = rs \<or>
    (\<exists>x \<in> set xs. sz \<le> card (addrs x \<inter> addrs within)) \<and> rsize ret = sz \<and> addrs ret \<subseteq> pool_addrs rs \<inter> addrs within \<and>
    pool_ok rs' \<and> pool_addrs rs' = pool_addrs rs - addrs ret \<and> leftmost (pool_addrs rs) within ret"
  using assms(2,5)
proof (induction xs)
  case (Cons x xs)
  show ?case
  proof (cases "sz > rsize (ov x within)")
    case True
    then show ?thesis using Cons assms(4) by (auto simp: overlap_size)
  next
    case False
    then have big: "sz \<le> rsize (ov x within)" "rsize (ov x within) > 0" using assms(3) by simp_all
    have "rbegin x \<le> rbegin (ov x within)" "rend (ov x within) \<le> rend x"
      using overlap_exact [OF assms(4) big(2)] by simp_all
    note taken = take_from_correct [OF assms(1) _ assms(3) big(1) this]
    have "take_from sz (ov x within) x rs = (ret, rs')" using Cons.prems(2) False by simp
    from taken [OF _ this] Cons.prems(1) have "pool_ok rs'" "pool_addrs rs' = pool_addrs rs - addrs ret"
      "addrs ret \<subseteq> addrs (ov x within)" "rsize ret = sz" "addrs ret \<subseteq> pool_addrs rs" "rbegin ret = rbegin (ov x within)" by auto
    moreover have "leftmost (pool_addrs rs) within ret"
      using calculation(6) overlap_exact(1) [OF assms(4) big(2)] before_region_free [OF assms(1), of x] Cons.prems(1)
      by (auto simp: leftmost_def max_def)
    ultimately show ?thesis using big(1) assms(4) overlap_size [OF assms(4)] by (auto simp: overlap_ok_def)
  qed
qed simp

text \<open>
  Starting one element before the lower bound skips no region that overlaps: an allocation
  succeeds exactly when some region of the pool has enough room inside the requested one.
\<close>

lemma skipped_no_overlap:
  assumes "pool_ok rs" "x \<in> set rs" "x \<notin> set (drop (length (pool_below within rs) - 1) rs)"
  shows "addrs x \<inter> addrs within = {}"
proof -
  define lo where "lo = pool_below within rs"
  have rs: "rs = lo @ pool_above within rs" by (simp add: lo_def)
  have lo: "pool_ok lo" using pool_ok_split [OF assms(1)] by (simp add: lo_def)
  have "drop (length lo - 1) rs = drop (length lo - 1) lo @ pool_above within rs"
    by (subst rs) (simp add: drop_append)
  then have x: "x \<in> set lo" "x \<notin> set (drop (length lo - 1) lo)"
    using assms(2,3) rs unfolding lo_def [symmetric] by (metis Un_iff set_append)+
  show ?thesis
  proof (cases lo rule: rev_cases)
    case (snoc pre l)
    then have "x \<in> set pre" using x by simp
    then have "rend x < rbegin l" using lo snoc by simp
    moreover have "rbegin l < rbegin within" using below_begin [of l within rs] snoc by (simp add: lo_def [symmetric])
    ultimately show ?thesis by (auto simp: addrs_def)
  qed (use x in simp)
qed

lemma AllocateInRegion_correct:
  assumes "pool_ok rs" "0 < sz" "overlap_ok ov" "AllocateInRegion ov sz within rs = (ret, rs')"
  shows "(\<forall>x \<in> set rs. card (addrs x \<inter> addrs within) < sz) \<and> ret = empty_region \<and> rs' = rs \<or>
    (\<exists>x \<in> set rs. sz \<le> card (addrs x \<inter> addrs within)) \<and> rsize ret = sz \<and> addrs ret \<subseteq> pool_addrs rs \<inter> addrs within \<and>
    pool_ok rs' \<and> pool_addrs rs' = pool_addrs rs - addrs ret \<and> leftmost (pool_addrs rs) within ret"
proof -
  let ?xs = "drop (length (pool_below within rs) - 1) rs"
  have sub: "set ?xs \<subseteq> set rs" by (rule set_drop_subset)
  have skip: "card (addrs x \<inter> addrs within) < sz" if "x \<in> set rs" "x \<notin> set ?xs" for x
    using skipped_no_overlap [OF assms(1) that] assms(2) by simp
  show ?thesis
    using search_correct [OF assms(1) sub assms(2,3)] assms(4) skip sub unfolding AllocateInRegion_def by blast
qed

text \<open>
  The pool is a canonical form of its set of addresses: returning a block to the pool it was taken
  from restores the pool itself.
\<close>

lemma pool_addrs_above:
  assumes "pool_ok (a # rs)"
  shows "x \<in> pool_addrs (a # rs) \<Longrightarrow> rbegin a \<le> x" "rend a \<notin> pool_addrs (a # rs)" "addrs a \<inter> pool_addrs rs = {}"
    "rbegin a \<in> pool_addrs (a # rs)"
  using assms by (fastforce simp: pool_addrs_def addrs_def rend_def)+

lemma pool_head_unique:
  assumes "pool_ok (a # as)" "pool_ok (b # bs)" "pool_addrs (a # as) = pool_addrs (b # bs)"
  shows "a = b"
proof -
  note above = pool_addrs_above [OF assms(1)] and above' = pool_addrs_above [OF assms(2)]
  have begin_eq: "rbegin a = rbegin b" using above(1,4) above'(1,4) assms(3) by (metis antisym)
  have "rend a \<notin> addrs b" using above(2) unfolding assms(3) by simp
  moreover have "rend b \<notin> addrs a" using above'(2) unfolding assms(3) [symmetric] by simp
  moreover have "rbegin a < rend a" "rbegin b < rend b" using assms(1,2) by (simp_all add: rend_less)
  ultimately have "rend a = rend b" using begin_eq by (auto simp: addrs_def)
  with begin_eq show ?thesis by (simp add: rend_def)
qed

lemma pool_unique:
  assumes "pool_ok as" "pool_ok bs" "pool_addrs as = pool_addrs bs"
  shows "as = bs"
  using assms
proof (induction as arbitrary: bs)
  case Nil
  then show ?case using pool_addrs_above(4) by (cases bs) (metis empty_iff pool_addrs_simps(1))+
next
  case (Cons a as)
  then obtain b bs' where bs: "bs = b # bs'"
    using pool_addrs_above(4) by (cases bs) (metis empty_iff pool_addrs_simps(1))+
  have "a = b" using Cons.prems pool_head_unique unfolding bs by blast
  moreover have "pool_addrs as = pool_addrs bs'"
    using Cons.prems pool_addrs_above(3) [of a as] pool_addrs_above(3) [of b bs'] \<open>a = b\<close> unfolding bs by auto
  ultimately show ?case using Cons unfolding bs by simp
qed

subsection \<open>The interface\<close>

text \<open>
  What clients do with a store of regions, over its operations \<open>alloc\<close> and \<open>give\<close>: giving a list of
  regions, and serving a sequence of requests with the list \<open>out\<close> of the blocks handed out;
  \<open>Give i\<close> returns the \<open>i\<close>-th of them.
\<close>

fun give_all :: "(AddressRegion \<Rightarrow> 'p \<Rightarrow> AddressRegion \<times> 'p) \<Rightarrow> AddressRegion list \<Rightarrow> 'p \<Rightarrow> 'p" where
  "give_all give [] p = p"
| "give_all give (r # rs) p = give_all give rs (snd (give r p))"

datatype pool_request = Take nat AddressRegion | Give nat

fun pool_serve ::
  "(nat \<Rightarrow> AddressRegion \<Rightarrow> 'p \<Rightarrow> AddressRegion \<times> 'p) \<Rightarrow> (AddressRegion \<Rightarrow> 'p \<Rightarrow> AddressRegion \<times> 'p) \<Rightarrow>
   pool_request \<Rightarrow> AddressRegion list \<times> 'p \<Rightarrow> AddressRegion list \<times> 'p" where
  "pool_serve alloc give (Take n w) (out, p) =
     (if n = 0 then (out, p) else let (r, p') = alloc n w p in (if is_empty r then out else r # out, p'))"
| "pool_serve alloc give (Give i) (out, p) =
     (if i < length out then (take i out @ drop (Suc i) out, snd (give (out ! i) p)) else (out, p))"

abbreviation disjoint_regions :: "AddressRegion list \<Rightarrow> bool" where
  "disjoint_regions \<equiv> sorted_wrt (\<lambda>r r'. addrs r \<inter> addrs r' = {})"

definition serving :: "('p \<Rightarrow> bool) \<Rightarrow> ('p \<Rightarrow> nat set) \<Rightarrow> nat set \<Rightarrow> AddressRegion list \<times> 'p \<Rightarrow> bool" where
  "serving ok space S s \<longleftrightarrow> (case s of (out, p) \<Rightarrow> ok p \<and> (\<forall>r \<in> set out. rsize r > 0) \<and>
     disjoint_regions out \<and> pool_addrs out \<inter> space p = {} \<and> pool_addrs out \<union> space p = S)"

text \<open>
  A store of regions: \<open>give\<close> adds a region disjoint from the stored addresses and answers the
  largest run of stored addresses around it.
\<close>

locale region_store =
  fixes ok :: "'p \<Rightarrow> bool" and space :: "'p \<Rightarrow> nat set" and give :: "AddressRegion \<Rightarrow> 'p \<Rightarrow> AddressRegion \<times> 'p"
  assumes give_law: "ok p \<Longrightarrow> rsize r > 0 \<Longrightarrow> addrs r \<inter> space p = {} \<Longrightarrow> give r p = (m, p') \<Longrightarrow>
      ok p' \<and> space p' = space p \<union> addrs r \<and> addrs r \<subseteq> addrs m \<and> addrs m \<subseteq> space p' \<and>
      (0 < rbegin m \<longrightarrow> rbegin m - 1 \<notin> space p') \<and> rend m \<notin> space p'"
begin

lemma give_all_space:
  assumes "ok p" "\<forall>r \<in> set rs. rsize r > 0 \<and> addrs r \<inter> space p = {}" "disjoint_regions rs"
  shows "ok (give_all give rs p) \<and> space (give_all give rs p) = space p \<union> pool_addrs rs"
  using assms
proof (induction rs arbitrary: p)
  case (Cons r rs)
  obtain m p' where g: "give r p = (m, p')" by fastforce
  have law: "ok p'" "space p' = space p \<union> addrs r" using give_law [OF _ _ _ g] Cons.prems by auto
  have "\<forall>r' \<in> set rs. rsize r' > 0 \<and> addrs r' \<inter> space p' = {}" using Cons.prems(2,3) by (auto simp: law(2))
  then have "ok (give_all give rs p') \<and> space (give_all give rs p') = space p' \<union> pool_addrs rs"
    using Cons.prems(3) law(1) by (intro Cons.IH) auto
  with law g show ?case by auto
qed simp

lemma serving_give:
  assumes "serving ok space S (out, p)" "i < length out"
  shows "serving ok space S (take i out @ drop (Suc i) out, snd (give (out ! i) p))"
proof -
  obtain m p' where g: "give (out ! i) p = (m, p')" by fastforce
  have out: "out = take i out @ out ! i # drop (Suc i) out" using assms(2) by (rule id_take_nth_drop)
  obtain as b bs where split: "out = as @ b # bs" "b = out ! i" "take i out = as" "drop (Suc i) out = bs" using out by metis
  have pre: "ok p" "rsize b > 0" "addrs b \<inter> space p = {}" using assms(1) by (auto simp: serving_def split(1))
  note law = give_law [OF pre g [folded split(2)]]
  have "pool_addrs (as @ bs) \<inter> addrs b = {}"
    using assms(1) by (auto simp: serving_def split(1) sorted_wrt_append pool_addrs_def)
  then show ?thesis using assms(1) law g
    unfolding split(3,4) by (auto simp: serving_def split(1) sorted_wrt_append)
qed

end

text \<open>
  A store one can also take from. \<open>valid\<close> is what the provider assumes of the region arithmetic
  \<open>c\<close> it is given.
\<close>

locale address_pool = region_store ok space give
  for ok :: "'p \<Rightarrow> bool" and space :: "'p \<Rightarrow> nat set" and give :: "AddressRegion \<Rightarrow> 'p \<Rightarrow> AddressRegion \<times> 'p" +
  fixes valid :: "'c \<Rightarrow> bool" and alloc :: "'c \<Rightarrow> nat \<Rightarrow> AddressRegion \<Rightarrow> 'p \<Rightarrow> AddressRegion \<times> 'p"
  assumes alloc_law: "valid c \<Longrightarrow> ok p \<Longrightarrow> 0 < n \<Longrightarrow> alloc c n w p = (r, p') \<Longrightarrow>
      is_empty r \<and> p' = p \<or>
      rsize r = n \<and> addrs r \<subseteq> space p \<inter> addrs w \<and> ok p' \<and> space p' = space p - addrs r \<and> leftmost (space p) w r"
    and canonical: "ok p \<Longrightarrow> ok p' \<Longrightarrow> space p = space p' \<Longrightarrow> p = p'"
begin

text \<open>A block given back restores the store it was taken from.\<close>

lemma take_give:
  assumes "valid c" "ok p" "0 < n" "alloc c n w p = (r, p')" "\<not> is_empty r"
  shows "snd (give r p') = p"
proof -
  have a: "rsize r = n" "addrs r \<subseteq> space p" "ok p'" "space p' = space p - addrs r"
    using alloc_law [OF assms(1-4)] assms(5) by auto
  obtain m q where g: "give r p' = (m, q)" by fastforce
  have "ok q" "space q = space p' \<union> addrs r" using give_law [OF a(3) _ _ g] a(1,4) assms(3) by auto
  then show ?thesis using canonical [of q p] assms(2) a(2,4) g by auto
qed

text \<open>
  Over any sequence of requests, blocks that are out at the same time are disjoint, and together
  with the store they are always the same addresses.
\<close>

lemma serving_step:
  assumes "valid c" "serving ok space S s"
  shows "serving ok space S (pool_serve (alloc c) give q s)"
proof (cases q)
  case (Take n w)
  obtain out p where s: "s = (out, p)" by fastforce
  obtain r p' where a: "alloc c n w p = (r, p')" by fastforce
  have ok: "ok p" and parts: "pool_addrs out \<inter> space p = {}" "pool_addrs out \<union> space p = S"
    using assms(2) by (auto simp: serving_def s)
  show ?thesis
  proof (cases "n = 0 \<or> is_empty r")
    case True
    then show ?thesis using alloc_law [OF assms(1) ok _ a] assms(2) by (auto simp: s Take a is_empty_def)
  next
    case False
    then have law: "rsize r = n" "addrs r \<subseteq> space p" "ok p'" "space p' = space p - addrs r"
      using alloc_law [OF assms(1) ok _ a] by auto
    have "\<forall>x \<in> set out. addrs r \<inter> addrs x = {}" using law(2) parts(1) by (auto simp: pool_addrs_def)
    then show ?thesis using False law parts assms(2) by (auto simp: s Take a serving_def)
  qed
next
  case (Give i)
  then show ?thesis using assms(2) by (cases s) (simp add: serving_give)
qed

lemma serving_run:
  assumes "valid c" "serving ok space S s"
  shows "serving ok space S (fold (pool_serve (alloc c) give) reqs s)"
  using assms(2) by (induction reqs arbitrary: s) (simp_all add: serving_step assms(1))

end

lemma Merge_maximal:
  assumes "pool_ok rs" "m \<in> set rs"
  shows "addrs m \<subseteq> pool_addrs rs" "rend m \<notin> pool_addrs rs" "0 < rbegin m \<Longrightarrow> rbegin m - 1 \<notin> pool_addrs rs"
proof -
  obtain pre post where rs: "rs = pre @ m # post" using assms(2) by (auto dest: split_list)
  have "\<forall>a \<in> set pre. rend a < rbegin m" "\<forall>b \<in> set post. rend m < rbegin b" using assms(1) by (simp_all add: rs)
  then show "rend m \<notin> pool_addrs rs" by (fastforce simp: rs pool_addrs_def addrs_def rend_def)
  show "addrs m \<subseteq> pool_addrs rs" by (auto simp: rs)
  show "0 < rbegin m \<Longrightarrow> rbegin m - 1 \<notin> pool_addrs rs" using before_region_free [OF assms] .
qed

interpretation pool: address_pool pool_ok pool_addrs Merge overlap_ok AllocateInRegion
proof
  fix p r m p' assume "pool_ok p" "rsize r > 0" "addrs r \<inter> pool_addrs p = {}" "Merge r p = (m, p')"
  from Merge_correct [OF this] Merge_maximal
  show "pool_ok p' \<and> pool_addrs p' = pool_addrs p \<union> addrs r \<and> addrs r \<subseteq> addrs m \<and> addrs m \<subseteq> pool_addrs p' \<and>
      (0 < rbegin m \<longrightarrow> rbegin m - 1 \<notin> pool_addrs p') \<and> rend m \<notin> pool_addrs p'" by metis
next
  fix c p n w r p' assume "overlap_ok c" "pool_ok p" "0 < n" "AllocateInRegion c n w p = (r, p')"
  then show "is_empty r \<and> p' = p \<or> rsize r = n \<and> addrs r \<subseteq> pool_addrs p \<inter> addrs w \<and> pool_ok p' \<and>
      pool_addrs p' = pool_addrs p - addrs r \<and> leftmost (pool_addrs p) w r"
    using AllocateInRegion_correct [of p n c w r p'] by (auto simp: is_empty_def empty_region_def)
qed (rule pool_unique)

subsection \<open>Properties\<close>

text \<open>
  The pool allocates first-fit and loses nothing. A request of \<open>sz > 0\<close> bytes inside \<open>within\<close>
  fails, leaving the pool as it is, exactly when no region of the pool has \<open>sz\<close> bytes in common with
  \<open>within\<close> (starting the search one element before the lower bound skips no candidate). Otherwise it
  returns \<open>sz\<close> bytes of both, the pool loses exactly these and stays ordered with no two regions
  touching.
\<close>

lemma AllocateInRegion_exact:
  assumes "pool_ok rs" "0 < sz" "overlap_ok ov" "AllocateInRegion ov sz within rs = (ret, rs')"
  shows "(is_empty ret \<longleftrightarrow> (\<forall>x \<in> set rs. card (addrs x \<inter> addrs within) < sz)) \<and>
    (is_empty ret \<longrightarrow> rs' = rs) \<and>
    (\<not> is_empty ret \<longrightarrow> rsize ret = sz \<and> addrs ret \<subseteq> pool_addrs rs \<inter> addrs within \<and>
       pool_ok rs' \<and> pool_addrs rs' = pool_addrs rs - addrs ret)"
proof -
  have "is_empty empty_region" "rsize ret = sz \<Longrightarrow> \<not> is_empty ret"
    using assms(2) by (simp_all add: is_empty_def empty_region_def)
  with AllocateInRegion_correct [OF assms] show ?thesis by (auto simp: not_le [symmetric])
qed

definition interval_overlap :: "AddressRegion \<Rightarrow> AddressRegion \<Rightarrow> AddressRegion" where
  "interval_overlap a b = region (max (rbegin a) (rbegin b)) (min (rend a) (rend b) - max (rbegin a) (rbegin b))"

lemma interval_overlap_ok: "overlap_ok interval_overlap"
  by (auto simp: overlap_ok_def interval_overlap_def addrs_def)

lemma AllocateInRegion_exact_witness:
  "\<not> is_empty (fst (AllocateInRegion interval_overlap 16 (region 24 64) [region 0 32, region 40 40])) \<and>
   pool_addrs (snd (AllocateInRegion interval_overlap 16 (region 24 64) [region 0 32, region 40 40])) =
     pool_addrs [region 0 32, region 40 40] - addrs (region 40 16)"
proof -
  have run: "AllocateInRegion interval_overlap 16 (region 24 64) [region 0 32, region 40 40] =
      (region 40 16, [region 0 32, region 56 24])"
    by code_simp
  show ?thesis
    using AllocateInRegion_exact [OF _ _ interval_overlap_ok run] by (simp add: run is_empty_def)
qed

text \<open>
  C20: Blocks come and go without corrupting the pool. Over any sequence of allocations and returns,
  the blocks handed out at the same time are pairwise disjoint, none overlaps what the pool still
  holds, and together they are always the initial addresses; and a block that \<open>Merge\<close> takes back
  right after its allocation restores the pool bit for bit.
\<close>

theorem pool_blocks_disjoint:
  assumes "overlap_ok ov" "pool_ok rs" "fold (pool_serve (AllocateInRegion ov) Merge) reqs ([], rs) = (out, rs')"
  shows "disjoint_regions out \<and> pool_addrs out \<inter> pool_addrs rs' = {} \<and> pool_addrs out \<union> pool_addrs rs' = pool_addrs rs \<and>
    pool_ok rs' \<and>
    (\<forall>n w b rs''. 0 < n \<longrightarrow> AllocateInRegion ov n w rs' = (b, rs'') \<longrightarrow> \<not> is_empty b \<longrightarrow> snd (Merge b rs'') = rs')"
proof -
  have "serving pool_ok pool_addrs (pool_addrs rs) ([], rs)" using assms(2) by (simp add: serving_def)
  from pool.serving_run [OF assms(1) this, of reqs]
  have "serving pool_ok pool_addrs (pool_addrs rs) (out, rs')" by (simp add: assms(3))
  then show ?thesis using pool.take_give [OF assms(1)] by (auto simp: serving_def)
qed

theorem pool_blocks_disjoint_witness:
  "fold (pool_serve (AllocateInRegion interval_overlap) Merge) [Take 8 (region 0 200), Take 8 (region 0 200), Give 1]
      ([], [region 64 64]) = ([region 72 8], [region 64 8, region 80 48]) \<and>
   pool_addrs [region 72 8] \<union> pool_addrs [region 64 8, region 80 48] = pool_addrs [region 64 64]"
proof -
  have run: "fold (pool_serve (AllocateInRegion interval_overlap) Merge) [Take 8 (region 0 200), Take 8 (region 0 200), Give 1]
      ([], [region 64 64]) = ([region 72 8], [region 64 8, region 80 48])" by code_simp
  show ?thesis using pool_blocks_disjoint [OF interval_overlap_ok _ run] run by simp
qed

end
