(* ===== verification/Code_Pages.thy ===== *)
theory Code_Pages
  imports Blinker_Prelude
begin

text \<open>
  Rounding to pages and the accounting of committed pages, on sets of addresses. Of the addresses
  \<open>own\<close> a code allocator owns, \<open>fr\<close> were never handed out and \<open>rd\<close> were handed out and freed;
  \<open>used_pages\<close> are the pages that hold something handed out and are not freed as a whole. The
  lemmas say how this set changes when a block is handed out, a space is added, and blocks are freed.
\<close>

definition RoundUp :: "nat \<Rightarrow> nat \<Rightarrow> nat" where "RoundUp x a = (x + a - 1) div a * a"
definition RoundDown :: "nat \<Rightarrow> nat \<Rightarrow> nat" where "RoundDown x a = x div a * a"

text \<open>The page an address lies on.\<close>

definition pstart :: "nat \<Rightarrow> nat \<Rightarrow> nat" where "pstart P x = x div P * P"

definition page :: "nat \<Rightarrow> nat \<Rightarrow> nat set" where "page P x = {pstart P x..<pstart P x + P}"

lemma div_mult_le_iff: "0 < P \<Longrightarrow> c * P \<le> y \<longleftrightarrow> c \<le> y div P" for P c y :: nat
  by (simp add: less_eq_div_iff_mult_less_eq)

lemma ceil_le_iff: "0 < P \<Longrightarrow> (b + P - 1) div P \<le> q \<longleftrightarrow> b \<le> q * P" for P b q :: nat
proof -
  assume P: "0 < P"
  have "(b + P - 1) div P \<le> q \<longleftrightarrow> (b + P - 1) div P < Suc q" by (simp add: less_Suc_eq_le)
  also have "\<dots> \<longleftrightarrow> b + P - 1 < Suc q * P" using P by (simp only: div_less_iff_less_mult)
  also have "\<dots> \<longleftrightarrow> b \<le> q * P" using P by (simp) arith
  finally show ?thesis .
qed

lemma round_iffs:
  assumes "0 < P"
  shows "RoundUp b P \<le> y \<longleftrightarrow> b \<le> pstart P y" "y < RoundUp b P \<longleftrightarrow> pstart P y < b"
    "RoundDown b P \<le> y \<longleftrightarrow> b < pstart P y + P" "y < RoundDown b P \<longleftrightarrow> pstart P y + P \<le> b"
proof -
  show u: "RoundUp b P \<le> y \<longleftrightarrow> b \<le> pstart P y"
    unfolding RoundUp_def pstart_def using div_mult_le_iff [OF assms] ceil_le_iff [OF assms] by simp
  then show "y < RoundUp b P \<longleftrightarrow> pstart P y < b" by linarith
  have "RoundDown b P \<le> y \<longleftrightarrow> b div P < Suc (y div P)"
    unfolding RoundDown_def using div_mult_le_iff [OF assms] by (simp add: less_Suc_eq_le)
  also have "\<dots> \<longleftrightarrow> b < pstart P y + P" using assms by (simp add: div_less_iff_less_mult pstart_def add.commute)
  finally show d: "RoundDown b P \<le> y \<longleftrightarrow> b < pstart P y + P" .
  then show "y < RoundDown b P \<longleftrightarrow> pstart P y + P \<le> b" by linarith
qed

lemma page_self: "0 < P \<Longrightarrow> x \<in> page P x"
  using div_mult_mod_eq [of x P] mod_less_divisor [of P x] unfolding page_def pstart_def atLeastLessThan_iff by linarith

lemma pstart_le: "pstart P x \<le> x" by (simp add: pstart_def)

lemma page_eq: "0 < P \<Longrightarrow> y \<in> page P x \<longleftrightarrow> pstart P y = pstart P x"
proof -
  assume P: "0 < P"
  have "y \<in> page P x \<longleftrightarrow> x div P \<le> y div P \<and> y div P < Suc (x div P)"
    unfolding page_def pstart_def atLeastLessThan_iff using div_mult_le_iff [OF P] 
    by (simp add: div_less_iff_less_mult P add.commute)
  also have "\<dots> \<longleftrightarrow> pstart P y = pstart P x" unfolding pstart_def using P by auto
  finally show ?thesis .
qed

text \<open>Sets of whole pages; sets that with an address hold the rest of its page.\<close>

definition page_closed :: "nat \<Rightarrow> nat set \<Rightarrow> bool" where
  "page_closed P S \<longleftrightarrow> (\<forall>x \<in> S. page P x \<subseteq> S)"

definition rest_free :: "nat \<Rightarrow> nat set \<Rightarrow> bool" where
  "rest_free P S \<longleftrightarrow> (\<forall>x \<in> S. {x..<pstart P x + P} \<subseteq> S)"

definition used_pages :: "nat \<Rightarrow> nat set \<Rightarrow> nat set \<Rightarrow> nat set \<Rightarrow> nat set" where
  "used_pages P own fr rd = {x \<in> own. page P x \<inter> (own - fr) \<noteq> {} \<and> \<not> page P x \<subseteq> rd}"

lemma pstart_page: "0 < P \<Longrightarrow> y \<in> page P x \<Longrightarrow> page P y = page P x"
  by (simp add: page_eq) (simp add: page_def)

lemma used_pages_place:
  assumes P: "0 < P" and own: "page_closed P own" and fr: "rest_free P fr" "fr \<subseteq> own" "fr \<inter> rd = {}"
    and blk: "b < e" "{b..<e} \<subseteq> fr" "P dvd b \<or> b - 1 \<notin> fr"
  shows "used_pages P own (fr - {b..<e}) rd = used_pages P own fr rd \<union> {RoundUp b P..<RoundUp e P}"
    "used_pages P own fr rd \<inter> {RoundUp b P..<RoundUp e P} = {}" "rest_free P (fr - {b..<e})"
proof -
  have whole: "page P x \<subseteq> fr" if "b \<le> pstart P x" "pstart P x < e" for x
  proof -
    have "pstart P x \<in> fr" using blk(2) that by auto
    moreover have "pstart P (pstart P x) = pstart P x" using P by (simp add: pstart_def)
    ultimately show ?thesis using fr(1) unfolding rest_free_def page_def by metis
  qed
  show "used_pages P own fr rd \<inter> {RoundUp b P..<RoundUp e P} = {}"
    using whole unfolding used_pages_def by (fastforce simp: round_iffs [OF P])
  have before: "b - 1 \<in> page P x \<and> b - 1 \<notin> fr \<and> 0 < b" if "pstart P x < b" "b < pstart P x + P" for x
  proof -
    have "\<not> P dvd b"
    proof
      assume "P dvd b"
      then obtain k where k: "b = P * k" by auto
      then have "x div P * P < k * P" "k * P < Suc (x div P) * P" using that by (simp_all add: pstart_def mult.commute)
      then show False using P by (simp only: mult_less_cancel2) linarith
    qed
    then show ?thesis using blk(3) that by (auto simp: page_def)
  qed
  show "rest_free P (fr - {b..<e})"
    unfolding rest_free_def
  proof (intro ballI subsetI)
    fix x y assume x: "x \<in> fr - {b..<e}" and y: "y \<in> {x..<pstart P x + P}"
    have run: "{x..<pstart P x + P} \<subseteq> fr" using fr(1) x by (auto simp: rest_free_def)
    have "y \<notin> {b..<e}"
    proof
      assume "y \<in> {b..<e}"
      then have "x < b" "b < pstart P x + P" using x y by auto
      then have "b - 1 \<notin> fr" "b - 1 \<in> {x..<pstart P x + P}" using before [of x] pstart_le [of P x] by auto
      then show False using run by blast
    qed
    then show "y \<in> fr - {b..<e}" using run y by blast
  qed
  have hit: "pstart P x < e \<and> b < pstart P x + P \<longleftrightarrow> page P x \<inter> {b..<e} \<noteq> {}" for x
    using blk(1) P by (auto simp: page_def)
  have "x \<in> used_pages P own (fr - {b..<e}) rd \<longleftrightarrow> x \<in> used_pages P own fr rd \<union> {RoundUp b P..<RoundUp e P}" for x
  proof (cases "page P x \<inter> {b..<e} = {}")
    case True
    then have "\<not> (b \<le> pstart P x \<and> pstart P x < e)" using hit [of x] P by auto
    with True show ?thesis using blk(2) fr(2) by (auto simp: used_pages_def round_iffs [OF P])
  next
    case False
    then have near: "pstart P x < e" "b < pstart P x + P" using hit [of x] by auto
    have not_rd: "\<not> page P x \<subseteq> rd" using False blk(2) fr(3) by blast
    have owned: "x \<in> own" 
    proof -
      obtain z where "z \<in> page P x" "z \<in> own" using False blk(2) fr(2) by blast
      then show ?thesis using own page_self [OF P, of x] pstart_page [OF P] unfolding page_closed_def by blast
    qed
    show ?thesis
    proof (cases "b \<le> pstart P x")
      case True
      then show ?thesis using False near not_rd owned blk(2) fr(2) by (auto simp: used_pages_def round_iffs [OF P])
    next
      case False
      then have "b - 1 \<in> page P x" "b - 1 \<notin> fr" using before [of x] near(2) by auto
      moreover have "b - 1 \<in> own" using own owned calculation(1) by (auto simp: page_closed_def)
      ultimately have "x \<in> used_pages P own fr rd" using owned not_rd by (auto simp: used_pages_def)
      then show ?thesis by (auto simp: used_pages_def)
    qed
  qed
  then show "used_pages P own (fr - {b..<e}) rd = used_pages P own fr rd \<union> {RoundUp b P..<RoundUp e P}"
    by blast
qed

lemma used_pages_grow:
  assumes "0 < P" "page_closed P W" "page_closed P own" "rest_free P fr" "W \<inter> own = {}" "fr \<subseteq> own" "rd \<subseteq> own"
  shows "used_pages P (own \<union> W) (fr \<union> W) rd = used_pages P own fr rd" "rest_free P (fr \<union> W)" "page_closed P (own \<union> W)"
proof -
  show "page_closed P (own \<union> W)" using assms(2,3) by (auto simp: page_closed_def)
  have "{x..<pstart P x + P} \<subseteq> page P x" for x using pstart_le [of P x] by (auto simp: page_def)
  then show "rest_free P (fr \<union> W)" using assms(2,4) unfolding rest_free_def page_closed_def by blast
  have "page P x \<inter> (own - fr) = {}" if "x \<in> W" for x using assms(2,5) that by (auto simp: page_closed_def)
  moreover have "(own \<union> W) - (fr \<union> W) = own - fr" using assms(5,6) by blast
  ultimately show "used_pages P (own \<union> W) (fr \<union> W) rd = used_pages P own fr rd"
    by (auto simp: used_pages_def)
qed

lemma used_pages_free:
  assumes "0 < P" "page_closed P own" "D \<subseteq> own - fr"
  shows "used_pages P own fr (rd \<union> D) = used_pages P own fr rd - {x. page P x \<subseteq> rd \<union> D \<and> \<not> page P x \<subseteq> rd}"
  by (auto simp: used_pages_def)

lemma discard_range:
  assumes P: "0 < P" and r: "b < e" "{b..<e} \<subseteq> {mb..<me}" "{b..<e} \<inter> rd = {}"
    and m: "{mb..<me} \<subseteq> rd \<union> {b..<e}" "0 < mb \<Longrightarrow> mb - 1 \<notin> rd \<union> {b..<e}" "me \<notin> rd \<union> {b..<e}"
  shows "{max (RoundUp mb P) (RoundDown b P)..<min (RoundDown me P) (RoundUp e P)} =
    {x. page P x \<subseteq> rd \<union> {b..<e} \<and> \<not> page P x \<subseteq> rd}"
proof -
  have bounds: "mb \<le> b" "e \<le> me" using r(1,2) by auto
  have "page P x \<subseteq> rd \<union> {b..<e} \<and> \<not> page P x \<subseteq> rd \<longleftrightarrow>
      mb \<le> pstart P x \<and> b < pstart P x + P \<and> pstart P x + P \<le> me \<and> pstart P x < e" (is "?l \<longleftrightarrow> ?r") for x
  proof
    assume l: ?l
    then obtain z where "z \<in> page P x" "z \<in> {b..<e}" by blast
    then have z: "z \<in> page P x" "b \<le> z" "z < e" by simp_all
    then have near: "pstart P x < e" "b < pstart P x + P" by (auto simp: page_def)
    have "mb \<le> pstart P x"
    proof (rule ccontr)
      assume "\<not> mb \<le> pstart P x"
      then have "mb - 1 \<in> page P x" "0 < mb" using z bounds by (auto simp: page_def)
      then show False using l m(2) by blast
    qed
    moreover have "pstart P x + P \<le> me"
    proof (rule ccontr)
      assume "\<not> pstart P x + P \<le> me"
      then have "me \<in> page P x" using near bounds by (auto simp: page_def)
      then show False using l m(3) by blast
    qed
    ultimately show ?r using near by simp
  next
    assume right: ?r
    then have "page P x \<subseteq> {mb..<me}" by (auto simp: page_def)
    moreover have "max b (pstart P x) \<in> page P x" "max b (pstart P x) \<in> {b..<e}" using right r(1) P by (auto simp: page_def)
    ultimately show ?l using m(1) r(3) by blast
  qed
  then show ?thesis by (auto simp: round_iffs [OF P])
qed

end
