(* ===== verification/Code_Allocator.thy ===== *)
theory Code_Allocator
  imports Code_Pool Code_Pages Write_Protect
begin

text \<open>
  The WebAssembly code allocator of \<^verbatim>\<open>v8/src/wasm/wasm-code-manager.cc\<close>: reservation sizes,
  \<^verbatim>\<open>WasmCodeAllocator\<close> (\<open>Init\<close>, \<open>AllocateForCodeInRegion\<close>, \<open>FreeCode\<close>), the part of
  \<^verbatim>\<open>NativeModule::AddCodeSpaceLocked\<close> that allocates, and \<^verbatim>\<open>WasmCodeManager\<close> (\<open>Commit\<close>, \<open>Decommit\<close>,
  \<open>AssignRange\<close>, \<open>TryAllocate\<close>, \<open>FreeNativeModule\<close>, \<open>LookupNativeModule\<close>) in the iOS configuration.

  Pages and blocks are sets of addresses (\<open>Code_Pages\<close>), the pools are those of \<open>Code_Pool\<close>, the
  writable mirrors those of \<open>Write_Protect\<close>. Sizes of jump tables (\<^verbatim>\<open>JumpTableAssembler\<close>), page sizes,
  flags, and the answers of the page allocator are the fields of \<open>code_env\<close>. A fatal error of the
  source ends the process: it is the left side of a sum. \<open>AllocateForCodeInRegion\<close> and
  \<open>AddCodeSpaceLocked\<close> call each other; the first argument bounds the nesting, and three levels are
  enough (\<open>allocation_returns\<close>).
\<close>

subsection \<open>Environment and state\<close>

datatype fatal = FatalProcessOutOfMemory string | CheckFailed | TooDeep

record code_env =
  GetOverlap :: "AddressRegion \<Rightarrow> AddressRegion \<Rightarrow> AddressRegion"
  kCodeAlignment :: nat
  CommitPageSize :: nat
  AllocatePageSize :: nat
  wasm_max_code_space :: nat
  kDefaultMaxWasmCodeSpace :: nat
  SizeForNumberOfSlots :: "nat \<Rightarrow> nat"
  SizeForNumberOfFarJumpSlots :: "nat \<Rightarrow> nat"
  SizeForNumberOfLazyFunctions :: "nat \<Rightarrow> nat"
  virtual_memory :: "nat \<Rightarrow> nat \<Rightarrow> nat \<Rightarrow> nat option"
  recommit_succeeds :: "nat \<Rightarrow> bool"
  mirror_answers :: vm_answers

datatype page_call = RecommitPages AddressRegion | DiscardSystemPages AddressRegion

record CodeSpaceData =
  csd_region :: AddressRegion
  csd_jump_table :: "AddressRegion option"
  csd_far_jump_table :: "AddressRegion option"

record code_state =
  owned_code_space :: "AddressRegion list"
  free_code_space :: pool
  freed_code_space :: pool
  committed_code_space :: nat
  generated_code_size :: nat
  freed_code_size :: nat
  code_space_data :: "CodeSpaceData list"
  main_jump_table :: "AddressRegion option"
  main_far_jump_table :: "AddressRegion option"
  lazy_compile_table :: "AddressRegion option"
  max_committed_code_space :: nat
  total_committed_code_space :: nat
  next_code_space_hint :: nat
  lookup_map :: "(nat \<times> nat \<times> nat) list"
  reservations :: nat
  page_calls :: "page_call list"
  mirror_state :: wx

type_synonym 'a outcome = "fatal + 'a \<times> code_state"

definition and_then :: "'a outcome \<Rightarrow> ('a \<Rightarrow> code_state \<Rightarrow> 'b outcome) \<Rightarrow> 'b outcome" where
  "and_then r f = (case r of Inl e \<Rightarrow> Inl e | Inr (a, s) \<Rightarrow> f a s)"

lemma and_then_simps [simp]: "and_then (Inl e) f = Inl e" "and_then (Inr (a, s)) f = f a s"
  by (simp_all add: and_then_def)

lemma and_then_Inr:
  assumes "and_then r f = Inr (b, t)"
  obtains a s where "r = Inr (a, s)" "f a s = Inr (b, t)"
  using assms by (auto simp: and_then_def split: sum.splits)

subsection \<open>Reservation sizes\<close>

definition OverheadPerCodeSpace :: "code_env \<Rightarrow> nat \<Rightarrow> nat" where
  "OverheadPerCodeSpace E num_declared_functions =
     RoundUp (SizeForNumberOfSlots E num_declared_functions) (kCodeAlignment E) +
     RoundUp (SizeForNumberOfFarJumpSlots E num_declared_functions) (kCodeAlignment E)"

definition ReservationSizeForWasmCode :: "code_env \<Rightarrow> nat \<Rightarrow> nat \<Rightarrow> nat \<Rightarrow> fatal + nat" where
  "ReservationSizeForWasmCode E needed_size num_declared_functions total_reserved_so_far =
     (if needed_size = 0 then Inr 0
      else
        (let overhead = OverheadPerCodeSpace E num_declared_functions;
             minimum_size = 2 * overhead;
             suggested_size = max (max (RoundUp needed_size (kCodeAlignment E) + overhead) minimum_size)
                                  (total_reserved_so_far div 4);
             max_code_space_size = wasm_max_code_space E
         in if minimum_size > max_code_space_size
            then Inl (FatalProcessOutOfMemory ''Exceeding maximum wasm code space size'')
            else Inr (min max_code_space_size suggested_size)))"

definition ReservationSizeForWrappers :: "code_env \<Rightarrow> nat \<Rightarrow> nat \<Rightarrow> fatal + nat" where
  "ReservationSizeForWrappers E needed_size total_reserved_so_far =
     (let needed_size = RoundUp needed_size (kCodeAlignment E);
          suggested_size = max needed_size (total_reserved_so_far div 4);
          max_code_space_size = wasm_max_code_space E
      in if needed_size > max_code_space_size
         then Inl (FatalProcessOutOfMemory ''Exceeding maximum wasm code space size'')
         else Inr (min max_code_space_size suggested_size))"

subsection \<open>The code manager\<close>

definition Commit :: "code_env \<Rightarrow> AddressRegion \<Rightarrow> code_state \<Rightarrow> unit outcome" where
  "Commit E r s =
     (if rsize r > max_committed_code_space s - total_committed_code_space s
      then Inl (FatalProcessOutOfMemory ''Exceeding maximum wasm committed code space'')
      else
        (let ok = recommit_succeeds E (length (page_calls s));
             s = s\<lparr>total_committed_code_space := total_committed_code_space s + rsize r,
                   page_calls := page_calls s @ [RecommitPages r]\<rparr>
         in if ok then Inr ((), s) else Inl (FatalProcessOutOfMemory ''Commit wasm code space'')))"

definition Decommit :: "AddressRegion \<Rightarrow> code_state \<Rightarrow> code_state" where
  "Decommit r s = s\<lparr>total_committed_code_space := total_committed_code_space s - rsize r,
                    page_calls := page_calls s @ [DiscardSystemPages r]\<rparr>"

text \<open>
  \<^verbatim>\<open>lookup_map_\<close> is a \<^verbatim>\<open>std::map\<close> from the start of a code space to its end and module: entries in
  order of their start. \<^verbatim>\<open>insert\<close> leaves an existing entry as it is.
\<close>

definition AssignRange :: "AddressRegion \<Rightarrow> nat \<Rightarrow> code_state \<Rightarrow> code_state" where
  "AssignRange r native_module s =
     (if rbegin r \<in> fst ` set (lookup_map s) then s
      else s\<lparr>lookup_map := insort_key fst (rbegin r, rend r, native_module) (lookup_map s)\<rparr>)"

definition TryAllocate :: "code_env \<Rightarrow> nat \<Rightarrow> code_state \<Rightarrow> AddressRegion option \<times> code_state" where
  "TryAllocate E sz s =
     (let sz = RoundUp sz (AllocatePageSize E);
          hint = next_code_space_hint s;
          s = s\<lparr>next_code_space_hint := hint + sz, reservations := Suc (reservations s)\<rparr>
      in case virtual_memory E (reservations s - 1) hint sz of
           None \<Rightarrow> (None, s\<lparr>next_code_space_hint := hint\<rparr>)
         | Some a \<Rightarrow>
             (let s = (if a \<noteq> hint then s\<lparr>next_code_space_hint := a + sz\<rparr> else s);
                  (mirrored, w) = RegisterWasmCodeRange (mirror_answers E) (of_nat a) (of_nat sz) (mirror_state s);
                  s = s\<lparr>mirror_state := w\<rparr>
              in (Some (region a sz),
                  if mirrored then s\<lparr>page_calls := page_calls s @ [DiscardSystemPages (region a sz)]\<rparr> else s)))"

definition release_space :: "AddressRegion \<Rightarrow> code_state \<Rightarrow> code_state" where
  "release_space r s =
     s\<lparr>lookup_map := filter (\<lambda>(start, _). start \<noteq> rbegin r) (lookup_map s),
       mirror_state := UnregisterWasmCodeRange (of_nat (rbegin r)) (mirror_state s)\<rparr>"

definition FreeNativeModule :: "AddressRegion list \<Rightarrow> nat \<Rightarrow> code_state \<Rightarrow> code_state" where
  "FreeNativeModule owned committed_size s =
     (let s = fold release_space owned s
      in s\<lparr>total_committed_code_space := total_committed_code_space s - committed_size\<rparr>)"

text \<open>
  \<^verbatim>\<open>upper_bound(pc)\<close> and one step back is the last entry whose start is not above \<open>pc\<close>.
\<close>

definition LookupNativeModule :: "code_state \<Rightarrow> nat \<Rightarrow> nat option" where
  "LookupNativeModule s pc =
     (case takeWhile (\<lambda>(start, _). start \<le> pc) (lookup_map s) of
        [] \<Rightarrow> None
      | es \<Rightarrow> (case last es of (region_start, region_end, candidate) \<Rightarrow>
          if region_start \<le> pc \<and> pc < region_end then Some candidate else None))"

subsection \<open>The allocator\<close>

definition Init :: "AddressRegion \<Rightarrow> code_state \<Rightarrow> code_state" where
  "Init code_space s =
     (if rsize code_space > 0
      then s\<lparr>free_code_space := snd (Merge code_space (free_code_space s)),
             owned_code_space := owned_code_space s @ [code_space]\<rparr>
      else s)"

text \<open>The tables of a code space that are reachable from the whole of a region.\<close>

definition jump_table_usable :: "code_env \<Rightarrow> AddressRegion \<Rightarrow> AddressRegion \<Rightarrow> bool" where
  "jump_table_usable E code_region table \<longleftrightarrow>
     max (if rend code_region > rbegin table then rend code_region - rbegin table else 0)
         (if rend table > rbegin code_region then rend table - rbegin code_region else 0)
       \<le> kDefaultMaxWasmCodeSpace E"

fun find_jump_tables :: "code_env \<Rightarrow> AddressRegion \<Rightarrow> CodeSpaceData list \<Rightarrow> (nat \<times> nat) option" where
  "find_jump_tables E r [] = None"
| "find_jump_tables E r (d # ds) =
     (case csd_far_jump_table d of
        None \<Rightarrow> find_jump_tables E r ds
      | Some far \<Rightarrow>
          if \<not> jump_table_usable E r far \<or>
             (case csd_jump_table d of None \<Rightarrow> False | Some t \<Rightarrow> \<not> jump_table_usable E r t)
          then find_jump_tables E r ds
          else Some (case csd_jump_table d of None \<Rightarrow> 0 | Some t \<Rightarrow> rbegin t, rbegin far))"

definition FindJumpTablesForRegionLocked :: "code_env \<Rightarrow> AddressRegion \<Rightarrow> code_state \<Rightarrow> (nat \<times> nat) option" where
  "FindJumpTablesForRegionLocked E r s = find_jump_tables E r (code_space_data s)"

type_synonym allocation = "nat \<Rightarrow> AddressRegion \<Rightarrow> code_state \<Rightarrow> AddressRegion outcome"

definition table_size :: "bool \<Rightarrow> nat \<Rightarrow> AddressRegion option \<Rightarrow> nat" where
  "table_size is_first n main = (if is_first then n else case main of Some t \<Rightarrow> rsize t | None \<Rightarrow> 0)"

definition create_table :: "allocation \<Rightarrow> nat \<Rightarrow> AddressRegion \<Rightarrow> code_state \<Rightarrow> AddressRegion option outcome" where
  "create_table alloc sz r s =
     and_then (alloc sz r s) (\<lambda>t s. if rbegin r \<le> rbegin t \<and> rbegin t < rend r then Inr (Some t, s) else Inl CheckFailed)"

definition InitializeJumpTableForLazyCompilation ::
  "code_env \<Rightarrow> allocation \<Rightarrow> nat \<Rightarrow> code_state \<Rightarrow> unit outcome" where
  "InitializeJumpTableForLazyCompilation E alloc num_wasm_functions s =
     (if num_wasm_functions = 0 then Inr ((), s)
      else and_then (alloc (SizeForNumberOfLazyFunctions E num_wasm_functions) kUnrestrictedRegion s)
        (\<lambda>t s. if length (code_space_data s) = 1 then Inr ((), s\<lparr>lazy_compile_table := Some t\<rparr>) else Inl CheckFailed))"

definition AddCodeSpaceLocked ::
  "code_env \<Rightarrow> allocation \<Rightarrow> nat \<Rightarrow> AddressRegion \<Rightarrow> code_state \<Rightarrow> unit outcome" where
  "AddCodeSpaceLocked E alloc num_wasm_functions r s =
     (let is_first = (code_space_data s = []);
          needs_far_jump_table = (FindJumpTablesForRegionLocked E r s = None);
          needs_jump_table = (num_wasm_functions > 0 \<and> needs_far_jump_table)
      in and_then
           (if needs_jump_table
            then create_table alloc (table_size is_first (SizeForNumberOfSlots E num_wasm_functions) (main_jump_table s)) r s
            else Inr (None, s))
           (\<lambda>jump_table s.
         and_then
           (if needs_far_jump_table
            then create_table alloc (table_size is_first (SizeForNumberOfFarJumpSlots E num_wasm_functions) (main_far_jump_table s)) r s
            else Inr (None, s))
           (\<lambda>far_jump_table s.
         let s = (if is_first then s\<lparr>main_jump_table := jump_table, main_far_jump_table := far_jump_table\<rparr> else s);
             s = s\<lparr>code_space_data := code_space_data s @
                   [\<lparr>csd_region = r, csd_jump_table = jump_table, csd_far_jump_table = far_jump_table\<rparr>]\<rparr>
         in if is_first then InitializeJumpTableForLazyCompilation E alloc num_wasm_functions s else Inr ((), s))))"

text \<open>A new code space for \<open>sz\<close> bytes; \<open>native_module\<close> is \<open>None\<close> for wrapper code.\<close>

definition grow_code_space ::
  "code_env \<Rightarrow> allocation \<Rightarrow> (nat \<times> nat) option \<Rightarrow> nat \<Rightarrow> code_state \<Rightarrow> AddressRegion outcome" where
  "grow_code_space E alloc native_module sz s =
     (let total_reserved = sum_list (map rsize (owned_code_space s)) in
      case (case native_module of
              Some (_, num_declared_functions) \<Rightarrow> ReservationSizeForWasmCode E sz num_declared_functions total_reserved
            | None \<Rightarrow> ReservationSizeForWrappers E sz total_reserved) of
        Inl e \<Rightarrow> Inl e
      | Inr reserve_size \<Rightarrow>
          if reserve_size < sz then Inl (FatalProcessOutOfMemory ''Grow wasm code space'')
          else
            (case TryAllocate E reserve_size s of
               (None, _) \<Rightarrow> Inl (FatalProcessOutOfMemory ''Grow wasm code space'')
             | (Some new_region, s) \<Rightarrow>
                 (let s = Init new_region s in
                  and_then
                    (case native_module of
                       None \<Rightarrow> Inr ((), s)
                     | Some (m, n) \<Rightarrow> AddCodeSpaceLocked E alloc n new_region (AssignRange new_region m s))
                    (\<lambda>_ s. let (code_space, p) = Allocate (GetOverlap E) sz (free_code_space s) in
                       if is_empty code_space then Inl CheckFailed
                       else Inr (code_space, s\<lparr>free_code_space := p\<rparr>)))))"

definition commit_block :: "code_env \<Rightarrow> AddressRegion \<Rightarrow> code_state \<Rightarrow> AddressRegion outcome" where
  "commit_block E code_space s =
     (let commit_start = RoundUp (rbegin code_space) (CommitPageSize E);
          commit_end = RoundUp (rend code_space) (CommitPageSize E)
      in and_then
           (if commit_start < commit_end
            then and_then (Commit E (region commit_start (commit_end - commit_start)) s)
                   (\<lambda>_ s. Inr ((), s\<lparr>committed_code_space := committed_code_space s + (commit_end - commit_start)\<rparr>))
            else Inr ((), s))
           (\<lambda>_ s. Inr (code_space, s\<lparr>generated_code_size := generated_code_size s + rsize code_space\<rparr>)))"

definition allocate_body ::
  "code_env \<Rightarrow> allocation \<Rightarrow> (nat \<times> nat) option \<Rightarrow> allocation" where
  "allocate_body E alloc native_module sz r s =
     (let sz = RoundUp sz (kCodeAlignment E);
          (code_space, p) = AllocateInRegion (GetOverlap E) sz r (free_code_space s)
      in and_then
           (if is_empty code_space
            then (if r \<noteq> kUnrestrictedRegion then Inl CheckFailed else grow_code_space E alloc native_module sz s)
            else Inr (code_space, s\<lparr>free_code_space := p\<rparr>))
           (commit_block E))"

primrec AllocateForCodeInRegion :: "nat \<Rightarrow> code_env \<Rightarrow> (nat \<times> nat) option \<Rightarrow> allocation" where
  "AllocateForCodeInRegion 0 E native_module sz r s = Inl TooDeep"
| "AllocateForCodeInRegion (Suc d) E native_module sz r s =
     allocate_body E (AllocateForCodeInRegion d E native_module) native_module sz r s"

definition AllocateForCode :: "code_env \<Rightarrow> nat \<times> nat \<Rightarrow> nat \<Rightarrow> code_state \<Rightarrow> AddressRegion outcome" where
  "AllocateForCode E native_module sz s = AllocateForCodeInRegion 3 E (Some native_module) sz kUnrestrictedRegion s"

definition AllocateForWrapper :: "code_env \<Rightarrow> nat \<Rightarrow> code_state \<Rightarrow> AddressRegion outcome" where
  "AllocateForWrapper E sz s = AllocateForCodeInRegion 3 E None sz kUnrestrictedRegion s"

text \<open>The loop of \<open>FreeCode\<close> over the freed regions: the freed space and what to decommit.\<close>

definition discard_region :: "nat \<Rightarrow> AddressRegion \<Rightarrow> AddressRegion \<Rightarrow> AddressRegion" where
  "discard_region P merged r =
     (let discard_start = max (RoundUp (rbegin merged) P) (RoundDown (rbegin r) P);
          discard_end = min (RoundDown (rend merged) P) (RoundUp (rend r) P)
      in region discard_start (discard_end - discard_start))"

definition free_step :: "nat \<Rightarrow> AddressRegion \<Rightarrow> pool \<times> pool \<Rightarrow> pool \<times> pool" where
  "free_step P r = (\<lambda>(freed, to_decommit).
     let (merged_region, freed) = Merge r freed; d = discard_region P merged_region r
     in (freed, if is_empty d then to_decommit else snd (Merge d to_decommit)))"

definition decommit_step :: "AddressRegion \<Rightarrow> code_state \<Rightarrow> code_state" where
  "decommit_step r s = Decommit r (s\<lparr>committed_code_space := committed_code_space s - rsize r\<rparr>)"

definition FreeCode :: "code_env \<Rightarrow> AddressRegion list \<Rightarrow> code_state \<Rightarrow> code_state" where
  "FreeCode E codes s =
     (let freed_regions = fold (\<lambda>c. snd \<circ> Merge c) codes [];
          s = s\<lparr>freed_code_size := freed_code_size s + sum_list (map rsize codes)\<rparr>;
          (freed, regions_to_decommit) = fold (free_step (CommitPageSize E)) freed_regions (freed_code_space s, []);
          s = s\<lparr>freed_code_space := freed\<rparr>
      in fold decommit_step regions_to_decommit s)"

subsection \<open>The invariant\<close>

text \<open>
  The addresses the allocator owns, has never handed out, and has taken back; live code is the rest.
  The pages committed are those of the calls made so far.
\<close>

definition own :: "code_state \<Rightarrow> nat set" where "own s = pool_addrs (owned_code_space s)"
definition never_used :: "code_state \<Rightarrow> nat set" where "never_used s = pool_addrs (free_code_space s)"
definition freed :: "code_state \<Rightarrow> nat set" where "freed s = pool_addrs (freed_code_space s)"
definition live :: "code_state \<Rightarrow> nat set" where "live s = own s - never_used s - freed s"

fun apply_call :: "page_call \<Rightarrow> nat set \<Rightarrow> nat set" where
  "apply_call (RecommitPages r) S = S \<union> addrs r"
| "apply_call (DiscardSystemPages r) S = S - addrs r"

definition committed :: "code_state \<Rightarrow> nat set" where
  "committed s = fold apply_call (page_calls s) {}"

lemma space_updates [simp]:
  "own (s\<lparr>free_code_space := p\<rparr>) = own s" "freed (s\<lparr>free_code_space := p\<rparr>) = freed s"
  "never_used (s\<lparr>free_code_space := p\<rparr>) = pool_addrs p"
  "never_used (s\<lparr>freed_code_space := p\<rparr>) = never_used s" "own (s\<lparr>freed_code_space := p\<rparr>) = own s"
  "freed (s\<lparr>freed_code_space := p\<rparr>) = pool_addrs p"
  by (simp_all add: own_def never_used_def freed_def)

text \<open>
  What is assumed of the page allocator: reservations are page-aligned, within the address space and
  disjoint from each other; page sizes and alignments are positive and divide each other.
\<close>

definition env_ok :: "code_env \<Rightarrow> bool" where
  "env_ok E \<longleftrightarrow>
     overlap_ok (GetOverlap E) \<and> 0 < kCodeAlignment E \<and> 0 < CommitPageSize E \<and> 0 < AllocatePageSize E \<and>
     CommitPageSize E dvd AllocatePageSize E \<and>
     (\<forall>i h n a. virtual_memory E i h n = Some a \<longrightarrow> 0 < a \<and> AllocatePageSize E dvd a \<and> a + n \<le> size_max) \<and>
     (\<forall>i j h h' n n' a a'. i < j \<longrightarrow> virtual_memory E i h n = Some a \<longrightarrow> virtual_memory E j h' n' = Some a' \<longrightarrow>
        {a..<a + n} \<inter> {a'..<a' + n'} = {})"

definition alloc_inv :: "code_env \<Rightarrow> code_state \<Rightarrow> bool" where
  "alloc_inv E s \<longleftrightarrow>
     pool_ok (free_code_space s) \<and> pool_ok (freed_code_space s) \<and>
     never_used s \<subseteq> own s \<and> freed s \<subseteq> own s \<and> never_used s \<inter> freed s = {} \<and>
     page_closed (CommitPageSize E) (own s) \<and> rest_free (CommitPageSize E) (never_used s) \<and>
     (\<forall>r \<in> set (owned_code_space s). \<exists>i < reservations s. \<exists>h. virtual_memory E i h (rsize r) = Some (rbegin r)) \<and>
     committed s = used_pages (CommitPageSize E) (own s) (never_used s) (freed s) \<and>
     committed_code_space s = card (committed s) \<and>
     committed_code_space s \<le> total_committed_code_space s \<and> total_committed_code_space s \<le> max_committed_code_space s"

definition extends :: "code_env \<Rightarrow> code_state \<Rightarrow> code_state \<Rightarrow> bool" where
  "extends E s s' \<longleftrightarrow> alloc_inv E s' \<and> own s \<subseteq> own s' \<and> freed s' = freed s \<and> live s \<subseteq> live s'"

lemma extends_refl: "alloc_inv E s \<Longrightarrow> extends E s s"
  by (simp add: extends_def)

lemma extends_trans: "extends E s s' \<Longrightarrow> extends E s' s'' \<Longrightarrow> extends E s s''"
  by (auto simp: extends_def)

lemma finite_pool_addrs [simp]: "finite (pool_addrs rs)"
  by (simp add: pool_addrs_def addrs_def)

lemma finite_committed [simp]: "finite (committed s)"
proof -
  have "finite S \<Longrightarrow> finite (fold apply_call cs S)" for cs S
  proof (induction cs arbitrary: S)
    case (Cons c cs)
    then show ?case by (cases c) (simp_all add: addrs_def)
  qed simp
  then show ?thesis by (simp add: committed_def)
qed

lemma used_pages_subset: "used_pages P o' f r \<subseteq> o'"
  by (auto simp: used_pages_def)

text \<open>Handing out a block of the pool and committing its pages.\<close>

lemma commit_block_effect:
  assumes "commit_block E b s = Inr (b', s')" "total_committed_code_space s \<le> max_committed_code_space s"
  defines "cs \<equiv> RoundUp (rbegin b) (CommitPageSize E)" and "ce \<equiv> RoundUp (rend b) (CommitPageSize E)"
  shows "b' = b" "committed s' = committed s \<union> {cs..<ce}" "committed_code_space s' = committed_code_space s + (ce - cs)"
    "total_committed_code_space s' = total_committed_code_space s + (ce - cs)" "total_committed_code_space s' \<le> max_committed_code_space s'"
    "owned_code_space s' = owned_code_space s" "free_code_space s' = free_code_space s"
    "freed_code_space s' = freed_code_space s" "reservations s' = reservations s" "code_space_data s' = code_space_data s"
  using assms by (auto simp: commit_block_def Commit_def Let_def committed_def cs_def ce_def addrs_def and_then_def
      split: if_splits)

lemma block_placed:
  assumes E: "env_ok E" and inv: "alloc_inv E s"
    and take: "AllocateInRegion (GetOverlap E) n w (free_code_space s) = (b, p)" "0 < n" "\<not> is_empty b"
    and w: "CommitPageSize E dvd rbegin w"
    and commit: "commit_block E b (s\<lparr>free_code_space := p\<rparr>) = Inr (b', s')"
  shows "extends E s s' \<and> b' = b \<and> rsize b = n \<and> addrs b \<subseteq> live s' - live s \<and> addrs b \<subseteq> addrs w"
proof -
  let ?P = "CommitPageSize E"
  have P: "0 < ?P" and ov: "overlap_ok (GetOverlap E)" using E by (simp_all add: env_ok_def)
  have pool: "pool_ok (free_code_space s)" using inv by (simp add: alloc_inv_def)
  from pool.alloc_law [OF ov pool take(2,1)] take(3)
  have b: "rsize b = n" "addrs b \<subseteq> never_used s" "addrs b \<subseteq> addrs w" "pool_ok p" "pool_addrs p = never_used s - addrs b"
    "leftmost (never_used s) w b" by (auto simp: never_used_def)
  define cs ce where "cs = RoundUp (rbegin b) ?P" and "ce = RoundUp (rend b) ?P"
  have addrs_b: "addrs b = {rbegin b..<rend b}" "rbegin b < rend b" using b(1) take(2) by (simp_all add: addrs_def rend_def)
  have start: "?P dvd rbegin b \<or> rbegin b - 1 \<notin> never_used s" using b(6) w by (auto simp: leftmost_def)
  have spaces: "page_closed ?P (own s)" "rest_free ?P (never_used s)" "never_used s \<subseteq> own s" "never_used s \<inter> freed s = {}"
    "committed s = used_pages ?P (own s) (never_used s) (freed s)" "freed s \<subseteq> own s"
    using inv by (simp_all add: alloc_inv_def)
  have "{rbegin b..<rend b} \<subseteq> never_used s" using b(2) addrs_b by simp
  note placed = used_pages_place [OF P spaces(1-4) addrs_b(2) this start]
  have total: "total_committed_code_space (s\<lparr>free_code_space := p\<rparr>) \<le> max_committed_code_space (s\<lparr>free_code_space := p\<rparr>)"
    using inv by (simp add: alloc_inv_def)
  note eff = commit_block_effect [OF commit total, folded cs_def ce_def]
  have sp: "own s' = own s" "never_used s' = never_used s - addrs b" "freed s' = freed s"
    using eff(6-8) b(5) by (simp_all add: own_def never_used_def freed_def)
  have "committed (s\<lparr>free_code_space := p\<rparr>) = committed s" by (simp add: committed_def)
  then have comm: "committed s' = committed s \<union> {cs..<ce}" using eff(2) by simp
  have "committed s \<inter> {cs..<ce} = {}" using placed(2) unfolding spaces(5) cs_def ce_def .
  then have "card (committed s') = card (committed s) + (ce - cs)"
    unfolding comm by (simp add: card_Un_disjoint)
  then have "alloc_inv E s'"
    using inv eff b(4) placed(1,3) comm spaces(3)
    unfolding alloc_inv_def sp addrs_b(1) cs_def ce_def by auto
  moreover have "live s' = live s \<union> addrs b" using sp b(2) spaces(3,4) by (auto simp: live_def)
  moreover have "addrs b \<inter> live s = {}" using b(2) by (auto simp: live_def)
  ultimately show ?thesis using eff(1) b(1,3) sp by (auto simp: extends_def)
qed

text \<open>A new code space is disjoint from those the allocator has.\<close>

lemma RoundUp_ge: "0 < a \<Longrightarrow> n \<le> RoundUp n a"
  using round_iffs(1) [of a n "RoundUp n a"] pstart_le [of a "RoundUp n a"] by simp

lemma RoundUp_dvd: "a dvd RoundUp n a"
  by (simp add: RoundUp_def)

lemma RoundUp_pos [simp]: "0 < a \<Longrightarrow> 0 < RoundUp n a \<longleftrightarrow> 0 < n"
proof -
  assume "0 < a"
  then have "n \<le> RoundUp n a" "RoundUp 0 a = 0" using RoundUp_ge by (simp_all add: RoundUp_def)
  then show ?thesis by (cases "n = 0") simp_all
qed

lemma page_closed_region:
  assumes "0 < P" "P dvd rbegin r" "P dvd rsize r"
  shows "page_closed P (addrs r)"
proof -
  obtain j k where r: "rbegin r = j * P" "rend r = k * P"
    using assms(2,3) by (auto simp: rend_def elim!: dvdE) (metis add_mult_distrib mult.commute)
  have "j * P \<le> x \<longleftrightarrow> j * P \<le> pstart P x" "x < k * P \<longleftrightarrow> pstart P x + P \<le> k * P" for x
  proof -
    show "j * P \<le> x \<longleftrightarrow> j * P \<le> pstart P x"
      using div_mult_le_iff [OF assms(1)] assms(1) by (simp add: pstart_def)
    have "x < k * P \<longleftrightarrow> Suc (x div P) \<le> k" using assms(1) by (simp add: less_mult_imp_div_less div_less_iff_less_mult Suc_le_eq)
    also have "\<dots> \<longleftrightarrow> Suc (x div P) * P \<le> k * P" using assms(1) by (simp only: mult_le_cancel2) simp
    finally show "x < k * P \<longleftrightarrow> pstart P x + P \<le> k * P" by (simp add: pstart_def add.commute)
  qed
  then show ?thesis unfolding page_closed_def addrs_def r page_def by auto
qed

lemma TryAllocate_effect:
  assumes "TryAllocate E n s = (Some r, s')"
  shows "virtual_memory E (reservations s) (next_code_space_hint s) (rsize r) = Some (rbegin r)"
    "rsize r = RoundUp n (AllocatePageSize E)" "reservations s' = Suc (reservations s)"
    "owned_code_space s' = owned_code_space s" "free_code_space s' = free_code_space s" "freed_code_space s' = freed_code_space s"
    "committed_code_space s' = committed_code_space s" "total_committed_code_space s' = total_committed_code_space s"
    "max_committed_code_space s' = max_committed_code_space s" "code_space_data s' = code_space_data s"
    "main_jump_table s' = main_jump_table s" "main_far_jump_table s' = main_far_jump_table s" "lookup_map s' = lookup_map s"
    "committed s' = committed s \<or> committed s' = committed s - addrs r"
  using assms by (auto simp: TryAllocate_def Let_def committed_def split: option.splits prod.splits if_splits)

lemma new_space_disjoint:
  assumes E: "env_ok E" and inv: "alloc_inv E s" and t: "TryAllocate E n s = (Some r, s')"
  shows "addrs r \<inter> own s = {}"
proof -
  have "addrs r \<inter> addrs x = {}" if "x \<in> set (owned_code_space s)" for x
    using that inv E TryAllocate_effect(1) [OF t] unfolding alloc_inv_def env_ok_def addrs_def rend_def by (metis inf_commute)
  then show ?thesis by (auto simp: own_def pool_addrs_def)
qed

lemma space_added:
  assumes E: "env_ok E" and inv: "alloc_inv E s" and n: "0 < n" and t: "TryAllocate E n s = (Some r, s')"
  shows "extends E s (Init r s') \<and> CommitPageSize E dvd rbegin r"
proof -
  let ?P = "CommitPageSize E"
  note eff = TryAllocate_effect [OF t]
  have P: "0 < ?P" "?P dvd AllocatePageSize E" "0 < AllocatePageSize E" using E by (simp_all add: env_ok_def)
  have size: "rsize r > 0" using eff(2) n P(3) by simp
  have al: "?P dvd rbegin r" "?P dvd rsize r"
    using eff(1,2) E RoundUp_dvd dvd_trans [OF P(2)] by (auto simp: env_ok_def)
  have disj: "addrs r \<inter> own s = {}" using E inv t by (rule new_space_disjoint)
  have spaces: "page_closed ?P (own s)" "rest_free ?P (never_used s)" "never_used s \<subseteq> own s" "never_used s \<inter> freed s = {}"
    "committed s = used_pages ?P (own s) (never_used s) (freed s)" "freed s \<subseteq> own s" "pool_ok (free_code_space s)"
    using inv by (simp_all add: alloc_inv_def)
  note grown = used_pages_grow [OF P(1) page_closed_region [OF P(1) al] spaces(1,2) disj spaces(3,6)]
  have same: "committed s' = committed s" using eff(14) spaces(5) used_pages_subset disj by blast
  obtain m p where g: "Merge r (free_code_space s) = (m, p)" by fastforce
  have pool: "pool_ok p" "pool_addrs p = never_used s \<union> addrs r"
    using pool.give_law [OF spaces(7) size _ g] disj spaces(3) by (auto simp: never_used_def)
  have sp: "own (Init r s') = own s \<union> addrs r" "never_used (Init r s') = never_used s \<union> addrs r" "freed (Init r s') = freed s"
    using size eff(4-6) g pool(2) by (auto simp: Init_def own_def never_used_def freed_def)
  have fields: "free_code_space (Init r s') = p" "freed_code_space (Init r s') = freed_code_space s"
    "owned_code_space (Init r s') = owned_code_space s @ [r]" "committed (Init r s') = committed s"
    "reservations (Init r s') = Suc (reservations s)" "committed_code_space (Init r s') = committed_code_space s"
    "total_committed_code_space (Init r s') = total_committed_code_space s"
    "max_committed_code_space (Init r s') = max_committed_code_space s"
    using size eff g same by (simp_all add: Init_def committed_def)
  have "\<forall>x \<in> set (owned_code_space s @ [r]). \<exists>i < Suc (reservations s). \<exists>h. virtual_memory E i h (rsize x) = Some (rbegin x)"
    using inv eff(1) unfolding alloc_inv_def by (metis UnE empty_iff empty_set less_SucI lessI set_ConsD set_append)
  then have "alloc_inv E (Init r s')"
    using inv grown pool(1) spaces disj
    unfolding alloc_inv_def sp fields by (auto simp: Un_commute)
  then show ?thesis using al(1) sp spaces disj by (auto simp: extends_def live_def)
qed

lemma alloc_inv_cong:
  assumes "owned_code_space s' = owned_code_space s" "free_code_space s' = free_code_space s"
    "freed_code_space s' = freed_code_space s" "page_calls s' = page_calls s" "reservations s' = reservations s"
    "committed_code_space s' = committed_code_space s" "total_committed_code_space s' = total_committed_code_space s"
    "max_committed_code_space s' = max_committed_code_space s"
  shows "alloc_inv E s' = alloc_inv E s" "own s' = own s" "freed s' = freed s" "live s' = live s" "never_used s' = never_used s"
  using assms by (simp_all add: alloc_inv_def own_def never_used_def freed_def live_def committed_def)

subsection \<open>Allocation\<close>

text \<open>The contract of an allocation, as the callers of \<open>AllocateForCodeInRegion\<close> rely on it.\<close>

definition allocates :: "code_env \<Rightarrow> allocation \<Rightarrow> bool" where
  "allocates E alloc \<longleftrightarrow>
     (\<forall>sz r s b s'. alloc_inv E s \<longrightarrow> CommitPageSize E dvd rbegin r \<longrightarrow> alloc sz r s = Inr (b, s') \<longrightarrow>
        extends E s s' \<and> rsize b = RoundUp sz (kCodeAlignment E) \<and> 0 < rsize b \<and>
        addrs b \<subseteq> live s' - live s \<and> addrs b \<subseteq> addrs r)"

lemma allocatesD:
  assumes "allocates E alloc" "alloc sz r s = Inr (b, s')" "alloc_inv E s" "CommitPageSize E dvd rbegin r"
  shows "extends E s s'" "rsize b = RoundUp sz (kCodeAlignment E)" "0 < rsize b" "addrs b \<subseteq> live s' - live s" "addrs b \<subseteq> addrs r"
  using assms unfolding allocates_def by blast+

lemma create_table_extends:
  assumes "allocates E alloc" "create_table alloc sz r s = Inr (t, s')" "alloc_inv E s" "CommitPageSize E dvd rbegin r"
  shows "extends E s s'"
  using assms(2) allocatesD(1) [OF assms(1) _ assms(3,4)]
  by (auto simp: create_table_def elim!: and_then_Inr split: if_splits)

lemma bookkeeping_updates [simp]:
  "alloc_inv E (s\<lparr>lazy_compile_table := t\<rparr>) = alloc_inv E s" "alloc_inv E (s\<lparr>main_jump_table := t\<rparr>) = alloc_inv E s"
  "alloc_inv E (s\<lparr>main_far_jump_table := t\<rparr>) = alloc_inv E s" "alloc_inv E (s\<lparr>code_space_data := d\<rparr>) = alloc_inv E s"
  "alloc_inv E (s\<lparr>lookup_map := l\<rparr>) = alloc_inv E s"
  "extends E s' (s\<lparr>lazy_compile_table := t\<rparr>) = extends E s' s" "extends E s' (s\<lparr>main_jump_table := t\<rparr>) = extends E s' s"
  "extends E s' (s\<lparr>main_far_jump_table := t\<rparr>) = extends E s' s" "extends E s' (s\<lparr>code_space_data := d\<rparr>) = extends E s' s"
  "extends E s' (s\<lparr>lookup_map := l\<rparr>) = extends E s' s"
  "extends E (s\<lparr>main_jump_table := t\<rparr>) s' = extends E s s'" "extends E (s\<lparr>main_far_jump_table := t\<rparr>) s' = extends E s s'"
  "extends E (s\<lparr>code_space_data := d\<rparr>) s' = extends E s s'"
  by (simp_all add: alloc_inv_def extends_def own_def never_used_def freed_def live_def committed_def)

lemma extendsD: "extends E s s' \<Longrightarrow> alloc_inv E s'"
  by (simp add: extends_def)

lemma unrestricted_aligned [simp]: "P dvd rbegin kUnrestrictedRegion"
  by (simp add: kUnrestrictedRegion_def)

lemma lazy_table_extends:
  assumes "allocates E alloc" "InitializeJumpTableForLazyCompilation E alloc n s = Inr (u, s')" "alloc_inv E s"
  shows "extends E s s'"
  using assms(2,3) allocatesD(1) [OF assms(1) _ assms(3) unrestricted_aligned]
  by (auto simp: InitializeJumpTableForLazyCompilation_def extends_refl elim!: and_then_Inr split: if_splits)

lemma optional_table_extends:
  assumes "allocates E alloc" "(if c then create_table alloc sz r s else Inr (None, s)) = Inr (t, s')"
    "alloc_inv E s" "CommitPageSize E dvd rbegin r"
  shows "extends E s s'"
  using assms(2) create_table_extends [OF assms(1) _ assms(3,4)] extends_refl [OF assms(3)] by (auto split: if_splits)

lemma AddCodeSpace_extends:
  assumes alloc: "allocates E alloc" and r: "CommitPageSize E dvd rbegin r" and inv: "alloc_inv E s"
    and run: "AddCodeSpaceLocked E alloc n r s = Inr (u, s')"
  shows "extends E s s'"
proof -
  let ?far = "FindJumpTablesForRegionLocked E r s = None" and ?first = "code_space_data s = []"
  obtain t1 s1 t2 s2 where
    one: "(if 0 < n \<and> ?far then create_table alloc (table_size ?first (SizeForNumberOfSlots E n) (main_jump_table s)) r s
           else Inr (None, s)) = Inr (t1, s1)" and
    two: "(if ?far then create_table alloc (table_size ?first (SizeForNumberOfFarJumpSlots E n) (main_far_jump_table s1)) r s1
           else Inr (None, s1)) = Inr (t2, s2)" and
    rest: "(let s = if ?first then s2\<lparr>main_jump_table := t1, main_far_jump_table := t2\<rparr> else s2;
              s = s\<lparr>code_space_data := code_space_data s @ [\<lparr>csd_region = r, csd_jump_table = t1, csd_far_jump_table = t2\<rparr>]\<rparr>
          in if ?first then InitializeJumpTableForLazyCompilation E alloc n s else Inr ((), s)) = Inr (u, s')"
    using run unfolding AddCodeSpaceLocked_def Let_def by (auto elim!: and_then_Inr)
  note a = optional_table_extends [OF alloc one inv r]
  note b = extends_trans [OF a optional_table_extends [OF alloc two extendsD [OF a] r]]
  have "extends E s2 s'"
    using rest extendsD [OF b] lazy_table_extends [OF alloc] extends_refl
    by (fastforce simp: Let_def split: if_splits)
  then show ?thesis by (rule extends_trans [OF b])
qed

lemma zero_block_empty: "AllocateInRegion ov 0 w p = (b, p') \<Longrightarrow> is_empty b"
proof -
  have "search ov 0 w p xs = (b, p') \<Longrightarrow> is_empty b" for xs
    by (induction xs) (auto simp: take_from_def Let_def is_empty_def empty_region_def)
  then show "AllocateInRegion ov 0 w p = (b, p') \<Longrightarrow> is_empty b" by (simp add: AllocateInRegion_def)
qed

lemma grow_extends:
  assumes E: "env_ok E" and alloc: "allocates E alloc" and inv: "alloc_inv E s"
    and run: "grow_code_space E alloc nm n s = Inr (b, s')"
  obtains t p where "extends E s t" "0 < n" "\<not> is_empty b" "s' = t\<lparr>free_code_space := p\<rparr>"
    "AllocateInRegion (GetOverlap E) n kUnrestrictedRegion (free_code_space t) = (b, p)"
proof -
  from run obtain reserve r s1 s2 p where
    res: "n \<le> reserve" "TryAllocate E reserve s = (Some r, s1)" and
    add: "(case nm of None \<Rightarrow> Inr ((), Init r s1)
           | Some (m, k) \<Rightarrow> AddCodeSpaceLocked E alloc k r (AssignRange r m (Init r s1))) = Inr ((), s2)" and
    take: "Allocate (GetOverlap E) n (free_code_space s2) = (b, p)" "\<not> is_empty b" "s' = s2\<lparr>free_code_space := p\<rparr>"
    unfolding grow_code_space_def Let_def
    by (auto simp: not_less elim!: and_then_Inr split: sum.splits if_splits option.splits prod.splits)
  have take': "AllocateInRegion (GetOverlap E) n kUnrestrictedRegion (free_code_space s2) = (b, p)"
    using take(1) by (simp add: Allocate_def kUnrestrictedRegion_def)
  have n: "0 < n" using zero_block_empty take' take(2) by (cases "n = 0") auto
  note grown = space_added [OF E inv _ res(2)]
  have ext: "extends E s (Init r s1)" and al: "CommitPageSize E dvd rbegin r" using grown n res(1) by auto
  have "extends E (Init r s1) s2"
  proof (cases nm)
    case None
    then show ?thesis using add extends_refl [OF extendsD [OF ext]] by simp
  next
    case (Some mk)
    then obtain m k where mk: "nm = Some (m, k)" by (cases mk) auto
    define t where "t = AssignRange r m (Init r s1)"
    have "alloc_inv E t" "extends E t s2 = extends E (Init r s1) s2"
      using extendsD [OF ext] unfolding t_def AssignRange_def
      by (auto simp: extends_def own_def freed_def live_def never_used_def)
    moreover have "AddCodeSpaceLocked E alloc k r t = Inr ((), s2)" using add mk by (simp add: t_def)
    ultimately show ?thesis using AddCodeSpace_extends [OF alloc al] by blast
  qed
  then show ?thesis using that [of s2 p] extends_trans [OF ext] n take take' by blast
qed

lemma allocate_body_allocates:
  assumes E: "env_ok E" and alloc: "allocates E alloc"
  shows "allocates E (allocate_body E alloc nm)"
  unfolding allocates_def
proof (intro allI impI)
  fix sz r s b s'
  assume inv: "alloc_inv E s" and r: "CommitPageSize E dvd rbegin r" and run: "allocate_body E alloc nm sz r s = Inr (b, s')"
  let ?n = "RoundUp sz (kCodeAlignment E)"
  obtain c p where first: "AllocateInRegion (GetOverlap E) ?n r (free_code_space s) = (c, p)" by fastforce
  show "extends E s s' \<and> rsize b = ?n \<and> 0 < rsize b \<and> addrs b \<subseteq> live s' - live s \<and> addrs b \<subseteq> addrs r"
  proof (cases "is_empty c")
    case False
    have commit: "commit_block E c (s\<lparr>free_code_space := p\<rparr>) = Inr (b, s')"
      using run False by (simp add: allocate_body_def first Let_def)
    have n: "0 < ?n" using zero_block_empty first False by (cases "?n = 0") auto
    show ?thesis using block_placed [OF E inv first n False r commit] n by auto
  next
    case True
    then have r_eq: "r = kUnrestrictedRegion" using run by (auto simp: allocate_body_def first Let_def split: if_splits)
    have "and_then (grow_code_space E alloc nm ?n s) (commit_block E) = Inr (b, s')"
      using run True first unfolding r_eq by (simp add: allocate_body_def Let_def)
    then obtain c' t where grow: "grow_code_space E alloc nm ?n s = Inr (c', t)" and commit: "commit_block E c' t = Inr (b, s')"
      by (rule and_then_Inr)
    from grow_extends [OF E alloc inv grow] obtain u q where ext: "extends E s u" "0 < ?n" "\<not> is_empty c'"
      "t = u\<lparr>free_code_space := q\<rparr>" "AllocateInRegion (GetOverlap E) ?n kUnrestrictedRegion (free_code_space u) = (c', q)" .
    from block_placed [OF E extendsD [OF ext(1)] ext(5,2,3) unrestricted_aligned commit [unfolded ext(4)]]
    have placed: "extends E u s'" "b = c'" "rsize c' = ?n" "addrs c' \<subseteq> live s' - live u" "addrs c' \<subseteq> addrs kUnrestrictedRegion" by auto
    then show ?thesis using extends_trans [OF ext(1)] ext(1,2) r_eq by (auto simp: extends_def)
  qed
qed

lemma AllocateForCodeInRegion_allocates:
  assumes "env_ok E"
  shows "allocates E (AllocateForCodeInRegion d E nm)"
proof (induction d)
  case 0
  then show ?case by (simp add: allocates_def)
next
  case (Suc d)
  moreover have "AllocateForCodeInRegion (Suc d) E nm = allocate_body E (AllocateForCodeInRegion d E nm) nm"
    by (intro ext) simp
  ultimately show ?case using allocate_body_allocates [OF assms] by metis
qed

subsection \<open>Freeing\<close>

text \<open>The pages of \<open>B\<close> that are not already pages of \<open>A\<close>.\<close>

definition newly :: "nat \<Rightarrow> nat set \<Rightarrow> nat set \<Rightarrow> nat set" where
  "newly P A B = {x. page P x \<subseteq> B \<and> \<not> page P x \<subseteq> A}"

lemma addrs_discard:
  "addrs (discard_region P m r) =
     {max (RoundUp (rbegin m) P) (RoundDown (rbegin r) P)..<min (RoundDown (rend m) P) (RoundUp (rend r) P)}"
  unfolding discard_region_def Let_def addrs_region by auto

lemma free_step_correct:
  assumes P: "0 < P" and p: "pool_ok f" "pool_ok d" "pool_addrs d = newly P F (pool_addrs f)" "F \<subseteq> pool_addrs f"
    and r: "rsize r > 0" "addrs r \<inter> pool_addrs f = {}" and run: "free_step P r (f, d) = (f', d')"
  shows "pool_ok f' \<and> pool_addrs f' = pool_addrs f \<union> addrs r \<and> pool_ok d' \<and> pool_addrs d' = newly P F (pool_addrs f')"
proof -
  obtain m where merge: "Merge r f = (m, f')" and d': "d' = (if is_empty (discard_region P m r) then d else snd (Merge (discard_region P m r) d))"
    using run by (auto simp: free_step_def Let_def split: prod.splits)
  note law = pool.give_law [OF p(1) r merge]
  have sets: "{rbegin r..<rend r} = addrs r" "{rbegin m..<rend m} = addrs m" by (simp_all add: addrs_def)
  have "addrs (discard_region P m r) = newly P (pool_addrs f) (pool_addrs f')"
    unfolding addrs_discard newly_def
    using discard_range [OF P rend_less [OF r(1)], of "rbegin m" "rend m" "pool_addrs f", unfolded sets] law r(2) by auto
  moreover have "newly P F (pool_addrs f') = newly P F (pool_addrs f) \<union> newly P (pool_addrs f) (pool_addrs f')"
    using law p(4) by (auto simp: newly_def)
  moreover have "newly P (pool_addrs f) (pool_addrs f') \<inter> newly P F (pool_addrs f) = {}" by (auto simp: newly_def)
  ultimately have dis: "addrs (discard_region P m r) \<inter> pool_addrs d = {}"
    and goal: "newly P F (pool_addrs f') = pool_addrs d \<union> addrs (discard_region P m r)" using p(3) by simp_all
  show ?thesis
  proof (cases "is_empty (discard_region P m r)")
    case True
    then show ?thesis using law p(2) d' goal by (simp add: is_empty_def addrs_def rend_def)
  next
    case False
    obtain m' q where g: "Merge (discard_region P m r) d = (m', q)" by fastforce
    have "rsize (discard_region P m r) > 0" using False by (simp add: is_empty_def)
    from pool.give_law [OF p(2) this dis g] show ?thesis using law d' goal g False by simp
  qed
qed

lemma free_steps_correct:
  assumes "0 < P" "pool_ok f" "pool_ok d" "pool_addrs d = newly P F (pool_addrs f)" "F \<subseteq> pool_addrs f"
    "pool_ok rs" "pool_addrs rs \<inter> pool_addrs f = {}" "fold (free_step P) rs (f, d) = (f', d')"
  shows "pool_ok f' \<and> pool_addrs f' = pool_addrs f \<union> pool_addrs rs \<and> pool_ok d' \<and> pool_addrs d' = newly P F (pool_addrs f')"
  using assms(2-)
proof (induction rs arbitrary: f d)
  case (Cons r rs)
  obtain f1 d1 where step: "free_step P r (f, d) = (f1, d1)" by fastforce
  have r: "rsize r > 0" "addrs r \<inter> pool_addrs f = {}" and rs: "pool_ok rs" "addrs r \<inter> pool_addrs rs = {}"
    using Cons.prems(5,6) pool_addrs_above(3) [of r rs] by auto
  note one = free_step_correct [OF assms(1) Cons.prems(1-4) r step]
  have "pool_addrs rs \<inter> pool_addrs f1 = {}" using one rs(2) Cons.prems(6) by auto
  moreover have "fold (free_step P) rs (f1, d1) = (f', d')" using Cons.prems(7) step by simp
  ultimately show ?case using Cons.IH [of f1 d1] one rs(1) Cons.prems(4) by auto
qed simp

lemma pool_size: "pool_ok rs \<Longrightarrow> card (pool_addrs rs) = sum_list (map rsize rs)"
proof (induction rs)
  case (Cons r rs)
  have "addrs r \<inter> pool_addrs rs = {}" using pool_addrs_above(3) [OF Cons.prems] .
  then have "card (pool_addrs (r # rs)) = card (addrs r) + card (pool_addrs rs)"
    by (simp add: card_Un_disjoint addrs_def)
  then show ?case using Cons by (simp add: addrs_def rend_def)
qed simp

lemma decommit_steps_effect:
  defines "S ds \<equiv> sum_list (map rsize ds)"
  shows "committed (fold decommit_step ds s) = committed s - pool_addrs ds"
    "committed_code_space (fold decommit_step ds s) = committed_code_space s - S ds"
    "total_committed_code_space (fold decommit_step ds s) = total_committed_code_space s - S ds"
    "owned_code_space (fold decommit_step ds s) = owned_code_space s" "free_code_space (fold decommit_step ds s) = free_code_space s"
    "freed_code_space (fold decommit_step ds s) = freed_code_space s" "reservations (fold decommit_step ds s) = reservations s"
    "max_committed_code_space (fold decommit_step ds s) = max_committed_code_space s"
    "freed_code_size (fold decommit_step ds s) = freed_code_size s"
  unfolding S_def by (induction ds arbitrary: s) (auto simp: decommit_step_def Decommit_def committed_def)

lemma merge_all: "fold (\<lambda>c. snd \<circ> Merge c) codes p = give_all Merge codes p"
  by (induction codes arbitrary: p) simp_all

lemma FreeCode_correct:
  assumes E: "env_ok E" and inv: "alloc_inv E s" and codes: "\<forall>c \<in> set codes. rsize c > 0" "disjoint_regions codes" "pool_addrs codes \<subseteq> live s"
  defines "s' \<equiv> FreeCode E codes s"
  shows "alloc_inv E s' \<and> own s' = own s \<and> never_used s' = never_used s \<and> freed s' = freed s \<union> pool_addrs codes \<and>
    committed s' = committed s - newly (CommitPageSize E) (freed s) (freed s')"
proof -
  let ?P = "CommitPageSize E"
  define rs where "rs = give_all Merge codes []"
  have rs: "pool_ok rs" "pool_addrs rs = pool_addrs codes"
    using pool.give_all_space [of "[]" codes] codes(1,2) by (simp_all add: rs_def)
  obtain f ds where loop: "fold (free_step ?P) rs (freed_code_space s, []) = (f, ds)" by fastforce
  have old: "pool_ok (freed_code_space s)" "never_used s \<subseteq> own s" "freed s \<subseteq> own s" "never_used s \<inter> freed s = {}"
    "page_closed ?P (own s)" "committed s = used_pages ?P (own s) (never_used s) (freed s)"
    "committed_code_space s = card (committed s)" using inv by (simp_all add: alloc_inv_def)
  have P: "0 < ?P" using E by (simp add: env_ok_def)
  have fresh: "pool_addrs codes \<subseteq> own s - never_used s" "pool_addrs codes \<inter> freed s = {}" using codes(3) by (auto simp: live_def)
  have "pool_ok f \<and> pool_addrs f = freed s \<union> pool_addrs codes \<and> pool_ok ds \<and> pool_addrs ds = newly ?P (freed s) (pool_addrs f)"
    using free_steps_correct [OF P old(1) _ _ order_refl rs(1) _ loop] rs(2) fresh(2) by (auto simp: freed_def newly_def)
  then have f: "pool_ok f" "pool_addrs f = freed s \<union> pool_addrs codes" "pool_ok ds" "pool_addrs ds = newly ?P (freed s) (pool_addrs f)" by auto
  have s': "s' = fold decommit_step ds (s\<lparr>freed_code_size := freed_code_size s + sum_list (map rsize codes), freed_code_space := f\<rparr>)"
    using loop by (simp add: s'_def FreeCode_def Let_def merge_all rs_def)
  have base: "committed (s\<lparr>freed_code_size := x, freed_code_space := f\<rparr>) = committed s" for x by (simp add: committed_def)
  have fields: "committed s' = committed s - pool_addrs ds" "own s' = own s" "never_used s' = never_used s" "freed s' = pool_addrs f"
    unfolding s' using decommit_steps_effect base by (simp_all add: own_def never_used_def freed_def)
  have "pool_addrs ds \<subseteq> committed s"
  proof
    fix x assume "x \<in> pool_addrs ds"
    then have x: "page ?P x \<subseteq> freed s \<union> pool_addrs codes" "\<not> page ?P x \<subseteq> freed s" using f by (auto simp: newly_def)
    then have "x \<in> own s" "page ?P x \<inter> (own s - never_used s) \<noteq> {}" using page_self [OF P, of x] old(3,4) fresh(1) by blast+
    then show "x \<in> committed s" using x(2) by (simp add: old(6) used_pages_def)
  qed
  then have "card (committed s') = card (committed s) - sum_list (map rsize ds)"
    using fields(1) pool_size [OF f(3)] by (simp add: card_Diff_subset)
  moreover have "committed s' = used_pages ?P (own s) (never_used s) (pool_addrs f)"
    using used_pages_free [OF P old(5) fresh(1), of "freed s"] fields(1) f(2,4) old(6) by (simp add: newly_def)
  moreover have "owned_code_space s' = owned_code_space s" "free_code_space s' = free_code_space s" "freed_code_space s' = f"
    "reservations s' = reservations s" "committed_code_space s' = committed_code_space s - sum_list (map rsize ds)"
    "total_committed_code_space s' = total_committed_code_space s - sum_list (map rsize ds)"
    "max_committed_code_space s' = max_committed_code_space s"
    unfolding s' by (simp_all add: decommit_steps_effect)
  ultimately have "alloc_inv E s'"
    using inv f(1,2) fresh fields old unfolding alloc_inv_def fields(2-4) by auto
  then show ?thesis using fields f by simp
qed

subsection \<open>Runs of an allocator\<close>

text \<open>
  A module or the wrapper cache allocates blocks, at any time frees some of those it holds, and does
  nothing else with them. The state is that of the allocator and the list of the blocks held.
\<close>

inductive code_step :: "code_env \<Rightarrow> (nat \<times> nat) option \<Rightarrow> code_state \<times> AddressRegion list \<Rightarrow> code_state \<times> AddressRegion list \<Rightarrow> bool"
  for E nm where
  allocate: "AllocateForCodeInRegion 3 E nm sz kUnrestrictedRegion s = Inr (b, s') \<Longrightarrow> code_step E nm (s, bs) (s', b # bs)"
| free: "code_step E nm (s, bs) (FreeCode E (filter dead bs) s, filter (\<lambda>b. \<not> dead b) bs)"

definition holds :: "code_env \<Rightarrow> code_state \<times> AddressRegion list \<Rightarrow> bool" where
  "holds E = (\<lambda>(s, bs). alloc_inv E s \<and> (\<forall>b \<in> set bs. rsize b > 0) \<and> disjoint_regions bs \<and> pool_addrs bs \<subseteq> live s)"

lemma pool_addrs_filter: "pool_addrs (filter p bs) \<union> pool_addrs (filter (\<lambda>b. \<not> p b) bs) = pool_addrs bs"
  by (auto simp: pool_addrs_def)

lemma disjoint_filter:
  assumes "disjoint_regions bs"
  shows "disjoint_regions (filter p bs)" "pool_addrs (filter p bs) \<inter> pool_addrs (filter (\<lambda>b. \<not> p b) bs) = {}"
proof -
  show "disjoint_regions (filter p bs)" using assms by (rule sorted_wrt_filter)
  show "pool_addrs (filter p bs) \<inter> pool_addrs (filter (\<lambda>b. \<not> p b) bs) = {}"
    using assms by (induction bs) (auto simp: pool_addrs_def)
qed

lemma code_step_holds:
  assumes E: "env_ok E"
  shows "code_step E nm st st' \<Longrightarrow> holds E st \<Longrightarrow> holds E st'"
proof (induction rule: code_step.induct)
  case (allocate sz s b s' bs)
  then have inv: "alloc_inv E s" by (simp add: holds_def)
  note post = allocatesD [OF AllocateForCodeInRegion_allocates [OF E] allocate(1) inv unrestricted_aligned]
  have "pool_addrs bs \<subseteq> live s" using allocate(2) by (simp add: holds_def)
  then have "\<forall>x \<in> set bs. addrs b \<inter> addrs x = {}" using post(4) by (fastforce simp: pool_addrs_def)
  then show ?case using allocate(2) post by (auto simp: holds_def extends_def)
next
  case (free s bs dead)
  let ?codes = "filter dead bs"
  have codes: "\<forall>c \<in> set ?codes. rsize c > 0" "disjoint_regions ?codes" "pool_addrs ?codes \<subseteq> live s" and inv: "alloc_inv E s"
    using free disjoint_filter pool_addrs_filter [of dead bs] by (auto simp: holds_def)
  note post = FreeCode_correct [OF E inv codes]
  have "pool_addrs (filter (\<lambda>b. \<not> dead b) bs) \<subseteq> live s - pool_addrs ?codes"
    using free disjoint_filter(2) [of bs dead] pool_addrs_filter [of dead bs] by (auto simp: holds_def)
  then have "pool_addrs (filter (\<lambda>b. \<not> dead b) bs) \<subseteq> live (FreeCode E ?codes s)"
    using post by (auto simp: live_def)
  then show ?case using post free disjoint_filter(1) by (auto simp: holds_def)
qed

lemma code_run_holds:
  assumes "env_ok E" "(code_step E nm)\<^sup>*\<^sup>* st st'" "holds E st"
  shows "holds E st'"
  using assms(2,3) by (induction rule: rtranclp_induct) (auto intro: code_step_holds [OF assms(1)])

lemma live_committed:
  assumes "alloc_inv E s" "0 < CommitPageSize E"
  shows "live s \<subseteq> committed s"
  using assms page_self [OF assms(2)] by (fastforce simp: alloc_inv_def used_pages_def live_def)

lemma alloc_inv_accounting:
  assumes "alloc_inv E s"
  shows "committed s = used_pages (CommitPageSize E) (own s) (never_used s) (freed s)"
    "committed_code_space s = card (committed s)" "committed_code_space s \<le> total_committed_code_space s"
    "total_committed_code_space s \<le> max_committed_code_space s"
  using assms unfolding alloc_inv_def by blast+

lemma holdsD:
  assumes "holds E (s, bs)" "env_ok E"
  shows "alloc_inv E s" "disjoint_regions bs" "pool_addrs bs \<subseteq> committed s" "\<forall>b \<in> set bs. rsize b > 0" "pool_addrs bs \<subseteq> live s"
proof -
  show inv: "alloc_inv E s" and "disjoint_regions bs" "\<forall>b \<in> set bs. rsize b > 0" and sub: "pool_addrs bs \<subseteq> live s"
    using assms(1) by (simp_all add: holds_def)
  have "0 < CommitPageSize E" using assms(2) by (simp add: env_ok_def)
  from live_committed [OF inv this] sub show "pool_addrs bs \<subseteq> committed s" by (rule order_trans [rotated])
qed

text \<open>A new allocator, in a process whose other allocators have committed \<open>c\<close> bytes.\<close>

definition new_state :: "nat \<Rightarrow> nat \<Rightarrow> nat \<Rightarrow> wx \<Rightarrow> code_state" where
  "new_state mx c hint w =
     \<lparr>owned_code_space = [], free_code_space = [], freed_code_space = [], committed_code_space = 0,
      generated_code_size = 0, freed_code_size = 0, code_space_data = [], main_jump_table = None,
      main_far_jump_table = None, lazy_compile_table = None, max_committed_code_space = mx,
      total_committed_code_space = c, next_code_space_hint = hint, lookup_map = [], reservations = 0,
      page_calls = [], mirror_state = w\<rparr>"

lemma new_state_holds: "c \<le> mx \<Longrightarrow> holds E (new_state mx c hint w, [])"
  by (simp add: holds_def new_state_def alloc_inv_def own_def never_used_def freed_def committed_def used_pages_def
      page_closed_def rest_free_def)

subsection \<open>The nesting bound\<close>

lemma and_then_Inl:
  assumes "and_then r f = Inl e"
  obtains "r = Inl e" | a s where "r = Inr (a, s)" "f a s = Inl e"
  using assms by (auto simp: and_then_def split: sum.splits)

lemma commit_block_not_deep: "commit_block E b s \<noteq> Inl TooDeep"
  by (auto simp: commit_block_def Commit_def Let_def elim!: and_then_Inl split: if_splits)

lemma restricted_not_deep:
  assumes "r \<noteq> kUnrestrictedRegion"
  shows "AllocateForCodeInRegion (Suc d) E nm sz r s \<noteq> Inl TooDeep"
  using assms commit_block_not_deep
  by (auto simp: allocate_body_def Let_def elim!: and_then_Inl split: prod.splits if_splits)

lemma create_table_not_deep:
  assumes "r \<noteq> kUnrestrictedRegion"
  shows "create_table (AllocateForCodeInRegion (Suc d) E nm) sz r s \<noteq> Inl TooDeep"
  using restricted_not_deep [OF assms] by (auto simp: create_table_def elim!: and_then_Inl split: if_splits)

text \<open>
  Growing calls back only through \<open>AddCodeSpaceLocked\<close>: for the tables, inside the new space, and
  once more for the lazy compile table when the space is the first.
\<close>

lemma AddCodeSpace_not_deep:
  assumes r: "r \<noteq> kUnrestrictedRegion"
    and lazy: "code_space_data s = [] \<Longrightarrow> \<forall>sz t. code_space_data t \<noteq> [] \<longrightarrow> AllocateForCodeInRegion (Suc d) E nm sz kUnrestrictedRegion t \<noteq> Inl TooDeep"
  shows "AddCodeSpaceLocked E (AllocateForCodeInRegion (Suc d) E nm) n r s \<noteq> Inl TooDeep"
proof -
  let ?alloc = "AllocateForCodeInRegion (Suc d) E nm"
  have "InitializeJumpTableForLazyCompilation E ?alloc n t \<noteq> Inl TooDeep" if "code_space_data s = []" "code_space_data t \<noteq> []" for t
    using lazy [OF that(1)] that(2)
    by (auto simp del: AllocateForCodeInRegion.simps simp: InitializeJumpTableForLazyCompilation_def elim!: and_then_Inl split: if_splits)
  then show ?thesis
    unfolding AddCodeSpaceLocked_def Let_def
    by (auto simp del: AllocateForCodeInRegion.simps simp: create_table_not_deep [OF r] elim!: and_then_Inl split: if_splits)
qed

lemma grow_not_deep:
  assumes E: "env_ok E"
    and lazy: "nm \<noteq> None \<Longrightarrow> code_space_data s = [] \<Longrightarrow> \<forall>sz t. code_space_data t \<noteq> [] \<longrightarrow> AllocateForCodeInRegion (Suc d) E nm sz kUnrestrictedRegion t \<noteq> Inl TooDeep"
  shows "grow_code_space E (AllocateForCodeInRegion (Suc d) E nm) nm sz s \<noteq> Inl TooDeep"
proof -
  have add: "AddCodeSpaceLocked E (AllocateForCodeInRegion (Suc d) E nm) n r (AssignRange r m (Init r s')) \<noteq> Inl TooDeep"
    if t: "TryAllocate E k s = (Some r, s')" and nm: "nm = Some (m, n)" for r s' m n k
  proof (rule AddCodeSpace_not_deep)
    have "0 < rbegin r" using TryAllocate_effect(1) [OF t] E by (auto simp: env_ok_def)
    then show "r \<noteq> kUnrestrictedRegion" by (auto simp: kUnrestrictedRegion_def)
    have "code_space_data (AssignRange r m (Init r s')) = code_space_data s"
      using TryAllocate_effect(10) [OF t] by (simp add: AssignRange_def Init_def)
    then show "code_space_data (AssignRange r m (Init r s')) = [] \<Longrightarrow>
      \<forall>sz t. code_space_data t \<noteq> [] \<longrightarrow> AllocateForCodeInRegion (Suc d) E nm sz kUnrestrictedRegion t \<noteq> Inl TooDeep"
      using lazy nm by simp
  qed
  have sizes: "ReservationSizeForWasmCode E a b c \<noteq> Inl TooDeep" "ReservationSizeForWrappers E a b \<noteq> Inl TooDeep" for a b c
    by (simp_all add: ReservationSizeForWasmCode_def ReservationSizeForWrappers_def Let_def)
  show ?thesis
  proof (cases nm)
    case None
    then show ?thesis using sizes
      by (auto simp del: AllocateForCodeInRegion.simps simp: grow_code_space_def Let_def split: sum.splits option.splits prod.splits)
  next
    case (Some mn)
    obtain m n where mn: "nm = Some (m, n)" using Some by (cases mn) auto
    have add': "AddCodeSpaceLocked E (AllocateForCodeInRegion (Suc d) E (Some (m, n))) n r (AssignRange r m (Init r s')) \<noteq> Inl TooDeep"
      if "TryAllocate E k s = (Some r, s')" for k r s' using add [OF that mn] mn by simp
    show ?thesis using sizes
      by (auto simp del: AllocateForCodeInRegion.simps simp: mn grow_code_space_def Let_def add'
          elim!: and_then_Inl split: sum.splits option.splits prod.splits if_splits)
  qed
qed

lemma allocation_depth:
  assumes E: "env_ok E"
  shows "code_space_data s \<noteq> [] \<or> nm = None \<or> 0 < d \<Longrightarrow> AllocateForCodeInRegion (Suc (Suc d)) E nm sz r s \<noteq> Inl TooDeep"
proof (induction d arbitrary: s sz r)
  case 0
  have "grow_code_space E (AllocateForCodeInRegion (Suc 0) E nm) nm n s \<noteq> Inl TooDeep" for n
    using grow_not_deep [OF E, of nm s 0 n] 0 by (cases nm) auto
  then show ?case using commit_block_not_deep
    by (auto simp del: AllocateForCodeInRegion.simps simp: AllocateForCodeInRegion.simps(2) [of "Suc 0"] allocate_body_def Let_def elim!: and_then_Inl split: prod.splits if_splits)
next
  case (Suc d)
  have "grow_code_space E (AllocateForCodeInRegion (Suc (Suc d)) E nm) nm n s \<noteq> Inl TooDeep" for n
    using grow_not_deep [OF E, of nm s "Suc d" n] Suc.IH by blast
  then show ?case using commit_block_not_deep
    by (auto simp del: AllocateForCodeInRegion.simps simp: AllocateForCodeInRegion.simps(2) [of "Suc (Suc d)"] allocate_body_def Let_def elim!: and_then_Inl split: prod.splits if_splits)
qed

text \<open>Wrapper code has no tables: a reservation that succeeds has room for the block.\<close>

lemma reserved_room:
  assumes E: "env_ok E" and inv: "alloc_inv E s" and n: "0 < n" "n \<le> k" and t: "TryAllocate E k s = (Some r, s')"
    and a: "Allocate (GetOverlap E) n (free_code_space (Init r s')) = (b, p)"
  shows "\<not> is_empty b"
proof -
  have pos: "0 < k" using n by simp
  note ext = space_added [OF E inv pos t] and eff = TryAllocate_effect [OF t]
  have pool: "pool_ok (free_code_space (Init r s'))" using ext by (simp add: extends_def alloc_inv_def)
  have "n \<le> RoundUp k (AllocatePageSize E)" using n(2) RoundUp_ge [of "AllocatePageSize E" k] E by (simp add: env_ok_def)
  then have size: "rsize r > 0" "n \<le> rsize r" using eff(2) n by simp_all
  have old: "pool_ok (free_code_space s)" "never_used s \<subseteq> own s" using inv by (simp_all add: alloc_inv_def)
  have fit: "addrs r \<subseteq> addrs (region 0 size_max)"
    using eff(1) E by (fastforce simp: env_ok_def addrs_def rend_def)
  obtain m q where g: "Merge r (free_code_space s) = (m, q)" by fastforce
  have disj: "addrs r \<inter> pool_addrs (free_code_space s) = {}"
    using new_space_disjoint [OF E inv t] old(2) by (auto simp: never_used_def)
  have m: "m \<in> set (free_code_space (Init r s'))" "addrs r \<subseteq> addrs m"
    using Merge_correct(3,4) [OF old(1) size(1) disj g] size(1) eff(5) g by (simp_all add: Init_def)
  have room: "n \<le> card (addrs m \<inter> addrs (region 0 size_max))"
  proof -
    have "rsize r = card (addrs r)" by (simp add: addrs_def rend_def)
    also have "\<dots> \<le> card (addrs m \<inter> addrs (region 0 size_max))"
      using fit m(2) by (intro card_mono) (auto simp: addrs_def)
    finally show ?thesis using size(2) by simp
  qed
  have "AllocateInRegion (GetOverlap E) n (region 0 size_max) (free_code_space (Init r s')) = (b, p)" "overlap_ok (GetOverlap E)"
    using a E by (simp_all add: Allocate_def env_ok_def)
  from AllocateInRegion_correct [OF pool n(1) this(2,1)] m(1) room have "rsize b = n" by (metis linorder_not_less)
  then show ?thesis using n(1) by (simp add: is_empty_def)
qed

lemma grow_wrapper_checked:
  assumes "env_ok E" "alloc_inv E s" "0 < n"
  shows "grow_code_space E alloc None n s \<noteq> Inl CheckFailed"
proof -
  have "ReservationSizeForWrappers E n k \<noteq> Inl CheckFailed" for k
    by (simp add: ReservationSizeForWrappers_def Let_def)
  then show ?thesis using reserved_room [OF assms]
    by (auto simp: grow_code_space_def Let_def not_less split: sum.splits option.splits prod.splits)
qed

subsection \<open>Finding a module by address\<close>

text \<open>The entries are in order, not empty, and do not overlap.\<close>

definition module_ranges :: "(nat \<times> nat \<times> nat) list \<Rightarrow> bool" where
  "module_ranges es \<longleftrightarrow> (\<forall>(b, e, _) \<in> set es. b < e) \<and> sorted_wrt (\<lambda>(_, e, _) (b', _). e \<le> b') es"

lemma module_ranges_Cons:
  "module_ranges ((b, e, m) # es) \<longleftrightarrow> b < e \<and> (\<forall>(b', _) \<in> set es. e \<le> b') \<and> module_ranges es"
  by (auto simp: module_ranges_def)

lemma module_ranges_filter: "module_ranges es \<Longrightarrow> module_ranges (filter p es)"
  by (auto simp: module_ranges_def sorted_wrt_filter)

text \<open>An address has at most one entry, and the lookup finds it.\<close>

definition range_of :: "nat \<Rightarrow> nat \<times> nat \<times> nat \<Rightarrow> bool" where
  "range_of pc = (\<lambda>(b, e, _). b \<le> pc \<and> pc < e)"

lemma range_of_unique:
  assumes "module_ranges es" "x \<in> set es" "y \<in> set es" "range_of pc x" "range_of pc y"
  shows "x = y"
  using assms
proof (induction es)
  case (Cons z es)
  then show ?case by (cases z) (fastforce simp: module_ranges_Cons range_of_def split: prod.splits)
qed simp

lemma takeWhile_last:
  assumes "module_ranges es" "x \<in> set es" "range_of pc x"
  shows "takeWhile (\<lambda>(b, _). b \<le> pc) es \<noteq> [] \<and> last (takeWhile (\<lambda>(b, _). b \<le> pc) es) = x"
  using assms
proof (induction es)
  case (Cons z es)
  obtain b e m where z: "z = (b, e, m)" by (cases z)
  have later: "\<forall>(b', _) \<in> set es. e \<le> b'" "b < e" "module_ranges es" using Cons.prems(1) by (auto simp: z module_ranges_Cons)
  show ?case
  proof (cases "x = z")
    case True
    then have "takeWhile (\<lambda>(b, _). b \<le> pc) es = []"
      using Cons.prems(3) later(1) by (cases es) (auto simp: z range_of_def)
    then show ?thesis using True Cons.prems(3) by (simp add: z range_of_def)
  next
    case False
    then have x: "x \<in> set es" using Cons.prems(2) by simp
    then have "b \<le> pc" using later(1,2) Cons.prems(3) by (fastforce simp: range_of_def split: prod.splits)
    then show ?thesis using Cons.IH [OF later(3) x Cons.prems(3)] by (simp add: z)
  qed
qed simp

lemma LookupNativeModule_iff:
  assumes "module_ranges (lookup_map s)"
  shows "LookupNativeModule s pc = Some m \<longleftrightarrow> (\<exists>b e. (b, e, m) \<in> set (lookup_map s) \<and> b \<le> pc \<and> pc < e)"
proof
  define es where "es = takeWhile (\<lambda>(start, _). start \<le> pc) (lookup_map s)"
  assume look: "LookupNativeModule s pc = Some m"
  then have "es \<noteq> []" by (auto simp: LookupNativeModule_def es_def)
  then have "last es \<in> set es" by (rule last_in_set)
  then have "last es \<in> set (lookup_map s)" unfolding es_def by (rule set_takeWhileD [THEN conjunct1])
  moreover obtain b e k where l: "last es = (b, e, k)" by (cases "last es")
  moreover have "b \<le> pc \<and> pc < e \<and> k = m"
    using look \<open>es \<noteq> []\<close> l unfolding LookupNativeModule_def es_def [symmetric] by (cases es) (auto split: if_splits)
  ultimately show "\<exists>b e. (b, e, m) \<in> set (lookup_map s) \<and> b \<le> pc \<and> pc < e" by metis
next
  assume "\<exists>b e. (b, e, m) \<in> set (lookup_map s) \<and> b \<le> pc \<and> pc < e"
  then obtain b e where x: "(b, e, m) \<in> set (lookup_map s)" "b \<le> pc" "pc < e" by blast
  from takeWhile_last [OF assms x(1), of pc] x(2,3)
  show "LookupNativeModule s pc = Some m"
    by (auto simp: LookupNativeModule_def range_of_def split: list.splits)
qed

lemma module_ranges_insort:
  assumes "module_ranges es" "b < e" "\<forall>(b', e', _) \<in> set es. e \<le> b' \<or> e' \<le> b"
  shows "module_ranges (insort_key fst (b, e, m) es)"
  using assms
proof (induction es)
  case Nil
  then show ?case by (simp add: module_ranges_def)
next
  case (Cons z es)
  obtain b' e' m' where z: "z = (b', e', m')" by (cases z)
  have later: "\<forall>(b'', _) \<in> set es. e' \<le> b''" "b' < e'" "module_ranges es" using Cons.prems(1) by (auto simp: z module_ranges_Cons)
  show ?case
  proof (cases "b \<le> b'")
    case True
    then have "e \<le> b'" using Cons.prems(3) later(2) Cons.prems(2) by (auto simp: z)
    then show ?thesis using True Cons.prems later by (fastforce simp: z module_ranges_Cons)
  next
    case False
    then have "e' \<le> b" using Cons.prems(2,3) by (auto simp: z)
    moreover have "module_ranges (insort_key fst (b, e, m) es)" using Cons by (auto simp: z module_ranges_Cons)
    ultimately show ?thesis using False later by (auto simp: z module_ranges_Cons set_insort_key)
  qed
qed

lemma filter_insort_fresh:
  assumes "fst x \<notin> fst ` set es"
  shows "filter (\<lambda>(start, _). start \<noteq> fst x) (insort_key fst x es) = es"
proof -
  have "filter (\<lambda>(start, _). start \<noteq> fst x) ys = ys" if "fst x \<notin> fst ` set ys" for ys :: "('a \<times> 'b) list"
    using that by (induction ys) auto
  then show ?thesis using assms by (induction es) (auto split: prod.splits)
qed

subsection \<open>Properties\<close>

text \<open>
  C17: Code memory is never shared and the commit accounting is exact. In every state an allocator
  reaches by allocating and freeing, through any number of code spaces, the blocks held are pairwise
  disjoint and every byte of them lies on a committed page; the committed pages are exactly the pages
  on which something was handed out and that are not freed as a whole; \<open>committed_code_space\<close> is
  their number of bytes, and the process-wide total stays within its limit.
\<close>

theorem code_accounting_exact:
  assumes "env_ok E" and "c \<le> mx" and "(code_step E nm)\<^sup>*\<^sup>* (new_state mx c hint w, []) (s, bs)"
  shows "disjoint_regions bs \<and> pool_addrs bs \<subseteq> committed s \<and>
    committed s = used_pages (CommitPageSize E) (own s) (never_used s) (freed s) \<and>
    committed_code_space s = card (committed s) \<and>
    committed_code_space s \<le> total_committed_code_space s \<and> total_committed_code_space s \<le> max_committed_code_space s"
proof -
  have "holds E (s, bs)" using code_run_holds [OF assms(1,3)] new_state_holds [OF assms(2)] by blast
  note h = holdsD [OF this assms(1)]
  from h(2,3) alloc_inv_accounting [OF h(1)] show ?thesis by blast
qed

text \<open>
  C18: Freeing decommits exactly what became free. Freeing held blocks makes them freed space, leaves
  every other block committed, decommits exactly the pages that are wholly freed now and were not
  before, and keeps the counter exact.
\<close>

theorem FreeCode_decommits_exactly:
  assumes "env_ok E" and "holds E (s, bs)" and "s' = FreeCode E (filter dead bs) s"
  shows "freed s' = freed s \<union> pool_addrs (filter dead bs) \<and>
    committed s' = committed s - newly (CommitPageSize E) (freed s) (freed s') \<and>
    pool_addrs (filter (\<lambda>b. \<not> dead b) bs) \<subseteq> committed s' \<and>
    committed_code_space s' = card (committed s')"
proof -
  note h = holdsD [OF assms(2,1)]
  have codes: "\<forall>c \<in> set (filter dead bs). rsize c > 0" "disjoint_regions (filter dead bs)" "pool_addrs (filter dead bs) \<subseteq> live s"
    using h disjoint_filter(1) pool_addrs_filter [of dead bs] by auto
  note post = FreeCode_correct [OF assms(1) h(1) codes, folded assms(3)]
  have "holds E (s', filter (\<lambda>b. \<not> dead b) bs)"
    unfolding assms(3) using code_step_holds [OF assms(1) code_step.free [where nm = None] assms(2)] .
  note h' = holdsD [OF this assms(1)]
  from post h'(3) alloc_inv_accounting(2) [OF h'(1)] show ?thesis by blast
qed

text \<open>
  C19: Allocation always answers. Three levels of nesting between \<open>AllocateForCodeInRegion\<close> and
  \<open>AddCodeSpaceLocked\<close> are enough in every state; and an allocation for wrapper code returns a block
  or reports out of memory: the final \<^verbatim>\<open>CHECK\<close> that the grown pool has room never fails.
\<close>

theorem allocation_returns:
  assumes "env_ok E" and "alloc_inv E s" and "0 < sz"
  shows "AllocateForCode E m sz s \<noteq> Inl TooDeep \<and>
    ((\<exists>b s'. AllocateForWrapper E sz s = Inr (b, s')) \<or> (\<exists>msg. AllocateForWrapper E sz s = Inl (FatalProcessOutOfMemory msg)))"
proof -
  have three: "3 = Suc (Suc (Suc 0))" by simp
  have deep: "AllocateForCodeInRegion 3 E nm sz r s \<noteq> Inl TooDeep" for nm r
    unfolding three using allocation_depth [OF assms(1), of s nm "Suc 0"] by blast
  have pos: "0 < RoundUp sz (kCodeAlignment E)" using assms(1,3) by (simp add: env_ok_def)
  have commit: "commit_block E b t \<noteq> Inl CheckFailed" for b t
    by (auto simp: commit_block_def Commit_def Let_def elim!: and_then_Inl split: if_splits)
  have "AllocateForWrapper E sz s \<noteq> Inl CheckFailed"
    unfolding AllocateForWrapper_def three AllocateForCodeInRegion.simps(2) [of "Suc (Suc 0)"]
    using grow_wrapper_checked [OF assms(1,2) pos] commit
    by (auto simp del: AllocateForCodeInRegion.simps simp: allocate_body_def Let_def elim!: and_then_Inl split: prod.splits if_splits)
  then show ?thesis using deep unfolding AllocateForCode_def AllocateForWrapper_def
    by (metis fatal.exhaust old.prod.exhaust sum.exhaust)
qed

text \<open>
  An instruction address identifies its module. With disjoint code spaces registered, the lookup
  answers module \<open>m\<close> exactly for the addresses of a code space of \<open>m\<close>; registering a new disjoint space
  adds exactly its addresses, and releasing it restores every answer.
\<close>

lemma code_lookup_exact:
  assumes "module_ranges (lookup_map s)" and "rsize r > 0" and "\<forall>(b, e, _) \<in> set (lookup_map s). rend r \<le> b \<or> e \<le> rbegin r"
    and "s' = AssignRange r m s"
  shows "module_ranges (lookup_map s') \<and>
    LookupNativeModule s' pc = (if pc \<in> addrs r then Some m else LookupNativeModule s pc) \<and>
    LookupNativeModule (release_space r s') pc = LookupNativeModule s pc"
proof -
  have new: "rbegin r \<notin> fst ` set (lookup_map s)"
    using assms(1-3) by (fastforce simp: module_ranges_def rend_def)
  have map': "lookup_map s' = insort_key fst (rbegin r, rend r, m) (lookup_map s)" using new by (simp add: assms(4) AssignRange_def)
  have ok: "module_ranges (lookup_map s')"
    unfolding map' by (rule module_ranges_insort [OF assms(1) rend_less [OF assms(2)] assms(3)])
  have apart: "pc \<in> addrs r \<Longrightarrow> (b, e, k) \<in> set (lookup_map s) \<Longrightarrow> \<not> (b \<le> pc \<and> pc < e)" for b e k
    using assms(3) by (fastforce simp: addrs_def)
  have "LookupNativeModule s' pc = Some k \<longleftrightarrow> (if pc \<in> addrs r then Some m else LookupNativeModule s pc) = Some k" for k
    using apart LookupNativeModule_iff [OF ok, of pc k] LookupNativeModule_iff [OF assms(1), of pc k]
    by (auto simp: map' set_insort_key addrs_def)
  then have "LookupNativeModule s' pc = (if pc \<in> addrs r then Some m else LookupNativeModule s pc)"
    by (metis option.exhaust)
  moreover have "lookup_map (release_space r s') = lookup_map s"
    using filter_insort_fresh [of "(rbegin r, rend r, m)" "lookup_map s"] new by (simp add: release_space_def map')
  ultimately show ?thesis using ok by (simp add: LookupNativeModule_def)
qed

subsection \<open>Instances\<close>

text \<open>16-byte pages, 4-byte alignment, and four reservations of at most 64 bytes.\<close>

definition sample_env :: code_env where
  "sample_env = \<lparr>GetOverlap = interval_overlap, kCodeAlignment = 4, CommitPageSize = 16, AllocatePageSize = 16,
     wasm_max_code_space = 64, kDefaultMaxWasmCodeSpace = 64, SizeForNumberOfSlots = (\<lambda>n. 4 * n),
     SizeForNumberOfFarJumpSlots = (\<lambda>n. 4 * n), SizeForNumberOfLazyFunctions = (\<lambda>n. 4 * n),
     virtual_memory = (\<lambda>i h n. if i < 4 \<and> n \<le> 64 then Some (64 * (i + 1)) else None),
     recommit_succeeds = (\<lambda>_. True), mirror_answers = sample_answers\<lparr>vm_remap := (\<lambda>_. None)\<rparr>\<rparr>"

lemma sample_env_ok: "env_ok sample_env"
proof -
  have "16 dvd 64 * (i + 1)" for i :: nat by presburger
  moreover have "{64 * (i + 1)..<64 * (i + 1) + n} \<inter> {64 * (j + 1)..<64 * (j + 1) + n'} = {}" if "i < j" "n \<le> 64" for i j n n' :: nat
    using that by auto
  ultimately show ?thesis
    using interval_overlap_ok by (auto simp: env_ok_def sample_env_def size_max_def split: if_splits)
qed

definition sample_state :: code_state where
  "sample_state = new_state 1000 0 0 (initial_wx sample_vm)"

lemma sample_fields [simp]:
  "GetOverlap sample_env = interval_overlap" "kCodeAlignment sample_env = 4" "CommitPageSize sample_env = 16"
  "AllocatePageSize sample_env = 16" "wasm_max_code_space sample_env = 64" "recommit_succeeds sample_env i"
  "virtual_memory sample_env i h n = (if i < 4 \<and> n \<le> 64 then Some (64 * (i + 1)) else None)"
  "mirror_answers sample_env = sample_answers\<lparr>vm_remap := (\<lambda>_. None)\<rparr>"
  by (simp_all add: sample_env_def)

lemma no_mirror: "vm_remap A = (\<lambda>_. None) \<Longrightarrow> \<exists>w'. RegisterWasmCodeRange A a n w = (False, w')"
  by (auto simp: RegisterWasmCodeRange_def remap_def Let_def split: option.splits)

lemma sample_wrapper:
  "\<exists>s'. AllocateForCodeInRegion 3 sample_env None 10 kUnrestrictedRegion sample_state = Inr (region 64 12, s') \<and>
     committed s' = {64..<80} \<and> committed_code_space s' = 16"
proof -
  have "vm_remap (mirror_answers sample_env) = (\<lambda>_. None)" by simp
  from no_mirror [OF this] obtain w'
    where w: "RegisterWasmCodeRange (mirror_answers sample_env) (of_nat 64) (of_nat 16) (initial_wx sample_vm) = (False, w')" by blast
  have grow: "grow_code_space sample_env alloc None 12 sample_state =
      Inr (region 64 12, sample_state\<lparr>next_code_space_hint := 80, reservations := 1, mirror_state := w',
        owned_code_space := [region 64 16], free_code_space := [region 76 4]\<rparr>)" for alloc
    using w
    by (simp add: grow_code_space_def sample_state_def new_state_def ReservationSizeForWrappers_def RoundUp_def TryAllocate_def
        Let_def Init_def Merge_def pool_below_def pool_above_def set_insert_def Allocate_def AllocateInRegion_def take_from_def
        interval_overlap_def is_empty_def empty_region_def size_max_def set_erase_def)
  have three: "3 = Suc (Suc (Suc 0))" by simp
  have fields: "free_code_space sample_state = []" "page_calls sample_state = []" "committed_code_space sample_state = 0"
    "total_committed_code_space sample_state = 0" "max_committed_code_space sample_state = 1000"
    by (simp_all add: sample_state_def new_state_def)
  show ?thesis
    unfolding three AllocateForCodeInRegion.simps(2) [of "Suc (Suc 0)"] allocate_body_def
    by (simp del: AllocateForCodeInRegion.simps add: Let_def grow RoundUp_def AllocateInRegion_def fields is_empty_def
        empty_region_def commit_block_def Commit_def committed_def)
qed

theorem code_accounting_exact_witness:
  "\<exists>s. (code_step sample_env None)\<^sup>*\<^sup>* (sample_state, []) (s, [region 64 12]) \<and> pool_addrs [region 64 12] \<subseteq> committed s"
proof -
  obtain s where s: "AllocateForCodeInRegion 3 sample_env None 10 kUnrestrictedRegion sample_state = Inr (region 64 12, s)"
    using sample_wrapper by blast
  have run: "(code_step sample_env None)\<^sup>*\<^sup>* (sample_state, []) (s, [region 64 12])"
    using code_step.allocate [OF s, of "[]"] by blast
  show ?thesis using code_accounting_exact [OF sample_env_ok _ run [unfolded sample_state_def]] run by auto
qed

theorem FreeCode_decommits_exactly_witness:
  "\<exists>s. holds sample_env (s, [region 64 12]) \<and> freed (FreeCode sample_env [region 64 12] s) = freed s \<union> {64..<76}"
proof -
  obtain s where s: "AllocateForCodeInRegion 3 sample_env None 10 kUnrestrictedRegion sample_state = Inr (region 64 12, s)"
    using sample_wrapper by blast
  have h: "holds sample_env (s, [region 64 12])"
    using code_step_holds [OF sample_env_ok code_step.allocate [OF s, of "[]"]] new_state_holds by (simp add: sample_state_def)
  from FreeCode_decommits_exactly [OF sample_env_ok h refl, of "\<lambda>_. True"] h show ?thesis by auto
qed

theorem allocation_returns_witness: "AllocateForCode sample_env (1, 2) 10 sample_state \<noteq> Inl TooDeep"
proof -
  have "alloc_inv sample_env sample_state" using new_state_holds [of 0 1000] by (simp add: sample_state_def holds_def)
  from allocation_returns [OF sample_env_ok this, of 10 "(1, 2)"] show ?thesis by simp
qed

lemma code_lookup_exact_witness:
  "LookupNativeModule (AssignRange (region 64 16) 1 sample_state) 70 = Some 1"
  using code_lookup_exact [of sample_state "region 64 16" "AssignRange (region 64 16) 1 sample_state" 1 70]
  by (simp add: sample_state_def new_state_def module_ranges_def)

end
