(* ===== verification/Region_Map.thy ===== *)
theory Region_Map
  imports Blinker_Prelude
begin

text \<open>
  The maps from addresses to regions that \<^verbatim>\<open>v8/src/common/code-memory-access.cc\<close> keeps, a
  \<^verbatim>\<open>std::map\<close> ordered by address, as the list of its entries in that order, and
  \<^verbatim>\<open>CheckForRegionOverlap\<close>, which is a template over the two of them. The size of an entry is the
  parameter \<open>sz\<close>.
\<close>

type_synonym 'v rmap = "(nat \<times> 'v) list"

text \<open>The entries before and from \<^verbatim>\<open>upper_bound\<close> and \<^verbatim>\<open>lower_bound\<close>.\<close>

definition upto_key :: "nat \<Rightarrow> 'v rmap \<Rightarrow> 'v rmap" where "upto_key a m = filter (\<lambda>x. fst x \<le> a) m"
definition after_key :: "nat \<Rightarrow> 'v rmap \<Rightarrow> 'v rmap" where "after_key a m = filter (\<lambda>x. a < fst x) m"
definition before_key :: "nat \<Rightarrow> 'v rmap \<Rightarrow> 'v rmap" where "before_key a m = filter (\<lambda>x. fst x < a) m"
definition from_key :: "nat \<Rightarrow> 'v rmap \<Rightarrow> 'v rmap" where "from_key a m = filter (\<lambda>x. a \<le> fst x) m"

definition emplace :: "nat \<Rightarrow> 'v \<Rightarrow> 'v rmap \<Rightarrow> 'v rmap" where
  "emplace k v m = (if k \<in> fst ` set m then m else before_key k m @ (k, v) # after_key k m)"

definition erase :: "nat \<Rightarrow> 'v rmap \<Rightarrow> 'v rmap" where
  "erase k m = filter (\<lambda>x. fst x \<noteq> k) m"

definition map_merge :: "'v rmap \<Rightarrow> 'v rmap \<Rightarrow> 'v rmap" where
  "map_merge m n = fold (\<lambda>(k, v) m. emplace k v m) n m"

text \<open>Addresses and sizes are 64 bits wide.\<close>

definition add64 :: "nat \<Rightarrow> nat \<Rightarrow> nat" where
  "add64 a n = (a + n) mod 2 ^ 64"

definition CheckForRegionOverlap :: "('v \<Rightarrow> nat) \<Rightarrow> 'v rmap \<Rightarrow> nat \<Rightarrow> nat \<Rightarrow> bool" where
  "CheckForRegionOverlap sz m addr n \<longleftrightarrow>
     addr \<le> add64 addr n \<and>
     (case after_key addr m of [] \<Rightarrow> True | (next_addr, _) # _ \<Rightarrow> n \<le> next_addr - addr) \<and>
     (upto_key addr m = [] \<or>
      (let (prev_addr, prev_entry) = last (upto_key addr m) in sz prev_entry \<le> addr - prev_addr))"

subsection \<open>Disjoint regions\<close>

definition regions_ok :: "('v \<Rightarrow> nat) \<Rightarrow> 'v rmap \<Rightarrow> bool" where
  "regions_ok sz m \<longleftrightarrow>
     sorted_wrt (\<lambda>(a, v) (b, w). a + sz v \<le> b) m \<and> (\<forall>(a, v) \<in> set m. 0 < sz v \<and> a + sz v < 2 ^ 64)"

text \<open>A region that no entry of the map touches.\<close>

definition free_of :: "('v \<Rightarrow> nat) \<Rightarrow> 'v rmap \<Rightarrow> nat \<Rightarrow> nat \<Rightarrow> bool" where
  "free_of sz m addr n \<longleftrightarrow> (\<forall>(a, v) \<in> set m. a + sz v \<le> addr \<or> addr + n \<le> a)"

named_theorems bound_simps

lemmas [bound_simps] = upto_key_def after_key_def before_key_def from_key_def

lemma regions_ok_simps [simp]:
  "regions_ok sz []"
  "regions_ok sz ((a, v) # m) \<longleftrightarrow>
     0 < sz v \<and> a + sz v < 2 ^ 64 \<and> (\<forall>(b, w) \<in> set m. a + sz v \<le> b) \<and> regions_ok sz m"
  by (auto simp: regions_ok_def)

lemma regions_ok_filter [simp]: "regions_ok sz m \<Longrightarrow> regions_ok sz (filter P m)"
  by (auto simp: regions_ok_def sorted_wrt_filter)

lemma regions_ok_append:
  "regions_ok sz (m @ n) \<longleftrightarrow>
     regions_ok sz m \<and> regions_ok sz n \<and> (\<forall>(a, v) \<in> set m. \<forall>(b, w) \<in> set n. a + sz v \<le> b)"
  by (auto simp: regions_ok_def sorted_wrt_append)

lemma regions_ok_bounds [simp]:
  assumes "regions_ok sz m"
  shows "regions_ok sz (upto_key a m)" "regions_ok sz (after_key a m)"
    "regions_ok sz (before_key a m)" "regions_ok sz (from_key a m)" "regions_ok sz (erase a m)"
  using assms by (simp_all add: bound_simps erase_def)

lemma entry_bounds:
  assumes "regions_ok sz m" "(a, v) \<in> set m"
  shows "0 < sz v" "a + sz v < 2 ^ 64"
  using assms by (auto simp: regions_ok_def)

text \<open>Two entries are equal or apart.\<close>

lemma entries_apart:
  assumes "regions_ok sz m" "(a, v) \<in> set m" "(b, w) \<in> set m"
  shows "(a, v) = (b, w) \<or> a + sz v \<le> b \<or> b + sz w \<le> a"
  using assms by (induction m) auto

lemma keys_unique:
  assumes "regions_ok sz m" "(a, v) \<in> set m" "(a, w) \<in> set m"
  shows "v = w"
  using entries_apart [OF assms] entry_bounds [OF assms(1,2)] entry_bounds [OF assms(1,3)] by auto

lemma map_of_entry:
  assumes "regions_ok sz m"
  shows "map_of m a = Some v \<longleftrightarrow> (a, v) \<in> set m"
  using assms by (induction m) (auto dest: keys_unique)

text \<open>The list splits at a key.\<close>

lemma keys_sorted: "regions_ok sz m \<Longrightarrow> sorted_wrt (\<lambda>x y. fst x < fst y) m"
  by (induction m) fastforce+

lemma split_at_key:
  assumes "regions_ok sz m"
  shows "m = upto_key a m @ after_key a m" "m = before_key a m @ from_key a m"
proof -
  have "m = filter P m @ filter (\<lambda>x. \<not> P x) m" if down: "\<And>x y. fst x < fst y \<Longrightarrow> P y \<Longrightarrow> P x" for P
    using keys_sorted [OF assms]
  proof (induction m)
    case (Cons x m)
    show ?case
    proof (cases "P x")
      case False
      have "\<not> P y" if "y \<in> set m" for y
        using down [of x y] False Cons.prems that by auto
      then have "filter P m = []" by (simp add: filter_empty_conv)
      moreover from this have "filter (\<lambda>x. \<not> P x) m = m" by (simp add: filter_empty_conv)
      ultimately show ?thesis using False by simp
    qed (use Cons in simp)
  qed simp
  from this [of "\<lambda>x. fst x \<le> a"] this [of "\<lambda>x. fst x < a"]
  show "m = upto_key a m @ after_key a m" "m = before_key a m @ from_key a m"
    by (simp_all add: bound_simps not_le not_less)
qed

lemma regions_ok_appendD:
  assumes "regions_ok sz (m @ (b, v) # n)" "(k, w) \<in> set m"
  shows "k + sz w \<le> b" "k < b"
proof -
  show le: "k + sz w \<le> b" using assms by (auto simp: regions_ok_append)
  have "0 < sz w" using entry_bounds(1) [OF assms(1), of k w] assms(2) by simp
  with le show "k < b" by simp
qed

lemma set_bounds:
  "x \<in> set (upto_key a m) \<longleftrightarrow> x \<in> set m \<and> fst x \<le> a"
  "x \<in> set (after_key a m) \<longleftrightarrow> x \<in> set m \<and> a < fst x"
  "x \<in> set (before_key a m) \<longleftrightarrow> x \<in> set m \<and> fst x < a"
  "x \<in> set (from_key a m) \<longleftrightarrow> x \<in> set m \<and> a \<le> fst x"
  by (auto simp: bound_simps)

text \<open>The last entry that starts at or before an address: every other such entry ends before it.\<close>

lemma last_upto:
  assumes "regions_ok sz m" "upto_key a m \<noteq> []" "last (upto_key a m) = (b, v)"
  shows "(b, v) \<in> set m" "b \<le> a" "m = before_key b m @ (b, v) # after_key a m" "before_key b m = butlast (upto_key a m)"
    "after_key a m = after_key b m"
proof -
  let ?u = "upto_key a m"
  have u: "?u = butlast ?u @ [(b, v)]" using assms(2,3) by (metis append_butlast_last_id)
  have "(b, v) \<in> set ?u" using u by (metis in_set_conv_decomp)
  then show mem: "(b, v) \<in> set m" and "b \<le> a" by (auto simp: set_bounds)
  have m: "m = butlast ?u @ (b, v) # after_key a m"
    using split_at_key(1) [OF assms(1), of a] u by (metis append.assoc append_Cons append_Nil)
  have ok: "regions_ok sz (butlast ?u @ (b, v) # after_key a m)" using assms(1) by (simp only: m [symmetric])
  have lt: "fst x < b" if "x \<in> set (butlast ?u)" for x
    using regions_ok_appendD(2) [OF ok, of "fst x" "snd x"] that by simp
  have gt: "b < fst x" if "x \<in> set (after_key a m)" for x
    using that \<open>b \<le> a\<close> by (simp add: set_bounds)
  have "before_key b (butlast ?u @ (b, v) # after_key a m) = butlast ?u"
    using lt gt by (simp add: before_key_def filter_id_conv filter_empty_conv less_imp_le not_less)
  then show bb: "before_key b m = butlast ?u" by (simp only: m [symmetric])
  show "m = before_key b m @ (b, v) # after_key a m" by (simp only: bb m [symmetric])
  have "after_key b (butlast ?u @ (b, v) # after_key a m) = after_key a m"
    using lt gt by (simp add: after_key_def [of b] filter_id_conv filter_empty_conv less_imp_le not_less)
  then show "after_key a m = after_key b m" by (simp only: m [symmetric])
qed

lemma first_after:
  assumes "regions_ok sz m" "after_key a m = (b, v) # rest" "(k, w) \<in> set m" "a < k"
  shows "b \<le> k"
proof -
  have "(k, w) \<in> set (after_key a m)" using assms(3,4) by (simp add: set_bounds)
  moreover have "regions_ok sz ((b, v) # rest)" using assms(1,2) by (metis regions_ok_bounds(2))
  ultimately show ?thesis using assms(2) by auto
qed

lemma last_upto_max:
  assumes "regions_ok sz m" "last (upto_key a m) = (b, v)" "(k, w) \<in> set m" "k \<le> a"
  shows "(k, w) = (b, v) \<or> k + sz w \<le> b"
proof -
  have "(k, w) \<in> set (upto_key a m)" using assms(3,4) by (simp add: set_bounds)
  then have "upto_key a m \<noteq> []" by auto
  from last_upto [OF assms(1) this assms(2)] have m: "m = before_key b m @ (b, v) # after_key a m" by blast
  then have "(k, w) \<in> set (before_key b m) \<or> (k, w) = (b, v)"
    using assms(3,4) by (metis Un_iff insert_iff list.simps(15) not_less set_append set_bounds(2) fst_conv)
  moreover have "regions_ok sz (before_key b m @ (b, v) # after_key a m)" using assms(1) by (simp only: m [symmetric])
  ultimately show ?thesis using regions_ok_appendD(1) [of sz "before_key b m" b v "after_key a m" k w] by blast
qed

text \<open>The check lets through exactly the regions that fit the address space and touch no entry.\<close>

lemma CheckForRegionOverlap_exact:
  assumes "regions_ok sz m" "addr < 2 ^ 64" "0 < n" "n < 2 ^ 64"
  shows "CheckForRegionOverlap sz m addr n \<longleftrightarrow> addr + n < 2 ^ 64 \<and> free_of sz m addr n"
proof -
  have wrap: "addr \<le> add64 addr n \<longleftrightarrow> addr + n < 2 ^ 64"
    using assms(2-4) by (auto simp: add64_def mod_if)
  have nxt: "(case after_key addr m of [] \<Rightarrow> True | (next_addr, _) # _ \<Rightarrow> n \<le> next_addr - addr) \<longleftrightarrow>
      (\<forall>(k, w) \<in> set m. addr < k \<longrightarrow> addr + n \<le> k)"
  proof (cases "after_key addr m")
    case Nil
    then show ?thesis by (auto simp: bound_simps filter_empty_conv)
  next
    case (Cons x rest)
    obtain b v where x: "x = (b, v)" by force
    have "(b, v) \<in> set m" "addr < b" using Cons x by (auto simp: bound_simps filter_eq_Cons_iff)
    with first_after [OF assms(1) Cons [unfolded x]] show ?thesis
      by (auto simp: Cons x) fastforce+
  qed
  have prev: "upto_key addr m = [] \<or> (let (prev_addr, prev_entry) = last (upto_key addr m) in sz prev_entry \<le> addr - prev_addr) \<longleftrightarrow>
      (\<forall>(k, w) \<in> set m. k \<le> addr \<longrightarrow> k + sz w \<le> addr)"
  proof (cases "upto_key addr m = []")
    case True
    then show ?thesis by (auto simp: bound_simps filter_empty_conv)
  next
    case False
    obtain b v where l: "last (upto_key addr m) = (b, v)" by force
    note lu = last_upto [OF assms(1) False l]
    with last_upto_max [OF assms(1) l] False show ?thesis
      by (auto simp: l) fastforce+
  qed
  have "free_of sz m addr n \<longleftrightarrow>
      (\<forall>(k, w) \<in> set m. addr < k \<longrightarrow> addr + n \<le> k) \<and> (\<forall>(k, w) \<in> set m. k \<le> addr \<longrightarrow> k + sz w \<le> addr)"
    using assms(3) entry_bounds(1) [OF assms(1)] by (fastforce simp: free_of_def)
  then show ?thesis unfolding CheckForRegionOverlap_def wrap nxt prev by blast
qed

text \<open>A checked region can be entered.\<close>

lemma emplace_free:
  assumes "regions_ok sz m" "free_of sz m addr (sz v)" "0 < sz v" "addr + sz v < 2 ^ 64"
  shows "regions_ok sz (emplace addr v m)" "set (emplace addr v m) = insert (addr, v) (set m)"
proof -
  have fresh: "addr \<notin> fst ` set m"
    using assms(2,3) entry_bounds(1) [OF assms(1)] by (fastforce simp: free_of_def)
  have after: "k + sz w \<le> addr \<longleftrightarrow> k < addr" "addr + sz v \<le> k \<longleftrightarrow> addr < k" if "(k, w) \<in> set m" for k w
    using that assms(2,3) entry_bounds(1) [OF assms(1) that] fresh by (fastforce simp: free_of_def)+
  show "set (emplace addr v m) = insert (addr, v) (set m)"
    using fresh by (auto simp: emplace_def set_bounds) (metis fst_conv image_eqI not_less_iff_gr_or_eq)
  have "k + sz w \<le> j" if "(k, w) \<in> set m" "(j, x) \<in> set m" "k < addr" "addr < j" for k w j x
    using after that by fastforce
  then show "regions_ok sz (emplace addr v m)"
    using assms fresh after by (auto simp: emplace_def regions_ok_append set_bounds)
qed

end
