(* ===== verification/Jit_Pages.thy ===== *)
theory Jit_Pages
  imports Region_Map
begin

text \<open>
  The registry of executable memory, \<^verbatim>\<open>ThreadIsolation\<close> in \<^verbatim>\<open>v8/src/common/code-memory-access.cc\<close>
  and its inline part: JIT pages and the allocations on them. Every write to code first looks its
  target up here, and the \<^verbatim>\<open>CHECK\<close>s treat the requests as untrusted; a failed check ends the process
  and is the value \<open>None\<close> of the model. Pages are merged and split behind the callers' backs.

  Requests are untrusted and their sums are 64-bit (\<open>add64\<close>); the end of a page does not wrap, because
  \<^verbatim>\<open>RegisterJitPage\<close> checks it and pages only merge with their neighbours or shrink.

  Every operation runs under the mutex of the map or of the page and is one step; a reference to a page is its
  address. Protection keys are not available on iOS, so \<^verbatim>\<open>Enabled()\<close> is false and objects come from
  \<^verbatim>\<open>operator new\<close>.
\<close>

subsection \<open>Data\<close>

datatype jit_type = kInstructionStream | kWasmCode | kWasmJumpTable | kWasmFarJumpTable | kWasmLazyCompileTable

record jit_alloc =
  alloc_size :: nat
  alloc_type :: jit_type

record jit_page =
  page_bytes :: nat
  allocations :: "jit_alloc rmap"

type_synonym jit_pages = "jit_page rmap"

definition page_at :: "jit_pages \<Rightarrow> nat \<Rightarrow> jit_page option" where "page_at P a = map_of P a"

definition set_page :: "nat \<Rightarrow> jit_page \<Rightarrow> jit_pages \<Rightarrow> jit_pages" where
  "set_page a p P = map (\<lambda>x. if fst x = a then (a, p) else x) P"

subsection \<open>Pages\<close>

definition Merge :: "jit_page \<Rightarrow> jit_page \<Rightarrow> jit_page" where
  "Merge p next = p\<lparr>page_bytes := page_bytes p + page_bytes next, allocations := map_merge (allocations p) (allocations next)\<rparr>"

text \<open>\<open>Shrink\<close> of the page at \<open>a\<close>: the shrunk page and the tail.\<close>

definition Shrink :: "nat \<Rightarrow> jit_page \<Rightarrow> nat \<Rightarrow> jit_page \<times> jit_page" where
  "Shrink a p tail_size =
     (let n = page_bytes p - tail_size; e = a + n
      in (p\<lparr>page_bytes := n, allocations := before_key e (allocations p)\<rparr>,
          \<lparr>page_bytes = tail_size, allocations = from_key e (allocations p)\<rparr>))"

text \<open>The loop of \<^verbatim>\<open>TryLookupJitPageLocked\<close> that merges the following pages, with the pages left over.\<close>

fun merge_loop :: "nat \<Rightarrow> nat \<Rightarrow> jit_page \<Rightarrow> jit_pages \<Rightarrow> (jit_page \<times> jit_pages) option" where
  "merge_loop a e p [] = Some (p, [])"
| "merge_loop a e p ((b, q) # rest) =
     (if a + page_bytes p < e
      then (if b = a + page_bytes p then merge_loop a e (Merge p q) rest else None)
      else Some (p, (b, q) # rest))"

definition TryLookupJitPageLocked :: "nat \<Rightarrow> nat \<Rightarrow> jit_pages \<Rightarrow> (jit_pages \<times> nat option) option" where
  "TryLookupJitPageLocked addr n P =
     (let e = add64 addr n in
      if \<not> addr < e then None
      else if upto_key addr P = [] then Some (P, None)
      else (let (a, p) = last (upto_key addr P) in
        if a + page_bytes p \<le> addr then Some (P, None)
        else if e \<le> a + page_bytes p then Some (P, Some a)
        else (case merge_loop a e p (after_key addr P) of
            None \<Rightarrow> None
          | Some (p', rest) \<Rightarrow>
              Some (before_key a P @ (a, p') # rest, if a + page_bytes p' < e then None else Some a))))"

definition LookupJitPage :: "nat \<Rightarrow> nat \<Rightarrow> jit_pages \<Rightarrow> (jit_pages \<times> nat) option" where
  "LookupJitPage addr n P =
     (case TryLookupJitPageLocked addr n P of Some (P, Some a) \<Rightarrow> Some (P, a) | _ \<Rightarrow> None)"

definition RegisterJitPage :: "nat \<Rightarrow> nat \<Rightarrow> jit_pages \<Rightarrow> jit_pages option" where
  "RegisterJitPage address n P =
     (if CheckForRegionOverlap page_bytes P address n
      then Some (emplace address \<lparr>page_bytes = n, allocations = []\<rparr> P) else None)"

definition UnregisterJitPage :: "nat \<Rightarrow> nat \<Rightarrow> jit_pages \<Rightarrow> jit_pages option" where
  "UnregisterJitPage address n P =
     (case LookupJitPage address n P of None \<Rightarrow> None
      | Some (P, a) \<Rightarrow> (case page_at P a of None \<Rightarrow> None
        | Some p \<Rightarrow>
            (let to_free_end = address + n; jit_page_end = a + page_bytes p;
                 (p, P) = (if to_free_end < jit_page_end
                           then (let (p', tail) = Shrink a p (jit_page_end - to_free_end)
                                 in (p', emplace to_free_end tail (set_page a p' P)))
                           else (p, P))
             in if address = a then Some (erase a P)
                else Some (set_page a (fst (Shrink a p n)) P))))"

definition SplitJitPage :: "nat \<Rightarrow> nat \<Rightarrow> jit_pages \<Rightarrow> (jit_pages \<times> nat) option" where
  "SplitJitPage addr n P =
     (case LookupJitPage addr n P of None \<Rightarrow> None
      | Some (P, a) \<Rightarrow> (case page_at P a of None \<Rightarrow> None
        | Some p \<Rightarrow>
            (let head_size = addr - a; tail_size = page_bytes p - n - head_size;
                 (p, P) = (if 0 < tail_size
                           then (let (p', tail) = Shrink a p tail_size in (p', emplace (addr + n) tail (set_page a p' P)))
                           else (p, P))
             in if 0 < head_size
                then (let (p', mid) = Shrink a p n in Some (emplace addr mid (set_page a p' P), addr))
                else Some (P, a))))"

definition SplitJitPages :: "nat \<Rightarrow> nat \<Rightarrow> nat \<Rightarrow> nat \<Rightarrow> jit_pages \<Rightarrow> (jit_pages \<times> nat \<times> nat) option" where
  "SplitJitPages addr1 n1 addr2 n2 P =
     (let split = (\<lambda>a m b k P. if add64 a m \<le> b
                     then (case SplitJitPage a m P of None \<Rightarrow> None
                           | Some (P, r1) \<Rightarrow> (case SplitJitPage b k P of None \<Rightarrow> None | Some (P, r2) \<Rightarrow> Some (P, r1, r2)))
                     else None)
      in if addr2 < addr1 then (case split addr2 n2 addr1 n1 P of None \<Rightarrow> None | Some (P, r1, r2) \<Rightarrow> Some (P, r2, r1))
         else split addr1 n1 addr2 n2 P)"

subsection \<open>Allocations on a page\<close>

definition RegisterAllocation :: "nat \<Rightarrow> nat \<Rightarrow> nat \<Rightarrow> jit_type \<Rightarrow> jit_page \<Rightarrow> jit_page option" where
  "RegisterAllocation a addr n t p =
     (let offset = addr - a; end_offset = add64 offset n in
      if a \<le> addr \<and> offset < end_offset \<and> offset < page_bytes p \<and> end_offset \<le> page_bytes p \<and>
         CheckForRegionOverlap alloc_size (allocations p) addr n
      then Some (p\<lparr>allocations := emplace addr \<lparr>alloc_size = n, alloc_type = t\<rparr> (allocations p)\<rparr>) else None)"

definition LookupAllocation :: "nat \<Rightarrow> nat \<Rightarrow> jit_type \<Rightarrow> jit_page \<Rightarrow> jit_alloc option" where
  "LookupAllocation addr n t p =
     (case map_of (allocations p) addr of None \<Rightarrow> None
      | Some x \<Rightarrow> if alloc_size x = n \<and> alloc_type x = t then Some x else None)"

definition Contains :: "nat \<Rightarrow> nat \<Rightarrow> jit_type \<Rightarrow> jit_page \<Rightarrow> bool" where
  "Contains addr n t p \<longleftrightarrow>
     (case map_of (allocations p) addr of None \<Rightarrow> False | Some x \<Rightarrow> alloc_size x = n \<and> alloc_type x = t)"

definition UnregisterAllocation :: "nat \<Rightarrow> jit_page \<Rightarrow> jit_page option" where
  "UnregisterAllocation addr p =
     (if addr \<in> fst ` set (allocations p) then Some (p\<lparr>allocations := erase addr (allocations p)\<rparr>) else None)"

definition AllocationIsBehindRange :: "nat \<Rightarrow> nat \<Rightarrow> nat \<times> jit_alloc \<Rightarrow> bool option" where
  "AllocationIsBehindRange range_start range_size x =
     (let range_end = add64 range_start range_size; (allocation_start, y) = x;
          allocation_end = add64 allocation_start (alloc_size y)
      in if range_end \<le> allocation_start then Some True
         else if allocation_end \<le> range_end then Some False else None)"

text \<open>The loop of \<^verbatim>\<open>UnregisterRange\<close>: the entries from its end on.\<close>

fun range_rest :: "nat \<Rightarrow> nat \<Rightarrow> jit_alloc rmap \<Rightarrow> jit_alloc rmap option" where
  "range_rest start n [] = Some []"
| "range_rest start n (x # rest) =
     (case AllocationIsBehindRange start n x of None \<Rightarrow> None
      | Some behind \<Rightarrow> if behind then Some (x # rest) else range_rest start n rest)"

definition UnregisterRange :: "nat \<Rightarrow> nat \<Rightarrow> jit_page \<Rightarrow> jit_page option" where
  "UnregisterRange start n p =
     (case range_rest start n (from_key start (allocations p)) of None \<Rightarrow> None
      | Some rest \<Rightarrow> Some (p\<lparr>allocations := before_key start (allocations p) @ rest\<rparr>))"

text \<open>
  The loop of \<^verbatim>\<open>UnregisterAllocationsExcept\<close>: the entries kept and the rest of \<open>keep\<close>. The iterators
  of a range that wraps do not meet in the code; such a range is outside the model.
\<close>

fun keep_loop :: "jit_alloc rmap \<Rightarrow> nat list \<Rightarrow> jit_alloc rmap \<times> nat list" where
  "keep_loop [] keep = ([], keep)"
| "keep_loop (x # rest) [] = ([], [])"
| "keep_loop (x # rest) (k # keep) =
     (if fst x = k then (let (kept, left) = keep_loop rest keep in (x # kept, left)) else keep_loop rest (k # keep))"

definition UnregisterAllocationsExcept :: "nat \<Rightarrow> nat \<Rightarrow> nat list \<Rightarrow> jit_page \<Rightarrow> jit_page option" where
  "UnregisterAllocationsExcept start n keep p =
     (let m = allocations p; prior = before_key start m; stop = add64 start n;
          inner = takeWhile (\<lambda>x. fst x < stop) (from_key start m);
          (kept_before, candidates) = (if prior = [] then ([], inner) else (butlast prior, last prior # inner));
          (kept, left) = keep_loop candidates keep
      in if left = [] then Some (p\<lparr>allocations := kept_before @ kept @ from_key stop m\<rparr>) else None)"

definition AllocationContaining :: "nat \<Rightarrow> jit_page \<Rightarrow> (nat \<times> jit_alloc) option" where
  "AllocationContaining inner_pointer p =
     (if upto_key inner_pointer (allocations p) = [] then None
      else (let (a, x) = last (upto_key inner_pointer (allocations p))
            in if inner_pointer - a < alloc_size x then Some (a, x) else None))"

definition StartOfAllocationAt :: "nat \<Rightarrow> jit_page \<Rightarrow> nat option" where
  "StartOfAllocationAt inner_pointer p = map_option fst (AllocationContaining inner_pointer p)"

subsection \<open>The operations of the registry\<close>

text \<open>An operation on the page that spans a range.\<close>

definition on_page :: "nat \<Rightarrow> nat \<Rightarrow> (nat \<Rightarrow> jit_page \<Rightarrow> jit_page option) \<Rightarrow> jit_pages \<Rightarrow> jit_pages option" where
  "on_page addr n f P =
     (case LookupJitPage addr n P of None \<Rightarrow> None
      | Some (P, a) \<Rightarrow> (case page_at P a of None \<Rightarrow> None
        | Some p \<Rightarrow> (case f a p of None \<Rightarrow> None | Some p' \<Rightarrow> Some (set_page a p' P))))"

definition RegisterJitAllocation :: "nat \<Rightarrow> nat \<Rightarrow> jit_type \<Rightarrow> jit_pages \<Rightarrow> jit_pages option" where
  "RegisterJitAllocation addr n t = on_page addr n (\<lambda>a. RegisterAllocation a addr n t)"

definition LookupJitAllocation :: "nat \<Rightarrow> nat \<Rightarrow> jit_type \<Rightarrow> jit_pages \<Rightarrow> jit_pages option" where
  "LookupJitAllocation addr n t = on_page addr n (\<lambda>a p. case LookupAllocation addr n t p of None \<Rightarrow> None | Some _ \<Rightarrow> Some p)"

definition UnregisterWasmAllocation :: "nat \<Rightarrow> nat \<Rightarrow> jit_pages \<Rightarrow> jit_pages option" where
  "UnregisterWasmAllocation addr n = on_page addr n (\<lambda>a. UnregisterAllocation addr)"

text \<open>\<^verbatim>\<open>WritableJitPage::FreeRange\<close> on the page looked up for \<open>page_addr\<close>, \<open>page_n\<close>.\<close>

definition FreeRange :: "nat \<Rightarrow> nat \<Rightarrow> nat \<Rightarrow> nat \<Rightarrow> jit_pages \<Rightarrow> jit_pages option" where
  "FreeRange page_addr page_n addr n = on_page page_addr page_n (\<lambda>a. UnregisterRange addr n)"

fun register_all :: "nat \<Rightarrow> nat \<Rightarrow> nat list \<Rightarrow> jit_type \<Rightarrow> jit_page \<Rightarrow> jit_page option" where
  "register_all a start [] t p = Some p"
| "register_all a start (n # sizes) t p =
     (case RegisterAllocation a start n t p of None \<Rightarrow> None
      | Some p \<Rightarrow> register_all a (add64 start n) sizes t p)"

definition kSplitThreshold :: nat where "kSplitThreshold = 0x40000"

definition RegisterJitAllocations :: "nat \<Rightarrow> nat list \<Rightarrow> jit_type \<Rightarrow> jit_pages \<Rightarrow> jit_pages option" where
  "RegisterJitAllocations start sizes t P =
     (let total_size = fold (\<lambda>n total. add64 total n) sizes 0 in
      case (if kSplitThreshold \<le> total_size then SplitJitPage start total_size P else LookupJitPage start total_size P) of
        None \<Rightarrow> None
      | Some (P, a) \<Rightarrow> (case page_at P a of None \<Rightarrow> None
        | Some p \<Rightarrow> (case register_all a start sizes t p of None \<Rightarrow> None | Some p' \<Rightarrow> Some (set_page a p' P))))"

definition StartOfJitAllocationAt :: "nat \<Rightarrow> jit_pages \<Rightarrow> (jit_pages \<times> nat option) option" where
  "StartOfJitAllocationAt inner_pointer P =
     (case TryLookupJitPageLocked inner_pointer 1 P of None \<Rightarrow> None
      | Some (P, None) \<Rightarrow> Some (P, None)
      | Some (P, Some a) \<Rightarrow> (case page_at P a of None \<Rightarrow> None
        | Some p \<Rightarrow> (case StartOfAllocationAt inner_pointer p of None \<Rightarrow> None | Some b \<Rightarrow> Some (P, Some b))))"

text \<open>
  The question the profiler asks from a signal handler before it looks an address up: are the mutex of the map
  and the mutex of the page before the address free?
\<close>

definition CanLookupStartOfJitAllocationAt :: "bool \<Rightarrow> (nat \<Rightarrow> bool) \<Rightarrow> nat \<Rightarrow> jit_pages \<Rightarrow> bool" where
  "CanLookupStartOfJitAllocationAt pages_mutex_free page_mutex_free inner_pointer P \<longleftrightarrow>
     pages_mutex_free \<and> upto_key inner_pointer P \<noteq> [] \<and> page_mutex_free (fst (last (upto_key inner_pointer P)))"

definition LookupJumpTableAllocations :: "nat \<Rightarrow> nat \<Rightarrow> nat \<Rightarrow> nat \<Rightarrow> jit_pages \<Rightarrow> jit_pages option" where
  "LookupJumpTableAllocations jump_addr jump_n far_addr far_n P =
     (case SplitJitPages far_addr far_n jump_addr jump_n P of None \<Rightarrow> None
      | Some (P, r1, r2) \<Rightarrow> (case (page_at P r2, page_at P r1) of
          (Some p2, Some p1) \<Rightarrow>
            if Contains jump_addr jump_n kWasmJumpTable p2 \<and> Contains far_addr far_n kWasmFarJumpTable p1 then Some P else None
        | _ \<Rightarrow> None))"

end
