(* ===== verification/Jit_Registry.thy ===== *)
theory Jit_Registry
  imports Jit_Pages
begin

text \<open>
  What the JIT page registry of \<open>Jit_Pages\<close> promises: the pages are an implementation detail, and every
  operation is determined by the set of covered addresses and the set of allocations (the abstract registry, and
  the locale \<open>registry_contract\<close> that lifts the simulation of one request to runs). The allocations stay disjoint
  as long as no page boundary is drawn through one of them; the last section shows what the checks miss when one is.
\<close>

subsection \<open>The abstraction and the invariant\<close>

definition page_ok :: "nat \<Rightarrow> jit_page \<Rightarrow> bool" where
  "page_ok a p \<longleftrightarrow> regions_ok alloc_size (allocations p) \<and>
     (\<forall>(b, y) \<in> set (allocations p). a \<le> b \<and> b + alloc_size y \<le> a + page_bytes p)"

definition pages_ok :: "jit_pages \<Rightarrow> bool" where
  "pages_ok P \<longleftrightarrow> regions_ok page_bytes P \<and> (\<forall>(a, p) \<in> set P. page_ok a p)"

definition covered :: "jit_pages \<Rightarrow> nat set" where
  "covered P = (\<Union>(a, p) \<in> set P. {a ..< a + page_bytes p})"

definition allocs :: "jit_pages \<Rightarrow> (nat \<times> jit_alloc) set" where
  "allocs P = (\<Union>(a, p) \<in> set P. set (allocations p))"

text \<open>Two maps that a caller cannot tell apart.\<close>

definition same_view :: "jit_pages \<Rightarrow> jit_pages \<Rightarrow> bool" where
  "same_view P Q \<longleftrightarrow> pages_ok P \<and> pages_ok Q \<and> covered P = covered Q \<and> allocs P = allocs Q"

lemma view_simps [simp]:
  "covered [] = {}" "covered ((a, p) # P) = {a ..< a + page_bytes p} \<union> covered P" "covered (P @ Q) = covered P \<union> covered Q"
  "allocs [] = {}" "allocs ((a, p) # P) = set (allocations p) \<union> allocs P" "allocs (P @ Q) = allocs P \<union> allocs Q"
  by (auto simp: covered_def allocs_def)

lemma pages_ok_simps [simp]:
  "pages_ok []"
  "pages_ok ((a, p) # P) \<longleftrightarrow>
     0 < page_bytes p \<and> a + page_bytes p < 2 ^ 64 \<and> page_ok a p \<and> (\<forall>(b, q) \<in> set P. a + page_bytes p \<le> b) \<and> pages_ok P"
  by (auto simp: pages_ok_def)

lemma pages_ok_append:
  "pages_ok (P @ Q) \<longleftrightarrow> pages_ok P \<and> pages_ok Q \<and> (\<forall>(a, p) \<in> set P. \<forall>(b, q) \<in> set Q. a + page_bytes p \<le> b)"
  by (auto simp: pages_ok_def regions_ok_append)

lemma pages_regions: "pages_ok P \<Longrightarrow> regions_ok page_bytes P"
  by (simp add: pages_ok_def)

text \<open>Where the addresses and the allocations of the pages that start at or after an address are.\<close>

lemma covered_from: "pages_ok P \<Longrightarrow> \<forall>(b, q) \<in> set P. e \<le> b \<Longrightarrow> x \<in> covered P \<Longrightarrow> e \<le> x"
  by (fastforce simp: covered_def)

lemma allocs_bounds:
  assumes "pages_ok P" "(b, y) \<in> allocs P"
  shows "0 < alloc_size y" "b + alloc_size y < 2 ^ 64" "b \<in> covered P"
proof -
  from assms(2) obtain a p where ap: "(a, p) \<in> set P" "(b, y) \<in> set (allocations p)" by (auto simp: allocs_def)
  with assms(1) have ok: "page_ok a p" "regions_ok page_bytes P" by (auto simp: pages_ok_def)
  show "0 < alloc_size y" "b + alloc_size y < 2 ^ 64"
    using entry_bounds [of alloc_size "allocations p" b y] ok ap by (auto simp: page_ok_def)
  moreover have "a \<le> b" "b + alloc_size y \<le> a + page_bytes p" using ok(1) ap(2) by (auto simp: page_ok_def)
  ultimately have "b \<in> {a ..< a + page_bytes p}" by simp
  then show "b \<in> covered P" using ap(1) unfolding covered_def by blast
qed

lemma alloc_covered:
  assumes "pages_ok P" "(b, y) \<in> allocs P"
  shows "{b ..< b + alloc_size y} \<subseteq> covered P"
proof -
  from assms(2) obtain a p where ap: "(a, p) \<in> set P" "(b, y) \<in> set (allocations p)" by (auto simp: allocs_def)
  with assms(1) have "page_ok a p" by (auto simp: pages_ok_def)
  with ap(2) have "{b ..< b + alloc_size y} \<subseteq> {a ..< a + page_bytes p}" by (auto simp: page_ok_def)
  with ap(1) show ?thesis unfolding covered_def by blast
qed

subsection \<open>Merging\<close>

lemma map_merge_append:
  assumes "sorted_wrt (\<lambda>x y. fst x < fst y) (m @ n)"
  shows "map_merge m n = m @ n"
  using assms
proof (induction n arbitrary: m)
  case (Cons x n)
  obtain k v where x: "x = (k, v)" by force
  have lt: "fst y < k" if "y \<in> set m" for y using Cons.prems that by (auto simp: x sorted_wrt_append)
  have "before_key k m = m" "after_key k m = []" "k \<notin> fst ` set m"
    using lt by (auto simp: bound_simps filter_id_conv filter_empty_conv dest: less_imp_le) fastforce
  then have "emplace k v m = m @ [(k, v)]" by (simp add: emplace_def)
  then show ?case using Cons by (simp add: map_merge_def x)
qed (simp add: map_merge_def)

lemma Merge_ok:
  assumes "pages_ok ((a, p) # (a + page_bytes p, q) # rest)"
  shows "pages_ok ((a, Merge p q) # rest)" "covered ((a, Merge p q) # rest) = covered ((a, p) # (a + page_bytes p, q) # rest)"
    "allocs ((a, Merge p q) # rest) = allocs ((a, p) # (a + page_bytes p, q) # rest)"
    "page_bytes p < page_bytes (Merge p q)"
proof -
  have ok: "regions_ok alloc_size (allocations p @ allocations q)"
    using assms by (fastforce simp: page_ok_def regions_ok_append)
  have m: "allocations (Merge p q) = allocations p @ allocations q"
    using map_merge_append [OF keys_sorted [OF ok]] by (simp add: Merge_def)
  have b: "page_bytes (Merge p q) = page_bytes p + page_bytes q" by (simp add: Merge_def)
  show "pages_ok ((a, Merge p q) # rest)"
    using assms ok by (fastforce simp: page_ok_def m b)
  show "covered ((a, Merge p q) # rest) = covered ((a, p) # (a + page_bytes p, q) # rest)"
    by (auto simp: b)
  show "allocs ((a, Merge p q) # rest) = allocs ((a, p) # (a + page_bytes p, q) # rest)"
    by (auto simp: m)
  show "page_bytes p < page_bytes (Merge p q)" using assms by (simp add: b)
qed

text \<open>The merging loop keeps the view and stops only when the page reaches \<open>e\<close> or no page is left.\<close>

lemma merge_loop_view:
  assumes "pages_ok ((a, p) # rest)" "merge_loop a e p rest = Some (p', rest')"
  shows "same_view ((a, p') # rest') ((a, p) # rest) \<and> page_bytes p \<le> page_bytes p' \<and>
    (a + page_bytes p' < e \<longrightarrow> rest' = [])"
  using assms
proof (induction a e p rest rule: merge_loop.induct)
  case (2 a e p b q rest)
  show ?case
  proof (cases "a + page_bytes p < e")
    case True
    with 2 have b: "b = a + page_bytes p" and r: "merge_loop a e (Merge p q) rest = Some (p', rest')"
      by (auto split: if_splits)
    note M = Merge_ok [OF "2.prems"(1) [unfolded b]]
    have "same_view ((a, Merge p q) # rest) ((a, p) # (b, q) # rest)"
      unfolding same_view_def b using M(1-3) "2.prems"(1) [unfolded b] by blast
    with "2.IH" [OF True b M(1) r] M(4) show ?thesis
      unfolding same_view_def by (metis (no_types) le_trans less_imp_le)
  qed (use 2 in \<open>auto simp: same_view_def\<close>)
qed (auto simp: same_view_def)

lemma merge_loop_total:
  assumes "pages_ok ((a, p) # rest)" "{a ..< e} \<subseteq> covered ((a, p) # rest)"
  shows "\<exists>p' rest'. merge_loop a e p rest = Some (p', rest') \<and> e \<le> a + page_bytes p'"
  using assms
proof (induction a e p rest rule: merge_loop.induct)
  case (1 a e p)
  show ?case
  proof (rule ccontr)
    assume "\<not> ?thesis"
    with 1 have "a + page_bytes p \<in> {a ..< e}" by auto
    with 1 show False by auto
  qed
next
  case (2 a e p b q rest)
  show ?case
  proof (cases "a + page_bytes p < e")
    case True
    then have "a + page_bytes p \<in> {a ..< e}" by simp
    then have "a + page_bytes p \<in> covered ((a, p) # (b, q) # rest)" using "2.prems"(2) by blast
    then have "a + page_bytes p \<in> covered ((b, q) # rest)" by simp
    moreover have "x \<in> covered ((b, q) # rest) \<Longrightarrow> b \<le> x" for x
      using covered_from [of "(b, q) # rest" b x] "2.prems"(1) by fastforce
    ultimately have b: "b = a + page_bytes p" using "2.prems"(1) by fastforce
    note M = Merge_ok [OF "2.prems"(1) [unfolded b]]
    from "2.IH" [OF True b M(1)] "2.prems"(2) M(2) True show ?thesis by (simp add: b)
  qed simp
qed


subsection \<open>Looking a page up\<close>

lemma same_view_context:
  assumes "pages_ok (L @ (a, p) # R)" "same_view ((a, p') # R') ((a, p) # R)"
  shows "same_view (L @ (a, p') # R') (L @ (a, p) # R)"
proof -
  have "a \<le> b" if "(b, q) \<in> set ((a, p') # R')" for b q
    using assms(2) that by (fastforce simp: same_view_def)
  moreover have "k + page_bytes w \<le> a" if "(k, w) \<in> set L" for k w
    using assms(1) that by (fastforce simp: pages_ok_append)
  ultimately have "pages_ok (L @ (a, p') # R')"
    using assms unfolding pages_ok_append same_view_def by (fastforce intro: order_trans)
  then show ?thesis using assms unfolding same_view_def by (simp only: view_simps)
qed

text \<open>The page found for an address is the one that covers it, if any does.\<close>

lemma covered_upto:
  assumes "pages_ok P"
  shows "upto_key addr P = [] \<Longrightarrow> addr \<notin> covered P"
    and "upto_key addr P \<noteq> [] \<Longrightarrow> last (upto_key addr P) = (a, p) \<Longrightarrow> addr \<in> covered P \<longleftrightarrow> addr < a + page_bytes p"
proof -
  show "addr \<notin> covered P" if "upto_key addr P = []"
    using that by (fastforce simp: covered_def bound_simps filter_empty_conv)
  assume u: "upto_key addr P \<noteq> []" "last (upto_key addr P) = (a, p)"
  note lu = last_upto [OF pages_regions [OF assms] u]
  show "addr \<in> covered P \<longleftrightarrow> addr < a + page_bytes p"
  proof
    assume "addr \<in> covered P"
    then obtain k w where k: "(k, w) \<in> set P" "k \<le> addr" "addr < k + page_bytes w" by (auto simp: covered_def)
    with last_upto_max [OF pages_regions [OF assms] u(2) k(1,2)] lu(2) show "addr < a + page_bytes p" by auto
  next
    assume "addr < a + page_bytes p"
    with lu(1,2) show "addr \<in> covered P" by (fastforce simp: covered_def)
  qed
qed

text \<open>The search when the page found for \<open>addr\<close> ends before the range does.\<close>

lemma full_range:
  assumes "pages_ok (L @ (a, p) # R)" "addr \<le> a + page_bytes p" "{addr ..< e} \<subseteq> covered (L @ (a, p) # R)"
  shows "{a ..< e} \<subseteq> covered ((a, p) # R)"
proof
  fix x assume x: "x \<in> {a ..< e}"
  show "x \<in> covered ((a, p) # R)"
  proof (cases "x < a + page_bytes p")
    case False
    with x assms(2) have "x \<in> {addr ..< e}" by simp
    with assms(3) have "x \<in> covered (L @ (a, p) # R)" by blast
    moreover have "x \<notin> covered L"
      using assms(1) x by (fastforce simp: covered_def pages_ok_append)
    ultimately show ?thesis by simp
  qed (use x in simp)
qed

lemma merge_loop_cases:
  assumes "pages_ok (L @ (a, p) # R)" "a \<le> addr" "addr \<le> a + page_bytes p"
  defines "P \<equiv> L @ (a, p) # R"
  obtains
    (hit) p' R' where "merge_loop a e p R = Some (p', R')" "e \<le> a + page_bytes p'" "same_view (L @ (a, p') # R') P"
      "{addr ..< e} \<subseteq> covered P"
  | (miss) p' R' where "merge_loop a e p R = Some (p', R')" "a + page_bytes p' < e" "same_view (L @ (a, p') # R') P"
      "\<not> {addr ..< e} \<subseteq> covered P"
  | (gap) "merge_loop a e p R = None" "\<not> {addr ..< e} \<subseteq> covered P"
proof -
  have okR: "pages_ok ((a, p) # R)" using assms(1) by (simp add: pages_ok_append)
  have total: "\<exists>p' R'. merge_loop a e p R = Some (p', R') \<and> e \<le> a + page_bytes p'" if "{addr ..< e} \<subseteq> covered P"
    using merge_loop_total [OF okR full_range [OF assms(1,3) that [unfolded P_def]]] .
  show thesis
  proof (cases "merge_loop a e p R")
    case None
    with total show thesis by (intro gap) auto
  next
    case (Some pr)
    obtain p' R' where pr: "pr = (p', R')" by force
    have view: "same_view (L @ (a, p') # R') P"
      using same_view_context [OF assms(1) conjunct1 [OF merge_loop_view [OF okR Some [unfolded pr]]]] by (simp only: P_def)
    show thesis
    proof (cases "a + page_bytes p' < e")
      case True
      with total Some pr view show thesis by (intro miss [of p' R']) auto
    next
      case False
      have "{addr ..< e} \<subseteq> covered (L @ (a, p') # R')" using False assms(2) by auto
      then have "{addr ..< e} \<subseteq> covered P" using view by (auto simp: same_view_def)
      with False Some pr view show thesis by (intro hit [of p' R']) auto
    qed
  qed
qed

lemma TryLookup_cases:
  assumes "pages_ok P" "0 < n" "addr + n < 2 ^ 64"
  obtains
    (hit) L a p R where "TryLookupJitPageLocked addr n P = Some (L @ (a, p) # R, Some a)" "same_view (L @ (a, p) # R) P"
      "{addr ..< addr + n} \<subseteq> covered P" "a \<le> addr" "addr + n \<le> a + page_bytes p"
      "\<And>k w. (k, w) \<in> set P \<Longrightarrow> k + page_bytes w \<le> addr \<Longrightarrow> (k, w) \<in> set L"
  | (miss) Q where "TryLookupJitPageLocked addr n P = Some (Q, None)" "same_view Q P" "\<not> {addr ..< addr + n} \<subseteq> covered P"
  | (gap) "TryLookupJitPageLocked addr n P = None" "\<not> {addr ..< addr + n} \<subseteq> covered P" "1 < n"
proof -
  have e: "add64 addr n = addr + n" using assms(3) by (simp add: add64_def)
  have self: "same_view P P" using assms(1) by (simp add: same_view_def)
  have "addr \<in> {addr ..< addr + n}" using assms(2) by simp
  then have out: "\<not> {addr ..< addr + n} \<subseteq> covered P" if "addr \<notin> covered P" using that by blast
  show thesis
  proof (cases "upto_key addr P = []")
    case True
    with out [OF covered_upto(1) [OF assms(1) True]] self assms(2) show thesis
      by (intro miss [of P]) (simp_all add: TryLookupJitPageLocked_def e)
  next
    case False
    obtain a p where l: "last (upto_key addr P) = (a, p)" by force
    note lu = last_upto [OF pages_regions [OF assms(1)] False l]
    note cov = covered_upto(2) [OF assms(1) False l]
    define L R where LR: "L = before_key a P" "R = after_key addr P"
    have P: "P = L @ (a, p) # R" using lu(3) by (simp only: LR)
    have ok: "pages_ok (L @ (a, p) # R)" using assms(1) by (simp only: P [symmetric])
    have look: "TryLookupJitPageLocked addr n P =
        (if a + page_bytes p \<le> addr then Some (P, None)
         else if addr + n \<le> a + page_bytes p then Some (P, Some a)
         else case merge_loop a (addr + n) p R of None \<Rightarrow> None
           | Some (p', rest) \<Rightarrow> Some (L @ (a, p') # rest, if a + page_bytes p' < addr + n then None else Some a))"
      unfolding LR using assms(2) False by (simp add: TryLookupJitPageLocked_def e l Let_def)
    have prior: "(k, w) \<in> set L" if "(k, w) \<in> set P" "k + page_bytes w \<le> addr" "addr < a + page_bytes p" for k w
    proof -
      have "(k, w) \<in> set L \<union> {(a, p)} \<union> set R" using that(1) by (subst (asm) P) simp
      moreover have "a + page_bytes p \<le> k" if "(k, w) \<in> set R" using ok that by (fastforce simp: pages_ok_append)
      ultimately show ?thesis using that(2,3) by auto
    qed
    consider "a + page_bytes p \<le> addr" | "addr < a + page_bytes p" "addr + n \<le> a + page_bytes p"
      | "addr < a + page_bytes p" "\<not> addr + n \<le> a + page_bytes p" by linarith
    then show thesis
    proof cases
      case 1
      with out cov self look show thesis by (intro miss [of P]) auto
    next
      case 2
      have "{addr ..< addr + n} \<subseteq> covered (L @ (a, p) # R)" using lu(2) 2 by auto
      with 2 look self lu(2) show thesis
        by (intro hit [of L a p R]) (simp_all add: prior flip: P)
    next
      case 3
      from ok lu(2) less_imp_le [OF 3(1)] show thesis
      proof (cases rule: merge_loop_cases [where e = "addr + n"])
        case (hit p' R')
        with 3 look lu(2) show thesis by (intro that(1) [of L a p' R']) (simp_all add: prior flip: P)
      next
        case (miss p' R')
        with 3 look show thesis by (intro that(2) [of "L @ (a, p') # R'"]) (simp_all flip: P)
      next
        case gap
        with 3 look show thesis by (intro that(3)) (simp_all flip: P)
      qed
    qed
  qed
qed

lemma Lookup_cases:
  assumes "pages_ok P" "0 < n" "addr + n < 2 ^ 64"
  obtains
    (hit) L a p R where "LookupJitPage addr n P = Some (L @ (a, p) # R, a)" "same_view (L @ (a, p) # R) P"
      "{addr ..< addr + n} \<subseteq> covered P" "a \<le> addr" "addr + n \<le> a + page_bytes p"
      "\<And>k w. (k, w) \<in> set P \<Longrightarrow> k + page_bytes w \<le> addr \<Longrightarrow> (k, w) \<in> set L"
  | (miss) "LookupJitPage addr n P = None" "\<not> {addr ..< addr + n} \<subseteq> covered P"
  using assms
proof (cases rule: TryLookup_cases)
  case (hit L a p R)
  then show thesis by (intro that(1) [of L a p R]) (simp_all add: LookupJitPage_def)
qed (auto simp: LookupJitPage_def intro: that(2))

subsection \<open>Replacing a page and its allocations\<close>

lemma page_in_context:
  assumes "pages_ok (L @ (a, p) # R)"
  shows "page_at (L @ (a, p) # R) a = Some p" "set_page a p' (L @ (a, p) # R) = L @ (a, p') # R"
    "erase a (L @ (a, p) # R) = L @ R" "page_ok a p" "0 < page_bytes p" "a + page_bytes p < 2 ^ 64"
proof -
  have L: "k < a" if "(k, w) \<in> set L" for k w
    using regions_ok_appendD(2) [OF pages_regions [OF assms] that] .
  have "pages_ok ((a, p) # R)" using assms by (simp add: pages_ok_append)
  then show "page_ok a p" "0 < page_bytes p" "a + page_bytes p < 2 ^ 64" by simp_all
  have R: "a < k" if "(k, w) \<in> set R" for k w
    using \<open>pages_ok ((a, p) # R)\<close> that by fastforce
  have ne: "fst x \<noteq> a" if "x \<in> set L \<union> set R" for x
    using that L [of "fst x" "snd x"] R [of "fst x" "snd x"] by auto
  show "page_at (L @ (a, p) # R) a = Some p"
    using map_of_entry [OF pages_regions [OF assms]] by (simp add: page_at_def)
  show "set_page a p' (L @ (a, p) # R) = L @ (a, p') # R"
    using ne by (simp add: set_page_def map_idI)
  show "erase a (L @ (a, p) # R) = L @ R"
    using ne by (auto simp: erase_def filter_id_conv)
qed

lemma replace_page:
  assumes "pages_ok (L @ (a, p) # R)" "page_ok a p'" "page_bytes p' = page_bytes p"
  shows "pages_ok (L @ (a, p') # R)" "covered (L @ (a, p') # R) = covered (L @ (a, p) # R)"
  using assms by (auto simp: pages_ok_append)

text \<open>The allocations of the other pages are away from the page.\<close>

lemma allocs_elsewhere:
  assumes "pages_ok (L @ (a, p) # R)" "(b, y) \<in> allocs L \<union> allocs R"
  shows "b + alloc_size y \<le> a \<or> a + page_bytes p \<le> b"
proof -
  from assms(2) obtain k w where k: "(k, w) \<in> set L \<union> set R" "(b, y) \<in> set (allocations w)"
    by (auto simp: allocs_def)
  have "page_ok k w" using assms(1) k(1) by (auto simp: pages_ok_append pages_ok_def)
  then have "k \<le> b" "b + alloc_size y \<le> k + page_bytes w" using k(2) by (auto simp: page_ok_def)
  moreover have "k + page_bytes w \<le> a \<or> a + page_bytes p \<le> k"
    using assms(1) k(1) by (fastforce simp: pages_ok_append)
  ultimately show ?thesis by linarith
qed

text \<open>A range that no allocation of a set touches, and an address that cuts none of them.\<close>

definition untouched :: "(nat \<times> jit_alloc) set \<Rightarrow> nat \<Rightarrow> nat \<Rightarrow> bool" where
  "untouched A addr n \<longleftrightarrow> (\<forall>(b, y) \<in> A. b + alloc_size y \<le> addr \<or> addr + n \<le> b)"

definition uncut :: "(nat \<times> jit_alloc) set \<Rightarrow> nat \<Rightarrow> bool" where
  "uncut A x \<longleftrightarrow> (\<forall>(b, y) \<in> A. b + alloc_size y \<le> x \<or> x \<le> b)"

lemma untouched_on_page:
  assumes "pages_ok (L @ (a, p) # R)" "a \<le> addr" "addr + n \<le> a + page_bytes p"
  shows "untouched (allocs (L @ (a, p) # R)) addr n \<longleftrightarrow> free_of alloc_size (allocations p) addr n"
  using allocs_elsewhere [OF assms(1)] assms(2,3)
  by (fastforce simp: untouched_def free_of_def)

text \<open>An operation on the page that spans a range.\<close>

lemma on_page_cases:
  assumes "pages_ok P" "0 < n" "addr + n < 2 ^ 64"
  obtains
    (hit) L a p R where "on_page addr n f P = map_option (\<lambda>p'. L @ (a, p') # R) (f a p)" "pages_ok (L @ (a, p) # R)"
      "covered P = covered (L @ (a, p) # R)" "allocs P = allocs (L @ (a, p) # R)"
      "{addr ..< addr + n} \<subseteq> covered P" "a \<le> addr" "addr + n \<le> a + page_bytes p"
  | (miss) "on_page addr n f P = None" "\<not> {addr ..< addr + n} \<subseteq> covered P"
  using assms
proof (cases rule: Lookup_cases)
  case (hit L a p R)
  then have ok: "pages_ok (L @ (a, p) # R)" by (simp add: same_view_def)
  show thesis
    by (rule that(1) [of L a R p]) (use hit ok in \<open>auto simp: on_page_def page_in_context same_view_def split: option.split\<close>)
next
  case miss
  then show thesis by (intro that(2)) (simp_all add: on_page_def)
qed

subsection \<open>One page\<close>

lemma RegisterAllocation_exact:
  assumes "page_ok a p" "a + page_bytes p < 2 ^ 64" "a \<le> addr" "0 < n" "addr + n \<le> a + page_bytes p"
  shows "RegisterAllocation a addr n t p =
     (if free_of alloc_size (allocations p) addr n
      then Some (p\<lparr>allocations := emplace addr \<lparr>alloc_size = n, alloc_type = t\<rparr> (allocations p)\<rparr>) else None)"
proof -
  have "add64 (addr - a) n = addr - a + n" using assms by (simp add: add64_def)
  moreover have "CheckForRegionOverlap alloc_size (allocations p) addr n \<longleftrightarrow> free_of alloc_size (allocations p) addr n"
    using CheckForRegionOverlap_exact [of alloc_size "allocations p" addr n] assms by (auto simp: page_ok_def)
  ultimately show ?thesis using assms by (auto simp: RegisterAllocation_def Let_def)
qed

lemma page_emplace:
  assumes "page_ok a p" "a + page_bytes p < 2 ^ 64" "a \<le> addr" "0 < alloc_size y" "addr + alloc_size y \<le> a + page_bytes p"
    "free_of alloc_size (allocations p) addr (alloc_size y)"
  shows "page_ok a (p\<lparr>allocations := emplace addr y (allocations p)\<rparr>)"
    "set (emplace addr y (allocations p)) = insert (addr, y) (set (allocations p))"
  using assms emplace_free [of alloc_size "allocations p" addr y] by (auto simp: page_ok_def)

text \<open>The entries that a range removal keeps.\<close>

lemma range_rest_exact:
  assumes "regions_ok alloc_size m" "start + n < 2 ^ 64"
  shows "range_rest start n m =
    (if uncut (set m) (start + n) then Some (from_key (start + n) m) else None)"
  using assms
proof (induction m)
  case (Cons x m)
  obtain b y where x: "x = (b, y)" by force
  have e: "add64 start n = start + n" "add64 b (alloc_size y) = b + alloc_size y"
    using Cons.prems by (simp_all add: add64_def x)
  have tail: "b + alloc_size y \<le> k" if "(k, w) \<in> set m" for k w
    using Cons.prems(1) that by (fastforce simp: x)
  show ?case
  proof (cases "start + n \<le> b")
    case True
    then have "start + n \<le> fst z" if "z \<in> set (x # m)" for z
      using that tail [of "fst z" "snd z"] by (auto simp: x)
    then have "from_key (start + n) (x # m) = x # m" "uncut (set (x # m)) (start + n)"
      by (simp_all add: from_key_def filter_id_conv uncut_def split_beta)
    with True show ?thesis by (simp add: AllocationIsBehindRange_def x e)
  next
    case False
    have "uncut (set (x # m)) (start + n) \<longleftrightarrow> b + alloc_size y \<le> start + n \<and> uncut (set m) (start + n)"
      using False by (auto simp: uncut_def x)
    with False Cons show ?thesis by (auto simp: AllocationIsBehindRange_def x e from_key_def)
  qed
qed (simp add: from_key_def uncut_def)

subsection \<open>The abstract registry\<close>

text \<open>The covered addresses and the allocations on them, and what each operation does to them.\<close>

type_synonym registry = "nat set \<times> (nat \<times> jit_alloc) set"

definition view :: "jit_pages \<Rightarrow> registry" where
  "view P = (covered P, allocs P)"

definition spec_register_page :: "nat \<Rightarrow> nat \<Rightarrow> registry \<Rightarrow> registry option" where
  "spec_register_page a n r =
     (if a + n < 2 ^ 64 \<and> {a ..< a + n} \<inter> fst r = {} then Some (fst r \<union> {a ..< a + n}, snd r) else None)"

definition spec_unregister_page :: "nat \<Rightarrow> nat \<Rightarrow> registry \<Rightarrow> registry option" where
  "spec_unregister_page a n r =
     (if {a ..< a + n} \<subseteq> fst r then Some (fst r - {a ..< a + n}, {x \<in> snd r. untouched {x} a n}) else None)"

text \<open>Consecutive allocations of the given sizes.\<close>

fun layout :: "nat \<Rightarrow> nat list \<Rightarrow> jit_type \<Rightarrow> (nat \<times> jit_alloc) list" where
  "layout start [] t = []"
| "layout start (n # sizes) t = (start, \<lparr>alloc_size = n, alloc_type = t\<rparr>) # layout (start + n) sizes t"

definition spec_register :: "nat \<Rightarrow> nat list \<Rightarrow> jit_type \<Rightarrow> registry \<Rightarrow> registry option" where
  "spec_register start sizes t r =
     (if {start ..< start + sum_list sizes} \<subseteq> fst r \<and> untouched (snd r) start (sum_list sizes)
      then Some (fst r, set (layout start sizes t) \<union> snd r) else None)"

definition spec_lookup :: "nat \<Rightarrow> nat \<Rightarrow> jit_type \<Rightarrow> registry \<Rightarrow> registry option" where
  "spec_lookup addr n t r = (if (addr, \<lparr>alloc_size = n, alloc_type = t\<rparr>) \<in> snd r then Some r else None)"

definition spec_unregister :: "nat \<Rightarrow> nat \<Rightarrow> registry \<Rightarrow> registry option" where
  "spec_unregister addr n r =
     (if {addr ..< addr + n} \<subseteq> fst r \<and> addr \<in> fst ` snd r then Some (fst r, {x \<in> snd r. fst x \<noteq> addr}) else None)"

definition spec_free_range :: "nat \<Rightarrow> nat \<Rightarrow> nat \<Rightarrow> nat \<Rightarrow> registry \<Rightarrow> registry option" where
  "spec_free_range page_addr page_n addr n r =
     (if {page_addr ..< page_addr + page_n} \<subseteq> fst r \<and> uncut {x \<in> snd r. addr \<le> fst x} (addr + n)
      then Some (fst r, {x \<in> snd r. fst x < addr \<or> addr + n \<le> fst x}) else None)"

definition implements :: "jit_pages option \<Rightarrow> registry option \<Rightarrow> bool" where
  "implements P r \<longleftrightarrow> (case P of None \<Rightarrow> r = None | Some P \<Rightarrow> pages_ok P \<and> r = Some (view P))"

lemma view_parts [simp]: "fst (view P) = covered P" "snd (view P) = allocs P"
  by (simp_all add: view_def)

lemma implements_simps [simp]:
  "implements None r \<longleftrightarrow> r = None" "implements (Some P) r \<longleftrightarrow> pages_ok P \<and> r = Some (view P)"
  by (simp_all add: implements_def)

subsection \<open>Each operation implements its specification\<close>

lemma free_of_covered:
  assumes "pages_ok P" "0 < n"
  shows "free_of page_bytes P a n \<longleftrightarrow> {a ..< a + n} \<inter> covered P = {}"
proof -
  have "b + page_bytes q \<le> a \<or> a + n \<le> b \<longleftrightarrow> {a ..< a + n} \<inter> {b ..< b + page_bytes q} = {}" if "(b, q) \<in> set P" for b q
  proof -
    have "0 < page_bytes q" using entry_bounds(1) [OF pages_regions [OF assms(1)] that] .
    with assms(2) show ?thesis by (auto simp: disjoint_iff)
  qed
  then have "free_of page_bytes P a n \<longleftrightarrow> (\<forall>(b, q) \<in> set P. {a ..< a + n} \<inter> {b ..< b + page_bytes q} = {})"
    unfolding free_of_def by blast
  also have "\<dots> \<longleftrightarrow> {a ..< a + n} \<inter> covered P = {}" unfolding covered_def by blast
  finally show ?thesis .
qed

lemma RegisterJitPage_spec:
  assumes "pages_ok P" "0 < n" "a < 2 ^ 64" "n < 2 ^ 64"
  shows "implements (RegisterJitPage a n P) (spec_register_page a n (view P))"
proof -
  let ?q = "\<lparr>page_bytes = n, allocations = []\<rparr>"
  have exact: "CheckForRegionOverlap page_bytes P a n \<longleftrightarrow> a + n < 2 ^ 64 \<and> {a ..< a + n} \<inter> covered P = {}"
    using CheckForRegionOverlap_exact [OF pages_regions [OF assms(1)] assms(3,2,4)] free_of_covered [OF assms(1,2)] by simp
  have "pages_ok (emplace a ?q P) \<and> view (emplace a ?q P) = (covered P \<union> {a ..< a + n}, allocs P)"
    if "a + n < 2 ^ 64" "{a ..< a + n} \<inter> covered P = {}"
  proof -
    have "free_of page_bytes P a (page_bytes ?q)" using that(2) free_of_covered [OF assms(1,2)] by simp
    note E = emplace_free [OF pages_regions [OF assms(1)] this]
    have "set (emplace a ?q P) = insert (a, ?q) (set P)" "regions_ok page_bytes (emplace a ?q P)"
      using E assms(2) that(1) by simp_all
    with assms(1) show ?thesis by (auto simp: pages_ok_def view_def covered_def allocs_def page_ok_def)
  qed
  then show ?thesis by (simp add: RegisterJitPage_def spec_register_page_def exact view_def)
qed

text \<open>The allocations of one page after the bulk registration.\<close>

lemma free_of_split:
  assumes "regions_ok sz m"
  shows "free_of sz m start (n + k) \<longleftrightarrow> free_of sz m start n \<and> free_of sz m (start + n) k"
  using entry_bounds(1) [OF assms] by (fastforce simp: free_of_def)

lemma register_all_exact:
  assumes "page_ok a p" "a + page_bytes p < 2 ^ 64" "a \<le> start" "start + sum_list sizes \<le> a + page_bytes p" "0 \<notin> set sizes"
  shows "case register_all a start sizes t p of
      None \<Rightarrow> \<not> free_of alloc_size (allocations p) start (sum_list sizes) \<and> sizes \<noteq> []
    | Some p' \<Rightarrow> page_ok a p' \<and> page_bytes p' = page_bytes p \<and> set (allocations p') = set (layout start sizes t) \<union> set (allocations p) \<and>
        (sizes = [] \<or> free_of alloc_size (allocations p) start (sum_list sizes))"
  using assms
proof (induction sizes arbitrary: start p)
  case (Cons n sizes)
  let ?x = "\<lparr>alloc_size = n, alloc_type = t\<rparr>" and ?m = "allocations p"
  have n: "0 < n" "start + n \<le> a + page_bytes p" "add64 start n = start + n" "regions_ok alloc_size ?m"
    using Cons.prems by (auto simp: add64_def page_ok_def)
  note R = RegisterAllocation_exact [OF Cons.prems(1-3) n(1,2), of t]
  note split = free_of_split [OF n(4), of start n "sum_list sizes"]
  show ?case
  proof (cases "free_of alloc_size ?m start n")
    case False
    with R split show ?thesis by simp
  next
    case True
    let ?p = "p\<lparr>allocations := emplace start ?x ?m\<rparr>"
    have E: "page_ok a ?p" "set (allocations ?p) = insert (start, ?x) (set ?m)"
      using page_emplace [OF Cons.prems(1-3), of ?x] n True by simp_all
    have "free_of alloc_size (allocations ?p) (start + n) (sum_list sizes) \<longleftrightarrow> free_of alloc_size ?m (start + n) (sum_list sizes)"
      unfolding free_of_def E(2) by simp
    with Cons.IH [of ?p "start + n"] Cons.prems E R True split n(3) show ?thesis
      by (auto split: option.splits)
  qed
qed simp

text \<open>Bulk registration on a page in its context.\<close>

lemma register_all_view:
  assumes "pages_ok (L @ (a, p) # R)" "covered P = covered (L @ (a, p) # R)" "allocs P = allocs (L @ (a, p) # R)"
    "a \<le> start" "start + sum_list sizes \<le> a + page_bytes p" "0 \<notin> set sizes" "sizes \<noteq> []"
    "{start ..< start + sum_list sizes} \<subseteq> covered P"
  shows "implements (map_option (\<lambda>p'. L @ (a, p') # R) (register_all a start sizes t p)) (spec_register start sizes t (view P))"
proof -
  note C = page_in_context [OF assms(1)]
  note U = untouched_on_page [OF assms(1,4,5)]
  note X = register_all_exact [OF C(4,6) assms(4-6), of t]
  show ?thesis
  proof (cases "register_all a start sizes t p")
    case None
    with X U assms(3) show ?thesis by (simp add: spec_register_def view_def)
  next
    case (Some p')
    with X have p': "page_ok a p'" "page_bytes p' = page_bytes p"
      "set (allocations p') = set (layout start sizes t) \<union> set (allocations p)"
      "free_of alloc_size (allocations p) start (sum_list sizes)" using assms(7) by simp_all
    have "pages_ok (L @ (a, p') # R)" "covered (L @ (a, p') # R) = covered P"
      using replace_page [OF assms(1) p'(1,2)] assms(2) by simp_all
    moreover have "allocs (L @ (a, p') # R) = set (layout start sizes t) \<union> allocs P" using p'(3) assms(3) by auto
    ultimately show ?thesis using Some U p'(4) assms(3,8) by (simp add: spec_register_def view_def)
  qed
qed

lemma RegisterJitAllocation_spec:
  assumes "pages_ok P" "0 < n" "addr + n < 2 ^ 64"
  shows "implements (RegisterJitAllocation addr n t P) (spec_register addr [n] t (view P))"
  using assms
proof (cases rule: on_page_cases [where f = "\<lambda>a. RegisterAllocation a addr n t"])
  case (hit L a p R)
  have "register_all a addr [n] t p = RegisterAllocation a addr n t p" by (simp split: option.split)
  with register_all_view [OF hit(2-4,6), of "[n]" t] hit assms(2) show ?thesis by (simp add: RegisterJitAllocation_def)
qed (simp add: RegisterJitAllocation_def spec_register_def view_def)

lemma LookupJitAllocation_spec:
  assumes "pages_ok P" "0 < n" "addr + n < 2 ^ 64"
  shows "implements (LookupJitAllocation addr n t P) (spec_lookup addr n t (view P))"
  using assms
proof (cases rule: on_page_cases [where f = "\<lambda>a p. case LookupAllocation addr n t p of None \<Rightarrow> None | Some _ \<Rightarrow> Some p"])
  case (hit L a p R)
  let ?x = "\<lparr>alloc_size = n, alloc_type = t\<rparr>"
  have "regions_ok alloc_size (allocations p)" using page_in_context(4) [OF hit(2)] by (simp add: page_ok_def)
  note m = map_of_entry [OF this]
  have "LookupAllocation addr n t p = (if (addr, ?x) \<in> set (allocations p) then Some ?x else None)"
  proof (cases "map_of (allocations p) addr")
    case None
    then show ?thesis using m [of addr ?x] by (simp add: LookupAllocation_def)
  next
    case (Some y)
    moreover have "y = ?x \<longleftrightarrow> alloc_size y = n \<and> alloc_type y = t" by (cases y) simp
    ultimately show ?thesis using m [of addr ?x] by (simp add: LookupAllocation_def)
  qed
  moreover have "(addr, ?x) \<in> allocs P \<longleftrightarrow> (addr, ?x) \<in> set (allocations p)"
    using allocs_elsewhere [OF hit(2), of addr ?x] hit(4,6,7) assms(2) by auto
  ultimately show ?thesis using hit(1-4) by (simp add: LookupJitAllocation_def spec_lookup_def view_def)
next
  case miss
  have "(addr, \<lparr>alloc_size = n, alloc_type = t\<rparr>) \<notin> allocs P"
    using alloc_covered [OF assms(1), of addr "\<lparr>alloc_size = n, alloc_type = t\<rparr>"] miss(2) by auto
  with miss(1) show ?thesis by (simp add: LookupJitAllocation_def spec_lookup_def view_def)
qed

lemma UnregisterWasmAllocation_spec:
  assumes "pages_ok P" "0 < n" "addr + n < 2 ^ 64"
  shows "implements (UnregisterWasmAllocation addr n P) (spec_unregister addr n (view P))"
  using assms
proof (cases rule: on_page_cases [where f = "\<lambda>a. UnregisterAllocation addr"])
  case (hit L a p R)
  let ?p = "p\<lparr>allocations := erase addr (allocations p)\<rparr>"
  have ok: "page_ok a ?p" using page_in_context(4) [OF hit(2)] by (auto simp: page_ok_def erase_def)
  have away: "fst x \<noteq> addr" if "x \<in> allocs L \<union> allocs R" for x
    using allocs_elsewhere [OF hit(2), of "fst x" "snd x"] allocs_bounds(1) [of P "fst x" "snd x"] that hit(4,6,7) assms(1,2) by auto
  then have iff: "addr \<in> fst ` allocs P \<longleftrightarrow> addr \<in> fst ` set (allocations p)" using hit(4) by auto
  have "allocs (L @ (a, ?p) # R) = {x \<in> allocs P. fst x \<noteq> addr}" using away hit(4) by (auto simp: erase_def)
  with replace_page [OF hit(2) ok] hit(1-5) iff show ?thesis
    by (simp add: UnregisterWasmAllocation_def UnregisterAllocation_def spec_unregister_def view_def)
qed (simp add: UnregisterWasmAllocation_def spec_unregister_def view_def)

lemma FreeRange_spec:
  assumes "pages_ok P" "0 < pn" "pa + pn < 2 ^ 64" "pa \<le> addr" "addr + n \<le> pa + pn"
  shows "implements (FreeRange pa pn addr n P) (spec_free_range pa pn addr n (view P))"
  using assms(1-3)
proof (cases rule: on_page_cases [where f = "\<lambda>a. UnregisterRange addr n"])
  case (hit L a p R)
  let ?m = "allocations p" and ?old = "{x \<in> allocs P. addr \<le> fst x}"
  let ?p = "p\<lparr>allocations := before_key addr ?m @ from_key (addr + n) ?m\<rparr>"
  have m: "regions_ok alloc_size ?m" using page_in_context(4) [OF hit(2)] by (simp add: page_ok_def)
  have e: "from_key (addr + n) (from_key addr ?m) = from_key (addr + n) ?m"
    by (auto simp: from_key_def intro: filter_cong)
  have away: "fst x + alloc_size (snd x) \<le> addr \<or> addr + n \<le> fst x" if "x \<in> allocs L \<union> allocs R" for x
    using allocs_elsewhere [OF hit(2), of "fst x" "snd x"] that hit(6,7) assms(4,5) by auto
  have uncut: "uncut ?old (addr + n) \<longleftrightarrow> uncut (set (from_key addr ?m)) (addr + n)"
    using away hit(4) by (fastforce simp: uncut_def set_bounds)
  have small: "fst x < addr" if "x \<in> allocs P" "fst x + alloc_size (snd x) \<le> addr" for x
    using allocs_bounds(1) [OF assms(1), of "fst x" "snd x"] that by simp
  have al: "allocs (L @ (a, ?p) # R) = {x \<in> allocs P. fst x < addr \<or> addr + n \<le> fst x}"
    using away small hit(4) by (auto simp: set_bounds)
  have "page_ok a ?p"
    using m page_in_context(4) [OF hit(2)] split_at_key(2) [OF m, of addr]
    by (auto simp: page_ok_def set_bounds regions_ok_append) (use entries_apart [OF m] in fastforce)
  from replace_page [OF hit(2) this] range_rest_exact [of "from_key addr ?m" addr n] hit(1-5) uncut al e m assms(3,5)
  show ?thesis by (simp add: FreeRange_def UnregisterRange_def spec_free_range_def view_def)
qed (simp add: FreeRange_def spec_free_range_def view_def)

subsection \<open>Splitting pages\<close>

lemma Shrink_ok:
  assumes "page_ok a p" "k < page_bytes p" "uncut (set (allocations p)) (a + page_bytes p - k)" "Shrink a p k = (p', q)"
  shows "page_ok a p'" "page_ok (a + page_bytes p - k) q" "page_bytes p' = page_bytes p - k" "page_bytes q = k"
    "set (allocations p') \<union> set (allocations q) = set (allocations p)"
proof -
  have "b + alloc_size y \<le> a + page_bytes p - k" if "(b, y) \<in> set (allocations p)" "b < a + page_bytes p - k" for b y
    using assms(3) that by (fastforce simp: uncut_def)
  then show "page_ok a p'" using assms(1,2,4) by (auto simp: Shrink_def page_ok_def Let_def set_bounds)
  show "page_ok (a + page_bytes p - k) q" "page_bytes p' = page_bytes p - k" "page_bytes q = k"
    "set (allocations p') \<union> set (allocations q) = set (allocations p)"
    using assms by (auto simp: Shrink_def page_ok_def Let_def set_bounds)
qed

lemma emplace_between:
  assumes "\<And>x. x \<in> set m \<Longrightarrow> fst x < k" "\<And>x. x \<in> set n \<Longrightarrow> k < fst x"
  shows "emplace k v (m @ n) = m @ (k, v) # n"
proof -
  have "k \<notin> fst ` set (m @ n)" using assms by fastforce
  moreover have "before_key k (m @ n) = m" "after_key k (m @ n) = n"
    using assms by (auto simp: bound_simps filter_id_conv filter_empty_conv dest: less_imp_not_less less_imp_le)
  ultimately show ?thesis by (simp add: emplace_def)
qed

lemma cut_page:
  assumes "pages_ok (L @ (a, p) # R)" "0 < k" "k < page_bytes p" "uncut (set (allocations p)) e" "e = a + page_bytes p - k"
    "Shrink a p k = (p', q)"
  shows "emplace e q (L @ (a, p') # R) = L @ (a, p') # (e, q) # R" "same_view (L @ (a, p') # (e, q) # R) (L @ (a, p) # R)"
    "page_bytes p' = page_bytes p - k" "page_bytes q = k"
proof -
  note S = Shrink_ok [OF page_in_context(4) [OF assms(1)] assms(3) assms(4) [unfolded assms(5)] assms(6)]
  show "page_bytes p' = page_bytes p - k" "page_bytes q = k" using S by simp_all
  have ok: "pages_ok L" "pages_ok R" "\<forall>(b, w) \<in> set L. b + page_bytes w \<le> a" "\<forall>(b, w) \<in> set R. a + page_bytes p \<le> b"
    "a + page_bytes p < 2 ^ 64"
    using assms(1) by (auto simp: pages_ok_append)
  have L: "fst x < e" if "x \<in> set (L @ [(a, p')])" for x
    using regions_ok_appendD(2) [OF pages_regions [OF assms(1)], of "fst x" "snd x"] that assms(3,5) by auto
  have R: "e < fst x" if "x \<in> set R" for x
    using ok(4) that assms(2,3,5) by auto
  show "emplace e q (L @ (a, p') # R) = L @ (a, p') # (e, q) # R"
    using emplace_between [of "L @ [(a, p')]" e R q] L R by simp
  have "pages_ok ((a, p') # (e, q) # R)"
    using S ok assms(2,3,5) by fastforce
  moreover have "covered ((a, p') # (e, q) # R) = covered ((a, p) # R)"
    using S(3,4) assms(2,3,5) by auto
  moreover have "allocs ((a, p') # (e, q) # R) = allocs ((a, p) # R)" using S(5) by auto
  ultimately have "same_view ((a, p') # (e, q) # R) ((a, p) # R)"
    using assms(1) by (simp add: same_view_def pages_ok_append)
  then show "same_view (L @ (a, p') # (e, q) # R) (L @ (a, p) # R)" by (rule same_view_context [OF assms(1)])
qed

lemma drop_page:
  assumes "pages_ok (L @ (a, p) # R)"
  shows "pages_ok (L @ R)" "covered (L @ R) = covered (L @ (a, p) # R) - {a ..< a + page_bytes p}"
    "allocs (L @ R) = {x \<in> allocs (L @ (a, p) # R). untouched {x} a (page_bytes p)}"
proof -
  show "pages_ok (L @ R)" using assms by (auto simp: pages_ok_append)
  have "{b ..< b + page_bytes w} \<inter> {a ..< a + page_bytes p} = {}" if "(b, w) \<in> set L \<union> set R" for b w
    using assms that by (fastforce simp: pages_ok_append)
  then have "(covered L \<union> covered R) \<inter> {a ..< a + page_bytes p} = {}" unfolding covered_def by blast
  then show "covered (L @ R) = covered (L @ (a, p) # R) - {a ..< a + page_bytes p}" by auto
  have out: "untouched {x} a (page_bytes p)" if "x \<in> allocs L \<union> allocs R" for x
    using allocs_elsewhere [OF assms, of "fst x" "snd x"] that by (simp add: untouched_def split_beta)
  have inn: "\<not> untouched {x} a (page_bytes p)" if "x \<in> set (allocations p)" for x
    using that page_in_context(4) [OF assms] allocs_bounds(1) [OF assms, of "fst x" "snd x"]
    by (fastforce simp: untouched_def page_ok_def)
  show "allocs (L @ R) = {x \<in> allocs (L @ (a, p) # R). untouched {x} a (page_bytes p)}"
    using out inn by auto
qed

text \<open>
  Both \<^verbatim>\<open>SplitJitPage\<close> and \<^verbatim>\<open>UnregisterJitPage\<close> first cut off what follows the range, and then
  what precedes it.
\<close>

definition cut_tail :: "nat \<Rightarrow> nat \<Rightarrow> jit_page \<Rightarrow> jit_pages \<Rightarrow> jit_page \<times> jit_pages" where
  "cut_tail e a p P =
     (if e < a + page_bytes p
      then (let (p', tail) = Shrink a p (a + page_bytes p - e) in (p', emplace e tail (set_page a p' P))) else (p, P))"

lemma cut_tail_view:
  assumes "pages_ok (L @ (a, p) # R)" "a < e" "e \<le> a + page_bytes p" "uncut (set (allocations p)) e"
  obtains p' R' where "cut_tail e a p (L @ (a, p) # R) = (p', L @ (a, p') # R')" "a + page_bytes p' = e"
    "same_view (L @ (a, p') # R') (L @ (a, p) # R)"
proof (cases "e < a + page_bytes p")
  case True
  obtain p' q where S: "Shrink a p (a + page_bytes p - e) = (p', q)" by force
  have k: "0 < a + page_bytes p - e" "a + page_bytes p - e < page_bytes p" "e = a + page_bytes p - (a + page_bytes p - e)"
    using assms(2) True by linarith+
  note C = cut_page [OF assms(1) k(1,2) assms(4) k(3) S]
  show thesis
    by (rule that [of p' "(e, q) # R"]) (use C True S page_in_context(2) [OF assms(1)] assms(2) in \<open>simp_all add: cut_tail_def\<close>)
next
  case False
  then show thesis using assms by (intro that [of p R]) (auto simp: cut_tail_def same_view_def)
qed

lemma SplitJitPage_cut:
  assumes "LookupJitPage addr n P = Some (Q, a)" "page_at Q a = Some p" "a \<le> addr" "addr + n \<le> a + page_bytes p"
  shows "SplitJitPage addr n P =
    (let (p, Q) = cut_tail (addr + n) a p Q
     in if a < addr then (let (p', mid) = Shrink a p n in Some (emplace addr mid (set_page a p' Q), addr)) else Some (Q, a))"
proof -
  have t: "page_bytes p - n - (addr - a) = a + page_bytes p - (addr + n)" using assms(3) by linarith
  have lt: "addr - a < page_bytes p - n \<longleftrightarrow> addr + n < a + page_bytes p" using assms(3) by linarith
  show ?thesis by (simp only: SplitJitPage_def cut_tail_def assms(1,2) option.case prod.case Let_def t zero_less_diff lt)
qed

lemma UnregisterJitPage_cut:
  assumes "LookupJitPage addr n P = Some (Q, a)" "page_at Q a = Some p"
  shows "UnregisterJitPage addr n P =
    (let (p, Q) = cut_tail (addr + n) a p Q
     in if addr = a then Some (erase a Q) else Some (set_page a (fst (Shrink a p n)) Q))"
  using assms by (simp add: UnregisterJitPage_def cut_tail_def Let_def)

lemma same_view_trans: "same_view P Q \<Longrightarrow> same_view Q R \<Longrightarrow> same_view P R"
  by (simp add: same_view_def)

lemma uncut_page:
  assumes "same_view (L @ (a, p) # R) P" "uncut (allocs P) e"
  shows "uncut (set (allocations p)) e"
proof -
  have "set (allocations p) \<subseteq> allocs P" using assms(1) by (auto simp: same_view_def)
  then show ?thesis using assms(2) unfolding uncut_def by blast
qed

text \<open>A range that cuts no allocation gets a page of its own, and the view stays.\<close>

lemma carve_cases:
  assumes "pages_ok P" "0 < n" "addr + n < 2 ^ 64" "uncut (allocs P) addr" "uncut (allocs P) (addr + n)"
  obtains
    (hit) L q R where "SplitJitPage addr n P = Some (L @ (addr, q) # R, addr)" "UnregisterJitPage addr n P = Some (L @ R)"
      "same_view (L @ (addr, q) # R) P" "page_bytes q = n" "{addr ..< addr + n} \<subseteq> covered P"
      "\<And>k w. (k, w) \<in> set P \<Longrightarrow> k + page_bytes w \<le> addr \<Longrightarrow> (k, w) \<in> set L"
  | (miss) "SplitJitPage addr n P = None" "UnregisterJitPage addr n P = None" "\<not> {addr ..< addr + n} \<subseteq> covered P"
  using assms(1-3)
proof (cases rule: Lookup_cases)
  case miss
  then show thesis by (intro that(2)) (simp_all add: SplitJitPage_def UnregisterJitPage_def)
next
  case (hit L a p R)
  have ok: "pages_ok (L @ (a, p) # R)" using hit(2) by (simp add: same_view_def)
  note ctx = page_in_context(1) [OF ok]
  have e: "a < addr + n" using hit(4) assms(2) by linarith
  from ok e hit(5) uncut_page [OF hit(2) assms(5)]
  obtain p' R' where T: "cut_tail (addr + n) a p (L @ (a, p) # R) = (p', L @ (a, p') # R')" "a + page_bytes p' = addr + n"
    "same_view (L @ (a, p') # R') (L @ (a, p) # R)" by (rule cut_tail_view)
  have V: "same_view (L @ (a, p') # R') P" using same_view_trans [OF T(3) hit(2)] .
  then have ok': "pages_ok (L @ (a, p') # R')" by (simp add: same_view_def)
  note S = SplitJitPage_cut [OF hit(1) ctx hit(4,5)] and U = UnregisterJitPage_cut [OF hit(1) ctx]
  show thesis
  proof (cases "a < addr")
    case False
    then have "a = addr" using hit(4) by simp
    with V T S U hit(3,6) page_in_context(3) [OF ok'] show thesis by (intro that(1) [of L p' R']) simp_all
  next
    case True
    obtain p2 q where P2: "Shrink a p' n = (p2, q)" by force
    have k: "n < page_bytes p'" "addr = a + page_bytes p' - n" using True T(2) by linarith+
    note C = cut_page [OF ok' assms(2) k(1) uncut_page [OF V assms(4)] k(2) P2]
    have set2: "set_page a p2 (L @ (a, p') # R') = L @ (a, p2) # R'" using page_in_context(2) [OF ok'] .
    show thesis
      by (rule that(1) [of "L @ [(a, p2)]" q R'])
        (use True S U T(1) P2 C(1,4) set2 same_view_trans [OF C(2) V] hit(3,6) in simp_all)
  qed
qed

lemma UnregisterJitPage_spec:
  assumes "pages_ok P" "0 < n" "addr + n < 2 ^ 64" "uncut (allocs P) addr" "uncut (allocs P) (addr + n)"
  shows "implements (UnregisterJitPage addr n P) (spec_unregister_page addr n (view P))"
  using assms
proof (cases rule: carve_cases)
  case (hit L q R)
  then have ok: "pages_ok (L @ (addr, q) # R)" by (simp add: same_view_def)
  have v: "covered P = covered (L @ (addr, q) # R)" "allocs P = allocs (L @ (addr, q) # R)" using hit(3) by (simp_all add: same_view_def)
  have "view (L @ R) = (covered P - {addr ..< addr + n}, {x \<in> allocs P. untouched {x} addr n})"
    unfolding view_def v using drop_page(2,3) [OF ok] hit(4) by blast
  with drop_page(1) [OF ok] hit(2,5) show ?thesis by (simp add: spec_unregister_page_def view_def)
qed (simp add: spec_unregister_page_def view_def)

lemma fold_sizes: "k + sum_list sizes < 2 ^ 64 \<Longrightarrow> fold (\<lambda>n total. add64 total n) sizes k = k + sum_list sizes"
  by (induction sizes arbitrary: k) (auto simp: add64_def)

lemma RegisterJitAllocations_spec:
  assumes "pages_ok P" "sizes \<noteq> []" "0 \<notin> set sizes" "start + sum_list sizes < 2 ^ 64"
    "kSplitThreshold \<le> sum_list sizes \<Longrightarrow> uncut (allocs P) start \<and> uncut (allocs P) (start + sum_list sizes)"
  shows "implements (RegisterJitAllocations start sizes t P) (spec_register start sizes t (view P))"
proof -
  have total: "fold (\<lambda>n total. add64 total n) sizes 0 = sum_list sizes" using fold_sizes [of 0 sizes] assms(4) by simp
  have pos: "0 < sum_list sizes" using assms(2,3) by (cases sizes) auto
  let ?f = "\<lambda>a p. register_all a start sizes t p"
  show ?thesis
  proof (cases "kSplitThreshold \<le> sum_list sizes")
    case False
    have page: "RegisterJitAllocations start sizes t P = on_page start (sum_list sizes) ?f P"
      using False by (simp add: RegisterJitAllocations_def on_page_def total)
    from assms(1) pos assms(4) show ?thesis
    proof (cases rule: on_page_cases [where f = ?f])
      case (hit L a p R)
      from register_all_view [OF hit(2-4,6,7) assms(3,2) hit(5), of t] show ?thesis by (simp add: page hit(1))
    next
      case miss
      then show ?thesis by (simp add: page spec_register_def view_def)
    qed
  next
    case True
    from assms(1) pos assms(4) assms(5) [OF True, THEN conjunct1] assms(5) [OF True, THEN conjunct2] show ?thesis
    proof (cases rule: carve_cases)
      case (hit L q R)
      have ok: "pages_ok (L @ (start, q) # R)" "covered P = covered (L @ (start, q) # R)" "allocs P = allocs (L @ (start, q) # R)"
        using hit(3) by (simp_all add: same_view_def)
      have "RegisterJitAllocations start sizes t P = map_option (\<lambda>p'. L @ (start, p') # R) (?f start q)"
        using True hit(1) page_in_context [OF ok(1)] by (simp add: RegisterJitAllocations_def total split: option.split)
      with register_all_view [OF ok, of start sizes t] hit(4,5) assms(2,3) show ?thesis by simp
    next
      case miss
      with True show ?thesis by (simp add: RegisterJitAllocations_def total spec_register_def view_def)
    qed
  qed
qed

subsection \<open>Runs\<close>

text \<open>
  Sequences of requests. Each request takes the mutexes it needs, so concurrent requests are one of these sequences.
\<close>

datatype registry_op =
    Register_Page nat nat
  | Unregister_Page nat nat
  | Register_Allocation nat nat jit_type
  | Register_Allocations nat "nat list" jit_type
  | Lookup_Allocation nat nat jit_type
  | Unregister_Allocation nat nat
  | Free_Range nat nat nat nat

fun step_op :: "registry_op \<Rightarrow> jit_pages \<Rightarrow> jit_pages option" where
  "step_op (Register_Page a n) P = RegisterJitPage a n P"
| "step_op (Unregister_Page a n) P = UnregisterJitPage a n P"
| "step_op (Register_Allocation a n t) P = RegisterJitAllocation a n t P"
| "step_op (Register_Allocations a sizes t) P = RegisterJitAllocations a sizes t P"
| "step_op (Lookup_Allocation a n t) P = LookupJitAllocation a n t P"
| "step_op (Unregister_Allocation a n) P = UnregisterWasmAllocation a n P"
| "step_op (Free_Range pa pn a n) P = FreeRange pa pn a n P"

fun spec_op :: "registry_op \<Rightarrow> registry \<Rightarrow> registry option" where
  "spec_op (Register_Page a n) r = spec_register_page a n r"
| "spec_op (Unregister_Page a n) r = spec_unregister_page a n r"
| "spec_op (Register_Allocation a n t) r = spec_register a [n] t r"
| "spec_op (Register_Allocations a sizes t) r = spec_register a sizes t r"
| "spec_op (Lookup_Allocation a n t) r = spec_lookup a n t r"
| "spec_op (Unregister_Allocation a n) r = spec_unregister a n r"
| "spec_op (Free_Range pa pn a n) r = spec_free_range pa pn a n r"

text \<open>
  The requests covered: ranges that are not empty and do not wrap, a removal within the page that is held,
  and no page boundary drawn through an allocation.
\<close>

fun allowed :: "registry_op \<Rightarrow> registry \<Rightarrow> bool" where
  "allowed (Register_Page a n) r \<longleftrightarrow> 0 < n \<and> n < 2 ^ 64 \<and> a < 2 ^ 64"
| "allowed (Unregister_Page a n) r \<longleftrightarrow> 0 < n \<and> a + n < 2 ^ 64 \<and> uncut (snd r) a \<and> uncut (snd r) (a + n)"
| "allowed (Register_Allocation a n t) r \<longleftrightarrow> 0 < n \<and> a + n < 2 ^ 64"
| "allowed (Register_Allocations a sizes t) r \<longleftrightarrow>
     sizes \<noteq> [] \<and> 0 \<notin> set sizes \<and> a + sum_list sizes < 2 ^ 64 \<and>
     (kSplitThreshold \<le> sum_list sizes \<longrightarrow> uncut (snd r) a \<and> uncut (snd r) (a + sum_list sizes))"
| "allowed (Lookup_Allocation a n t) r \<longleftrightarrow> 0 < n \<and> a + n < 2 ^ 64"
| "allowed (Unregister_Allocation a n) r \<longleftrightarrow> 0 < n \<and> a + n < 2 ^ 64"
| "allowed (Free_Range pa pn a n) r \<longleftrightarrow> 0 < pn \<and> pa + pn < 2 ^ 64 \<and> pa \<le> a \<and> a + n \<le> pa + pn"

fun run :: "('o \<Rightarrow> 's \<Rightarrow> 's option) \<Rightarrow> 'o list \<Rightarrow> 's \<Rightarrow> 's option" where
  "run f [] s = Some s"
| "run f (x # xs) s = (case f x s of None \<Rightarrow> None | Some s' \<Rightarrow> run f xs s')"

fun allowed_run :: "('o \<Rightarrow> 'r \<Rightarrow> 'r option) \<Rightarrow> ('o \<Rightarrow> 'r \<Rightarrow> bool) \<Rightarrow> 'o list \<Rightarrow> 'r \<Rightarrow> bool" where
  "allowed_run spec ok [] r \<longleftrightarrow> True"
| "allowed_run spec ok (x # xs) r \<longleftrightarrow>
     ok x r \<and> (case spec x r of None \<Rightarrow> True | Some r' \<Rightarrow> allowed_run spec ok xs r')"

text \<open>The contract between the registry and its callers: every allowed request does what the abstract registry does.\<close>

locale registry_contract =
  fixes step :: "'o \<Rightarrow> 's \<Rightarrow> 's option" and spec :: "'o \<Rightarrow> 'r \<Rightarrow> 'r option"
    and ok :: "'o \<Rightarrow> 'r \<Rightarrow> bool" and inv :: "'s \<Rightarrow> bool" and abs :: "'s \<Rightarrow> 'r"
  assumes step_fails: "\<lbrakk> inv s; ok x (abs s); step x s = None \<rbrakk> \<Longrightarrow> spec x (abs s) = None"
    and step_returns: "\<lbrakk> inv s; ok x (abs s); step x s = Some s' \<rbrakk> \<Longrightarrow> inv s' \<and> spec x (abs s) = Some (abs s')"
begin

lemma run_matches:
  assumes "inv s" "allowed_run spec ok xs (abs s)"
  shows "(\<forall>s'. run step xs s = Some s' \<longrightarrow> inv s') \<and> map_option abs (run step xs s) = run spec xs (abs s)"
  using assms
proof (induction xs arbitrary: s)
  case (Cons x xs)
  show ?case
  proof (cases "step x s")
    case None
    with Cons.prems step_fails [of s x] show ?thesis by simp
  next
    case (Some s')
    have ok: "ok x (abs s)" using Cons.prems(2) by simp
    from step_returns [OF Cons.prems(1) ok Some] have s': "inv s'" "spec x (abs s) = Some (abs s')" by simp_all
    have "allowed_run spec ok xs (abs s')" using Cons.prems(2) s'(2) by simp
    from Cons.IH [OF s'(1) this] show ?thesis unfolding run.simps Some s'(2) option.case .
  qed
qed simp

end

lemma step_op_implements:
  assumes "pages_ok P" "allowed x (view P)"
  shows "implements (step_op x P) (spec_op x (view P))"
  using assms
  by (cases x)
    (simp_all add: RegisterJitPage_spec UnregisterJitPage_spec RegisterJitAllocation_spec RegisterJitAllocations_spec
      LookupJitAllocation_spec UnregisterWasmAllocation_spec FreeRange_spec)

interpretation jit: registry_contract step_op spec_op allowed pages_ok view
  using step_op_implements by unfold_locales force+

lemma allocs_apart:
  assumes "pages_ok P" "(b, y) \<in> allocs P" "(c, z) \<in> allocs P"
  shows "(b, y) = (c, z) \<or> b + alloc_size y \<le> c \<or> c + alloc_size z \<le> b"
proof -
  from assms(2,3) obtain a p k w where ap: "(a, p) \<in> set P" "(b, y) \<in> set (allocations p)"
    "(k, w) \<in> set P" "(c, z) \<in> set (allocations w)" by (auto simp: allocs_def)
  have ok: "page_ok a p" "page_ok k w" using assms(1) ap by (auto simp: pages_ok_def)
  then have bd: "a \<le> b" "b + alloc_size y \<le> a + page_bytes p" "k \<le> c" "c + alloc_size z \<le> k + page_bytes w"
    "regions_ok alloc_size (allocations p)"
    using ap by (auto simp: page_ok_def)
  from entries_apart [OF pages_regions [OF assms(1)] ap(1,3)] show ?thesis
  proof (elim disjE)
    assume "(a, p) = (k, w)"
    then show ?thesis using entries_apart [OF bd(5) ap(2), of c z] ap(4) by simp
  qed (use bd in linarith)+
qed

lemma uncut_at:
  assumes "pages_ok P" "(b, y) \<in> allocs P"
  shows "uncut (allocs P) b" "uncut (allocs P) (b + alloc_size y)"
proof -
  have "c + alloc_size z \<le> b \<or> b \<le> c" "c + alloc_size z \<le> b + alloc_size y \<or> b + alloc_size y \<le> c" if "(c, z) \<in> allocs P" for c z
    using allocs_apart [OF assms that] allocs_bounds(1) [OF assms] by auto
  then show "uncut (allocs P) b" "uncut (allocs P) (b + alloc_size y)" by (auto simp: uncut_def)
qed

text \<open>
  C27: The pages are invisible. However pages were merged and split on the way, a run of allowed requests
  returns exactly when the abstract registry accepts every one of them, with the covered addresses and the
  allocations the abstract registry has then, and it fails a check exactly when the abstract registry refuses one.
\<close>

theorem registry_runs_refine:
  assumes "pages_ok P" "allowed_run spec_op allowed xs (view P)"
  shows "map_option view (run step_op xs P) = run spec_op xs (view P)"
  using jit.run_matches [OF assms] by simp

theorem registry_runs_refine_witness:
  "map_option view (run step_op [Register_Page 4096 4096, Register_Page 8192 4096, Register_Allocation 8000 400 kWasmCode] []) =
   Some ({4096 ..< 12288}, {(8000, \<lparr>alloc_size = 400, alloc_type = kWasmCode\<rparr>)})"
proof -
  let ?xs = "[Register_Page 4096 4096, Register_Page 8192 4096, Register_Allocation 8000 400 kWasmCode]"
  have u: "{4096 ..< 8192} \<union> {8192 ..< 12288} = {4096 ..< (12288 :: nat)}" by (rule ivl_disj_un) simp_all
  have a: "allowed_run spec_op allowed ?xs (view [])"
    by (simp add: spec_register_page_def view_def split: option.split)
  have "run spec_op ?xs (view []) = Some ({4096 ..< 12288}, {(8000, \<lparr>alloc_size = 400, alloc_type = kWasmCode\<rparr>)})"
    by (simp add: spec_register_page_def spec_register_def untouched_def view_def u)
  then show ?thesis using registry_runs_refine [OF pages_ok_simps(1) a] by simp
qed

text \<open>
  C28: Registered code never overlaps. After any allowed run from the empty registry, two allocations are the same
  or apart, and every allocation lies within registered executable memory.
\<close>

theorem registered_code_disjoint:
  assumes "allowed_run spec_op allowed xs ({}, {})" "run step_op xs [] = Some P" "(b, y) \<in> allocs P" "(c, z) \<in> allocs P"
  shows "{b ..< b + alloc_size y} \<subseteq> covered P \<and>
    ((b, y) = (c, z) \<or> {b ..< b + alloc_size y} \<inter> {c ..< c + alloc_size z} = {})"
proof -
  have "view [] = ({}, {})" by (simp add: view_def)
  then have ok: "pages_ok P" using jit.run_matches [of "[]" xs] assms(1,2) by simp
  from allocs_apart [OF ok assms(3,4)] alloc_covered [OF ok assms(3)] show ?thesis by auto
qed

theorem registered_code_disjoint_witness:
  "{4096 ..< 4096 + 256} \<inter> {4352 ..< 4352 + 256} = ({} :: nat set) \<and>
   run step_op [Register_Page 4096 4096, Register_Allocations 4096 [256, 256] kWasmCode] [] =
     Some [(4096, \<lparr>page_bytes = 4096, allocations =
       [(4096, \<lparr>alloc_size = 256, alloc_type = kWasmCode\<rparr>), (4352, \<lparr>alloc_size = 256, alloc_type = kWasmCode\<rparr>)]\<rparr>)]"
    (is "_ \<and> run step_op ?xs [] = Some ?P")
proof -
  have a: "allowed_run spec_op allowed ?xs ({}, {})"
    by (simp add: spec_register_page_def kSplitThreshold_def split: option.split)
  have r: "run step_op ?xs [] = Some ?P"
    by (simp add: RegisterJitPage_def RegisterJitAllocations_def LookupJitPage_def TryLookupJitPageLocked_def
        RegisterAllocation_def CheckForRegionOverlap_def emplace_def bound_simps add64_def kSplitThreshold_def page_at_def set_page_def)
  show ?thesis
    using registered_code_disjoint [OF a r, of 4096 "\<lparr>alloc_size = 256, alloc_type = kWasmCode\<rparr>" 4352 "\<lparr>alloc_size = 256, alloc_type = kWasmCode\<rparr>"] r
    by simp
qed

text \<open>
  The lookup after a positive \<^verbatim>\<open>CanLookupStartOfJitAllocationAt\<close> takes no mutex but the two it has tested: it merges
  nothing, and the only page it can return is the tested one.
\<close>

lemma CanLookup_takes_tested_mutex:
  assumes "CanLookupStartOfJitAllocationAt pages_free page_free x P" "x + 1 < 2 ^ 64" "TryLookupJitPageLocked x 1 P = Some (Q, r)"
  shows "Q = P \<and> (\<forall>a. r = Some a \<longrightarrow> page_free a)"
proof -
  obtain a p where l: "last (upto_key x P) = (a, p)" by force
  have "add64 x 1 = x + 1" using assms(2) by (simp add: add64_def)
  with assms l show ?thesis
    by (auto simp: CanLookupStartOfJitAllocationAt_def TryLookupJitPageLocked_def split: if_splits)
qed

lemma AllocationContaining_exact:
  assumes "regions_ok alloc_size (allocations p)"
  shows "AllocationContaining x p = Some (b, y) \<longleftrightarrow> (b, y) \<in> set (allocations p) \<and> b \<le> x \<and> x < b + alloc_size y"
proof (cases "upto_key x (allocations p) = []")
  case True
  then show ?thesis by (auto simp: AllocationContaining_def bound_simps filter_empty_conv)
next
  case False
  obtain k w where l: "last (upto_key x (allocations p)) = (k, w)" by force
  note lu = last_upto [OF assms False l] and mx = last_upto_max [OF assms l, of b y]
  have val: "AllocationContaining x p = (if x - k < alloc_size w then Some (k, w) else None)"
    using False by (simp add: AllocationContaining_def l)
  show ?thesis
  proof
    assume "AllocationContaining x p = Some (b, y)"
    with val lu(1,2) show "(b, y) \<in> set (allocations p) \<and> b \<le> x \<and> x < b + alloc_size y" by (auto split: if_splits)
  next
    assume b: "(b, y) \<in> set (allocations p) \<and> b \<le> x \<and> x < b + alloc_size y"
    with mx lu(2) have "(b, y) = (k, w)" by auto
    with b val show "AllocationContaining x p = Some (b, y)" by auto
  qed
qed

text \<open>
  The start of the allocation around an inner pointer. The query answers with the start of the registered
  allocation that contains the pointer, answers with nothing exactly for a pointer outside executable memory, and fails
  a check for executable memory that holds no allocation there.
\<close>

lemma StartOfJitAllocationAt_exact:
  assumes "pages_ok P" "x + 1 < 2 ^ 64"
  shows "case StartOfJitAllocationAt x P of
      None \<Rightarrow> x \<in> covered P \<and> (\<forall>(b, y) \<in> allocs P. x \<notin> {b ..< b + alloc_size y})
    | Some (Q, None) \<Rightarrow> view Q = view P \<and> x \<notin> covered P
    | Some (Q, Some b) \<Rightarrow> view Q = view P \<and> (\<exists>y. (b, y) \<in> allocs P \<and> x \<in> {b ..< b + alloc_size y})"
  using assms(1) zero_less_one assms(2)
proof (cases rule: TryLookup_cases)
  case (hit L a p R)
  have ok: "pages_ok (L @ (a, p) # R)" and v: "allocs P = allocs (L @ (a, p) # R)" "view (L @ (a, p) # R) = view P"
    using hit(2) by (simp_all add: same_view_def view_def)
  note C = page_in_context [OF ok]
  have reg: "regions_ok alloc_size (allocations p)" using C(4) by (simp add: page_ok_def)
  have here: "(b, y) \<in> set (allocations p)" if "(b, y) \<in> allocs P" "x \<in> {b ..< b + alloc_size y}" for b y
    using allocs_elsewhere [OF ok, of b y] that v hit(4,5) by auto
  note X = AllocationContaining_exact [OF reg, of x]
  show ?thesis
  proof (cases "AllocationContaining x p")
    case None
    then have "x \<notin> {b ..< b + alloc_size y}" if "(b, y) \<in> allocs P" for b y
      using X [of b y] here [OF that] by auto
    moreover have "x \<in> covered P" using hit(3) by simp
    ultimately show ?thesis using hit(1) C(1) None by (auto simp: StartOfJitAllocationAt_def StartOfAllocationAt_def)
  next
    case (Some found)
    obtain b y where b: "found = (b, y)" by force
    with X [of b y] Some v have "(b, y) \<in> allocs P" "x \<in> {b ..< b + alloc_size y}" by auto
    with hit(1) C(1) Some b v(2) show ?thesis by (auto simp: StartOfJitAllocationAt_def StartOfAllocationAt_def)
  qed
next
  case (miss Q)
  then show ?thesis by (simp add: StartOfJitAllocationAt_def same_view_def view_def)
next
  case gap
  then show ?thesis by simp
qed

lemma StartOfJitAllocationAt_exact_witness:
  "\<exists>Q. StartOfJitAllocationAt 4400 [(4096, \<lparr>page_bytes = 4096, allocations = [(4352, \<lparr>alloc_size = 256, alloc_type = kWasmCode\<rparr>)]\<rparr>)] =
     Some (Q, Some 4352) \<and> view Q = ({4096 ..< 8192}, {(4352, \<lparr>alloc_size = 256, alloc_type = kWasmCode\<rparr>)})"
    (is "\<exists>Q. StartOfJitAllocationAt 4400 ?P = _ \<and> _")
proof -
  have "pages_ok ?P" by (simp add: page_ok_def)
  from StartOfJitAllocationAt_exact [OF this, of 4400] show ?thesis
    by (auto simp: view_def split: option.splits prod.splits)
qed

text \<open>A page that spans an allocation of the registry holds it.\<close>

lemma page_holds:
  assumes "pages_ok Q" "(b, q) \<in> set Q" "page_bytes q = alloc_size y" "(b, y) \<in> allocs Q"
  shows "page_at Q b = Some q" "Contains b (alloc_size y) (alloc_type y) q"
proof -
  show at: "page_at Q b = Some q" using map_of_entry [OF pages_regions [OF assms(1)]] assms(2) by (simp add: page_at_def)
  obtain L R where Q: "Q = L @ (b, q) # R" using assms(2) by (meson split_list)
  have ok: "pages_ok (L @ (b, q) # R)" using assms(1) Q by simp
  have "(b, y) \<notin> allocs L \<union> allocs R"
    using allocs_elsewhere [OF ok, of b y] assms(3) allocs_bounds(1) [OF assms(1,4)] by auto
  with assms(4) Q have "(b, y) \<in> set (allocations q)" by simp
  moreover have "regions_ok alloc_size (allocations q)" using page_in_context(4) [OF ok] by (simp add: page_ok_def)
  ultimately have "map_of (allocations q) b = Some y" by (simp add: map_of_entry)
  then show "Contains b (alloc_size y) (alloc_type y) q" by (simp add: Contains_def)
qed

lemma split_two:
  assumes "pages_ok P" "(b, y) \<in> allocs P" "(c, z) \<in> allocs P" "b + alloc_size y \<le> c"
  obtains P1 Q q r where "SplitJitPage b (alloc_size y) P = Some (P1, b)" "SplitJitPage c (alloc_size z) P1 = Some (Q, c)"
    "same_view Q P" "page_at Q b = Some q" "Contains b (alloc_size y) (alloc_type y) q"
    "page_at Q c = Some r" "Contains c (alloc_size z) (alloc_type z) r"
proof -
  note bd = allocs_bounds [OF assms(1,2)] allocs_bounds [OF assms(1,3)]
  from assms(1) bd(1,2) uncut_at [OF assms(1,2)] obtain L q R where 1: "SplitJitPage b (alloc_size y) P = Some (L @ (b, q) # R, b)"
    "same_view (L @ (b, q) # R) P" "page_bytes q = alloc_size y"
    using alloc_covered [OF assms(1,2)] by (cases rule: carve_cases) auto
  let ?P1 = "L @ (b, q) # R"
  have ok1: "pages_ok ?P1" "allocs ?P1 = allocs P" "covered ?P1 = covered P" using 1(2) by (simp_all only: same_view_def)
  have cov: "{c ..< c + alloc_size z} \<subseteq> covered ?P1" using alloc_covered [OF assms(1,3)] ok1(3) by simp
  have c1: "uncut (allocs ?P1) c" "uncut (allocs ?P1) (c + alloc_size z)" using uncut_at [OF assms(1,3)] by (simp_all only: ok1(2))
  from ok1(1) bd(4,5) c1 obtain L2 r R2 where 2: "SplitJitPage c (alloc_size z) ?P1 = Some (L2 @ (c, r) # R2, c)"
    "same_view (L2 @ (c, r) # R2) ?P1" "page_bytes r = alloc_size z" "(b, q) \<in> set L2"
  proof (cases rule: carve_cases)
    case (hit L2 r R2)
    have "(b, q) \<in> set L2" using hit(6) [of b q] 1(3) assms(4) by simp
    with hit that show thesis by blast
  next
    case miss
    with cov show thesis by blast
  qed
  let ?Q = "L2 @ (c, r) # R2"
  have v: "same_view ?Q P" using same_view_trans [OF 2(2) 1(2)] .
  then have Q: "pages_ok ?Q" "allocs ?Q = allocs P" by (simp_all only: same_view_def)
  from page_holds [OF Q(1), of b q y] page_holds [OF Q(1), of c r z] 1(3) 2(3,4) Q(2) assms(2,3)
  show thesis by (intro that [OF 1(1) 2(1) v, of q r]) auto
qed

text \<open>
  C29: Patching the jump tables always works. When a module's jump table and its far jump table are registered, the lookup
  before each patch succeeds, wherever page boundaries happen to be, and changes nothing that callers see.
\<close>

theorem jump_tables_found:
  assumes "pages_ok P" "(jump, \<lparr>alloc_size = jn, alloc_type = kWasmJumpTable\<rparr>) \<in> allocs P"
    "(far, \<lparr>alloc_size = fn, alloc_type = kWasmFarJumpTable\<rparr>) \<in> allocs P"
  shows "\<exists>Q. LookupJumpTableAllocations jump jn far fn P = Some Q \<and> pages_ok Q \<and> view Q = view P"
proof -
  let ?J = "\<lparr>alloc_size = jn, alloc_type = kWasmJumpTable\<rparr>" and ?F = "\<lparr>alloc_size = fn, alloc_type = kWasmFarJumpTable\<rparr>"
  have e: "add64 jump jn = jump + jn" "add64 far fn = far + fn" "0 < jn" "0 < fn"
    using allocs_bounds(1,2) [OF assms(1,2)] allocs_bounds(1,2) [OF assms(1,3)] by (simp_all add: add64_def)
  consider "far + fn \<le> jump" | "jump + jn \<le> far" using allocs_apart [OF assms(1-3)] by auto
  then show ?thesis
  proof cases
    case 1
    obtain P1 Q q r where S: "SplitJitPage far fn P = Some (P1, far)" "SplitJitPage jump jn P1 = Some (Q, jump)" "same_view Q P"
      "page_at Q far = Some q" "Contains far fn kWasmFarJumpTable q" "page_at Q jump = Some r" "Contains jump jn kWasmJumpTable r"
      by (rule split_two [OF assms(1,3,2), unfolded jit_alloc.select_convs, OF 1])
    have "LookupJumpTableAllocations jump jn far fn P = Some Q"
      using S 1 e by (simp add: LookupJumpTableAllocations_def SplitJitPages_def)
    then show ?thesis using S(3) by (simp add: same_view_def view_def)
  next
    case 2
    obtain P1 Q q r where S: "SplitJitPage jump jn P = Some (P1, jump)" "SplitJitPage far fn P1 = Some (Q, far)" "same_view Q P"
      "page_at Q jump = Some q" "Contains jump jn kWasmJumpTable q" "page_at Q far = Some r" "Contains far fn kWasmFarJumpTable r"
      by (rule split_two [OF assms(1,2,3), unfolded jit_alloc.select_convs, OF 2])
    have "LookupJumpTableAllocations jump jn far fn P = Some Q"
      using S 2 e by (simp add: LookupJumpTableAllocations_def SplitJitPages_def)
    then show ?thesis using S(3) by (simp add: same_view_def view_def)
  qed
qed

theorem jump_tables_found_witness:
  "\<exists>Q. LookupJumpTableAllocations 4096 64 8192 64
      [(4096, \<lparr>page_bytes = 4096, allocations = [(4096, \<lparr>alloc_size = 64, alloc_type = kWasmJumpTable\<rparr>)]\<rparr>),
       (8192, \<lparr>page_bytes = 4096, allocations = [(8192, \<lparr>alloc_size = 64, alloc_type = kWasmFarJumpTable\<rparr>)]\<rparr>)] = Some Q"
  using jump_tables_found [of "[(4096, \<lparr>page_bytes = 4096, allocations = [(4096, \<lparr>alloc_size = 64, alloc_type = kWasmJumpTable\<rparr>)]\<rparr>),
      (8192, \<lparr>page_bytes = 4096, allocations = [(8192, \<lparr>alloc_size = 64, alloc_type = kWasmFarJumpTable\<rparr>)]\<rparr>)]" 4096 64 8192 64]
  by (auto simp: page_ok_def)

subsection \<open>Where the checks miss\<close>

text \<open>A page with one allocation that the start of a range cuts, and the range split off.\<close>

lemma split_cutting:
  assumes "a \<le> b" "b < start" "start + n \<le> a + N" "a + N < 2 ^ 64" "0 < n"
  obtains Q p where "SplitJitPage start n [(a, \<lparr>page_bytes = N, allocations = [(b, y)]\<rparr>)] = Some (Q, start)"
    "page_at Q start = Some \<lparr>page_bytes = n, allocations = []\<rparr>" "page_at Q a = Some p" "allocations p = [(b, y)]" "a < start"
proof -
  let ?p = "\<lparr>page_bytes = N, allocations = [(b, y)]\<rparr>"
  let ?P = "[(a, ?p)]"
  have "add64 start n = start + n" using assms(3,4) by (simp add: add64_def)
  then have L: "LookupJitPage start n ?P = Some (?P, a)"
    using assms by (simp add: LookupJitPage_def TryLookupJitPageLocked_def upto_key_def)
  define p1 where "p1 = \<lparr>page_bytes = start + n - a, allocations = [(b, y)]\<rparr>"
  define R where "R = (if start + n < a + N then [(start + n, \<lparr>page_bytes = a + N - (start + n), allocations = []\<rparr>)] else [])"
  have "cut_tail (start + n) a ?p ?P = (p1, (a, p1) # R)"
    using assms by (simp add: cut_tail_def Shrink_def Let_def set_page_def emplace_def bound_simps p1_def R_def)
  moreover have "Shrink a p1 n = (\<lparr>page_bytes = start - a, allocations = [(b, y)]\<rparr>, \<lparr>page_bytes = n, allocations = []\<rparr>)"
    using assms by (simp add: p1_def Shrink_def Let_def bound_simps)
  ultimately have "SplitJitPage start n ?P =
      Some ([(a, \<lparr>page_bytes = start - a, allocations = [(b, y)]\<rparr>), (start, \<lparr>page_bytes = n, allocations = []\<rparr>)] @ R, start)"
    using SplitJitPage_cut [OF L, of ?p] assms
    by (simp add: page_at_def emplace_def set_page_def bound_simps R_def)
  then show thesis using assms by (intro that) (auto simp: page_at_def)
qed

text \<open>
  Large registrations bypass the overlap check. The checks of a registration are there for untrusted requests, and a
  request that overlaps an existing allocation is refused when it is smaller than the split threshold. From the
  threshold on, the page is split at the start of the range first, the allocation that the range cuts stays in the head
  page, and the check looks at the new page only: the request succeeds and both allocations are registered.
\<close>

lemma split_hides_overlap:
  assumes "a \<le> b" "b < start" "start < b + alloc_size y" "b + alloc_size y \<le> a + N" "start + n \<le> a + N" "a + N < 2 ^ 64" "0 < n"
  defines "P \<equiv> [(a, \<lparr>page_bytes = N, allocations = [(b, y)]\<rparr>)]"
  shows "case RegisterJitAllocations start [n] t P of
      None \<Rightarrow> n < kSplitThreshold
    | Some Q \<Rightarrow> kSplitThreshold \<le> n \<and> {(b, y), (start, \<lparr>alloc_size = n, alloc_type = t\<rparr>)} \<subseteq> allocs Q"
proof (cases "n < kSplitThreshold")
  case True
  have "pages_ok P" using assms by (simp add: page_ok_def)
  moreover have "spec_register start [n] t (view P) = None"
    using assms by (simp add: spec_register_def untouched_def P_def)
  ultimately have "RegisterJitAllocations start [n] t P = None"
    using RegisterJitAllocations_spec [of P "[n]" start t] True assms(5-7) by (simp add: implements_def split: option.splits)
  with True show ?thesis by simp
next
  case False
  let ?x = "\<lparr>alloc_size = n, alloc_type = t\<rparr>" and ?q = "\<lparr>page_bytes = n, allocations = []\<rparr>"
  from assms(1,2,5-7) obtain Q p where S: "SplitJitPage start n P = Some (Q, start)" "page_at Q start = Some ?q"
    "page_at Q a = Some p" "allocations p = [(b, y)]" "a < start" unfolding P_def by (rule split_cutting)
  have "register_all start start [n] t ?q = Some \<lparr>page_bytes = n, allocations = [(start, ?x)]\<rparr>"
    using assms(5-7) by (simp add: RegisterAllocation_def add64_def CheckForRegionOverlap_def emplace_def bound_simps)
  with S(1,2) False assms(5,6) have "RegisterJitAllocations start [n] t P =
      Some (set_page start \<lparr>page_bytes = n, allocations = [(start, ?x)]\<rparr> Q)"
    by (simp add: RegisterJitAllocations_def add64_def)
  moreover have "(start, ?q) \<in> set Q" "(a, p) \<in> set Q" using S(2,3) by (auto simp: page_at_def dest: map_of_SomeD)
  then have "{(b, y), (start, ?x)} \<subseteq> allocs (set_page start \<lparr>page_bytes = n, allocations = [(start, ?x)]\<rparr> Q)"
    using S(4,5) by (force simp: set_page_def allocs_def)
  ultimately show ?thesis using False by simp
qed

lemma split_hides_overlap_witness:
  "case RegisterJitAllocations 65536 [262144] kWasmCode
      [(0, \<lparr>page_bytes = 1048576, allocations = [(0, \<lparr>alloc_size = 131072, alloc_type = kWasmCode\<rparr>)]\<rparr>)] of
      None \<Rightarrow> False
    | Some Q \<Rightarrow> {(0, \<lparr>alloc_size = 131072, alloc_type = kWasmCode\<rparr>), (65536, \<lparr>alloc_size = 262144, alloc_type = kWasmCode\<rparr>)} \<subseteq> allocs Q"
  using split_hides_overlap [of 0 0 65536 "\<lparr>alloc_size = 131072, alloc_type = kWasmCode\<rparr>" 1048576 262144 kWasmCode]
  by (simp add: kSplitThreshold_def split: option.splits)

text \<open>
  \<^verbatim>\<open>UnregisterAllocationsExcept\<close> loses an allocation before its range. Its comment says that all allocations before
  the start are kept; the iterator is stepped back before the copy, so the last of them is dropped unless the caller lists it.
\<close>

lemma keep_drops_prior:
  assumes "regions_ok alloc_size (allocations p)" "before_key start (allocations p) \<noteq> []" "start + n < 2 ^ 64"
  shows "UnregisterAllocationsExcept start n [] p =
      Some (p\<lparr>allocations := butlast (before_key start (allocations p)) @ from_key (start + n) (allocations p)\<rparr>) \<and>
    last (before_key start (allocations p)) \<notin> set (butlast (before_key start (allocations p)) @ from_key (start + n) (allocations p))"
proof -
  let ?b = "before_key start (allocations p)"
  have "add64 start n = start + n" using assms(3) by (simp add: add64_def)
  then have "UnregisterAllocationsExcept start n [] p = Some (p\<lparr>allocations := butlast ?b @ from_key (start + n) (allocations p)\<rparr>)"
    using assms(2) by (simp add: UnregisterAllocationsExcept_def Let_def)
  moreover have "last ?b \<in> set ?b" using assms(2) by simp
  then have "last ?b \<notin> set (from_key (start + n) (allocations p))" by (simp add: set_bounds)
  moreover have "last ?b \<notin> set (butlast ?b)"
  proof
    assume "last ?b \<in> set (butlast ?b)"
    moreover have "regions_ok alloc_size (butlast ?b @ [last ?b])"
      using regions_ok_bounds(3) [OF assms(1), of start] append_butlast_last_id [OF assms(2)] by simp
    ultimately show False
      using regions_ok_appendD(2) [of alloc_size "butlast ?b" "fst (last ?b)" "snd (last ?b)" "[]" "fst (last ?b)" "snd (last ?b)"]
      by simp
  qed
  ultimately show ?thesis by simp
qed

lemma keep_drops_prior_witness:
  "UnregisterAllocationsExcept 4352 256 [] \<lparr>page_bytes = 4096, allocations =
      [(4096, \<lparr>alloc_size = 256, alloc_type = kWasmCode\<rparr>), (4608, \<lparr>alloc_size = 256, alloc_type = kWasmCode\<rparr>)]\<rparr> =
   Some \<lparr>page_bytes = 4096, allocations = [(4608, \<lparr>alloc_size = 256, alloc_type = kWasmCode\<rparr>)]\<rparr>"
  using keep_drops_prior [of "\<lparr>page_bytes = 4096, allocations =
      [(4096, \<lparr>alloc_size = 256, alloc_type = kWasmCode\<rparr>), (4608, \<lparr>alloc_size = 256, alloc_type = kWasmCode\<rparr>)]\<rparr>" 4352 256]
  by (simp add: bound_simps)

end
