(* ===== verification/Wasm_Handlers.thy ===== *)
theory Wasm_Handlers
  imports Blinker_Prelude "HOL-Library.Signed_Division"
begin

unbundle bit_operations_syntax

text \<open>
  The integer and memory handlers of the WebAssembly interpreter
  (\<^verbatim>\<open>v8/src/wasm/interpreter/wasm-interpreter.cc\<close>), which runs every WebAssembly function while
  the engine is jitless. Each operation exists in up to four variants that take their last operand
  from the register \<^verbatim>\<open>r0\<close> or from a slot and leave the result in \<^verbatim>\<open>r0\<close> or in a slot
  (\<^verbatim>\<open>r2r\<close>, \<^verbatim>\<open>r2s\<close>, \<^verbatim>\<open>s2r\<close>, \<^verbatim>\<open>s2s\<close>); the C++ templates over the operand types are definitions over
  word lengths.

  C++ leaves some operations undefined (division by zero, \<^verbatim>\<open>INT_MIN / -1\<close>, shifts by the width or
  more): \<open>Undefined\<close> is the outcome of a handler that executes one. Vectors are in \<open>Wasm_Simd\<close>; floating-point, reference
  and garbage-collection handlers, and the bytecode generator, are not modelled.
\<close>

type_synonym u8 = "8 word"
type_synonym u16 = "16 word"

subsection \<open>The machine\<close>

text \<open>
  \<open>slot_size\<close>, \<open>mem32_size\<close>, \<open>mem64_size\<close> are the sizes in bytes of \<^verbatim>\<open>slot_offset_t\<close>,
  \<^verbatim>\<open>memory_offset32_t\<close> and \<^verbatim>\<open>memory_offset64_t\<close> (\<^verbatim>\<open>handler_traits\<close>, which depend on bytecode compression);
  these and \<^verbatim>\<open>kCodeOffsetSize\<close> come from the interpreter's header, which is not part of the overlay.
  \<^verbatim>\<open>base::IsInBounds\<close> and the functions of \<^verbatim>\<open>base::bits\<close> are library functions.
\<close>

record wasm_env =
  slot_size :: nat
  mem32_size :: nat
  mem64_size :: nat
  kCodeOffsetSize :: nat
  IsInBounds :: "u64 \<Rightarrow> u64 \<Rightarrow> u64 \<Rightarrow> bool"
  RotateLeft32 :: "u32 \<Rightarrow> nat \<Rightarrow> u32"
  RotateRight32 :: "u32 \<Rightarrow> nat \<Rightarrow> u32"
  RotateLeft64 :: "u64 \<Rightarrow> nat \<Rightarrow> u64"
  RotateRight64 :: "u64 \<Rightarrow> nat \<Rightarrow> u64"

datatype trap_reason =
    kWasmTrapUnreachable | kWasmTrapMemOutOfBounds | kWasmTrapDivByZero | kWasmTrapDivUnrepresentable
  | kWasmTrapRemByZero | kWasmTrapTableOutOfBounds | kWasmTrapUnalignedAccess

record interp =
  bytecode :: "nat \<Rightarrow> u8"
  code :: nat
  slots :: "nat \<Rightarrow> u32"
  r0 :: u64
  memory :: "nat \<Rightarrow> u8 list"
  globals :: "nat \<Rightarrow> u64"

datatype 'a step = Next 'a | Trap trap_reason | Undefined

text \<open>Little-endian values of byte and slot sequences.\<close>

fun le_nat :: "u8 list \<Rightarrow> nat" where
  "le_nat [] = 0"
| "le_nat (b # bs) = unat b + 256 * le_nat bs"

fun le_bytes :: "nat \<Rightarrow> nat \<Rightarrow> u8 list" where
  "le_bytes 0 v = []"
| "le_bytes (Suc n) v = of_nat v # le_bytes n (v div 256)"

fun le_slots :: "u32 list \<Rightarrow> nat" where
  "le_slots [] = 0"
| "le_slots (w # ws) = unat w + 2 ^ 32 * le_slots ws"

definition Read :: "nat \<Rightarrow> interp \<Rightarrow> nat \<times> interp" where
  "Read n s = (le_nat (map (bytecode s) [code s..<code s + n]), s\<lparr>code := code s + n\<rparr>)"

text \<open>Reading and writing a value of type \<open>'a\<close> at a slot offset.\<close>

definition slot_value :: "nat \<Rightarrow> (nat \<Rightarrow> u32) \<Rightarrow> 'a::len word" where
  "slot_value off sl = of_nat (le_slots (map sl [off..<off + LENGTH('a) div 32]))"

definition slot_write :: "nat \<Rightarrow> 'a::len word \<Rightarrow> (nat \<Rightarrow> u32) \<Rightarrow> (nat \<Rightarrow> u32)" where
  "slot_write off v sl =
     (\<lambda>i. if off \<le> i \<and> i < off + LENGTH('a) div 32 then ucast (drop_bit (32 * (i - off)) v) else sl i)"

definition pop :: "wasm_env \<Rightarrow> interp \<Rightarrow> 'a::len word \<times> interp" where
  "pop E s = (let (off, s) = Read (slot_size E) s in (slot_value off (slots s), s))"

definition push :: "wasm_env \<Rightarrow> 'a::len word \<Rightarrow> interp \<Rightarrow> interp" where
  "push E v s = (let (off, s) = Read (slot_size E) s in s\<lparr>slots := slot_write off v (slots s)\<rparr>)"

subsection \<open>C++ integer operations\<close>

definition int_min :: "'a::len word" where "int_min = push_bit (LENGTH('a) - 1) 1"

definition cpp_sdiv :: "'a::len word \<Rightarrow> 'a word \<Rightarrow> 'a word option" where
  "cpp_sdiv l r = (if r = 0 \<or> l = int_min \<and> r = - 1 then None else Some (word_of_int (signed_divide (sint l) (sint r))))"

definition cpp_smod :: "'a::len word \<Rightarrow> 'a word \<Rightarrow> 'a word option" where
  "cpp_smod l r = (if r = 0 \<or> l = int_min \<and> r = - 1 then None else Some (word_of_int (signed_modulo (sint l) (sint r))))"

definition cpp_udiv :: "'a::len word \<Rightarrow> 'a word \<Rightarrow> 'a word option" where
  "cpp_udiv l r = (if r = 0 then None else Some (l div r))"

definition cpp_umod :: "'a::len word \<Rightarrow> 'a word \<Rightarrow> 'a word option" where
  "cpp_umod l r = (if r = 0 then None else Some (l mod r))"

definition cpp_shift :: "(nat \<Rightarrow> 'a::len word \<Rightarrow> 'a word) \<Rightarrow> 'a word \<Rightarrow> 'a word \<Rightarrow> 'a word option" where
  "cpp_shift f l n = (if unat n < LENGTH('a) then Some (f (unat n) l) else None)"

definition ExecuteRemS :: "'a::len word \<Rightarrow> 'a word \<Rightarrow> 'a word option" where
  "ExecuteRemS lval rval = (if rval = - 1 then Some 0 else cpp_smod lval rval)"

definition ExecuteRemU :: "'a::len word \<Rightarrow> 'a word \<Rightarrow> 'a word option" where
  "ExecuteRemU lval rval = cpp_umod lval rval"

text \<open>
  The operators of \<^verbatim>\<open>FOREACH_ARITHMETIC_BINOP\<close>, \<^verbatim>\<open>FOREACH_TRAPPING_BINOP\<close> and the integer
  part of \<^verbatim>\<open>FOREACH_MORE_BINOP\<close>; \<open>signed_ctype\<close> tells which are instantiated at a signed type.
\<close>

datatype binop = Add | Sub | Mul | And | Ior | Xor | DivS | DivU | RemS | RemU | Shl | ShrU | ShrS | Rol | Ror

fun signed_ctype :: "binop \<Rightarrow> bool" where
  "signed_ctype DivS = True" | "signed_ctype RemS = True" | "signed_ctype ShrS = True" | "signed_ctype _ = False"

definition of_option :: "'a option \<Rightarrow> 'a step" where
  "of_option x = (case x of None \<Rightarrow> Undefined | Some v \<Rightarrow> Next v)"

definition div_binop :: "'a::len word \<Rightarrow> 'a word \<Rightarrow> 'a word step" where
  "div_binop lval rval =
     (if rval = 0 then Trap kWasmTrapDivByZero
      else if rval = - 1 \<and> lval = int_min then Trap kWasmTrapDivUnrepresentable
      else of_option (cpp_sdiv lval rval))"

definition udiv_binop :: "'a::len word \<Rightarrow> 'a word \<Rightarrow> 'a word step" where
  "udiv_binop lval rval = (if rval = 0 then Trap kWasmTrapDivByZero else of_option (cpp_udiv lval rval))"

definition rem_binop :: "('a::len word \<Rightarrow> 'a word \<Rightarrow> 'a word option) \<Rightarrow> 'a word \<Rightarrow> 'a word \<Rightarrow> 'a word step" where
  "rem_binop f lval rval = (if rval = 0 then Trap kWasmTrapRemByZero else of_option (f lval rval))"

text \<open>The shift count is masked by 31 or 63: one less than the width.\<close>

definition shift_binop :: "(nat \<Rightarrow> 'a::len word \<Rightarrow> 'a word) \<Rightarrow> 'a word \<Rightarrow> 'a word \<Rightarrow> 'a word step" where
  "shift_binop f lval rval = of_option (cpp_shift f lval (and rval (of_nat (LENGTH('a) - 1))))"

type_synonym 'a rotates = "('a word \<Rightarrow> nat \<Rightarrow> 'a word) \<times> ('a word \<Rightarrow> nat \<Rightarrow> 'a word)"

definition rotates32 :: "wasm_env \<Rightarrow> 32 rotates" where "rotates32 E = (RotateLeft32 E, RotateRight32 E)"
definition rotates64 :: "wasm_env \<Rightarrow> 64 rotates" where "rotates64 E = (RotateLeft64 E, RotateRight64 E)"

fun exec_binop :: "'a::len rotates \<Rightarrow> binop \<Rightarrow> 'a word \<Rightarrow> 'a word \<Rightarrow> 'a word step" where
  "exec_binop R Add l r = Next (l + r)"
| "exec_binop R Sub l r = Next (l - r)"
| "exec_binop R Mul l r = Next (l * r)"
| "exec_binop R And l r = Next (and l r)"
| "exec_binop R Ior l r = Next (or l r)"
| "exec_binop R Xor l r = Next (xor l r)"
| "exec_binop R DivS l r = div_binop l r"
| "exec_binop R DivU l r = udiv_binop l r"
| "exec_binop R RemS l r = rem_binop ExecuteRemS l r"
| "exec_binop R RemU l r = rem_binop ExecuteRemU l r"
| "exec_binop R Shl l r = shift_binop push_bit l r"
| "exec_binop R ShrU l r = shift_binop drop_bit l r"
| "exec_binop R ShrS l r = shift_binop signed_drop_bit l r"
| "exec_binop R Rol l r = Next (fst R l (unat (and r (of_nat (LENGTH('a) - 1)))))"
| "exec_binop R Ror l r = Next (snd R l (unat (and r (of_nat (LENGTH('a) - 1)))))"

text \<open>A value of the operator's type converted to the \<^verbatim>\<open>int64_t\<close> register.\<close>

definition to_reg :: "bool \<Rightarrow> 'a::len word \<Rightarrow> u64" where
  "to_reg sg v = (if sg then scast v else ucast v)"

definition bind_step :: "'a step \<Rightarrow> ('a \<Rightarrow> 'b step) \<Rightarrow> 'b step" where
  "bind_step r f = (case r of Next v \<Rightarrow> f v | Trap t \<Rightarrow> Trap t | Undefined \<Rightarrow> Undefined)"

lemma bind_step_simps [simp]:
  "bind_step (Next v) f = f v" "bind_step (Trap t) f = Trap t" "bind_step Undefined f = Undefined"
  by (simp_all add: bind_step_def)

subsection \<open>Binary operators\<close>

definition r2r_binop :: "wasm_env \<Rightarrow> 'a::len rotates \<Rightarrow> binop \<Rightarrow> interp \<Rightarrow> interp step" where
  "r2r_binop E R op s =
     (let rval = ucast (r0 s); (lval, s) = pop E s
      in bind_step (exec_binop R op lval rval) (\<lambda>v. Next (s\<lparr>r0 := to_reg (signed_ctype op) v\<rparr>)))"

definition r2s_binop :: "wasm_env \<Rightarrow> 'a::len rotates \<Rightarrow> binop \<Rightarrow> interp \<Rightarrow> interp step" where
  "r2s_binop E R op s =
     (let rval = ucast (r0 s); (lval, s) = pop E s
      in bind_step (exec_binop R op lval rval) (\<lambda>v. Next (push E v s)))"

definition s2r_binop :: "wasm_env \<Rightarrow> 'a::len rotates \<Rightarrow> binop \<Rightarrow> interp \<Rightarrow> interp step" where
  "s2r_binop E R op s =
     (let (rval, s) = pop E s; (lval, s) = pop E s
      in bind_step (exec_binop R op lval rval) (\<lambda>v. Next (s\<lparr>r0 := to_reg (signed_ctype op) v\<rparr>)))"

definition s2s_binop :: "wasm_env \<Rightarrow> 'a::len rotates \<Rightarrow> binop \<Rightarrow> interp \<Rightarrow> interp step" where
  "s2s_binop E R op s =
     (let (rval, s) = pop E s; (lval, s) = pop E s
      in bind_step (exec_binop R op lval rval) (\<lambda>v. Next (push E v s)))"

subsection \<open>Comparisons, sign extension, conversions\<close>

datatype relop = Eq | Ne | LtU | LeU | GtU | GeU | LtS | LeS | GtS | GeS

fun exec_relop :: "relop \<Rightarrow> 'a::len word \<Rightarrow> 'a word \<Rightarrow> bool" where
  "exec_relop Eq l r \<longleftrightarrow> l = r"
| "exec_relop Ne l r \<longleftrightarrow> l \<noteq> r"
| "exec_relop LtU l r \<longleftrightarrow> l < r"
| "exec_relop LeU l r \<longleftrightarrow> l \<le> r"
| "exec_relop GtU l r \<longleftrightarrow> l > r"
| "exec_relop GeU l r \<longleftrightarrow> l \<ge> r"
| "exec_relop LtS l r \<longleftrightarrow> word_sless l r"
| "exec_relop LeS l r \<longleftrightarrow> word_sle l r"
| "exec_relop GtS l r \<longleftrightarrow> word_sless r l"
| "exec_relop GeS l r \<longleftrightarrow> word_sle r l"

definition r2r_relop :: "'a::len itself \<Rightarrow> wasm_env \<Rightarrow> relop \<Rightarrow> interp \<Rightarrow> interp step" where
  "r2r_relop T E op s =
     (let rval = (ucast (r0 s) :: 'a word); (lval, s) = pop E s in Next (s\<lparr>r0 := (if exec_relop op lval rval then 1 else 0)\<rparr>))"

definition r2s_relop :: "'a::len itself \<Rightarrow> wasm_env \<Rightarrow> relop \<Rightarrow> interp \<Rightarrow> interp step" where
  "r2s_relop T E op s =
     (let rval = (ucast (r0 s) :: 'a word); (lval, s) = pop E s
      in Next (push E (if exec_relop op lval rval then 1 else 0 :: u32) s))"

definition s2r_relop :: "'a::len itself \<Rightarrow> wasm_env \<Rightarrow> relop \<Rightarrow> interp \<Rightarrow> interp step" where
  "s2r_relop T E op s =
     (let (rval, s) = pop E s; (lval, s) = pop E s
      in Next (s\<lparr>r0 := (if exec_relop op (lval :: 'a word) rval then 1 else 0)\<rparr>))"

definition s2s_relop :: "'a::len itself \<Rightarrow> wasm_env \<Rightarrow> relop \<Rightarrow> interp \<Rightarrow> interp step" where
  "s2s_relop T E op s =
     (let (rval, s) = pop E s; (lval, s) = pop E s
      in Next (push E (if exec_relop op (lval :: 'a word) rval then 1 else 0 :: u32) s))"

text \<open>
  \<^verbatim>\<open>FOREACH_BITS_UNOP\<close>: the counts of leading zeros, trailing zeros and set bits at the operand's
  width, and \<^verbatim>\<open>Eqz\<close>, whose result is an i32 at both widths.
\<close>

datatype bits_unop = Clz | Ctz | Popcnt

type_synonym 'a counts = "bits_unop \<Rightarrow> 'a word \<Rightarrow> u32"

definition r2r_BitsUnop :: "'a::len counts \<Rightarrow> bits_unop \<Rightarrow> interp \<Rightarrow> interp step" where
  "r2r_BitsUnop C op s = (let v = ucast (r0 s) in Next (s\<lparr>r0 := ucast (ucast (C op v) :: 'a word)\<rparr>))"

definition r2s_BitsUnop :: "'a::len counts \<Rightarrow> bits_unop \<Rightarrow> wasm_env \<Rightarrow> interp \<Rightarrow> interp step" where
  "r2s_BitsUnop C op E s = (let v = ucast (r0 s) in Next (push E (ucast (C op v) :: 'a word) s))"

definition s2r_BitsUnop :: "'a::len counts \<Rightarrow> bits_unop \<Rightarrow> wasm_env \<Rightarrow> interp \<Rightarrow> interp step" where
  "s2r_BitsUnop C op E s = (let (v, s) = pop E s in Next (s\<lparr>r0 := ucast (C op v)\<rparr>))"

definition s2s_BitsUnop :: "'a::len counts \<Rightarrow> bits_unop \<Rightarrow> wasm_env \<Rightarrow> interp \<Rightarrow> interp step" where
  "s2s_BitsUnop C op E s = (let (v, s) = pop E s in Next (push E (ucast (C op v) :: 'a word) s))"

definition r2r_Eqz :: "'a::len itself \<Rightarrow> interp \<Rightarrow> interp step" where
  "r2r_Eqz T s = Next (s\<lparr>r0 := (if (ucast (r0 s) :: 'a word) = 0 then 1 else 0)\<rparr>)"

definition r2s_Eqz :: "'a::len itself \<Rightarrow> wasm_env \<Rightarrow> interp \<Rightarrow> interp step" where
  "r2s_Eqz T E s = Next (push E (if (ucast (r0 s) :: 'a word) = 0 then 1 else 0 :: u32) s)"

definition s2r_Eqz :: "'a::len itself \<Rightarrow> wasm_env \<Rightarrow> interp \<Rightarrow> interp step" where
  "s2r_Eqz T E s = (let (v, s) = pop E s in Next (s\<lparr>r0 := (if (v :: 'a word) = 0 then 1 else 0)\<rparr>))"

definition s2s_Eqz :: "'a::len itself \<Rightarrow> wasm_env \<Rightarrow> interp \<Rightarrow> interp step" where
  "s2s_Eqz T E s = (let (v, s) = pop E s in Next (push E (if (v :: 'a word) = 0 then 1 else 0 :: u32) s))"

text \<open>Sign extension of the low \<open>'b\<close> bits of an \<open>'a\<close>.\<close>

definition sign_extend :: "'b::len itself \<Rightarrow> 'a::len word \<Rightarrow> 'a word" where
  "sign_extend T v = scast (ucast v :: 'b word)"

definition r2r_SExtend :: "'b::len itself \<Rightarrow> 'a::len itself \<Rightarrow> interp \<Rightarrow> interp step" where
  "r2r_SExtend T U s = Next (s\<lparr>r0 := scast (sign_extend T (ucast (r0 s) :: 'a word))\<rparr>)"

definition r2s_SExtend :: "'b::len itself \<Rightarrow> 'a::len itself \<Rightarrow> wasm_env \<Rightarrow> interp \<Rightarrow> interp step" where
  "r2s_SExtend T U E s = Next (push E (sign_extend T (ucast (r0 s) :: 'a word)) s)"

definition s2r_SExtend :: "'b::len itself \<Rightarrow> 'a::len itself \<Rightarrow> wasm_env \<Rightarrow> interp \<Rightarrow> interp step" where
  "s2r_SExtend T U E s = (let (v, s) = pop E s in Next (s\<lparr>r0 := scast (sign_extend T (v :: 'a word))\<rparr>))"

definition s2s_SExtend :: "'b::len itself \<Rightarrow> 'a::len itself \<Rightarrow> wasm_env \<Rightarrow> interp \<Rightarrow> interp step" where
  "s2s_SExtend T U E s = (let (v, s) = pop E s in Next (push E (sign_extend T (v :: 'a word)) s))"

definition r2r_I32ConvertI64 :: "interp \<Rightarrow> interp step" where
  "r2r_I32ConvertI64 s = Next (s\<lparr>r0 := and (r0 s) 0xffffffff\<rparr>)"

definition r2s_I32ConvertI64 :: "wasm_env \<Rightarrow> interp \<Rightarrow> interp step" where
  "r2s_I32ConvertI64 E s = Next (push E (ucast (and (r0 s) 0xffffffff) :: u32) s)"

definition s2r_I32ConvertI64 :: "wasm_env \<Rightarrow> interp \<Rightarrow> interp step" where
  "s2r_I32ConvertI64 E s = (let (v, s) = pop E s in Next (s\<lparr>r0 := and 0xffffffff (v :: u64)\<rparr>))"

definition s2s_I32ConvertI64 :: "wasm_env \<Rightarrow> interp \<Rightarrow> interp step" where
  "s2s_I32ConvertI64 E s = (let (v, s) = pop E s in Next (push E (ucast (and 0xffffffff (v :: u64)) :: u32) s))"

text \<open>\<^verbatim>\<open>I64SConvertI32\<close> and \<^verbatim>\<open>I64UConvertI32\<close>.\<close>

definition r2r_I64ConvertI32 :: "bool \<Rightarrow> interp \<Rightarrow> interp step" where
  "r2r_I64ConvertI32 sg s = Next (s\<lparr>r0 := to_reg sg (ucast (r0 s) :: u32)\<rparr>)"

definition s2r_I64ConvertI32 :: "bool \<Rightarrow> wasm_env \<Rightarrow> interp \<Rightarrow> interp step" where
  "s2r_I64ConvertI32 sg E s = (let (v, s) = pop E s in Next (s\<lparr>r0 := to_reg sg (v :: u32)\<rparr>))"

definition r2s_I64ConvertI32 :: "bool \<Rightarrow> wasm_env \<Rightarrow> interp \<Rightarrow> interp step" where
  "r2s_I64ConvertI32 sg E s = Next (push E (to_reg sg (ucast (r0 s) :: u32)) s)"

definition s2s_I64ConvertI32 :: "bool \<Rightarrow> wasm_env \<Rightarrow> interp \<Rightarrow> interp step" where
  "s2s_I64ConvertI32 sg E s = (let (v, s) = pop E s in Next (push E (to_reg sg (v :: u32)) s))"

subsection \<open>Globals, select, control\<close>

definition s2r_GlobalGetI :: "'a::len itself \<Rightarrow> interp \<Rightarrow> interp step" where
  "s2r_GlobalGetI T s = (let (index, s) = Read 4 s in Next (s\<lparr>r0 := scast (ucast (globals s index) :: 'a word)\<rparr>))"

definition s2s_GlobalGet :: "'a::len itself \<Rightarrow> wasm_env \<Rightarrow> interp \<Rightarrow> interp step" where
  "s2s_GlobalGet T E s = (let (index, s) = Read 4 s in Next (push E (ucast (globals s index) :: 'a word) s))"

text \<open>Writing an \<open>'a\<close> to the cell of a global replaces its low bytes.\<close>

definition write_cell :: "'a::len word \<Rightarrow> u64 \<Rightarrow> u64" where
  "write_cell v c = or (and c (not (mask LENGTH('a)))) (ucast v)"

definition r2s_GlobalSetI :: "'a::len itself \<Rightarrow> interp \<Rightarrow> interp step" where
  "r2s_GlobalSetI T s =
     (let (index, s) = Read 4 s in Next (s\<lparr>globals := (globals s)(index := write_cell (ucast (r0 s) :: 'a word) (globals s index))\<rparr>))"

definition s2s_GlobalSet :: "'a::len itself \<Rightarrow> wasm_env \<Rightarrow> interp \<Rightarrow> interp step" where
  "s2s_GlobalSet T E s =
     (let (index, s) = Read 4 s; (v, s) = pop E s
      in Next (s\<lparr>globals := (globals s)(index := write_cell (v :: 'a word) (globals s index))\<rparr>))"

text \<open>\<^verbatim>\<open>Drop\<close> of a register or slot value.\<close>

definition r2s_Drop :: "interp \<Rightarrow> interp step" where
  "r2s_Drop s = Next s"

definition s2s_Drop :: "'a::len itself \<Rightarrow> wasm_env \<Rightarrow> interp \<Rightarrow> interp step" where
  "s2s_Drop T E s = (let (v, s) = pop E s; _ = (v :: 'a word) in Next s)"

definition r2r_SelectI :: "'a::len itself \<Rightarrow> wasm_env \<Rightarrow> interp \<Rightarrow> interp step" where
  "r2r_SelectI T E s =
     (let (val2, s) = pop E s; (val1, s) = pop E s
      in Next (s\<lparr>r0 := scast (if r0 s \<noteq> 0 then val1 else val2 :: 'a word)\<rparr>))"

definition r2s_Select :: "'a::len itself \<Rightarrow> wasm_env \<Rightarrow> interp \<Rightarrow> interp step" where
  "r2s_Select T E s =
     (let (val2, s) = pop E s; (val1, s) = pop E s in Next (push E (if r0 s \<noteq> 0 then val1 else val2 :: 'a word) s))"

definition s2r_SelectI :: "'a::len itself \<Rightarrow> wasm_env \<Rightarrow> interp \<Rightarrow> interp step" where
  "s2r_SelectI T E s =
     (let (cond, s) = pop E s; (val2, s) = pop E s; (val1, s) = pop E s
      in Next (s\<lparr>r0 := scast (if (cond :: u32) \<noteq> 0 then val1 else val2 :: 'a word)\<rparr>))"

definition s2s_Select :: "'a::len itself \<Rightarrow> wasm_env \<Rightarrow> interp \<Rightarrow> interp step" where
  "s2s_Select T E s =
     (let (cond, s) = pop E s; (val2, s) = pop E s; (val1, s) = pop E s
      in Next (push E (if (cond :: u32) \<noteq> 0 then val1 else val2 :: 'a word) s))"

definition s2s_Unreachable :: "interp \<Rightarrow> interp step" where
  "s2s_Unreachable s = Trap kWasmTrapUnreachable"

definition jump :: "wasm_env \<Rightarrow> nat \<Rightarrow> interp \<Rightarrow> interp" where
  "jump E off s = s\<lparr>code := nat (int (code s) + (sint (of_nat off :: u32) - int (kCodeOffsetSize E)))\<rparr>"

definition s2s_Branch :: "wasm_env \<Rightarrow> interp \<Rightarrow> interp step" where
  "s2s_Branch E s = (let (target_offset, s) = Read 4 s in Next (jump E target_offset s))"

definition r2s_BranchIf :: "wasm_env \<Rightarrow> interp \<Rightarrow> interp step" where
  "r2s_BranchIf E s =
     (let cond = r0 s; (if_true_offset, s) = Read 4 s in Next (if cond \<noteq> 0 then jump E if_true_offset s else s))"

definition s2s_BranchIf :: "wasm_env \<Rightarrow> interp \<Rightarrow> interp step" where
  "s2s_BranchIf E s =
     (let (cond, s) = pop E s; (if_true_offset, s) = Read 4 s
      in Next (if (cond :: u32) \<noteq> 0 then jump E if_true_offset s else s))"

definition r2s_BranchIfWithParams :: "wasm_env \<Rightarrow> interp \<Rightarrow> interp step" where
  "r2s_BranchIfWithParams E s =
     (let cond = r0 s; (if_false_offset, s) = Read 4 s in Next (if cond = 0 then jump E if_false_offset s else s))"

definition s2s_BranchIfWithParams :: "wasm_env \<Rightarrow> interp \<Rightarrow> interp step" where
  "s2s_BranchIfWithParams E s =
     (let (cond, s) = pop E s; (if_false_offset, s) = Read 4 s
      in Next (if (cond :: u32) = 0 then jump E if_false_offset s else s))"

definition r2s_If :: "wasm_env \<Rightarrow> interp \<Rightarrow> interp step" where
  "r2s_If E s = (let cond = r0 s; (target_offset, s) = Read 4 s in Next (if cond = 0 then jump E target_offset s else s))"

definition s2s_If :: "wasm_env \<Rightarrow> interp \<Rightarrow> interp step" where
  "s2s_If E s =
     (let (cond, s) = pop E s; (target_offset, s) = Read 4 s
      in Next (if (cond :: u32) = 0 then jump E target_offset s else s))"

text \<open>\<^verbatim>\<open>s2s_Else\<close> and \<^verbatim>\<open>s2s_Catch\<close> have the same body.\<close>

definition s2s_Else :: "wasm_env \<Rightarrow> interp \<Rightarrow> interp step" where
  "s2s_Else E s = (let (target_offset, s) = Read 4 s in Next (jump E target_offset s))"

subsection \<open>The reference semantics of the operators\<close>

text \<open>
  The integer operators as the WebAssembly specification defines them, on the signed and unsigned
  readings of the operands, with the trap of a partial operator on the left.
\<close>

fun wasm_binop :: "binop \<Rightarrow> 'a::len word \<Rightarrow> 'a word \<Rightarrow> trap_reason + 'a word" where
  "wasm_binop Add l r = Inr (word_of_int (uint l + uint r))"
| "wasm_binop Sub l r = Inr (word_of_int (uint l - uint r))"
| "wasm_binop Mul l r = Inr (word_of_int (uint l * uint r))"
| "wasm_binop And l r = Inr (word_of_int (and (uint l) (uint r)))"
| "wasm_binop Ior l r = Inr (word_of_int (or (uint l) (uint r)))"
| "wasm_binop Xor l r = Inr (word_of_int (xor (uint l) (uint r)))"
| "wasm_binop DivS l r =
     (if sint r = 0 then Inl kWasmTrapDivByZero
      else if signed_divide (sint l) (sint r) = 2 ^ (LENGTH('a) - 1) then Inl kWasmTrapDivUnrepresentable
      else Inr (word_of_int (signed_divide (sint l) (sint r))))"
| "wasm_binop DivU l r = (if uint r = 0 then Inl kWasmTrapDivByZero else Inr (word_of_int (uint l div uint r)))"
| "wasm_binop RemS l r =
     (if sint r = 0 then Inl kWasmTrapRemByZero
      else Inr (word_of_int (sint l - sint r * signed_divide (sint l) (sint r))))"
| "wasm_binop RemU l r = (if uint r = 0 then Inl kWasmTrapRemByZero else Inr (word_of_int (uint l mod uint r)))"
| "wasm_binop Shl l r = Inr (word_of_int (uint l * 2 ^ (unat r mod LENGTH('a))))"
| "wasm_binop ShrU l r = Inr (word_of_int (uint l div 2 ^ (unat r mod LENGTH('a))))"
| "wasm_binop ShrS l r = Inr (word_of_int (sint l div 2 ^ (unat r mod LENGTH('a))))"
| "wasm_binop Rol l r = Inr (word_rotl (unat r mod LENGTH('a)) l)"
| "wasm_binop Ror l r = Inr (word_rotr (unat r mod LENGTH('a)) l)"

definition rotates_ok :: "'a::len rotates \<Rightarrow> bool" where
  "rotates_ok R \<longleftrightarrow> (\<forall>v n. n < LENGTH('a) \<longrightarrow> fst R v n = word_rotl n v \<and> snd R v n = word_rotr n v)"

definition of_wasm :: "trap_reason + 'a \<Rightarrow> 'a step" where
  "of_wasm r = (case r of Inl t \<Rightarrow> Trap t | Inr v \<Rightarrow> Next v)"

text \<open>Only \<open>INT_MIN / -1\<close> has a quotient that is not representable.\<close>

lemma int_min_sint: "sint (int_min :: 'a::len word) = - (2 ^ (LENGTH('a) - 1))"
proof -
  have "bit (sint (int_min :: 'a word)) n \<longleftrightarrow> bit (- (2 ^ (LENGTH('a) - 1)) :: int) n" for n
    by (auto simp: int_min_def bit_simps min_def bit_minus_exp_iff possible_bit_def
          mask_eq_exp_minus_1 [symmetric] bit_mask_iff)
  then show ?thesis by (simp add: bit_eq_iff)
qed

lemma sint_eq_int_min: "sint (l :: 'a::len word) = - (2 ^ (LENGTH('a) - 1)) \<longleftrightarrow> l = int_min"
  using int_min_sint [where 'a = 'a] by (metis signed_word_eqI)

lemma sdiv_overflow:
  fixes a b :: int
  assumes "- M \<le> a" "a < M" "1 < M"
  shows "signed_divide a b = M \<longleftrightarrow> a = - M \<and> b = - 1"
proof
  assume *: "signed_divide a b = M"
  then have nz: "a \<noteq> 0" "b \<noteq> 0" using assms by (auto simp: signed_divide_int_def)
  then have q: "\<bar>a\<bar> div \<bar>b\<bar> = M" 
  proof -
    have "\<bar>signed_divide a b\<bar> = \<bar>a\<bar> div \<bar>b\<bar>"
      using nz by (simp add: signed_divide_int_def abs_mult pos_imp_zdiv_nonneg_iff)
    with * assms show ?thesis by simp
  qed
  have "\<bar>b\<bar> = 1"
  proof (rule ccontr)
    assume "\<bar>b\<bar> \<noteq> 1"
    with nz have "2 \<le> \<bar>b\<bar>" by linarith
    then have "\<bar>a\<bar> div \<bar>b\<bar> \<le> \<bar>a\<bar> div 2" by (intro zdiv_mono2) auto
    with q assms show False by linarith
  qed
  with q assms have "a = - M" by auto
  with * assms \<open>\<bar>b\<bar> = 1\<close> show "a = - M \<and> b = - 1"
    by (auto simp: signed_divide_int_def abs_if split: if_splits)
next
  assume "a = - M \<and> b = - 1"
  with assms show "signed_divide a b = M" by (simp add: signed_divide_int_def)
qed

lemma shift_count:
  fixes r :: "'a::len word"
  assumes "LENGTH('a) = 2 ^ e"
  shows "unat (and r (of_nat (LENGTH('a) - 1))) = unat r mod LENGTH('a)"
proof -
  have "of_nat (LENGTH('a) - 1) = (mask e :: 'a word)"
    using assms by (simp add: mask_eq_exp_minus_1 of_nat_diff)
  then have "and r (of_nat (LENGTH('a) - 1)) = take_bit e r"
    by (simp only: take_bit_eq_mask)
  then have "unat (and r (of_nat (LENGTH('a) - 1))) = take_bit e (unat r)"
    by (simp only: unsigned_take_bit_eq)
  then show ?thesis using assms by (simp only: take_bit_eq_mod)
qed


lemma word_of_int_ops:
  fixes l r :: "'a::len word"
  shows "word_of_int (and (uint l) (uint r)) = and l r"
    "word_of_int (or (uint l) (uint r)) = or l r"
    "word_of_int (xor (uint l) (uint r)) = xor l r"
    "word_of_int (uint l div uint r) = l div r"
    "word_of_int (uint l mod uint r) = l mod r"
    "word_of_int (uint l * 2 ^ n) = push_bit n l"
    "word_of_int (uint l div 2 ^ n) = drop_bit n l"
    "word_of_int (sint l div 2 ^ n) = signed_drop_bit n l"
proof -
  show "word_of_int (uint l * 2 ^ n) = push_bit n l" by (simp add: push_bit_eq_mult)
  show "word_of_int (uint l div 2 ^ n) = drop_bit n l" by (rule bit_word_eqI) (simp add: bit_simps flip: drop_bit_eq_div)
  show "word_of_int (sint l div 2 ^ n) = signed_drop_bit n l" by (simp flip: drop_bit_eq_div sint_signed_drop_bit_eq)
  show "word_of_int (uint l div uint r) = l div r" by (simp add: word_div_def)
  show "word_of_int (uint l mod uint r) = l mod r" by (simp add: word_mod_def)
qed (simp_all flip: unsigned_and_eq unsigned_or_eq unsigned_xor_eq)

lemma quotient_overflow:
  fixes l r :: "'a::len word"
  assumes "2 \<le> LENGTH('a)"
  shows "signed_divide (sint l) (sint r) = 2 ^ (LENGTH('a) - 1) \<longleftrightarrow> l = int_min \<and> r = - 1"
proof -
  have "(1::int) < 2 ^ (LENGTH('a) - 1)" using assms by (simp add: one_less_power)
  with sdiv_overflow [OF sint_ge sint_lt this] show ?thesis
    by (metis sint_eq_int_min sint_n1 signed_word_eqI)
qed

lemma signed_rem_exact:
  fixes l r :: "'a::len word"
  assumes "r \<noteq> 0"
  shows "ExecuteRemS l r = Some (word_of_int (sint l - sint r * signed_divide (sint l) (sint r)))"
  using assms by (simp add: ExecuteRemS_def cpp_smod_def minus_mult_sdiv_eq_smod signed_modulo_int_def [of _ 1])

lemma shift_exact:
  fixes r :: "'a::len word"
  assumes "LENGTH('a) = 2 ^ e"
  shows "shift_binop f l r = Next (f (unat r mod LENGTH('a)) l)"
  using shift_count [OF assms, of r] by (simp add: shift_binop_def cpp_shift_def of_option_def)

lemma exec_binop_exact:
  fixes l r :: "'a::len word"
  assumes len: "LENGTH('a) = 2 ^ e" "0 < e" and R: "rotates_ok R"
  shows "exec_binop R op l r = of_wasm (wasm_binop op l r)"
proof -
  have two: "2 \<le> LENGTH('a)" using len self_le_power [of 2 e] by (cases e) simp_all
  note defs = of_wasm_def of_option_def word_of_int_ops
  show ?thesis
  proof (cases op)
    case DivS
    then show ?thesis
      by (simp add: div_binop_def cpp_sdiv_def quotient_overflow [OF two] int_min_sint defs del: One_nat_def)
        (auto simp: signed_eq_0_iff)
  next
    case RemS
    then show ?thesis by (simp add: rem_binop_def signed_rem_exact signed_eq_0_iff defs)
  next
    case Rol
    then show ?thesis using R shift_count [OF len(1), of r] by (simp add: rotates_ok_def defs)
  next
    case Ror
    then show ?thesis using R shift_count [OF len(1), of r] by (simp add: rotates_ok_def defs)
  qed (simp_all add: shift_exact [OF len(1)] defs udiv_binop_def rem_binop_def cpp_udiv_def ExecuteRemU_def cpp_umod_def
      unsigned_eq_0_iff push_bit_eq_mult)
qed


lemma unat_bound: "unat (w :: 'a::len word) < 2 ^ LENGTH('a)"
  by simp

subsection \<open>The operand slots of an instruction\<close>

text \<open>The \<open>k\<close>-th slot offset after the instruction's handler, and the value found there.\<close>

definition slot_at :: "wasm_env \<Rightarrow> interp \<Rightarrow> nat \<Rightarrow> nat" where
  "slot_at E s k = le_nat (map (bytecode s) [code s + k * slot_size E..<code s + k * slot_size E + slot_size E])"

definition operand :: "wasm_env \<Rightarrow> interp \<Rightarrow> nat \<Rightarrow> 'a::len word" where
  "operand E s k = slot_value (slot_at E s k) (slots s)"

text \<open>The state after an instruction with \<open>k\<close> operands that leaves its result in the register, or in a slot.\<close>

definition to_register :: "wasm_env \<Rightarrow> interp \<Rightarrow> nat \<Rightarrow> u64 \<Rightarrow> interp" where
  "to_register E s k v = s\<lparr>code := code s + k * slot_size E, r0 := v\<rparr>"

definition to_slot :: "wasm_env \<Rightarrow> interp \<Rightarrow> nat \<Rightarrow> 'a::len word \<Rightarrow> interp" where
  "to_slot E s k v =
     s\<lparr>code := code s + (k + 1) * slot_size E, slots := slot_write (slot_at E s k) v (slots s)\<rparr>"

lemma pop_operand:
  "pop E s = (operand E s 0, s\<lparr>code := code s + slot_size E\<rparr>)"
  by (simp add: pop_def Read_def operand_def slot_at_def)

lemma operand_code:
  "slot_at E (s\<lparr>code := code s + slot_size E\<rparr>) k = slot_at E s (Suc k)"
  "operand E (s\<lparr>code := code s + slot_size E\<rparr>) k = operand E s (Suc k)"
  "slot_at E (s\<lparr>code := code s + slot_size E + slot_size E\<rparr>) k = slot_at E s (Suc (Suc k))"
  "operand E (s\<lparr>code := code s + slot_size E + slot_size E\<rparr>) k = operand E s (Suc (Suc k))"
  by (simp_all add: operand_def slot_at_def ac_simps)

lemma push_slot: "push E v s = to_slot E s 0 v"
  by (simp add: push_def Read_def to_slot_def slot_at_def)

lemmas handler_simps = pop_operand operand_code push_slot to_slot_def to_register_def

text \<open>
  C21: Every integer binary operator, in each of its four variants and at both widths, computes what
  the WebAssembly specification defines on the two operands it is given (the left operand from a
  slot, the right one from the register or a slot), reports the trap of the specification where the
  operator is partial, puts the result where the variant says and changes nothing else. In
  particular no variant ever executes an undefined C++ operation.\<close>

theorem binop_handlers_exact:
  fixes R :: "'a::len rotates"
  assumes "LENGTH('a) = 32 \<or> LENGTH('a) = 64" and "rotates_ok R"
  shows "r2r_binop E R op s = bind_step (of_wasm (wasm_binop op (operand E s 0) (ucast (r0 s) :: 'a word)))
           (\<lambda>v. Next (to_register E s 1 (to_reg (signed_ctype op) v))) \<and>
         r2s_binop E R op s = bind_step (of_wasm (wasm_binop op (operand E s 0) (ucast (r0 s) :: 'a word)))
           (\<lambda>v. Next (to_slot E s 1 v)) \<and>
         s2r_binop E R op s = bind_step (of_wasm (wasm_binop op (operand E s 1) (operand E s 0 :: 'a word)))
           (\<lambda>v. Next (to_register E s 2 (to_reg (signed_ctype op) v))) \<and>
         s2s_binop E R op s = bind_step (of_wasm (wasm_binop op (operand E s 1) (operand E s 0 :: 'a word)))
           (\<lambda>v. Next (to_slot E s 2 v)) \<and>
         r2r_binop E R op s \<noteq> Undefined \<and> s2s_binop E R op s \<noteq> Undefined"
proof -
  have "exec_binop R op l r = of_wasm (wasm_binop op l r)" for l r
    using assms(1)
  proof
    assume "LENGTH('a) = 32"
    then show ?thesis using exec_binop_exact [of 5 R op l r] assms(2) by simp
  next
    assume "LENGTH('a) = 64"
    then show ?thesis using exec_binop_exact [of 6 R op l r] assms(2) by simp
  qed
  then show ?thesis
    by (simp add: r2r_binop_def r2s_binop_def s2r_binop_def s2s_binop_def handler_simps of_wasm_def algebra_simps numeral_2_eq_2
        split: sum.splits)
qed

text \<open>
  At work: \<open>INT_MIN / -1\<close> traps in the register variant, and a division by a slot operand leaves its
  quotient in the register.\<close>

definition plain_env :: wasm_env where
  "plain_env = \<lparr>slot_size = 4, mem32_size = 4, mem64_size = 8, kCodeOffsetSize = 4,
     IsInBounds = (\<lambda>i n m. unat i + unat n \<le> unat m),
     RotateLeft32 = (\<lambda>v n. word_rotl n v), RotateRight32 = (\<lambda>v n. word_rotr n v),
     RotateLeft64 = (\<lambda>v n. word_rotl n v), RotateRight64 = (\<lambda>v n. word_rotr n v)\<rparr>"

definition div_state :: interp where
  "div_state = \<lparr>bytecode = (\<lambda>i. if i = 4 then 1 else 0), code = 0,
     slots = (\<lambda>i. if i = 0 then 0x80000000 else if i = 1 then 3 else 0), r0 = 0xffffffff, memory = (\<lambda>_. []), globals = (\<lambda>_. 0)\<rparr>"

lemma plain_rotates: "rotates_ok (rotates32 plain_env)"
  by (simp add: rotates_ok_def rotates32_def plain_env_def)

lemma div_operands: "operand plain_env div_state 0 = (0x80000000 :: u32)" "operand plain_env div_state 1 = (3 :: u32)"
  by (simp_all add: operand_def slot_at_def slot_value_def plain_env_def div_state_def upt_rec)

theorem binop_handlers_exact_witness:
  "r2r_binop plain_env (rotates32 plain_env) DivS div_state = Trap kWasmTrapDivUnrepresentable \<and>
   s2r_binop plain_env (rotates32 plain_env) RemU div_state = Next (to_register plain_env div_state 2 3)"
proof -
  have q: "wasm_binop DivS (0x80000000 :: u32) (- 1) = Inl kWasmTrapDivUnrepresentable"
    and m: "wasm_binop RemU (3 :: u32) 0x80000000 = Inr 3"
    by simp_all
  have r: "ucast (r0 div_state) = (- 1 :: u32)" by (simp add: div_state_def word_eq_iff_unsigned)
  have "r2r_binop plain_env (rotates32 plain_env) DivS div_state = Trap kWasmTrapDivUnrepresentable"
    using binop_handlers_exact [OF _ plain_rotates, of plain_env DivS div_state]
    by (simp only: div_operands r q) (simp add: of_wasm_def)
  moreover have "s2r_binop plain_env (rotates32 plain_env) RemU div_state = Next (to_register plain_env div_state 2 3)"
    using binop_handlers_exact [OF _ plain_rotates, of plain_env RemU div_state]
    by (simp only: div_operands m) (simp add: of_wasm_def to_reg_def)
  ultimately show ?thesis ..
qed

end
