(* ===== verification/Wasm_Memory.thy ===== *)
theory Wasm_Memory
  imports Wasm_Handlers
begin

unbundle bit_operations_syntax

text \<open>
  The memory handlers of \<^verbatim>\<open>v8/src/wasm/interpreter/wasm-interpreter.cc\<close>: loads, stores, and the fused
  forms (load to a local, store of a local, memory to memory), for 32-bit and 64-bit memories and
  for several memories. A memory is its list of bytes; the bounds check of each handler is
  translated with the width of its sum.

  The theorems: every load and store traps exactly when offset + index + size exceeds the memory,
  over the natural numbers, and otherwise reads or writes exactly these bytes; the fused forms equal the
  composition of the plain ones, except that the fused load-store from the register takes the index
  from the whole register.
\<close>

subsection \<open>Accesses\<close>

datatype mem_type = Mem32 | Mem64

definition read_offset :: "wasm_env \<Rightarrow> mem_type \<Rightarrow> interp \<Rightarrow> u64 \<times> interp" where
  "read_offset E mt s =
     (let (v, s) = Read (case mt of Mem32 \<Rightarrow> mem32_size E | Mem64 \<Rightarrow> mem64_size E) s in (of_nat v, s))"

definition ReadMemoryIndex :: "bool \<Rightarrow> interp \<Rightarrow> nat \<times> interp" where
  "ReadMemoryIndex multi s = (if multi then Read 4 s else (0, s))"

text \<open>\<^verbatim>\<open>static_cast<MemIdx>(r0)\<close> and \<^verbatim>\<open>pop<MemIdx>\<close>, both as the 64-bit value.\<close>

definition reg_index :: "mem_type \<Rightarrow> interp \<Rightarrow> u64" where
  "reg_index mt s = (case mt of Mem32 \<Rightarrow> ucast (ucast (r0 s) :: u32) | Mem64 \<Rightarrow> r0 s)"

definition pop_index :: "wasm_env \<Rightarrow> mem_type \<Rightarrow> interp \<Rightarrow> u64 \<times> interp" where
  "pop_index E mt s =
     (case mt of Mem32 \<Rightarrow> (let (i, s) = pop E s in (ucast (i :: u32), s)) | Mem64 \<Rightarrow> pop E s)"

text \<open>
  \<^verbatim>\<open>offset + index\<close>: with a 64-bit operand the sum is 64-bit; where both operands are 32-bit (the
  variants that declare \<^verbatim>\<open>MemIdx index\<close> and \<^verbatim>\<open>MemOffsetT offset\<close>) it wraps at 32 bits.
\<close>

definition wide_sum :: "u64 \<Rightarrow> u64 \<Rightarrow> u64" where
  "wide_sum offset index = offset + index"

definition narrow_sum :: "wasm_env \<Rightarrow> mem_type \<Rightarrow> u64 \<Rightarrow> u64 \<Rightarrow> u64" where
  "narrow_sum E mt offset index =
     (if mt = Mem32 \<and> mem32_size E \<le> 4 then ucast (ucast offset + ucast index :: u32) else offset + index)"

definition out_of_bounds :: "wasm_env \<Rightarrow> u64 \<Rightarrow> u64 \<Rightarrow> nat \<Rightarrow> u8 list \<Rightarrow> bool" where
  "out_of_bounds E effective index n m \<longleftrightarrow> effective < index \<or> \<not> IsInBounds E effective (of_nat n) (of_nat (length m))"

definition mem_read :: "u8 list \<Rightarrow> u64 \<Rightarrow> 'b::len word" where
  "mem_read m a = of_nat (le_nat (take (LENGTH('b) div 8) (drop (unat a) m)))"

definition mem_write :: "u8 list \<Rightarrow> u64 \<Rightarrow> 'b::len word \<Rightarrow> u8 list" where
  "mem_write m a v = take (unat a) m @ le_bytes (LENGTH('b) div 8) (unat v) @ drop (unat a + LENGTH('b) div 8) m"

text \<open>A value of memory type \<open>'b\<close>, signed or not, as the value type \<open>'a\<close>.\<close>

definition convert :: "bool \<Rightarrow> 'b::len word \<Rightarrow> 'a::len word" where
  "convert sg v = (if sg then scast v else ucast v)"

definition r2r_LoadMemI ::
  "'a::len itself \<Rightarrow> 'b::len itself \<Rightarrow> bool \<Rightarrow> wasm_env \<Rightarrow> mem_type \<Rightarrow> bool \<Rightarrow> interp \<Rightarrow> interp step" where
  "r2r_LoadMemI T U sg E mt multi s =
     (let (offset, s) = read_offset E mt s; (mi, s) = ReadMemoryIndex multi s;
          index = reg_index mt s; effective = wide_sum offset index; m = memory s mi
      in if out_of_bounds E effective index (LENGTH('b) div 8) m then Trap kWasmTrapMemOutOfBounds
         else Next (s\<lparr>r0 := scast (convert sg (mem_read m effective :: 'b word) :: 'a word)\<rparr>))"

definition r2s_LoadMem ::
  "'a::len itself \<Rightarrow> 'b::len itself \<Rightarrow> bool \<Rightarrow> wasm_env \<Rightarrow> mem_type \<Rightarrow> bool \<Rightarrow> interp \<Rightarrow> interp step" where
  "r2s_LoadMem T U sg E mt multi s =
     (let (offset, s) = read_offset E mt s; (mi, s) = ReadMemoryIndex multi s;
          index = reg_index mt s; effective = narrow_sum E mt offset index; m = memory s mi
      in if out_of_bounds E effective index (LENGTH('b) div 8) m then Trap kWasmTrapMemOutOfBounds
         else Next (push E (convert sg (mem_read m effective :: 'b word) :: 'a word) s))"

definition s2r_LoadMemI ::
  "'a::len itself \<Rightarrow> 'b::len itself \<Rightarrow> bool \<Rightarrow> wasm_env \<Rightarrow> mem_type \<Rightarrow> bool \<Rightarrow> interp \<Rightarrow> interp step" where
  "s2r_LoadMemI T U sg E mt multi s =
     (let (offset, s) = read_offset E mt s; (mi, s) = ReadMemoryIndex multi s;
          (index, s) = pop_index E mt s; effective = wide_sum offset index; m = memory s mi
      in if out_of_bounds E effective index (LENGTH('b) div 8) m then Trap kWasmTrapMemOutOfBounds
         else Next (s\<lparr>r0 := scast (convert sg (mem_read m effective :: 'b word) :: 'a word)\<rparr>))"

definition s2s_LoadMem ::
  "'a::len itself \<Rightarrow> 'b::len itself \<Rightarrow> bool \<Rightarrow> wasm_env \<Rightarrow> mem_type \<Rightarrow> bool \<Rightarrow> interp \<Rightarrow> interp step" where
  "s2s_LoadMem T U sg E mt multi s =
     (let (offset, s) = read_offset E mt s; (mi, s) = ReadMemoryIndex multi s;
          (index, s) = pop_index E mt s; effective = wide_sum offset index; m = memory s mi
      in if out_of_bounds E effective index (LENGTH('b) div 8) m then Trap kWasmTrapMemOutOfBounds
         else Next (push E (convert sg (mem_read m effective :: 'b word) :: 'a word) s))"

text \<open>Stores write the low \<open>'b\<close> bytes of the value.\<close>

definition r2s_StoreMemI ::
  "'a::len itself \<Rightarrow> 'b::len itself \<Rightarrow> wasm_env \<Rightarrow> mem_type \<Rightarrow> bool \<Rightarrow> interp \<Rightarrow> interp step" where
  "r2s_StoreMemI T U E mt multi s =
     (let value = (ucast (r0 s) :: 'a word);
          (offset, s) = read_offset E mt s; (mi, s) = ReadMemoryIndex multi s;
          (index, s) = pop_index E mt s; effective = wide_sum offset index; m = memory s mi
      in if out_of_bounds E effective index (LENGTH('b) div 8) m then Trap kWasmTrapMemOutOfBounds
         else Next (s\<lparr>memory := (memory s)(mi := mem_write m effective (ucast value :: 'b word))\<rparr>))"

definition s2s_StoreMem ::
  "'a::len itself \<Rightarrow> 'b::len itself \<Rightarrow> wasm_env \<Rightarrow> mem_type \<Rightarrow> bool \<Rightarrow> interp \<Rightarrow> interp step" where
  "s2s_StoreMem T U E mt multi s =
     (let (value, s) = pop E s;
          (offset, s) = read_offset E mt s; (mi, s) = ReadMemoryIndex multi s;
          (index, s) = pop_index E mt s; effective = wide_sum offset index; m = memory s mi
      in if out_of_bounds E effective index (LENGTH('b) div 8) m then Trap kWasmTrapMemOutOfBounds
         else Next (s\<lparr>memory := (memory s)(mi := mem_write m effective (ucast (value :: 'a word) :: 'b word))\<rparr>))"

text \<open>The fused load and store; the register variant takes \<^verbatim>\<open>r0\<close> as it is.\<close>

definition load_store ::
  "'b::len itself \<Rightarrow> wasm_env \<Rightarrow> u64 \<Rightarrow> u64 \<Rightarrow> u64 \<Rightarrow> u64 \<Rightarrow> interp \<Rightarrow> interp step" where
  "load_store U E load_offset load_index store_offset store_index s =
     (let el = wide_sum load_offset load_index; es = wide_sum store_offset store_index; m = memory s 0
      in if out_of_bounds E el load_index (LENGTH('b) div 8) m \<or> out_of_bounds E es store_offset (LENGTH('b) div 8) m
         then Trap kWasmTrapMemOutOfBounds
         else Next (s\<lparr>memory := (memory s)(0 := mem_write m es (mem_read m el :: 'b word))\<rparr>))"

definition r2s_LoadStoreMem :: "'b::len itself \<Rightarrow> wasm_env \<Rightarrow> mem_type \<Rightarrow> interp \<Rightarrow> interp step" where
  "r2s_LoadStoreMem U E mt s =
     (let (load_offset, s) = read_offset E mt s; load_index = r0 s;
          (store_offset, s) = read_offset E mt s; (store_index, s) = pop_index E mt s
      in load_store U E load_offset load_index store_offset store_index s)"

definition s2s_LoadStoreMem :: "'b::len itself \<Rightarrow> wasm_env \<Rightarrow> mem_type \<Rightarrow> interp \<Rightarrow> interp step" where
  "s2s_LoadStoreMem U E mt s =
     (let (load_offset, s) = read_offset E mt s; (load_index, s) = pop_index E mt s;
          (store_offset, s) = read_offset E mt s; (store_index, s) = pop_index E mt s
      in load_store U E load_offset load_index store_offset store_index s)"

text \<open>The fused forms with a local: the slot offset of the local follows or precedes the access.\<close>

definition r2s_LoadMem_LocalSet ::
  "'a::len itself \<Rightarrow> 'b::len itself \<Rightarrow> bool \<Rightarrow> wasm_env \<Rightarrow> interp \<Rightarrow> interp step" where
  "r2s_LoadMem_LocalSet T U sg E s =
     (let (offset, s) = read_offset E Mem32 s; index = reg_index Mem32 s; effective = wide_sum offset index; m = memory s 0
      in if out_of_bounds E effective index (LENGTH('b) div 8) m then Trap kWasmTrapMemOutOfBounds
         else (let (to, s) = Read (slot_size E) s
               in Next (s\<lparr>slots := slot_write to (convert sg (mem_read m effective :: 'b word) :: 'a word) (slots s)\<rparr>)))"

definition s2s_LoadMem_LocalSet ::
  "'a::len itself \<Rightarrow> 'b::len itself \<Rightarrow> bool \<Rightarrow> wasm_env \<Rightarrow> mem_type \<Rightarrow> interp \<Rightarrow> interp step" where
  "s2s_LoadMem_LocalSet T U sg E mt s =
     (let (offset, s) = read_offset E mt s; (index, s) = pop_index E mt s; effective = wide_sum offset index; m = memory s 0
      in if out_of_bounds E effective index (LENGTH('b) div 8) m then Trap kWasmTrapMemOutOfBounds
         else (let (to, s) = Read (slot_size E) s
               in Next (s\<lparr>slots := slot_write to (convert sg (mem_read m effective :: 'b word) :: 'a word) (slots s)\<rparr>)))"

definition s2s_LocalGet_StoreMem ::
  "'a::len itself \<Rightarrow> 'b::len itself \<Rightarrow> wasm_env \<Rightarrow> interp \<Rightarrow> interp step" where
  "s2s_LocalGet_StoreMem T U E s =
     (let (from, s) = Read (slot_size E) s; value = (slot_value from (slots s) :: 'a word);
          (offset, s) = read_offset E Mem32 s; (index, s) = pop_index E Mem32 s;
          effective = wide_sum offset index; m = memory s 0
      in if out_of_bounds E effective index (LENGTH('b) div 8) m then Trap kWasmTrapMemOutOfBounds
         else Next (s\<lparr>memory := (memory s)(0 := mem_write m effective (ucast value :: 'b word))\<rparr>))"


subsection \<open>What an access means\<close>

text \<open>
  The hypotheses on the parameters: the bounds predicate is the one its documentation states, and
  offsets have at most eight bytes.
\<close>

definition wasm_env_ok :: "wasm_env \<Rightarrow> bool" where
  "wasm_env_ok E \<longleftrightarrow> (\<forall>i n m. IsInBounds E i n m \<longleftrightarrow> unat i + unat n \<le> unat m) \<and> mem32_size E \<le> 8 \<and> mem64_size E \<le> 8"

text \<open>A 32-bit memory has at most \<open>2\<^sup>3\<^sup>2\<close> bytes, any memory fits the address space.\<close>

definition memory_ok :: "mem_type \<Rightarrow> u8 list \<Rightarrow> bool" where
  "memory_ok mt m \<longleftrightarrow> length m < 2 ^ 64 \<and> (mt = Mem32 \<longrightarrow> length m \<le> 2 ^ 32)"

text \<open>The immediate operands: offset and memory index, and the state after them.\<close>

definition offset_size :: "wasm_env \<Rightarrow> mem_type \<Rightarrow> nat" where
  "offset_size E mt = (case mt of Mem32 \<Rightarrow> mem32_size E | Mem64 \<Rightarrow> mem64_size E)"

definition mem_offset :: "wasm_env \<Rightarrow> mem_type \<Rightarrow> interp \<Rightarrow> nat" where
  "mem_offset E mt s = le_nat (map (bytecode s) [code s..<code s + offset_size E mt])"

definition mem_number :: "wasm_env \<Rightarrow> mem_type \<Rightarrow> bool \<Rightarrow> interp \<Rightarrow> nat" where
  "mem_number E mt multi s =
     (if multi then le_nat (map (bytecode s) [code s + offset_size E mt..<code s + offset_size E mt + 4]) else 0)"

definition after_immediates :: "wasm_env \<Rightarrow> mem_type \<Rightarrow> bool \<Rightarrow> interp \<Rightarrow> interp" where
  "after_immediates E mt multi s = s\<lparr>code := code s + offset_size E mt + (if multi then 4 else 0)\<rparr>"

definition index_operand :: "wasm_env \<Rightarrow> mem_type \<Rightarrow> interp \<Rightarrow> nat" where
  "index_operand E mt s = (case mt of Mem32 \<Rightarrow> unat (operand E s 0 :: u32) | Mem64 \<Rightarrow> unat (operand E s 0 :: u64))"

text \<open>The specification of an access to \<open>n\<close> bytes.\<close>

definition wasm_load :: "u8 list \<Rightarrow> nat \<Rightarrow> nat \<Rightarrow> nat \<Rightarrow> u8 list option" where
  "wasm_load m off idx n = (if off + idx + n \<le> length m then Some (take n (drop (off + idx) m)) else None)"

definition wasm_store :: "u8 list \<Rightarrow> nat \<Rightarrow> nat \<Rightarrow> u8 list \<Rightarrow> u8 list option" where
  "wasm_store m off idx bs =
     (if off + idx + length bs \<le> length m then Some (take (off + idx) m @ bs @ drop (off + idx + length bs) m) else None)"

lemma le_nat_bound: "le_nat bs < 256 ^ length bs"
proof (induction bs)
  case (Cons b bs)
  have "unat b < 256" using unat_bound [of b] by simp
  with Cons show ?case by simp
qed simp

lemma length_le_bytes [simp]: "length (le_bytes n v) = n"
  by (induction n arbitrary: v) auto

lemma le_nat_le_bytes: "le_nat (le_bytes n v) = v mod 256 ^ n"
proof (induction n arbitrary: v)
  case (Suc n)
  have "unat (of_nat v :: u8) = v mod 256" by (simp add: unat_of_nat)
  then show ?case by (simp add: Suc mod_mult2_eq)
qed simp

lemma mem_offset_bound:
  assumes "wasm_env_ok E"
  shows "mem_offset E mt s < 2 ^ 64"
    and "mem32_size E \<le> 4 \<Longrightarrow> mem_offset E Mem32 s < 2 ^ 32"
proof -
  have le: "mem_offset E mt s < 256 ^ offset_size E mt" for mt
    unfolding mem_offset_def using le_nat_bound [of "map (bytecode s) [code s..<code s + offset_size E mt]"] by simp
  have "offset_size E mt \<le> 8" using assms by (simp add: wasm_env_ok_def offset_size_def split: mem_type.splits)
  then have "(256::nat) ^ offset_size E mt \<le> 256 ^ 8" by (intro power_increasing) auto
  then show "mem_offset E mt s < 2 ^ 64" using le [of mt] by simp
  assume "mem32_size E \<le> 4"
  then have "(256::nat) ^ offset_size E Mem32 \<le> 256 ^ 4" by (intro power_increasing) (auto simp: offset_size_def)
  then show "mem_offset E Mem32 s < 2 ^ 32" using le [of Mem32] by simp
qed

text \<open>The overflow test and the bounds test together are the natural-number condition.\<close>

lemma in_bounds_wide:
  assumes "wasm_env_ok E" "length m < 2 ^ 64" "n < 2 ^ 64"
  shows "out_of_bounds E (o1 + i) i n m \<longleftrightarrow> length m < unat o1 + unat i + n"
    and "\<not> out_of_bounds E (o1 + i) i n m \<Longrightarrow> unat (o1 + i) = unat o1 + unat i"
proof -
  have ib: "IsInBounds E (o1 + i) (of_nat n) (of_nat (length m)) \<longleftrightarrow> unat (o1 + i) + n \<le> length m"
    using assms by (simp add: wasm_env_ok_def unat_of_nat)
  have "out_of_bounds E (o1 + i) i n m \<longleftrightarrow> length m < unat o1 + unat i + n \<and> True" and
    "\<not> out_of_bounds E (o1 + i) i n m \<longrightarrow> unat (o1 + i) = unat o1 + unat i"
  proof -
    show "\<not> out_of_bounds E (o1 + i) i n m \<longrightarrow> unat (o1 + i) = unat o1 + unat i"
      using unat_bound [of i] unat_bound [of o1]
      by (auto simp: out_of_bounds_def ib word_less_nat_alt unat_word_ariths mod_if split: if_splits)
    show "out_of_bounds E (o1 + i) i n m \<longleftrightarrow> length m < unat o1 + unat i + n \<and> True"
      using unat_bound [of i] unat_bound [of o1] assms(2)
      by (auto simp: out_of_bounds_def ib word_less_nat_alt unat_word_ariths mod_if split: if_splits)
  qed
  then show "out_of_bounds E (o1 + i) i n m \<longleftrightarrow> length m < unat o1 + unat i + n"
    and "\<not> out_of_bounds E (o1 + i) i n m \<Longrightarrow> unat (o1 + i) = unat o1 + unat i" by blast+
qed

lemma in_bounds_narrow:
  assumes "wasm_env_ok E" "length m \<le> 2 ^ 32" "0 < n" "n < 2 ^ 64"
    and "unat o1 < 2 ^ 32" "unat (i :: u64) < 2 ^ 32"
  defines "e \<equiv> ucast (ucast o1 + ucast i :: u32)"
  shows "out_of_bounds E e i n m \<longleftrightarrow> length m < unat o1 + unat i + n"
    and "\<not> out_of_bounds E e i n m \<Longrightarrow> unat e = unat o1 + unat i"
proof -
  have e: "unat e = (unat o1 + unat i) mod 2 ^ 32"
    unfolding e_def using assms(5,6) by (simp add: unat_word_ariths unsigned_ucast_eq take_bit_nat_eq_self mod_add_eq)
  have ib: "IsInBounds E e (of_nat n) (of_nat (length m)) \<longleftrightarrow> unat e + n \<le> length m"
    using assms(1,2,4) by (simp add: wasm_env_ok_def unat_of_nat)
  show "out_of_bounds E e i n m \<longleftrightarrow> length m < unat o1 + unat i + n"
    and "\<not> out_of_bounds E e i n m \<Longrightarrow> unat e = unat o1 + unat i"
    using assms(2,3,5,6)
    by (auto simp: out_of_bounds_def ib word_less_nat_alt e mod_if split: if_splits)
qed

definition access_width :: "nat \<Rightarrow> bool" where
  "access_width w \<longleftrightarrow> w = 8 \<or> w = 16 \<or> w = 32 \<or> w = 64"

lemma wide_load:
  fixes i :: u64
  assumes "wasm_env_ok E" "length m < 2 ^ 64" "off < 2 ^ 64" "access_width LENGTH('b)"
  defines "e \<equiv> wide_sum (of_nat off) i" and "n \<equiv> LENGTH('b) div 8"
  obtains (trap) "wasm_load m off (unat i) n = None" "out_of_bounds E e i n m"
    | (ok) bs where "wasm_load m off (unat i) n = Some bs" "\<not> out_of_bounds E e i n m"
        "(mem_read m e :: 'b::len word) = of_nat (le_nat bs)"
proof -
  have n: "LENGTH('b) div 8 < 2 ^ 64" and o: "unat (of_nat off :: u64) = off"
    using assms(3,4) by (auto simp: access_width_def unat_of_nat)
  have "out_of_bounds E e i n m \<longleftrightarrow> wasm_load m off (unat i) n = None"
    and "\<not> out_of_bounds E e i n m \<Longrightarrow> unat e = off + unat i"
    using in_bounds_wide [OF assms(1,2) n, of "of_nat off" i, unfolded o]
    by (auto simp: e_def n_def wide_sum_def wasm_load_def)
  then show thesis using trap ok by (cases "out_of_bounds E e i n m") (auto simp: mem_read_def wasm_load_def n_def split: if_splits)
qed

lemma wide_store:
  fixes i :: u64 and v :: "'b::len word"
  assumes "wasm_env_ok E" "length m < 2 ^ 64" "off < 2 ^ 64" "access_width LENGTH('b)"
  defines "e \<equiv> wide_sum (of_nat off) i" and "n \<equiv> LENGTH('b) div 8"
  obtains (trap) "wasm_store m off (unat i) (le_bytes n (unat v)) = None" "out_of_bounds E e i n m"
    | (ok) m' where "wasm_store m off (unat i) (le_bytes n (unat v)) = Some m'" "\<not> out_of_bounds E e i n m"
        "mem_write m e (v :: 'b::len word) = m'"
proof -
  have n: "LENGTH('b) div 8 < 2 ^ 64" and o: "unat (of_nat off :: u64) = off"
    using assms(3,4) by (auto simp: access_width_def unat_of_nat)
  have "out_of_bounds E e i n m \<longleftrightarrow> wasm_store m off (unat i) (le_bytes n (unat v)) = None"
    and "\<not> out_of_bounds E e i n m \<Longrightarrow> unat e = off + unat i"
    using in_bounds_wide [OF assms(1,2) n, of "of_nat off" i, unfolded o]
    by (auto simp: e_def n_def wide_sum_def wasm_store_def)
  then show thesis using trap ok
    by (cases "out_of_bounds E e i n m") (auto simp: mem_write_def wasm_store_def n_def split: if_splits)
qed

lemma reg_index_bound: "unat (reg_index Mem32 s) < 2 ^ 32"
proof -
  have "unat (ucast (v :: u32) :: u64) < 2 ^ 32" for v
    using unat_bound [of v] by (simp add: unsigned_ucast_eq take_bit_nat_eq_self)
  then show ?thesis by (simp only: reg_index_def mem_type.case)
qed

lemma narrow_load:
  fixes s s' :: interp
  assumes E: "wasm_env_ok E" and m: "memory_ok mt m" and w: "access_width LENGTH('b)"
  defines "e \<equiv> narrow_sum E mt (of_nat (mem_offset E mt s)) (reg_index mt s')" and "n \<equiv> LENGTH('b) div 8"
  obtains (trap) "wasm_load m (mem_offset E mt s) (unat (reg_index mt s')) n = None" "out_of_bounds E e (reg_index mt s') n m"
    | (ok) bs where "wasm_load m (mem_offset E mt s) (unat (reg_index mt s')) n = Some bs"
        "\<not> out_of_bounds E e (reg_index mt s') n m" "(mem_read m e :: 'b::len word) = of_nat (le_nat bs)"
proof (cases "mt = Mem32 \<and> mem32_size E \<le> 4")
  case True
  have o: "unat (of_nat (mem_offset E Mem32 s) :: u64) = mem_offset E Mem32 s"
    using mem_offset_bound(1) [OF E] by (simp add: unat_of_nat)
  have n: "0 < LENGTH('b) div 8" "LENGTH('b) div 8 < 2 ^ 64" and len: "length m \<le> 2 ^ 32"
    using w m True by (auto simp: access_width_def memory_ok_def)
  have lt: "unat (of_nat (mem_offset E Mem32 s) :: u64) < 2 ^ 32"
    using mem_offset_bound(2) [OF E] True o by simp
  have "out_of_bounds E e (reg_index mt s') n m \<longleftrightarrow> wasm_load m (mem_offset E mt s) (unat (reg_index mt s')) n = None"
    and "\<not> out_of_bounds E e (reg_index mt s') n m \<Longrightarrow> unat e = mem_offset E mt s + unat (reg_index mt s')"
    using in_bounds_narrow [OF E len n lt reg_index_bound [of s'], unfolded o] True
    by (auto simp: e_def n_def narrow_sum_def wasm_load_def)
  then show thesis using trap ok
    by (cases "out_of_bounds E e (reg_index mt s') n m") (auto simp: mem_read_def wasm_load_def n_def split: if_splits)
next
  case False
  then have "narrow_sum E mt = wide_sum" by (intro ext) (auto simp: narrow_sum_def wide_sum_def)
  moreover have "length m < 2 ^ 64" using m by (simp add: memory_ok_def)
  ultimately show thesis
    using wide_load [OF E _ mem_offset_bound(1) [OF E] w, of m mt s "reg_index mt s'"] trap ok
    unfolding e_def n_def by metis
qed

lemma access_immediates:
  "read_offset E mt s = (of_nat (mem_offset E mt s), s\<lparr>code := code s + offset_size E mt\<rparr>)"
  "ReadMemoryIndex multi (s\<lparr>code := code s + offset_size E mt\<rparr>) = (mem_number E mt multi s, after_immediates E mt multi s)"
  "reg_index mt (after_immediates E mt multi s) = reg_index mt s"
  "memory (after_immediates E mt multi s) = memory s"
  by (simp_all add: read_offset_def Read_def mem_offset_def offset_size_def ReadMemoryIndex_def mem_number_def
      after_immediates_def reg_index_def split: mem_type.splits)

lemma pop_index_operand:
  "pop_index E mt s = (of_nat (index_operand E mt s), s\<lparr>code := code s + slot_size E\<rparr>)"
  "unat (of_nat (index_operand E mt s) :: u64) = index_operand E mt s"
  using unat_bound [of "operand E s 0 :: u32"] unat_bound [of "operand E s 0 :: u64"]
  by (auto simp: pop_index_def pop_operand index_operand_def unat_of_nat word_eq_iff_unsigned unsigned_ucast_eq take_bit_nat_eq_self
      split: mem_type.splits)

lemma load_handlers:
  fixes T :: "'a::len itself" and U :: "'b::len itself" and sg :: bool
  assumes E: "wasm_env_ok E" and w: "access_width LENGTH('b)" and m: "memory_ok mt (memory s (mem_number E mt multi s))"
  defines "load \<equiv> \<lambda>i k. case wasm_load (memory s (mem_number E mt multi s)) (mem_offset E mt s) i (LENGTH('b) div 8) of
       None \<Rightarrow> Trap kWasmTrapMemOutOfBounds | Some bs \<Rightarrow> Next (k (convert sg (of_nat (le_nat bs) :: 'b word) :: 'a word))"
    and "a \<equiv> after_immediates E mt multi s"
  shows "r2r_LoadMemI T U sg E mt multi s = load (unat (reg_index mt s)) (\<lambda>v. to_register E a 0 (scast v))"
    and "r2s_LoadMem T U sg E mt multi s = load (unat (reg_index mt s)) (to_slot E a 0)"
    and "s2r_LoadMemI T U sg E mt multi s = load (index_operand E mt a) (\<lambda>v. to_register E a 1 (scast v))"
    and "s2s_LoadMem T U sg E mt multi s = load (index_operand E mt a) (to_slot E a 1)"
proof -
  have len: "length (memory s (mem_number E mt multi s)) < 2 ^ 64" using m by (simp add: memory_ok_def)
  note imm = access_immediates pop_index_operand handler_simps Let_def load_def a_def
  note wide = wide_load [OF E len mem_offset_bound(1) [OF E] w]
  note idx = wide [of mt s "of_nat (index_operand E mt a)", unfolded pop_index_operand(2)]
  show "r2r_LoadMemI T U sg E mt multi s = load (unat (reg_index mt s)) (\<lambda>v. to_register E a 0 (scast v))"
    by (cases rule: wide [of mt s "reg_index mt s"]) (simp_all add: r2r_LoadMemI_def imm)
  show "r2s_LoadMem T U sg E mt multi s = load (unat (reg_index mt s)) (to_slot E a 0)"
    by (cases rule: narrow_load [OF E m w, of s s]) (simp_all add: r2s_LoadMem_def imm)
  show "s2r_LoadMemI T U sg E mt multi s = load (index_operand E mt a) (\<lambda>v. to_register E a 1 (scast v))"
    by (cases rule: idx) (simp_all add: s2r_LoadMemI_def imm)
  show "s2s_LoadMem T U sg E mt multi s = load (index_operand E mt a) (to_slot E a 1)"
    by (cases rule: idx) (simp_all add: s2s_LoadMem_def imm)
qed

text \<open>
  C22: A load, in each of its four variants, for 32-bit and 64-bit memories and for any memory of the
  module, traps exactly when the static offset plus the dynamic index plus the width of the access
  exceeds the memory, with no wrap-around; otherwise it delivers the little-endian value of exactly
  these bytes, extended as the instruction says, to the register or the slot, and changes nothing else.
  The variant whose sum is only 32 bits wide agrees with the others.\<close>

theorem load_handlers_exact:
  fixes T :: "'a::len itself" and U :: "'b::len itself"
  assumes "wasm_env_ok E" "access_width LENGTH('b)" "memory_ok mt (memory s (mem_number E mt multi s))"
  shows "let m = memory s (mem_number E mt multi s); off = mem_offset E mt s; a = after_immediates E mt multi s;
             load = (\<lambda>i. \<lambda>k. case wasm_load m off i (LENGTH('b) div 8) of None \<Rightarrow> Trap kWasmTrapMemOutOfBounds
                       | Some bs \<Rightarrow> Next (k (convert sg (of_nat (le_nat bs) :: 'b word) :: 'a word)))
         in r2r_LoadMemI T U sg E mt multi s = load (unat (reg_index mt s)) (\<lambda>v. to_register E a 0 (scast v)) \<and>
            r2s_LoadMem T U sg E mt multi s = load (unat (reg_index mt s)) (to_slot E a 0) \<and>
            s2r_LoadMemI T U sg E mt multi s = load (index_operand E mt a) (\<lambda>v. to_register E a 1 (scast v)) \<and>
            s2s_LoadMem T U sg E mt multi s = load (index_operand E mt a) (to_slot E a 1)"
  unfolding Let_def by (intro conjI load_handlers assms)

text \<open>A store of the bytes \<open>bs\<close> at \<open>a\<close>: the only memory with the same length, these bytes there and no other change.\<close>

definition stores_exactly :: "u8 list \<Rightarrow> nat \<Rightarrow> u8 list \<Rightarrow> u8 list \<Rightarrow> bool" where
  "stores_exactly m a bs m' \<longleftrightarrow>
     length m' = length m \<and> take (length bs) (drop a m') = bs \<and>
     (\<forall>j < length m. j < a \<or> a + length bs \<le> j \<longrightarrow> m' ! j = m ! j)"

lemma wasm_store_exact:
  assumes "wasm_store m off idx bs = Some m'"
  shows "stores_exactly m (off + idx) bs m'"
  using assms by (auto simp: wasm_store_def stores_exactly_def nth_append split: if_splits)

definition store_outcome ::
  "interp step \<Rightarrow> u8 list \<Rightarrow> nat \<Rightarrow> u8 list \<Rightarrow> (u8 list \<Rightarrow> interp) \<Rightarrow> bool" where
  "store_outcome h m a bs after \<longleftrightarrow>
     (if a + length bs \<le> length m then (\<exists>m'. stores_exactly m a bs m' \<and> h = Next (after m'))
      else h = Trap kWasmTrapMemOutOfBounds)"

lemma store_outcomeI:
  assumes "h = (case wasm_store m off idx bs of None \<Rightarrow> Trap kWasmTrapMemOutOfBounds | Some m' \<Rightarrow> Next (after m'))"
  shows "store_outcome h m (off + idx) bs after"
  using assms wasm_store_exact [of m off idx bs]
  by (auto simp: store_outcome_def split: option.splits) (auto simp: wasm_store_def split: if_splits)

definition after_store :: "wasm_env \<Rightarrow> interp \<Rightarrow> nat \<Rightarrow> u8 list \<Rightarrow> interp" where
  "after_store E a mi m' = a\<lparr>code := code a + slot_size E, memory := (memory a)(mi := m')\<rparr>"

lemma store_handlers:
  fixes T :: "'a::len itself" and U :: "'b::len itself"
  assumes E: "wasm_env_ok E" and w: "access_width LENGTH('b)" and len: "\<And>i. length (memory s i) < 2 ^ 64"
  defines "n \<equiv> LENGTH('b) div 8" and "s1 \<equiv> s\<lparr>code := code s + slot_size E\<rparr>"
  shows "r2s_StoreMemI T U E mt multi s =
     (case wasm_store (memory s (mem_number E mt multi s)) (mem_offset E mt s) (index_operand E mt (after_immediates E mt multi s))
             (le_bytes n (unat (ucast (ucast (r0 s) :: 'a word) :: 'b word))) of
        None \<Rightarrow> Trap kWasmTrapMemOutOfBounds
      | Some m' \<Rightarrow> Next (after_store E (after_immediates E mt multi s) (mem_number E mt multi s) m'))"
    and "s2s_StoreMem T U E mt multi s =
     (case wasm_store (memory s (mem_number E mt multi s1)) (mem_offset E mt s1) (index_operand E mt (after_immediates E mt multi s1))
             (le_bytes n (unat (ucast (operand E s 0 :: 'a word) :: 'b word))) of
        None \<Rightarrow> Trap kWasmTrapMemOutOfBounds
      | Some m' \<Rightarrow> Next (after_store E (after_immediates E mt multi s1) (mem_number E mt multi s1) m'))"
proof -
  have s1: "memory s1 = memory s" by (simp add: s1_def)
  note imm = access_immediates pop_index_operand after_store_def Let_def
  note wide = wide_store [OF E len mem_offset_bound(1) [OF E] w]
  show "r2s_StoreMemI T U E mt multi s =
     (case wasm_store (memory s (mem_number E mt multi s)) (mem_offset E mt s) (index_operand E mt (after_immediates E mt multi s))
             (le_bytes n (unat (ucast (ucast (r0 s) :: 'a word) :: 'b word))) of
        None \<Rightarrow> Trap kWasmTrapMemOutOfBounds
      | Some m' \<Rightarrow> Next (after_store E (after_immediates E mt multi s) (mem_number E mt multi s) m'))"
    unfolding n_def
    by (cases rule: wide [of "mem_number E mt multi s" mt s
            "of_nat (index_operand E mt (after_immediates E mt multi s))" "ucast (ucast (r0 s) :: 'a word)", unfolded pop_index_operand(2)])
      (simp_all add: r2s_StoreMemI_def imm)
  show "s2s_StoreMem T U E mt multi s =
     (case wasm_store (memory s (mem_number E mt multi s1)) (mem_offset E mt s1) (index_operand E mt (after_immediates E mt multi s1))
             (le_bytes n (unat (ucast (operand E s 0 :: 'a word) :: 'b word))) of
        None \<Rightarrow> Trap kWasmTrapMemOutOfBounds
      | Some m' \<Rightarrow> Next (after_store E (after_immediates E mt multi s1) (mem_number E mt multi s1) m'))"
    unfolding n_def
    by (cases rule: wide [of "mem_number E mt multi s1" mt s1
            "of_nat (index_operand E mt (after_immediates E mt multi s1))" "ucast (operand E s 0 :: 'a word)", unfolded pop_index_operand(2)])
      (simp_all add: s2s_StoreMem_def pop_operand s1_def [symmetric] imm s1)
qed

text \<open>
  C23: A store traps exactly when offset, index and width exceed the memory, and writes nothing then;
  otherwise the bytes at the effective address are the low bytes of the value in little-endian order,
  every other byte and every other memory is as before, and the memory keeps its size.\<close>

theorem store_handlers_exact:
  fixes T :: "'a::len itself" and U :: "'b::len itself"
  assumes "wasm_env_ok E" "access_width LENGTH('b)" "\<And>i. length (memory s i) < 2 ^ 64"
  shows "let mi = mem_number E mt multi s; a = after_immediates E mt multi s; n = LENGTH('b) div 8;
             s1 = s\<lparr>code := code s + slot_size E\<rparr>; mi1 = mem_number E mt multi s1; a1 = after_immediates E mt multi s1
         in store_outcome (r2s_StoreMemI T U E mt multi s) (memory s mi) (mem_offset E mt s + index_operand E mt a)
              (le_bytes n (unat (ucast (ucast (r0 s) :: 'a word) :: 'b word))) (after_store E a mi) \<and>
            store_outcome (s2s_StoreMem T U E mt multi s) (memory s mi1) (mem_offset E mt s1 + index_operand E mt a1)
              (le_bytes n (unat (ucast (operand E s 0 :: 'a word) :: 'b word))) (after_store E a1 mi1)"
  unfolding Let_def by (intro conjI store_outcomeI store_handlers assms)

subsection \<open>The fused forms\<close>

lemma load_store_exact:
  fixes U :: "'b::len itself" and li si :: u64
  assumes E: "wasm_env_ok E" and w: "access_width LENGTH('b)" and len: "length (memory s 0) < 2 ^ 64"
    and off: "lo < 2 ^ 64" "so < 2 ^ 64"
  defines "n \<equiv> LENGTH('b) div 8" and "m \<equiv> memory s 0"
  shows "load_store U E (of_nat lo) li (of_nat so) si s =
     (case wasm_load m lo (unat li) n of None \<Rightarrow> Trap kWasmTrapMemOutOfBounds
      | Some bs \<Rightarrow> (case wasm_store m so (unat si) (le_bytes n (unat (of_nat (le_nat bs) :: 'b word))) of
           None \<Rightarrow> Trap kWasmTrapMemOutOfBounds
         | Some m' \<Rightarrow> Next (s\<lparr>memory := (memory s)(0 := m')\<rparr>)))"
proof -
  have n: "n < 2 ^ 64" using w by (auto simp: access_width_def n_def)
  have "out_of_bounds E (wide_sum (of_nat so) si) (of_nat so) n m = out_of_bounds E (wide_sum (of_nat so) si) si n m"
    using in_bounds_wide(1) [OF E len n, of "of_nat so" si] in_bounds_wide(1) [OF E len n, of si "of_nat so"]
    by (simp add: wide_sum_def m_def ac_simps)
  then show ?thesis
    unfolding load_store_def Let_def m_def n_def
    by (cases rule: wide_load [OF E len off(1) w, of li];
        cases rule: wide_store [OF E len off(2) w, of si "mem_read (memory s 0) (wide_sum (of_nat lo) li)"])
      simp_all
qed

text \<open>The composition of two handlers, with the register as it was before.\<close>

definition keeping_register :: "(interp \<Rightarrow> interp step) \<Rightarrow> (interp \<Rightarrow> interp step) \<Rightarrow> interp \<Rightarrow> interp step" where
  "keeping_register f g s = bind_step (bind_step (f s) g) (\<lambda>s'. Next (s'\<lparr>r0 := r0 s\<rparr>))"

lemma register_value:
  assumes "access_width LENGTH('b)"
  shows "ucast (scast (v :: 'b::len word) :: u64) = v" and "convert sg v = v"
proof -
  have len: "LENGTH('b) \<le> 64" using assms by (auto simp: access_width_def)
  show "ucast (scast v :: u64) = v"
    using len by (intro bit_word_eqI) (auto simp: bit_simps)
  show "convert sg v = v"
    by (intro bit_word_eqI) (auto simp: convert_def bit_simps)
qed

lemma register_frame [simp]:
  "mem_offset E mt (s\<lparr>r0 := r\<rparr>) = mem_offset E mt s"
  "mem_number E mt multi (s\<lparr>r0 := r\<rparr>) = mem_number E mt multi s"
  "index_operand E mt (s\<lparr>r0 := r\<rparr>) = index_operand E mt s"
  "after_immediates E mt multi (s\<lparr>r0 := r\<rparr>) = (after_immediates E mt multi s)\<lparr>r0 := r\<rparr>"
  by (simp_all add: mem_offset_def mem_number_def index_operand_def operand_def slot_at_def after_immediates_def
      split: mem_type.splits)

lemma single_memory [simp]:
  "mem_number E mt False s = 0"
  "after_immediates E mt False s = s\<lparr>code := code s + offset_size E mt\<rparr>"
  by (simp_all add: mem_number_def after_immediates_def)

lemma narrow_register:
  assumes "unat (w :: u64) < 2 ^ 32"
  shows "ucast (ucast w :: u32) = w"
proof -
  have "unat (take_bit 32 w) = unat w" using assms by (simp only: unsigned_take_bit_eq) (simp add: take_bit_nat_eq_self)
  then have "take_bit 32 w = w" by (simp only: word_eq_iff_unsigned [where 'a = nat])
  moreover have "ucast (ucast w :: u32) = take_bit 32 w" by (rule bit_word_eqI) (auto simp: bit_simps)
  ultimately show ?thesis by (rule trans [rotated])
qed

lemma fused_load_store:
  fixes U :: "'b::len itself"
  assumes E: "wasm_env_ok E" and w: "access_width LENGTH('b)" and m: "\<And>i. memory_ok mt (memory s i)"
  shows "s2s_LoadStoreMem U E mt s = keeping_register (s2r_LoadMemI U U True E mt False) (r2s_StoreMemI U U E mt False) s"
    and "mt = Mem64 \<or> unat (r0 s) < 2 ^ 32 \<Longrightarrow>
      r2s_LoadStoreMem U E mt s = keeping_register (r2r_LoadMemI U U True E mt False) (r2s_StoreMemI U U E mt False) s"
proof -
  have len: "length (memory s i) < 2 ^ 64" for i using m by (simp add: memory_ok_def)
  note offs = mem_offset_bound(1) [OF E]
  let ?b = "s\<lparr>code := code s + offset_size E mt + slot_size E\<rparr>" and ?c = "s\<lparr>code := code s + offset_size E mt\<rparr>"
  note rest = store_handlers(1) [OF E w] to_register_def after_store_def pop_index_operand
    register_value [OF w]
  show "s2s_LoadStoreMem U E mt s = keeping_register (s2r_LoadMemI U U True E mt False) (r2s_StoreMemI U U E mt False) s"
    using m len
    by (simp add: s2s_LoadStoreMem_def access_immediates pop_index_operand load_store_exact [OF E w _ offs offs]
        keeping_register_def load_handlers(3) [OF E w] rest split: option.splits)
  assume r: "mt = Mem64 \<or> unat (r0 s) < 2 ^ 32"
  then have "reg_index mt s = r0 s"
    by (auto simp: reg_index_def narrow_register split: mem_type.splits)
  then show "r2s_LoadStoreMem U E mt s = keeping_register (r2r_LoadMemI U U True E mt False) (r2s_StoreMemI U U E mt False) s"
    using m len
    by (simp add: r2s_LoadStoreMem_def access_immediates pop_index_operand load_store_exact [OF E w _ offs offs]
        keeping_register_def load_handlers(1) [OF E w] rest split: option.splits)
qed

lemma fused_local:
  fixes T :: "'a::len itself" and U :: "'b::len itself" and sg :: bool
  assumes E: "wasm_env_ok E" and w: "access_width LENGTH('b)" and m: "memory_ok mt (memory s 0)"
  shows "s2s_LoadMem_LocalSet T U sg E mt s = s2s_LoadMem T U sg E mt False s"
    and "mt = Mem32 \<Longrightarrow> r2s_LoadMem_LocalSet T U sg E s = r2s_LoadMem T U sg E mt False s"
    and "s2s_LocalGet_StoreMem T U E s = s2s_StoreMem T U E Mem32 False s"
proof -
  show "s2s_LoadMem_LocalSet T U sg E mt s = s2s_LoadMem T U sg E mt False s"
    by (simp add: s2s_LoadMem_LocalSet_def s2s_LoadMem_def access_immediates pop_index_operand push_def Read_def Let_def)
  show "s2s_LocalGet_StoreMem T U E s = s2s_StoreMem T U E Mem32 False s"
    by (simp add: s2s_LocalGet_StoreMem_def s2s_StoreMem_def access_immediates pop_index_operand pop_def Read_def Let_def)
  assume "mt = Mem32"
  with m have "r2s_LoadMem_LocalSet T U sg E s =
      (case wasm_load (memory s 0) (mem_offset E Mem32 s) (unat (reg_index Mem32 s)) (LENGTH('b) div 8) of
         None \<Rightarrow> Trap kWasmTrapMemOutOfBounds
       | Some bs \<Rightarrow> Next (to_slot E (s\<lparr>code := code s + offset_size E Mem32\<rparr>) 0
                          (convert sg (of_nat (le_nat bs) :: 'b word) :: 'a word)))"
    by (cases rule: wide_load [OF E _ mem_offset_bound(1) [OF E] w, of "memory s 0" Mem32 s "reg_index Mem32 s"])
      (simp_all add: r2s_LoadMem_LocalSet_def memory_ok_def access_immediates reg_index_def Read_def to_slot_def slot_at_def Let_def)
  with \<open>mt = Mem32\<close> m show "r2s_LoadMem_LocalSet T U sg E s = r2s_LoadMem T U sg E mt False s"
    by (simp add: load_handlers(2) [OF E w] split: option.split)
qed

text \<open>
  The fused copy from the register reads its index from the whole 64-bit register, so for a 32-bit
  memory it traps as soon as the register holds more than the 32 bits of the index, whatever the
  size of the memory.\<close>

lemma fused_copy_wide_index:
  fixes U :: "'b::len itself"
  assumes E: "wasm_env_ok E" and w: "access_width LENGTH('b)" and m: "memory_ok Mem32 (memory s 0)"
    and r: "2 ^ 32 \<le> unat (r0 s)"
  shows "r2s_LoadStoreMem U E Mem32 s = Trap kWasmTrapMemOutOfBounds"
proof -
  have len: "length (memory s 0) < 2 ^ 64" "length (memory s 0) \<le> 2 ^ 32" using m by (simp_all add: memory_ok_def)
  have "0 < LENGTH('b) div 8" using w by (auto simp: access_width_def)
  then have "wasm_load (memory s 0) off (unat (r0 s)) (LENGTH('b) div 8) = None" for off
    using len(2) r by (simp add: wasm_load_def)
  then show ?thesis
    using len(1)
    by (simp add: r2s_LoadStoreMem_def access_immediates pop_index_operand
        load_store_exact [OF E w _ mem_offset_bound(1) [OF E] mem_offset_bound(1) [OF E]])
qed

text \<open>
  C24: The fused instructions do what the pair of instructions they replace does, with one exception
  that the statement pins down.  A load into a local is the load into a slot, from a slot index at
  either memory type and from the register (a form that exists for 32-bit memories only); a store of
  a local (32-bit memories only) is the store of that slot; and the memory-to-memory copy is the load
  followed by the store, with the register left alone, its traps included.  The copy from the
  register is that pair too, except for a 32-bit memory when the register holds a value of
  \<open>2\<^sup>3\<^sup>2\<close> or more: then it traps out of bounds, where the pair truncates the index.\<close>

theorem fused_forms_agree:
  fixes T :: "'a::len itself" and U :: "'b::len itself" and sg :: bool
  assumes "wasm_env_ok E" "access_width LENGTH('b)" "\<And>i. memory_ok mt (memory s i)"
  shows "s2s_LoadMem_LocalSet T U sg E mt s = s2s_LoadMem T U sg E mt False s \<and>
         (mt = Mem32 \<longrightarrow> r2s_LoadMem_LocalSet T U sg E s = r2s_LoadMem T U sg E mt False s) \<and>
         s2s_LocalGet_StoreMem T U E s = s2s_StoreMem T U E Mem32 False s \<and>
         s2s_LoadStoreMem U E mt s = keeping_register (s2r_LoadMemI U U True E mt False) (r2s_StoreMemI U U E mt False) s \<and>
         r2s_LoadStoreMem U E mt s =
           (if mt = Mem32 \<and> 2 ^ 32 \<le> unat (r0 s) then Trap kWasmTrapMemOutOfBounds
            else keeping_register (r2r_LoadMemI U U True E mt False) (r2s_StoreMemI U U E mt False) s)"
proof -
  have "r2s_LoadStoreMem U E mt s = (if mt = Mem32 \<and> 2 ^ 32 \<le> unat (r0 s) then Trap kWasmTrapMemOutOfBounds
      else keeping_register (r2r_LoadMemI U U True E mt False) (r2s_StoreMemI U U E mt False) s)"
  proof (cases "mt = Mem32 \<and> 2 ^ 32 \<le> unat (r0 s)")
    case True
    with fused_copy_wide_index [OF assms(1,2)] assms(3) show ?thesis by auto
  next
    case False
    then have "mt = Mem64 \<or> unat (r0 s) < 2 ^ 32" by (cases mt) auto
    from fused_load_store(2) [OF assms this] False show ?thesis by (simp only: if_False)
  qed
  then show ?thesis
    by (intro conjI impI fused_local(1,2) fused_local(3) [where mt = mt] fused_load_store(1) assms)
qed

lemma sign_extended_index:
  assumes "2 ^ 31 \<le> unat (v :: u32)"
  shows "2 ^ 32 \<le> unat (scast v :: u64)"
proof -
  have v: "word_of_int (sint v) = v" by simp
  have u: "2 ^ 31 \<le> uint v" 
  proof -
    have "int (2 ^ 31) \<le> int (unat v)" using assms by (simp only: of_nat_le_iff)
    then show ?thesis by simp
  qed
  have lt: "sint v < 2 ^ 31" and ge: "- (2 ^ 31) \<le> sint v" using sint_lt [of v] sint_ge [of v] by simp_all
  have neg: "sint v < 0"
  proof (rule ccontr)
    assume "\<not> sint v < 0"
    have "uint v = sint v mod 2 ^ 32"
      using uint_word_of_int [where 'a = 32, of "sint v"] unfolding v by simp
    with \<open>\<not> sint v < 0\<close> u lt show False by simp
  qed
  have "uint (scast v :: u64) = sint v mod 2 ^ 64"
    using uint_word_of_int [where 'a = 64, of "sint v"] by simp
  also have "\<dots> = (sint v + 2 ^ 64) mod 2 ^ 64" by (simp only: mod_add_self2)
  also have "\<dots> = sint v + 2 ^ 64"
    using neg ge by (intro mod_pos_pos_trivial) simp_all
  finally have "2 ^ 32 \<le> uint (scast v :: u64)" using ge by simp
  then have "int (2 ^ 32) \<le> int (unat (scast v :: u64))" by simp
  then show ?thesis by (simp only: of_nat_le_iff)
qed

text \<open>
  So it traps on every index of two gigabytes or more that an operation at a signed type left in the
  register sign-extended.\<close>

lemma fused_copy_sign_extended_index:
  fixes U :: "'b::len itself" and v :: u32
  assumes "wasm_env_ok E" "access_width LENGTH('b)" "memory_ok Mem32 (memory s 0)"
    and r: "r0 s = scast v" "2 ^ 31 \<le> unat v"
  shows "r2s_LoadStoreMem U E Mem32 s = Trap kWasmTrapMemOutOfBounds"
proof -
  have "2 ^ 32 \<le> unat (r0 s)" using r(2) unfolding r(1) by (rule sign_extended_index)
  with assms(1-3) show ?thesis by (rule fused_copy_wide_index)
qed

subsection \<open>The register as an i32\<close>

text \<open>
  The handlers that leave an i32 in the register: operators, comparisons, tests, sign extension,
  conversion, globals, selections and loads.
\<close>

inductive i32_producer :: "wasm_env \<Rightarrow> (interp \<Rightarrow> interp step) \<Rightarrow> bool" for E where
  "i32_producer E (r2r_binop E (R :: 32 rotates) op)"
| "i32_producer E (s2r_binop E (R :: 32 rotates) op)"
| "i32_producer E (r2r_relop TYPE(32) E rel)"
| "i32_producer E (s2r_relop TYPE(32) E rel)"
| "i32_producer E (r2r_relop TYPE(64) E rel)"
| "i32_producer E (s2r_relop TYPE(64) E rel)"
| "i32_producer E (r2r_BitsUnop (C :: 32 counts) u)"
| "i32_producer E (s2r_BitsUnop (C :: 32 counts) u E)"
| "i32_producer E (r2r_Eqz TYPE(32))"
| "i32_producer E (s2r_Eqz TYPE(32) E)"
| "i32_producer E (r2r_Eqz TYPE(64))"
| "i32_producer E (s2r_Eqz TYPE(64) E)"
| "i32_producer E (r2r_SExtend TYPE(8) TYPE(32))"
| "i32_producer E (r2r_SExtend TYPE(16) TYPE(32))"
| "i32_producer E (s2r_SExtend TYPE(8) TYPE(32) E)"
| "i32_producer E (s2r_SExtend TYPE(16) TYPE(32) E)"
| "i32_producer E r2r_I32ConvertI64"
| "i32_producer E (s2r_I32ConvertI64 E)"
| "i32_producer E (s2r_GlobalGetI TYPE(32))"
| "i32_producer E (r2r_SelectI TYPE(32) E)"
| "i32_producer E (s2r_SelectI TYPE(32) E)"
| "i32_producer E (r2r_LoadMemI TYPE(32) TYPE(8) sg E mt multi)"
| "i32_producer E (r2r_LoadMemI TYPE(32) TYPE(16) sg E mt multi)"
| "i32_producer E (r2r_LoadMemI TYPE(32) TYPE(32) sg E mt multi)"
| "i32_producer E (s2r_LoadMemI TYPE(32) TYPE(8) sg E mt multi)"
| "i32_producer E (s2r_LoadMemI TYPE(32) TYPE(16) sg E mt multi)"
| "i32_producer E (s2r_LoadMemI TYPE(32) TYPE(32) sg E mt multi)"

text \<open>A register that holds the i32 \<open>v\<close>, extended either way.\<close>

definition holds_i32 :: "u64 \<Rightarrow> u32 \<Rightarrow> bool" where
  "holds_i32 r v \<longleftrightarrow> r = ucast v \<or> r = scast v"

lemma holds_i32_some [simp]:
  "\<exists>v. holds_i32 (ucast (w :: u32)) v" "\<exists>v. holds_i32 (scast (w :: u32)) v" "\<exists>v. holds_i32 0 v" "\<exists>v. holds_i32 1 v"
  by (auto simp: holds_i32_def intro: exI [of _ 0] exI [of _ 1])

lemma holds_i32_mask [simp]: "\<exists>v. holds_i32 (and r 0xffffffff) v" "\<exists>v. holds_i32 (and 0xffffffff r) v"
proof -
  have "(0xffffffff :: u64) = mask 32" by (simp add: mask_eq_exp_minus_1)
  moreover have "and r (mask 32) = ucast (ucast r :: u32)" by (rule bit_word_eqI) (auto simp: bit_simps)
  ultimately have "and r 0xffffffff = ucast (ucast r :: u32)" by (simp only:)
  moreover have "and 0xffffffff r = and r (0xffffffff :: u64)" by (simp only: ac_simps)
  ultimately show "\<exists>v. holds_i32 (and r 0xffffffff) v" "\<exists>v. holds_i32 (and 0xffffffff r) v"
    by (simp_all only: holds_i32_some)
qed

lemma holds_i32_value:
  assumes "holds_i32 r v"
  shows "ucast r = v" and "r = 0 \<longleftrightarrow> v = 0"
proof -
  have *: "ucast (ucast v :: u64) = v" "ucast (scast v :: u64) = v"
    by (rule bit_word_eqI, simp add: bit_simps)+
  then show "ucast r = v" using assms by (auto simp: holds_i32_def)
  with assms show "r = 0 \<longleftrightarrow> v = 0" by (auto simp: holds_i32_def)
qed

lemma bind_step_Next:
  assumes "bind_step r f = Next s'"
  obtains v where "r = Next v" "f v = Next s'"
  using assms by (cases r) auto

lemma i32_producer_sound:
  assumes "i32_producer E h" "h s = Next s'"
  shows "\<exists>v. holds_i32 (r0 s') v"
  using assms
proof (induction rule: i32_producer.induct)
  case (1 R op)
  then show ?case by (auto simp: r2r_binop_def pop_operand to_reg_def elim!: bind_step_Next)
next
  case (2 R op)
  then show ?case by (auto simp: s2r_binop_def pop_operand to_reg_def elim!: bind_step_Next)
qed (auto simp: r2r_I32ConvertI64_def s2r_I32ConvertI64_def r2r_relop_def s2r_relop_def r2r_BitsUnop_def s2r_BitsUnop_def r2r_Eqz_def s2r_Eqz_def r2r_SExtend_def
    s2r_SExtend_def s2r_GlobalGetI_def r2r_SelectI_def s2r_SelectI_def r2r_LoadMemI_def s2r_LoadMemI_def pop_operand
    access_immediates pop_index_operand Read_def Let_def split: if_splits)

text \<open>
  C25: Whatever handler left an i32 in the 64-bit register, the register is the zero or the sign
  extension of that value. So the handlers that test the whole register (conditional branches,
  \<^verbatim>\<open>if\<close>, selections) decide as the i32 condition does, and a truncation of the register gives it back.\<close>

theorem register_i32_canonical:
  assumes "i32_producer E h" "h s = Next s'"
  shows "\<exists>v :: u32. (r0 s' = ucast v \<or> r0 s' = scast v) \<and> ucast (r0 s') = v \<and>
     (let off = le_nat (map (bytecode s') [code s'..<code s' + 4]); t = s'\<lparr>code := code s' + 4\<rparr>
      in r2s_BranchIf E s' = Next (if v \<noteq> 0 then jump E off t else t) \<and>
         r2s_If E s' = Next (if v \<noteq> 0 then t else jump E off t) \<and>
         r2s_BranchIfWithParams E s' = Next (if v \<noteq> 0 then t else jump E off t)) \<and>
     r2r_SelectI TYPE('a::len) E s' = Next (to_register E s' 2 (scast (operand E s' (if v \<noteq> 0 then 1 else 0) :: 'a word))) \<and>
     r2s_Select TYPE('a) E s' = Next (to_slot E s' 2 (operand E s' (if v \<noteq> 0 then 1 else 0) :: 'a word))"
proof -
  obtain v where v: "holds_i32 (r0 s') v" using i32_producer_sound [OF assms] by blast
  then have "r0 s' = ucast v \<or> r0 s' = scast v" by (simp only: holds_i32_def)
  with v holds_i32_value [OF v] show ?thesis
    by (intro exI [of _ v])
      (simp add: r2s_BranchIf_def r2s_If_def r2s_BranchIfWithParams_def r2r_SelectI_def r2s_Select_def Read_def
        handler_simps numeral_2_eq_2 Let_def)
qed

subsection \<open>The handlers at work\<close>

text \<open>Offset 2, index slots 0 and 1 (both hold 0), register 1, and a memory of eight bytes.\<close>

definition mem_state :: interp where
  "mem_state = \<lparr>bytecode = (\<lambda>i. if i = 0 then 2 else 0), code = 0, slots = (\<lambda>_. 0), r0 = 1,
     memory = (\<lambda>_. [1, 2, 3, 4, 5, 6, 7, 8]), globals = (\<lambda>_. 0)\<rparr>"

lemma plain_env_ok: "wasm_env_ok plain_env"
  by (simp add: wasm_env_ok_def plain_env_def)

lemma mem_state_ok: "memory_ok mt (memory mem_state i)"
  by (simp add: memory_ok_def mem_state_def)

lemma mem_state_reads:
  "mem_offset plain_env Mem32 mem_state = 2" "unat (reg_index Mem32 mem_state) = 1"
  "index_operand plain_env Mem32 (after_immediates plain_env Mem32 False mem_state) = 0"
  "memory mem_state i = [1, 2, 3, 4, 5, 6, 7, 8]"
  by (simp_all add: mem_offset_def offset_size_def index_operand_def operand_def slot_at_def slot_value_def
      reg_index_def plain_env_def mem_state_def upt_rec)

theorem load_handlers_exact_witness:
  "r2r_LoadMemI TYPE(32) TYPE(16) False plain_env Mem32 False mem_state =
     Next (to_register plain_env (after_immediates plain_env Mem32 False mem_state) 0 0x0504) \<and>
   s2s_LoadMem TYPE(64) TYPE(64) True plain_env Mem32 False mem_state = Trap kWasmTrapMemOutOfBounds"
proof -
  have "r2r_LoadMemI TYPE(32) TYPE(16) False plain_env Mem32 False mem_state =
     Next (to_register plain_env (after_immediates plain_env Mem32 False mem_state) 0 0x0504)"
    using load_handlers_exact [where T = "TYPE(32)" and U = "TYPE(16)" and sg = False, OF plain_env_ok _ mem_state_ok,
        of Mem32 False]
    by (simp add: access_width_def mem_state_reads wasm_load_def convert_def Let_def del: single_memory(2))
  moreover have "s2s_LoadMem TYPE(64) TYPE(64) True plain_env Mem32 False mem_state = Trap kWasmTrapMemOutOfBounds"
    using load_handlers_exact [where T = "TYPE(64)" and U = "TYPE(64)" and sg = True, OF plain_env_ok _ mem_state_ok,
        of Mem32 False]
    by (simp add: access_width_def mem_state_reads wasm_load_def Let_def del: single_memory(2))
  ultimately show ?thesis ..
qed

theorem store_handlers_exact_witness:
  "store_outcome (r2s_StoreMemI TYPE(32) TYPE(16) plain_env Mem32 False mem_state) [1, 2, 3, 4, 5, 6, 7, 8] 2 [1, 0]
     (after_store plain_env (after_immediates plain_env Mem32 False mem_state) 0)"
proof -
  have len: "length (memory mem_state i) < 2 ^ 64" for i using mem_state_ok [of Mem32] by (simp add: memory_ok_def)
  have v: "le_bytes 2 (unat (ucast (ucast (r0 mem_state) :: u32) :: u16)) = [1, 0]"
    by (simp add: mem_state_def numeral_2_eq_2)
  show ?thesis
    using store_handlers_exact [where T = "TYPE(32)" and U = "TYPE(16)", OF plain_env_ok _ len, of Mem32 False] v
    by (simp add: numeral_2_eq_2 access_width_def mem_state_reads Let_def del: single_memory(2))
qed

theorem fused_forms_agree_witness:
  "s2s_LoadStoreMem TYPE(16) plain_env Mem32 mem_state =
     keeping_register (s2r_LoadMemI TYPE(16) TYPE(16) True plain_env Mem32 False) (r2s_StoreMemI TYPE(16) TYPE(16) plain_env Mem32 False) mem_state \<and>
   r2s_LoadStoreMem TYPE(16) plain_env Mem32 mem_state =
     keeping_register (r2r_LoadMemI TYPE(16) TYPE(16) True plain_env Mem32 False) (r2s_StoreMemI TYPE(16) TYPE(16) plain_env Mem32 False) mem_state"
  using fused_forms_agree [where T = "TYPE(16)" and U = "TYPE(16)" and mt = Mem32, OF plain_env_ok _ mem_state_ok]
  by (simp add: access_width_def mem_state_def)

text \<open>A memory of a little more than two gigabytes, and the index \<open>2\<^sup>3\<^sup>1\<close> in the register as a load of an i32 leaves it.\<close>

definition big_state :: interp where
  "big_state = mem_state\<lparr>memory := (\<lambda>_. replicate (2 ^ 31 + 16) 0), r0 := scast (0x80000000 :: u32)\<rparr>"

lemma fused_copy_sign_extended_index_witness:
  "r2s_LoadStoreMem TYPE(32) plain_env Mem32 big_state = Trap kWasmTrapMemOutOfBounds \<and>
   wasm_load (memory big_state 0) (mem_offset plain_env Mem32 big_state) (unat (ucast (r0 big_state) :: u32)) 4 \<noteq> None"
proof -
  have m: "length (memory big_state 0) = 2 ^ 31 + 16" by (simp add: big_state_def)
  have r: "r0 big_state = scast (0x80000000 :: u32)" by (simp add: big_state_def)
  have o: "mem_offset plain_env Mem32 big_state = 2"
    using mem_state_reads(1) by (simp add: big_state_def mem_offset_def)
  have "memory_ok Mem32 (memory big_state 0)" unfolding memory_ok_def m by simp
  from fused_copy_sign_extended_index [where U = "TYPE(32)", OF plain_env_ok _ this r]
  have "r2s_LoadStoreMem TYPE(32) plain_env Mem32 big_state = Trap kWasmTrapMemOutOfBounds"
    by (simp add: access_width_def)
  moreover have "unat (ucast (r0 big_state) :: u32) = 2 ^ 31" unfolding r by simp
  ultimately show ?thesis unfolding wasm_load_def m o by simp
qed

theorem register_i32_canonical_witness:
  "\<exists>v :: u32. (r0 (mem_state\<lparr>code := 4\<rparr>) = ucast v \<or> r0 (mem_state\<lparr>code := 4\<rparr>) = scast v) \<and>
     r2s_Select TYPE(32) plain_env (mem_state\<lparr>code := 4\<rparr>) =
       Next (to_slot plain_env (mem_state\<lparr>code := 4\<rparr>) 2 (operand plain_env (mem_state\<lparr>code := 4\<rparr>) (if v \<noteq> 0 then 1 else 0) :: u32))"
proof -
  have "s2r_Eqz TYPE(32) plain_env mem_state = Next (mem_state\<lparr>code := 4\<rparr>)"
    by (simp add: s2r_Eqz_def pop_operand operand_def slot_at_def slot_value_def plain_env_def mem_state_def upt_rec)
  from register_i32_canonical [OF i32_producer.intros(10) this, where 'a = 32] show ?thesis by blast
qed

end
