(* ===== verification/Wasm_Atomics.thy ===== *)
theory Wasm_Atomics
  imports Wasm_Memory
begin

unbundle bit_operations_syntax

text \<open>
  The atomic handlers of \<^verbatim>\<open>v8/src/wasm/interpreter/wasm-interpreter.cc\<close>: read-modify-write, compare and
  exchange, loads and stores, notify and wait. A handler executes its memory operation as one
  sequentially consistent C++ atomic, so on one thread it is one step; what other threads do while a thread waits is the
  parameter that stands for the runtime's wait.

  The theorems: each access traps first for its alignment and then for its bounds, over the natural numbers,
  and otherwise does exactly its operation; notify and the 32-bit wait test the bounds of eight bytes for an access of four.
\<close>

subsection \<open>Handlers\<close>

datatype atomic_op = AtomicAdd | AtomicSub | AtomicAnd | AtomicOr | AtomicXor | AtomicExchange

fun fetch_op :: "atomic_op \<Rightarrow> 'b::len word \<Rightarrow> 'b word \<Rightarrow> 'b word" where
  "fetch_op AtomicAdd old val = old + val"
| "fetch_op AtomicSub old val = old - val"
| "fetch_op AtomicAnd old val = old AND val"
| "fetch_op AtomicOr old val = old OR val"
| "fetch_op AtomicXor old val = old XOR val"
| "fetch_op AtomicExchange old val = val"

text \<open>
  The lines every handler has: the immediates, the index, the effective address, the test of its alignment and
  of its bounds with the size \<open>n\<close>. \<^verbatim>\<open>IsAligned\<close> is a library function, the argument \<open>al\<close>.
\<close>

definition atomic_access :: "(u64 \<Rightarrow> bool) \<Rightarrow> nat \<Rightarrow> wasm_env \<Rightarrow> mem_type \<Rightarrow> bool \<Rightarrow> interp \<Rightarrow> (nat \<times> u64 \<times> interp) step" where
  "atomic_access aligned n E mt multi s =
     (let (offset, s) = read_offset E mt s; (mi, s) = ReadMemoryIndex multi s;
          (index, s) = pop_index E mt s; effective = wide_sum offset index
      in if \<not> aligned effective then Trap kWasmTrapUnalignedAccess
         else if out_of_bounds E effective index n (memory s mi) then Trap kWasmTrapMemOutOfBounds
         else Next (mi, effective, s))"

type_synonym aligned_fun = "u64 \<Rightarrow> u64 \<Rightarrow> bool"

definition s2s_AtomicBinop ::
  "'a::len itself \<Rightarrow> 'b::len itself \<Rightarrow> atomic_op \<Rightarrow> aligned_fun \<Rightarrow> wasm_env \<Rightarrow> mem_type \<Rightarrow> bool \<Rightarrow> interp \<Rightarrow> interp step" where
  "s2s_AtomicBinop T U op al E mt multi s =
     (let n = LENGTH('b) div 8; (v, s) = pop E s; val = (ucast (v :: 'a word) :: 'b word) in
      bind_step (atomic_access (\<lambda>e. al e (of_nat n)) n E mt multi s) (\<lambda>(mi, e, s).
        let m = memory s mi; result = (mem_read m e :: 'b word);
            s = s\<lparr>memory := (memory s)(mi := mem_write m e (fetch_op op result val))\<rparr>
        in Next (push E (ucast result :: 'a word) s)))"

text \<open>\<^verbatim>\<open>std::atomic_compare_exchange_strong\<close>: the memory after it and the value left in the expected operand.\<close>

definition compare_exchange :: "u8 list \<Rightarrow> u64 \<Rightarrow> 'b::len word \<Rightarrow> 'b word \<Rightarrow> u8 list \<times> 'b word" where
  "compare_exchange m e old_val new_val =
     (if (mem_read m e :: 'b word) = old_val then (mem_write m e new_val, old_val) else (m, mem_read m e))"

definition s2s_AtomicCompareExchange ::
  "'a::len itself \<Rightarrow> 'b::len itself \<Rightarrow> aligned_fun \<Rightarrow> wasm_env \<Rightarrow> mem_type \<Rightarrow> bool \<Rightarrow> interp \<Rightarrow> interp step" where
  "s2s_AtomicCompareExchange T U al E mt multi s =
     (let n = LENGTH('b) div 8; (v, s) = pop E s; new_val = (ucast (v :: 'a word) :: 'b word);
          (w, s) = pop E s; old_val = (ucast (w :: 'a word) :: 'b word) in
      bind_step (atomic_access (\<lambda>e. al e (of_nat n)) n E mt multi s) (\<lambda>(mi, e, s).
        let (m, old_val) = compare_exchange (memory s mi) e old_val new_val
        in Next (push E (ucast old_val :: 'a word) (s\<lparr>memory := (memory s)(mi := m)\<rparr>))))"

definition s2s_AtomicLoad ::
  "'a::len itself \<Rightarrow> 'b::len itself \<Rightarrow> aligned_fun \<Rightarrow> wasm_env \<Rightarrow> mem_type \<Rightarrow> bool \<Rightarrow> interp \<Rightarrow> interp step" where
  "s2s_AtomicLoad T U al E mt multi s =
     (let n = LENGTH('b) div 8 in
      bind_step (atomic_access (\<lambda>e. al e (of_nat n)) n E mt multi s) (\<lambda>(mi, e, s).
        let val = (mem_read (memory s mi) e :: 'b word) in Next (push E (ucast val :: 'a word) s)))"

definition s2s_AtomicStore ::
  "'a::len itself \<Rightarrow> 'b::len itself \<Rightarrow> aligned_fun \<Rightarrow> wasm_env \<Rightarrow> mem_type \<Rightarrow> bool \<Rightarrow> interp \<Rightarrow> interp step" where
  "s2s_AtomicStore T U al E mt multi s =
     (let n = LENGTH('b) div 8; (v, s) = pop E s; val = (ucast (v :: 'a word) :: 'b word) in
      bind_step (atomic_access (\<lambda>e. al e (of_nat n)) n E mt multi s) (\<lambda>(mi, e, s).
        Next (s\<lparr>memory := (memory s)(mi := mem_write (memory s mi) e val)\<rparr>)))"

text \<open>
  Notify and wait: the alignment by a mask and the bounds with \<^verbatim>\<open>sizeof(uint64_t)\<close>. The runtime's functions get the address,
  the memory and their operands; a wait returns when the memories are as other threads left them.
\<close>

record wait_runtime =
  AllowsAtomicsWait :: bool
  AtomicNotify :: "u64 \<Rightarrow> nat \<Rightarrow> u32 \<Rightarrow> u32"
  I32AtomicWait :: "u64 \<Rightarrow> nat \<Rightarrow> u32 \<Rightarrow> u64 \<Rightarrow> (nat \<Rightarrow> u8 list) \<Rightarrow> u32 \<times> (nat \<Rightarrow> u8 list)"
  I64AtomicWait :: "u64 \<Rightarrow> nat \<Rightarrow> u64 \<Rightarrow> u64 \<Rightarrow> (nat \<Rightarrow> u8 list) \<Rightarrow> u32 \<times> (nat \<Rightarrow> u8 list)"

definition s2s_AtomicNotify :: "wait_runtime \<Rightarrow> wasm_env \<Rightarrow> mem_type \<Rightarrow> bool \<Rightarrow> interp \<Rightarrow> interp step" where
  "s2s_AtomicNotify W E mt multi s =
     (let (val, s) = pop E s in
      bind_step (atomic_access (\<lambda>e. e AND (4 - 1) = 0) 8 E mt multi s) (\<lambda>(mi, e, s).
        Next (push E (AtomicNotify W e mi val) s)))"

definition s2s_I32AtomicWait :: "wait_runtime \<Rightarrow> wasm_env \<Rightarrow> mem_type \<Rightarrow> bool \<Rightarrow> interp \<Rightarrow> interp step" where
  "s2s_I32AtomicWait W E mt multi s =
     (let (timeout, s) = pop E s; (val, s) = pop E s in
      bind_step (atomic_access (\<lambda>e. e AND (4 - 1) = 0) 8 E mt multi s) (\<lambda>(mi, e, s).
        if \<not> AllowsAtomicsWait W then Trap kWasmTrapUnreachable
        else (let (result, ms) = I32AtomicWait W e mi val timeout (memory s) in Next (push E result (s\<lparr>memory := ms\<rparr>)))))"

definition s2s_I64AtomicWait :: "wait_runtime \<Rightarrow> wasm_env \<Rightarrow> mem_type \<Rightarrow> bool \<Rightarrow> interp \<Rightarrow> interp step" where
  "s2s_I64AtomicWait W E mt multi s =
     (let (timeout, s) = pop E s; (val, s) = pop E s in
      bind_step (atomic_access (\<lambda>e. e AND (8 - 1) = 0) 8 E mt multi s) (\<lambda>(mi, e, s).
        if \<not> AllowsAtomicsWait W then Trap kWasmTrapUnreachable
        else (let (result, ms) = I64AtomicWait W e mi val timeout (memory s) in Next (push E result (s\<lparr>memory := ms\<rparr>)))))"

definition s2s_AtomicFence :: "interp \<Rightarrow> interp step" where
  "s2s_AtomicFence s = Next s"

subsection \<open>What an atomic access means\<close>

definition aligned_ok :: "aligned_fun \<Rightarrow> bool" where
  "aligned_ok al \<longleftrightarrow> (\<forall>v k. k < 64 \<longrightarrow> al v (2 ^ k) \<longleftrightarrow> unat v mod 2 ^ k = 0)"

text \<open>The specification of an aligned access of \<open>n\<close> bytes at \<open>ea\<close>, with what it does with the bytes there.\<close>

definition wasm_atomic :: "u8 list \<Rightarrow> nat \<Rightarrow> nat \<Rightarrow> (u8 list \<Rightarrow> 'r) \<Rightarrow> 'r step" where
  "wasm_atomic m ea n f =
     (if ea mod n \<noteq> 0 then Trap kWasmTrapUnalignedAccess
      else if length m < ea + n then Trap kWasmTrapMemOutOfBounds else Next (f (take n (drop ea m))))"

definition put_bytes :: "u8 list \<Rightarrow> nat \<Rightarrow> u8 list \<Rightarrow> u8 list" where
  "put_bytes m ea bs = take ea m @ bs @ drop (ea + length bs) m"

definition effective_address :: "wasm_env \<Rightarrow> mem_type \<Rightarrow> bool \<Rightarrow> interp \<Rightarrow> nat" where
  "effective_address E mt multi s = mem_offset E mt s + index_operand E mt (after_immediates E mt multi s)"

lemma atomic_access_exact:
  fixes mt :: mem_type and multi :: bool and s :: interp
  assumes E: "wasm_env_ok E" and len: "\<And>i. length (memory s i) < 2 ^ 64" and n: "n < 2 ^ 64"
    and al: "\<And>e. aligned e \<longleftrightarrow> unat e mod k = 0" and k: "k dvd 2 ^ 64"
  defines "a \<equiv> after_immediates E mt multi s" and "mi \<equiv> mem_number E mt multi s" and "ea \<equiv> effective_address E mt multi s"
  shows "atomic_access aligned n E mt multi s =
      (if ea mod k \<noteq> 0 then Trap kWasmTrapUnalignedAccess
       else if length (memory s mi) < ea + n then Trap kWasmTrapMemOutOfBounds
       else Next (mi, of_nat ea, a\<lparr>code := code a + slot_size E\<rparr>))"
    and "length (memory s mi) \<ge> ea + n \<Longrightarrow> unat (of_nat ea :: u64) = ea"
proof -
  let ?o = "of_nat (mem_offset E mt s) :: u64" and ?i = "of_nat (index_operand E mt a) :: u64"
  have u: "unat ?o = mem_offset E mt s" "unat ?i = index_operand E mt a"
    using mem_offset_bound(1) [OF E, of mt s] pop_index_operand(2) by (simp_all add: unat_of_nat)
  have sum: "?o + ?i = of_nat ea" by (simp add: ea_def effective_address_def a_def)
  have "unat (of_nat ea :: u64) = ea mod 2 ^ 64" by (simp add: unat_of_nat)
  then have aligned: "aligned (of_nat ea) \<longleftrightarrow> ea mod k = 0" using al k by (simp add: mod_mod_cancel)
  have oob: "out_of_bounds E (?o + ?i) ?i n (memory s mi) \<longleftrightarrow> length (memory s mi) < ea + n"
    using in_bounds_wide(1) [OF E len [of mi] n, of ?o ?i] u by (simp add: ea_def effective_address_def a_def)
  show "atomic_access aligned n E mt multi s =
      (if ea mod k \<noteq> 0 then Trap kWasmTrapUnalignedAccess
       else if length (memory s mi) < ea + n then Trap kWasmTrapMemOutOfBounds
       else Next (mi, of_nat ea, a\<lparr>code := code a + slot_size E\<rparr>))"
    using aligned oob
    by (simp add: atomic_access_def access_immediates pop_index_operand Let_def wide_sum_def sum a_def [symmetric] mi_def [symmetric])
      (simp add: a_def after_immediates_def)
  show "unat (of_nat ea :: u64) = ea" if "length (memory s mi) \<ge> ea + n"
    using that len [of mi] by (simp add: unat_of_nat)
qed

lemma bytes_at:
  assumes "unat (of_nat ea :: u64) = ea"
  shows "(mem_read m (of_nat ea) :: 'b::len word) = of_nat (le_nat (take (LENGTH('b) div 8) (drop ea m)))"
    and "mem_write m (of_nat ea) (v :: 'b word) = put_bytes m ea (le_bytes (LENGTH('b) div 8) (unat v))"
  by (simp_all add: mem_read_def mem_write_def put_bytes_def assms)

lemma push_after:
  "push E v (a\<lparr>code := code a + slot_size E\<rparr>) = to_slot E a 1 v"
  "push E v (a\<lparr>code := code a + slot_size E, memory := M\<rparr>) = to_slot E (a\<lparr>memory := M\<rparr>) 1 v"
  by (simp_all add: push_slot to_slot_def slot_at_def)

text \<open>The bytes of an access of type \<open>'b\<close> are a power of two, so the alignment test is the specification's.\<close>

lemma access_size:
  assumes "aligned_ok al" "access_width LENGTH('b::len)"
  shows "al e (of_nat (LENGTH('b) div 8)) \<longleftrightarrow> unat e mod (LENGTH('b) div 8) = 0" "LENGTH('b) div 8 dvd 2 ^ 64" "LENGTH('b) div 8 < 2 ^ 64"
proof -
  from assms(2) obtain k where k: "LENGTH('b) div 8 = 2 ^ k" "k < 4"
    unfolding access_width_def by (elim disjE) (auto intro: that [of 0] that [of 1] that [of 2] that [of 3])
  show "al e (of_nat (LENGTH('b) div 8)) \<longleftrightarrow> unat e mod (LENGTH('b) div 8) = 0"
    using assms(1) k unfolding aligned_ok_def k(1) by simp
  show "LENGTH('b) div 8 dvd 2 ^ 64" using k by (simp only: k(1)) (rule le_imp_power_dvd, simp)
  show "LENGTH('b) div 8 < 2 ^ 64" using assms(2) by (auto simp: access_width_def)
qed

lemma atomic_handler:
  fixes mt :: mem_type and multi :: bool and s :: interp and U :: "'b::len itself"
  assumes E: "wasm_env_ok E" and al: "aligned_ok al" and w: "access_width LENGTH('b)" and len: "\<And>i. length (memory s i) < 2 ^ 64"
  defines "n \<equiv> LENGTH('b) div 8" and "a \<equiv> after_immediates E mt multi s" and "mi \<equiv> mem_number E mt multi s"
    and "ea \<equiv> effective_address E mt multi s"
  assumes f: "unat (of_nat ea :: u64) = ea \<Longrightarrow> f (mi, of_nat ea, a\<lparr>code := code a + slot_size E\<rparr>) = Next (g (take n (drop ea (memory s mi))))"
  shows "bind_step (atomic_access (\<lambda>e. al e (of_nat n)) n E mt multi s) f = wasm_atomic (memory s mi) ea n g"
proof -
  note size = access_size [OF al w]
  have aligned: "al e (of_nat n) \<longleftrightarrow> unat e mod n = 0" for e using size(1) by (simp add: n_def)
  have "n dvd 2 ^ 64" "n < 2 ^ 64" using size(2,3) by (simp_all add: n_def)
  note X = atomic_access_exact [OF E len this(2) aligned this(1), of mt multi, folded a_def mi_def ea_def]
  show ?thesis using X f by (simp add: wasm_atomic_def)
qed

text \<open>The access of an instruction whose immediates start at the state \<open>s\<close>, and the state after it with the bytes replaced.\<close>

definition atomic_at :: "wasm_env \<Rightarrow> mem_type \<Rightarrow> bool \<Rightarrow> interp \<Rightarrow> ('b::len word \<Rightarrow> 'r) \<Rightarrow> 'r step" where
  "atomic_at E mt multi s f =
     wasm_atomic (memory s (mem_number E mt multi s)) (effective_address E mt multi s) (LENGTH('b) div 8) (\<lambda>bs. f (of_nat (le_nat bs)))"

definition atomic_put :: "wasm_env \<Rightarrow> mem_type \<Rightarrow> bool \<Rightarrow> interp \<Rightarrow> 'b::len word \<Rightarrow> interp" where
  "atomic_put E mt multi s v =
     (let mi = mem_number E mt multi s
      in (after_immediates E mt multi s)\<lparr>memory := (memory s)(mi :=
           put_bytes (memory s mi) (effective_address E mt multi s) (le_bytes (LENGTH('b) div 8) (unat v)))\<rparr>)"

lemma memory_same: "(after_immediates E mt multi s)\<lparr>memory := memory s\<rparr> = after_immediates E mt multi s"
  by (simp add: after_immediates_def)

lemma atomic_load:
  fixes T :: "'a::len itself" and U :: "'b::len itself"
  assumes "wasm_env_ok E" "aligned_ok al" "access_width LENGTH('b)" "\<And>i. length (memory s i) < 2 ^ 64"
  shows "s2s_AtomicLoad T U al E mt multi s =
    atomic_at E mt multi s (\<lambda>old :: 'b word. to_slot E (after_immediates E mt multi s) 1 (ucast old :: 'a word))"
  unfolding s2s_AtomicLoad_def atomic_at_def Let_def
  by (rule atomic_handler [OF assms]) (simp add: bytes_at push_after access_immediates)

lemma atomic_store:
  fixes T :: "'a::len itself" and U :: "'b::len itself" and v :: "'b word"
  assumes "wasm_env_ok E" "aligned_ok al" "access_width LENGTH('b)" "\<And>i. length (memory s i) < 2 ^ 64"
  shows "bind_step (atomic_access (\<lambda>e. al e (of_nat (LENGTH('b) div 8))) (LENGTH('b) div 8) E mt multi s)
      (\<lambda>(mi, e, s). Next (s\<lparr>memory := (memory s)(mi := mem_write (memory s mi) e v)\<rparr>)) =
    atomic_at E mt multi s (\<lambda>old :: 'b word. (atomic_put E mt multi s v)\<lparr>code := code (after_immediates E mt multi s) + slot_size E\<rparr>)"
  unfolding atomic_at_def
  by (rule atomic_handler [OF assms]) (simp add: bytes_at atomic_put_def access_immediates Let_def)

lemma atomic_rmw:
  fixes T :: "'a::len itself" and U :: "'b::len itself" and v :: "'b word"
  assumes "wasm_env_ok E" "aligned_ok al" "access_width LENGTH('b)" "\<And>i. length (memory s i) < 2 ^ 64"
  shows "bind_step (atomic_access (\<lambda>e. al e (of_nat (LENGTH('b) div 8))) (LENGTH('b) div 8) E mt multi s)
      (\<lambda>(mi, e, s). let m = memory s mi; result = (mem_read m e :: 'b word)
         in Next (push E (ucast result :: 'a word) (s\<lparr>memory := (memory s)(mi := mem_write m e (fetch_op op result v))\<rparr>))) =
    atomic_at E mt multi s (\<lambda>old :: 'b word. to_slot E (atomic_put E mt multi s (fetch_op op old v)) 1 (ucast old :: 'a word))"
  unfolding atomic_at_def
  by (rule atomic_handler [OF assms]) (simp add: bytes_at push_after atomic_put_def access_immediates Let_def)

lemma atomic_cas:
  fixes T :: "'a::len itself" and U :: "'b::len itself" and v w :: "'b word"
  assumes "wasm_env_ok E" "aligned_ok al" "access_width LENGTH('b)" "\<And>i. length (memory s i) < 2 ^ 64"
  shows "bind_step (atomic_access (\<lambda>e. al e (of_nat (LENGTH('b) div 8))) (LENGTH('b) div 8) E mt multi s)
      (\<lambda>(mi, e, s). let (m, old_val) = compare_exchange (memory s mi) e w v
         in Next (push E (ucast old_val :: 'a word) (s\<lparr>memory := (memory s)(mi := m)\<rparr>))) =
    atomic_at E mt multi s (\<lambda>old :: 'b word.
      to_slot E (if old = w then atomic_put E mt multi s v else after_immediates E mt multi s) 1 (ucast old :: 'a word))"
  unfolding atomic_at_def
  by (rule atomic_handler [OF assms])
    (auto simp: bytes_at compare_exchange_def push_after atomic_put_def access_immediates memory_same Let_def)

text \<open>
  C32: Every atomic access is exact. A read-modify-write, a compare-and-exchange, a load or a store of one, two, four or eight bytes
  traps for its alignment when the effective address, computed without wrap-around, is not a multiple of its size, else traps for its
  bounds when the access does not fit the memory, and otherwise delivers the old value, zero-extended, and replaces exactly these bytes by
  the result: the operator's value at its width, the new value if the expected one was found, the stored value.\<close>

theorem atomic_handlers_exact:
  fixes T :: "'a::len itself" and U :: "'b::len itself"
  assumes "wasm_env_ok E" "aligned_ok al" "access_width LENGTH('b)" "\<And>i. length (memory s i) < 2 ^ 64"
  shows "let s1 = s\<lparr>code := code s + slot_size E\<rparr>; s2 = s1\<lparr>code := code s1 + slot_size E\<rparr>;
             v0 = (ucast (operand E s 0 :: 'a word) :: 'b word); v1 = (ucast (operand E s 1 :: 'a word) :: 'b word)
         in s2s_AtomicLoad T U al E mt multi s =
              atomic_at E mt multi s (\<lambda>old :: 'b word. to_slot E (after_immediates E mt multi s) 1 (ucast old :: 'a word)) \<and>
            s2s_AtomicStore T U al E mt multi s =
              atomic_at E mt multi s1 (\<lambda>old :: 'b word. (atomic_put E mt multi s1 v0)\<lparr>code := code (after_immediates E mt multi s1) + slot_size E\<rparr>) \<and>
            s2s_AtomicBinop T U op al E mt multi s =
              atomic_at E mt multi s1 (\<lambda>old. to_slot E (atomic_put E mt multi s1 (fetch_op op old v0)) 1 (ucast old :: 'a word)) \<and>
            s2s_AtomicCompareExchange T U al E mt multi s =
              atomic_at E mt multi s2 (\<lambda>old. to_slot E (if old = v1 then atomic_put E mt multi s2 v0 else after_immediates E mt multi s2) 1 (ucast old :: 'a word))"
proof -
  let ?s1 = "s\<lparr>code := code s + slot_size E\<rparr>" and ?s2 = "s\<lparr>code := code s + slot_size E + slot_size E\<rparr>"
  have len: "length (memory ?s1 i) < 2 ^ 64" "length (memory ?s2 i) < 2 ^ 64" for i using assms(4) by simp_all
  have ops: "operand E ?s1 0 = (operand E s 1 :: 'a word)" by (simp add: operand_code)
  note pops = pop_operand ops prod.case Let_def
  have "s2s_AtomicStore T U al E mt multi s = atomic_at E mt multi ?s1
      (\<lambda>old :: 'b word. (atomic_put E mt multi ?s1 (ucast (operand E s 0 :: 'a word) :: 'b word))\<lparr>code := code (after_immediates E mt multi ?s1) + slot_size E\<rparr>)"
    using atomic_store [OF assms(1-3) len(1)] by (simp add: s2s_AtomicStore_def pops)
  moreover have "s2s_AtomicBinop T U op al E mt multi s = atomic_at E mt multi ?s1
      (\<lambda>old :: 'b word. to_slot E (atomic_put E mt multi ?s1 (fetch_op op old (ucast (operand E s 0 :: 'a word)))) 1 (ucast old :: 'a word))"
    using atomic_rmw [OF assms(1-3) len(1)] by (simp add: s2s_AtomicBinop_def pops)
  moreover have "s2s_AtomicCompareExchange T U al E mt multi s = atomic_at E mt multi ?s2
      (\<lambda>old :: 'b word. to_slot E (if old = ucast (operand E s 1 :: 'a word) then atomic_put E mt multi ?s2 (ucast (operand E s 0 :: 'a word) :: 'b word)
         else after_immediates E mt multi ?s2) 1 (ucast old :: 'a word))"
    using atomic_cas [OF assms(1-3) len(2)] by (simp add: s2s_AtomicCompareExchange_def pops)
  ultimately show ?thesis using atomic_load [OF assms, of T U mt multi] by simp
qed

text \<open>A concrete environment and a memory of one word.\<close>

definition sample_env :: wasm_env where
  "sample_env = \<lparr>slot_size = 0, mem32_size = 0, mem64_size = 0, kCodeOffsetSize = 4, IsInBounds = (\<lambda>i n m. unat i + unat n \<le> unat m),
      RotateLeft32 = (\<lambda>v n. v), RotateRight32 = (\<lambda>v n. v), RotateLeft64 = (\<lambda>v n. v), RotateRight64 = (\<lambda>v n. v)\<rparr>"

definition sample_aligned :: aligned_fun where "sample_aligned v k \<longleftrightarrow> unat v mod unat k = 0"

definition sample_state :: interp where
  "sample_state = \<lparr>bytecode = (\<lambda>_. 0), code = 0, slots = (\<lambda>_. 0), r0 = 0, memory = (\<lambda>_. [1, 2, 3, 4]), globals = (\<lambda>_. 0)\<rparr>"

lemma sample_ok:
  "wasm_env_ok sample_env" "aligned_ok sample_aligned" "length (memory sample_state i) < 2 ^ 64"
  "effective_address sample_env Mem32 False sample_state = 0" "slot_size sample_env = 0"
proof -
  have "unat ((2 :: u64) ^ k) = 2 ^ k" if "k < 64" for k
  proof -
    have "(2 :: nat) ^ k < 2 ^ 64" by (rule power_strict_increasing) (use that in simp_all)
    then have "unat (of_nat (2 ^ k) :: u64) = 2 ^ k" unfolding unat_of_nat by simp
    then show ?thesis by (simp only: of_nat_power of_nat_numeral)
  qed
  then show "aligned_ok sample_aligned" by (simp add: aligned_ok_def sample_aligned_def)
  show "effective_address sample_env Mem32 False sample_state = 0"
    by (simp add: effective_address_def mem_offset_def offset_size_def index_operand_def operand_def slot_value_def slot_at_def
        sample_env_def sample_state_def)
qed (simp_all add: wasm_env_ok_def sample_env_def sample_state_def)

theorem atomic_handlers_exact_witness:
  "s2s_AtomicLoad TYPE(32) TYPE(32) sample_aligned sample_env Mem32 False sample_state =
     atomic_at sample_env Mem32 False sample_state
       (\<lambda>old :: u32. to_slot sample_env (after_immediates sample_env Mem32 False sample_state) 1 (ucast old :: u32)) \<and>
   atomic_at sample_env Mem32 False sample_state (\<lambda>old :: u32. old) = Next 0x04030201"
proof -
  have "access_width LENGTH(32)" by (simp add: access_width_def)
  from atomic_handlers_exact [OF sample_ok(1,2) this sample_ok(3), of "TYPE(32)" "TYPE(32)" Mem32 False AtomicAdd]
  have "s2s_AtomicLoad TYPE(32) TYPE(32) sample_aligned sample_env Mem32 False sample_state =
     atomic_at sample_env Mem32 False sample_state
       (\<lambda>old :: u32. to_slot sample_env (after_immediates sample_env Mem32 False sample_state) 1 (ucast old :: u32))"
    unfolding Let_def by (elim conjE)
  moreover have "atomic_at sample_env Mem32 False sample_state (\<lambda>old :: u32. old) = Next 0x04030201"
    unfolding atomic_at_def sample_ok(4) by (simp add: wasm_atomic_def sample_state_def)
  ultimately show ?thesis ..
qed

subsection \<open>Notify and wait\<close>

lemma mask_aligned:
  fixes e :: u64
  shows "e AND (4 - 1) = 0 \<longleftrightarrow> unat e mod 4 = 0" "e AND (8 - 1) = 0 \<longleftrightarrow> unat e mod 8 = 0"
proof -
  have m: "(4 - 1 :: u64) = mask 2" "(8 - 1 :: u64) = mask 3" by (simp_all add: mask_eq_exp_minus_1)
  have z: "take_bit k e = 0 \<longleftrightarrow> unat e mod 2 ^ k = 0" for k
    by (metis take_bit_eq_mod unsigned_take_bit_eq unsigned_eq_0_iff)
  show "e AND (4 - 1) = 0 \<longleftrightarrow> unat e mod 4 = 0" "e AND (8 - 1) = 0 \<longleftrightarrow> unat e mod 8 = 0"
    unfolding m by (simp_all add: z flip: take_bit_eq_mask)
qed

text \<open>What the three handlers do with an access whose immediates start at \<open>s\<close>.\<close>

lemma wait_access:
  fixes mt :: mem_type and multi :: bool and s :: interp
  assumes "wasm_env_ok E" "\<And>i. length (memory s i) < 2 ^ 64"
  defines "ea \<equiv> effective_address E mt multi s" and "mi \<equiv> mem_number E mt multi s" and "a \<equiv> after_immediates E mt multi s"
  shows "atomic_access (\<lambda>e. e AND (4 - 1) = 0) 8 E mt multi s =
      (if ea mod 4 \<noteq> 0 then Trap kWasmTrapUnalignedAccess else if length (memory s mi) < ea + 8 then Trap kWasmTrapMemOutOfBounds
       else Next (mi, of_nat ea, a\<lparr>code := code a + slot_size E\<rparr>))"
    and "atomic_access (\<lambda>e. e AND (8 - 1) = 0) 8 E mt multi s =
      (if ea mod 8 \<noteq> 0 then Trap kWasmTrapUnalignedAccess else if length (memory s mi) < ea + 8 then Trap kWasmTrapMemOutOfBounds
       else Next (mi, of_nat ea, a\<lparr>code := code a + slot_size E\<rparr>))"
  unfolding ea_def mi_def a_def
  by (intro atomic_access_exact(1) assms(1,2) mask_aligned; simp)+

text \<open>The 64-bit wait is exact.\<close>

lemma I64AtomicWait_exact:
  fixes mt :: mem_type and multi :: bool and s :: interp
  assumes "wasm_env_ok E" "\<And>i. length (memory s i) < 2 ^ 64"
  defines "s2 \<equiv> s\<lparr>code := code s + slot_size E + slot_size E\<rparr>"
  defines "ea \<equiv> effective_address E mt multi s2" and "mi \<equiv> mem_number E mt multi s2" and "a \<equiv> after_immediates E mt multi s2"
  shows "s2s_I64AtomicWait W E mt multi s =
      bind_step (wasm_atomic (memory s mi) ea 8 (\<lambda>_. ())) (\<lambda>_. if \<not> AllowsAtomicsWait W then Trap kWasmTrapUnreachable
        else (case I64AtomicWait W (of_nat ea) mi (operand E s 1) (operand E s 0) (memory s) of (result, ms) \<Rightarrow> Next (to_slot E (a\<lparr>memory := ms\<rparr>) 1 result)))"
proof -
  have len: "length (memory s2 i) < 2 ^ 64" and mem: "memory s2 = memory s" "memory a = memory s" for i
    using assms(2) by (simp_all add: s2_def a_def access_immediates)
  note X = wait_access(2) [OF assms(1) len, of mt multi, folded ea_def mi_def a_def]
  show ?thesis
    using X by (auto simp: s2s_I64AtomicWait_def pop_operand operand_code Let_def wasm_atomic_def mem push_after split_beta simp flip: s2_def)
qed

text \<open>
  C33: Notify and the 32-bit wait miss the last word. Both access four bytes, but they test the bounds of eight: at the last aligned word of
  a memory they trap out of bounds, where an atomic load of four bytes at the same address succeeds.\<close>

theorem notify_traps_on_last_word:
  assumes "wasm_env_ok E" "aligned_ok al" "\<And>i. length (memory s i) < 2 ^ 64"
    and "effective_address E mt multi s mod 4 = 0"
    and "effective_address E mt multi s + 4 \<le> length (memory s (mem_number E mt multi s))"
    and "length (memory s (mem_number E mt multi s)) < effective_address E mt multi s + 8"
    and "s = s1\<lparr>code := code s1 + slot_size E\<rparr>" "s = s2\<lparr>code := code s2 + slot_size E + slot_size E\<rparr>"
  shows "s2s_AtomicNotify W E mt multi s1 = Trap kWasmTrapMemOutOfBounds \<and>
    s2s_I32AtomicWait W E mt multi s2 = Trap kWasmTrapMemOutOfBounds \<and>
    (\<exists>s'. s2s_AtomicLoad TYPE(32) TYPE(32) al E mt multi s = Next s')"
proof -
  note X = wait_access(1) [OF assms(1,3), of mt multi]
  have "s2s_AtomicNotify W E mt multi s1 = Trap kWasmTrapMemOutOfBounds"
    using X assms(4,6) by (simp add: s2s_AtomicNotify_def pop_operand assms(7))
  moreover have "s2s_I32AtomicWait W E mt multi s2 = Trap kWasmTrapMemOutOfBounds"
    using X assms(4,6) by (simp add: s2s_I32AtomicWait_def pop_operand assms(8))
  moreover have "access_width LENGTH(32)" by (simp add: access_width_def)
  note atomic_load [OF assms(1,2) this assms(3), of "TYPE(32)" "TYPE(32)" mt multi]
  ultimately show ?thesis using assms(4,5) by (simp add: atomic_at_def wasm_atomic_def)
qed

theorem notify_traps_on_last_word_witness:
  "s2s_AtomicNotify \<lparr>AllowsAtomicsWait = True, AtomicNotify = (\<lambda>_ _ _. 0), I32AtomicWait = (\<lambda>_ _ _ _ ms. (0, ms)), I64AtomicWait = (\<lambda>_ _ _ _ ms. (0, ms))\<rparr>
     sample_env Mem32 False sample_state = Trap kWasmTrapMemOutOfBounds"
  using notify_traps_on_last_word [OF sample_ok(1,2,3), of Mem32 False sample_state sample_state] sample_ok(4,5)
  by (simp add: sample_state_def)

end
