(* ===== verification/Wasm_Simd.thy ===== *)
theory Wasm_Simd
  imports Wasm_Atomics
begin

unbundle bit_operations_syntax

text \<open>
  The vector handlers of \<^verbatim>\<open>v8/src/wasm/interpreter/wasm-interpreter.cc\<close>. A \<^verbatim>\<open>Simd128\<close> is a 128-bit word; the
  array of lanes a handler works on (\<^verbatim>\<open>to_i8x16()\<close> and so on) is the list of its \<open>'b\<close> words, lane 0 in the low bits, so
  \<^verbatim>\<open>LANE(i, type)\<close> is \<open>i\<close> as on a little-endian target. The macros that take a C++ expression are
  definitions that take the function of the expression; \<open>None\<close> is an expression whose value C++ leaves undefined.

  The theorems: the integer instructions compute the lane functions of the WebAssembly
  specification, except that the extended multiplication repeats the product of one lane and that the absolute value of the
  least integer is undefined at 32 and 64 bits; the accesses to memory trap exactly outside the memory and move exactly their bytes.
\<close>

subsection \<open>Lanes\<close>

type_synonym v128 = "128 word"

definition lane :: "v128 \<Rightarrow> nat \<Rightarrow> 'b::len word" where
  "lane v i = ucast (drop_bit (i * LENGTH('b)) v)"

definition lane_count :: "'b::len itself \<Rightarrow> nat" where
  "lane_count T = 128 div LENGTH('b)"

definition to_lanes :: "v128 \<Rightarrow> 'b::len word list" where
  "to_lanes v = map (lane v) [0..<lane_count TYPE('b)]"

definition of_lanes :: "'b::len word list \<Rightarrow> v128" where
  "of_lanes xs = foldr (\<lambda>x v. ucast x OR push_bit LENGTH('b) v) xs 0"

text \<open>The lane widths of the instructions.\<close>

definition lane_width :: "nat \<Rightarrow> bool" where
  "lane_width w \<longleftrightarrow> w = 8 \<or> w = 16 \<or> w = 32 \<or> w = 64"

lemma bit_of_lanes:
  fixes xs :: "'b::len word list"
  shows "bit (of_lanes xs) n \<longleftrightarrow> n < 128 \<and> n div LENGTH('b) < length xs \<and> bit (xs ! (n div LENGTH('b))) (n mod LENGTH('b))"
proof (induction xs arbitrary: n)
  case (Cons x xs)
  have "bit (of_lanes (x # xs)) n \<longleftrightarrow> n < 128 \<and> (bit x n \<or> LENGTH('b) \<le> n \<and> bit (of_lanes xs) (n - LENGTH('b)))"
    by (auto simp: of_lanes_def bit_simps)
  also have "\<dots> \<longleftrightarrow> n < 128 \<and> n div LENGTH('b) < length (x # xs) \<and> bit ((x # xs) ! (n div LENGTH('b))) (n mod LENGTH('b))"
  proof (cases "n < LENGTH('b)")
    case False
    then have "n div LENGTH('b) = Suc ((n - LENGTH('b)) div LENGTH('b))" "n mod LENGTH('b) = (n - LENGTH('b)) mod LENGTH('b)"
      by (simp_all add: le_div_geq le_mod_geq)
    with False show ?thesis by (auto simp: Cons dest: bit_imp_le_length)
  qed auto
  finally show ?case .
qed (simp add: of_lanes_def)

lemma length_to_lanes [simp]: "length (to_lanes v :: 'b::len word list) = lane_count TYPE('b)"
  by (simp add: to_lanes_def)

lemma nth_to_lanes [simp]: "i < lane_count TYPE('b) \<Longrightarrow> (to_lanes v :: 'b::len word list) ! i = lane v i"
  by (simp add: to_lanes_def)

lemma lane_width_count:
  assumes "lane_width LENGTH('b::len)"
  shows "lane_count TYPE('b) * LENGTH('b) = 128" "0 < lane_count TYPE('b)"
  using assms by (auto simp: lane_width_def lane_count_def)

lemma to_lanes_of_lanes:
  fixes xs :: "'b::len word list"
  assumes "lane_width LENGTH('b)" "length xs = lane_count TYPE('b)"
  shows "to_lanes (of_lanes xs) = xs"
proof (rule nth_equalityI)
  fix i assume "i < length (to_lanes (of_lanes xs) :: 'b word list)"
  then have i: "i < lane_count TYPE('b)" by simp
  have "i * LENGTH('b) + m < 128" if "m < LENGTH('b)" for m
  proof -
    have "i * LENGTH('b) + m < Suc i * LENGTH('b)" using that by simp
    also have "\<dots> \<le> lane_count TYPE('b) * LENGTH('b)" by (intro mult_le_mono1) (use i in simp)
    finally show ?thesis by (simp add: lane_width_count [OF assms(1)])
  qed
  then have "lane (of_lanes xs) i = xs ! i"
    by (intro bit_word_eqI) (use i assms(2) in \<open>simp add: lane_def bit_simps bit_of_lanes\<close>)
  then show "to_lanes (of_lanes xs) ! i = xs ! i" using i by simp
qed (simp add: assms(2))

lemma of_lanes_to_lanes:
  assumes "lane_width LENGTH('b::len)"
  shows "of_lanes (to_lanes v :: 'b word list) = v"
proof (rule bit_word_eqI)
  fix n assume "n < LENGTH(128)"
  then have n: "n < 128" by simp
  then have "n div LENGTH('b) < lane_count TYPE('b)"
    using assms by (auto simp: lane_width_def lane_count_def less_mult_imp_div_less)
  with n show "bit (of_lanes (to_lanes v :: 'b word list)) n \<longleftrightarrow> bit v n"
    by (simp add: bit_of_lanes lane_def bit_simps)
qed

subsection \<open>Lane expressions\<close>

text \<open>
  The helpers of the base and utility libraries the expressions call, over the integers: the first argument is the width of the
  result type, the second tells whether it is signed.
\<close>

record simd_lib =
  SaturateAdd :: "nat \<Rightarrow> bool \<Rightarrow> int \<Rightarrow> int \<Rightarrow> int"
  SaturateSub :: "nat \<Rightarrow> bool \<Rightarrow> int \<Rightarrow> int \<Rightarrow> int"
  RoundingAverageUnsigned :: "nat \<Rightarrow> int \<Rightarrow> int \<Rightarrow> int"
  SaturateRoundingQMul :: "nat \<Rightarrow> int \<Rightarrow> int \<Rightarrow> int"
  CountPopulation :: "nat \<Rightarrow> int \<Rightarrow> int"
  saturated_cast :: "nat \<Rightarrow> bool \<Rightarrow> int \<Rightarrow> int"
  MultiplyLong :: "nat \<Rightarrow> bool \<Rightarrow> int \<Rightarrow> int \<Rightarrow> int"
  AddLong :: "nat \<Rightarrow> bool \<Rightarrow> int \<Rightarrow> int \<Rightarrow> int"

text \<open>The value of a lane read at a signed or an unsigned type.\<close>

definition int_value :: "bool \<Rightarrow> 'b::len word \<Rightarrow> int" where
  "int_value sg v = (if sg then sint v else uint v)"

text \<open>The result of an \<^verbatim>\<open>int\<close> operation, undefined when it overflows.\<close>

definition cpp_int :: "int \<Rightarrow> int option" where
  "cpp_int x = (if - (2 ^ 31) \<le> x \<and> x < 2 ^ 31 then Some x else None)"

text \<open>
  \<^verbatim>\<open>std::abs\<close> takes an \<^verbatim>\<open>int\<close>, to which narrower lanes are promoted; at 32 and 64 bits the result for the least
  integer is not representable.
\<close>

definition cpp_abs :: "'b::len word \<Rightarrow> 'b word option" where
  "cpp_abs a = (if 32 \<le> LENGTH('b) \<and> a = int_min then None else Some (word_of_int \<bar>sint a\<bar>))"

datatype vbinop =
    VAdd | VSub | VMul | VMinS | VMinU | VMaxS | VMaxU | VAnd | VOr | VXor | VAndNot
  | VAddSatS | VAddSatU | VSubSatS | VSubSatU | VRoundingAverageU | VQ15MulRSatS

fun vbinop_expr :: "simd_lib \<Rightarrow> vbinop \<Rightarrow> 'b::len word \<Rightarrow> 'b word \<Rightarrow> 'b word" where
  "vbinop_expr L VAdd a b = a + b"
| "vbinop_expr L VSub a b = a - b"
| "vbinop_expr L VMul a b = a * b"
| "vbinop_expr L VMinS a b = (if word_sless a b then a else b)"
| "vbinop_expr L VMinU a b = (if a < b then a else b)"
| "vbinop_expr L VMaxS a b = (if word_sless b a then a else b)"
| "vbinop_expr L VMaxU a b = (if a > b then a else b)"
| "vbinop_expr L VAnd a b = a AND b"
| "vbinop_expr L VOr a b = a OR b"
| "vbinop_expr L VXor a b = a XOR b"
| "vbinop_expr L VAndNot a b = a AND NOT b"
| "vbinop_expr L VAddSatS a b = word_of_int (SaturateAdd L LENGTH('b) True (sint a) (sint b))"
| "vbinop_expr L VAddSatU a b = word_of_int (SaturateAdd L LENGTH('b) False (uint a) (uint b))"
| "vbinop_expr L VSubSatS a b = word_of_int (SaturateSub L LENGTH('b) True (sint a) (sint b))"
| "vbinop_expr L VSubSatU a b = word_of_int (SaturateSub L LENGTH('b) False (uint a) (uint b))"
| "vbinop_expr L VRoundingAverageU a b = word_of_int (RoundingAverageUnsigned L LENGTH('b) (uint a) (uint b))"
| "vbinop_expr L VQ15MulRSatS a b = word_of_int (SaturateRoundingQMul L LENGTH('b) (sint a) (sint b))"

datatype vunop = VNeg | VAbs | VNot | VPopcnt

fun vunop_expr :: "simd_lib \<Rightarrow> vunop \<Rightarrow> 'b::len word \<Rightarrow> 'b word option" where
  "vunop_expr L VNeg a = Some (- a)"
| "vunop_expr L VAbs a = cpp_abs a"
| "vunop_expr L VNot a = Some (NOT a)"
| "vunop_expr L VPopcnt a = Some (word_of_int (CountPopulation L LENGTH('b) (uint a)))"

text \<open>The count is reduced modulo the lane's width, so no shift is undefined.\<close>

datatype vshift = VShl | VShrS | VShrU

fun vshift_expr :: "vshift \<Rightarrow> u32 \<Rightarrow> 'b::len word \<Rightarrow> 'b word" where
  "vshift_expr VShl shift a = push_bit (unat shift mod LENGTH('b)) a"
| "vshift_expr VShrS shift a = signed_drop_bit (unat shift mod LENGTH('b)) a"
| "vshift_expr VShrU shift a = drop_bit (unat shift mod LENGTH('b)) a"

text \<open>The comparisons of the lanes, signed or cast to the unsigned type, are those of the scalar instructions.\<close>

definition vcmp_expr :: "relop \<Rightarrow> 'b::len word \<Rightarrow> 'b word \<Rightarrow> bool" where
  "vcmp_expr rel a b = exec_relop rel a b"

subsection \<open>Handlers on vectors\<close>

definition s2s_SimdSplat :: "'a::len itself \<Rightarrow> 'b::len itself \<Rightarrow> wasm_env \<Rightarrow> interp \<Rightarrow> interp step" where
  "s2s_SimdSplat T U E s =
     (let (v, s) = pop E s; r = map (\<lambda>i. ucast (v :: 'a word) :: 'b word) [0..<lane_count U] in Next (push E (of_lanes r) s))"

text \<open>An element of the array of lanes, undefined outside it.\<close>

definition lane_at :: "'b::len word list \<Rightarrow> nat \<Rightarrow> 'b word step" where
  "lane_at xs i = (if i < length xs then Next (xs ! i) else Undefined)"

definition s2s_SimdExtractLane :: "'b::len itself \<Rightarrow> wasm_env \<Rightarrow> interp \<Rightarrow> interp step" where
  "s2s_SimdExtractLane U E s =
     (let (l, s) = Read 2 s; (v, s) = pop E s; ss = (to_lanes v :: 'b word list)
      in bind_step (lane_at ss l) (\<lambda>x. Next (push E x s)))"

definition s2s_SimdExtractLaneExtend :: "'b::len itself \<Rightarrow> bool \<Rightarrow> wasm_env \<Rightarrow> interp \<Rightarrow> interp step" where
  "s2s_SimdExtractLaneExtend U sg E s =
     (let (l, s) = Read 2 s; (v, s) = pop E s; ss = (to_lanes v :: 'b word list)
      in bind_step (lane_at ss l) (\<lambda>x. Next (push E (convert sg x :: u32) s)))"

definition s2s_SimdReplaceLane :: "'a::len itself \<Rightarrow> 'b::len itself \<Rightarrow> wasm_env \<Rightarrow> interp \<Rightarrow> interp step" where
  "s2s_SimdReplaceLane T U E s =
     (let (l, s) = Read 2 s; (new_val, s) = pop E s; (v, s) = pop E s; ss = (to_lanes v :: 'b word list)
      in if l < length ss then Next (push E (of_lanes (ss[l := ucast (new_val :: 'a word)])) s) else Undefined)"

definition s2s_SimdBinop :: "('b::len word \<Rightarrow> 'b word \<Rightarrow> 'b word) \<Rightarrow> wasm_env \<Rightarrow> interp \<Rightarrow> interp step" where
  "s2s_SimdBinop expr E s =
     (let (v2, s) = pop E s; s2 = to_lanes v2; (v1, s) = pop E s; s1 = to_lanes v1;
          r = map (\<lambda>i. expr (s1 ! i) (s2 ! i)) [0..<lane_count TYPE('b)]
      in Next (push E (of_lanes r) s))"

definition s2s_SimdUnop :: "('b::len word \<Rightarrow> 'b word option) \<Rightarrow> wasm_env \<Rightarrow> interp \<Rightarrow> interp step" where
  "s2s_SimdUnop expr E s =
     (let (v, s) = pop E s; ss = to_lanes v;
          r = those (map (\<lambda>i. expr (ss ! i)) [0..<lane_count TYPE('b)])
      in bind_step (of_option r) (\<lambda>r. Next (push E (of_lanes r) s)))"

definition s2s_SimdBitMask :: "'b::len itself \<Rightarrow> wasm_env \<Rightarrow> interp \<Rightarrow> interp step" where
  "s2s_SimdBitMask U E s =
     (let (v, s) = pop E s; ss = (to_lanes v :: 'b word list);
          r = foldl (\<lambda>r i. r OR push_bit i (of_bool (sint (ss ! i) < 0))) 0 [0..<lane_count U]
      in Next (push E (r :: u32) s))"

definition s2s_SimdCmpop :: "('b::len word \<Rightarrow> 'b word \<Rightarrow> bool) \<Rightarrow> wasm_env \<Rightarrow> interp \<Rightarrow> interp step" where
  "s2s_SimdCmpop expr E s =
     (let (v2, s) = pop E s; s2 = to_lanes v2; (v1, s) = pop E s; s1 = to_lanes v1;
          r = map (\<lambda>i. if expr (s1 ! i) (s2 ! i) then - 1 else 0 :: 'b word) [0..<lane_count TYPE('b)]
      in Next (push E (of_lanes r) s))"

definition s2s_SimdShift :: "(u32 \<Rightarrow> 'b::len word \<Rightarrow> 'b word) \<Rightarrow> wasm_env \<Rightarrow> interp \<Rightarrow> interp step" where
  "s2s_SimdShift expr E s =
     (let (shift, s) = pop E s; (v, s) = pop E s; ss = to_lanes v;
          r = map (\<lambda>i. expr shift (ss ! i)) [0..<lane_count TYPE('b)]
      in Next (push E (of_lanes r) s))"

text \<open>Every lane of the result is the product of the lanes \<^verbatim>\<open>start\<close>, as in the source.\<close>

definition s2s_DoSimdExtMul :: "'n::len itself \<Rightarrow> 'w::len itself \<Rightarrow> simd_lib \<Rightarrow> bool \<Rightarrow> nat \<Rightarrow> wasm_env \<Rightarrow> interp \<Rightarrow> interp step" where
  "s2s_DoSimdExtMul N W L sg start E s =
     (let (v2, s) = pop E s; s2 = (to_lanes v2 :: 'n word list); (v1, s) = pop E s; s1 = (to_lanes v1 :: 'n word list);
          r = map (\<lambda>i. word_of_int (MultiplyLong L LENGTH('w) sg (int_value sg (s1 ! start)) (int_value sg (s2 ! start))) :: 'w word)
                [start..<start + lane_count W]
      in Next (push E (of_lanes r) s))"

text \<open>\<^verbatim>\<open>CONVERT_CASE\<close>: the lanes from \<^verbatim>\<open>count\<close> on keep the zero the array is initialised with.\<close>

definition s2s_SimdConvert :: "('n::len word \<Rightarrow> 'w::len word) \<Rightarrow> nat \<Rightarrow> nat \<Rightarrow> wasm_env \<Rightarrow> interp \<Rightarrow> interp step" where
  "s2s_SimdConvert expr count start_index E s =
     (let (v, s) = pop E s; ss = (to_lanes v :: 'n word list);
          r = foldl (\<lambda>r i. r[i := expr (ss ! (start_index + i))]) (replicate (lane_count TYPE('w)) 0) [0..<count]
      in Next (push E (of_lanes r) s))"

definition s2s_SimdPack :: "'n::len itself \<Rightarrow> 'w::len itself \<Rightarrow> simd_lib \<Rightarrow> bool \<Rightarrow> wasm_env \<Rightarrow> interp \<Rightarrow> interp step" where
  "s2s_SimdPack N W L sg E s =
     (let count = lane_count N;
          (v2, s) = pop E s; s2 = (to_lanes v2 :: 'w word list); (v1, s) = pop E s; s1 = (to_lanes v1 :: 'w word list);
          r = map (\<lambda>i. let v = sint (if i < count div 2 then s1 ! i else s2 ! (i - count div 2))
                     in word_of_int (saturated_cast L LENGTH('n) sg v) :: 'n word) [0..<count]
      in Next (push E (of_lanes r) s))"

definition s2s_DoSimdSelect :: "wasm_env \<Rightarrow> interp \<Rightarrow> interp step" where
  "s2s_DoSimdSelect E s =
     (let (b, s) = pop E s; bool_val = (to_lanes b :: u32 list); (w2, s) = pop E s; v2 = to_lanes w2; (w1, s) = pop E s; v1 = to_lanes w1;
          r = map (\<lambda>i. v2 ! i XOR ((v1 ! i XOR v2 ! i) AND bool_val ! i)) [0..<4]
      in Next (push E (of_lanes r) s))"

text \<open>The products and sums of the dot products are \<^verbatim>\<open>int\<close> operations.\<close>

definition lane_product :: "'b::len word list \<Rightarrow> 'b word list \<Rightarrow> nat \<Rightarrow> int option" where
  "lane_product v1 v2 i = cpp_int (sint (v1 ! i) * sint (v2 ! i))"

definition s2s_SimdI32x4DotI16x8S :: "wasm_env \<Rightarrow> interp \<Rightarrow> interp step" where
  "s2s_SimdI32x4DotI16x8S E s =
     (let (w2, s) = pop E s; v2 = (to_lanes w2 :: u16 list); (w1, s) = pop E s; v1 = to_lanes w1;
          r = those (map (\<lambda>i. Option.bind (lane_product v1 v2 (i * 2)) (\<lambda>lo. Option.bind (lane_product v1 v2 (i * 2 + 1)) (\<lambda>hi.
                Some (word_of_int lo + word_of_int hi :: u32)))) [0..<4])
      in bind_step (of_option r) (\<lambda>r. Next (push E (of_lanes r) s)))"

definition s2s_SimdI16x8DotI8x16I7x16S :: "wasm_env \<Rightarrow> interp \<Rightarrow> interp step" where
  "s2s_SimdI16x8DotI8x16I7x16S E s =
     (let (w2, s) = pop E s; v2 = (to_lanes w2 :: u8 list); (w1, s) = pop E s; v1 = to_lanes w1;
          r = those (map (\<lambda>i. Option.bind (lane_product v1 v2 (i * 2)) (\<lambda>lo. Option.bind (lane_product v1 v2 (i * 2 + 1)) (\<lambda>hi.
                Some (word_of_int lo + word_of_int hi :: u16)))) [0..<8])
      in bind_step (of_option r) (\<lambda>r. Next (push E (of_lanes r) s)))"

definition s2s_SimdI32x4DotI8x16I7x16AddS :: "wasm_env \<Rightarrow> interp \<Rightarrow> interp step" where
  "s2s_SimdI32x4DotI8x16I7x16AddS E s =
     (let (w3, s) = pop E s; v3 = (to_lanes w3 :: u32 list); (w2, s) = pop E s; v2 = (to_lanes w2 :: u8 list);
          (w1, s) = pop E s; v1 = to_lanes w1;
          r = those (map (\<lambda>i.
                Option.bind (lane_product v1 v2 (i * 4)) (\<lambda>a. Option.bind (lane_product v1 v2 (i * 4 + 1)) (\<lambda>b.
                Option.bind (lane_product v1 v2 (i * 4 + 2)) (\<lambda>c. Option.bind (lane_product v1 v2 (i * 4 + 3)) (\<lambda>d.
                Option.bind (cpp_int (a + b)) (\<lambda>ab. Option.bind (cpp_int (ab + c)) (\<lambda>abc. Option.bind (cpp_int (abc + d)) (\<lambda>sum.
                Some (word_of_int sum + v3 ! i))))))))) [0..<4])
      in bind_step (of_option r) (\<lambda>r. Next (push E (of_lanes r) s)))"

definition s2s_SimdI8x16Swizzle :: "wasm_env \<Rightarrow> interp \<Rightarrow> interp step" where
  "s2s_SimdI8x16Swizzle E s =
     (let (w2, s) = pop E s; v2 = (to_lanes w2 :: u8 list); (w1, s) = pop E s; v1 = to_lanes w1;
          r = map (\<lambda>i. let l = sint (v2 ! i) in if l < 16 \<and> l \<ge> 0 then v1 ! nat l else (0 :: u8)) [0..<16]
      in Next (push E (of_lanes r) s))"

definition s2s_SimdI8x16Shuffle :: "wasm_env \<Rightarrow> interp \<Rightarrow> interp step" where
  "s2s_SimdI8x16Shuffle E s =
     (let (w, s) = pop E s; val = (to_lanes w :: u8 list); (w2, s) = pop E s; v2 = (to_lanes w2 :: u8 list);
          (w1, s) = pop E s; v1 = to_lanes w1;
          r = those (map (\<lambda>i. let l = sint (val ! i) in
                if l < 16 then (if 0 \<le> l then Some (v1 ! nat l) else None)
                else if l - 16 < 16 then Some (v2 ! nat (l - 16)) else None) [0..<16])
      in bind_step (of_option r) (\<lambda>r. Next (push E (of_lanes r) s)))"

definition s2s_SimdV128AnyTrue :: "wasm_env \<Rightarrow> interp \<Rightarrow> interp step" where
  "s2s_SimdV128AnyTrue E s =
     (let (v, s) = pop E s; ss = (to_lanes v :: u32 list); r = (ss ! 0 OR ss ! 1 OR ss ! 2 OR ss ! 3) \<noteq> 0
      in Next (push E (of_bool r :: u32) s))"

definition s2s_SimdAllTrue :: "'b::len itself \<Rightarrow> wasm_env \<Rightarrow> interp \<Rightarrow> interp step" where
  "s2s_SimdAllTrue U E s =
     (let (v, s) = pop E s; ss = (to_lanes v :: 'b word list); r = foldl (\<lambda>r i. r \<and> ss ! i \<noteq> 0) True [0..<lane_count U]
      in Next (push E (of_bool r :: u32) s))"

definition s2s_DoSimdExtAddPairwise :: "'n::len itself \<Rightarrow> 'w::len itself \<Rightarrow> simd_lib \<Rightarrow> bool \<Rightarrow> wasm_env \<Rightarrow> interp \<Rightarrow> interp step" where
  "s2s_DoSimdExtAddPairwise N W L sg E s =
     (let (w, s) = pop E s; v = (to_lanes w :: 'n word list);
          r = map (\<lambda>i. word_of_int (AddLong L LENGTH('w) sg (int_value sg (v ! (i * 2))) (int_value sg (v ! (i * 2 + 1)))) :: 'w word)
                [0..<lane_count W]
      in Next (push E (of_lanes r) s))"

subsection \<open>Handlers on memory\<close>

text \<open>The lines every access has: the immediates, the index, the effective address and the test of its bounds with the size \<open>n\<close>.\<close>

definition simd_access :: "nat \<Rightarrow> wasm_env \<Rightarrow> mem_type \<Rightarrow> bool \<Rightarrow> interp \<Rightarrow> (nat \<times> u64 \<times> interp) step" where
  "simd_access n E mt multi s =
     (let (offset, s) = read_offset E mt s; (mi, s) = ReadMemoryIndex multi s;
          (index, s) = pop_index E mt s; effective = wide_sum offset index
      in if out_of_bounds E effective index n (memory s mi) then Trap kWasmTrapMemOutOfBounds else Next (mi, effective, s))"

definition s2s_SimdS128LoadMemI :: "wasm_env \<Rightarrow> mem_type \<Rightarrow> bool \<Rightarrow> interp \<Rightarrow> interp step" where
  "s2s_SimdS128LoadMemI E mt multi s =
     bind_step (simd_access 16 E mt multi s) (\<lambda>(mi, e, s). Next (push E (mem_read (memory s mi) e :: v128) s))"

definition s2s_SimdS128StoreMemI :: "wasm_env \<Rightarrow> mem_type \<Rightarrow> bool \<Rightarrow> interp \<Rightarrow> interp step" where
  "s2s_SimdS128StoreMemI E mt multi s =
     (let (val, s) = pop E s in bind_step (simd_access 16 E mt multi s) (\<lambda>(mi, e, s).
        Next (s\<lparr>memory := (memory s)(mi := mem_write (memory s mi) e (val :: v128))\<rparr>)))"

definition s2s_DoSimdLoadSplat :: "'b::len itself \<Rightarrow> wasm_env \<Rightarrow> mem_type \<Rightarrow> bool \<Rightarrow> interp \<Rightarrow> interp step" where
  "s2s_DoSimdLoadSplat U E mt multi s =
     bind_step (simd_access (LENGTH('b) div 8) E mt multi s) (\<lambda>(mi, e, s).
       let v = (mem_read (memory s mi) e :: 'b word); r = map (\<lambda>i. v) [0..<lane_count U] in Next (push E (of_lanes r) s))"

definition s2s_DoSimdLoadExtend :: "'n::len itself \<Rightarrow> 'w::len itself \<Rightarrow> bool \<Rightarrow> wasm_env \<Rightarrow> mem_type \<Rightarrow> bool \<Rightarrow> interp \<Rightarrow> interp step" where
  "s2s_DoSimdLoadExtend N W sg E mt multi s =
     bind_step (simd_access 8 E mt multi s) (\<lambda>(mi, e, s).
       let v = (mem_read (memory s mi) e :: u64);
           r = map (\<lambda>i. let el = (ucast (drop_bit (i * LENGTH('n)) v) :: 'n word) in convert sg el :: 'w word) [0..<lane_count W]
       in Next (push E (of_lanes r) s))"

definition s2s_DoSimdLoadZeroExtend :: "'b::len itself \<Rightarrow> wasm_env \<Rightarrow> mem_type \<Rightarrow> bool \<Rightarrow> interp \<Rightarrow> interp step" where
  "s2s_DoSimdLoadZeroExtend U E mt multi s =
     bind_step (simd_access (LENGTH('b) div 8) E mt multi s) (\<lambda>(mi, e, s).
       let v = (mem_read (memory s mi) e :: 'b word); r = (map (\<lambda>i. 0) [0..<lane_count U])[0 := v] in Next (push E (of_lanes r) s))"

definition s2s_DoSimdLoadLane :: "'b::len itself \<Rightarrow> wasm_env \<Rightarrow> mem_type \<Rightarrow> bool \<Rightarrow> interp \<Rightarrow> interp step" where
  "s2s_DoSimdLoadLane U E mt multi s =
     (let (v, s) = pop E s; val = (to_lanes v :: 'b word list) in
      bind_step (simd_access (LENGTH('b) div 8) E mt multi s) (\<lambda>(mi, e, s).
        let loaded = mem_read (memory s mi) e; (l, s) = Read 2 s
        in if l < length val then Next (push E (of_lanes (val[l := loaded])) s) else Undefined))"

definition s2s_DoSimdStoreLane :: "'b::len itself \<Rightarrow> wasm_env \<Rightarrow> mem_type \<Rightarrow> bool \<Rightarrow> interp \<Rightarrow> interp step" where
  "s2s_DoSimdStoreLane U E mt multi s =
     (let (v, s) = pop E s; val = (to_lanes v :: 'b word list) in
      bind_step (simd_access (LENGTH('b) div 8) E mt multi s) (\<lambda>(mi, e, s).
        let (l, s) = Read 2 s
        in bind_step (lane_at val l) (\<lambda>x. Next (s\<lparr>memory := (memory s)(mi := mem_write (memory s mi) e x)\<rparr>))))"

subsection \<open>The lane functions of the specification\<close>

text \<open>Saturation to the range of a type, and the library functions as their documentation states them on arguments in range.\<close>

definition clamp :: "nat \<Rightarrow> bool \<Rightarrow> int \<Rightarrow> int" where
  "clamp w sg x = (let lo = (if sg then - (2 ^ (w - 1)) else 0); hi = (if sg then 2 ^ (w - 1) else 2 ^ w) - 1 in max lo (min hi x))"

definition simd_lib_ok :: "simd_lib \<Rightarrow> bool" where
  "simd_lib_ok L \<longleftrightarrow>
     (\<forall>w sg x y. clamp w sg x = x \<and> clamp w sg y = y \<longrightarrow>
        SaturateAdd L w sg x y = clamp w sg (x + y) \<and> SaturateSub L w sg x y = clamp w sg (x - y) \<and>
        MultiplyLong L (2 * w) sg x y = x * y \<and> AddLong L (2 * w) sg x y = x + y) \<and>
     (\<forall>w x y. clamp w False x = x \<and> clamp w False y = y \<longrightarrow> RoundingAverageUnsigned L w x y = (x + y + 1) div 2) \<and>
     (\<forall>w x y. clamp w True x = x \<and> clamp w True y = y \<longrightarrow>
        SaturateRoundingQMul L w x y = clamp w True ((x * y + 2 ^ (w - 2)) div 2 ^ (w - 1))) \<and>
     (\<forall>w x. clamp w False x = x \<longrightarrow> CountPopulation L w x = int (length (filter (bit x) [0..<w]))) \<and>
     (\<forall>w sg x. clamp 64 True x = x \<longrightarrow> saturated_cast L w sg x = clamp w sg x)"

fun wasm_vbinop :: "vbinop \<Rightarrow> 'b::len word \<Rightarrow> 'b word \<Rightarrow> 'b word" where
  "wasm_vbinop VAdd a b = word_of_int (uint a + uint b)"
| "wasm_vbinop VSub a b = word_of_int (uint a - uint b)"
| "wasm_vbinop VMul a b = word_of_int (uint a * uint b)"
| "wasm_vbinop VMinS a b = word_of_int (min (sint a) (sint b))"
| "wasm_vbinop VMinU a b = word_of_int (min (uint a) (uint b))"
| "wasm_vbinop VMaxS a b = word_of_int (max (sint a) (sint b))"
| "wasm_vbinop VMaxU a b = word_of_int (max (uint a) (uint b))"
| "wasm_vbinop VAnd a b = word_of_int (and (uint a) (uint b))"
| "wasm_vbinop VOr a b = word_of_int (or (uint a) (uint b))"
| "wasm_vbinop VXor a b = word_of_int (xor (uint a) (uint b))"
| "wasm_vbinop VAndNot a b = word_of_int (and (uint a) (not (uint b)))"
| "wasm_vbinop VAddSatS a b = word_of_int (clamp LENGTH('b) True (sint a + sint b))"
| "wasm_vbinop VAddSatU a b = word_of_int (clamp LENGTH('b) False (uint a + uint b))"
| "wasm_vbinop VSubSatS a b = word_of_int (clamp LENGTH('b) True (sint a - sint b))"
| "wasm_vbinop VSubSatU a b = word_of_int (clamp LENGTH('b) False (uint a - uint b))"
| "wasm_vbinop VRoundingAverageU a b = word_of_int ((uint a + uint b + 1) div 2)"
| "wasm_vbinop VQ15MulRSatS a b = word_of_int (clamp LENGTH('b) True ((sint a * sint b + 2 ^ (LENGTH('b) - 2)) div 2 ^ (LENGTH('b) - 1)))"

fun wasm_vunop :: "vunop \<Rightarrow> 'b::len word \<Rightarrow> 'b word" where
  "wasm_vunop VNeg a = word_of_int (- sint a)"
| "wasm_vunop VAbs a = word_of_int \<bar>sint a\<bar>"
| "wasm_vunop VNot a = word_of_int (- sint a - 1)"
| "wasm_vunop VPopcnt a = of_nat (length (filter (bit a) [0..<LENGTH('b)]))"

fun wasm_vshift :: "vshift \<Rightarrow> u32 \<Rightarrow> 'b::len word \<Rightarrow> 'b word" where
  "wasm_vshift VShl n a = word_of_int (uint a * 2 ^ (unat n mod LENGTH('b)))"
| "wasm_vshift VShrS n a = word_of_int (sint a div 2 ^ (unat n mod LENGTH('b)))"
| "wasm_vshift VShrU n a = word_of_int (uint a div 2 ^ (unat n mod LENGTH('b)))"

fun wasm_relop :: "relop \<Rightarrow> 'b::len word \<Rightarrow> 'b word \<Rightarrow> bool" where
  "wasm_relop Eq a b \<longleftrightarrow> uint a = uint b"
| "wasm_relop Ne a b \<longleftrightarrow> uint a \<noteq> uint b"
| "wasm_relop LtU a b \<longleftrightarrow> uint a < uint b"
| "wasm_relop LeU a b \<longleftrightarrow> uint a \<le> uint b"
| "wasm_relop GtU a b \<longleftrightarrow> uint a > uint b"
| "wasm_relop GeU a b \<longleftrightarrow> uint a \<ge> uint b"
| "wasm_relop LtS a b \<longleftrightarrow> sint a < sint b"
| "wasm_relop LeS a b \<longleftrightarrow> sint a \<le> sint b"
| "wasm_relop GtS a b \<longleftrightarrow> sint a > sint b"
| "wasm_relop GeS a b \<longleftrightarrow> sint a \<ge> sint b"

lemma clamp_int_value: "clamp LENGTH('b) sg (int_value sg (a :: 'b::len word)) = int_value sg a"
proof (cases sg)
  case True
  then show ?thesis using sint_ge [of a] sint_lt [of a] by (simp add: clamp_def int_value_def)
next
  case False
  then show ?thesis using unsigned_less [of a, where ?'a = int] by (simp add: clamp_def int_value_def del: unsigned_less)
qed

lemma clamp_sint [simp]: "clamp LENGTH('b) True (sint a) = sint (a :: 'b::len word)"
  using clamp_int_value [where sg = True and a = a] by (simp add: int_value_def)

lemma clamp_uint [simp]: "clamp LENGTH('b) False (uint a) = uint (a :: 'b::len word)"
  using clamp_int_value [where sg = False and a = a] by (simp add: int_value_def)

lemma vbinop_exact:
  fixes a b :: "'b::len word"
  assumes "simd_lib_ok L"
  shows "vbinop_expr L op a b = wasm_vbinop op a b"
proof -
  have an: "word_of_int (and (uint a) (not (uint b))) = a AND NOT b"
    by (rule bit_word_eqI) (auto simp: bit_simps)
  show ?thesis
    using assms
    by (cases op) (simp_all add: word_of_int_ops an word_sless_alt min_def max_def word_less_def not_less simd_lib_ok_def)
qed

lemma vshift_exact: "vshift_expr sh n = wasm_vshift sh n"
  by (rule ext, cases sh) (simp_all add: word_of_int_ops push_bit_eq_mult)

lemma relop_exact: "vcmp_expr rel a b \<longleftrightarrow> wasm_relop rel a b"
  by (cases rel) (simp_all add: vcmp_expr_def word_sless_alt word_sle_eq word_less_def word_le_def word_eq_iff_unsigned [where 'a = int])

lemma vunop_exact:
  fixes a :: "'b::len word"
  assumes "simd_lib_ok L"
  shows "vunop_expr L op a = (if op = VAbs \<and> 32 \<le> LENGTH('b) \<and> a = int_min then None else Some (wasm_vunop op a))"
proof -
  have "NOT a = - a - 1" by (simp add: not_eq_complement)
  moreover have "filter (bit (uint a)) [0..<LENGTH('b)] = filter (bit a) [0..<LENGTH('b)]"
    by (intro filter_cong) (simp_all add: bit_simps)
  ultimately show ?thesis using assms by (cases op) (simp_all add: cpp_abs_def simd_lib_ok_def)
qed

subsection \<open>Results in lanes\<close>

text \<open>The handler finishes, with exactly these lanes in its result slot and nothing else changed.\<close>

definition leaves_lanes :: "wasm_env \<Rightarrow> interp \<Rightarrow> nat \<Rightarrow> 'b::len word list \<Rightarrow> interp step \<Rightarrow> bool" where
  "leaves_lanes E s k xs r \<longleftrightarrow> (\<exists>v. r = Next (to_slot E s k v) \<and> to_lanes v = xs)"

lemma leaves_lanesI:
  fixes xs :: "'b::len word list"
  assumes "lane_width LENGTH('b)" "r = Next (to_slot E s k (of_lanes xs))" "length xs = lane_count TYPE('b)"
  shows "leaves_lanes E s k xs r"
  using assms to_lanes_of_lanes [OF assms(1,3)] by (auto simp: leaves_lanes_def)

text \<open>The lanes determine the vector, so the outcome is unique.\<close>

lemma leaves_lanes_unique:
  fixes xs :: "'b::len word list"
  assumes "lane_width LENGTH('b)" "leaves_lanes E s k xs r" "leaves_lanes E s k xs r'"
  shows "r = r'"
  using assms by (metis leaves_lanes_def of_lanes_to_lanes)

lemma map_nth_lanes:
  "map (\<lambda>i. f (to_lanes v ! i)) [0..<lane_count TYPE('b)] = map f (to_lanes v :: 'b::len word list)"
  "map (\<lambda>i. g (to_lanes v ! i) (to_lanes w ! i)) [0..<lane_count TYPE('b)] = map2 g (to_lanes v :: 'b word list) (to_lanes w :: 'b word list)"
  by (rule nth_equalityI; simp)+

lemma those_Some: "(\<And>x. x \<in> set xs \<Longrightarrow> f x = Some (g x)) \<Longrightarrow> those (map f xs) = Some (map g xs)"
  by (induction xs) auto

lemma those_None: "x \<in> set xs \<Longrightarrow> f x = None \<Longrightarrow> those (map f xs) = None"
  by (induction xs) (auto split: option.split)

lemma to_slot_code:
  "to_slot E (s\<lparr>code := code s + slot_size E\<rparr>) k v = to_slot E s (Suc k) v"
  "to_slot E (s\<lparr>code := code s + slot_size E + slot_size E\<rparr>) k v = to_slot E s (Suc (Suc k)) v"
  "to_slot E (s\<lparr>code := code s + slot_size E + slot_size E + slot_size E\<rparr>) k v = to_slot E s (Suc (Suc (Suc k))) v"
  by (simp_all add: to_slot_def slot_at_def ac_simps)

lemmas lane_simps = pop_operand operand_code push_slot to_slot_code of_option_def numeral_2_eq_2 numeral_3_eq_3 Let_def

lemma binop_lanes:
  fixes f :: "'b::len word \<Rightarrow> 'b word \<Rightarrow> 'b word"
  assumes "lane_width LENGTH('b)"
  shows "leaves_lanes E s 2 (map2 f (to_lanes (operand E s 1)) (to_lanes (operand E s 0))) (s2s_SimdBinop f E s)"
  by (rule leaves_lanesI [OF assms]) (simp_all add: s2s_SimdBinop_def lane_simps map_nth_lanes)

lemma cmpop_lanes:
  fixes f :: "'b::len word \<Rightarrow> 'b word \<Rightarrow> bool"
  assumes "lane_width LENGTH('b)"
  shows "leaves_lanes E s 2 (map2 (\<lambda>a b. if f a b then - 1 else 0 :: 'b word) (to_lanes (operand E s 1)) (to_lanes (operand E s 0))) (s2s_SimdCmpop f E s)"
  by (rule leaves_lanesI [OF assms]) (simp_all add: s2s_SimdCmpop_def lane_simps map_nth_lanes(2) [where g = "\<lambda>a b. if f a b then - 1 else 0"])

lemma shift_lanes:
  fixes f :: "u32 \<Rightarrow> 'b::len word \<Rightarrow> 'b word"
  assumes "lane_width LENGTH('b)"
  shows "leaves_lanes E s 2 (map (f (operand E s 0)) (to_lanes (operand E s 1))) (s2s_SimdShift f E s)"
  by (rule leaves_lanesI [OF assms]) (simp_all add: s2s_SimdShift_def lane_simps map_nth_lanes)

lemma unop_lanes:
  fixes f :: "'b::len word \<Rightarrow> 'b word option" and E :: wasm_env and s :: interp
  assumes "lane_width LENGTH('b)"
  defines "a \<equiv> to_lanes (operand E s 0) :: 'b word list"
  shows "(\<And>x. x \<in> set a \<Longrightarrow> f x = Some (g x)) \<Longrightarrow> leaves_lanes E s 1 (map g a) (s2s_SimdUnop f E s)"
    and "x \<in> set a \<Longrightarrow> f x = None \<Longrightarrow> s2s_SimdUnop f E s = Undefined"
proof -
  have *: "map (\<lambda>i. f (a ! i)) [0..<lane_count TYPE('b)] = map f a" unfolding a_def by (rule map_nth_lanes)
  show "leaves_lanes E s 1 (map g a) (s2s_SimdUnop f E s)" if "\<And>x. x \<in> set a \<Longrightarrow> f x = Some (g x)"
    by (rule leaves_lanesI [OF assms(1)]) (simp_all add: s2s_SimdUnop_def lane_simps a_def [symmetric] * those_Some [OF that], simp add: a_def)
  show "s2s_SimdUnop f E s = Undefined" if "x \<in> set a" "f x = None"
    by (simp add: s2s_SimdUnop_def lane_simps a_def [symmetric] * those_None [where x = x and f = f, OF that])
qed

text \<open>
  C34: The integer vector instructions compute lane by lane. A binary operator, a comparison, a shift or a unary operator at each lane width
  delivers the vector whose lanes are the WebAssembly function of the corresponding lanes of its operands (saturation, rounding, signedness and
  the shift count modulo the width included), and changes nothing else. The one exception is the absolute value at 32 and 64 bits, which
  is undefined as soon as one lane holds the least integer.\<close>

theorem lane_instructions_exact:
  fixes op :: vbinop and uop :: vunop
  assumes "simd_lib_ok L" "lane_width LENGTH('b::len)"
  shows "let a = to_lanes (operand E s 1) :: 'b word list; b = to_lanes (operand E s 0) :: 'b word list
         in leaves_lanes E s 2 (map2 (wasm_vbinop op) a b) (s2s_SimdBinop (vbinop_expr L op :: 'b word \<Rightarrow> _) E s) \<and>
            leaves_lanes E s 2 (map2 (\<lambda>x y. if wasm_relop rel x y then - 1 else 0 :: 'b word) a b) (s2s_SimdCmpop (vcmp_expr rel :: 'b word \<Rightarrow> _) E s) \<and>
            leaves_lanes E s 2 (map (wasm_vshift sh (operand E s 0)) a) (s2s_SimdShift (vshift_expr sh :: _ \<Rightarrow> 'b word \<Rightarrow> _) E s) \<and>
            (if uop = VAbs \<and> 32 \<le> LENGTH('b) \<and> int_min \<in> set b then s2s_SimdUnop (vunop_expr L uop :: 'b word \<Rightarrow> _) E s = Undefined
             else leaves_lanes E s 1 (map (wasm_vunop uop) b) (s2s_SimdUnop (vunop_expr L uop :: 'b word \<Rightarrow> _) E s))"
proof -
  let ?a = "to_lanes (operand E s 1) :: 'b word list" and ?b = "to_lanes (operand E s 0) :: 'b word list"
  have bin: "leaves_lanes E s 2 (map2 (wasm_vbinop op) ?a ?b) (s2s_SimdBinop (vbinop_expr L op :: 'b word \<Rightarrow> _) E s)"
    using binop_lanes [OF assms(2), of E s "vbinop_expr L op"] by (simp only: vbinop_exact [OF assms(1)])
  have cmp: "leaves_lanes E s 2 (map2 (\<lambda>x y. if wasm_relop rel x y then - 1 else 0 :: 'b word) ?a ?b) (s2s_SimdCmpop (vcmp_expr rel :: 'b word \<Rightarrow> _) E s)"
    using cmpop_lanes [OF assms(2), of E s "vcmp_expr rel"] by (simp only: relop_exact)
  have shift: "leaves_lanes E s 2 (map (wasm_vshift sh (operand E s 0)) ?a) (s2s_SimdShift (vshift_expr sh :: _ \<Rightarrow> 'b word \<Rightarrow> _) E s)"
    using shift_lanes [OF assms(2), of E s "vshift_expr sh"] by (simp only: vshift_exact)
  have un: "if uop = VAbs \<and> 32 \<le> LENGTH('b) \<and> int_min \<in> set ?b then s2s_SimdUnop (vunop_expr L uop :: 'b word \<Rightarrow> _) E s = Undefined
      else leaves_lanes E s 1 (map (wasm_vunop uop) ?b) (s2s_SimdUnop (vunop_expr L uop :: 'b word \<Rightarrow> _) E s)"
  proof (cases "uop = VAbs \<and> 32 \<le> LENGTH('b) \<and> int_min \<in> set ?b")
    case True
    then show ?thesis using unop_lanes(2) [OF assms(2), of int_min E s "vunop_expr L uop"] by (simp only: vunop_exact [OF assms(1)]) simp
  next
    case False
    then have "vunop_expr L uop x = Some (wasm_vunop uop x)" if "x \<in> set ?b" for x
      unfolding vunop_exact [OF assms(1)] using that by auto
    from unop_lanes(1) [OF assms(2) this] False show ?thesis by (simp only: if_False)
  qed
  show ?thesis unfolding Let_def by (intro conjI bin cmp shift un)
qed

text \<open>The library functions, and two vectors in the slots of a state.\<close>

definition sample_simd_lib :: simd_lib where
  "sample_simd_lib = \<lparr>SaturateAdd = (\<lambda>w sg x y. clamp w sg (x + y)), SaturateSub = (\<lambda>w sg x y. clamp w sg (x - y)),
     RoundingAverageUnsigned = (\<lambda>w x y. (x + y + 1) div 2),
     SaturateRoundingQMul = (\<lambda>w x y. clamp w True ((x * y + 2 ^ (w - 2)) div 2 ^ (w - 1))),
     CountPopulation = (\<lambda>w x. int (length (filter (bit x) [0..<w]))), saturated_cast = clamp,
     MultiplyLong = (\<lambda>w sg x y. x * y), AddLong = (\<lambda>w sg x y. x + y)\<rparr>"

lemma sample_simd_lib_ok: "simd_lib_ok sample_simd_lib"
  by (simp add: simd_lib_ok_def sample_simd_lib_def)

text \<open>Every operand of the state is the vector with the 32-bit lanes \<open>7\<close>, \<open>2\<^sup>3\<^sup>1\<close>, \<open>0\<close>, \<open>0\<close>.\<close>

definition simd_state :: interp where
  "simd_state = sample_state\<lparr>slots := (\<lambda>i. if i = 0 then 7 else if i = 1 then 0x80000000 else 0)\<rparr>"

lemma simd_state_operand: "operand sample_env simd_state k = (0x8000000000000007 :: v128)"
  by (simp add: operand_def slot_value_def slot_at_def sample_env_def simd_state_def upt_rec)

lemma simd_state_lanes: "(to_lanes (operand sample_env simd_state k) :: u32 list) = [7, int_min, 0, 0]"
  unfolding simd_state_operand by (simp add: to_lanes_def lane_count_def lane_def upt_rec int_min_def)

theorem lane_instructions_exact_witness:
  "leaves_lanes sample_env simd_state 2 [14, 0x80000000, 0, 0 :: u32] (s2s_SimdBinop (vbinop_expr sample_simd_lib VAddSatS :: u32 \<Rightarrow> _) sample_env simd_state) \<and>
   s2s_SimdUnop (vunop_expr sample_simd_lib VAbs :: u32 \<Rightarrow> _) sample_env simd_state = Undefined"
proof -
  have "lane_width LENGTH(32)" by (simp add: lane_width_def)
  note X = lane_instructions_exact [where 'b = 32, OF sample_simd_lib_ok this, of sample_env simd_state VAddSatS Eq VShl VAbs,
      unfolded simd_state_lanes Let_def]
  have m: "(int_min :: u32) = 0x80000000" by (simp add: int_min_def)
  have "wasm_vbinop VAddSatS (int_min :: u32) int_min = int_min"
    using int_min_sint [where 'a = 32] by (simp add: clamp_def) (simp add: m)
  then have "map2 (wasm_vbinop VAddSatS) [7, int_min, 0, 0 :: u32] [7, int_min, 0, 0] = [14, 0x80000000, 0, 0]"
    by (simp add: clamp_def m)
  from X [unfolded this] show ?thesis by simp
qed

subsection \<open>Extended multiplication\<close>

lemma to_slot_vector_inj:
  assumes "to_slot E s k (v :: v128) = to_slot E s k w"
  shows "v = w"
proof (rule bit_word_eqI)
  fix n assume "n < LENGTH(128)"
  then have n: "n < 128" by simp
  let ?o = "slot_at E s k" and ?i = "slot_at E s k + n div 32"
  have "slot_write ?o v (slots s) ?i = slot_write ?o w (slots s) ?i"
    using arg_cong [where f = "\<lambda>t. slots t ?i", OF assms] by (simp add: to_slot_def)
  then have "(ucast (drop_bit (32 * (n div 32)) v) :: u32) = ucast (drop_bit (32 * (n div 32)) w)"
    using n by (simp add: slot_write_def less_mult_imp_div_less)
  then have "bit (ucast (drop_bit (32 * (n div 32)) v) :: u32) (n mod 32) = bit (ucast (drop_bit (32 * (n div 32)) w) :: u32) (n mod 32)"
    by (rule arg_cong)
  then show "bit v n = bit w n" by (simp add: bit_simps)
qed

lemma leaves_lanes_eq:
  assumes "leaves_lanes E s k xs r" "leaves_lanes E s k ys r"
  shows "xs = ys"
  using assms by (auto simp: leaves_lanes_def dest: to_slot_vector_inj)

lemma map_eq_replicate: "map f [m..<m + n] = replicate n c \<longleftrightarrow> (\<forall>i \<in> {m..<m + n}. f i = c)"
proof -
  have "replicate n c = map (\<lambda>_. c) [m..<m + n]" by (simp add: map_replicate_const)
  then show ?thesis by (simp only: map_eq_conv set_upt)
qed

lemma extmul_lanes:
  fixes N :: "'n::len itself" and W :: "'w::len itself"
  assumes "simd_lib_ok L" "lane_width LENGTH('w)" "LENGTH('w) = 2 * LENGTH('n)"
  shows "leaves_lanes E s 2
    (replicate (lane_count W) (word_of_int (int_value sg ((to_lanes (operand E s 1) :: 'n word list) ! start) *
       int_value sg ((to_lanes (operand E s 0) :: 'n word list) ! start)) :: 'w word)) (s2s_DoSimdExtMul N W L sg start E s)"
proof (rule leaves_lanesI [OF assms(2)])
  have "MultiplyLong L LENGTH('w) sg (int_value sg x) (int_value sg y) = int_value sg x * int_value sg y" for x y :: "'n word"
    using assms(1) clamp_int_value [where 'b = 'n and sg = sg] unfolding assms(3) by (simp add: simd_lib_ok_def)
  then show "s2s_DoSimdExtMul N W L sg start E s = Next (to_slot E s 2 (of_lanes
      (replicate (lane_count W) (word_of_int (int_value sg ((to_lanes (operand E s 1) :: 'n word list) ! start) *
       int_value sg ((to_lanes (operand E s 0) :: 'n word list) ! start)) :: 'w word))))"
    by (simp add: s2s_DoSimdExtMul_def lane_simps map_replicate_const)
qed (simp add: lane_count_def)

text \<open>
  C35: The extended multiplications deliver one product in every lane. The loop over the lanes reads lane \<^verbatim>\<open>start\<close> of both operands in each round,
  so all lanes of the result hold the product of that lane, and the result is the specified one, the products of the lanes from \<^verbatim>\<open>start\<close> on, only when
  all these products are equal.\<close>

theorem extended_multiply_repeats_lane:
  fixes N :: "'n::len itself" and W :: "'w::len itself"
  assumes "simd_lib_ok L" "lane_width LENGTH('w)" "LENGTH('w) = 2 * LENGTH('n)"
  shows "let product = (\<lambda>i. word_of_int (int_value sg ((to_lanes (operand E s 1) :: 'n word list) ! i) *
                              int_value sg ((to_lanes (operand E s 0) :: 'n word list) ! i)) :: 'w word)
         in leaves_lanes E s 2 (replicate (lane_count W) (product start)) (s2s_DoSimdExtMul N W L sg start E s) \<and>
            (leaves_lanes E s 2 (map product [start..<start + lane_count W]) (s2s_DoSimdExtMul N W L sg start E s) \<longleftrightarrow>
               (\<forall>i \<in> {start..<start + lane_count W}. product i = product start))"
proof -
  let ?product = "\<lambda>i. word_of_int (int_value sg ((to_lanes (operand E s 1) :: 'n word list) ! i) *
                              int_value sg ((to_lanes (operand E s 0) :: 'n word list) ! i)) :: 'w word"
  let ?r = "s2s_DoSimdExtMul N W L sg start E s" and ?rep = "replicate (lane_count W) (?product start)"
  note lanes = extmul_lanes [OF assms, where E = E and s = s and sg = sg and start = start and N = N and W = W]
  have "leaves_lanes E s 2 (map ?product [start..<start + lane_count W]) ?r \<longleftrightarrow> map ?product [start..<start + lane_count W] = ?rep"
  proof
    assume "leaves_lanes E s 2 (map ?product [start..<start + lane_count W]) ?r"
    from leaves_lanes_eq [OF this lanes] show "map ?product [start..<start + lane_count W] = ?rep" .
  next
    assume *: "map ?product [start..<start + lane_count W] = ?rep"
    show "leaves_lanes E s 2 (map ?product [start..<start + lane_count W]) ?r" unfolding * by (rule lanes)
  qed
  also have "\<dots> \<longleftrightarrow> (\<forall>i \<in> {start..<start + lane_count W}. ?product i = ?product start)"
    by (rule map_eq_replicate)
  finally show ?thesis using lanes by (simp only: Let_def simp_thms)
qed

theorem extended_multiply_repeats_lane_witness:
  "leaves_lanes sample_env simd_state 2 [49, 49, 49, 49 :: u32] (s2s_DoSimdExtMul TYPE(16) TYPE(32) sample_simd_lib False 0 sample_env simd_state) \<and>
   \<not> leaves_lanes sample_env simd_state 2 [49, 0, 0, 0x40000000 :: u32] (s2s_DoSimdExtMul TYPE(16) TYPE(32) sample_simd_lib False 0 sample_env simd_state)"
proof -
  have l: "(to_lanes (operand sample_env simd_state k) :: u16 list) = [7, 0, 0, 0x8000, 0, 0, 0, 0]" for k
    unfolding simd_state_operand by (simp add: to_lanes_def lane_count_def lane_def upt_rec)
  have "lane_width LENGTH(32)" "LENGTH(32) = 2 * LENGTH(16)" by (simp_all add: lane_width_def)
  note X = extended_multiply_repeats_lane [OF sample_simd_lib_ok this, where E = sample_env and s = simd_state and sg = False and start = 0
      and N = "TYPE(16)" and W = "TYPE(32)", unfolded l Let_def]
  let ?p = "\<lambda>i. word_of_int (int_value False ([7, 0, 0, 0x8000, 0, 0, 0, 0 :: u16] ! i) * int_value False ([7, 0, 0, 0x8000, 0, 0, 0, 0 :: u16] ! i)) :: u32"
  have p: "?p 0 = 49" "?p 1 = 0" "?p 2 = 0" "?p 3 = 0x40000000" by (simp_all add: int_value_def)
  have n: "lane_count TYPE(32) = 4" by (simp add: lane_count_def)
  have u: "[0..<0 + 4] = [0, 1, 2, 3 :: nat]" by (simp add: upt_rec)
  have e: "map ?p [0..<0 + 4] = [49, 0, 0, 0x40000000]" "replicate 4 (?p 0) = [49, 49, 49, 49]"
    unfolding p(1) by (simp_all only: u p list.map) (simp add: numeral_eq_Suc)
  have "\<not> (\<forall>i \<in> {0..<0 + 4}. ?p i = ?p 0)" unfolding p using p(2) by (auto intro!: bexI [where x = 1])
  with X [unfolded n e] show ?thesis by blast
qed

subsection \<open>Instructions across lanes\<close>

lemma foldl_update:
  "c \<le> length xs \<Longrightarrow> foldl (\<lambda>r i. r[i := f i]) xs [0..<c] = map f [0..<c] @ drop c xs"
proof (induction c)
  case (Suc c)
  then have "drop c xs = xs ! c # drop (Suc c) xs" by (simp add: Cons_nth_drop_Suc)
  with Suc show ?case by (simp add: list_update_append)
qed simp

lemma convert_lanes:
  fixes expr :: "'n::len word \<Rightarrow> 'w::len word"
  assumes "lane_width LENGTH('w)" "count \<le> lane_count TYPE('w)"
  shows "leaves_lanes E s 1
    (map (\<lambda>i. expr (to_lanes (operand E s 0) ! (start + i))) [0..<count] @ replicate (lane_count TYPE('w) - count) 0) (s2s_SimdConvert expr count start E s)"
  by (rule leaves_lanesI [OF assms(1)])
    (use assms(2) foldl_update [where f = "\<lambda>i. expr (to_lanes (operand E s 0) ! (start + i))" and c = count] in
      \<open>simp_all add: s2s_SimdConvert_def lane_simps\<close>)

lemma convert_value: "(convert sg x :: 'w::len word) = word_of_int (int_value sg x)"
  by (simp add: convert_def int_value_def)

lemma map_append_nth:
  assumes "length xs = m" "length ys = m"
  shows "map (\<lambda>i. f (if i < m then xs ! i else ys ! (i - m))) [0..<2 * m] = map f (xs @ ys)"
  by (rule nth_equalityI) (auto simp: assms nth_append)

lemma clamp_wider:
  assumes "LENGTH('b::len) \<le> 64"
  shows "clamp 64 True (sint (x :: 'b word)) = sint x"
proof -
  have "(2::int) ^ (LENGTH('b) - 1) \<le> 2 ^ 63" by (rule power_increasing) (use assms in simp_all)
  with sint_ge [of x] sint_lt [of x] show ?thesis by (simp add: clamp_def)
qed

lemma pack_lanes:
  fixes N :: "'n::len itself" and W :: "'w::len itself"
  assumes "simd_lib_ok L" "lane_width LENGTH('n)" "lane_width LENGTH('w)" "LENGTH('w) = 2 * LENGTH('n)"
  shows "leaves_lanes E s 2 (map (\<lambda>x. word_of_int (clamp LENGTH('n) sg (sint x)) :: 'n word) (to_lanes (operand E s 1) @ to_lanes (operand E s 0) :: 'w word list))
    (s2s_SimdPack N W L sg E s)"
proof -
  let ?m = "lane_count TYPE('w)" and ?f = "\<lambda>x :: 'w word. word_of_int (clamp LENGTH('n) sg (sint x)) :: 'n word"
  have n: "lane_count N = 2 * ?m" using assms(2-4) by (auto simp: lane_width_def lane_count_def)
  have w: "LENGTH('w) \<le> 64" using assms(3) by (auto simp: lane_width_def)
  have "saturated_cast L LENGTH('n) sg (sint x) = clamp LENGTH('n) sg (sint x)" for x :: "'w word"
    using assms(1) clamp_wider [OF w, of x] by (simp add: simd_lib_ok_def)
  then have "s2s_SimdPack N W L sg E s = Next (to_slot E s (Suc (Suc 0)) (of_lanes (map ?f (to_lanes (operand E s (Suc 0)) @ to_lanes (operand E s 0)))))"
    using map_append_nth [where f = ?f and xs = "to_lanes (operand E s (Suc 0))" and ys = "to_lanes (operand E s 0)" and m = ?m]
    by (simp add: s2s_SimdPack_def lane_simps n cong: if_cong del: map_append numeral_2_eq_2)
  then show ?thesis by (intro leaves_lanesI [OF assms(2)]) (use n in \<open>simp_all add: lane_count_def numeral_2_eq_2\<close>)
qed

lemma pairwise_lanes:
  fixes N :: "'n::len itself" and W :: "'w::len itself"
  assumes "simd_lib_ok L" "lane_width LENGTH('w)" "LENGTH('w) = 2 * LENGTH('n)"
  shows "leaves_lanes E s 1
    (map (\<lambda>i. word_of_int (int_value sg ((to_lanes (operand E s 0) :: 'n word list) ! (2 * i)) + int_value sg ((to_lanes (operand E s 0) :: 'n word list) ! (2 * i + 1))) :: 'w word)
      [0..<lane_count W]) (s2s_DoSimdExtAddPairwise N W L sg E s)"
proof (rule leaves_lanesI [OF assms(2)])
  have "AddLong L LENGTH('w) sg (int_value sg x) (int_value sg y) = int_value sg x + int_value sg y" for x y :: "'n word"
    using assms(1) clamp_int_value [where 'b = 'n and sg = sg] unfolding assms(3) by (simp add: simd_lib_ok_def)
  then show "s2s_DoSimdExtAddPairwise N W L sg E s = Next (to_slot E s 1 (of_lanes
    (map (\<lambda>i. word_of_int (int_value sg ((to_lanes (operand E s 0) :: 'n word list) ! (2 * i)) + int_value sg ((to_lanes (operand E s 0) :: 'n word list) ! (2 * i + 1))) :: 'w word)
      [0..<lane_count W])))"
    by (simp add: s2s_DoSimdExtAddPairwise_def lane_simps ac_simps)
qed (simp add: lane_count_def)

text \<open>The products of 8-bit and 16-bit lanes, and the sums the code forms of them, are ints.\<close>

lemma product_bound: "\<bar>sint (a :: 'b::len word) * sint (b :: 'b word)\<bar> \<le> 2 ^ (LENGTH('b) - 1) * 2 ^ (LENGTH('b) - 1)"
proof -
  have "\<bar>sint x\<bar> \<le> 2 ^ (LENGTH('b) - 1)" for x :: "'b word" using sint_ge [of x] sint_lt [of x] by linarith
  then show ?thesis unfolding abs_mult by (intro mult_mono) simp_all
qed

lemma lane_product_exact:
  "lane_product v w i = Some (sint (v ! i :: u8) * sint (w ! i))"
  "lane_product v' w' i = Some (sint (v' ! i :: u16) * sint (w' ! i))"
  using product_bound [of "v ! i" "w ! i"] product_bound [of "v' ! i" "w' ! i"]
  by (auto simp: lane_product_def cpp_int_def abs_le_iff)

lemma four_products: "cpp_int (sint (a :: u8) * sint (b :: u8) + sint (c :: u8) * sint (d :: u8)) = Some (sint a * sint b + sint c * sint d)"
  "cpp_int (sint (a :: u8) * sint (b :: u8) + sint (c :: u8) * sint (d :: u8) + sint (e :: u8) * sint (f :: u8)) =
     Some (sint a * sint b + sint c * sint d + sint e * sint f)"
  "cpp_int (sint (a :: u8) * sint (b :: u8) + sint (c :: u8) * sint (d :: u8) + sint (e :: u8) * sint (f :: u8) + sint (g :: u8) * sint (h :: u8)) =
     Some (sint a * sint b + sint c * sint d + sint e * sint f + sint g * sint h)"
  using product_bound [of a b] product_bound [of c d] product_bound [of e f] product_bound [of g h]
  by (auto simp: cpp_int_def abs_le_iff)

definition dot :: "'b::len word list \<Rightarrow> 'b word list \<Rightarrow> nat \<Rightarrow> nat \<Rightarrow> int" where
  "dot a b n i = (\<Sum>k<n. sint (a ! (n * i + k)) * sint (b ! (n * i + k)))"

lemma dot4:
  "dot a b 4 i = sint (a ! (i * 4)) * sint (b ! (i * 4)) + sint (a ! (i * 4 + 1)) * sint (b ! (i * 4 + 1)) +
     sint (a ! (i * 4 + 2)) * sint (b ! (i * 4 + 2)) + sint (a ! (i * 4 + 3)) * sint (b ! (i * 4 + 3))"
proof -
  have "{..<4 :: nat} = {0, 1, 2, 3}" by auto
  then show ?thesis by (simp add: dot_def mult.commute [of 4])
qed

lemma dot_lanes:
  "leaves_lanes E s 2 (map (\<lambda>i. word_of_int (dot (to_lanes (operand E s 1) :: u16 list) (to_lanes (operand E s 0)) 2 i) :: u32) [0..<4]) (s2s_SimdI32x4DotI16x8S E s)"
  "leaves_lanes E s 2 (map (\<lambda>i. word_of_int (dot (to_lanes (operand E s 1) :: u8 list) (to_lanes (operand E s 0)) 2 i) :: u16) [0..<8]) (s2s_SimdI16x8DotI8x16I7x16S E s)"
  "leaves_lanes E s 3 (map (\<lambda>i. word_of_int (dot (to_lanes (operand E s 2) :: u8 list) (to_lanes (operand E s 1)) 4 i + sint ((to_lanes (operand E s 0) :: u32 list) ! i)) :: u32) [0..<4])
     (s2s_SimdI32x4DotI8x16I7x16AddS E s)"
proof -
  have w: "lane_width LENGTH(32)" "lane_width LENGTH(16)" by (simp_all add: lane_width_def)
  note those = those_Some [where f = "\<lambda>i. Some (g i)" and g = g for g, OF refl]
  show "leaves_lanes E s 2 (map (\<lambda>i. word_of_int (dot (to_lanes (operand E s 1) :: u16 list) (to_lanes (operand E s 0)) 2 i) :: u32) [0..<4]) (s2s_SimdI32x4DotI16x8S E s)"
    by (rule leaves_lanesI [OF w(1)]) (simp add: s2s_SimdI32x4DotI16x8S_def lane_product_exact those lane_simps dot_def ac_simps, simp add: lane_count_def)
  show "leaves_lanes E s 2 (map (\<lambda>i. word_of_int (dot (to_lanes (operand E s 1) :: u8 list) (to_lanes (operand E s 0)) 2 i) :: u16) [0..<8]) (s2s_SimdI16x8DotI8x16I7x16S E s)"
    by (rule leaves_lanesI [OF w(2)]) (simp add: s2s_SimdI16x8DotI8x16I7x16S_def lane_product_exact those lane_simps dot_def ac_simps, simp add: lane_count_def)
  show "leaves_lanes E s 3 (map (\<lambda>i. word_of_int (dot (to_lanes (operand E s 2) :: u8 list) (to_lanes (operand E s 1)) 4 i + sint ((to_lanes (operand E s 0) :: u32 list) ! i)) :: u32) [0..<4])
     (s2s_SimdI32x4DotI8x16I7x16AddS E s)"
    by (rule leaves_lanesI [OF w(1)])
      (simp add: s2s_SimdI32x4DotI8x16I7x16AddS_def lane_product_exact four_products those dot4 lane_simps, simp add: lane_count_def)
qed

text \<open>
  C36: The instructions that widen, narrow or combine lanes are exact: a conversion extends the low or the high lanes with their sign or with zeros; a narrowing
  saturates the lanes of both operands, the first operand's in the low half; the pairwise additions and the three dot products deliver the exact sums of the exact
  products modulo the width of the result, and no \<^verbatim>\<open>int\<close> operation on the way overflows.\<close>

theorem cross_lane_arithmetic_exact:
  fixes N :: "'n::len itself" and W :: "'w::len itself"
  assumes "simd_lib_ok L" "lane_width LENGTH('n)" "lane_width LENGTH('w)" "LENGTH('w) = 2 * LENGTH('n)"
  shows "let a = to_lanes (operand E s 0) :: 'n word list
         in leaves_lanes E s 1 (map (\<lambda>i. word_of_int (int_value sg (a ! (start + i))) :: 'w word) [0..<lane_count W])
              (s2s_SimdConvert (convert sg :: 'n word \<Rightarrow> 'w word) (lane_count W) start E s) \<and>
            leaves_lanes E s 2 (map (\<lambda>x. word_of_int (clamp LENGTH('n) sg (sint x)) :: 'n word)
                (to_lanes (operand E s 1) @ to_lanes (operand E s 0) :: 'w word list)) (s2s_SimdPack N W L sg E s) \<and>
            leaves_lanes E s 1 (map (\<lambda>i. word_of_int (int_value sg (a ! (2 * i)) + int_value sg (a ! (2 * i + 1))) :: 'w word) [0..<lane_count W])
              (s2s_DoSimdExtAddPairwise N W L sg E s) \<and>
            leaves_lanes E s 2 (map (\<lambda>i. word_of_int (dot (to_lanes (operand E s 1) :: u16 list) (to_lanes (operand E s 0)) 2 i) :: u32) [0..<4])
              (s2s_SimdI32x4DotI16x8S E s) \<and>
            leaves_lanes E s 2 (map (\<lambda>i. word_of_int (dot (to_lanes (operand E s 1) :: u8 list) (to_lanes (operand E s 0)) 2 i) :: u16) [0..<8])
              (s2s_SimdI16x8DotI8x16I7x16S E s) \<and>
            leaves_lanes E s 3 (map (\<lambda>i. word_of_int (dot (to_lanes (operand E s 2) :: u8 list) (to_lanes (operand E s 1)) 4 i +
                sint ((to_lanes (operand E s 0) :: u32 list) ! i)) :: u32) [0..<4]) (s2s_SimdI32x4DotI8x16I7x16AddS E s)"
proof -
  have "lane_count W = lane_count TYPE('w)" by (simp add: lane_count_def)
  then have "leaves_lanes E s 1 (map (\<lambda>i. word_of_int (int_value sg ((to_lanes (operand E s 0) :: 'n word list) ! (start + i))) :: 'w word) [0..<lane_count W])
      (s2s_SimdConvert (convert sg :: 'n word \<Rightarrow> 'w word) (lane_count W) start E s)"
    using convert_lanes [OF assms(3) order_refl, where expr = "convert sg :: 'n word \<Rightarrow> 'w word" and E = E and s = s and start = start] by (simp add: convert_value)
  then show ?thesis
    unfolding Let_def by (intro conjI pack_lanes pairwise_lanes dot_lanes assms)
qed

theorem cross_lane_arithmetic_exact_witness:
  "leaves_lanes sample_env simd_state 2 [7, 0x8000, 0, 0, 7, 0x8000, 0, 0 :: u16] (s2s_SimdPack TYPE(16) TYPE(32) sample_simd_lib True sample_env simd_state)"
proof -
  have "lane_width LENGTH(16)" "lane_width LENGTH(32)" "LENGTH(32) = 2 * LENGTH(16)" by (simp_all add: lane_width_def)
  note X = cross_lane_arithmetic_exact [OF sample_simd_lib_ok this, where E = sample_env and s = simd_state and sg = True and start = 0
      and N = "TYPE(16)" and W = "TYPE(32)", unfolded Let_def simd_state_lanes]
  have "map (\<lambda>x :: u32. word_of_int (clamp LENGTH(16) True (sint x)) :: u16) ([7, int_min, 0, 0] @ [7, int_min, 0, 0]) = [7, 0x8000, 0, 0, 7, 0x8000, 0, 0]"
    using int_min_sint [where 'a = 32] by (simp add: clamp_def)
  from X [unfolded this] show ?thesis by (elim conjE)
qed

subsection \<open>Moves, selections and tests\<close>

lemma u8_value:
  obtains n where "unat (x :: u8) = n" "n < 256" "sint x = (if n < 128 then int n else int n - 256)"
proof -
  define n where "n = unat x"
  have u: "uint x = int n" by (simp add: n_def)
  have b: "- 128 \<le> sint x" "sint x < 128" using sint_ge [of x] sint_lt [of x] by simp_all
  have "int n = sint x mod 256" using uint_word_of_int [where 'a = 8, of "sint x"] u by simp
  also have "\<dots> = (if sint x < 0 then sint x + 256 else sint x)"
  proof (cases "sint x < 0")
    case True
    have "sint x mod 256 = (sint x + 256) mod 256" by simp
    also have "\<dots> = sint x + 256" by (rule mod_pos_pos_trivial) (use True b in simp_all)
    finally show ?thesis using True by simp
  qed (use b in simp)
  finally have "sint x = (if n < 128 then int n else int n - 256)" using b by (auto split: if_splits)
  with that [of n] unat_bound [of x] show thesis by (simp add: n_def)
qed

lemma byte_lanes: "lane_count TYPE(8) = 16" "lane_width LENGTH(8)" "lane_count TYPE(32) = 4" "lane_width LENGTH(32)"
  by (simp_all add: lane_count_def lane_width_def)

lemma swizzle_lanes:
  "leaves_lanes E s 2 (map (\<lambda>x. if unat x < 16 then (to_lanes (operand E s 1) :: u8 list) ! unat x else 0) (to_lanes (operand E s 0) :: u8 list))
     (s2s_SimdI8x16Swizzle E s)"
proof -
  have "(let l = sint x in if l < 16 \<and> l \<ge> 0 then v ! nat l else 0) = (if unat x < 16 then v ! unat x else 0)" for x :: u8 and v :: "u8 list"
  proof -
    obtain n where "unat x = n" "n < 256" "sint x = (if n < 128 then int n else int n - 256)" by (rule u8_value)
    then show ?thesis by (simp add: Let_def)
  qed
  then show ?thesis
    using map_nth_lanes(1) [where 'b = 8 and f = "\<lambda>x. if unat x < 16 then (to_lanes (operand E s (Suc 0)) :: u8 list) ! unat x else 0" and v = "operand E s 0"]
    by (intro leaves_lanesI [OF byte_lanes(2)]) (simp_all add: s2s_SimdI8x16Swizzle_def lane_simps byte_lanes cong: if_cong)
qed

lemma shuffle_lanes:
  fixes E :: wasm_env and s :: interp
  defines "val \<equiv> to_lanes (operand E s 0) :: u8 list" and "v2 \<equiv> to_lanes (operand E s 1) :: u8 list" and "v1 \<equiv> to_lanes (operand E s 2) :: u8 list"
  shows "if \<forall>x \<in> set val. unat x < 32 then leaves_lanes E s 3 (map (\<lambda>x. (v1 @ v2) ! unat x) val) (s2s_SimdI8x16Shuffle E s)
    else s2s_SimdI8x16Shuffle E s = Undefined"
proof -
  let ?f = "\<lambda>x. if unat x < 32 then Some ((v1 @ v2) ! unat x) else None"
  have len: "length val = 16" "length v1 = 16" "length v2 = 16" by (simp_all add: val_def v1_def v2_def byte_lanes)
  have f: "(let l = sint x in if l < 16 then (if 0 \<le> l then Some (v1 ! nat l) else None)
      else if l - 16 < 16 then Some (v2 ! nat (l - 16)) else None) = ?f x" for x :: u8
  proof -
    obtain n where "unat x = n" "n < 256" "sint x = (if n < 128 then int n else int n - 256)" by (rule u8_value)
    then show ?thesis by (simp add: len Let_def nth_append nat_diff_distrib)
  qed
  have vals: "map (\<lambda>i. ?f (val ! i)) [0..<16] = map ?f val" by (rule nth_equalityI) (simp_all add: len)
  have r: "s2s_SimdI8x16Shuffle E s = bind_step (of_option (those (map ?f val))) (\<lambda>r. Next (to_slot E s 3 (of_lanes r)))"
    unfolding vals [symmetric]
    using f by (simp add: s2s_SimdI8x16Shuffle_def pop_operand operand_code push_slot to_slot_code Let_def numeral_3_eq_3
      val_def [symmetric] v2_def [unfolded One_nat_def, symmetric] v1_def [unfolded numeral_2_eq_2, symmetric] cong: if_cong)
  show ?thesis
  proof (cases "\<forall>x \<in> set val. unat x < 32")
    case True
    then have "those (map ?f val) = Some (map (\<lambda>x. (v1 @ v2) ! unat x) val)" by (intro those_Some) simp
    with r True show ?thesis by (auto intro!: leaves_lanesI [OF byte_lanes(2)] simp: of_option_def len byte_lanes)
  next
    case False
    then obtain x where "x \<in> set val" "?f x = None" by auto
    then have "those (map ?f val) = None" by (rule those_None)
    with r False show ?thesis by (auto simp: of_option_def)
  qed
qed

lemma select_vector:
  "s2s_DoSimdSelect E s = Next (to_slot E s 3
     ((operand E s 2 AND operand E s 0) OR (operand E s 1 AND NOT (operand E s 0 :: v128))))"
proof -
  let ?b = "operand E s 0 :: v128" and ?v2 = "operand E s 1 :: v128" and ?v1 = "operand E s 2 :: v128"
  let ?r = "(?v1 AND ?b) OR (?v2 AND NOT ?b)"
  have "lane ?v2 i XOR ((lane ?v1 i XOR lane ?v2 i) AND lane ?b i) = (lane ?r i :: u32)" for i
    by (rule bit_word_eqI) (auto simp: lane_def bit_simps dest: bit_imp_le_length)
  then have "map (\<lambda>i. to_lanes ?v2 ! i XOR ((to_lanes ?v1 ! i XOR to_lanes ?v2 ! i) AND to_lanes ?b ! i)) [0..<4] = (to_lanes ?r :: u32 list)"
    by (simp add: list_eq_iff_nth_eq byte_lanes)
  then show ?thesis
    using of_lanes_to_lanes [OF byte_lanes(4), of ?r] by (simp add: s2s_DoSimdSelect_def lane_simps)
qed

lemma splat_lanes:
  fixes T :: "'a::len itself" and U :: "'b::len itself"
  assumes "lane_width LENGTH('b)"
  shows "leaves_lanes E s 1 (replicate (lane_count U) (ucast (operand E s 0 :: 'a word) :: 'b word)) (s2s_SimdSplat T U E s)"
  by (rule leaves_lanesI [OF assms]) (simp add: s2s_SimdSplat_def lane_simps map_replicate_const, simp add: lane_count_def)

text \<open>The lane number is a two-byte immediate before the operands.\<close>

definition lane_imm :: "interp \<Rightarrow> nat" where
  "lane_imm s = le_nat (map (bytecode s) [code s..<code s + 2])"

lemma Read_lane: "Read 2 s = (lane_imm s, s\<lparr>code := code s + 2\<rparr>)"
  by (simp add: Read_def lane_imm_def)

lemma extract_lanes:
  fixes U :: "'b::len itself" and s :: interp and E :: wasm_env
  assumes "lane_imm s < lane_count U"
  defines "t \<equiv> s\<lparr>code := code s + 2\<rparr>"
  defines "x \<equiv> lane (operand E t 0) (lane_imm s) :: 'b word"
  shows "s2s_SimdExtractLane U E s = Next (to_slot E t 1 x)"
    and "s2s_SimdExtractLaneExtend U sg E s = Next (to_slot E t 1 (word_of_int (int_value sg x) :: u32))"
proof -
  have "lane_imm s < lane_count TYPE('b)" using assms(1) by (simp add: lane_count_def)
  then have *: "lane_at (to_lanes (operand E t 0)) (lane_imm s) = Next x" by (simp add: lane_at_def x_def)
  show "s2s_SimdExtractLane U E s = Next (to_slot E t 1 x)"
    and "s2s_SimdExtractLaneExtend U sg E s = Next (to_slot E t 1 (word_of_int (int_value sg x) :: u32))"
    unfolding s2s_SimdExtractLane_def s2s_SimdExtractLaneExtend_def Read_lane t_def [symmetric]
    using * by (simp_all add: lane_simps convert_value)
qed

lemma replace_lanes:
  fixes T :: "'a::len itself" and U :: "'b::len itself" and s :: interp and E :: wasm_env
  assumes "lane_width LENGTH('b)" "lane_imm s < lane_count U"
  defines "t \<equiv> s\<lparr>code := code s + 2\<rparr>"
  shows "leaves_lanes E t 2 ((to_lanes (operand E t 1))[lane_imm s := ucast (operand E t 0 :: 'a word) :: 'b word]) (s2s_SimdReplaceLane T U E s)"
proof (rule leaves_lanesI [OF assms(1)])
  have "lane_imm s < lane_count TYPE('b)" using assms(2) by (simp add: lane_count_def)
  then show "s2s_SimdReplaceLane T U E s = Next (to_slot E t 2 (of_lanes ((to_lanes (operand E t 1))[lane_imm s := ucast (operand E t 0 :: 'a word) :: 'b word])))"
    unfolding s2s_SimdReplaceLane_def Read_lane t_def [symmetric] by (simp add: lane_simps)
qed simp

text \<open>The tests: the mask has bit \<open>i\<close> exactly where lane \<open>i\<close> is negative.\<close>

lemma bitmask_bits:
  fixes U :: "'b::len itself"
  assumes "lane_width LENGTH('b)"
  shows "\<exists>r. s2s_SimdBitMask U E s = Next (to_slot E s 1 (r :: u32)) \<and>
    (\<forall>i. bit r i \<longleftrightarrow> i < lane_count U \<and> sint (lane (operand E s 0) i :: 'b word) < 0)"
proof -
  let ?n = "lane_count TYPE('b)" and ?v = "to_lanes (operand E s 0) :: 'b word list"
  let ?r = "\<lambda>n. foldl (\<lambda>r i. r OR push_bit i (of_bool (sint (?v ! i) < 0))) 0 [0..<n] :: u32"
  have "bit (?r n) i \<longleftrightarrow> i < n \<and> sint (?v ! i) < 0" if "n \<le> 32" for n i
    using that by (induction n) (auto simp: bit_simps less_Suc_eq)
  moreover have "?n \<le> 32" "lane_count U = ?n" using assms by (auto simp: lane_width_def lane_count_def)
  ultimately show ?thesis
    by (intro exI [of _ "?r ?n"]) (auto simp: s2s_SimdBitMask_def lane_simps)
qed

lemma all_any_true:
  fixes U :: "'b::len itself"
  shows "s2s_SimdAllTrue U E s = Next (to_slot E s 1 (of_bool (0 \<notin> set (to_lanes (operand E s 0) :: 'b word list)) :: u32))"
    and "s2s_SimdV128AnyTrue E s = Next (to_slot E s 1 (of_bool (operand E s 0 \<noteq> (0 :: v128)) :: u32))"
proof -
  let ?v = "to_lanes (operand E s 0) :: 'b word list"
  have "foldl (\<lambda>r i. r \<and> ?v ! i \<noteq> 0) True [0..<n] \<longleftrightarrow> (\<forall>i < n. ?v ! i \<noteq> 0)" for n
    by (induction n) (auto simp: less_Suc_eq)
  moreover have "(\<forall>i < lane_count U. ?v ! i \<noteq> 0) \<longleftrightarrow> 0 \<notin> set ?v"
    by (auto simp: in_set_conv_nth lane_count_def)
  ultimately show "s2s_SimdAllTrue U E s = Next (to_slot E s 1 (of_bool (0 \<notin> set ?v) :: u32))"
    by (simp add: s2s_SimdAllTrue_def lane_simps)
  let ?w = "operand E s 0 :: v128"
  have z: "lane ?w 0 = (0::u32) \<and> lane ?w 1 = (0::u32) \<and> lane ?w 2 = (0::u32) \<and> lane ?w 3 = (0::u32) \<longleftrightarrow> ?w = 0"
  proof
    assume "lane ?w 0 = (0::u32) \<and> lane ?w 1 = (0::u32) \<and> lane ?w 2 = (0::u32) \<and> lane ?w 3 = (0::u32)"
    then have "(to_lanes ?w :: u32 list) = [0, 0, 0, 0]" by (simp add: to_lanes_def byte_lanes upt_rec numeral_2_eq_2 numeral_3_eq_3)
    with of_lanes_to_lanes [OF byte_lanes(4), of ?w] show "?w = 0" by (simp add: of_lanes_def)
  qed (simp add: lane_def)
  have "(to_lanes ?w :: u32 list) ! 0 OR to_lanes ?w ! 1 OR to_lanes ?w ! 2 OR to_lanes ?w ! 3 \<noteq> 0 \<longleftrightarrow> ?w \<noteq> 0"
    unfolding z [symmetric] by (simp add: byte_lanes or_eq_0_iff)
  then show "s2s_SimdV128AnyTrue E s = Next (to_slot E s 1 (of_bool (?w \<noteq> 0) :: u32))"
    by (simp only: s2s_SimdV128AnyTrue_def pop_operand Let_def prod.case push_slot to_slot_code One_nat_def)
qed

text \<open>
  The instructions that move lanes are exact. A swizzle selects the bytes of its first operand by the bytes of its second, out of range giving zero; a shuffle selects from
  the two operands together, and is undefined exactly when its immediate names a lane that does not exist; the bitwise selection takes the bits of one operand or the other as the
  mask says; replacing a lane changes that lane alone, and extracting it gives it back with its sign or with zeros.\<close>

lemma lane_moves_exact:
  fixes T :: "'a::len itself" and U :: "'b::len itself"
  assumes "lane_width LENGTH('b)" "lane_imm s < lane_count U"
  shows "let v = (\<lambda>k. to_lanes (operand E s k) :: u8 list); t = s\<lparr>code := code s + 2\<rparr>
         in leaves_lanes E s 2 (map (\<lambda>x. if unat x < 16 then v 1 ! unat x else 0) (v 0)) (s2s_SimdI8x16Swizzle E s) \<and>
            (if \<forall>x \<in> set (v 0). unat x < 32 then leaves_lanes E s 3 (map (\<lambda>x. (v 2 @ v 1) ! unat x) (v 0)) (s2s_SimdI8x16Shuffle E s)
             else s2s_SimdI8x16Shuffle E s = Undefined) \<and>
            s2s_DoSimdSelect E s = Next (to_slot E s 3 ((operand E s 2 AND operand E s 0) OR (operand E s 1 AND NOT (operand E s 0 :: v128)))) \<and>
            leaves_lanes E t 2 ((to_lanes (operand E t 1))[lane_imm s := ucast (operand E t 0 :: 'a word) :: 'b word]) (s2s_SimdReplaceLane T U E s) \<and>
            s2s_SimdExtractLane U E s = Next (to_slot E t 1 (lane (operand E t 0) (lane_imm s) :: 'b word)) \<and>
            s2s_SimdExtractLaneExtend U sg E s = Next (to_slot E t 1 (word_of_int (int_value sg (lane (operand E t 0) (lane_imm s) :: 'b word)) :: u32))"
  unfolding Let_def by (intro conjI swizzle_lanes shuffle_lanes select_vector replace_lanes extract_lanes assms)

lemma lane_moves_exact_witness:
  "s2s_SimdExtractLane TYPE(32) sample_env simd_state = Next (to_slot sample_env (simd_state\<lparr>code := 2\<rparr>) 1 (7 :: u32))"
proof -
  have c: "code simd_state = 0" and i: "lane_imm simd_state = 0" by (simp_all add: lane_imm_def simd_state_def sample_state_def upt_rec)
  have "operand sample_env (simd_state\<lparr>code := 2\<rparr>) 0 = (0x8000000000000007 :: v128)"
    by (simp add: operand_def slot_value_def slot_at_def sample_env_def simd_state_def upt_rec)
  then have l: "(lane (operand sample_env (simd_state\<lparr>code := 2\<rparr>) 0) 0 :: u32) = 7" by (simp add: lane_def)
  have "lane_imm simd_state < lane_count TYPE(32)" by (simp add: i byte_lanes)
  from lane_moves_exact [OF byte_lanes(4) this, where T = "TYPE(32)" and E = sample_env and sg = True, unfolded Let_def i c add_0 l]
  show ?thesis by (elim conjE)
qed

subsection \<open>Vectors in memory\<close>

text \<open>The access of an instruction whose immediates start at \<open>s\<close>: the trap, or what the instruction does with the bytes.\<close>

definition vector_access :: "wasm_env \<Rightarrow> mem_type \<Rightarrow> bool \<Rightarrow> interp \<Rightarrow> nat \<Rightarrow> (u8 list \<Rightarrow> 'r step) \<Rightarrow> 'r step" where
  "vector_access E mt multi s n k =
     (case wasm_load (memory s (mem_number E mt multi s)) (mem_offset E mt s) (index_operand E mt (after_immediates E mt multi s)) n of
        None \<Rightarrow> Trap kWasmTrapMemOutOfBounds | Some bs \<Rightarrow> k bs)"

lemma simd_handler:
  fixes mt :: mem_type and multi :: bool and s :: interp
  assumes E: "wasm_env_ok E" and len: "\<And>i. length (memory s i) < 2 ^ 64" and n: "n < 2 ^ 64"
  defines "a \<equiv> after_immediates E mt multi s" and "mi \<equiv> mem_number E mt multi s" and "ea \<equiv> effective_address E mt multi s"
  assumes f: "unat (of_nat ea :: u64) = ea \<Longrightarrow> f (mi, of_nat ea, a\<lparr>code := code a + slot_size E\<rparr>) = g (take n (drop ea (memory s mi)))"
  shows "bind_step (simd_access n E mt multi s) f = vector_access E mt multi s n g"
proof -
  have "simd_access n E mt multi s = atomic_access (\<lambda>e. True) n E mt multi s" by (simp add: simd_access_def atomic_access_def Let_def)
  then show ?thesis
    using atomic_access_exact [where aligned = "\<lambda>e. True" and k = 1 and mt = mt and multi = multi, OF E len n] f
    by (simp add: vector_access_def wasm_load_def effective_address_def ea_def mi_def a_def)
qed

text \<open>The little-endian value of a part of a byte sequence.\<close>

lemma le_nat_drop: "le_nat (drop k bs) = le_nat bs div 256 ^ k"
proof (induction k arbitrary: bs)
  case (Suc k)
  show ?case
  proof (cases bs)
    case (Cons b cs)
    have "unat b < 256" using unat_bound [of b] by simp
    then have "le_nat bs div 256 = le_nat cs" by (simp add: Cons)
    then show ?thesis by (simp add: Cons Suc div_mult2_eq [symmetric]) (simp add: div_mult2_eq Cons)
  qed simp
qed simp

lemma le_nat_take: "le_nat (take k bs) = le_nat bs mod 256 ^ k"
proof (induction k arbitrary: bs)
  case (Suc k)
  show ?case
  proof (cases bs)
    case (Cons b cs)
    have "unat b < 256" using unat_bound [of b] by simp
    then show ?thesis by (simp add: Cons Suc mod_mult2_eq)
  qed simp
qed simp

definition byte_lane :: "u8 list \<Rightarrow> nat \<Rightarrow> 'b::len word" where
  "byte_lane bs i = of_nat (le_nat (take (LENGTH('b) div 8) (drop (i * (LENGTH('b) div 8)) bs)))"

lemma byte_lane_bits:
  assumes "LENGTH('b::len) mod 8 = 0" "length bs * 8 \<le> LENGTH('c::len)"
  shows "(ucast (drop_bit (i * LENGTH('b)) (of_nat (le_nat bs) :: 'c word)) :: 'b word) = byte_lane bs i"
proof -
  let ?n = "LENGTH('b) div 8"
  have p: "(256 :: nat) ^ k = 2 ^ (8 * k)" for k by (simp add: power_mult)
  have b: "8 * ?n = LENGTH('b)" using assms(1) by auto
  then have e: "8 * (i * ?n) = i * LENGTH('b)" by (metis mult.left_commute)
  have "le_nat bs < 2 ^ (length bs * 8)" using le_nat_bound [of bs] unfolding p by (simp only: mult.commute)
  also have "\<dots> \<le> 2 ^ LENGTH('c)" by (rule power_increasing) (use assms(2) in simp_all)
  finally have lt: "le_nat bs < 2 ^ LENGTH('c)" .
  then have "unat (of_nat (le_nat bs) :: 'c word) = le_nat bs" by (simp add: unat_of_nat)
  then have "unat (drop_bit (i * LENGTH('b)) (of_nat (le_nat bs) :: 'c word)) = le_nat bs div 2 ^ (i * LENGTH('b))"
    unfolding unsigned_drop_bit_eq using lt by (simp add: take_bit_nat_eq_self drop_bit_eq_div [where 'a = nat])
  then have "(ucast (drop_bit (i * LENGTH('b)) (of_nat (le_nat bs) :: 'c word)) :: 'b word) = of_nat (le_nat bs div 2 ^ (i * LENGTH('b)))"
    by (metis of_nat_unat)
  also have "\<dots> = of_nat (le_nat bs div 2 ^ (i * LENGTH('b)) mod 2 ^ LENGTH('b))"
    by (simp add: word_eq_iff_unsigned [where 'a = nat] unat_of_nat)
  also have "\<dots> = byte_lane bs i"
    unfolding byte_lane_def le_nat_take le_nat_drop p e b by (rule refl)
  finally show ?thesis .
qed

lemma loaded_lanes:
  assumes "lane_width LENGTH('b::len)" "length bs = 16"
  shows "(to_lanes (of_nat (le_nat bs)) :: 'b word list) = map (byte_lane bs) [0..<lane_count TYPE('b)]"
  using byte_lane_bits [where 'b = 'b and 'c = 128 and bs = bs] assms by (auto simp: to_lanes_def lane_def lane_width_def)

lemma lane_bytes:
  assumes "lane_width LENGTH('b::len)"
  shows "LENGTH('b) div 8 < 2 ^ 64" "access_width LENGTH('b)"
  using assms by (auto simp: lane_width_def access_width_def)

lemma leaves_lanes_Next: "lane_width LENGTH('b::len) \<Longrightarrow> length xs = lane_count TYPE('b) \<Longrightarrow>
    leaves_lanes E s k (xs :: 'b word list) (Next (to_slot E s k (of_lanes xs)))"
  by (rule leaves_lanesI) simp_all


text \<open>What the instructions do with the bytes of their access; an access whose value was popped before the immediates starts at \<open>s1\<close>.\<close>

lemma vector_load:
  assumes "wasm_env_ok E" "\<And>i. length (memory s i) < 2 ^ 64"
  shows "s2s_SimdS128LoadMemI E mt multi s =
    vector_access E mt multi s 16 (\<lambda>bs. Next (to_slot E (after_immediates E mt multi s) 1 (of_nat (le_nat bs) :: v128)))"
  unfolding s2s_SimdS128LoadMemI_def by (rule simd_handler [OF assms]) (simp_all add: bytes_at push_after access_immediates)

lemma vector_splat:
  fixes U :: "'b::len itself"
  assumes "wasm_env_ok E" "\<And>i. length (memory s i) < 2 ^ 64" "lane_width LENGTH('b)"
  shows "s2s_DoSimdLoadSplat U E mt multi s = vector_access E mt multi s (LENGTH('b) div 8)
    (\<lambda>bs. Next (to_slot E (after_immediates E mt multi s) 1 (of_lanes (replicate (lane_count U) (of_nat (le_nat bs) :: 'b word)))))"
  unfolding s2s_DoSimdLoadSplat_def
  by (rule simd_handler [OF assms(1,2) lane_bytes(1) [OF assms(3)]]) (simp add: bytes_at push_after access_immediates map_replicate_const Let_def)

lemma vector_extend:
  fixes N :: "'n::len itself" and W :: "'w::len itself"
  assumes "wasm_env_ok E" "\<And>i. length (memory s i) < 2 ^ 64" "lane_width LENGTH('n)"
  shows "s2s_DoSimdLoadExtend N W sg E mt multi s = vector_access E mt multi s 8
    (\<lambda>bs. Next (to_slot E (after_immediates E mt multi s) 1 (of_lanes (map (\<lambda>i. word_of_int (int_value sg (byte_lane bs i :: 'n word)) :: 'w word) [0..<lane_count W]))))"
proof -
  have "(ucast (drop_bit (i * LENGTH('n)) (of_nat (le_nat (take 8 bs)) :: u64)) :: 'n word) = byte_lane (take 8 bs) i" for i bs
    by (rule byte_lane_bits) (use assms(3) in \<open>auto simp: lane_width_def\<close>)
  then show ?thesis
    unfolding s2s_DoSimdLoadExtend_def
    by (intro simd_handler [OF assms(1,2)]) (simp_all add: bytes_at push_after access_immediates Let_def convert_value)
qed

lemma vector_zero:
  fixes U :: "'b::len itself"
  assumes "wasm_env_ok E" "\<And>i. length (memory s i) < 2 ^ 64" "lane_width LENGTH('b)"
  shows "s2s_DoSimdLoadZeroExtend U E mt multi s = vector_access E mt multi s (LENGTH('b) div 8)
    (\<lambda>bs. Next (to_slot E (after_immediates E mt multi s) 1 (of_nat (le_nat bs) :: v128)))"
proof -
  have "of_lanes ((replicate (lane_count U) 0)[0 := x]) = ucast x" for x :: "'b word"
  proof -
    have "foldr (\<lambda>x v. ucast x OR push_bit LENGTH('b) v) (replicate n (0 :: 'b word)) 0 = (0 :: v128)" for n by (induction n) simp_all
    moreover obtain k where "lane_count U = Suc k" using lane_width_count(2) [OF assms(3)] by (metis lane_count_def gr0_implies_Suc)
    ultimately show ?thesis by (simp add: of_lanes_def)
  qed
  moreover have "(ucast (of_nat (le_nat (take (LENGTH('b) div 8) bs)) :: 'b word) :: v128) = of_nat (le_nat (take (LENGTH('b) div 8) bs))" for bs
  proof -
    let ?k = "le_nat (take (LENGTH('b) div 8) bs)"
    have "(256 :: nat) ^ (LENGTH('b) div 8) = 2 ^ LENGTH('b)" using assms(3) by (auto simp: lane_width_def)
    then have "?k < 2 ^ LENGTH('b)" unfolding le_nat_take by simp
    then have "unat (of_nat ?k :: 'b word) = ?k" unfolding unat_of_nat by simp
    then show ?thesis by (metis of_nat_unat)
  qed
  ultimately show ?thesis
    unfolding s2s_DoSimdLoadZeroExtend_def
    by (intro simd_handler [OF assms(1,2) lane_bytes(1) [OF assms(3)]]) (simp add: bytes_at push_after access_immediates map_replicate_const Let_def)
qed

definition lane_imm_at :: "wasm_env \<Rightarrow> mem_type \<Rightarrow> bool \<Rightarrow> interp \<Rightarrow> interp" where
  "lane_imm_at E mt multi s = (let a = after_immediates E mt multi s in a\<lparr>code := code a + slot_size E\<rparr>)"

lemma vector_load_lane:
  fixes U :: "'b::len itself" and s :: interp and mt :: mem_type and multi :: bool
  assumes "wasm_env_ok E" "\<And>i. length (memory s i) < 2 ^ 64" "lane_width LENGTH('b)"
  defines "s1 \<equiv> s\<lparr>code := code s + slot_size E\<rparr>"
  defines "t \<equiv> lane_imm_at E mt multi s1"
  shows "s2s_DoSimdLoadLane U E mt multi s = vector_access E mt multi s1 (LENGTH('b) div 8) (\<lambda>bs.
      if lane_imm t < lane_count U then Next (to_slot E (t\<lparr>code := code t + 2\<rparr>) 0 (of_lanes ((to_lanes (operand E s 0))[lane_imm t := of_nat (le_nat bs) :: 'b word])))
      else Undefined)"
proof -
  have len: "length (memory s1 i) < 2 ^ 64" for i using assms(2) by (simp add: s1_def)
  have c: "lane_count TYPE('b) = lane_count U" by (simp add: lane_count_def)
  show ?thesis
    unfolding s2s_DoSimdLoadLane_def pop_operand Let_def prod.case s1_def [symmetric]
    by (rule simd_handler [OF assms(1) len lane_bytes(1) [OF assms(3)]])
      (simp add: bytes_at access_immediates Read_lane push_slot c t_def lane_imm_at_def Let_def)
qed

lemma vector_store:
  fixes s :: interp and mt :: mem_type and multi :: bool
  assumes "wasm_env_ok E" "\<And>i. length (memory s i) < 2 ^ 64"
  defines "s1 \<equiv> s\<lparr>code := code s + slot_size E\<rparr>"
  shows "s2s_SimdS128StoreMemI E mt multi s = vector_access E mt multi s1 16 (\<lambda>bs.
      Next ((atomic_put E mt multi s1 (operand E s 0 :: v128))\<lparr>code := code (after_immediates E mt multi s1) + slot_size E\<rparr>))"
proof -
  have len: "length (memory s1 i) < 2 ^ 64" for i using assms(2) by (simp add: s1_def)
  show ?thesis
    unfolding s2s_SimdS128StoreMemI_def pop_operand Let_def prod.case s1_def [symmetric]
    by (rule simd_handler [OF assms(1) len]) (simp_all add: bytes_at atomic_put_def access_immediates Let_def)
qed

lemma vector_store_lane:
  fixes U :: "'b::len itself" and s :: interp and mt :: mem_type and multi :: bool
  assumes "wasm_env_ok E" "\<And>i. length (memory s i) < 2 ^ 64" "lane_width LENGTH('b)"
  defines "s1 \<equiv> s\<lparr>code := code s + slot_size E\<rparr>"
  defines "t \<equiv> lane_imm_at E mt multi s1"
  shows "s2s_DoSimdStoreLane U E mt multi s = vector_access E mt multi s1 (LENGTH('b) div 8) (\<lambda>bs.
      if lane_imm t < lane_count U then Next ((atomic_put E mt multi s1 (lane (operand E s 0) (lane_imm t) :: 'b word))\<lparr>code := code t + 2\<rparr>) else Undefined)"
proof -
  have len: "length (memory s1 i) < 2 ^ 64" for i using assms(2) by (simp add: s1_def)
  have c: "lane_count U = lane_count TYPE('b)" by (simp add: lane_count_def)
  show ?thesis
    unfolding s2s_DoSimdStoreLane_def pop_operand Let_def prod.case s1_def [symmetric]
    by (rule simd_handler [OF assms(1) len lane_bytes(1) [OF assms(3)]])
      (simp add: bytes_at atomic_put_def access_immediates Read_lane lane_at_def c t_def lane_imm_at_def Let_def)
qed

text \<open>
  C37: The vector accesses to memory are exact. A load or store of a whole vector, of one lane, of one value for every lane, of eight bytes to be extended or of a value to be
  padded with zeros traps exactly when its bytes, at the effective address computed without wrap-around, are not inside the memory; otherwise the lanes it delivers are the
  little-endian values of its bytes in order, extended as the instruction says, and a store replaces exactly its bytes. The lane accesses are undefined exactly
  when the immediate names no lane, and only after the bounds check.\<close>

theorem vector_memory_exact:
  fixes N :: "'n::len itself" and W :: "'w::len itself"
  assumes "wasm_env_ok E" "\<And>i. length (memory s i) < 2 ^ 64" "lane_width LENGTH('n)" "lane_width LENGTH('w)"
  shows "let a = after_immediates E mt multi s; s1 = s\<lparr>code := code s + slot_size E\<rparr>; t = lane_imm_at E mt multi s1; n = LENGTH('n) div 8;
             value = (\<lambda>bs. of_nat (le_nat bs) :: 'n word)
         in s2s_SimdS128LoadMemI E mt multi s =
              vector_access E mt multi s 16 (\<lambda>bs. Next (to_slot E a 1 (of_lanes (map (byte_lane bs) [0..<lane_count N] :: 'n word list)))) \<and>
            s2s_DoSimdLoadSplat N E mt multi s =
              vector_access E mt multi s n (\<lambda>bs. Next (to_slot E a 1 (of_lanes (replicate (lane_count N) (value bs))))) \<and>
            s2s_DoSimdLoadExtend N W sg E mt multi s =
              vector_access E mt multi s 8 (\<lambda>bs. Next (to_slot E a 1 (of_lanes
                (map (\<lambda>i. word_of_int (int_value sg (byte_lane bs i :: 'n word)) :: 'w word) [0..<lane_count W])))) \<and>
            s2s_DoSimdLoadZeroExtend N E mt multi s = vector_access E mt multi s n (\<lambda>bs. Next (to_slot E a 1 (of_nat (le_nat bs) :: v128))) \<and>
            s2s_DoSimdLoadLane N E mt multi s = vector_access E mt multi s1 n (\<lambda>bs. if lane_imm t < lane_count N
                then Next (to_slot E (t\<lparr>code := code t + 2\<rparr>) 0 (of_lanes ((to_lanes (operand E s 0))[lane_imm t := value bs]))) else Undefined) \<and>
            s2s_SimdS128StoreMemI E mt multi s = vector_access E mt multi s1 16 (\<lambda>bs.
                Next ((atomic_put E mt multi s1 (operand E s 0 :: v128))\<lparr>code := code (after_immediates E mt multi s1) + slot_size E\<rparr>)) \<and>
            s2s_DoSimdStoreLane N E mt multi s = vector_access E mt multi s1 n (\<lambda>bs. if lane_imm t < lane_count N
                then Next ((atomic_put E mt multi s1 (lane (operand E s 0) (lane_imm t) :: 'n word))\<lparr>code := code t + 2\<rparr>) else Undefined)"
proof -
  have c: "lane_count N = lane_count TYPE('n)" by (simp add: lane_count_def)
  have "of_lanes (map (byte_lane bs) [0..<lane_count N] :: 'n word list) = of_nat (le_nat bs)" if "length bs = 16" for bs
    unfolding c loaded_lanes [OF assms(3) that, symmetric] by (rule of_lanes_to_lanes [OF assms(3)])
  then have "vector_access E mt multi s 16 (\<lambda>bs. Next (to_slot E (after_immediates E mt multi s) 1 (of_nat (le_nat bs) :: v128))) =
      vector_access E mt multi s 16 (\<lambda>bs. Next (to_slot E (after_immediates E mt multi s) 1 (of_lanes (map (byte_lane bs) [0..<lane_count N] :: 'n word list))))"
    by (simp add: vector_access_def wasm_load_def)
  with vector_load [OF assms(1,2), of mt multi] show ?thesis
    unfolding Let_def by (intro conjI vector_splat vector_extend vector_zero vector_load_lane vector_store vector_store_lane assms) simp
qed

theorem vector_memory_exact_witness:
  "s2s_DoSimdLoadZeroExtend TYPE(32) sample_env Mem32 False sample_state =
     Next (to_slot sample_env (after_immediates sample_env Mem32 False sample_state) 1 (0x04030201 :: v128)) \<and>
   s2s_DoSimdLoadSplat TYPE(64) sample_env Mem32 False sample_state = Trap kWasmTrapMemOutOfBounds"
proof -
  have w: "lane_width LENGTH(32)" "lane_width LENGTH(64)" by (simp_all add: lane_width_def)
  have m: "mem_offset sample_env Mem32 sample_state = 0"
      "index_operand sample_env Mem32 (after_immediates sample_env Mem32 False sample_state) = 0"
    using sample_ok(4) by (simp_all add: effective_address_def)
  have z: "vector_access sample_env Mem32 False sample_state 4 k = k [1, 2, 3, 4]"
      "vector_access sample_env Mem32 False sample_state 8 k = Trap kWasmTrapMemOutOfBounds" for k :: "u8 list \<Rightarrow> interp step"
    unfolding vector_access_def m by (simp_all add: wasm_load_def sample_state_def)
  show ?thesis
    using vector_memory_exact [OF sample_ok(1,3) w(1) w(2), where N = "TYPE(32)" and W = "TYPE(64)" and mt = Mem32 and multi = False and sg = False]
      vector_memory_exact [OF sample_ok(1,3) w(2) w(2), where N = "TYPE(64)" and W = "TYPE(64)" and mt = Mem32 and multi = False and sg = False]
    unfolding Let_def by (simp add: z)
qed

end
