(* ===== verification/Wasm_Slots.thy ===== *)
theory Wasm_Slots
  imports Wasm_Handlers
begin

unbundle bit_operations_syntax

text \<open>
  Moving values between slots in \<^verbatim>\<open>v8/src/wasm/interpreter/wasm-interpreter.cc\<close>: the copy and
  preserve-copy handlers, and how the bytecode generator passes the arguments of a call with them
  (\<^verbatim>\<open>WasmBytecodeGenerator::InitSlotsForFunctionArgs\<close>). The theorem is on both together: executing
  the instruction that the generator emits leaves every argument in the slot of its parameter.

  The creation of slots and the byte encoding of what is emitted are in the interpreter's header, not in the
  overlay: the new slots are an argument, and the encoding is the hypothesis that reading gives back
  what was emitted.
\<close>

subsection \<open>The copy handlers\<close>

definition copy_slot :: "'a::len itself \<Rightarrow> nat \<Rightarrow> nat \<Rightarrow> interp \<Rightarrow> interp" where
  "copy_slot T from to s = s\<lparr>slots := slot_write to (slot_value from (slots s) :: 'a word) (slots s)\<rparr>"

text \<open>\<^verbatim>\<open>to += n\<close> at the width of \<^verbatim>\<open>slot_offset_t\<close>.\<close>

definition next_slot :: "wasm_env \<Rightarrow> nat \<Rightarrow> nat \<Rightarrow> nat" where
  "next_slot E to n = (to + n) mod 2 ^ (8 * slot_size E)"

fun copy_args :: "wasm_env \<Rightarrow> u32 \<Rightarrow> nat \<Rightarrow> nat \<Rightarrow> nat \<Rightarrow> interp \<Rightarrow> interp" where
  "copy_args E arg_size_mask i 0 to s = s"
| "copy_args E arg_size_mask i (Suc k) to s =
     (let (from, s) = Read (slot_size E) s; is_64 = and arg_size_mask (push_bit i 1) \<noteq> 0
      in if is_64 then copy_args E arg_size_mask (Suc i) k (next_slot E to 2) (copy_slot TYPE(64) from to s)
         else copy_args E arg_size_mask (Suc i) k (next_slot E to 1) (copy_slot TYPE(32) from to s))"

definition s2s_CopySlotMulti :: "wasm_env \<Rightarrow> interp \<Rightarrow> interp step" where
  "s2s_CopySlotMulti E s =
     (let (params_count, s) = Read 4 s; (arg_size_mask, s) = Read 4 s; (to, s) = Read (slot_size E) s
      in Next (copy_args E (of_nat arg_size_mask) 0 params_count to s))"

definition s2s_CopySlot_ll :: "wasm_env \<Rightarrow> interp \<Rightarrow> interp step" where
  "s2s_CopySlot_ll E s =
     (let (to, s) = Read (slot_size E) s; (from0, s) = Read (slot_size E) s; (from1, s) = Read (slot_size E) s
      in Next (copy_slot TYPE(32) from1 (next_slot E to 1) (copy_slot TYPE(32) from0 to s)))"

definition s2s_CopySlot_lq :: "wasm_env \<Rightarrow> interp \<Rightarrow> interp step" where
  "s2s_CopySlot_lq E s =
     (let (to, s) = Read (slot_size E) s; (from0, s) = Read (slot_size E) s; (from1, s) = Read (slot_size E) s
      in Next (copy_slot TYPE(32) from1 (next_slot E to 2) (copy_slot TYPE(64) from0 to s)))"

definition s2s_CopySlot_ql :: "wasm_env \<Rightarrow> interp \<Rightarrow> interp step" where
  "s2s_CopySlot_ql E s =
     (let (to, s) = Read (slot_size E) s; (from0, s) = Read (slot_size E) s; (from1, s) = Read (slot_size E) s
      in Next (copy_slot TYPE(64) from1 (next_slot E to 1) (copy_slot TYPE(32) from0 to s)))"

definition s2s_CopySlot_qq :: "wasm_env \<Rightarrow> interp \<Rightarrow> interp step" where
  "s2s_CopySlot_qq E s =
     (let (to, s) = Read (slot_size E) s; (from0, s) = Read (slot_size E) s; (from1, s) = Read (slot_size E) s
      in Next (copy_slot TYPE(64) from1 (next_slot E to 2) (copy_slot TYPE(64) from0 to s)))"

text \<open>The single and double copies read the source first.\<close>

definition copy_one :: "'a::len itself \<Rightarrow> wasm_env \<Rightarrow> interp \<Rightarrow> interp" where
  "copy_one T E s = (let (from, s) = Read (slot_size E) s; (to, s) = Read (slot_size E) s in copy_slot T from to s)"

definition s2s_CopySlot32 :: "wasm_env \<Rightarrow> interp \<Rightarrow> interp step" where
  "s2s_CopySlot32 E s = Next (copy_one TYPE(32) E s)"

definition s2s_CopySlot32x2 :: "wasm_env \<Rightarrow> interp \<Rightarrow> interp step" where
  "s2s_CopySlot32x2 E s = Next (copy_one TYPE(32) E (copy_one TYPE(32) E s))"

definition s2s_CopySlot64 :: "wasm_env \<Rightarrow> interp \<Rightarrow> interp step" where
  "s2s_CopySlot64 E s = Next (copy_one TYPE(64) E s)"

definition s2s_CopySlot128 :: "wasm_env \<Rightarrow> interp \<Rightarrow> interp step" where
  "s2s_CopySlot128 E s = Next (copy_one TYPE(128) E s)"

definition s2s_CopySlot64x2 :: "wasm_env \<Rightarrow> interp \<Rightarrow> interp step" where
  "s2s_CopySlot64x2 E s = Next (copy_one TYPE(64) E (copy_one TYPE(64) E s))"

text \<open>A copy that first preserves the old value of its target in a third slot.\<close>

definition preserve_copy :: "'a::len itself \<Rightarrow> wasm_env \<Rightarrow> interp \<Rightarrow> interp" where
  "preserve_copy T E s =
     (let (from, s) = Read (slot_size E) s; (to, s) = Read (slot_size E) s; (preserve, s) = Read (slot_size E) s
      in copy_slot T from to (copy_slot T to preserve s))"

definition s2s_PreserveCopySlot32 :: "wasm_env \<Rightarrow> interp \<Rightarrow> interp step" where
  "s2s_PreserveCopySlot32 E s = Next (preserve_copy TYPE(32) E s)"

definition s2s_PreserveCopySlot64 :: "wasm_env \<Rightarrow> interp \<Rightarrow> interp step" where
  "s2s_PreserveCopySlot64 E s = Next (preserve_copy TYPE(64) E s)"

definition s2s_PreserveCopySlot128 :: "wasm_env \<Rightarrow> interp \<Rightarrow> interp step" where
  "s2s_PreserveCopySlot128 E s = Next (preserve_copy TYPE(128) E s)"

text \<open>The copies of the register.\<close>

definition copy_register :: "'a::len itself \<Rightarrow> nat \<Rightarrow> interp \<Rightarrow> interp" where
  "copy_register T to s = s\<lparr>slots := slot_write to (ucast (r0 s) :: 'a word) (slots s)\<rparr>"

definition r2s_CopyR0ToSlot32 :: "wasm_env \<Rightarrow> interp \<Rightarrow> interp step" where
  "r2s_CopyR0ToSlot32 E s = (let (to, s) = Read (slot_size E) s in Next (copy_register TYPE(32) to s))"

definition r2s_CopyR0ToSlot64 :: "wasm_env \<Rightarrow> interp \<Rightarrow> interp step" where
  "r2s_CopyR0ToSlot64 E s = (let (to, s) = Read (slot_size E) s in Next (copy_register TYPE(64) to s))"

definition r2s_PreserveCopyR0ToSlot32 :: "wasm_env \<Rightarrow> interp \<Rightarrow> interp step" where
  "r2s_PreserveCopyR0ToSlot32 E s =
     (let (to, s) = Read (slot_size E) s; (preserve, s) = Read (slot_size E) s
      in Next (copy_register TYPE(32) to (copy_slot TYPE(32) to preserve s)))"

definition r2s_PreserveCopyR0ToSlot64 :: "wasm_env \<Rightarrow> interp \<Rightarrow> interp step" where
  "r2s_PreserveCopyR0ToSlot64 E s =
     (let (to, s) = Read (slot_size E) s; (preserve, s) = Read (slot_size E) s
      in Next (copy_register TYPE(64) to (copy_slot TYPE(64) to preserve s)))"

subsection \<open>Passing arguments\<close>

datatype value_kind = kI32 | kI64 | kF32 | kF64 | kS128 | kRef

datatype copy_handler = k_s2s_CopySlot_ll | k_s2s_CopySlot_lq | k_s2s_CopySlot_ql | k_s2s_CopySlot_qq | k_s2s_CopySlotMulti

datatype emission =
    EmitFnId copy_handler | EmitI32Const u32 | EmitSlotOffset nat | EmitCopySlot value_kind nat nat

definition is_64 :: "value_kind \<Rightarrow> bool" where
  "is_64 kind \<longleftrightarrow> kind = kI64 \<or> kind = kF64"

definition kCopySlot32TwoArgFuncs :: "copy_handler list" where
  "kCopySlot32TwoArgFuncs = [k_s2s_CopySlot_ll, k_s2s_CopySlot_lq, k_s2s_CopySlot_ql, k_s2s_CopySlot_qq]"

fun arg_size_mask :: "nat \<Rightarrow> value_kind list \<Rightarrow> u32 \<Rightarrow> u32" where
  "arg_size_mask index [] m = m"
| "arg_size_mask index (kind # kinds) m =
     arg_size_mask (Suc index) kinds (if is_64 kind then or m (push_bit index 1) else m)"

text \<open>
  \<open>sig\<close> are the kinds of the parameters, \<open>stack\<close> the slot offsets of the operand stack, bottom
  first, \<open>created\<close> the offsets of the slots that \<^verbatim>\<open>CreateSlot\<close> makes for the parameters;
  \<^verbatim>\<open>WasmBytecode::HasRefOrSimdArgs\<close> is the parameter \<open>has_ref_or_simd\<close>.
\<close>

definition InitSlotsForFunctionArgs ::
  "(value_kind list \<Rightarrow> bool) \<Rightarrow> value_kind list \<Rightarrow> bool \<Rightarrow> nat list \<Rightarrow> nat list \<Rightarrow> emission list" where
  "InitSlotsForFunctionArgs has_ref_or_simd sig is_indirect_call stack created =
     (let stack_index = length stack - length sig - (if is_indirect_call then 1 else 0);
          args = take (length sig) (drop stack_index stack);
          fast_path = 1 < length sig \<and> length sig < 32 \<and> \<not> has_ref_or_simd sig
      in if fast_path then
           (if length sig = 2 then
              (let copyslot32_two_args_func_id = (if is_64 (sig ! 0) then 1 else 0) + (if is_64 (sig ! 1) then 2 else 0)
               in EmitFnId (kCopySlot32TwoArgFuncs ! copyslot32_two_args_func_id) #
                  EmitSlotOffset (created ! 0) # map EmitSlotOffset args)
            else EmitFnId k_s2s_CopySlotMulti # EmitI32Const (of_nat (length sig)) # EmitI32Const (arg_size_mask 0 sig 0) #
                 EmitSlotOffset (created ! 0) # map EmitSlotOffset args)
         else map (\<lambda>(kind, from, to). EmitCopySlot kind from to) (zip sig (zip args created)))"

subsection \<open>What a copy does\<close>

definition move :: "nat \<Rightarrow> nat \<Rightarrow> nat \<Rightarrow> (nat \<Rightarrow> u32) \<Rightarrow> (nat \<Rightarrow> u32)" where
  "move n from to sl = (\<lambda>i. if to \<le> i \<and> i < to + n then sl (from + (i - to)) else sl i)"

lemma le_slots_bound: "le_slots ws < 2 ^ (32 * length ws)"
proof (induction ws)
  case (Cons w ws)
  have "unat w < 2 ^ 32" using unat_bound [of w] by simp
  moreover have "2 ^ 32 * Suc (le_slots ws) \<le> 2 ^ 32 * 2 ^ (32 * length ws)"
    using Cons by (intro mult_left_mono) (simp_all add: Suc_le_eq)
  ultimately show ?case by (simp add: power_add)
qed simp

lemma le_slots_nth: "j < length ws \<Longrightarrow> le_slots ws div 2 ^ (32 * j) mod 2 ^ 32 = unat (ws ! j)"
proof (induction ws arbitrary: j)
  case (Cons w ws)
  have w: "unat w < 2 ^ 32" using unat_bound [of w] by simp
  show ?case
  proof (cases j)
    case 0
    with w show ?thesis by simp
  next
    case (Suc k)
    have "(unat w + 2 ^ 32 * le_slots ws) div 2 ^ (32 * Suc k) = ((unat w + 2 ^ 32 * le_slots ws) div 2 ^ 32) div 2 ^ (32 * k)"
      by (simp only: mult_Suc_right power_add div_mult2_eq)
    also have "(unat w + 2 ^ 32 * le_slots ws) div 2 ^ 32 = le_slots ws" using w by simp
    finally show ?thesis using Cons Suc by simp
  qed
qed simp

lemma copy_is_move:
  assumes "LENGTH('a) = 32 * n"
  shows "slot_write to (slot_value from sl :: 'a::len word) sl = move n from to sl"
proof
  fix i
  show "slot_write to (slot_value from sl :: 'a word) sl i = move n from to sl i"
  proof (cases "to \<le> i \<and> i < to + n")
    case True
    let ?ws = "map sl [from..<from + n]" and ?j = "i - to"
    have j: "?j < n" using True by (simp add: less_diff_conv2)
    then have nth: "?ws ! ?j = sl (from + ?j)" by simp
    have v: "unat (slot_value from sl :: 'a word) = le_slots ?ws"
      using le_slots_bound [of ?ws] assms by (simp add: slot_value_def unat_of_nat)
    have "unat (drop_bit (32 * ?j) (slot_value from sl :: 'a word)) = le_slots ?ws div 2 ^ (32 * ?j)"
      using le_slots_bound [of ?ws] assms
      by (simp only: unsigned_drop_bit_eq v) (simp add: drop_bit_eq_div take_bit_nat_eq_self)
    then have "unat (ucast (drop_bit (32 * ?j) (slot_value from sl :: 'a word)) :: u32) = le_slots ?ws div 2 ^ (32 * ?j) mod 2 ^ 32"
      by (simp only: unsigned_ucast_eq) (simp add: take_bit_eq_mod)
    also have "\<dots> = unat (?ws ! ?j)" using j by (intro le_slots_nth) simp
    finally have "ucast (drop_bit (32 * ?j) (slot_value from sl :: 'a word)) = ?ws ! ?j"
      by (simp only: word_eq_iff_unsigned [where 'a = nat])
    then show ?thesis using True assms by (simp only: nth slot_write_def move_def) simp
  next
    case False
    then show ?thesis unfolding slot_write_def move_def using assms by auto
  qed
qed

lemma copy_slot_move:
  "copy_slot TYPE(32) from to s = s\<lparr>slots := move 1 from to (slots s)\<rparr>"
  "copy_slot TYPE(64) from to s = s\<lparr>slots := move 2 from to (slots s)\<rparr>"
  "copy_slot TYPE(128) from to s = s\<lparr>slots := move 4 from to (slots s)\<rparr>"
  by (simp_all add: copy_slot_def copy_is_move)

text \<open>A sequence of copies into consecutive slots.\<close>

fun copy_all :: "(nat \<times> nat) list \<Rightarrow> nat \<Rightarrow> (nat \<Rightarrow> u32) \<Rightarrow> (nat \<Rightarrow> u32)" where
  "copy_all [] to sl = sl"
| "copy_all ((n, from) # xs) to sl = copy_all xs (to + n) (move n from to sl)"

definition apart :: "nat \<Rightarrow> nat \<Rightarrow> (nat \<times> nat) list \<Rightarrow> bool" where
  "apart lo hi xs \<longleftrightarrow> (\<forall>(n, from) \<in> set xs. from + n \<le> lo \<or> hi \<le> from)"

lemma copy_all_outside:
  "i < to \<or> to + sum_list (map fst xs) \<le> i \<Longrightarrow> copy_all xs to sl i = sl i"
proof (induction xs arbitrary: to sl)
  case (Cons x xs)
  then show ?case by (cases x) (auto simp: move_def)
qed simp

lemma copy_all_inside:
  assumes "apart lo hi xs" "lo \<le> to" "to + sum_list (map fst xs) \<le> hi" "k < length xs" "j < fst (xs ! k)"
  shows "copy_all xs to sl (to + sum_list (map fst (take k xs)) + j) = sl (snd (xs ! k) + j)"
  using assms
proof (induction xs arbitrary: to sl k)
  case (Cons x xs)
  obtain n f where x: "x = (n, f)" by force
  show ?case
  proof (cases k)
    case 0
    with Cons.prems show ?thesis by (simp add: x copy_all_outside move_def)
  next
    case (Suc k')
    obtain n' f' where x': "xs ! k' = (n', f')" by force
    have rest: "apart lo hi xs" "lo \<le> to + n" "to + n + sum_list (map fst xs) \<le> hi" "k' < length xs" "j < fst (xs ! k')"
      using Cons.prems Suc by (auto simp: apart_def x)
    have "f' + n' \<le> lo \<or> hi \<le> f'"
      using rest(1,4) nth_mem [of k' xs] by (auto simp: apart_def x')
    then have "move n f to sl (f' + j) = sl (f' + j)"
      using rest(5) Cons.prems(2,3) by (auto simp: move_def x x')
    then show ?thesis using Cons.IH [OF rest, of "move n f to sl"] by (simp add: x x' Suc ac_simps)
  qed
qed simp

subsection \<open>Emitted operands\<close>

text \<open>The operands read from position \<open>c\<close> on are those emitted there.\<close>

fun emitted_at :: "wasm_env \<Rightarrow> (nat \<Rightarrow> u8) \<Rightarrow> nat \<Rightarrow> emission list \<Rightarrow> bool" where
  "emitted_at E b c [] \<longleftrightarrow> True"
| "emitted_at E b c (EmitI32Const v # xs) \<longleftrightarrow> le_nat (map b [c..<c + 4]) = unat v \<and> emitted_at E b (c + 4) xs"
| "emitted_at E b c (EmitSlotOffset v # xs) \<longleftrightarrow>
     le_nat (map b [c..<c + slot_size E]) = v \<and> emitted_at E b (c + slot_size E) xs"
| "emitted_at E b c _ \<longleftrightarrow> False"

definition slots_of :: "value_kind \<Rightarrow> nat" where
  "slots_of kind = (if is_64 kind then 2 else 1)"

lemma mask_test: "i < 32 \<Longrightarrow> and m (push_bit i 1) \<noteq> 0 \<longleftrightarrow> bit (m :: u32) i"
  by (simp add: push_bit_of_1 and_exp_eq_0_iff_not_bit)

lemma copy_args_exact:
  assumes "emitted_at E (bytecode s) (code s) (map EmitSlotOffset args)" "length args = length kinds"
    and "\<And>k. k < length kinds \<Longrightarrow> bit m (i + k) \<longleftrightarrow> is_64 (kinds ! k)" "i + length kinds \<le> 32"
    and "to + sum_list (map slots_of kinds) < 2 ^ (8 * slot_size E)"
  shows "copy_args E m i (length kinds) to s =
     s\<lparr>code := code s + length kinds * slot_size E, slots := copy_all (zip (map slots_of kinds) args) to (slots s)\<rparr>"
  using assms
proof (induction kinds arbitrary: args i to s)
  case (Cons kind kinds)
  obtain f args' where args: "args = f # args'" using Cons.prems(2) by (cases args) auto
  define s' where "s' = s\<lparr>code := code s + slot_size E, slots := move (slots_of kind) f to (slots s)\<rparr>"
  have bit0: "bit m i \<longleftrightarrow> is_64 kind" using Cons.prems(3) [of 0] by simp
  have bits: "bit m (Suc i + k) \<longleftrightarrow> is_64 (kinds ! k)" if "k < length kinds" for k
    using Cons.prems(3) [of "Suc k"] that by simp
  have nxt: "next_slot E to (slots_of kind) = to + slots_of kind"
    using Cons.prems(5) by (simp add: next_slot_def)
  have "copy_args E m i (length (kind # kinds)) to s = copy_args E m (Suc i) (length kinds) (to + slots_of kind) s'"
    using Cons.prems(1,4) bit0 nxt mask_test [of i m]
    by (auto simp: args Read_def copy_slot_move slots_of_def s'_def Let_def)
  also have "\<dots> = s'\<lparr>code := code s' + length kinds * slot_size E,
      slots := copy_all (zip (map slots_of kinds) args') (to + slots_of kind) (slots s')\<rparr>"
    using Cons.prems bits by (intro Cons.IH) (auto simp: args s'_def)
  finally show ?case by (simp add: s'_def args)
qed simp

lemma arg_size_mask_bits:
  "j < 32 \<Longrightarrow> bit (arg_size_mask i kinds m) j \<longleftrightarrow> bit m j \<or> i \<le> j \<and> j < i + length kinds \<and> is_64 (kinds ! (j - i))"
proof (induction kinds arbitrary: i m)
  case (Cons kind kinds)
  then show ?case by (auto simp: bit_simps nth_Cons' less_Suc_eq_le push_bit_of_1 Suc_le_eq)
qed auto

subsection \<open>Arguments arrive\<close>

fun exec_copy :: "copy_handler \<Rightarrow> wasm_env \<Rightarrow> interp \<Rightarrow> interp step" where
  "exec_copy k_s2s_CopySlot_ll = s2s_CopySlot_ll"
| "exec_copy k_s2s_CopySlot_lq = s2s_CopySlot_lq"
| "exec_copy k_s2s_CopySlot_ql = s2s_CopySlot_ql"
| "exec_copy k_s2s_CopySlot_qq = s2s_CopySlot_qq"
| "exec_copy k_s2s_CopySlotMulti = s2s_CopySlotMulti"

fun operand_bytes :: "wasm_env \<Rightarrow> emission list \<Rightarrow> nat" where
  "operand_bytes E [] = 0"
| "operand_bytes E (EmitI32Const v # xs) = 4 + operand_bytes E xs"
| "operand_bytes E (EmitSlotOffset v # xs) = slot_size E + operand_bytes E xs"
| "operand_bytes E (x # xs) = operand_bytes E xs"

lemma operand_bytes_slots [simp]: "operand_bytes E (map EmitSlotOffset xs) = length xs * slot_size E"
  by (induction xs) auto

text \<open>The slot offsets of the arguments on the operand stack.\<close>

definition argument_slots :: "nat \<Rightarrow> bool \<Rightarrow> nat list \<Rightarrow> nat list" where
  "argument_slots n is_indirect_call stack = take n (drop (length stack - n - (if is_indirect_call then 1 else 0)) stack)"

lemma two_args_exact:
  assumes "sig = [k0, k1]" "emitted_at E (bytecode s) (code s) (map EmitSlotOffset [to, f0, f1])"
    and "to + sum_list (map slots_of sig) < 2 ^ (8 * slot_size E)"
  shows "exec_copy (kCopySlot32TwoArgFuncs ! ((if is_64 k0 then 1 else 0) + (if is_64 k1 then 2 else 0))) E s =
     Next (s\<lparr>code := code s + 3 * slot_size E, slots := copy_all (zip (map slots_of sig) [f0, f1]) to (slots s)\<rparr>)"
  using assms
  by (auto simp: kCopySlot32TwoArgFuncs_def s2s_CopySlot_ll_def s2s_CopySlot_lq_def s2s_CopySlot_ql_def s2s_CopySlot_qq_def
      Read_def copy_slot_move next_slot_def slots_of_def ac_simps Let_def numeral_3_eq_3)

lemma multi_args_exact:
  assumes "length sig < 32" "length args = length sig"
    and "emitted_at E (bytecode s) (code s)
           (EmitI32Const (of_nat (length sig)) # EmitI32Const (arg_size_mask 0 sig 0) # EmitSlotOffset to # map EmitSlotOffset args)"
    and "to + sum_list (map slots_of sig) < 2 ^ (8 * slot_size E)"
  shows "s2s_CopySlotMulti E s =
     Next (s\<lparr>code := code s + 8 + slot_size E + length sig * slot_size E,
             slots := copy_all (zip (map slots_of sig) args) to (slots s)\<rparr>)"
proof -
  let ?s = "s\<lparr>code := code s + 8 + slot_size E\<rparr>"
  have n: "unat (of_nat (length sig) :: u32) = length sig" using assms(1) by (simp add: unat_of_nat)
  have "s2s_CopySlotMulti E s = Next (copy_args E (arg_size_mask 0 sig 0) 0 (length sig) to ?s)"
    using assms(3) n by (simp add: s2s_CopySlotMulti_def Read_def ac_simps Let_def)
  also have "copy_args E (arg_size_mask 0 sig 0) 0 (length sig) to ?s =
      ?s\<lparr>code := code ?s + length sig * slot_size E, slots := copy_all (zip (map slots_of sig) args) to (slots ?s)\<rparr>"
    using assms by (intro copy_args_exact) (simp_all add: arg_size_mask_bits ac_simps)
  finally show ?thesis by simp
qed

lemma exec_emitted:
  assumes fast: "1 < length sig" "length sig < 32" "\<not> has_ref_or_simd sig"
    and stack: "length sig + (if ind then 1 else 0) \<le> length stack"
    and emit: "InitSlotsForFunctionArgs has_ref_or_simd sig ind stack created = EmitFnId h # ops"
      "emitted_at E (bytecode s) (code s) ops"
    and range: "created ! 0 + sum_list (map slots_of sig) < 2 ^ (8 * slot_size E)"
  shows "exec_copy h E s =
     Next (s\<lparr>code := code s + operand_bytes E ops,
             slots := copy_all (zip (map slots_of sig) (argument_slots (length sig) ind stack)) (created ! 0) (slots s)\<rparr>)"
proof -
  let ?args = "argument_slots (length sig) ind stack"
  have len: "length ?args = length sig" using stack by (auto simp: argument_slots_def)
  show ?thesis
  proof (cases "length sig = 2")
    case True
    obtain k0 k1 where sig: "sig = [k0, k1]" using True by (auto simp: length_Suc_conv numeral_2_eq_2)
    obtain f0 f1 where args: "?args = [f0, f1]" using len sig by (auto simp: length_Suc_conv)
    have h: "h = kCopySlot32TwoArgFuncs ! ((if is_64 k0 then 1 else 0) + (if is_64 k1 then 2 else 0))"
      and ops: "ops = map EmitSlotOffset [created ! 0, f0, f1]"
      using emit(1) fast args sig by (auto simp: InitSlotsForFunctionArgs_def argument_slots_def Let_def)
    then show ?thesis
      using two_args_exact [OF sig _ range, of s f0 f1] emit(2) args by (simp add: ops h)
  next
    case False
    then have h: "h = k_s2s_CopySlotMulti"
      and ops: "ops = EmitI32Const (of_nat (length sig)) # EmitI32Const (arg_size_mask 0 sig 0) # EmitSlotOffset (created ! 0) #
          map EmitSlotOffset ?args"
      using emit(1) fast by (auto simp: InitSlotsForFunctionArgs_def argument_slots_def Let_def)
    show ?thesis
      using multi_args_exact [OF fast(2) len _ range] emit(2) len by (simp add: h ops ac_simps)
  qed
qed

text \<open>
  C26: Argument passing is right end to end: for a call with two to thirty-one parameters without
  references or vectors, executing the one instruction that the generator emits puts every argument,
  32-bit or 64-bit, into the slots created for its parameter, consumes exactly the emitted operands and
  changes nothing else. It relies on the created slots being consecutive and apart from
  the slots the arguments are in.\<close>

theorem arguments_arrive:
  assumes "1 < length sig" "length sig < 32" "\<not> has_ref_or_simd sig"
    and "length sig + (if ind then 1 else 0) \<le> length stack"
    and "InitSlotsForFunctionArgs has_ref_or_simd sig ind stack created = EmitFnId h # ops"
    and "emitted_at E (bytecode s) (code s) ops"
    and "\<And>k. k < length sig \<Longrightarrow> created ! k = created ! 0 + sum_list (map slots_of (take k sig))"
    and "created ! 0 + sum_list (map slots_of sig) < 2 ^ (8 * slot_size E)"
    and "apart (created ! 0) (created ! 0 + sum_list (map slots_of sig))
           (zip (map slots_of sig) (argument_slots (length sig) ind stack))"
  shows "\<exists>sl. exec_copy h E s = Next (s\<lparr>code := code s + operand_bytes E ops, slots := sl\<rparr>) \<and>
     (\<forall>k j. k < length sig \<and> j < slots_of (sig ! k) \<longrightarrow>
        sl (created ! k + j) = slots s (argument_slots (length sig) ind stack ! k + j)) \<and>
     (\<forall>i. i < created ! 0 \<or> created ! 0 + sum_list (map slots_of sig) \<le> i \<longrightarrow> sl i = slots s i)"
proof -
  let ?args = "argument_slots (length sig) ind stack"
  let ?xs = "zip (map slots_of sig) ?args"
  have len: "length ?args = length sig" using assms(4) by (auto simp: argument_slots_def)
  then have fst: "map fst ?xs = map slots_of sig" "map fst (take k ?xs) = map slots_of (take k sig)" for k
    by (simp_all add: take_zip take_map)
  have "copy_all ?xs (created ! 0) (slots s) (created ! k + j) = slots s (?args ! k + j)"
    if "k < length sig" "j < slots_of (sig ! k)" for k j
    using copy_all_inside [OF assms(9) order.refl, of k j "slots s"] that len assms(7) [of k] by (simp add: fst)
  moreover have "copy_all ?xs (created ! 0) (slots s) i = slots s i"
    if "i < created ! 0 \<or> created ! 0 + sum_list (map slots_of sig) \<le> i" for i
    using copy_all_outside [of i "created ! 0" ?xs] that by (simp add: fst)
  ultimately show ?thesis using exec_emitted [OF assms(1-6,8)] by blast
qed

text \<open>A call with an i32, an i64 and an f32 argument in the slots 0, 1 and 3, and parameters from slot 8 on.\<close>

definition call_ops :: "emission list" where
  "call_ops = [EmitI32Const 3, EmitI32Const 2, EmitSlotOffset 8, EmitSlotOffset 0, EmitSlotOffset 1, EmitSlotOffset 3]"

definition call_state :: interp where
  "call_state = \<lparr>bytecode = (\<lambda>i. if i = 0 then 3 else if i = 4 then 2 else if i = 8 then 8 else if i = 16 then 1
        else if i = 20 then 3 else 0), code = 0, slots = (\<lambda>i. of_nat (100 + i)), r0 = 0, memory = (\<lambda>_. []), globals = (\<lambda>_. 0)\<rparr>"

theorem arguments_arrive_witness:
  "\<exists>sl. exec_copy k_s2s_CopySlotMulti plain_env call_state = Next (call_state\<lparr>code := 24, slots := sl\<rparr>) \<and>
     sl 8 = 100 \<and> sl 9 = 101 \<and> sl 10 = 102 \<and> sl 11 = 103 \<and> sl 12 = 112"
proof -
  let ?sig = "[kI32, kI64, kF32]" and ?stack = "[0, 1, 3] :: nat list" and ?created = "[8, 9, 11] :: nat list"
  have emit: "InitSlotsForFunctionArgs (\<lambda>_. False) ?sig False ?stack ?created = EmitFnId k_s2s_CopySlotMulti # call_ops"
    by (simp add: InitSlotsForFunctionArgs_def call_ops_def is_64_def Let_def)
  have at: "emitted_at plain_env (bytecode call_state) (code call_state) call_ops"
    by (simp add: call_ops_def call_state_def plain_env_def upt_rec)
  have created: "?created ! k = ?created ! 0 + sum_list (map slots_of (take k ?sig))" if "k < length ?sig" for k
  proof -
    from that consider "k = 0" | "k = 1" | "k = 2" by fastforce
    then show ?thesis by cases (simp_all add: slots_of_def is_64_def)
  qed
  have ap: "apart (?created ! 0) (?created ! 0 + sum_list (map slots_of ?sig))
      (zip (map slots_of ?sig) (argument_slots (length ?sig) False ?stack))"
    by (simp add: apart_def slots_of_def is_64_def argument_slots_def)
  obtain sl where sl: "exec_copy k_s2s_CopySlotMulti plain_env call_state =
        Next (call_state\<lparr>code := code call_state + operand_bytes plain_env call_ops, slots := sl\<rparr>)"
      "\<forall>k j. k < length ?sig \<and> j < slots_of (?sig ! k) \<longrightarrow>
        sl (?created ! k + j) = slots call_state (argument_slots (length ?sig) False ?stack ! k + j)"
      "\<forall>i. i < ?created ! 0 \<or> ?created ! 0 + sum_list (map slots_of ?sig) \<le> i \<longrightarrow> sl i = slots call_state i"
    using arguments_arrive [OF _ _ _ _ emit at created _ ap]
    by (auto simp: slots_of_def is_64_def plain_env_def)
  have "sl 8 = 100" "sl 9 = 101" "sl 10 = 102" "sl 11 = 103"
    using sl(2) [rule_format, of 0 0] sl(2) [rule_format, of 1 0] sl(2) [rule_format, of 1 1] sl(2) [rule_format, of 2 0]
    by (simp_all add: slots_of_def is_64_def argument_slots_def call_state_def)
  moreover have "sl 12 = 112" using sl(3) [rule_format, of 12] by (simp add: slots_of_def is_64_def call_state_def)
  moreover have "code call_state + operand_bytes plain_env call_ops = 24"
    by (simp add: call_ops_def plain_env_def call_state_def)
  ultimately show ?thesis using sl(1) by auto
qed

end
