(* ===== verification/Wasm_Locals.thy ===== *)
theory Wasm_Locals
  imports Wasm_Slots Wasm_Memory
begin

text \<open>
  How the bytecode generator of the interpreter (\<^verbatim>\<open>WasmBytecodeGenerator\<close> in
  \<^verbatim>\<open>v8/src/wasm/interpreter/wasm-interpreter.cc\<close>) keeps locals and operands in slots. The entries of its symbolic
  stack are slot indices; a \<^verbatim>\<open>local.get\<close> emits no code, it pushes the index of the local's slot once more, and
  \<^verbatim>\<open>local.set\<close> and \<^verbatim>\<open>local.tee\<close> first move the entries that share the slot to a new one (copy on write). The
  block functions look only at the entries of the current block, so locals are unshared before a block begins, and the
  parameters and results of blocks get slots of their own.

  The lemmas are on the generator and the interpreter together: they say what executing the copies that are emitted does to
  the slots, for one operation and its copies. \<^verbatim>\<open>Wasm_Blocks\<close> composes them for sequences of local accesses and begins
  and ends of blocks. A value that another instruction computes enters through the register only (\<^verbatim>\<open>local.set\<close> and
  \<^verbatim>\<open>local.tee\<close> from \<^verbatim>\<open>r0\<close>); no operation pushes such a result on the stack.

  The primitive operations on the generator's stack and slots are in the interpreter's header, not in the overlay: they are the
  parameter \<open>gen_api\<close> with the law \<open>gen_api_ok\<close>.
\<close>

subsection \<open>The generator\<close>

record gen_slot =
  value_type :: value_kind
  slot_offset :: nat
  ref_stack_index :: nat

datatype block_opcode =
    kExprBlock | kExprLoop | kExprIf | kExprElse | kExprTry | kExprCatch | kExprCatchAll | kExprEnd | kExprReturn
  | kExprBr | kExprBrIf | kExprBrTable | kExprBrOnNull | kExprBrOnNonNull | kExprBrOnCast

text \<open>A block: its signature as the kinds of its parameters and results, the height of the stack where it begins, the first of the slots reserved for it.\<close>

record block_data =
  b_opcode :: block_opcode
  b_parent :: nat
  b_stack_size :: nat
  b_params :: "value_kind list"
  b_rets :: "value_kind list"
  b_first_block_index :: nat
  b_saved_params :: "nat list"

datatype copy_fn =
    k_s2s_CopySlot32 | k_s2s_CopySlot64 | k_s2s_CopySlot128 | k_s2s_CopySlotRef
  | k_s2s_CopySlot32x2 | k_s2s_CopySlot64x2
  | k_r2s_CopyR0ToSlot32 | k_r2s_CopyR0ToSlot64 | k_r2s_CopyFp0ToSlot32 | k_r2s_CopyFp0ToSlot64
  | k_s2s_PreserveCopySlot32 | k_s2s_PreserveCopySlot64 | k_s2s_PreserveCopySlot128 | k_s2s_PreserveCopySlotRef
  | k_r2s_PreserveCopyR0ToSlot32 | k_r2s_PreserveCopyR0ToSlot64 | k_r2s_PreserveCopyFp0ToSlot32 | k_r2s_PreserveCopyFp0ToSlot64
  | k_s2s_OnLoopBegin

text \<open>An emitted instruction: the handler and its operands, slot offsets or indices of reference slots.\<close>

type_synonym instr = "copy_fn \<times> nat list"

record gen =
  stack_idx :: "nat list"
  gslots :: "gen_slot list"
  blocks :: "block_data list"
  current_block_index :: nat
  args_count :: nat
  locals_count :: nat
  out :: "instr list"

record gen_api =
  CreateSlot :: "value_kind \<Rightarrow> gen \<Rightarrow> nat \<times> gen"
  UpdateStack :: "nat \<Rightarrow> nat \<Rightarrow> gen \<Rightarrow> gen"
  PushNewSlot :: "value_kind \<Rightarrow> gen \<Rightarrow> gen"
  PushCopySlot :: "nat \<Rightarrow> gen \<Rightarrow> gen"
  PopSlot :: "gen \<Rightarrow> gen"

definition emit :: "copy_fn \<Rightarrow> nat list \<Rightarrow> gen \<Rightarrow> gen" where
  "emit f ops g = g\<lparr>out := out g @ [(f, ops)]\<rparr>"

definition start_slot_index :: "gen \<Rightarrow> nat" where
  "start_slot_index g = b_stack_size (blocks g ! current_block_index g)"

definition HasSharedSlot :: "nat \<Rightarrow> gen \<Rightarrow> bool" where
  "HasSharedSlot stack_index g \<longleftrightarrow>
     list_ex (\<lambda>i. stack_idx g ! i = stack_idx g ! stack_index) [start_slot_index g..<length (stack_idx g)]"

definition FindSharedSlot :: "gen_api \<Rightarrow> nat \<Rightarrow> gen \<Rightarrow> (nat \<times> gen) option" where
  "FindSharedSlot A stack_index g =
     (let vt = value_type (gslots g ! (stack_idx g ! stack_index)); start = start_slot_index g
      in if list_ex (\<lambda>i. stack_idx g ! i = stack_idx g ! stack_index) [start..<length (stack_idx g)] then
           (let (new_slot_index, g) = CreateSlot A vt g
            in Some (new_slot_index,
                 fold (\<lambda>i g. if stack_idx g ! i = stack_idx g ! stack_index then UpdateStack A i new_slot_index g else g)
                   [start..<length (stack_idx g)] g))
         else None)"

fun copy_handler_of :: "value_kind \<Rightarrow> bool \<Rightarrow> copy_fn" where
  "copy_handler_of kI32 reg = (if reg then k_r2s_CopyR0ToSlot32 else k_s2s_CopySlot32)"
| "copy_handler_of kI64 reg = (if reg then k_r2s_CopyR0ToSlot64 else k_s2s_CopySlot64)"
| "copy_handler_of kF32 reg = (if reg then k_r2s_CopyFp0ToSlot32 else k_s2s_CopySlot32)"
| "copy_handler_of kF64 reg = (if reg then k_r2s_CopyFp0ToSlot64 else k_s2s_CopySlot64)"
| "copy_handler_of kS128 reg = k_s2s_CopySlot128"
| "copy_handler_of kRef reg = k_s2s_CopySlotRef"

definition gen_EmitCopySlot :: "value_kind \<Rightarrow> nat \<Rightarrow> nat \<Rightarrow> bool \<Rightarrow> gen \<Rightarrow> gen" where
  "gen_EmitCopySlot kind from_slot_index to_slot_index copy_from_reg g =
     (let from_slot = gslots g ! from_slot_index; to_slot = gslots g ! to_slot_index
      in emit (copy_handler_of kind copy_from_reg)
           (if kind = kRef then [ref_stack_index from_slot, ref_stack_index to_slot]
            else (if copy_from_reg then [] else [slot_offset from_slot]) @ [slot_offset to_slot]) g)"

fun preserve_handler_of :: "value_kind \<Rightarrow> bool \<Rightarrow> copy_fn" where
  "preserve_handler_of kI32 reg = (if reg then k_r2s_PreserveCopyR0ToSlot32 else k_s2s_PreserveCopySlot32)"
| "preserve_handler_of kI64 reg = (if reg then k_r2s_PreserveCopyR0ToSlot64 else k_s2s_PreserveCopySlot64)"
| "preserve_handler_of kF32 reg = (if reg then k_r2s_PreserveCopyFp0ToSlot32 else k_s2s_PreserveCopySlot32)"
| "preserve_handler_of kF64 reg = (if reg then k_r2s_PreserveCopyFp0ToSlot64 else k_s2s_PreserveCopySlot64)"
| "preserve_handler_of kS128 reg = k_s2s_PreserveCopySlot128"
| "preserve_handler_of kRef reg = k_s2s_PreserveCopySlotRef"

definition CopyToSlot :: "gen_api \<Rightarrow> value_kind \<Rightarrow> nat \<Rightarrow> nat \<Rightarrow> bool \<Rightarrow> gen \<Rightarrow> gen" where
  "CopyToSlot A kind from_slot_index to_stack_index copy_from_reg g =
     (let to_slot_index = stack_idx g ! to_stack_index
      in case FindSharedSlot A to_stack_index g of
           Some (new_slot_index, g) \<Rightarrow>
             (let from_slot = gslots g ! from_slot_index; to_slot = gslots g ! to_slot_index; new_slot = gslots g ! new_slot_index
              in emit (preserve_handler_of kind copy_from_reg)
                   (if kind = kRef then [ref_stack_index from_slot, ref_stack_index to_slot, ref_stack_index new_slot]
                    else (if copy_from_reg then [] else [slot_offset from_slot]) @ [slot_offset to_slot, slot_offset new_slot]) g)
         | None \<Rightarrow> gen_EmitCopySlot kind from_slot_index to_slot_index copy_from_reg g)"

definition CopyToSlotAndPop :: "gen_api \<Rightarrow> value_kind \<Rightarrow> nat \<Rightarrow> bool \<Rightarrow> bool \<Rightarrow> gen \<Rightarrow> gen" where
  "CopyToSlotAndPop A kind to_stack_index is_tee copy_from_reg g =
     (let g = CopyToSlot A kind (last (stack_idx g)) to_stack_index copy_from_reg g
      in if \<not> is_tee \<and> \<not> copy_from_reg then PopSlot A g else g)"

definition PreserveArgsAndLocals :: "gen_api \<Rightarrow> gen \<Rightarrow> gen" where
  "PreserveArgsAndLocals A g =
     (let num_args_and_locals = args_count g + locals_count g
      in if num_args_and_locals \<ge> length (stack_idx g) then g
         else fold (\<lambda>local_index g.
                case FindSharedSlot A local_index g of
                  Some (new_slot_index, g) \<Rightarrow>
                    gen_EmitCopySlot (value_type (gslots g ! (stack_idx g ! local_index))) (stack_idx g ! local_index) new_slot_index False g
                | None \<Rightarrow> g) [0..<num_args_and_locals] g)"

text \<open>
  Two adjacent copies of one width become one instruction: the handler at \<^verbatim>\<open>last_instr_offset_\<close> is replaced and the second one
  is not emitted. The second argument is the handler there, \<open>None\<close> for \<^verbatim>\<open>kInvalidCodeOffset\<close>; the result is the handler
  written there, \<open>None\<close> for \<^verbatim>\<open>false\<close>.
\<close>

definition TryCompactInstructionHandler :: "copy_fn \<Rightarrow> copy_fn option \<Rightarrow> copy_fn option" where
  "TryCompactInstructionHandler func_id last_instr =
     (case last_instr of
        None \<Rightarrow> None
      | Some prev_instr_handler \<Rightarrow>
          if func_id = k_s2s_CopySlot32 \<and> prev_instr_handler = k_s2s_CopySlot32 then Some k_s2s_CopySlot32x2
          else if func_id = k_s2s_CopySlot64 \<and> prev_instr_handler = k_s2s_CopySlot64 then Some k_s2s_CopySlot64x2
          else None)"

subsection \<open>Block slots\<close>

text \<open>The slots of a block's results and then of its parameters; the index of the first one.\<close>

fun create_slots :: "gen_api \<Rightarrow> value_kind list \<Rightarrow> gen \<Rightarrow> nat list \<times> gen" where
  "create_slots A [] g = ([], g)"
| "create_slots A (k # ks) g = (let (i, g) = CreateSlot A k g; (is, g) = create_slots A ks g in (i # is, g))"

definition ReserveBlockSlots :: "gen_api \<Rightarrow> value_kind list \<Rightarrow> value_kind list \<Rightarrow> gen \<Rightarrow> nat \<times> gen" where
  "ReserveBlockSlots A params rets g =
     (let (is, g) = create_slots A (rets @ params) g in (case is of [] \<Rightarrow> 0 | i # _ \<Rightarrow> i, g))"

definition StoreBlockParamsIntoSlots :: "gen_api \<Rightarrow> nat \<Rightarrow> bool \<Rightarrow> gen \<Rightarrow> gen" where
  "StoreBlockParamsIntoSlots A target_block_index update_stack g =
     (let b = blocks g ! target_block_index; params_count = length (b_params b);
          first_param_slot_index = b_first_block_index b + length (b_rets b)
      in fold (\<lambda>i g.
           let at = length (stack_idx g) - 1 - (params_count - 1) + i;
               from_slot_index = stack_idx g ! at; to_slot_index = first_param_slot_index + i
           in if from_slot_index \<noteq> to_slot_index
              then (let g = gen_EmitCopySlot (b_params b ! i) from_slot_index to_slot_index False g
                    in if update_stack then UpdateStack A at to_slot_index g else g)
              else g) [0..<params_count] g)"

definition is_branch :: "block_opcode \<Rightarrow> bool" where
  "is_branch op \<longleftrightarrow> op \<in> {kExprBr, kExprBrIf, kExprBrTable, kExprBrOnNull, kExprBrOnNonNull, kExprBrOnCast}"

text \<open>\<^verbatim>\<open>stack_.resize(n)\<close>; growing only happens in unreachable code.\<close>

definition resize_stack :: "nat \<Rightarrow> gen \<Rightarrow> gen" where
  "resize_stack n g = g\<lparr>stack_idx := take n (stack_idx g) @ replicate (n - length (stack_idx g)) 0\<rparr>"

definition StoreBlockParamsAndResultsIntoSlots :: "gen_api \<Rightarrow> nat \<Rightarrow> block_opcode \<Rightarrow> gen \<Rightarrow> gen" where
  "StoreBlockParamsAndResultsIntoSlots A target_block_index opcode g =
     (let b = blocks g ! target_block_index; is_loop = b_opcode b = kExprLoop;
          g = (if is_loop \<and> is_branch opcode then StoreBlockParamsIntoSlots A target_block_index False g else g);
          params_count = (if target_block_index = 0 then 0 else length (b_params b)); rets_count = length (b_rets b);
          g = (if \<not> is_loop \<or> \<not> is_branch opcode
               then (let count = min (length (stack_idx g)) rets_count
                     in fold (\<lambda>i g.
                          let from_slot_index = stack_idx g ! (length (stack_idx g) - 1 - (count - 1) + i);
                              to_slot_index = b_first_block_index b + i
                          in if from_slot_index \<noteq> to_slot_index then gen_EmitCopySlot (b_rets b ! i) from_slot_index to_slot_index False g else g)
                        [0..<count] g)
               else g)
      in if \<not> is_branch opcode \<and> opcode \<noteq> kExprReturn \<and> opcode \<noteq> kExprElse \<and> opcode \<noteq> kExprCatch \<and> opcode \<noteq> kExprCatchAll
         then (let g = resize_stack (b_stack_size b - params_count + rets_count) g
               in fold (\<lambda>i g. UpdateStack A (b_stack_size b - params_count + i) (b_first_block_index b + i) g) [0..<rets_count] g)
         else g)"

definition RestoreIfElseParams :: "gen_api \<Rightarrow> nat \<Rightarrow> gen \<Rightarrow> gen" where
  "RestoreIfElseParams A if_block_index g =
     (let b = blocks g ! if_block_index; g = resize_stack (b_stack_size b) g;
          params_count = (if if_block_index = 0 then 0 else length (b_params b))
      in fold (\<lambda>i g. UpdateStack A (b_stack_size b - params_count + i) (b_saved_params b ! i) g) [0..<params_count] g)"

text \<open>
  \<^verbatim>\<open>BeginBlock\<close> and \<^verbatim>\<open>EndBlock\<close> for blocks, loops and conditionals (the code positions and the tables of exception handlers
  are left out). \<open>sig\<close> are the kinds of the parameters and results.
\<close>

definition BeginBlock :: "gen_api \<Rightarrow> block_opcode \<Rightarrow> value_kind list \<times> value_kind list \<Rightarrow> gen \<Rightarrow> gen" where
  "BeginBlock A opcode sig g =
     (let block_index = length (blocks g); size0 = length (stack_idx g); (params, rets) = sig;
          (first_block_index, g) =
            (if block_index > 0 \<and> opcode \<noteq> kExprElse \<and> opcode \<noteq> kExprCatch \<and> opcode \<noteq> kExprCatchAll then ReserveBlockSlots A params rets g else (0, g));
          saved = (if opcode = kExprIf \<and> params \<noteq> [] then drop (size0 - length params) (stack_idx g) else []);
          g = g\<lparr>blocks := blocks g @ [\<lparr>b_opcode = opcode, b_parent = current_block_index g, b_stack_size = size0, b_params = params,
                  b_rets = rets, b_first_block_index = first_block_index, b_saved_params = saved\<rparr>],
                current_block_index := block_index\<rparr>
      in if opcode = kExprLoop then emit k_s2s_OnLoopBegin [] (StoreBlockParamsIntoSlots A block_index True g) else g)"

definition EndBlock :: "gen_api \<Rightarrow> block_opcode \<Rightarrow> gen \<Rightarrow> gen" where
  "EndBlock A opcode g =
     (let g = StoreBlockParamsAndResultsIntoSlots A (current_block_index g) opcode g
      in g\<lparr>current_block_index := b_parent (blocks g ! current_block_index g)\<rparr>)"

text \<open>The cases of \<^verbatim>\<open>DoEncodeInstruction\<close> for locals and for the begin of a block.\<close>

definition EncodeLocalGet :: "gen_api \<Rightarrow> nat \<Rightarrow> gen \<Rightarrow> gen" where
  "EncodeLocalGet A index g = PushCopySlot A index g"

definition EncodeLocalSet :: "gen_api \<Rightarrow> nat \<Rightarrow> bool \<Rightarrow> gen \<Rightarrow> gen" where
  "EncodeLocalSet A index from_reg g = CopyToSlotAndPop A (value_type (gslots g ! (stack_idx g ! index))) index False from_reg g"

definition EncodeLocalTee :: "gen_api \<Rightarrow> nat \<Rightarrow> bool \<Rightarrow> gen \<Rightarrow> gen" where
  "EncodeLocalTee A index from_reg g = CopyToSlotAndPop A (value_type (gslots g ! (stack_idx g ! index))) index True from_reg g"

definition EncodeBlock :: "gen_api \<Rightarrow> block_opcode \<Rightarrow> value_kind list \<times> value_kind list \<Rightarrow> gen \<Rightarrow> gen" where
  "EncodeBlock A opcode sig g = BeginBlock A opcode sig (PreserveArgsAndLocals A g)"

text \<open>\<^verbatim>\<open>kExprEnd\<close> of a block that is neither a conditional nor that of the function.\<close>

definition EncodeEnd :: "gen_api \<Rightarrow> gen \<Rightarrow> gen" where
  "EncodeEnd A g = EndBlock A kExprEnd g"

text \<open>
  \<^verbatim>\<open>GenerateBytecode\<close> up to its loop: slots for the results, which are not on the stack, and for parameters and locals, then the block of
  the function. The index of the enclosing block, -1 in the code, is not read. Between parameters and locals the code leaves room for the
  function's constants (\<^verbatim>\<open>const_slots\<close>); where a slot lies is up to the parameter \<open>CreateSlot\<close>, of which the law only asks that a new
  slot overlap no other, so any such gap is an instance.
\<close>

definition empty_gen :: "nat \<Rightarrow> nat \<Rightarrow> gen" where
  "empty_gen args locals = \<lparr>stack_idx = [], gslots = [], blocks = [], current_block_index = 0, args_count = args, locals_count = locals, out = []\<rparr>"

definition BeginFunction :: "gen_api \<Rightarrow> value_kind list \<Rightarrow> value_kind list \<Rightarrow> value_kind list \<Rightarrow> gen" where
  "BeginFunction A params rets local_types =
     (let g = snd (create_slots A rets (empty_gen (length params) (length local_types)));
          g = fold (PushNewSlot A) params g;
          g = fold (PushNewSlot A) local_types g
      in BeginBlock A kExprBlock (params, rets) g)"

subsection \<open>Executing what is emitted\<close>

text \<open>
  The handlers of the emitted instructions; those of the floating-point register and of references are not modelled. At the begin of a
  loop the runtime checks the stack, which leaves the slots alone.
\<close>

fun run_handler :: "copy_fn \<Rightarrow> wasm_env \<Rightarrow> interp \<Rightarrow> interp step" where
  "run_handler k_s2s_CopySlot32 E s = s2s_CopySlot32 E s"
| "run_handler k_s2s_CopySlot64 E s = s2s_CopySlot64 E s"
| "run_handler k_s2s_CopySlot128 E s = s2s_CopySlot128 E s"
| "run_handler k_s2s_CopySlot32x2 E s = s2s_CopySlot32x2 E s"
| "run_handler k_s2s_CopySlot64x2 E s = s2s_CopySlot64x2 E s"
| "run_handler k_r2s_CopyR0ToSlot32 E s = r2s_CopyR0ToSlot32 E s"
| "run_handler k_r2s_CopyR0ToSlot64 E s = r2s_CopyR0ToSlot64 E s"
| "run_handler k_s2s_PreserveCopySlot32 E s = s2s_PreserveCopySlot32 E s"
| "run_handler k_s2s_PreserveCopySlot64 E s = s2s_PreserveCopySlot64 E s"
| "run_handler k_s2s_PreserveCopySlot128 E s = s2s_PreserveCopySlot128 E s"
| "run_handler k_r2s_PreserveCopyR0ToSlot32 E s = r2s_PreserveCopyR0ToSlot32 E s"
| "run_handler k_r2s_PreserveCopyR0ToSlot64 E s = r2s_PreserveCopyR0ToSlot64 E s"
| "run_handler k_s2s_OnLoopBegin E s = Next s"
| "run_handler _ E s = Undefined"

text \<open>The state in which the handler finds its operands where it reads them.\<close>

definition with_operands :: "wasm_env \<Rightarrow> nat list \<Rightarrow> interp \<Rightarrow> interp" where
  "with_operands E ops s = s\<lparr>bytecode := (\<lambda>i. concat (map (le_bytes (slot_size E)) ops) ! i), code := 0\<rparr>"

fun run :: "wasm_env \<Rightarrow> instr list \<Rightarrow> interp \<Rightarrow> interp step" where
  "run E [] s = Next s"
| "run E ((f, ops) # is) s = bind_step (run_handler f E (with_operands E ops s)) (run E is)"

lemma emitted_operands:
  assumes "\<forall>v \<in> set ops. v < 256 ^ slot_size E"
  shows "emitted_at E (\<lambda>i. (pre @ concat (map (le_bytes (slot_size E)) ops)) ! i) (length pre) (map EmitSlotOffset ops)"
  using assms
proof (induction ops arbitrary: pre)
  case (Cons v ops)
  let ?n = "slot_size E" and ?bs = "pre @ concat (map (le_bytes (slot_size E)) (v # ops))"
  have "map (\<lambda>i. ?bs ! i) [length pre..<length pre + ?n] = take ?n (drop (length pre) ?bs)"
    by (rule nth_equalityI) (auto simp: nth_append)
  also have "\<dots> = le_bytes ?n v" by simp
  finally have "le_nat (map (\<lambda>i. ?bs ! i) [length pre..<length pre + ?n]) = v"
    using Cons.prems by (simp add: le_nat_le_bytes)
  moreover have "emitted_at E (\<lambda>i. ?bs ! i) (length pre + ?n) (map EmitSlotOffset ops)"
    using Cons.IH [of "pre @ le_bytes ?n v"] Cons.prems by simp
  ultimately show ?case by (simp only: list.map emitted_at.simps simp_thms)
qed simp

lemma operands_emitted:
  assumes "\<forall>v \<in> set ops. v < 256 ^ slot_size E"
  shows "emitted_at E (bytecode (with_operands E ops s)) (code (with_operands E ops s)) (map EmitSlotOffset ops)"
  using emitted_operands [OF assms, of "[]"] by (simp add: with_operands_def)

text \<open>What an instruction does to the slots, given the register.\<close>

inductive does :: "instr \<Rightarrow> (u64 \<Rightarrow> (nat \<Rightarrow> u32) \<Rightarrow> (nat \<Rightarrow> u32)) \<Rightarrow> bool" where
  copy32: "does (k_s2s_CopySlot32, [f, t]) (\<lambda>r. move 1 f t)"
| copy64: "does (k_s2s_CopySlot64, [f, t]) (\<lambda>r. move 2 f t)"
| copy128: "does (k_s2s_CopySlot128, [f, t]) (\<lambda>r. move 4 f t)"
| copy32x2: "does (k_s2s_CopySlot32x2, [f, t, f', t']) (\<lambda>r sl. move 1 f' t' (move 1 f t sl))"
| copy64x2: "does (k_s2s_CopySlot64x2, [f, t, f', t']) (\<lambda>r sl. move 2 f' t' (move 2 f t sl))"
| reg32: "does (k_r2s_CopyR0ToSlot32, [t]) (\<lambda>r. slot_write t (ucast r :: u32))"
| reg64: "does (k_r2s_CopyR0ToSlot64, [t]) (\<lambda>r. slot_write t r)"
| preserve32: "does (k_s2s_PreserveCopySlot32, [f, t, p]) (\<lambda>r sl. move 1 f t (move 1 t p sl))"
| preserve64: "does (k_s2s_PreserveCopySlot64, [f, t, p]) (\<lambda>r sl. move 2 f t (move 2 t p sl))"
| preserve128: "does (k_s2s_PreserveCopySlot128, [f, t, p]) (\<lambda>r sl. move 4 f t (move 4 t p sl))"
| preserve_reg32: "does (k_r2s_PreserveCopyR0ToSlot32, [t, p]) (\<lambda>r sl. slot_write t (ucast r :: u32) (move 1 t p sl))"
| preserve_reg64: "does (k_r2s_PreserveCopyR0ToSlot64, [t, p]) (\<lambda>r sl. slot_write t r (move 2 t p sl))"
| loop_begin: "does (k_s2s_OnLoopBegin, []) (\<lambda>r sl. sl)"

lemma does_sound:
  assumes "does i eff" "emitted_at E (bytecode s) (code s) (map EmitSlotOffset (snd i))"
  shows "\<exists>s'. run_handler (fst i) E s = Next s' \<and> slots s' = eff (r0 s) (slots s) \<and> r0 s' = r0 s"
  using assms
  by (induction rule: does.induct)
    (simp_all add: s2s_CopySlot32_def s2s_CopySlot64_def s2s_CopySlot128_def s2s_CopySlot32x2_def s2s_CopySlot64x2_def copy_one_def s2s_PreserveCopySlot32_def s2s_PreserveCopySlot64_def
      s2s_PreserveCopySlot128_def preserve_copy_def r2s_CopyR0ToSlot32_def r2s_CopyR0ToSlot64_def r2s_PreserveCopyR0ToSlot32_def
      r2s_PreserveCopyR0ToSlot64_def copy_register_def Read_def copy_slot_move Let_def)

text \<open>A run of instructions that fit their operands, by its effect.\<close>

definition runs :: "wasm_env \<Rightarrow> instr list \<Rightarrow> interp \<Rightarrow> (nat \<Rightarrow> u32) \<Rightarrow> bool" where
  "runs E is s sl' \<longleftrightarrow> (\<exists>s'. run E is s = Next s' \<and> slots s' = sl' \<and> r0 s' = r0 s)"

definition fits :: "wasm_env \<Rightarrow> instr list \<Rightarrow> bool" where
  "fits E is \<longleftrightarrow> (\<forall>i \<in> set is. \<forall>v \<in> set (snd i). v < 256 ^ slot_size E)"

lemma fits_simps [simp]:
  "fits E []" "fits E (i # is) \<longleftrightarrow> (\<forall>v \<in> set (snd i). v < 256 ^ slot_size E) \<and> fits E is" "fits E (is @ js) \<longleftrightarrow> fits E is \<and> fits E js"
  by (auto simp: fits_def)

lemma run_append: "run E (is @ js) s = bind_step (run E is s) (run E js)"
proof (induction E "is" s rule: run.induct)
  case (2 E f ops "is" s)
  then show ?case by (cases "run_handler f E (with_operands E ops s)") simp_all
qed simp

lemma runs_Nil: "runs E [] s (slots s)"
  by (simp add: runs_def)

lemma runs_one:
  assumes "does i eff" "fits E [i]"
  shows "runs E [i] s (eff (r0 s) (slots s))"
proof -
  obtain f ops where i: "i = (f, ops)" by force
  have "emitted_at E (bytecode (with_operands E ops s)) (code (with_operands E ops s)) (map EmitSlotOffset ops)"
    using assms(2) by (intro operands_emitted) (simp add: i)
  from does_sound [OF assms(1), of E "with_operands E ops s"] this show ?thesis
    by (auto simp: i runs_def with_operands_def)
qed

lemma runs_append:
  assumes "runs E is s sl" and "\<And>s'. slots s' = sl \<Longrightarrow> r0 s' = r0 s \<Longrightarrow> runs E js s' sl'"
  shows "runs E (is @ js) s sl'"
  using assms by (fastforce simp: runs_def run_append)

text \<open>The compaction of a pair of copies does not change what is executed.\<close>

lemma compacted_copies_agree:
  assumes "TryCompactInstructionHandler f (Some f0) = Some h" "fits E [(f0, [a, b]), (f, [c, d])]"
  obtains sl where "runs E [(f0, [a, b]), (f, [c, d])] s sl" "runs E [(h, [a, b] @ [c, d])] s sl"
proof -
  have fit: "fits E [(f0, [a, b])]" "fits E [(f, [c, d])]" "fits E [(h, [a, b] @ [c, d])]" using assms(2) by simp_all
  from assms(1) consider "f = k_s2s_CopySlot32" "f0 = k_s2s_CopySlot32" "h = k_s2s_CopySlot32x2"
    | "f = k_s2s_CopySlot64" "f0 = k_s2s_CopySlot64" "h = k_s2s_CopySlot64x2"
    by (auto simp: TryCompactInstructionHandler_def split: if_splits)
  then obtain w where w: "does (f0, [a, b]) (\<lambda>r. move w a b)" "does (f, [c, d]) (\<lambda>r. move w c d)"
      "does (h, [a, b] @ [c, d]) (\<lambda>r sl. move w c d (move w a b sl))"
    by cases (auto intro: does.intros does.intros [unfolded One_nat_def])
  let ?sl = "move w c d (move w a b (slots s))"
  have "runs E ([(f0, [a, b])] @ [(f, [c, d])]) s ?sl"
  proof (rule runs_append [OF runs_one [OF w(1) fit(1)]])
    show "runs E [(f, [c, d])] s' ?sl" if "slots s' = move w a b (slots s)" for s'
      using runs_one [OF w(2) fit(2), of s'] that by simp
  qed
  moreover have "runs E [(h, [a, b] @ [c, d])] s ?sl" using runs_one [OF w(3) fit(3), of s] .
  ultimately show thesis using that by simp
qed
subsection \<open>Contents of the slots\<close>

fun width :: "value_kind \<Rightarrow> nat" where
  "width kI32 = 1" | "width kI64 = 2" | "width kF32 = 1" | "width kF64 = 2" | "width kS128 = 4" | "width kRef = 2"

definition slot_words :: "(nat \<Rightarrow> u32) \<Rightarrow> gen_slot \<Rightarrow> u32 list" where
  "slot_words sl b = map sl [slot_offset b..<slot_offset b + width (value_type b)]"

definition contents :: "gen \<Rightarrow> (nat \<Rightarrow> u32) \<Rightarrow> u32 list list" where
  "contents g sl = map (slot_words sl) (gslots g)"

text \<open>The values of locals and operands, bottom first.\<close>

definition vals :: "gen \<Rightarrow> (nat \<Rightarrow> u32) \<Rightarrow> u32 list list" where
  "vals g sl = map (\<lambda>i. contents g sl ! i) (stack_idx g)"

definition apart_slots :: "gen_slot \<Rightarrow> gen_slot \<Rightarrow> bool" where
  "apart_slots a b \<longleftrightarrow> slot_offset a + width (value_type a) \<le> slot_offset b \<or> slot_offset b + width (value_type b) \<le> slot_offset a"

definition disjoint_slots :: "gen_slot list \<Rightarrow> bool" where
  "disjoint_slots ss \<longleftrightarrow> (\<forall>i < length ss. \<forall>j < length ss. i \<noteq> j \<longrightarrow> apart_slots (ss ! i) (ss ! j))"

definition fresh_slot :: "gen_slot list \<Rightarrow> gen_slot \<Rightarrow> bool" where
  "fresh_slot ss b \<longleftrightarrow> (\<forall>a \<in> set ss. apart_slots a b)"

text \<open>What the header's operations promise: a new slot is the last one and shares no storage with the others.\<close>

definition gen_api_ok :: "gen_api \<Rightarrow> bool" where
  "gen_api_ok A \<longleftrightarrow>
     (\<forall>k g. \<exists>b. CreateSlot A k g = (length (gslots g), g\<lparr>gslots := gslots g @ [b]\<rparr>) \<and> value_type b = k \<and> fresh_slot (gslots g) b) \<and>
     (\<forall>i n g. UpdateStack A i n g = g\<lparr>stack_idx := (stack_idx g)[i := n]\<rparr>) \<and>
     (\<forall>k g. PushNewSlot A k g = (let (i, g) = CreateSlot A k g in g\<lparr>stack_idx := stack_idx g @ [i]\<rparr>)) \<and>
     (\<forall>i g. PushCopySlot A i g = g\<lparr>stack_idx := stack_idx g @ [stack_idx g ! i]\<rparr>) \<and>
     (\<forall>g. PopSlot A g = g\<lparr>stack_idx := butlast (stack_idx g)\<rparr>)"

lemma api_create:
  assumes "gen_api_ok A"
  obtains b where "CreateSlot A k g = (length (gslots g), g\<lparr>gslots := gslots g @ [b]\<rparr>)" "value_type b = k" "fresh_slot (gslots g) b"
  using assms unfolding gen_api_ok_def by blast

lemma api_simps:
  assumes "gen_api_ok A"
  shows "UpdateStack A i n g = g\<lparr>stack_idx := (stack_idx g)[i := n]\<rparr>" "PushCopySlot A i g = g\<lparr>stack_idx := stack_idx g @ [stack_idx g ! i]\<rparr>"
    "PopSlot A g = g\<lparr>stack_idx := butlast (stack_idx g)\<rparr>"
  using assms by (simp_all add: gen_api_ok_def)

definition reg_words :: "value_kind \<Rightarrow> u64 \<Rightarrow> u32 list" where
  "reg_words k r = map (\<lambda>j. ucast (drop_bit (32 * j) r)) [0..<width k]"

definition reg_write :: "value_kind \<Rightarrow> nat \<Rightarrow> u64 \<Rightarrow> (nat \<Rightarrow> u32) \<Rightarrow> (nat \<Rightarrow> u32)" where
  "reg_write k t r sl = (if k = kI32 then slot_write t (ucast r :: u32) sl else slot_write t r sl)"

lemma length_contents [simp]: "length (contents g sl) = length (gslots g)"
  by (simp add: contents_def)

lemma length_vals [simp]: "length (vals g sl) = length (stack_idx g)"
  by (simp add: vals_def)

lemma contents_written:
  assumes "disjoint_slots (gslots g)" "t < length (gslots g)"
    and "\<And>i. \<not> (slot_offset (gslots g ! t) \<le> i \<and> i < slot_offset (gslots g ! t) + width (value_type (gslots g ! t))) \<Longrightarrow> sl' i = sl i"
    and "slot_words sl' (gslots g ! t) = ws"
  shows "contents g sl' = (contents g sl)[t := ws]"
proof (rule nth_equalityI)
  fix k assume "k < length (contents g sl')"
  then have k: "k < length (gslots g)" by simp
  show "contents g sl' ! k = (contents g sl)[t := ws] ! k"
  proof (cases "k = t")
    case False
    then have "apart_slots (gslots g ! k) (gslots g ! t)" using assms(1,2) k by (simp add: disjoint_slots_def)
    then have "slot_words sl' (gslots g ! k) = slot_words sl (gslots g ! k)"
      by (auto simp: slot_words_def apart_slots_def intro!: assms(3))
    with False k show ?thesis by (simp add: contents_def)
  qed (use k assms(4) in \<open>simp add: contents_def\<close>)
qed simp

lemma contents_move:
  assumes "disjoint_slots (gslots g)" "t < length (gslots g)" "f < length (gslots g)"
    and "value_type (gslots g ! f) = k" "value_type (gslots g ! t) = k"
  shows "contents g (move (width k) (slot_offset (gslots g ! f)) (slot_offset (gslots g ! t)) sl) = (contents g sl)[t := contents g sl ! f]"
proof (rule contents_written [OF assms(1,2)])
  show "slot_words (move (width k) (slot_offset (gslots g ! f)) (slot_offset (gslots g ! t)) sl) (gslots g ! t) = contents g sl ! f"
    using assms(3-5) by (auto simp: slot_words_def contents_def move_def list_eq_iff_nth_eq)
qed (use assms(5) in \<open>auto simp: move_def\<close>)

lemma contents_reg:
  assumes "disjoint_slots (gslots g)" "t < length (gslots g)" "value_type (gslots g ! t) = k" "k = kI32 \<or> k = kI64"
  shows "contents g (reg_write k (slot_offset (gslots g ! t)) r sl) = (contents g sl)[t := reg_words k r]"
  by (rule contents_written [OF assms(1,2)])
    (use assms(3,4) in \<open>auto simp: slot_words_def reg_write_def reg_words_def slot_write_def list_eq_iff_nth_eq less_Suc_eq numeral_2_eq_2\<close>)

lemma contents_append: "contents (g\<lparr>gslots := gslots g @ new\<rparr>) sl = contents g sl @ map (slot_words sl) new"
  by (simp add: contents_def)

lemma contents_cong [simp]:
  "contents (g\<lparr>stack_idx := S\<rparr>) = contents g" "contents (g\<lparr>out := c\<rparr>) = contents g" "contents (g\<lparr>blocks := B\<rparr>) = contents g"
  "contents (g\<lparr>current_block_index := c'\<rparr>) = contents g"
  by (simp_all add: contents_def fun_eq_iff)

lemma disjoint_slots_snoc: "disjoint_slots ss \<Longrightarrow> fresh_slot ss b \<Longrightarrow> disjoint_slots (ss @ [b])"
  by (auto simp: disjoint_slots_def fresh_slot_def nth_append less_Suc_eq apart_slots_def)

lemma does_copy: "k \<noteq> kRef \<Longrightarrow> does (copy_handler_of k False, [f, t]) (\<lambda>r. move (width k) f t)"
  by (cases k) (auto intro: does.intros does.intros [unfolded One_nat_def])

lemma does_reg: "k = kI32 \<or> k = kI64 \<Longrightarrow> does (copy_handler_of k True, [t]) (reg_write k t)"
  by (auto simp: reg_write_def [abs_def] intro: does.intros does.intros [unfolded One_nat_def])

lemma does_preserve: "k \<noteq> kRef \<Longrightarrow> does (preserve_handler_of k False, [f, t, p]) (\<lambda>r sl. move (width k) f t (move (width k) t p sl))"
  by (cases k) (auto intro: does.intros does.intros [unfolded One_nat_def])

lemma does_preserve_reg:
  "k = kI32 \<or> k = kI64 \<Longrightarrow> does (preserve_handler_of k True, [t, p]) (\<lambda>r sl. reg_write k t r (move (width k) t p sl))"
  by (auto simp: reg_write_def [abs_def] intro: does.intros does.intros [unfolded One_nat_def])

subsection \<open>Sharing\<close>

definition locals_number :: "gen \<Rightarrow> nat" where
  "locals_number g = args_count g + locals_count g"

text \<open>The entries from \<open>start\<close> on that have index \<open>t\<close> get the index \<open>n\<close>.\<close>

definition redirect :: "nat \<Rightarrow> nat \<Rightarrow> nat \<Rightarrow> nat list \<Rightarrow> nat list" where
  "redirect start t n S = map (\<lambda>i. if start \<le> i \<and> S ! i = t then n else S ! i) [0..<length S]"

lemma redirect_props [simp]:
  "length (redirect start t n S) = length S"
  "i < length S \<Longrightarrow> redirect start t n S ! i = (if start \<le> i \<and> S ! i = t then n else S ! i)"
  by (simp_all add: redirect_def)

lemma fold_redirect:
  assumes "gen_api_ok A" "k < start" "m \<le> length (stack_idx g)"
  shows "fold (\<lambda>i g. if stack_idx g ! i = stack_idx g ! k then UpdateStack A i n g else g) [start..<m] g =
    g\<lparr>stack_idx := map (\<lambda>i. if start \<le> i \<and> i < m \<and> stack_idx g ! i = stack_idx g ! k then n else stack_idx g ! i) [0..<length (stack_idx g)]\<rparr>"
  using assms(3)
proof (induction m)
  case 0
  then show ?case by (simp add: map_nth)
next
  case (Suc m)
  let ?S = "stack_idx g"
  let ?T = "\<lambda>m. map (\<lambda>i. if start \<le> i \<and> i < m \<and> ?S ! i = ?S ! k then n else ?S ! i) [0..<length ?S]"
  show ?case
  proof (cases "start \<le> m")
    case True
    have m: "m < length ?S" "k < length ?S" using Suc.prems True assms(2) by simp_all
    have nth: "?T m ! m = ?S ! m" "?T m ! k = ?S ! k" using m assms(2) by simp_all
    have "?T (Suc m) = (if ?S ! m = ?S ! k then (?T m)[m := n] else ?T m)"
      by (rule nth_equalityI) (use m True in \<open>auto simp: nth_list_update less_Suc_eq\<close>)
    then show ?thesis using Suc True m nth by (simp add: api_simps [OF assms(1)])
  next
    case False
    then have "?T (Suc m) = map (\<lambda>i. ?S ! i) [0..<length ?S]" by (intro map_cong) auto
    with False show ?thesis by (simp add: map_nth)
  qed
qed

lemma FindSharedSlot_cases:
  assumes "gen_api_ok A" "k < start_slot_index g" "k < length (stack_idx g)"
  obtains (none) "FindSharedSlot A k g = None" "\<And>i. start_slot_index g \<le> i \<Longrightarrow> i < length (stack_idx g) \<Longrightarrow> stack_idx g ! i \<noteq> stack_idx g ! k"
  | (shared) b where "value_type b = value_type (gslots g ! (stack_idx g ! k))" "fresh_slot (gslots g) b"
      "FindSharedSlot A k g = Some (length (gslots g), g\<lparr>gslots := gslots g @ [b],
         stack_idx := redirect (start_slot_index g) (stack_idx g ! k) (length (gslots g)) (stack_idx g)\<rparr>)"
proof (cases "\<exists>i. start_slot_index g \<le> i \<and> i < length (stack_idx g) \<and> stack_idx g ! i = stack_idx g ! k")
  case True
  let ?start = "start_slot_index g" and ?S = "stack_idx g"
  obtain b where b: "CreateSlot A (value_type (gslots g ! (?S ! k))) g = (length (gslots g), g\<lparr>gslots := gslots g @ [b]\<rparr>)"
      "value_type b = value_type (gslots g ! (?S ! k))" "fresh_slot (gslots g) b"
    by (rule api_create [OF assms(1)])
  have ex: "list_ex (\<lambda>i. ?S ! i = ?S ! k) [?start..<length ?S]" using True by (auto simp: list_ex_iff)
  have *: "map (\<lambda>i. if ?start \<le> i \<and> i < length ?S \<and> ?S ! i = ?S ! k then n else ?S ! i) [0..<length ?S] = redirect ?start (?S ! k) n ?S" for n
    by (auto simp: redirect_def)
  have "FindSharedSlot A k g = Some (length (gslots g), g\<lparr>gslots := gslots g @ [b], stack_idx := redirect ?start (?S ! k) (length (gslots g)) ?S\<rparr>)"
    using fold_redirect [OF assms(1,2), of "length ?S" "g\<lparr>gslots := gslots g @ [b]\<rparr>" "length (gslots g)"] ex b(1) *
    by (simp add: FindSharedSlot_def Let_def cong: if_cong)
  from b(2,3) this show thesis by (rule shared)
next
  case False
  then have "FindSharedSlot A k g = None" by (auto simp: FindSharedSlot_def list_ex_iff Let_def)
  with False show thesis by (intro none) auto
qed

lemma HasSharedSlot_iff: "HasSharedSlot k g \<longleftrightarrow> FindSharedSlot A k g \<noteq> None"
  by (auto simp: HasSharedSlot_def FindSharedSlot_def Let_def split: prod.splits)
subsection \<open>The invariant\<close>

inductive outer :: "block_data list \<Rightarrow> nat \<Rightarrow> nat \<Rightarrow> bool" for B c where
  outer_here: "outer B c c"
| outer_up: "outer B c j \<Longrightarrow> outer B c (b_parent (B ! j))"

definition result_slots :: "block_data \<Rightarrow> nat set" where
  "result_slots b = {b_first_block_index b..<b_first_block_index b + length (b_rets b)}"

definition rets_ok :: "gen_slot list \<Rightarrow> block_data \<Rightarrow> bool" where
  "rets_ok ss b \<longleftrightarrow> (\<forall>i < length (b_rets b). b_first_block_index b + i < length ss \<and> value_type (ss ! (b_first_block_index b + i)) = b_rets b ! i)"

text \<open>
  The recorded blocks: a block with its parameters lies above the locals, and its result slots exist, have the kinds of its results and belong to
  no other block.
\<close>

definition blocks_ok :: "gen \<Rightarrow> bool" where
  "blocks_ok g \<longleftrightarrow> current_block_index g < length (blocks g) \<and> b_stack_size (blocks g ! 0) = locals_number g \<and> b_parent (blocks g ! 0) = 0 \<and>
     (\<forall>j < length (blocks g). let b = blocks g ! j in
        (0 < j \<longrightarrow> b_parent b < j \<and> locals_number g + length (b_params b) \<le> b_stack_size b) \<and>
        rets_ok (gslots g) b \<and> (\<forall>l < j. result_slots (blocks g ! l) \<inter> result_slots b = {}))"

text \<open>
  The stack: locals have slots of their own, an entry shares the slot of a local only above the start of the current block, and the
  result slots of the open blocks are not in use.
\<close>

definition stack_ok :: "gen \<Rightarrow> bool" where
  "stack_ok g \<longleftrightarrow> locals_number g \<le> length (stack_idx g) \<and> (\<forall>i \<in> set (stack_idx g). i < length (gslots g)) \<and>
     distinct (take (locals_number g) (stack_idx g)) \<and> disjoint_slots (gslots g) \<and>
     (\<forall>k < locals_number g. value_type (gslots g ! (stack_idx g ! k)) \<noteq> kRef) \<and>
     (\<forall>i k. k < locals_number g \<and> locals_number g \<le> i \<and> i < start_slot_index g \<and> i < length (stack_idx g) \<longrightarrow> stack_idx g ! i \<noteq> stack_idx g ! k) \<and>
     (\<forall>j. outer (blocks g) (current_block_index g) j \<longrightarrow> result_slots (blocks g ! j) \<inter> set (stack_idx g) = {})"

definition gen_ok :: "gen \<Rightarrow> bool" where
  "gen_ok g \<longleftrightarrow> blocks_ok g \<and> stack_ok g"

lemma rets_ok_append: "rets_ok ss b \<Longrightarrow> rets_ok (ss @ new) b"
  by (auto simp: rets_ok_def nth_append trans_less_add1)

lemma rets_ok_bound: "rets_ok ss b \<Longrightarrow> x \<in> result_slots b \<Longrightarrow> x < length ss"
  unfolding rets_ok_def result_slots_def by (metis atLeastLessThan_iff le_add_diff_inverse nat_add_left_cancel_less)

lemma block_above:
  assumes "blocks_ok g" "j < length (blocks g)"
  shows "locals_number g \<le> b_stack_size (blocks g ! j)"
  using assms by (cases "j = 0") (auto simp: blocks_ok_def Let_def)

lemma outer_le:
  assumes "outer B c j" "b_parent (B ! 0) = 0" "\<And>j. 0 < j \<Longrightarrow> j < length B \<Longrightarrow> b_parent (B ! j) < j" "c < length B"
  shows "j \<le> c"
  using assms(1)
proof induction
  case (outer_up j)
  show ?case
  proof (cases "j = 0")
    case False
    then have "b_parent (B ! j) < j" using outer_up.IH assms(4) by (intro assms(3)) simp_all
    with outer_up.IH show ?thesis by simp
  qed (simp add: assms(2))
qed simp

lemma outer_block:
  assumes "blocks_ok g" "outer (blocks g) (current_block_index g) j"
  shows "j < length (blocks g)"
proof -
  have "j \<le> current_block_index g" using assms(1) by (intro outer_le [OF assms(2)]) (simp_all add: blocks_ok_def Let_def)
  then show ?thesis using assms(1) by (simp add: blocks_ok_def)
qed

lemma locals_below_start:
  assumes "gen_ok g"
  shows "locals_number g \<le> start_slot_index g"
  using assms block_above [of g "current_block_index g"] by (simp add: gen_ok_def blocks_ok_def start_slot_index_def)

text \<open>A change of the stack and new slots at the end keep the invariant under these conditions.\<close>

lemma gen_ok_change:
  assumes "gen_ok g" "g' = g\<lparr>gslots := gslots g @ new, stack_idx := S, out := c\<rparr>" "disjoint_slots (gslots g @ new)"
    and "locals_number g \<le> length S" "take (locals_number g) S = take (locals_number g) (stack_idx g)"
    and "\<And>i. i \<in> set S \<Longrightarrow> i \<in> set (stack_idx g) \<or> length (gslots g) \<le> i \<and> i < length (gslots g @ new)"
    and "\<And>i. locals_number g \<le> i \<Longrightarrow> i < start_slot_index g \<Longrightarrow> i < length S \<Longrightarrow> S ! i \<notin> set (take (locals_number g) (stack_idx g))"
  shows "gen_ok g'"
proof -
  let ?n = "locals_number g"
  have sz: "locals_number g' = ?n" "start_slot_index g' = start_slot_index g" by (simp_all add: assms(2) locals_number_def start_slot_index_def)
  have B: "blocks_ok g" and st: "stack_ok g" using assms(1) by (simp_all add: gen_ok_def)
  have Sk: "S ! k = stack_idx g ! k" if "k < ?n" for k using assms(5) that by (metis nth_take)
  have S: "?n \<le> length (stack_idx g)" "\<And>i. i \<in> set (stack_idx g) \<Longrightarrow> i < length (gslots g)" "distinct (take ?n (stack_idx g))"
    using st by (simp_all add: stack_ok_def)
  have "blocks_ok g'"
    using B rets_ok_append [of "gslots g" _ new] unfolding blocks_ok_def sz by (simp add: assms(2) Let_def)
  moreover have "stack_ok g'"
    unfolding stack_ok_def sz
  proof (intro conjI allI impI ballI)
    show "?n \<le> length (stack_idx g')" "disjoint_slots (gslots g')" using assms(3,4) by (simp_all add: assms(2))
    show "distinct (take ?n (stack_idx g'))" using S(3) assms(5) by (simp add: assms(2))
    show "i < length (gslots g')" if "i \<in> set (stack_idx g')" for i using assms(6) [of i] S(2) [of i] that by (auto simp: assms(2))
    show "value_type (gslots g' ! (stack_idx g' ! k)) \<noteq> kRef" if "k < ?n" for k
    proof -
      have "stack_idx g ! k < length (gslots g)" using that S(1) by (intro S(2) nth_mem) simp
      then show ?thesis using st that Sk [OF that] by (simp add: stack_ok_def assms(2) nth_append)
    qed
    show "stack_idx g' ! i \<noteq> stack_idx g' ! k" if "k < ?n \<and> ?n \<le> i \<and> i < start_slot_index g \<and> i < length (stack_idx g')" for i k
    proof -
      have "stack_idx g ! k \<in> set (take ?n (stack_idx g))" using that S(1) by (auto simp: in_set_conv_nth intro!: exI [of _ k])
      moreover have "S ! i \<notin> set (take ?n (stack_idx g))" using that assms(7) [of i] by (simp add: assms(2))
      ultimately show ?thesis using that Sk [of k] by (auto simp: assms(2))
    qed
    show "result_slots (blocks g' ! j) \<inter> set (stack_idx g') = {}" if "outer (blocks g') (current_block_index g') j" for j
    proof -
      have out: "outer (blocks g) (current_block_index g) j" using that by (simp add: assms(2))
      then have "j < length (blocks g)" by (rule outer_block [OF B])
      then have "rets_ok (gslots g) (blocks g ! j)" using B by (simp add: blocks_ok_def Let_def)
      moreover have "result_slots (blocks g ! j) \<inter> set (stack_idx g) = {}" using st out by (simp add: stack_ok_def)
      ultimately have "x \<notin> set S" if "x \<in> result_slots (blocks g ! j)" for x
        using rets_ok_bound [of "gslots g" "blocks g ! j" x] that assms(6) [of x] by auto
      then show ?thesis by (auto simp: assms(2))
    qed
  qed
  ultimately show ?thesis by (simp add: gen_ok_def)
qed

subsection \<open>Steps of the generator and of its code\<close>

text \<open>The code emitted between two states of the generator does \<open>h\<close> to the values, given the register.\<close>

definition gen_step :: "wasm_env \<Rightarrow> gen \<Rightarrow> gen \<Rightarrow> (u64 \<Rightarrow> u32 list list \<Rightarrow> u32 list list) \<Rightarrow> bool" where
  "gen_step E g g' h \<longleftrightarrow> (\<exists>is. out g' = out g @ is \<and> (fits E is \<longrightarrow> (\<forall>s. \<exists>sl'. runs E is s sl' \<and> vals g' sl' = h (r0 s) (vals g (slots s)))))"

lemma gen_step_trans:
  assumes "gen_step E g g1 h1" "gen_step E g1 g2 h2"
  shows "gen_step E g g2 (\<lambda>r v. h2 r (h1 r v))"
proof -
  obtain i1 where i1: "out g1 = out g @ i1" "fits E i1 \<Longrightarrow> \<exists>sl'. runs E i1 s sl' \<and> vals g1 sl' = h1 (r0 s) (vals g (slots s))" for s
    using assms(1) by (auto simp: gen_step_def)
  obtain i2 where i2: "out g2 = out g1 @ i2" "fits E i2 \<Longrightarrow> \<exists>sl'. runs E i2 s sl' \<and> vals g2 sl' = h2 (r0 s) (vals g1 (slots s))" for s
    using assms(2) by (auto simp: gen_step_def)
  have "\<exists>sl'. runs E (i1 @ i2) s sl' \<and> vals g2 sl' = h2 (r0 s) (h1 (r0 s) (vals g (slots s)))" if f: "fits E (i1 @ i2)" for s
  proof -
    obtain s1 where s1: "run E i1 s = Next s1" "r0 s1 = r0 s" "vals g1 (slots s1) = h1 (r0 s) (vals g (slots s))"
      using i1(2) [of s] f unfolding runs_def by auto
    then show ?thesis using i2(2) [of s1] f by (auto simp: runs_def run_append)
  qed
  then show ?thesis unfolding gen_step_def by (intro exI [of _ "i1 @ i2"]) (simp add: i1(1) i2(1))
qed

lemma gen_step_none:
  assumes "out g' = out g" "\<And>r sl. vals g' sl = h r (vals g sl)"
  shows "gen_step E g g' h"
  unfolding gen_step_def using assms by (intro exI [of _ "[]"]) (auto intro: runs_Nil)

text \<open>One emitted instruction.\<close>

lemma gen_step_one:
  assumes "does i eff" "out g' = out g @ [i]" "\<And>r sl. vals g' (eff r sl) = h r (vals g sl)"
  shows "gen_step E g g' h"
  unfolding gen_step_def using assms(2,3) runs_one [OF assms(1)] by (intro exI [of _ "[i]"]) blast

lemma locals_distinct:
  assumes "stack_ok g" "i < locals_number g" "k < locals_number g" "i \<noteq> k"
  shows "stack_idx g ! i \<noteq> stack_idx g ! k"
proof -
  have "distinct (take (locals_number g) (stack_idx g))" "locals_number g \<le> length (stack_idx g)" using assms(1) by (simp_all add: stack_ok_def)
  with assms(2-4) show ?thesis using nth_eq_iff_index_eq [of "take (locals_number g) (stack_idx g)" i k] by simp
qed

text \<open>Values after a local's slot was overwritten: \<open>n\<close> is the slot that keeps the old value, \<open>t\<close> the local's.\<close>

lemma vals_overwritten:
  assumes g: "gen_ok g" and k: "k < locals_number g" and t: "t = stack_idx g ! k"
    and C: "contents g' sl' = (C @ [C ! t])[t := v]" "C = contents g sl"
    and S: "stack_idx g' = redirect (start_slot_index g) t (length (gslots g)) (stack_idx g)"
  shows "vals g' sl' = (vals g sl)[k := v]"
proof (rule nth_equalityI)
  fix i assume "i < length (vals g' sl')"
  then have i: "i < length (stack_idx g)" by (simp add: S)
  have ok: "stack_ok g" using g by (simp add: gen_ok_def)
  have n: "length C = length (gslots g)" by (simp add: C(2))
  have k': "k < length (stack_idx g)" using k ok by (simp add: stack_ok_def)
  have bound: "stack_idx g ! j < length (gslots g)" if "j < length (stack_idx g)" for j using ok that by (simp add: stack_ok_def)
  have below: "k < start_slot_index g" using k locals_below_start [OF g] by simp
  consider (local_k) "i = k" | (local_j) "i \<noteq> k" "i < locals_number g" | (low) "locals_number g \<le> i" "i < start_slot_index g" | (high) "start_slot_index g \<le> i"
    by linarith
  then show "vals g' sl' ! i = (vals g sl)[k := v] ! i"
  proof cases
    case local_k
    then show ?thesis using k' below bound [OF k'] n by (simp add: vals_def C(1) S t)
  next
    case local_j
    then have "stack_idx g ! i \<noteq> t"
      using locals_distinct [OF ok _ k] by (simp add: t)
    moreover have "i < start_slot_index g" using local_j locals_below_start [OF g] by simp
    ultimately show ?thesis using i local_j bound [OF i] n by (simp add: vals_def C S nth_append)
  next
    case low
    then have "stack_idx g ! i \<noteq> t" using ok k i unfolding t stack_ok_def by blast
    then show ?thesis using i low k bound [OF i] n by (simp add: vals_def C S nth_append)
  next
    case high
    then have "i \<noteq> k" using below by simp
    then show ?thesis using i high bound [OF i] bound [OF k'] n by (auto simp: vals_def C S nth_append t)
  qed
qed (simp add: S)

lemma vals_unshared:
  assumes g: "gen_ok g" and k: "k < locals_number g" and t: "t = stack_idx g ! k"
    and none: "\<And>i. start_slot_index g \<le> i \<Longrightarrow> i < length (stack_idx g) \<Longrightarrow> stack_idx g ! i \<noteq> t"
    and C: "contents g' sl' = (contents g sl)[t := v]" and S: "stack_idx g' = stack_idx g"
  shows "vals g' sl' = (vals g sl)[k := v]"
proof (rule nth_equalityI)
  fix i assume "i < length (vals g' sl')"
  then have i: "i < length (stack_idx g)" by (simp add: S)
  have ok: "stack_ok g" using g by (simp add: gen_ok_def)
  have k': "k < length (stack_idx g)" using k ok by (simp add: stack_ok_def)
  have bound: "stack_idx g ! j < length (gslots g)" if "j < length (stack_idx g)" for j using ok that by (simp add: stack_ok_def)
  have "i \<noteq> k \<Longrightarrow> stack_idx g ! i \<noteq> t"
  proof (cases "i < locals_number g")
    case True
    assume "i \<noteq> k"
    with True show ?thesis using locals_distinct [OF ok _ k] by (simp add: t)
  next
    case False
    then show ?thesis using ok k i none [of i] unfolding t stack_ok_def by (cases "i < start_slot_index g") (simp_all add: not_less)
  qed
  then show "vals g' sl' ! i = (vals g sl)[k := v] ! i"
    using i k' bound [OF i] by (cases "i = k") (simp_all add: vals_def C S t)
qed (simp add: S)

lemma start_unchanged [simp]:
  "start_slot_index (g\<lparr>gslots := G\<rparr>) = start_slot_index g" "start_slot_index (g\<lparr>stack_idx := S\<rparr>) = start_slot_index g"
  "start_slot_index (g\<lparr>out := c\<rparr>) = start_slot_index g"
  "locals_number (g\<lparr>gslots := G\<rparr>) = locals_number g" "locals_number (g\<lparr>stack_idx := S\<rparr>) = locals_number g"
  "locals_number (g\<lparr>out := c\<rparr>) = locals_number g" "locals_number (g\<lparr>blocks := B\<rparr>) = locals_number g"
  "locals_number (g\<lparr>current_block_index := m\<rparr>) = locals_number g"
  by (simp_all add: start_slot_index_def locals_number_def)

lemma below_start_not_local:
  assumes "stack_ok g" "locals_number g \<le> i" "i < start_slot_index g" "i < length (stack_idx g)"
  shows "stack_idx g ! i \<notin> set (take (locals_number g) (stack_idx g))"
proof
  assume "stack_idx g ! i \<in> set (take (locals_number g) (stack_idx g))"
  then obtain k where "k < locals_number g" "stack_idx g ! i = stack_idx g ! k" by (auto simp: in_set_conv_nth)
  with assms show False unfolding stack_ok_def by blast
qed

text \<open>Unsharing the slot of a local keeps the invariant.\<close>

lemma redirected_ok:
  assumes g: "gen_ok g" and k: "k < locals_number g" and b: "fresh_slot (gslots g) b"
  shows "gen_ok (g\<lparr>gslots := gslots g @ [b], stack_idx := redirect (start_slot_index g) (stack_idx g ! k) (length (gslots g)) (stack_idx g), out := c\<rparr>)"
proof (rule gen_ok_change [where g = g and new = "[b]"])
  let ?R = "redirect (start_slot_index g) (stack_idx g ! k) (length (gslots g)) (stack_idx g)" and ?n = "locals_number g"
  have ok: "stack_ok g" using g by (simp add: gen_ok_def)
  have ns: "?n \<le> start_slot_index g" by (rule locals_below_start [OF g])
  show "gen_ok g" by (rule g)
  show "disjoint_slots (gslots g @ [b])" using ok b by (simp add: stack_ok_def disjoint_slots_snoc)
  show "?n \<le> length ?R" using ok by (simp add: stack_ok_def)
  show "take ?n ?R = take ?n (stack_idx g)" using ns ok by (auto simp: list_eq_iff_nth_eq stack_ok_def)
  show "i \<in> set (stack_idx g) \<or> length (gslots g) \<le> i \<and> i < length (gslots g @ [b])" if "i \<in> set ?R" for i
    using that by (auto simp: in_set_conv_nth split: if_splits)
  show "?R ! i \<notin> set (take ?n (stack_idx g))" if "?n \<le> i" "i < start_slot_index g" "i < length ?R" for i
    using below_start_not_local [OF ok] that by auto
qed simp

text \<open>Emitting alone keeps the invariant.\<close>

lemma emitted_ok: "gen_ok (emit f ops g) \<longleftrightarrow> gen_ok g"
proof -
  have "blocks_ok (emit f ops g) = blocks_ok g" "stack_ok (emit f ops g) = stack_ok g"
    by (simp_all add: blocks_ok_def stack_ok_def emit_def)
  then show ?thesis by (simp only: gen_ok_def)
qed

lemma out_emit [simp]: "out (emit f ops g) = out g @ [(f, ops)]" "vals (emit f ops g) = vals g" "contents (emit f ops g) = contents g"
  "stack_idx (emit f ops g) = stack_idx g" "gslots (emit f ops g) = gslots g" "locals_number (emit f ops g) = locals_number g"
  "start_slot_index (emit f ops g) = start_slot_index g" "blocks (emit f ops g) = blocks g" "current_block_index (emit f ops g) = current_block_index g"
  by (simp_all add: emit_def vals_def fun_eq_iff)

lemma EmitCopySlot_fields [simp]:
  "vals (gen_EmitCopySlot k f t r g) = vals g" "contents (gen_EmitCopySlot k f t r g) = contents g"
  "stack_idx (gen_EmitCopySlot k f t r g) = stack_idx g" "gslots (gen_EmitCopySlot k f t r g) = gslots g"
  "locals_number (gen_EmitCopySlot k f t r g) = locals_number g" "blocks (gen_EmitCopySlot k f t r g) = blocks g"
  "current_block_index (gen_EmitCopySlot k f t r g) = current_block_index g" "gen_ok (gen_EmitCopySlot k f t r g) = gen_ok g"
  by (simp_all add: gen_EmitCopySlot_def Let_def emitted_ok)

text \<open>The value that a copy to a local reads.\<close>

definition source_value :: "value_kind \<Rightarrow> nat \<Rightarrow> bool \<Rightarrow> gen \<Rightarrow> u64 \<Rightarrow> (nat \<Rightarrow> u32) \<Rightarrow> u32 list" where
  "source_value kind f reg g r sl = (if reg then reg_words kind r else contents g sl ! f)"

definition source_ok :: "value_kind \<Rightarrow> nat \<Rightarrow> bool \<Rightarrow> gen \<Rightarrow> bool" where
  "source_ok kind f reg g \<longleftrightarrow> (if reg then kind = kI32 \<or> kind = kI64 else f < length (gslots g) \<and> value_type (gslots g ! f) = kind)"

lemma CopyToSlot_correct:
  assumes A: "gen_api_ok A" and g: "gen_ok g" and k: "k < locals_number g"
    and kind: "kind = value_type (gslots g ! (stack_idx g ! k))" and src: "source_ok kind f reg g"
    and val: "\<And>r sl. source_value kind f reg g r sl = w r (vals g sl)"
  shows "gen_step E g (CopyToSlot A kind f k reg g) (\<lambda>r v. v[k := w r v])" and "gen_ok (CopyToSlot A kind f k reg g)"
proof -
  let ?t = "stack_idx g ! k" and ?S = "stack_idx g" and ?n = "length (gslots g)"
  have ok: "stack_ok g" using g by (simp add: gen_ok_def)
  have k': "k < length ?S" "k < start_slot_index g" using k ok locals_below_start [OF g] by (simp_all add: stack_ok_def)
  have t: "?t < ?n" and ref: "kind \<noteq> kRef" and disj: "disjoint_slots (gslots g)"
    using ok k k' kind by (simp_all add: stack_ok_def)
  have "gen_step E g (CopyToSlot A kind f k reg g) (\<lambda>r v. v[k := w r v]) \<and> gen_ok (CopyToSlot A kind f k reg g)"
  proof (cases rule: FindSharedSlot_cases [OF A k'(2,1), case_names none shared])
    case none
    let ?eff = "if reg then reg_write kind (slot_offset (gslots g ! ?t)) else (\<lambda>r. move (width kind) (slot_offset (gslots g ! f)) (slot_offset (gslots g ! ?t)))"
    have C: "CopyToSlot A kind f k reg g = emit (copy_handler_of kind reg) ((if reg then [] else [slot_offset (gslots g ! f)]) @ [slot_offset (gslots g ! ?t)]) g"
      using ref by (simp add: CopyToSlot_def none(1) gen_EmitCopySlot_def Let_def)
    have "does (copy_handler_of kind reg, (if reg then [] else [slot_offset (gslots g ! f)]) @ [slot_offset (gslots g ! ?t)]) ?eff"
      using src ref does_copy does_reg by (auto simp: source_ok_def)
    moreover have "contents g (?eff r sl) = (contents g sl)[?t := source_value kind f reg g r sl]" for r sl
      using src kind t disj by (auto simp: source_ok_def source_value_def contents_move contents_reg)
    then have "vals g (?eff r sl) = (vals g sl)[k := w r (vals g sl)]" for r sl
      using vals_unshared [OF g k refl, where g' = g] none(2) val by simp
    ultimately have "gen_step E g (CopyToSlot A kind f k reg g) (\<lambda>r v. v[k := w r v])"
      unfolding C by (intro gen_step_one) simp_all
    then show ?thesis using g by (simp add: C emitted_ok)
  next
    case (shared b)
    define g1 where "g1 = g\<lparr>gslots := gslots g @ [b], stack_idx := redirect (start_slot_index g) ?t ?n ?S\<rparr>"
    let ?off = "\<lambda>i. slot_offset (gslots g1 ! i)"
    let ?ops = "(if reg then [] else [?off f]) @ [?off ?t, ?off ?n]"
    let ?eff = "\<lambda>r sl. if reg then reg_write kind (?off ?t) r (move (width kind) (?off ?t) (?off ?n) sl)
        else move (width kind) (?off f) (?off ?t) (move (width kind) (?off ?t) (?off ?n) sl)"
    have C: "CopyToSlot A kind f k reg g = emit (preserve_handler_of kind reg) ?ops g1"
      using ref by (simp add: CopyToSlot_def shared(3) g1_def Let_def)
    have d1: "disjoint_slots (gslots g1)" using disj shared(2) by (simp add: g1_def disjoint_slots_snoc)
    have G: "?t < length (gslots g1)" "?n < length (gslots g1)" "value_type (gslots g1 ! ?t) = kind" "value_type (gslots g1 ! ?n) = kind"
      using t kind shared(1) by (auto simp: g1_def nth_append)
    have c1: "contents g1 sl = contents g sl @ [slot_words sl b]" for sl by (simp add: g1_def contents_append)
    have "contents g1 (?eff r sl) = (contents g sl @ [contents g sl ! ?t])[?t := source_value kind f reg g r sl]" for r sl
    proof -
      have "contents g1 (move (width kind) (?off ?t) (?off ?n) sl) = (contents g1 sl)[?n := contents g1 sl ! ?t]"
        using G t by (intro contents_move [OF d1]) (auto simp: g1_def)
      also have "\<dots> = contents g sl @ [contents g sl ! ?t]" using t by (simp add: c1 nth_append list_update_append)
      finally have p: "contents g1 (move (width kind) (?off ?t) (?off ?n) sl) = contents g sl @ [contents g sl ! ?t]" .
      show ?thesis
      proof (cases reg)
        case True
        then show ?thesis using src contents_reg [OF d1 G(1,3)] by (simp add: source_ok_def source_value_def p)
      next
        case False
        then have f: "f < ?n" "value_type (gslots g1 ! f) = kind" using src by (simp_all add: source_ok_def g1_def nth_append)
        then have "f < length (gslots g1)" by (simp add: g1_def)
        from contents_move [OF d1 G(1) this f(2) G(3)] show ?thesis using False f(1) t
          by (auto simp: source_value_def p nth_append)
      qed
    qed
    then have "vals g1 (?eff r sl) = (vals g sl)[k := w r (vals g sl)]" for r sl
      using vals_overwritten [OF g k refl _ refl, where g' = g1] val by (simp add: g1_def)
    moreover have "does (preserve_handler_of kind reg, ?ops) ?eff"
      using src ref does_preserve does_preserve_reg by (auto simp: source_ok_def)
    ultimately have "gen_step E g (CopyToSlot A kind f k reg g) (\<lambda>r v. v[k := w r v])"
      unfolding C by (intro gen_step_one) (simp_all add: g1_def)
    moreover have "gen_ok g1" using redirected_ok [OF g k shared(2), of "out g"] by (simp add: g1_def)
    ultimately show ?thesis by (simp add: C emitted_ok)
  qed
  then show "gen_step E g (CopyToSlot A kind f k reg g) (\<lambda>r v. v[k := w r v])" and "gen_ok (CopyToSlot A kind f k reg g)" by blast+
qed


subsection \<open>Accesses to locals\<close>

text \<open>The kinds of locals and operands, and what the accesses leave alone.\<close>

definition kinds :: "gen \<Rightarrow> value_kind list" where
  "kinds g = map (\<lambda>i. value_type (gslots g ! i)) (stack_idx g)"

definition same_blocks :: "gen \<Rightarrow> gen \<Rightarrow> bool" where
  "same_blocks g g' \<longleftrightarrow> blocks g' = blocks g \<and> current_block_index g' = current_block_index g \<and> locals_number g' = locals_number g"

text \<open>A transition that keeps the invariant and the blocks, and acts on values and kinds as told.\<close>

definition sound_step :: "wasm_env \<Rightarrow> gen \<Rightarrow> gen \<Rightarrow> (u64 \<Rightarrow> u32 list list \<Rightarrow> u32 list list) \<Rightarrow> (value_kind list \<Rightarrow> value_kind list) \<Rightarrow> bool" where
  "sound_step E g g' h hk \<longleftrightarrow> gen_step E g g' h \<and> gen_ok g' \<and> same_blocks g g' \<and> kinds g' = hk (kinds g)"

lemma sound_step_trans:
  assumes "sound_step E g g1 h1 k1" "sound_step E g1 g2 h2 k2"
  shows "sound_step E g g2 (\<lambda>r v. h2 r (h1 r v)) (\<lambda>k. k2 (k1 k))"
  using assms gen_step_trans [of E g g1 h1 g2 h2] by (simp add: sound_step_def same_blocks_def)

lemma sound_step_cong:
  assumes "sound_step E g g' h hk" "\<And>r sl. h' r (vals g sl) = h r (vals g sl)" "hk' (kinds g) = hk (kinds g)"
  shows "sound_step E g g' h' hk'"
  using assms by (simp add: sound_step_def gen_step_def)

lemma length_kinds [simp]: "length (kinds g) = length (stack_idx g)"
  by (simp add: kinds_def)

lemma kinds_redirect:
  assumes "\<forall>i \<in> set (stack_idx g). i < length (gslots g)" "value_type b = value_type (gslots g ! t)"
  shows "kinds (g\<lparr>gslots := gslots g @ [b], stack_idx := redirect start t (length (gslots g)) (stack_idx g), out := c\<rparr>) = kinds g"
  using assms by (auto simp: kinds_def list_eq_iff_nth_eq nth_append)

lemma CopyToSlot_frame:
  assumes "gen_api_ok A" "gen_ok g" "k < locals_number g"
  shows "kinds (CopyToSlot A kind f k reg g) = kinds g" "same_blocks g (CopyToSlot A kind f k reg g)"
proof -
  have ok: "stack_ok g" using assms(2) by (simp add: gen_ok_def)
  have k: "k < start_slot_index g" "k < length (stack_idx g)" using assms(3) ok locals_below_start [OF assms(2)] by (simp_all add: stack_ok_def)
  show "kinds (CopyToSlot A kind f k reg g) = kinds g"
    using ok kinds_redirect [of g _ "stack_idx g ! k"]
    by (cases rule: FindSharedSlot_cases [OF assms(1) k])
      (simp_all add: CopyToSlot_def gen_EmitCopySlot_def Let_def emit_def stack_ok_def kinds_def)
  show "same_blocks g (CopyToSlot A kind f k reg g)"
    by (cases rule: FindSharedSlot_cases [OF assms(1) k])
      (simp_all add: CopyToSlot_def gen_EmitCopySlot_def Let_def emit_def same_blocks_def)
qed

lemma PopSlot_sound:
  assumes "gen_api_ok A" "gen_ok g" "locals_number g < length (stack_idx g)"
  shows "sound_step E g (PopSlot A g) (\<lambda>r. butlast) butlast"
proof -
  have pop: "PopSlot A g = g\<lparr>stack_idx := butlast (stack_idx g)\<rparr>" by (rule api_simps [OF assms(1)])
  have ok: "stack_ok g" using assms(2) by (simp add: gen_ok_def)
  have "gen_ok (PopSlot A g)"
  proof (rule gen_ok_change [OF assms(2), where new = "[]" and c = "out g"])
    show "butlast (stack_idx g) ! i \<notin> set (take (locals_number g) (stack_idx g))"
      if "locals_number g \<le> i" "i < start_slot_index g" "i < length (butlast (stack_idx g))" for i
      using below_start_not_local [OF ok that(1,2)] that(3) by (simp add: nth_butlast)
  qed (use ok assms(3) in \<open>auto simp: pop stack_ok_def butlast_conv_take dest: in_set_takeD\<close>)
  then show ?thesis
    by (simp add: sound_step_def pop same_blocks_def kinds_def map_butlast) (rule gen_step_none, simp_all add: vals_def map_butlast)
qed

lemma EncodeLocalGet_sound:
  assumes "gen_api_ok A" "gen_ok g" "k < locals_number g" "start_slot_index g \<le> length (stack_idx g)"
  shows "sound_step E g (EncodeLocalGet A k g) (\<lambda>r v. v @ [v ! k]) (\<lambda>ks. ks @ [ks ! k])"
proof -
  have get: "EncodeLocalGet A k g = g\<lparr>stack_idx := stack_idx g @ [stack_idx g ! k]\<rparr>" unfolding EncodeLocalGet_def by (rule api_simps [OF assms(1)])
  have ok: "stack_ok g" using assms(2) by (simp add: gen_ok_def)
  then have k: "k < length (stack_idx g)" using assms(3) by (simp add: stack_ok_def)
  have "gen_ok (EncodeLocalGet A k g)"
  proof (rule gen_ok_change [OF assms(2), where new = "[]" and c = "out g"])
    show "(stack_idx g @ [stack_idx g ! k]) ! i \<notin> set (take (locals_number g) (stack_idx g))"
      if "locals_number g \<le> i" "i < start_slot_index g" "i < length (stack_idx g @ [stack_idx g ! k])" for i
      using below_start_not_local [OF ok that(1,2)] that assms(4) by (simp add: nth_append)
  qed (use ok k in \<open>auto simp: get stack_ok_def\<close>)
  then show ?thesis using k
    by (simp add: sound_step_def get same_blocks_def kinds_def) (rule gen_step_none, simp_all add: vals_def)
qed

text \<open>The assignment takes the value from the register or from the top operand.\<close>

definition assigned :: "value_kind \<Rightarrow> bool \<Rightarrow> u64 \<Rightarrow> u32 list list \<Rightarrow> u32 list" where
  "assigned kind reg r v = (if reg then reg_words kind r else last v)"

lemma CopyToSlot_top_sound:
  assumes A: "gen_api_ok A" and g: "gen_ok g" and k: "k < locals_number g" and kind: "kind = kinds g ! k"
    and src: "if reg then kind = kI32 \<or> kind = kI64 else kind = last (kinds g)"
  shows "sound_step E g (CopyToSlot A kind (last (stack_idx g)) k reg g) (\<lambda>r v. v[k := assigned kind reg r v]) (\<lambda>ks. ks)"
proof -
  have ok: "stack_ok g" using g by (simp add: gen_ok_def)
  then have k': "k < length (stack_idx g)" using k by (simp add: stack_ok_def)
  then have ne: "stack_idx g \<noteq> []" by auto
  have kd: "kind = value_type (gslots g ! (stack_idx g ! k))" using k' by (simp add: kind kinds_def)
  have so: "source_ok kind (last (stack_idx g)) reg g" using src ok ne by (auto simp: source_ok_def kinds_def last_map stack_ok_def split: if_splits)
  have sv: "source_value kind (last (stack_idx g)) reg g r sl = assigned kind reg r (vals g sl)" for r sl
    using ne by (simp add: source_value_def assigned_def vals_def last_map)
  show ?thesis
    using CopyToSlot_correct [OF A g k kd so sv] CopyToSlot_frame [OF A g k] by (simp add: sound_step_def)
qed

text \<open>\<^verbatim>\<open>local.set\<close> and \<^verbatim>\<open>local.tee\<close>.\<close>

lemma CopyToSlotAndPop_sound:
  assumes "gen_api_ok A" "gen_ok g" "k < locals_number g" "kind = kinds g ! k"
    and "if reg then kind = kI32 \<or> kind = kI64 else kind = last (kinds g) \<and> locals_number g < length (stack_idx g)"
  shows "sound_step E g (CopyToSlotAndPop A kind k tee reg g)
    (\<lambda>r v. if tee \<or> reg then v[k := assigned kind reg r v] else butlast (v[k := assigned kind reg r v]))
    (\<lambda>ks. if tee \<or> reg then ks else butlast ks)"
proof -
  let ?g1 = "CopyToSlot A kind (last (stack_idx g)) k reg g"
  have 1: "sound_step E g ?g1 (\<lambda>r v. v[k := assigned kind reg r v]) (\<lambda>ks. ks)"
    using assms(5) by (intro CopyToSlot_top_sound [OF assms(1-4)]) (auto split: if_splits)
  show ?thesis
  proof (cases "tee \<or> reg")
    case True
    then have "\<not> (\<not> tee \<and> \<not> reg)" by blast
    with True show ?thesis using 1 by (simp only: CopyToSlotAndPop_def Let_def if_True if_False)
  next
    case False
    have "kinds ?g1 = kinds g" using 1 by (simp add: sound_step_def)
    then have "length (stack_idx ?g1) = length (stack_idx g)" by (metis length_kinds)
    then have "sound_step E ?g1 (PopSlot A ?g1) (\<lambda>r. butlast) butlast"
      using 1 False assms(5) by (intro PopSlot_sound [OF assms(1)]) (auto simp: sound_step_def same_blocks_def)
    from sound_step_trans [OF 1 this] False show ?thesis by (simp add: CopyToSlotAndPop_def Let_def)
  qed
qed

subsection \<open>Unsharing before a block\<close>

text \<open>A copy between two slots of one kind, by its effect on the contents.\<close>

definition copy_step :: "wasm_env \<Rightarrow> gen \<Rightarrow> gen \<Rightarrow> (u32 list list \<Rightarrow> u32 list list) \<Rightarrow> bool" where
  "copy_step E g g' H \<longleftrightarrow> (\<exists>is. out g' = out g @ is \<and> gslots g' = gslots g \<and>
     (fits E is \<longrightarrow> (\<forall>s. \<exists>sl'. runs E is s sl' \<and> contents g sl' = H (contents g (slots s)))))"

lemma contents_same_slots: "gslots g' = gslots g \<Longrightarrow> contents g' sl = contents g sl"
  by (simp add: contents_def)

lemma copy_step_refl: "out g' = out g \<Longrightarrow> gslots g' = gslots g \<Longrightarrow> copy_step E g g' (\<lambda>C. C)"
  unfolding copy_step_def by (intro exI [of _ "[]"]) (auto intro: runs_Nil)

lemma copy_step_trans:
  assumes "copy_step E g g1 H1" "copy_step E g1 g2 H2"
  shows "copy_step E g g2 (\<lambda>C. H2 (H1 C))"
proof -
  obtain i1 where i1: "out g1 = out g @ i1" "gslots g1 = gslots g"
      "fits E i1 \<Longrightarrow> \<exists>sl'. runs E i1 s sl' \<and> contents g sl' = H1 (contents g (slots s))" for s
    using assms(1) by (auto simp: copy_step_def)
  obtain i2 where i2: "out g2 = out g1 @ i2" "gslots g2 = gslots g1"
      "fits E i2 \<Longrightarrow> \<exists>sl'. runs E i2 s sl' \<and> contents g1 sl' = H2 (contents g1 (slots s))" for s
    using assms(2) by (auto simp: copy_step_def)
  have eq: "contents g1 sl = contents g sl" for sl by (rule contents_same_slots [OF i1(2)])
  have "\<exists>sl'. runs E (i1 @ i2) s sl' \<and> contents g sl' = H2 (H1 (contents g (slots s)))" if f: "fits E (i1 @ i2)" for s
  proof -
    obtain s1 where s1: "run E i1 s = Next s1" "r0 s1 = r0 s" "contents g (slots s1) = H1 (contents g (slots s))"
      using i1(3) [of s] f unfolding runs_def by auto
    then show ?thesis using i2(3) [of s1] f by (auto simp: runs_def run_append eq)
  qed
  then show ?thesis unfolding copy_step_def by (intro exI [of _ "i1 @ i2"]) (simp add: i1(1,2) i2(1,2))
qed

lemma gen_step_copy:
  assumes "copy_step E g1 g' H" "out g1 = out g" "\<And>sl sl'. contents g1 sl' = H (contents g1 sl) \<Longrightarrow> vals g' sl' = h (vals g sl)"
  shows "gen_step E g g' (\<lambda>r. h)"
  using assms unfolding copy_step_def gen_step_def by metis

lemma EmitCopySlot_step:
  assumes "disjoint_slots (gslots g)" "f < length (gslots g)" "t < length (gslots g)"
    and "value_type (gslots g ! f) = kind" "value_type (gslots g ! t) = kind" "kind \<noteq> kRef"
  shows "copy_step E g (gen_EmitCopySlot kind f t False g) (\<lambda>C. C[t := C ! f])"
proof -
  let ?i = "(copy_handler_of kind False, [slot_offset (gslots g ! f), slot_offset (gslots g ! t)])"
  have "out (gen_EmitCopySlot kind f t False g) = out g @ [?i]" "gslots (gen_EmitCopySlot kind f t False g) = gslots g"
    using assms(6) by (simp_all add: gen_EmitCopySlot_def)
  moreover have "runs E [?i] s (move (width kind) (slot_offset (gslots g ! f)) (slot_offset (gslots g ! t)) (slots s))" if "fits E [?i]" for s
    using runs_one [OF does_copy [OF assms(6)] that] .
  ultimately show ?thesis
    unfolding copy_step_def using contents_move [OF assms(1,3,2,4,5)] by (intro exI [of _ "[?i]"]) blast
qed

definition unshared :: "nat \<Rightarrow> gen \<Rightarrow> bool" where
  "unshared m g \<longleftrightarrow> (\<forall>k i. k < m \<and> locals_number g \<le> i \<and> i < length (stack_idx g) \<longrightarrow> stack_idx g ! i \<noteq> stack_idx g ! k)"

definition preserve_local :: "gen_api \<Rightarrow> nat \<Rightarrow> gen \<Rightarrow> gen" where
  "preserve_local A k g = (case FindSharedSlot A k g of
       Some (n, g) \<Rightarrow> gen_EmitCopySlot (value_type (gslots g ! (stack_idx g ! k))) (stack_idx g ! k) n False g
     | None \<Rightarrow> g)"

lemma preserve_local_sound:
  assumes A: "gen_api_ok A" and g: "gen_ok g" and k: "k < locals_number g" and un: "unshared k g"
  shows "sound_step E g (preserve_local A k g) (\<lambda>r v. v) (\<lambda>ks. ks)" and "unshared (Suc k) (preserve_local A k g)"
proof -
  let ?t = "stack_idx g ! k" and ?S = "stack_idx g" and ?n = "length (gslots g)" and ?start = "start_slot_index g"
  have ok: "stack_ok g" using g by (simp add: gen_ok_def)
  have ns: "locals_number g \<le> ?start" by (rule locals_below_start [OF g])
  have k': "k < length ?S" "k < ?start" using k ok ns by (simp_all add: stack_ok_def)
  have bound: "?S ! i < ?n" if "i < length ?S" for i using ok that by (simp add: stack_ok_def)
  have low: "?S ! i \<noteq> ?t" if "locals_number g \<le> i" "i < ?start" "i < length ?S" for i using ok that k unfolding stack_ok_def by blast
  have "sound_step E g (preserve_local A k g) (\<lambda>r v. v) (\<lambda>ks. ks) \<and> unshared (Suc k) (preserve_local A k g)"
  proof (cases rule: FindSharedSlot_cases [OF A k'(2,1), case_names none shared])
    case none
    then have "preserve_local A k g = g" by (simp add: preserve_local_def)
    moreover have "?S ! i \<noteq> ?t" if "locals_number g \<le> i" "i < length ?S" for i
      using none(2) [of i] low [of i] that by (cases "i < ?start") (simp_all add: not_less)
    then have "unshared (Suc k) g" using un by (auto simp: unshared_def less_Suc_eq)
    ultimately show ?thesis using g by (simp add: sound_step_def same_blocks_def gen_step_none)
  next
    case (shared b)
    let ?R = "redirect ?start ?t ?n ?S" and ?kind = "value_type (gslots g ! ?t)"
    define g1 where "g1 = g\<lparr>gslots := gslots g @ [b], stack_idx := ?R\<rparr>"
    have R: "?R ! k = ?t" using k' by simp
    have p: "preserve_local A k g = gen_EmitCopySlot ?kind ?t ?n False g1"
      using R bound [OF k'(1)] by (simp add: preserve_local_def shared(3) g1_def nth_append Let_def)
    have ok1: "gen_ok g1" using redirected_ok [OF g k shared(2), of "out g"] by (simp add: g1_def)
    have ref: "?kind \<noteq> kRef" using ok k by (simp add: stack_ok_def)
    have d1: "disjoint_slots (gslots g1)" using ok1 by (simp add: gen_ok_def stack_ok_def)
    have "copy_step E g1 (preserve_local A k g) (\<lambda>C. C[?n := C ! ?t])"
      unfolding p using bound [OF k'(1)] shared(1) ref by (intro EmitCopySlot_step [OF d1]) (auto simp: g1_def nth_append)
    moreover have "vals (preserve_local A k g) sl' = vals g sl" if "contents g1 sl' = (contents g1 sl)[?n := contents g1 sl ! ?t]" for sl sl'
    proof -
      have "contents g1 sl' = (contents g sl @ [contents g sl ! ?t])[?t := contents g sl ! ?t]"
        using bound [OF k'(1)] that by (simp add: g1_def contents_append nth_append list_update_append list_update_same_conv)
      then have "vals g1 sl' = (vals g sl)[k := contents g sl ! ?t]"
        by (intro vals_overwritten [OF g k refl _ refl]) (simp_all add: g1_def)
      also have "\<dots> = vals g sl" using list_update_id [of "vals g sl" k] k' by (simp add: vals_def)
      finally show ?thesis by (simp add: p)
    qed
    ultimately have "gen_step E g (preserve_local A k g) (\<lambda>r v. v)"
      by (intro gen_step_copy [where ?g1.0 = g1 and H = "\<lambda>C. C[?n := C ! ?t]" and h = "\<lambda>v. v"]) (simp_all add: g1_def)
    moreover have "kinds (preserve_local A k g) = kinds g"
      using kinds_redirect [of g b ?t, where start = ?start and c = "out g"] shared(1) ok by (simp add: p g1_def kinds_def stack_ok_def)
    moreover have "gen_ok (preserve_local A k g)" "same_blocks g (preserve_local A k g)"
      using ok1 by (simp_all add: p same_blocks_def g1_def)
    moreover have "unshared (Suc k) g1"
    proof -
      have "?R ! i \<noteq> ?R ! j" if "j < Suc k" "locals_number g \<le> i" "i < length ?S" for i j
      proof -
        have "?R ! j = ?S ! j" "?S ! j < ?n" using that k k' bound by simp_all
        moreover have "j < k \<Longrightarrow> ?S ! i \<noteq> ?S ! j" using un that by (simp add: unshared_def)
        ultimately show ?thesis using that low [of i] by (auto simp: less_Suc_eq)
      qed
      then show ?thesis by (simp add: unshared_def g1_def)
    qed
    then have "unshared (Suc k) (preserve_local A k g)" by (simp add: p unshared_def)
    ultimately show ?thesis by (simp add: sound_step_def)
  qed
  then show "sound_step E g (preserve_local A k g) (\<lambda>r v. v) (\<lambda>ks. ks)" and "unshared (Suc k) (preserve_local A k g)" by blast+
qed

text \<open>Before a block no operand shares the slot of a local, and the values are the same.\<close>

lemma PreserveArgsAndLocals_sound:
  assumes A: "gen_api_ok A" and g: "gen_ok g"
  shows "sound_step E g (PreserveArgsAndLocals A g) (\<lambda>r v. v) (\<lambda>ks. ks)"
    and "unshared (locals_number g) (PreserveArgsAndLocals A g)"
proof -
  have fold: "m \<le> locals_number g \<Longrightarrow> sound_step E g (fold (preserve_local A) [0..<m] g) (\<lambda>r v. v) (\<lambda>ks. ks) \<and>
      unshared m (fold (preserve_local A) [0..<m] g)" for m
  proof (induction m)
    case 0
    then show ?case using g by (simp add: sound_step_def same_blocks_def gen_step_none unshared_def)
  next
    case (Suc m)
    let ?g = "fold (preserve_local A) [0..<m] g"
    have IH: "sound_step E g ?g (\<lambda>r v. v) (\<lambda>ks. ks)" "unshared m ?g" "gen_ok ?g" "m < locals_number ?g"
      using Suc by (simp_all add: sound_step_def same_blocks_def)
    show ?case using sound_step_trans [OF IH(1) preserve_local_sound(1) [OF A IH(3,4,2)]] preserve_local_sound(2) [OF A IH(3,4,2)] by simp
  qed
  have P: "PreserveArgsAndLocals A g = (if locals_number g \<ge> length (stack_idx g) then g else fold (preserve_local A) [0..<locals_number g] g)"
    by (simp add: PreserveArgsAndLocals_def preserve_local_def [abs_def] locals_number_def Let_def)
  show "sound_step E g (PreserveArgsAndLocals A g) (\<lambda>r v. v) (\<lambda>ks. ks)" "unshared (locals_number g) (PreserveArgsAndLocals A g)"
    using fold [of "locals_number g"] g by (auto simp: P sound_step_def same_blocks_def gen_step_none unshared_def)
qed

end
