(* ===== verification/Wasm_Blocks.thy ===== *)
theory Wasm_Blocks
  imports Wasm_Locals
begin

text \<open>
  Blocks in the bytecode generator: the slots reserved for their parameters and results, the copies at begins, ends and branches, and the begin of a
  function. With the accesses to locals of \<^verbatim>\<open>Wasm_Locals\<close> this gives the refinement: the specification is WebAssembly's stack of locals and
  operands with its frames, the implementation is the generator's stack of slot indices together with the execution of what it emits.
\<close>

subsection \<open>Blocks\<close>

text \<open>A sequence of copies to consecutive slots.\<close>

definition copies :: "nat \<Rightarrow> (nat \<Rightarrow> nat) \<Rightarrow> nat \<Rightarrow> u32 list list \<Rightarrow> u32 list list" where
  "copies first f m C = fold (\<lambda>i C. C[first + i := C ! f i]) [0..<m] C"

lemma copies_Suc: "copies first f (Suc m) C = (copies first f m C)[first + m := copies first f m C ! f m]"
  by (simp add: copies_def)

lemma length_copies [simp]: "length (copies first f m C) = length C"
  by (induction m) (simp_all add: copies_Suc, simp add: copies_def)

lemma copies_nth:
  assumes "first + m \<le> length C" "\<And>i j. i < m \<Longrightarrow> j < m \<Longrightarrow> f i \<noteq> first + j"
  shows "copies first f m C ! x = (if first \<le> x \<and> x < first + m then C ! f (x - first) else C ! x)"
  using assms
proof (induction m arbitrary: x)
  case 0
  then show ?case by (auto simp: copies_def)
next
  case (Suc m)
  have IH: "copies first f m C ! y = (if first \<le> y \<and> y < first + m then C ! f (y - first) else C ! y)" for y
    using Suc by simp
  have "\<not> (first \<le> f m \<and> f m < first + m)" using Suc.prems(2) [of m "f m - first"] by fastforce
  then have "copies first f m C ! f m = C ! f m" by (auto simp: IH)
  then show ?case using Suc.prems(1) by (cases "x = first + m") (auto simp: copies_Suc IH nth_list_update)
qed

text \<open>The loops of the generator that emit copies: before the round \<open>i\<close> the stack is \<open>T i\<close>.\<close>

lemma emitted_copies:
  assumes step: "\<And>i g'. i < m \<Longrightarrow> stack_idx g' = T i \<Longrightarrow> gslots g' = gslots g \<Longrightarrow>
      F i g' = (if f i \<noteq> first + i then gen_EmitCopySlot (value_type (gslots g ! (first + i))) (f i) (first + i) False g' else g')\<lparr>stack_idx := T (Suc i)\<rparr>"
    and T: "T 0 = stack_idx g" and d: "disjoint_slots (gslots g)"
    and slots: "\<And>i. i < m \<Longrightarrow> f i < length (gslots g) \<and> first + i < length (gslots g) \<and>
      value_type (gslots g ! f i) = value_type (gslots g ! (first + i)) \<and> value_type (gslots g ! (first + i)) \<noteq> kRef"
  shows "\<exists>c. fold F [0..<m] g = g\<lparr>stack_idx := T m, out := c\<rparr> \<and> copy_step E g (fold F [0..<m] g) (copies first f m)"
  using step slots
proof (induction m)
  case 0
  have "copies first f 0 = (\<lambda>C. C)" by (simp add: copies_def fun_eq_iff)
  then show ?case by (intro exI [of _ "out g"]) (simp add: T copy_step_refl)
next
  case (Suc m)
  obtain c where c: "fold F [0..<m] g = g\<lparr>stack_idx := T m, out := c\<rparr>" and cs: "copy_step E g (fold F [0..<m] g) (copies first f m)"
    using Suc.IH Suc.prems by (metis less_Suc_eq)
  let ?g = "fold F [0..<m] g" and ?k = "value_type (gslots g ! (first + m))"
  have G: "gslots ?g = gslots g" "stack_idx ?g = T m" by (simp_all add: c)
  let ?h = "if f m \<noteq> first + m then gen_EmitCopySlot ?k (f m) (first + m) False ?g else ?g"
  have F: "F m ?g = ?h\<lparr>stack_idx := T (Suc m)\<rparr>" by (rule Suc.prems(1)) (simp_all add: G)
  have "copy_step E ?g ?h (\<lambda>C. C[first + m := C ! f m])"
  proof (cases "f m = first + m")
    case True
    then show ?thesis using copy_step_refl [of ?g ?g] by simp
  next
    case False
    then show ?thesis using Suc.prems(2) [of m] d EmitCopySlot_step [of ?g "f m" "first + m" ?k E] by (simp add: G)
  qed
  then have "copy_step E ?g (F m ?g) (\<lambda>C. C[first + m := C ! f m])" by (simp add: F copy_step_def)
  from copy_step_trans [OF cs this] have "copy_step E g (fold F [0..<Suc m] g) (copies first f (Suc m))" by (simp add: copies_Suc [abs_def])
  moreover have "?h\<lparr>stack_idx := T (Suc m)\<rparr> = g\<lparr>stack_idx := T (Suc m), out := out ?h\<rparr>" by (simp add: c gen_EmitCopySlot_def emit_def Let_def)
  then have "F m ?g = g\<lparr>stack_idx := T (Suc m), out := out (F m ?g)\<rparr>" unfolding F by simp
  ultimately show ?case by (intro exI [of _ "out (F m ?g)"]) simp
qed

text \<open>The slots of a new block.\<close>

lemma create_slots_spec:
  assumes "gen_api_ok A"
  obtains new where "create_slots A ks g = ([length (gslots g)..<length (gslots g) + length ks], g\<lparr>gslots := gslots g @ new\<rparr>)"
    "map value_type new = ks" "disjoint_slots (gslots g) \<longrightarrow> disjoint_slots (gslots g @ new)"
proof -
  have "\<exists>new. create_slots A ks g = ([length (gslots g)..<length (gslots g) + length ks], g\<lparr>gslots := gslots g @ new\<rparr>) \<and>
      map value_type new = ks \<and> (disjoint_slots (gslots g) \<longrightarrow> disjoint_slots (gslots g @ new))"
  proof (induction ks arbitrary: g)
    case Nil
    then show ?case by simp
  next
    case (Cons k ks)
    obtain b where b: "CreateSlot A k g = (length (gslots g), g\<lparr>gslots := gslots g @ [b]\<rparr>)" "value_type b = k" "fresh_slot (gslots g) b"
      by (rule api_create [OF assms])
    let ?g = "g\<lparr>gslots := gslots g @ [b]\<rparr>"
    obtain new where n: "create_slots A ks ?g = ([length (gslots ?g)..<length (gslots ?g) + length ks], ?g\<lparr>gslots := gslots ?g @ new\<rparr>)"
        "map value_type new = ks" "disjoint_slots (gslots ?g) \<longrightarrow> disjoint_slots (gslots ?g @ new)"
      using Cons.IH [of ?g] by blast
    show ?case
      using b n disjoint_slots_snoc [OF _ b(3)] by (intro exI [of _ "b # new"]) (simp add: upt_conv_Cons del: upt_Suc)
  qed
  then show thesis using that by blast
qed

lemma ReserveBlockSlots_spec:
  assumes "gen_api_ok A"
  obtains new first where "ReserveBlockSlots A ps rs g = (first, g\<lparr>gslots := gslots g @ new\<rparr>)" "map value_type new = rs @ ps"
    "disjoint_slots (gslots g) \<longrightarrow> disjoint_slots (gslots g @ new)" "rs @ ps \<noteq> [] \<Longrightarrow> first = length (gslots g)"
proof -
  obtain new where n: "create_slots A (rs @ ps) g = ([length (gslots g)..<length (gslots g) + length (rs @ ps)], g\<lparr>gslots := gslots g @ new\<rparr>)"
    "map value_type new = rs @ ps" "disjoint_slots (gslots g) \<longrightarrow> disjoint_slots (gslots g @ new)"
    by (rule create_slots_spec [OF assms])
  have "ReserveBlockSlots A ps rs g = (if rs @ ps = [] then 0 else length (gslots g), g\<lparr>gslots := gslots g @ new\<rparr>)"
    by (simp add: ReserveBlockSlots_def n(1) upt_conv_Cons)
  then show thesis by (rule that [OF _ n(2,3)]) auto
qed

text \<open>Stack entries replaced by consecutive slots.\<close>

definition placed :: "nat \<Rightarrow> nat \<Rightarrow> nat \<Rightarrow> nat list \<Rightarrow> nat list" where
  "placed base first m S = map (\<lambda>i. if base \<le> i \<and> i < base + m then first + (i - base) else S ! i) [0..<length S]"

lemma placed_props [simp]:
  "length (placed base first m S) = length S"
  "i < length S \<Longrightarrow> placed base first m S ! i = (if base \<le> i \<and> i < base + m then first + (i - base) else S ! i)"
  by (simp_all add: placed_def)

lemma placed_0 [simp]: "placed base first 0 S = S"
  by (rule nth_equalityI) auto

lemma placed_Suc: "base + m < length S \<Longrightarrow> (placed base first m S)[base + m := first + m] = placed base first (Suc m) S"
  by (rule nth_equalityI) (auto simp: nth_list_update)

lemma set_placed: "i \<in> set (placed base first m S) \<Longrightarrow> i \<in> set S \<or> first \<le> i \<and> i < first + m"
  by (auto simp: in_set_conv_nth split: if_splits)

lemma fold_UpdateStack:
  assumes "gen_api_ok A" "base + m \<le> length (stack_idx g)"
  shows "fold (\<lambda>i g. UpdateStack A (base + i) (first + i) g) [0..<m] g = g\<lparr>stack_idx := placed base first m (stack_idx g)\<rparr>"
  using assms(2)
proof (induction m)
  case (Suc m)
  then show ?case using placed_Suc [of base m "stack_idx g" first] by (simp add: api_simps [OF assms(1)])
qed simp

text \<open>The results of a block are copied to its result slots, which hold no other value in use.\<close>

definition store_results :: "block_data \<Rightarrow> nat \<Rightarrow> gen \<Rightarrow> gen" where
  "store_results b count g = fold (\<lambda>i g.
     let from_slot_index = stack_idx g ! (length (stack_idx g) - 1 - (count - 1) + i); to_slot_index = b_first_block_index b + i
     in if from_slot_index \<noteq> to_slot_index then gen_EmitCopySlot (b_rets b ! i) from_slot_index to_slot_index False g else g) [0..<count] g"

definition results_on_top :: "block_data \<Rightarrow> gen \<Rightarrow> bool" where
  "results_on_top b g \<longleftrightarrow> length (b_rets b) \<le> length (stack_idx g) \<and> drop (length (stack_idx g) - length (b_rets b)) (kinds g) = b_rets b \<and> kRef \<notin> set (b_rets b)"

lemma results_stored:
  assumes g: "gen_ok g" and j: "outer (blocks g) (current_block_index g) j" and b: "b = blocks g ! j" and top: "results_on_top b g"
  defines "r \<equiv> length (b_rets b)"
  obtains c where "store_results b r g = g\<lparr>out := c\<rparr>"
    "copy_step E g (store_results b r g) (copies (b_first_block_index b) (\<lambda>i. stack_idx g ! (length (stack_idx g) - r + i)) r)"
proof -
  let ?S = "stack_idx g" and ?first = "b_first_block_index b"
  let ?f = "\<lambda>i. ?S ! (length ?S - r + i)"
  have ok: "stack_ok g" and B: "blocks_ok g" using g by (simp_all add: gen_ok_def)
  have "rets_ok (gslots g) b" using B outer_block [OF B j] by (simp add: blocks_ok_def Let_def b)
  then have rets: "?first + i < length (gslots g)" "value_type (gslots g ! (?first + i)) = b_rets b ! i" if "i < r" for i
    using that by (simp_all add: rets_ok_def r_def)
  have r: "r \<le> length ?S" using top by (simp add: results_on_top_def r_def)
  have from_kind: "value_type (gslots g ! ?f i) = b_rets b ! i" if "i < r" for i
  proof -
    have "drop (length ?S - r) (kinds g) ! i = b_rets b ! i" using top by (simp add: results_on_top_def r_def)
    then show ?thesis using that r by (simp add: kinds_def)
  qed
  have noref: "b_rets b ! i \<noteq> kRef" if "i < r" for i using top that nth_mem [of i "b_rets b"] by (metis r_def results_on_top_def)
  have bound: "?f i < length (gslots g)" if "i < r" for i using ok r that by (simp add: stack_ok_def)
  have pos: "length ?S - 1 - (r - 1) + i = length ?S - r + i" if "i < r" for i using that r by simp
  have "\<exists>c. store_results b r g = g\<lparr>stack_idx := ?S, out := c\<rparr> \<and> copy_step E g (store_results b r g) (copies ?first ?f r)"
    unfolding store_results_def
  proof (rule emitted_copies [where T = "\<lambda>_. ?S"])
    show "disjoint_slots (gslots g)" using ok by (simp add: stack_ok_def)
  qed (use pos rets from_kind noref bound in \<open>simp_all add: Let_def gen_EmitCopySlot_def emit_def\<close>)
  then show thesis using that by auto
qed

lemma results_stored_values:
  assumes g: "gen_ok g" and j: "outer (blocks g) (current_block_index g) j" and b: "b = blocks g ! j" and top: "results_on_top b g"
  defines "r \<equiv> length (b_rets b)"
  assumes C: "contents g sl' = copies (b_first_block_index b) (\<lambda>i. stack_idx g ! (length (stack_idx g) - r + i)) r (contents g sl)"
  shows "x \<notin> result_slots b \<Longrightarrow> contents g sl' ! x = contents g sl ! x"
    and "i < r \<Longrightarrow> contents g sl' ! (b_first_block_index b + i) = vals g sl ! (length (stack_idx g) - r + i)"
    and "vals g sl' = vals g sl"
proof -
  let ?S = "stack_idx g" and ?first = "b_first_block_index b"
  let ?f = "\<lambda>i. ?S ! (length ?S - r + i)"
  have ok: "stack_ok g" and B: "blocks_ok g" using g by (simp_all add: gen_ok_def)
  have "rets_ok (gslots g) b" using B outer_block [OF B j] by (simp add: blocks_ok_def Let_def b)
  then have "?first + i < length (gslots g)" if "i < r" for i using that by (simp add: rets_ok_def r_def)
  from this [of "r - 1"] have len: "0 < r \<Longrightarrow> ?first + r \<le> length (contents g sl)" by simp
  have r: "r \<le> length ?S" using top by (simp add: results_on_top_def r_def)
  have apart: "y \<notin> result_slots b" if "y \<in> set ?S" for y using ok j that unfolding stack_ok_def b by blast
  have src: "?f i \<noteq> ?first + l" if "i < r" "l < r" for i l
  proof -
    have "?f i \<in> set ?S" using that r by simp
    then have "?f i \<notin> result_slots b" by (rule apart)
    with that show ?thesis by (auto simp: result_slots_def r_def)
  qed
  have nth: "contents g sl' ! x = (if ?first \<le> x \<and> x < ?first + r then contents g sl ! ?f (x - ?first) else contents g sl ! x)" for x
  proof (cases "r = 0")
    case True
    then show ?thesis unfolding C copies_def by auto
  next
    case False
    then show ?thesis unfolding C using copies_nth [of ?first r "contents g sl" ?f x] len src by simp
  qed
  show other: "x \<notin> result_slots b \<Longrightarrow> contents g sl' ! x = contents g sl ! x" for x
    by (auto simp: nth result_slots_def r_def)
  show "i < r \<Longrightarrow> contents g sl' ! (?first + i) = vals g sl ! (length ?S - r + i)"
    using r by (simp add: nth vals_def)
  show "vals g sl' = vals g sl" using other apart by (simp add: vals_def)
qed

text \<open>A branch to an enclosing block delivers the operands in its result slots; the end of a block does that too and puts the slots on the stack.\<close>

lemma StoreBlock_branch:
  assumes "b = blocks g ! j" "b_opcode b \<noteq> kExprLoop" "is_branch opcode \<or> opcode = kExprReturn" "length (b_rets b) \<le> length (stack_idx g)"
  shows "StoreBlockParamsAndResultsIntoSlots A j opcode g = store_results b (length (b_rets b)) g"
proof -
  have "is_branch opcode \<Longrightarrow> opcode \<noteq> kExprReturn" by (auto simp: is_branch_def)
  moreover have "min (length (stack_idx g)) (length (b_rets b)) = length (b_rets b)" using assms(4) by simp
  ultimately show ?thesis using assms(2,3) unfolding StoreBlockParamsAndResultsIntoSlots_def assms(1) [symmetric] store_results_def Let_def by (elim disjE) (simp_all cong: if_cong)
qed

lemma StoreBlock_end:
  assumes A: "gen_api_ok A" and b: "b = blocks g ! j" and j: "0 < j" and c: "store_results b (length (b_rets b)) g = g\<lparr>out := c\<rparr>"
    and len: "length (stack_idx g) = b_stack_size b - length (b_params b) + length (b_rets b)"
  shows "StoreBlockParamsAndResultsIntoSlots A j kExprEnd g =
    g\<lparr>out := c, stack_idx := placed (b_stack_size b - length (b_params b)) (b_first_block_index b) (length (b_rets b)) (stack_idx g)\<rparr>"
proof -
  have m: "min (length (stack_idx g)) (length (b_rets b)) = length (b_rets b)" using len by simp
  have "StoreBlockParamsAndResultsIntoSlots A j kExprEnd g =
      fold (\<lambda>i g. UpdateStack A (b_stack_size b - length (b_params b) + i) (b_first_block_index b + i) g) [0..<length (b_rets b)]
        (resize_stack (length (stack_idx g)) (store_results b (length (b_rets b)) g))"
    using j m unfolding StoreBlockParamsAndResultsIntoSlots_def b [symmetric] store_results_def
    by (simp add: is_branch_def len Let_def cong: if_cong)
  moreover have "resize_stack (length (stack_idx g)) (g\<lparr>out := c\<rparr>) = g\<lparr>out := c\<rparr>" by (simp add: resize_stack_def)
  ultimately show ?thesis using len by (simp only: c) (subst fold_UpdateStack [OF A], simp_all)
qed

lemma ended_ok:
  assumes g: "gen_ok g" and c: "0 < current_block_index g" and b: "b = blocks g ! current_block_index g"
    and base: "base = b_stack_size b - length (b_params b)" and len: "length (stack_idx g) = base + length (b_rets b)"
  shows "gen_ok (g\<lparr>out := o', stack_idx := placed base (b_first_block_index b) (length (b_rets b)) (stack_idx g), current_block_index := b_parent b\<rparr>)"
    (is "gen_ok ?g")
proof -
  let ?S = "stack_idx g" and ?n = "locals_number g" and ?c = "current_block_index g" and ?P = "placed base (b_first_block_index b) (length (b_rets b)) (stack_idx g)"
  have ok: "stack_ok g" and B: "blocks_ok g" using g by (simp_all add: gen_ok_def)
  have par: "b_parent b < ?c" "?n \<le> base" and cl: "?c < length (blocks g)" and rets: "rets_ok (gslots g) b"
    using B c unfolding b base by (auto simp: blocks_ok_def Let_def)
  have start: "base \<le> start_slot_index g" by (simp add: base b start_slot_index_def)
  have "blocks_ok ?g" using B par cl by (simp add: blocks_ok_def)
  moreover have "stack_ok ?g"
    unfolding stack_ok_def
  proof (intro conjI allI impI ballI)
    have up: "outer (blocks g) ?c (b_parent b)" unfolding b by (intro outer.intros)
    have S: "?n \<le> length ?S" "\<And>i. i \<in> set ?S \<Longrightarrow> i < length (gslots g)" "distinct (take ?n ?S)"
      "\<And>k. k < ?n \<Longrightarrow> value_type (gslots g ! (?S ! k)) \<noteq> kRef"
      using ok by (simp_all add: stack_ok_def)
    have tk: "take ?n ?P = take ?n ?S" using S(1) par by (simp add: list_eq_iff_nth_eq)
    show "locals_number ?g \<le> length (stack_idx ?g)" "disjoint_slots (gslots ?g)" using S(1) ok by (simp_all add: stack_ok_def)
    show "distinct (take (locals_number ?g) (stack_idx ?g))" using S(3) tk by simp
    show "i < length (gslots ?g)" if "i \<in> set (stack_idx ?g)" for i
      using that set_placed [of i base] S(2) [of i] rets_ok_bound [OF rets, of i] by (auto simp: result_slots_def)
    show "value_type (gslots ?g ! (stack_idx ?g ! k)) \<noteq> kRef" if "k < locals_number ?g" for k using that S par by simp
    have mine: "result_slots b \<inter> set ?S = {}" using ok outer_here unfolding stack_ok_def b by blast
    show "stack_idx ?g ! i \<noteq> stack_idx ?g ! k"
      if "k < locals_number ?g \<and> locals_number ?g \<le> i \<and> i < start_slot_index ?g \<and> i < length (stack_idx ?g)" for i k
    proof -
      have ki: "k < ?n" "?n \<le> i" "i < length ?S" using that by simp_all
      then have Sk: "?P ! k = ?S ! k" "?S ! k \<in> set ?S" using S(1) par by simp_all
      show ?thesis
      proof (cases "i < base")
        case True
        then have "?S ! i \<noteq> ?S ! k" using ok ki start unfolding stack_ok_def by (meson order_less_le_trans)
        with True ki Sk show ?thesis by simp
      next
        case False
        then obtain l where "i = base + l" using le_Suc_ex [of base i] by (auto simp: not_less)
        then have "?P ! i \<in> result_slots b" using ki len by (simp add: result_slots_def)
        with mine Sk show ?thesis by auto
      qed
    qed
    show "result_slots (blocks ?g ! j) \<inter> set (stack_idx ?g) = {}" if o: "outer (blocks ?g) (current_block_index ?g) j" for j
    proof -
      have o': "outer (blocks g) (b_parent b) j" using o by simp
      then have oc: "outer (blocks g) ?c j"
        by induction (auto intro: outer.intros up)
      have "j \<le> b_parent b" using B par cl by (intro outer_le [OF o']) (auto simp: blocks_ok_def Let_def)
      then have "j < ?c" using par by simp
      then have "result_slots (blocks g ! j) \<inter> result_slots b = {}" using B cl unfolding b by (simp add: blocks_ok_def Let_def)
      moreover have "result_slots (blocks g ! j) \<inter> set ?S = {}" using ok oc by (simp add: stack_ok_def)
      ultimately show ?thesis using set_placed [of _ base "b_first_block_index b" "length (b_rets b)" ?S] by (fastforce simp: result_slots_def)
    qed
  qed
  ultimately show ?thesis by (simp add: gen_ok_def)
qed

lemma EndBlock_sound:
  assumes A: "gen_api_ok A" and g: "gen_ok g" and c: "0 < current_block_index g" and b: "b = blocks g ! current_block_index g"
    and len: "length (stack_idx g) = b_stack_size b - length (b_params b) + length (b_rets b)" and top: "results_on_top b g"
  shows "gen_step E g (EndBlock A kExprEnd g) (\<lambda>r v. v)" "gen_ok (EndBlock A kExprEnd g)" "kinds (EndBlock A kExprEnd g) = kinds g"
    "blocks (EndBlock A kExprEnd g) = blocks g" "locals_number (EndBlock A kExprEnd g) = locals_number g"
    "current_block_index (EndBlock A kExprEnd g) = b_parent b"
proof -
  let ?S = "stack_idx g" and ?r = "length (b_rets b)" and ?base = "b_stack_size b - length (b_params b)" and ?first = "b_first_block_index b"
  let ?P = "placed ?base ?first ?r ?S"
  have here: "outer (blocks g) (current_block_index g) (current_block_index g)" by (rule outer_here)
  obtain o' where o': "store_results b ?r g = g\<lparr>out := o'\<rparr>"
      "copy_step E g (store_results b ?r g) (copies ?first (\<lambda>i. ?S ! (length ?S - ?r + i)) ?r)"
    by (rule results_stored [OF g here b top])
  have e: "EndBlock A kExprEnd g = g\<lparr>out := o', stack_idx := ?P, current_block_index := b_parent b\<rparr>"
    using StoreBlock_end [OF A b c o'(1) len] by (simp add: EndBlock_def b)
  show "gen_ok (EndBlock A kExprEnd g)" unfolding e by (rule ended_ok [OF g c b refl len])
  show "blocks (EndBlock A kExprEnd g) = blocks g" "locals_number (EndBlock A kExprEnd g) = locals_number g"
    "current_block_index (EndBlock A kExprEnd g) = b_parent b" by (simp_all add: e)
  have off: "length ?S - ?r = ?base" using len by simp
  show "kinds (EndBlock A kExprEnd g) = kinds g"
  proof (rule nth_equalityI)
    fix i assume "i < length (kinds (EndBlock A kExprEnd g))"
    then have i: "i < length ?S" by (simp add: e)
    have B: "blocks_ok g" using g by (simp add: gen_ok_def)
    then have "rets_ok (gslots g) b" by (simp add: blocks_ok_def Let_def b)
    moreover have "value_type (gslots g ! (?S ! (?base + l))) = b_rets b ! l" if "l < ?r" for l
    proof -
      have "drop ?base (kinds g) ! l = b_rets b ! l" using top by (simp add: results_on_top_def off)
      with that len show ?thesis by (simp add: kinds_def)
    qed
    ultimately show "kinds (EndBlock A kExprEnd g) ! i = kinds g ! i"
      using i len le_Suc_ex [of ?base i] by (cases "?base \<le> i") (auto simp: e kinds_def rets_ok_def)
  qed (simp add: e)
  have "vals (EndBlock A kExprEnd g) sl' = vals g sl"
    if C: "contents g sl' = copies ?first (\<lambda>i. ?S ! (length ?S - ?r + i)) ?r (contents g sl)" for sl sl'
  proof (rule nth_equalityI)
    fix i assume "i < length (vals (EndBlock A kExprEnd g) sl')"
    then have i: "i < length ?S" by (simp add: e)
    have "vals g sl' ! i = vals g sl ! i" using results_stored_values(3) [OF g here b top C] by simp
    moreover have "contents g sl' ! (?first + (i - ?base)) = vals g sl ! i" if "?base \<le> i"
      using results_stored_values(2) [OF g here b top C, of "i - ?base"] i len that by (simp add: off)
    ultimately show "vals (EndBlock A kExprEnd g) sl' ! i = vals g sl ! i" using i len by (auto simp: e vals_def)
  qed (simp add: e)
  moreover have "copy_step E g (EndBlock A kExprEnd g) (copies ?first (\<lambda>i. ?S ! (length ?S - ?r + i)) ?r)"
    using o' by (simp add: e copy_step_def)
  ultimately show "gen_step E g (EndBlock A kExprEnd g) (\<lambda>r v. v)" by (intro gen_step_copy [where h = "\<lambda>v. v"]) simp_all
qed

text \<open>The other arm of a conditional finds the parameters on the stack again.\<close>

lemma fold_UpdateStack_list:
  assumes "gen_api_ok A" "base + m \<le> length (stack_idx g)"
  shows "fold (\<lambda>i g. UpdateStack A (base + i) (h i) g) [0..<m] g = g\<lparr>stack_idx := take base (stack_idx g) @ map h [0..<m] @ drop (base + m) (stack_idx g)\<rparr>"
  using assms(2)
proof (induction m)
  case (Suc m)
  have "drop (base + m) (stack_idx g) = stack_idx g ! (base + m) # drop (base + Suc m) (stack_idx g)"
    using Suc.prems by (simp add: Cons_nth_drop_Suc)
  then show ?case using Suc by (simp add: api_simps [OF assms(1)] list_update_append)
qed simp

lemma RestoreIfElseParams_stack:
  assumes A: "gen_api_ok A" and b: "b = blocks g ! j" "0 < j" "length (b_saved_params b) = length (b_params b)" "length (b_params b) \<le> b_stack_size b"
    and "b_stack_size b \<le> length (stack_idx g)"
  shows "stack_idx (RestoreIfElseParams A j g) = take (b_stack_size b - length (b_params b)) (stack_idx g) @ b_saved_params b"
proof -
  have "map (\<lambda>i. b_saved_params b ! i) [0..<length (b_params b)] = b_saved_params b" unfolding b(3) [symmetric] by (rule map_nth)
  moreover obtain base where "b_stack_size b = base + length (b_params b)" using le_add_diff_inverse2 [OF b(4)] by metis
  ultimately show ?thesis using assms(6) b(2)
    by (simp add: RestoreIfElseParams_def b(1) [symmetric] resize_stack_def Let_def fold_UpdateStack_list [OF A])
qed

lemma outer_append:
  assumes "outer (B @ [b]) (length B) j" "b_parent b = c" "c < length B" "b_parent (B ! 0) = 0"
    "\<And>j. 0 < j \<Longrightarrow> j < length B \<Longrightarrow> b_parent (B ! j) < j"
  shows "j = length B \<or> outer B c j"
  using assms(1)
proof induction
  case (outer_up j)
  from outer_up.IH show ?case
  proof
    assume o: "outer B c j"
    then have "j < length B" using outer_le [OF o assms(4,5)] assms(3) by simp
    then show ?thesis using o by (simp add: nth_append outer.outer_up)
  qed (simp add: assms(2) outer_here)
qed simp

text \<open>A new block above unshared operands; its parameters may have been moved to its parameter slots.\<close>

lemma begun_ok:
  assumes g: "gen_ok g" and un: "unshared (locals_number g) g" and d: "disjoint_slots (gslots g @ new)"
    and new: "map value_type new = b_rets b @ b_params b" and first: "b_rets b @ b_params b \<noteq> [] \<Longrightarrow> b_first_block_index b = length (gslots g)"
    and b: "b_parent b = current_block_index g" "b_stack_size b = length (stack_idx g)"
    and room: "locals_number g + length (b_params b) \<le> length (stack_idx g)"
    and S2: "length S2 = length (stack_idx g)" "take (locals_number g) S2 = take (locals_number g) (stack_idx g)"
      "\<And>i. i < length S2 \<Longrightarrow> S2 ! i = stack_idx g ! i \<or> length (gslots g) + length (b_rets b) \<le> S2 ! i \<and> S2 ! i < length (gslots g) + length new"
  shows "gen_ok (g\<lparr>gslots := gslots g @ new, blocks := blocks g @ [b], current_block_index := length (blocks g), stack_idx := S2, out := o'\<rparr>)"
    (is "gen_ok ?g")
proof -
  let ?S = "stack_idx g" and ?n = "locals_number g" and ?c = "current_block_index g" and ?G = "gslots g"
  have ok: "stack_ok g" and B: "blocks_ok g" using g by (simp_all add: gen_ok_def)
  have S: "?n \<le> length ?S" "\<And>i. i < length ?S \<Longrightarrow> ?S ! i < length ?G" "distinct (take ?n ?S)" "\<And>k. k < ?n \<Longrightarrow> value_type (?G ! (?S ! k)) \<noteq> kRef"
    using ok by (simp_all add: stack_ok_def)
  have cl: "?c < length (blocks g)" using B by (simp add: blocks_ok_def)
  have old: "rets_ok ?G (blocks g ! j)" "0 < j \<Longrightarrow> b_parent (blocks g ! j) < j" if "j < length (blocks g)" for j
    using B that by (simp_all add: blocks_ok_def Let_def)
  have low: "x < length ?G" if "j < length (blocks g)" "x \<in> result_slots (blocks g ! j)" for j x
    using rets_ok_bound [OF old(1)] that by blast
  have high: "length ?G \<le> x \<and> x < length ?G + length (b_rets b)" if "x \<in> result_slots b" for x
    using that first by (cases "b_rets b") (auto simp: result_slots_def)
  have "value_type (new ! i) = b_rets b ! i" "i < length new" if "i < length (b_rets b)" for i
    using that new by (metis append_eq_conv_conj length_append length_map nth_append nth_map trans_less_add1)+
  then have newrets: "rets_ok (?G @ new) b"
    using first by (cases "b_rets b") (auto simp: rets_ok_def nth_append)
  have "blocks_ok ?g"
    unfolding blocks_ok_def
  proof (intro conjI allI impI)
    show "b_stack_size (blocks ?g ! 0) = locals_number ?g" "b_parent (blocks ?g ! 0) = 0"
      using B cl by (auto simp: blocks_ok_def nth_append)
    show "let b = blocks ?g ! j in (0 < j \<longrightarrow> b_parent b < j \<and> locals_number ?g + length (b_params b) \<le> b_stack_size b) \<and>
        rets_ok (gslots ?g) b \<and> (\<forall>l < j. result_slots (blocks ?g ! l) \<inter> result_slots b = {})" if "j < length (blocks ?g)" for j
    proof (cases "j = length (blocks g)")
      case True
      have "result_slots (blocks g ! l) \<inter> result_slots b = {}" if "l < length (blocks g)" for l
        using low [OF that] high by (meson disjoint_iff leD)
      then show ?thesis using True b cl room newrets by (simp add: nth_append Let_def)
    next
      case False
      then have "j < length (blocks g)" using that by simp
      then show ?thesis using B rets_ok_append by (simp add: blocks_ok_def nth_append Let_def)
    qed
  qed simp
  moreover have "stack_ok ?g"
    unfolding stack_ok_def
  proof (intro conjI allI impI ballI)
    have S2k: "S2 ! k = ?S ! k" if "k < ?n" for k using S2(2) that by (metis nth_take)
    show "locals_number ?g \<le> length (stack_idx ?g)" "disjoint_slots (gslots ?g)" using S(1) S2(1) d by simp_all
    show "distinct (take (locals_number ?g) (stack_idx ?g))" using S(3) S2(2) by simp
    show "i < length (gslots ?g)" if "i \<in> set (stack_idx ?g)" for i
      using that S2 S(2) by (fastforce simp: in_set_conv_nth)
    show "value_type (gslots ?g ! (stack_idx ?g ! k)) \<noteq> kRef" if "k < locals_number ?g" for k
      using that S(1,2,4) S2k by (simp add: nth_append)
    show "stack_idx ?g ! i \<noteq> stack_idx ?g ! k"
      if "k < locals_number ?g \<and> locals_number ?g \<le> i \<and> i < start_slot_index ?g \<and> i < length (stack_idx ?g)" for i k
    proof -
      have ki: "k < ?n" "?n \<le> i" "i < length ?S" using that S2(1) by simp_all
      then have "?S ! i \<noteq> ?S ! k" "?S ! k < length ?G" using un S(1,2) by (simp_all add: unshared_def)
      then show ?thesis using S2(3) [of i] S2k ki S2(1) by auto
    qed
    show "result_slots (blocks ?g ! j) \<inter> set (stack_idx ?g) = {}" if o: "outer (blocks ?g) (current_block_index ?g) j" for j
    proof -
      have cases: "j = length (blocks g) \<or> outer (blocks g) ?c j"
        using outer_append [of "blocks g" b j ?c] o b cl B old(2) by (simp add: blocks_ok_def)
      have "x \<notin> result_slots (blocks ?g ! j)" if "x \<in> set S2" for x
      proof -
        from that obtain i where i: "i < length ?S" "x = S2 ! i" using S2(1) by (auto simp: in_set_conv_nth)
        have x: "x = ?S ! i \<or> length ?G + length (b_rets b) \<le> x" using S2(3) [of i] i S2(1) by auto
        show ?thesis
          using cases
        proof
          assume "j = length (blocks g)"
          then show ?thesis using x high [of x] S(2) [OF i(1)] by auto
        next
          assume o': "outer (blocks g) ?c j"
          then have jl: "j < length (blocks g)" by (rule outer_block [OF B])
          have "result_slots (blocks g ! j) \<inter> set ?S = {}" using ok o' by (simp add: stack_ok_def)
          moreover have "?S ! i \<in> set ?S" using i(1) by simp
          ultimately show ?thesis using x low [OF jl, of x] jl by (auto simp: nth_append)
        qed
      qed
      then show ?thesis by auto
    qed
  qed
  ultimately show ?thesis by (simp add: gen_ok_def)
qed

text \<open>The parameters of a loop move to the slots that branches to the loop write.\<close>

lemma params_stored:
  assumes A: "gen_api_ok A" and d: "disjoint_slots (gslots g)" and b: "b = blocks g ! j"
    and first: "first = b_first_block_index b + length (b_rets b)" and base: "length (stack_idx g) = base + length (b_params b)"
    and bound: "\<forall>i \<in> set (stack_idx g). i < length (gslots g)" and kinds: "drop base (kinds g) = b_params b" "kRef \<notin> set (b_params b)"
    and slots: "\<And>i. i < length (b_params b) \<Longrightarrow> first + i < length (gslots g) \<and> value_type (gslots g ! (first + i)) = b_params b ! i"
  shows "\<exists>c. StoreBlockParamsIntoSlots A j True g = g\<lparr>stack_idx := placed base first (length (b_params b)) (stack_idx g), out := c\<rparr> \<and>
    copy_step E g (StoreBlockParamsIntoSlots A j True g) (copies first (\<lambda>i. stack_idx g ! (base + i)) (length (b_params b)))"
  unfolding StoreBlockParamsIntoSlots_def b [symmetric] Let_def first [symmetric]
proof (rule emitted_copies [where T = "\<lambda>i. placed base first i (stack_idx g)"])
  let ?S = "stack_idx g" and ?p = "length (b_params b)"
  show "placed base first 0 ?S = ?S" "disjoint_slots (gslots g)" by (simp_all add: d)
  have kind: "value_type (gslots g ! (?S ! (base + i))) = b_params b ! i" if "i < ?p" for i
  proof -
    have "drop base (kinds g) ! i = b_params b ! i" by (simp add: kinds(1))
    with that base show ?thesis by (simp add: kinds_def)
  qed
  have noref: "b_params b ! i \<noteq> kRef" if "i < ?p" for i using kinds(2) that by (metis nth_mem)
  show "?S ! (base + i) < length (gslots g) \<and> first + i < length (gslots g) \<and>
      value_type (gslots g ! (?S ! (base + i))) = value_type (gslots g ! (first + i)) \<and> value_type (gslots g ! (first + i)) \<noteq> kRef"
    if "i < ?p" for i using that slots [OF that] kind noref bound base by simp
  fix i and g' :: gen assume i: "i < ?p" and g': "stack_idx g' = placed base first i ?S" "gslots g' = gslots g"
  have pos: "length (stack_idx g') - 1 - (?p - 1) + i = base + i" using i base by (simp add: g')
  have from_slot: "stack_idx g' ! (base + i) = ?S ! (base + i)" using i base by (simp add: g')
  have upd: "(stack_idx g')[base + i := first + i] = placed base first (Suc i) ?S" using i base by (simp add: g' placed_Suc)
  have same: "stack_idx g' = placed base first (Suc i) ?S" if "?S ! (base + i) = first + i"
    using upd from_slot that list_update_id [of "stack_idx g'" "base + i"] by simp
  have kp: "b_params b ! i = value_type (gslots g ! (first + i))" using slots [OF i] by simp
  show "(if stack_idx g' ! (length (stack_idx g') - 1 - (?p - 1) + i) \<noteq> first + i
      then if True then UpdateStack A (length (stack_idx g') - 1 - (?p - 1) + i) (first + i)
             (gen_EmitCopySlot (b_params b ! i) (stack_idx g' ! (length (stack_idx g') - 1 - (?p - 1) + i)) (first + i) False g')
           else gen_EmitCopySlot (b_params b ! i) (stack_idx g' ! (length (stack_idx g') - 1 - (?p - 1) + i)) (first + i) False g'
      else g') =
    (if ?S ! (base + i) \<noteq> first + i then gen_EmitCopySlot (value_type (gslots g ! (first + i))) (?S ! (base + i)) (first + i) False g' else g')
      \<lparr>stack_idx := placed base first (Suc i) ?S\<rparr>"
    using same unfolding pos from_slot kp by (simp add: api_simps [OF A] upd)
qed

lemma copy_step_emit: "does (f, ops) (\<lambda>r sl. sl) \<Longrightarrow> copy_step E g (emit f ops g) (\<lambda>C. C)"
  unfolding copy_step_def by (intro exI [of _ "[(f, ops)]"]) (use runs_one in \<open>fastforce\<close>)

lemma map_placed:
  assumes "length S = base + m" "\<And>i. i < m \<Longrightarrow> f (first + i) = h (S ! (base + i))" "\<And>i. i \<in> set S \<Longrightarrow> f i = h i"
  shows "map f (placed base first m S) = map h S"
proof (rule nth_equalityI)
  fix i assume "i < length (map f (placed base first m S))"
  then have i: "i < length S" by simp
  show "map f (placed base first m S) ! i = map h S ! i"
    using i assms le_Suc_ex [of base i] by (cases "base \<le> i") auto
qed simp

lemma placed_copied:
  assumes "length S = base + m" "\<forall>i \<in> set S. i < n" "0 < m \<Longrightarrow> n \<le> first \<and> first + m \<le> length C"
  shows "map ((!) (copies first (\<lambda>i. S ! (base + i)) m C)) (placed base first m S) = map ((!) C) S"
proof (cases "m = 0")
  case False
  then have c: "copies first (\<lambda>i. S ! (base + i)) m C ! x = (if first \<le> x \<and> x < first + m then C ! (S ! (base + (x - first))) else C ! x)" for x
    using assms(1,2) assms(3) by (intro copies_nth) (auto, metis add_lessD1 leD nat_add_left_cancel_less nth_mem order_less_le_trans)
  show ?thesis using assms False by (intro map_placed) (fastforce simp: c)+
qed (simp add: copies_def)

text \<open>The begin of a block or a loop keeps the values.\<close>

definition params_on_top :: "value_kind list \<Rightarrow> gen \<Rightarrow> bool" where
  "params_on_top ps g \<longleftrightarrow> locals_number g + length ps \<le> length (stack_idx g) \<and>
     drop (length (stack_idx g) - length ps) (kinds g) = ps \<and> kRef \<notin> set ps"

text \<open>The state \<open>g\<close> with a new block of opcode \<open>op\<close>, its slots \<open>new\<close> from \<open>first\<close> on.\<close>

definition with_block :: "block_opcode \<Rightarrow> value_kind list \<times> value_kind list \<Rightarrow> nat \<Rightarrow> gen_slot list \<Rightarrow> gen \<Rightarrow> gen" where
  "with_block op sig first new g = g\<lparr>gslots := gslots g @ new, blocks := blocks g @ [
     \<lparr>b_opcode = op, b_parent = current_block_index g, b_stack_size = length (stack_idx g), b_params = fst sig, b_rets = snd sig,
      b_first_block_index = first, b_saved_params = []\<rparr>], current_block_index := length (blocks g)\<rparr>"

lemma with_block_fields [simp]:
  "stack_idx (with_block op sig first new g) = stack_idx g" "gslots (with_block op sig first new g) = gslots g @ new" "out (with_block op sig first new g) = out g"
  by (simp_all add: with_block_def)

definition block_slots :: "value_kind list \<times> value_kind list \<Rightarrow> nat \<Rightarrow> gen_slot list \<Rightarrow> gen \<Rightarrow> bool" where
  "block_slots sig first new g \<longleftrightarrow> map value_type new = snd sig @ fst sig \<and> disjoint_slots (gslots g @ new) \<and>
     (snd sig @ fst sig \<noteq> [] \<longrightarrow> first = length (gslots g))"

lemma BeginBlock_state:
  assumes "gen_api_ok A" "gen_ok g" "opcode = kExprBlock \<or> opcode = kExprLoop"
  obtains first new where "block_slots sig first new g"
    "BeginBlock A opcode sig g = (if opcode = kExprLoop
       then emit k_s2s_OnLoopBegin [] (StoreBlockParamsIntoSlots A (length (blocks g)) True (with_block opcode sig first new g))
       else with_block opcode sig first new g)"
proof -
  obtain ps rs where sig: "sig = (ps, rs)" by force
  have bl: "0 < length (blocks g)" using assms(2) by (auto simp: gen_ok_def blocks_ok_def)
  obtain new first where R: "ReserveBlockSlots A ps rs g = (first, g\<lparr>gslots := gslots g @ new\<rparr>)" "map value_type new = rs @ ps"
      "disjoint_slots (gslots g) \<longrightarrow> disjoint_slots (gslots g @ new)" "rs @ ps \<noteq> [] \<Longrightarrow> first = length (gslots g)"
    by (rule ReserveBlockSlots_spec [OF assms(1), of ps rs g]) (rule that)
  have "block_slots sig first new g" using R(2-4) assms(2) by (simp add: block_slots_def sig gen_ok_def stack_ok_def)
  moreover have "BeginBlock A opcode sig g = (if opcode = kExprLoop
       then emit k_s2s_OnLoopBegin [] (StoreBlockParamsIntoSlots A (length (blocks g)) True (with_block opcode sig first new g))
       else with_block opcode sig first new g)"
    using bl R(1) assms(3) by (auto simp: BeginBlock_def with_block_def sig Let_def)
  ultimately show thesis by (rule that)
qed

lemma with_block_ok:
  assumes g: "gen_ok g" and un: "unshared (locals_number g) g" and bs: "block_slots (ps, rs) first new g" and top: "params_on_top ps g"
    and m: "m = 0 \<or> m = length ps" and base: "base = length (stack_idx g) - length ps"
  shows "gen_ok (with_block op (ps, rs) first new g\<lparr>stack_idx := placed base (first + length rs) m (stack_idx g), out := c\<rparr>)"
proof -
  let ?S = "stack_idx g" and ?P = "placed base (first + length rs) m (stack_idx g)"
  let ?b = "\<lparr>b_opcode = op, b_parent = current_block_index g, b_stack_size = length ?S, b_params = ps, b_rets = rs,
      b_first_block_index = first, b_saved_params = []\<rparr>"
  have room: "locals_number g + length ps \<le> length ?S" using top by (simp add: params_on_top_def)
  have len: "length new = length rs + length ps" using bs by (metis block_slots_def fst_conv length_append length_map snd_conv)
  have P: "?P ! i = ?S ! i \<or> length (gslots g) + length rs \<le> ?P ! i \<and> ?P ! i < length (gslots g) + length new" if "i < length ?P" for i
  proof (cases "base \<le> i \<and> i < base + m")
    case True
    then have "first = length (gslots g)" using m bs by (cases ps) (auto simp: block_slots_def)
    moreover obtain l where "i = base + l" using True le_Suc_ex by blast
    ultimately show ?thesis using that True len m by auto
  qed (use that in auto)
  have "gen_ok (g\<lparr>gslots := gslots g @ new, blocks := blocks g @ [?b], current_block_index := length (blocks g), stack_idx := ?P, out := c\<rparr>)"
  proof (rule begun_ok [OF g un])
    show "take (locals_number g) ?P = take (locals_number g) ?S" using room base by (auto simp: list_eq_iff_nth_eq)
  qed (use bs room P in \<open>simp_all add: block_slots_def\<close>)
  then show ?thesis by (simp add: with_block_def)
qed

text \<open>What the begin of a block leaves: a new current block on the same values.\<close>

definition begun :: "wasm_env \<Rightarrow> value_kind list \<times> value_kind list \<Rightarrow> gen \<Rightarrow> gen \<Rightarrow> bool" where
  "begun E sig g g' \<longleftrightarrow> gen_step E g g' (\<lambda>r v. v) \<and> gen_ok g' \<and> kinds g' = kinds g \<and> locals_number g' = locals_number g \<and>
     current_block_index g' = length (blocks g) \<and>
     (\<exists>b. blocks g' = blocks g @ [b] \<and> b_parent b = current_block_index g \<and> b_stack_size b = length (stack_idx g) \<and>
        b_params b = fst sig \<and> b_rets b = snd sig)"

lemma with_block_views:
  assumes "stack_ok g"
  shows "kinds (with_block op sig first new g) = kinds g" "vals (with_block op sig first new g) sl = vals g sl"
  using assms by (simp_all add: kinds_def vals_def contents_def stack_ok_def nth_append)

lemma BeginBlock_block_sound:
  assumes "gen_ok g" "unshared (locals_number g) g" "block_slots (ps, rs) first new g" "params_on_top ps g"
  shows "begun E (ps, rs) g (with_block kExprBlock (ps, rs) first new g)"
proof -
  have "gen_ok (with_block kExprBlock (ps, rs) first new g)"
    using with_block_ok [OF assms, where m = 0 and op = kExprBlock and c = "out g"] by (simp add: with_block_def)
  moreover have "stack_ok g" using assms(1) by (simp add: gen_ok_def)
  ultimately show ?thesis using gen_step_none [of "with_block kExprBlock (ps, rs) first new g" g "\<lambda>r v. v" E]
    by (simp add: begun_def with_block_views) (simp add: with_block_def)
qed

lemma BeginBlock_loop_sound:
  assumes A: "gen_api_ok A" and g: "gen_ok g" and un: "unshared (locals_number g) g" and bs: "block_slots (ps, rs) first new g" and top: "params_on_top ps g"
  shows "begun E (ps, rs) g (emit k_s2s_OnLoopBegin [] (StoreBlockParamsIntoSlots A (length (blocks g)) True (with_block kExprLoop (ps, rs) first new g)))"
proof -
  let ?S = "stack_idx g" and ?p = "length ps" and ?base = "length (stack_idx g) - length ps" and ?fp = "first + length rs"
  let ?g1 = "with_block kExprLoop (ps, rs) first new g" and ?b = "blocks (with_block kExprLoop (ps, rs) first new g) ! length (blocks g)"
  let ?H = "copies ?fp (\<lambda>i. ?S ! (?base + i)) ?p" and ?P = "placed ?base ?fp ?p ?S"
  have ok: "stack_ok g" using g by (simp add: gen_ok_def)
  have b: "b_params ?b = ps" "b_rets ?b = rs" "b_first_block_index ?b = first" by (simp_all add: with_block_def)
  have len: "length ?S = ?base + ?p" and room: "locals_number g + ?p \<le> length ?S" using top by (simp_all add: params_on_top_def)
  have newlen: "length new = length rs + ?p" using bs by (metis block_slots_def fst_conv length_append length_map snd_conv)
  have firstp: "first = length (gslots g)" if "0 < ?p" using that bs by (auto simp: block_slots_def)
  have slot: "?fp + i < length (gslots ?g1) \<and> value_type (gslots ?g1 ! (?fp + i)) = ps ! i" if "i < ?p" for i
  proof -
    have "map value_type new ! (length rs + i) = ps ! i" using bs by (simp add: block_slots_def nth_append)
    moreover have "first = length (gslots g)" using that by (intro firstp) auto
    ultimately show ?thesis using that newlen by (simp add: nth_append add.assoc)
  qed
  have bound: "\<forall>i \<in> set ?S. i < length (gslots g)" using ok by (simp add: stack_ok_def)
  have "\<exists>c. StoreBlockParamsIntoSlots A (length (blocks g)) True ?g1 = ?g1\<lparr>stack_idx := placed ?base ?fp (length (b_params ?b)) (stack_idx ?g1), out := c\<rparr> \<and>
      copy_step E ?g1 (StoreBlockParamsIntoSlots A (length (blocks g)) True ?g1) (copies ?fp (\<lambda>i. stack_idx ?g1 ! (?base + i)) (length (b_params ?b)))"
    by (rule params_stored [OF A _ refl]) (use bs top len slot bound in \<open>simp_all add: b with_block_views [OF ok] block_slots_def params_on_top_def less_Suc_eq trans_less_add1\<close>)
  then obtain c where c: "StoreBlockParamsIntoSlots A (length (blocks g)) True ?g1 = ?g1\<lparr>stack_idx := ?P, out := c\<rparr>"
    and cs: "copy_step E ?g1 (?g1\<lparr>stack_idx := ?P, out := c\<rparr>) ?H" by (auto simp: b)
  let ?g2 = "emit k_s2s_OnLoopBegin [] (?g1\<lparr>stack_idx := ?P, out := c\<rparr>)"
  have "copy_step E ?g1 ?g2 ?H" using copy_step_trans [OF cs copy_step_emit [OF loop_begin]] by simp
  moreover have "vals ?g2 sl' = vals g sl" if C: "contents ?g1 sl' = ?H (contents ?g1 sl)" for sl sl'
  proof -
    have "vals ?g2 sl' = map ((!) (?H (contents ?g1 sl))) ?P" by (simp add: vals_def C)
    also have "\<dots> = map ((!) (contents ?g1 sl)) ?S" by (rule placed_copied [OF len bound]) (use firstp newlen in simp)
    finally show ?thesis using with_block_views(2) [OF ok, of kExprLoop "(ps, rs)" first new sl] by (simp add: vals_def)
  qed
  ultimately have "gen_step E g ?g2 (\<lambda>r v. v)" by (intro gen_step_copy [where ?g1.0 = ?g1 and h = "\<lambda>v. v"]) simp_all
  moreover have "gen_ok ?g2" using with_block_ok [OF g un bs top disjI2 [OF refl] refl] by (simp add: emitted_ok)
  moreover have "kinds ?g2 = kinds g"
  proof -
    have "value_type (gslots g ! (?S ! (?base + i))) = ps ! i" if "i < ?p" for i
    proof -
      have "drop ?base (kinds g) ! i = ps ! i" using top by (simp add: params_on_top_def)
      then show ?thesis using that len by (simp add: kinds_def)
    qed
    then have "map (\<lambda>i. value_type (gslots ?g1 ! i)) ?P = map (\<lambda>i. value_type (gslots g ! i)) ?S"
      using slot bound by (intro map_placed [OF len]) (simp_all add: nth_append)
    then show ?thesis by (simp add: kinds_def)
  qed
  ultimately show ?thesis by (simp add: c begun_def) (simp add: with_block_def)
qed

lemma BeginBlock_sound:
  assumes "gen_api_ok A" "gen_ok g" "unshared (locals_number g) g" "params_on_top ps g" "opcode = kExprBlock \<or> opcode = kExprLoop"
  shows "begun E (ps, rs) g (BeginBlock A opcode (ps, rs) g)"
proof -
  obtain first new where bs: "block_slots (ps, rs) first new g" and e: "BeginBlock A opcode (ps, rs) g = (if opcode = kExprLoop
       then emit k_s2s_OnLoopBegin [] (StoreBlockParamsIntoSlots A (length (blocks g)) True (with_block opcode (ps, rs) first new g))
       else with_block opcode (ps, rs) first new g)"
    by (rule BeginBlock_state [OF assms(1,2,5), of "(ps, rs)"])
  show ?thesis using assms(5) BeginBlock_loop_sound [OF assms(1-3) bs assms(4)] BeginBlock_block_sound [OF assms(2,3) bs assms(4)] by (auto simp: e)
qed

lemma EncodeBlock_sound:
  assumes A: "gen_api_ok A" and g: "gen_ok g" and top: "params_on_top ps g" and op: "opcode = kExprBlock \<or> opcode = kExprLoop"
  shows "begun E (ps, rs) g (EncodeBlock A opcode (ps, rs) g)"
proof -
  let ?g1 = "PreserveArgsAndLocals A g"
  have s: "sound_step E g ?g1 (\<lambda>r v. v) (\<lambda>ks. ks)" "unshared (locals_number g) ?g1" by (rule PreserveArgsAndLocals_sound [OF A g])+
  then have l: "locals_number ?g1 = locals_number g" "blocks ?g1 = blocks g" "current_block_index ?g1 = current_block_index g" "kinds ?g1 = kinds g" "gen_ok ?g1"
    by (simp_all add: sound_step_def same_blocks_def)
  then have len: "length (stack_idx ?g1) = length (stack_idx g)" by (metis length_kinds)
  have "params_on_top ps ?g1" using top by (simp add: params_on_top_def l len)
  then have "begun E (ps, rs) ?g1 (BeginBlock A opcode (ps, rs) ?g1)" using s l by (intro BeginBlock_sound [OF A _ _ _ op]) simp_all
  then show ?thesis using gen_step_trans [of E g ?g1 "\<lambda>r v. v"] s(1) unfolding EncodeBlock_def begun_def l len sound_step_def by fast
qed

subsection \<open>The begin of a function\<close>

lemma pushed_slots:
  assumes "gen_api_ok A" "disjoint_slots (gslots g)"
  shows "\<exists>new. fold (PushNewSlot A) ks g = g\<lparr>gslots := gslots g @ new, stack_idx := stack_idx g @ [length (gslots g)..<length (gslots g) + length ks]\<rparr> \<and>
    map value_type new = ks \<and> disjoint_slots (gslots g @ new)"
  using assms(2)
proof (induction ks arbitrary: g)
  case (Cons k ks)
  obtain b where b: "CreateSlot A k g = (length (gslots g), g\<lparr>gslots := gslots g @ [b]\<rparr>)" "value_type b = k" "fresh_slot (gslots g) b"
    by (rule api_create [OF assms(1)])
  let ?g = "g\<lparr>gslots := gslots g @ [b], stack_idx := stack_idx g @ [length (gslots g)]\<rparr>"
  have p: "PushNewSlot A k g = ?g" using assms(1) b(1) by (simp add: gen_api_ok_def)
  have "disjoint_slots (gslots ?g)" using Cons.prems b(3) by (simp add: disjoint_slots_snoc)
  then obtain new where n: "fold (PushNewSlot A) ks ?g = ?g\<lparr>gslots := gslots ?g @ new, stack_idx := stack_idx ?g @ [length (gslots ?g)..<length (gslots ?g) + length ks]\<rparr>"
      "map value_type new = ks" "disjoint_slots (gslots ?g @ new)"
    using Cons.IH [of ?g] by blast
  show ?case using n b(2) by (intro exI [of _ "b # new"]) (simp add: p upt_conv_Cons del: upt_Suc)
qed simp

lemma BeginFunction_state:
  assumes A: "gen_api_ok A"
  obtains G where "BeginFunction A params rets local_types =
      \<lparr>stack_idx = [length rets..<length rets + length (params @ local_types)], gslots = G,
       blocks = [\<lparr>b_opcode = kExprBlock, b_parent = 0, b_stack_size = length (params @ local_types), b_params = params, b_rets = rets,
         b_first_block_index = 0, b_saved_params = []\<rparr>],
       current_block_index = 0, args_count = length params, locals_count = length local_types, out = []\<rparr>"
    "map value_type G = rets @ params @ local_types" "disjoint_slots G"
proof -
  let ?e = "empty_gen (length params) (length local_types)"
  have e: "disjoint_slots (gslots ?e)" by (simp add: empty_gen_def disjoint_slots_def)
  obtain R where R: "create_slots A rets ?e = ([length (gslots ?e)..<length (gslots ?e) + length rets], ?e\<lparr>gslots := gslots ?e @ R\<rparr>)"
      "map value_type R = rets" "disjoint_slots (gslots ?e @ R)"
    by (rule create_slots_spec [OF A, of rets ?e]) (use e that in blast)
  let ?g = "?e\<lparr>gslots := gslots ?e @ R\<rparr>"
  obtain P where P: "fold (PushNewSlot A) (params @ local_types) ?g =
      ?g\<lparr>gslots := gslots ?g @ P, stack_idx := stack_idx ?g @ [length (gslots ?g)..<length (gslots ?g) + length (params @ local_types)]\<rparr>"
      "map value_type P = params @ local_types" "disjoint_slots (gslots ?g @ P)"
    using pushed_slots [OF A, of ?g "params @ local_types"] R(3) by auto
  have "length R = length rets" using R(2) by (metis length_map)
  with R(1) P(1) have "BeginFunction A params rets local_types =
      \<lparr>stack_idx = [length rets..<length rets + length (params @ local_types)], gslots = R @ P,
       blocks = [\<lparr>b_opcode = kExprBlock, b_parent = 0, b_stack_size = length (params @ local_types), b_params = params, b_rets = rets,
         b_first_block_index = 0, b_saved_params = []\<rparr>],
       current_block_index = 0, args_count = length params, locals_count = length local_types, out = []\<rparr>"
    by (simp add: BeginFunction_def BeginBlock_def empty_gen_def)
  moreover have "map value_type (R @ P) = rets @ params @ local_types" "disjoint_slots (R @ P)" using R(2) P(2,3) by (simp_all add: empty_gen_def)
  ultimately show thesis by (rule that)
qed

lemma BeginFunction_ok:
  assumes A: "gen_api_ok A" and noref: "kRef \<notin> set (params @ local_types)"
  shows "gen_ok (BeginFunction A params rets local_types)" "kinds (BeginFunction A params rets local_types) = params @ local_types"
    "locals_number (BeginFunction A params rets local_types) = length (params @ local_types)" "out (BeginFunction A params rets local_types) = []"
    "current_block_index (BeginFunction A params rets local_types) = 0"
proof -
  let ?g = "BeginFunction A params rets local_types" and ?r = "length rets" and ?ks = "params @ local_types"
  obtain G where g: "?g =
      \<lparr>stack_idx = [?r..<?r + length ?ks], gslots = G,
       blocks = [\<lparr>b_opcode = kExprBlock, b_parent = 0, b_stack_size = length ?ks, b_params = params, b_rets = rets,
         b_first_block_index = 0, b_saved_params = []\<rparr>],
       current_block_index = 0, args_count = length params, locals_count = length local_types, out = []\<rparr>"
    and G: "map value_type G = rets @ ?ks" "disjoint_slots G"
    by (rule BeginFunction_state [OF A])
  have len: "length G = ?r + length ?ks" using G(1) by (metis length_append length_map)
  have kind: "value_type (G ! i) = (rets @ ?ks) ! i" if "i < length G" for i using that by (metis G(1) nth_map)
  show "kinds ?g = ?ks"
  proof (rule nth_equalityI)
    fix i assume "i < length (kinds ?g)"
    then have "i < length ?ks" by (simp add: g)
    then show "kinds ?g ! i = ?ks ! i" using kind [of "?r + i"] len by (simp add: g kinds_def)
  qed (simp add: g)
  show n: "locals_number ?g = length ?ks" "out ?g = []" "current_block_index ?g = 0" by (simp_all add: g locals_number_def)
  have "blocks_ok ?g" unfolding blocks_ok_def n using kind len by (simp add: g rets_ok_def nth_append Let_def)
  moreover have "stack_ok ?g"
    unfolding stack_ok_def n
  proof (intro conjI allI impI ballI)
    show "value_type (gslots ?g ! (stack_idx ?g ! k)) \<noteq> kRef" if "k < length ?ks" for k
    proof -
      have "(rets @ ?ks) ! (?r + k) \<in> set ?ks" using that by (metis nth_append_length_plus nth_mem)
      then show ?thesis using kind [of "?r + k"] that len noref by (auto simp: g)
    qed
    show "result_slots (blocks ?g ! j) \<inter> set (stack_idx ?g) = {}" if "outer (blocks ?g) 0 j" for j
    proof -
      have "j = 0" using that by induction (simp_all add: g)
      then show ?thesis by (auto simp: g result_slots_def)
    qed
    show "stack_idx ?g ! i \<noteq> stack_idx ?g ! k" if "k < length ?ks \<and> length ?ks \<le> i \<and> i < start_slot_index ?g \<and> i < length (stack_idx ?g)" for i k
      using that by (auto simp: g)
  qed (use len G(2) in \<open>auto simp: g\<close>)
  ultimately show "gen_ok ?g" by (simp add: gen_ok_def)
qed

subsection \<open>Refinement of WebAssembly's locals and operands\<close>

text \<open>
  The instructions: accesses to locals, with the value of an assignment in the register or on the stack, and the begins and ends of blocks. A
  frame of the specification has the height of the stack at its begin, the kinds of its parameters, which lie below that height, and of its results.
\<close>

datatype local_op = LocalGet nat | LocalSet nat bool | LocalTee nat bool | BeginOp block_opcode "value_kind list" "value_kind list" | EndOp

type_synonym frame = "nat \<times> value_kind list \<times> value_kind list"

fun encode_op :: "gen_api \<Rightarrow> local_op \<Rightarrow> gen \<Rightarrow> gen" where
  "encode_op A (LocalGet k) g = EncodeLocalGet A k g"
| "encode_op A (LocalSet k reg) g = EncodeLocalSet A k reg g"
| "encode_op A (LocalTee k reg) g = EncodeLocalTee A k reg g"
| "encode_op A (BeginOp op ps rs) g = EncodeBlock A op (ps, rs) g"
| "encode_op A EndOp g = EncodeEnd A g"

fun frame_start :: "nat \<Rightarrow> frame list \<Rightarrow> nat" where
  "frame_start n [] = n"
| "frame_start n ((h, ps, rs) # fs) = h"

fun frame_base :: "nat \<Rightarrow> frame list \<Rightarrow> nat" where
  "frame_base n [] = n"
| "frame_base n ((h, ps, rs) # fs) = h - length ps"

text \<open>WebAssembly's validation of the kinds on the stack, with \<open>n\<close> locals at its bottom.\<close>

definition on_top :: "value_kind list \<Rightarrow> value_kind list \<Rightarrow> bool" where
  "on_top ps ks \<longleftrightarrow> length ps \<le> length ks \<and> drop (length ks - length ps) ks = ps"

definition assignable :: "nat \<Rightarrow> nat \<Rightarrow> bool \<Rightarrow> value_kind list \<times> frame list \<Rightarrow> bool" where
  "assignable n k reg \<sigma> \<longleftrightarrow> k < n \<and>
     (if reg then fst \<sigma> ! k = kI32 \<or> fst \<sigma> ! k = kI64 else frame_base n (snd \<sigma>) < length (fst \<sigma>) \<and> last (fst \<sigma>) = fst \<sigma> ! k)"

fun type_op :: "nat \<Rightarrow> local_op \<Rightarrow> value_kind list \<times> frame list \<Rightarrow> (value_kind list \<times> frame list) option" where
  "type_op n (LocalGet k) (ks, fs) = (if k < n then Some (ks @ [ks ! k], fs) else None)"
| "type_op n (LocalSet k reg) (ks, fs) = (if assignable n k reg (ks, fs) then Some (if reg then ks else butlast ks, fs) else None)"
| "type_op n (LocalTee k reg) (ks, fs) = (if assignable n k reg (ks, fs) then Some (ks, fs) else None)"
| "type_op n (BeginOp op ps rs) (ks, fs) =
     (if (op = kExprBlock \<or> op = kExprLoop) \<and> frame_base n fs + length ps \<le> length ks \<and> on_top ps ks \<and> kRef \<notin> set (ps @ rs)
      then Some (ks, (length ks, ps, rs) # fs) else None)"
| "type_op n EndOp (ks, []) = None"
| "type_op n EndOp (ks, (h, ps, rs) # fs) = (if length ks = h - length ps + length rs \<and> on_top rs ks then Some (ks, fs) else None)"

fun type_ops :: "nat \<Rightarrow> local_op list \<Rightarrow> value_kind list \<times> frame list \<Rightarrow> (value_kind list \<times> frame list) option" where
  "type_ops n [] \<sigma> = Some \<sigma>"
| "type_ops n (op # ops) \<sigma> = (case type_op n op \<sigma> of None \<Rightarrow> None | Some \<sigma>' \<Rightarrow> type_ops n ops \<sigma>')"

text \<open>No \<^verbatim>\<open>local.get\<close> where the stack is lower than at the begin of the block, its parameters being used up.\<close>

fun gets_above :: "nat \<Rightarrow> local_op list \<Rightarrow> value_kind list \<times> frame list \<Rightarrow> bool" where
  "gets_above n [] \<sigma> \<longleftrightarrow> True"
| "gets_above n (op # ops) \<sigma> \<longleftrightarrow> (case op of LocalGet k \<Rightarrow> frame_start n (snd \<sigma>) \<le> length (fst \<sigma>) | _ \<Rightarrow> True) \<and>
     (case type_op n op \<sigma> of None \<Rightarrow> True | Some \<sigma>' \<Rightarrow> gets_above n ops \<sigma>')"

text \<open>Their effect on the values of locals and operands, \<open>lk\<close> being the kinds of the locals and \<open>r\<close> the register.\<close>

fun exec_op :: "u64 \<Rightarrow> value_kind list \<Rightarrow> local_op \<Rightarrow> u32 list list \<Rightarrow> u32 list list" where
  "exec_op r lk (LocalGet k) v = v @ [v ! k]"
| "exec_op r lk (LocalSet k reg) v = (if reg then v[k := reg_words (lk ! k) r] else butlast (v[k := last v]))"
| "exec_op r lk (LocalTee k reg) v = v[k := if reg then reg_words (lk ! k) r else last v]"
| "exec_op r lk (BeginOp op ps rs) v = v"
| "exec_op r lk EndOp v = v"

text \<open>The frames of the generator's blocks.\<close>

inductive frames :: "block_data list \<Rightarrow> nat \<Rightarrow> frame list \<Rightarrow> bool" for B where
  frames_function: "frames B 0 []"
| frames_block: "frames B (b_parent (B ! c)) fs \<Longrightarrow> 0 < c \<Longrightarrow> kRef \<notin> set (b_rets (B ! c)) \<Longrightarrow>
    frames B c ((b_stack_size (B ! c), b_params (B ! c), b_rets (B ! c)) # fs)"

inductive_cases frames_NilE: "frames B c []"
inductive_cases frames_ConsE: "frames B c (f # fs)"

lemma frames_append:
  assumes "frames B c fs" "c < length B" "\<And>j. 0 < j \<Longrightarrow> j < length B \<Longrightarrow> b_parent (B ! j) < j"
  shows "frames (B @ [b]) c fs"
  using assms(1,2)
proof induction
  case (frames_block c fs)
  then have "b_parent (B ! c) < length B" using assms(3) [of c] by simp
  then have "frames (B @ [b]) (b_parent ((B @ [b]) ! c)) fs" using frames_block by (simp add: nth_append)
  then have "frames (B @ [b]) c ((b_stack_size ((B @ [b]) ! c), b_params ((B @ [b]) ! c), b_rets ((B @ [b]) ! c)) # fs)"
    using frames_block by (intro frames.frames_block) (simp_all add: nth_append)
  then show ?case using frames_block by (simp add: nth_append)
qed (rule frames_function)

text \<open>A state of the generator and the stack and frames of the specification.\<close>

definition represents :: "nat \<Rightarrow> value_kind list \<Rightarrow> gen \<Rightarrow> value_kind list \<times> frame list \<Rightarrow> bool" where
  "represents n lk g \<sigma> \<longleftrightarrow> gen_ok g \<and> locals_number g = n \<and> kinds g = fst \<sigma> \<and> take n (fst \<sigma>) = lk \<and> frames (blocks g) (current_block_index g) (snd \<sigma>)"

lemma represents_start:
  assumes "represents n lk g (ks, fs)"
  shows "frame_start n fs = start_slot_index g" "n \<le> frame_base n fs" "n \<le> length ks" "length ks = length (stack_idx g)"
proof -
  have g: "gen_ok g" "locals_number g = n" "kinds g = ks" "frames (blocks g) (current_block_index g) fs" using assms by (simp_all add: represents_def)
  then have B: "blocks_ok g" "stack_ok g" by (simp_all add: gen_ok_def)
  show "frame_start n fs = start_slot_index g" "n \<le> frame_base n fs"
    using g(4) B(1) by (cases, auto simp: start_slot_index_def blocks_ok_def Let_def g(2))+
  show "length ks = length (stack_idx g)" using g(3) by (metis length_kinds)
  then show "n \<le> length ks" using B(2) g(2) by (simp add: stack_ok_def)
qed

lemma sound_step_represents:
  assumes "represents n lk g (ks, fs)" "sound_step E g g' h hk" "take n (hk ks) = lk"
  shows "gen_step E g g' h" "represents n lk g' (hk ks, fs)"
  using assms by (simp_all add: represents_def sound_step_def same_blocks_def)

text \<open>Each instruction is simulated.\<close>

lemma assign_simulated:
  assumes A: "gen_api_ok A" and R: "represents n lk g (ks, fs)" and as: "assignable n k reg (ks, fs)"
  shows "sound_step E g (CopyToSlotAndPop A (value_type (gslots g ! (stack_idx g ! k))) k tee reg g)
      (\<lambda>r v. if tee \<or> reg then v[k := assigned (lk ! k) reg r v] else butlast (v[k := assigned (lk ! k) reg r v]))
      (\<lambda>ks. if tee \<or> reg then ks else butlast ks)"
proof -
  have g: "gen_ok g" "locals_number g = n" "kinds g = ks" "take n ks = lk" using R by (simp_all add: represents_def)
  note L = represents_start [OF R]
  have k: "k < n" using as by (simp add: assignable_def)
  have kd: "value_type (gslots g ! (stack_idx g ! k)) = kinds g ! k" "lk ! k = kinds g ! k" using k L(3,4) g(3,4) by (auto simp: kinds_def)
  have src: "if reg then kinds g ! k = kI32 \<or> kinds g ! k = kI64 else kinds g ! k = last (kinds g) \<and> locals_number g < length (stack_idx g)"
    using as L(2,4) g(2,3) by (auto simp: assignable_def)
  show ?thesis
    unfolding kd using k g(2) src by (intro CopyToSlotAndPop_sound [OF A g(1)]) simp_all
qed

lemma begin_simulated:
  assumes A: "gen_api_ok A" and R: "represents n lk g (ks, fs)" and ty: "type_op n (BeginOp op ps rs) (ks, fs) = Some \<sigma>'"
  shows "gen_step E g (EncodeBlock A op (ps, rs) g) (\<lambda>r v. v)" "represents n lk (EncodeBlock A op (ps, rs) g) \<sigma>'"
proof -
  let ?g = "EncodeBlock A op (ps, rs) g"
  have g: "gen_ok g" "locals_number g = n" "kinds g = ks" "take n ks = lk" "frames (blocks g) (current_block_index g) fs" using R by (simp_all add: represents_def)
  note L = represents_start [OF R]
  have ty': "op = kExprBlock \<or> op = kExprLoop" "frame_base n fs + length ps \<le> length ks" "on_top ps ks" "kRef \<notin> set (ps @ rs)"
    and s': "\<sigma>' = (ks, (length ks, ps, rs) # fs)" using ty by (auto split: if_splits)
  have "params_on_top ps g" using ty'(2-4) L(2,4) g(2,3) by (auto simp: params_on_top_def on_top_def)
  then have b: "begun E (ps, rs) g ?g" by (rule EncodeBlock_sound [OF A g(1) _ ty'(1)])
  then show "gen_step E g ?g (\<lambda>r v. v)" by (simp add: begun_def)
  obtain bl where bl: "blocks ?g = blocks g @ [bl]" "b_parent bl = current_block_index g" "b_stack_size bl = length (stack_idx g)" "b_params bl = ps" "b_rets bl = rs"
    and c: "current_block_index ?g = length (blocks g)" using b by (auto simp: begun_def)
  have B: "blocks_ok g" using g(1) by (simp add: gen_ok_def)
  then have "frames (blocks g @ [bl]) (current_block_index g) fs" using g(5) by (intro frames_append) (auto simp: blocks_ok_def Let_def)
  moreover have "0 < length (blocks g)" using B by (auto simp: blocks_ok_def)
  ultimately have "frames (blocks ?g) (current_block_index ?g) ((length ks, ps, rs) # fs)"
    using frames_block [of "blocks g @ [bl]" "length (blocks g)" fs] ty'(4) bl c L(4) by simp
  then show "represents n lk ?g \<sigma>'" using b g by (simp add: represents_def s' begun_def)
qed

lemma end_simulated:
  assumes A: "gen_api_ok A" and R: "represents n lk g (ks, fs)" and ty: "type_op n EndOp (ks, fs) = Some \<sigma>'"
  shows "gen_step E g (EncodeEnd A g) (\<lambda>r v. v)" "represents n lk (EncodeEnd A g) \<sigma>'"
proof -
  let ?c = "current_block_index g"
  let ?b = "blocks g ! ?c"
  have g: "gen_ok g" "locals_number g = n" "kinds g = ks" "take n ks = lk" "frames (blocks g) ?c fs" using R by (simp_all add: represents_def)
  note L = represents_start [OF R]
  obtain h ps rs fs' where fs: "fs = (h, ps, rs) # fs'" and len: "length ks = h - length ps + length rs" and top: "on_top rs ks" and s': "\<sigma>' = (ks, fs')"
    using ty by (cases fs) (auto split: if_splits)
  from g(5) have b: "0 < ?c" "h = b_stack_size ?b" "ps = b_params ?b" "rs = b_rets ?b" "kRef \<notin> set rs" "frames (blocks g) (b_parent ?b) fs'"
    unfolding fs by (auto elim: frames_ConsE)
  have "results_on_top ?b g" using top b g(3) L(4) by (simp add: results_on_top_def on_top_def)
  with len b L(4) have "length (stack_idx g) = b_stack_size ?b - length (b_params ?b) + length (b_rets ?b)" "results_on_top ?b g" by simp_all
  note E = EndBlock_sound [OF A g(1) b(1) refl this]
  show "gen_step E g (EncodeEnd A g) (\<lambda>r v. v)" unfolding EncodeEnd_def by (rule E(1))
  show "represents n lk (EncodeEnd A g) \<sigma>'" unfolding EncodeEnd_def using E(2-6) g b(6) by (simp add: represents_def s')
qed

lemma op_simulated:
  assumes A: "gen_api_ok A" and R: "represents n lk g \<sigma>" and ty: "type_op n op \<sigma> = Some \<sigma>'" and above: "gets_above n [op] \<sigma>"
  shows "gen_step E g (encode_op A op g) (\<lambda>r v. exec_op r lk op v) \<and> represents n lk (encode_op A op g) \<sigma>'"
proof -
  obtain ks fs where s: "\<sigma> = (ks, fs)" by force
  note R = R [unfolded s] and ty = ty [unfolded s]
  have g: "gen_ok g" "locals_number g = n" "kinds g = ks" "take n ks = lk" using R by (simp_all add: represents_def)
  note L = represents_start [OF R]
  show ?thesis
  proof (cases op)
    case (LocalGet k)
    with ty have k: "k < n" and s': "\<sigma>' = (ks @ [ks ! k], fs)" by (auto split: if_splits)
    have "start_slot_index g \<le> length (stack_idx g)" using above LocalGet L by (simp add: s)
    then have "sound_step E g (EncodeLocalGet A k g) (\<lambda>r v. v @ [v ! k]) (\<lambda>ks. ks @ [ks ! k])"
      using k g(2) by (intro EncodeLocalGet_sound [OF A g(1)]) simp_all
    from sound_step_represents [OF R this] show ?thesis using LocalGet s' L(3) g(4) by simp
  next
    case (LocalSet k reg)
    with ty have as: "assignable n k reg (ks, fs)" and s': "\<sigma>' = (if reg then ks else butlast ks, fs)" by (auto split: if_splits)
    have "take n (if reg then ks else butlast ks) = lk" using as L(2,3) g(4) by (auto simp: assignable_def butlast_conv_take)
    then show ?thesis using sound_step_represents [OF R assign_simulated [OF A R as, of E False]] LocalSet s'
      by (cases reg) (simp_all add: EncodeLocalSet_def assigned_def)
  next
    case (LocalTee k reg)
    with ty have as: "assignable n k reg (ks, fs)" and s': "\<sigma>' = (ks, fs)" by (auto split: if_splits)
    show ?thesis using sound_step_represents [OF R assign_simulated [OF A R as, of E True]] LocalTee s' g(4)
      by (cases reg) (simp_all add: EncodeLocalTee_def assigned_def)
  next
    case (BeginOp op' ps rs)
    then show ?thesis using begin_simulated [OF A R] ty by simp
  next
    case EndOp
    then show ?thesis using end_simulated [OF A R] ty by simp
  qed
qed

lemma ops_simulated:
  assumes "gen_api_ok A" "represents n lk g \<sigma>" "type_ops n ops \<sigma> = Some \<sigma>'" "gets_above n ops \<sigma>"
  shows "gen_step E g (fold (encode_op A) ops g) (\<lambda>r v. fold (exec_op r lk) ops v) \<and> represents n lk (fold (encode_op A) ops g) \<sigma>'"
  using assms(2-4)
proof (induction ops arbitrary: g \<sigma>)
  case Nil
  then show ?case by (simp add: gen_step_none)
next
  case (Cons op ops)
  then obtain \<sigma>1 where s1: "type_op n op \<sigma> = Some \<sigma>1" "type_ops n ops \<sigma>1 = Some \<sigma>'" "gets_above n ops \<sigma>1" "gets_above n [op] \<sigma>"
    by (auto split: option.splits)
  have step: "gen_step E g (encode_op A op g) (\<lambda>r v. exec_op r lk op v)" "represents n lk (encode_op A op g) \<sigma>1"
    using op_simulated [OF assms(1) Cons.prems(1) s1(1,4)] by blast+
  have "gen_step E (encode_op A op g) (fold (encode_op A) ops (encode_op A op g)) (\<lambda>r v. fold (exec_op r lk) ops v)"
    "represents n lk (fold (encode_op A) ops (encode_op A op g)) \<sigma>'" using Cons.IH [OF step(2) s1(2,3)] by blast+
  then show ?case using gen_step_trans [OF step(1)] by simp
qed

lemma function_represented:
  assumes "gen_api_ok A" "kRef \<notin> set (params @ local_types)"
  shows "represents (length (params @ local_types)) (params @ local_types) (BeginFunction A params rets local_types) (params @ local_types, [])"
  using BeginFunction_ok [OF assms, of rets] by (simp add: represents_def frames_function)

text \<open>
  C38: locals and operands stay in step with WebAssembly through local accesses and nested blocks and loops, up to one case that is shown below to be wrong. Take a
  function with parameters, results and locals of the number and vector kinds (no references), and any well-typed sequence of \<^verbatim>\<open>local.get\<close>, \<^verbatim>\<open>local.set\<close>,
  \<^verbatim>\<open>local.tee\<close> and begins and ends of blocks and loops in which every \<^verbatim>\<open>local.get\<close> finds the stack at or above the height it had when the innermost block began,
  that block's parameters included (\<open>gets_above\<close>: the block has not used up its own parameters). Then the instructions emitted run to the end, and the slots that the
  generator's stack names afterwards hold exactly the locals and operands that WebAssembly prescribes.
\<close>

theorem locals_refined:
  assumes "gen_api_ok A" "kRef \<notin> set (params @ local_types)"
    and "type_ops (length (params @ local_types)) ops (params @ local_types, []) = Some (ks, fs)"
    and "gets_above (length (params @ local_types)) ops (params @ local_types, [])"
    and "fits E (out (fold (encode_op A) ops (BeginFunction A params rets local_types)))"
  shows "\<exists>s'. run E (out (fold (encode_op A) ops (BeginFunction A params rets local_types))) s = Next s' \<and>
    kinds (fold (encode_op A) ops (BeginFunction A params rets local_types)) = ks \<and>
    vals (fold (encode_op A) ops (BeginFunction A params rets local_types)) (slots s') =
      fold (exec_op (r0 s) (params @ local_types)) ops (vals (BeginFunction A params rets local_types) (slots s))"
proof -
  let ?gf = "BeginFunction A params rets local_types"
  let ?g = "fold (encode_op A) ops ?gf"
  have R: "gen_step E ?gf ?g (\<lambda>r v. fold (exec_op r (params @ local_types)) ops v)"
      "represents (length (params @ local_types)) (params @ local_types) ?g (ks, fs)"
    using ops_simulated [OF assms(1) function_represented [OF assms(1,2)] assms(3,4)] by blast+
  have "out ?gf = []" by (rule BeginFunction_ok [OF assms(1,2)])
  then obtain sl' where "runs E (out ?g) s sl'" "vals ?g sl' = fold (exec_op (r0 s) (params @ local_types)) ops (vals ?gf (slots s))"
    using R(1) assms(5) by (auto simp: gen_step_def)
  then show ?thesis using R(2) by (auto simp: runs_def represents_def)
qed

text \<open>The operations of the header on a concrete layout: a new slot begins at the end of all others.\<close>

definition slots_end :: "gen_slot list \<Rightarrow> nat" where
  "slots_end ss = foldr (\<lambda>b m. max m (slot_offset b + width (value_type b))) ss 0"

definition stacked_api :: gen_api where
  "stacked_api =
     (let create = (\<lambda>k g. (length (gslots g), g\<lparr>gslots := gslots g @ [\<lparr>value_type = k, slot_offset = slots_end (gslots g), ref_stack_index = 0\<rparr>]\<rparr>))
      in \<lparr>CreateSlot = create, UpdateStack = (\<lambda>i n g. g\<lparr>stack_idx := (stack_idx g)[i := n]\<rparr>),
          PushNewSlot = (\<lambda>k g. let (i, g) = create k g in g\<lparr>stack_idx := stack_idx g @ [i]\<rparr>),
          PushCopySlot = (\<lambda>i g. g\<lparr>stack_idx := stack_idx g @ [stack_idx g ! i]\<rparr>), PopSlot = (\<lambda>g. g\<lparr>stack_idx := butlast (stack_idx g)\<rparr>)\<rparr>)"

lemma slots_end_fresh: "b \<in> set ss \<Longrightarrow> slot_offset b + width (value_type b) \<le> slots_end ss"
  by (induction ss) (auto simp: slots_end_def)

lemma stacked_api_ok: "gen_api_ok stacked_api"
  unfolding gen_api_ok_def
proof (intro conjI allI)
  fix k and g :: gen
  let ?b = "\<lparr>value_type = k, slot_offset = slots_end (gslots g), ref_stack_index = 0\<rparr>"
  have "fresh_slot (gslots g) ?b" using slots_end_fresh by (auto simp: fresh_slot_def apart_slots_def)
  then show "\<exists>b. CreateSlot stacked_api k g = (length (gslots g), g\<lparr>gslots := gslots g @ [b]\<rparr>) \<and> value_type b = k \<and> fresh_slot (gslots g) b"
    by (intro exI [of _ ?b]) (simp add: stacked_api_def Let_def)
qed (simp_all add: stacked_api_def Let_def)

definition sample_ops :: "local_op list" where
  "sample_ops = [LocalGet 0, LocalGet 1, LocalSet 0 False, BeginOp kExprLoop [kI32] [kI32], LocalTee 1 False, EndOp, LocalSet 0 True]"

definition locals_state :: interp where
  "locals_state = \<lparr>bytecode = (\<lambda>_. 0), code = 0, slots = (\<lambda>i. if i = 0 then 10 else 20), r0 = 30, memory = (\<lambda>_. []), globals = (\<lambda>_. 0)\<rparr>"

theorem locals_refined_witness:
  "\<exists>s'. run plain_env (out (fold (encode_op stacked_api) sample_ops (BeginFunction stacked_api [kI32] [] [kI32]))) locals_state = Next s' \<and>
     vals (fold (encode_op stacked_api) sample_ops (BeginFunction stacked_api [kI32] [] [kI32])) (slots s') = [[30], [10], [10]]"
proof -
  let ?f = "BeginFunction stacked_api [kI32] [] [kI32]"
  have ty: "type_ops (length ([kI32] @ [kI32])) sample_ops ([kI32] @ [kI32], []) = Some ([kI32, kI32, kI32], [])"
    by (simp add: sample_ops_def assignable_def on_top_def)
  have above: "gets_above (length ([kI32] @ [kI32])) sample_ops ([kI32] @ [kI32], [])"
    by (simp add: sample_ops_def assignable_def on_top_def)
  have out: "out (fold (encode_op stacked_api) sample_ops ?f) =
      [(k_s2s_PreserveCopySlot32, [1, 0, 2]), (k_s2s_CopySlot32, [2, 4]), (k_s2s_OnLoopBegin, []), (k_s2s_CopySlot32, [4, 1]), (k_s2s_CopySlot32, [4, 3]),
       (k_r2s_CopyR0ToSlot32, [0])]"
    by code_simp
  then have "fits plain_env (out (fold (encode_op stacked_api) sample_ops ?f))" by (simp add: plain_env_def)
  from locals_refined [OF stacked_api_ok _ ty above this, of locals_state] obtain s' where
    s': "run plain_env (out (fold (encode_op stacked_api) sample_ops ?f)) locals_state = Next s'"
      "vals (fold (encode_op stacked_api) sample_ops ?f) (slots s') = fold (exec_op (r0 locals_state) ([kI32] @ [kI32])) sample_ops (vals ?f (slots locals_state))"
    by auto
  have "vals ?f (slots locals_state) = [[10], [20]]"
    by (simp add: BeginFunction_def BeginBlock_def empty_gen_def stacked_api_def slots_end_def vals_def contents_def slot_words_def locals_state_def)
  then show ?thesis using s' by (simp add: sample_ops_def locals_state_def reg_words_def)
qed

text \<open>
  C39: the operands of a branch arrive: in the code generated by any sequence as in the previous property, \<open>gets_above\<close> included, a branch whose target is an enclosing block that is not a loop, or a return,
  copies the block's results from the top of the stack to the slots that the end of the block puts on the stack, in order, and changes no local and no operand.
\<close>

theorem branch_delivers_results:
  assumes "gen_api_ok A" "kRef \<notin> set (params @ local_types)"
    and "type_ops (length (params @ local_types)) ops (params @ local_types, []) = Some (ks, fs)"
    and "gets_above (length (params @ local_types)) ops (params @ local_types, [])"
    and g: "g = fold (encode_op A) ops (BeginFunction A params rets local_types)"
    and b: "outer (blocks g) (current_block_index g) j" "b = blocks g ! j" "b_opcode b \<noteq> kExprLoop" "is_branch opcode \<or> opcode = kExprReturn" "results_on_top b g"
    and "fits E (drop (length (out g)) (out (StoreBlockParamsAndResultsIntoSlots A j opcode g)))"
  shows "\<exists>s'. run E (drop (length (out g)) (out (StoreBlockParamsAndResultsIntoSlots A j opcode g))) s = Next s' \<and> vals g (slots s') = vals g (slots s) \<and>
    map (\<lambda>i. contents g (slots s') ! i) [b_first_block_index b..<b_first_block_index b + length (b_rets b)] =
      drop (length (stack_idx g) - length (b_rets b)) (vals g (slots s))"
proof -
  let ?r = "length (b_rets b)" and ?S = "stack_idx g" and ?first = "b_first_block_index b"
  have "represents (length (params @ local_types)) (params @ local_types) g (ks, fs)"
    using ops_simulated [OF assms(1) function_represented [OF assms(1,2)] assms(3,4)] by (auto simp: g)
  then have ok: "gen_ok g" by (simp add: represents_def)
  have r: "?r \<le> length ?S" using b(5) by (simp add: results_on_top_def)
  obtain c where c: "store_results b ?r g = g\<lparr>out := c\<rparr>"
      "copy_step E g (store_results b ?r g) (copies ?first (\<lambda>i. ?S ! (length ?S - ?r + i)) ?r)"
    by (rule results_stored [OF ok b(1,2,5)])
  obtain "is" where i: "c = out g @ is"
      "fits E is \<Longrightarrow> \<exists>sl'. runs E is s sl' \<and> contents g sl' = copies ?first (\<lambda>i. ?S ! (length ?S - ?r + i)) ?r (contents g (slots s))"
    using c by (auto simp: copy_step_def)
  have o: "drop (length (out g)) (out (StoreBlockParamsAndResultsIntoSlots A j opcode g)) = is"
    using StoreBlock_branch [OF b(2-4) r] c(1) i(1) by simp
  then obtain s' where s': "run E is s = Next s'" "contents g (slots s') = copies ?first (\<lambda>i. ?S ! (length ?S - ?r + i)) ?r (contents g (slots s))"
    using i(2) assms(11) by (auto simp: runs_def)
  note v = results_stored_values [OF ok b(1,2,5) s'(2)]
  have "map (\<lambda>i. contents g (slots s') ! i) [?first..<?first + ?r] = drop (length ?S - ?r) (vals g (slots s))"
    using v(2) r by (intro nth_equalityI) simp_all
  then show ?thesis unfolding o using s'(1) v(3) by blast
qed

definition branch_ops :: "local_op list" where
  "branch_ops = [BeginOp kExprBlock [] [kI32, kI32], LocalGet 1, LocalGet 0, LocalGet 1]"

theorem branch_delivers_results_witness:
  "\<exists>s'. run plain_env [(k_s2s_CopySlot32, [0, 2]), (k_s2s_CopySlot32, [1, 3])] locals_state = Next s' \<and>
     map (\<lambda>i. contents (fold (encode_op stacked_api) branch_ops (BeginFunction stacked_api [kI32] [] [kI32])) (slots s') ! i) [2..<4] = [[10], [20]]"
proof -
  let ?g = "fold (encode_op stacked_api) branch_ops (BeginFunction stacked_api [kI32] [] [kI32])"
  have ty: "type_ops (length ([kI32] @ [kI32])) branch_ops ([kI32] @ [kI32], []) = Some ([kI32, kI32, kI32, kI32, kI32], [(2, [], [kI32, kI32])])"
    and above: "gets_above (length ([kI32] @ [kI32])) branch_ops ([kI32] @ [kI32], [])"
    by (simp_all add: branch_ops_def assignable_def on_top_def)
  have g: "stack_idx ?g = [0, 1, 1, 0, 1]" "current_block_index ?g = 1" "b_opcode (blocks ?g ! 1) = kExprBlock" "b_rets (blocks ?g ! 1) = [kI32, kI32]"
      "b_first_block_index (blocks ?g ! 1) = 2" "kinds ?g = [kI32, kI32, kI32, kI32, kI32]"
      "drop (length (out ?g)) (out (StoreBlockParamsAndResultsIntoSlots stacked_api 1 kExprBr ?g)) = [(k_s2s_CopySlot32, [0, 2]), (k_s2s_CopySlot32, [1, 3])]"
    by code_simp+
  have v: "vals ?g (slots locals_state) = [[10], [20], [20], [10], [20]]" by code_simp
  have "outer (blocks ?g) (current_block_index ?g) 1" unfolding g(2) by (rule outer_here)
  moreover have "b_opcode (blocks ?g ! 1) \<noteq> kExprLoop" "results_on_top (blocks ?g ! 1) ?g" unfolding results_on_top_def g by simp_all
  moreover have "fits plain_env (drop (length (out ?g)) (out (StoreBlockParamsAndResultsIntoSlots stacked_api 1 kExprBr ?g)))"
    unfolding g by (simp add: plain_env_def)
  ultimately obtain s' where "run plain_env (drop (length (out ?g)) (out (StoreBlockParamsAndResultsIntoSlots stacked_api 1 kExprBr ?g))) locals_state = Next s'"
      "map (\<lambda>i. contents ?g (slots s') ! i) [b_first_block_index (blocks ?g ! 1)..<b_first_block_index (blocks ?g ! 1) + length (b_rets (blocks ?g ! 1))] =
        drop (length (stack_idx ?g) - length (b_rets (blocks ?g ! 1))) (vals ?g (slots locals_state))"
    using branch_delivers_results [OF stacked_api_ok _ ty above refl _ refl, where j = 1 and opcode = kExprBr and E = plain_env and s = locals_state and rets = "[]"] by (auto simp: is_branch_def)
  then show ?thesis unfolding g v by auto
qed

text \<open>
  C40: a parameter of a block is counted as part of the enclosing stack. In a function with two 32-bit locals \<open>x\<close> and \<open>y\<close>, the valid sequence
  \<^verbatim>\<open>local.get y\<close>, block with one parameter, \<^verbatim>\<open>local.set y\<close>, \<^verbatim>\<open>local.get x\<close>, \<^verbatim>\<open>local.set x\<close> leaves the old value of \<open>x\<close> on WebAssembly's stack; in the
  generated code the operand is still the slot of \<open>x\<close>, whatever the slots hold, so that it reads the new value.
\<close>

theorem operand_lost_in_parameter_block:
  assumes "gen_api_ok A"
    and ops: "ops = [LocalGet 1, BeginOp kExprBlock [kI32] [], LocalSet 1 False, LocalGet 0, LocalSet 0 True]"
    and g: "g = fold (encode_op A) ops (BeginFunction A [kI32, kI32] rets [])"
  shows "type_ops 2 ops ([kI32, kI32], []) = Some ([kI32, kI32, kI32], [(3, [kI32], [])]) \<and>
    fold (exec_op r [kI32, kI32]) ops [x, y] = [reg_words kI32 r, y, x] \<and> vals g sl ! 2 = vals g sl ! 0"
proof -
  let ?lk = "[kI32, kI32]" and ?f = "BeginFunction A [kI32, kI32] rets []" and ?ops = "[LocalGet 1, BeginOp kExprBlock [kI32] [], LocalSet 1 False]"
  define g3 where "g3 = fold (encode_op A) ?ops ?f"
  have ty: "type_ops 2 ?ops (?lk, []) = Some (?lk, [(3, [kI32], [])])" "gets_above 2 ?ops (?lk, [])" by (simp_all add: assignable_def on_top_def)
  have "represents 2 ?lk ?f (?lk, [])" using function_represented [OF assms(1), of ?lk "[]" rets] by (simp add: numeral_2_eq_2)
  then have R: "represents 2 ?lk g3 (?lk, [(3, [kI32], [])])" using ops_simulated [OF assms(1) _ ty] unfolding g3_def by blast
  have start: "start_slot_index g3 = 3" "length (stack_idx g3) = 2" using represents_start [OF R] by simp_all
  have e: "g = EncodeLocalSet A 0 True (EncodeLocalGet A 0 g3)" by (simp add: g ops g3_def)
  let ?g4 = "g3\<lparr>stack_idx := stack_idx g3 @ [stack_idx g3 ! 0]\<rparr>"
  have g4: "EncodeLocalGet A 0 g3 = ?g4" by (simp add: EncodeLocalGet_def api_simps [OF assms(1)])
  have "FindSharedSlot A 0 ?g4 = None" by (simp add: FindSharedSlot_def start Let_def)
  then have "stack_idx g = stack_idx ?g4" by (simp add: e g4 EncodeLocalSet_def CopyToSlotAndPop_def CopyToSlot_def Let_def)
  then have "stack_idx g ! 2 = stack_idx g ! 0" "length (stack_idx g) = 3" using start(2) by (simp_all add: nth_append)
  then have "vals g sl ! 2 = vals g sl ! 0" by (simp add: vals_def)
  then show ?thesis by (simp add: ops assignable_def on_top_def)
qed

theorem operand_lost_in_parameter_block_witness:
  "fold (exec_op 30 [kI32, kI32]) [LocalGet 1, BeginOp kExprBlock [kI32] [], LocalSet 1 False, LocalGet 0, LocalSet 0 True] [[10], [20]] = [[30], [20], [10]] \<and>
   vals (fold (encode_op stacked_api) [LocalGet 1, BeginOp kExprBlock [kI32] [], LocalSet 1 False, LocalGet 0, LocalSet 0 True]
     (BeginFunction stacked_api [kI32, kI32] [] [])) of_nat ! 2 =
   vals (fold (encode_op stacked_api) [LocalGet 1, BeginOp kExprBlock [kI32] [], LocalSet 1 False, LocalGet 0, LocalSet 0 True]
     (BeginFunction stacked_api [kI32, kI32] [] [])) of_nat ! 0"
  using operand_lost_in_parameter_block [OF stacked_api_ok refl refl, of 30 "[10]" "[20]" "[]" of_nat] by (simp add: reg_words_def)

end
