(* ===== verification/Spec2Isabelle.thy ===== *)
theory Spec2Isabelle
  imports Blinker_Prelude Site_Policy Memory_Policy Private_Logging Content_Filter Filter_Syntax Permission_Manager Extensions
    Shell_Navigation Shell_Tabs File_Select Downloads Crash_Record Jit_Tier Write_Protect Code_Pool Code_Pages Code_Allocator
    Region_Map Jit_Pages Jit_Registry Wasm_Handlers Wasm_Memory Wasm_Atomics Wasm_Simd Wasm_Slots Wasm_Locals Wasm_Blocks
begin

text \<open>
  \<^bold>\<open>Blinker Fluid: a verification library.\<close>

  Blinker Fluid is a set of files laid over a Chromium checkout to make a browser for iOS
  (paths below are relative to the overlay's root \<^verbatim>\<open>src/\<close>). Its parts, from the page down to
  the processor:

  \<^item> a \<^emph>\<open>content filter\<close> (\<^verbatim>\<open>content/shell/browser/blinker_content_filter.cc\<close>) that parses filter
    lists, cancels requests and hides page elements, and \<^emph>\<open>per-site extensions\<close>
    (\<^verbatim>\<open>blinker_extensions.cc\<close>) that run on every committed navigation and use the filter's
    stylesheets;
  \<^item> \<^emph>\<open>policies\<close> as constants and small functions in headers (\<^verbatim>\<open>content/shell/common\<close>): which
    sites are sign-in providers or chat sites, the memory thresholds derived from the device, and
    whether a line with a URL may be written in a private session;
  \<^item> the \<^emph>\<open>shell\<close> (\<^verbatim>\<open>shell.cc\<close>, with parts of \<^verbatim>\<open>shell_platform_delegate_ios.mm\<close> and
    \<^verbatim>\<open>shell_content_browser_client.cc\<close>): windows and tabs, the load guards, sign-in popups and
    the redirect-loop breaker, and the handlers the engine calls;
  \<^item> the \<^emph>\<open>permission manager\<close> (\<^verbatim>\<open>shell_permission_manager.cc\<close>), which turns web permissions
    into system prompts;
  \<^item> the \<^emph>\<open>file chooser\<close> (\<^verbatim>\<open>shell_file_select_helper.cc\<close>) and the \<^emph>\<open>download delegate\<close>
    (\<^verbatim>\<open>shell_download_manager_delegate.cc\<close>), which answer pages and downloads asynchronously;
  \<^item> \<^emph>\<open>start-up\<close> (\<^verbatim>\<open>shell_main.cc\<close>, \<^verbatim>\<open>shell_main_delegate.cc\<close>): the crash record, the probes
    for executable memory, and the guard that lowers the JIT tier after crashes;
  \<^item> the \<^emph>\<open>executable memory\<close> of V8 on iOS (\<^verbatim>\<open>v8/src/common/code-memory-access.cc\<close>): write
    scopes, the writable mirror of the code range and the mirrors of WebAssembly code spaces, and
    the registry of JIT pages and allocations that every write to code goes through;
  \<^item> the \<^emph>\<open>WebAssembly code allocator\<close> (\<^verbatim>\<open>v8/src/wasm/wasm-code-manager.cc\<close>);
  \<^item> the \<^emph>\<open>WebAssembly interpreter\<close> (\<^verbatim>\<open>v8/src/wasm/interpreter/wasm-interpreter.cc\<close>), which runs
    modules where no code may be generated: handlers that keep the top of the value stack in a
    register or in a slot (the \<open>r2r\<close>, \<open>r2s\<close>, \<open>s2r\<close> and \<open>s2s\<close> forms), over a stack of 32-bit slots.

  \<^bold>\<open>Theories.\<close> Each theory opens with what it holds; definitions have the names of the C++
  functions they translate, in the order of the source.

  \<^item> \<open>Blinker_Prelude\<close>: string views, the URL and host helpers the sources call, word lemmas,
    the library functions of Chromium as the parameter \<open>base_api\<close>.
  \<^item> \<open>Site_Policy\<close>, \<open>Memory_Policy\<close>, \<open>Private_Logging\<close>: the policy headers. Matching a host
    against a domain is label-suffix matching; the thresholds are strictly ordered and never wrap.
  \<^item> \<open>Content_Filter\<close>: the rule store, the line parser, file loading, request blocking, cosmetic
    stylesheets, the request throttle. Exactness of blocking against the two host sets, round trip from a printed rule to blocking,
    containment of the injected stylesheet, an invariant of the store. The contract of a set of
    hosts with domain-suffix lookup is the locale \<open>host_rule_store\<close>, interpreted on the blocked
    and on the allowed hosts.
  \<^item> \<open>Filter_Syntax\<close>: the grammar of filter lines on their text, apart from the parser; the parser reads
    every line as the grammar does and stores what the rule says.
  \<^item> \<open>Permission_Manager\<close>: the request handler, the asynchronous prompts as an \<open>inductive\<close> step
    relation over all interleavings of answers; the reply runs once, when all are in.
  \<^item> \<open>Extensions\<close>, \<open>Browser_Client\<close>: site zoom and desktop mode, injected scripts; the
    user-agent and navigation decisions of the browser client.
  \<^item> \<open>Browser_World\<close>, \<open>Ring_Buffer\<close>, \<open>Shell_Guards\<close>, \<open>Shell_Auth\<close>, \<open>Shell_Windows\<close>,
    \<open>Shell_Navigation\<close>, \<open>Shell_Tabs\<close>: the shell over one explicit \<open>world\<close> (live WebContents,
    windows, trackers, logs, calls made to the engine). \<open>Ring_Buffer\<close> states the history array as a
    locale, interpreted on the two arrays of the code; \<open>Shell_Tabs\<close> has one step relation with a
    rule for every handler, its reachable worlds, and the invariants over them.
  \<^item> \<open>File_Select\<close>, \<open>Downloads\<close>: the reference-counted chooser and the delegate's tasks, as step
    relations over every order of user, lister, task and shutdown events; each request is answered
    once. Two downloads of the same name collide, which is shown as well.
  \<^item> \<open>Crash_Record\<close>, \<open>Jit_Tier\<close>: the async-signal-safe writers with their buffers, and the
    start-up decisions as functions of the stored preferences and the kernel's answers.
  \<^item> \<open>Write_Protect\<close>: page protections as a map, the kernel calls with their answers, all
    sequences of opening and closing write scopes, with any of the calls failing.
  \<^item> \<open>Code_Pool\<close>, \<open>Code_Pages\<close>, \<open>Code_Allocator\<close>: the free-region pool, page rounding, and
    the allocator over them. The pool's contract is the locale \<open>address_pool\<close> (which extends
    \<open>region_store\<close>), interpreted on \<open>Merge\<close> and \<open>AllocateInRegion\<close>; the allocator's accounting
    invariant rests on that interpretation.
  \<^item> \<open>Region_Map\<close>, \<open>Jit_Pages\<close>, \<open>Jit_Registry\<close>: the ordered maps from addresses to regions with the
    overlap check, the registry \<^verbatim>\<open>ThreadIsolation\<close> over them, and its contract: an abstract registry of
    covered addresses and allocations that every run of requests follows (locale
    \<open>registry_contract\<close>, interpreted on the operations of the code), disjointness of the
    registered code, exact queries, and two places where the checks miss.
  \<^item> \<open>Wasm_Handlers\<close>: operators, comparisons, conversions, globals, selection and branches of the
    interpreter; every form of every integer operator computes what the WebAssembly specification
    says, traps included, and no form reaches undefined C++ behaviour.
  \<^item> \<open>Wasm_Memory\<close>: loads, stores and the fused instructions over a byte memory, with 32- and 64-bit
    indices; bounds, effects and traps are exact, the fused forms equal the pairs they replace but
    for one, and 32-bit values stay canonical in the register.
  \<^item> \<open>Wasm_Atomics\<close>: the atomic accesses, exact in alignment, bounds and effect, and notify and wait,
    which test eight bytes for an access of four.
  \<^item> \<open>Wasm_Simd\<close>: the vector instructions on integer lanes, which compute the lane functions of the
    specification but for the extended multiplications and one undefined absolute value, and the
    vector accesses to memory, which are exact.
  \<^item> \<open>Wasm_Slots\<close>: slot copies and the code the generator emits to pass arguments; executing it
    delivers every argument.
  \<^item> \<open>Wasm_Locals\<close>, \<open>Wasm_Blocks\<close>: the slots of locals, operands, block parameters and results in the
    generator. The stack of slot indices, with the execution of the emitted copies, refines the locals and
    operands of WebAssembly for blocks and loops over numbers and vectors, as long as no block uses up its parameters
    before a \<^verbatim>\<open>local.get\<close>; branches out of blocks and returns deliver their results; a block that does use up
    its parameters before a \<^verbatim>\<open>local.get\<close>, is proved to lose an operand.

  \<^bold>\<open>Modelling choices.\<close> State is passed explicitly. A call out of the modelled code is either an
  entry of a call list in the state (loads, scripts, log lines), or an argument that stands for
  what the callee answers: the \<open>n\<close>-th memory sample is \<open>sys n\<close>, the answers of
  \<^verbatim>\<open>mmap\<close>, \<^verbatim>\<open>mprotect\<close>, \<^verbatim>\<open>vm_remap\<close> and of the page allocator are environment fields that may
  fail at any call. What the engine does when it is called back is the parameter \<open>react\<close>, whose
  only assumption (\<open>engine_keeps_tabs\<close>) is that it does not free tabs by itself; observer
  callbacks are steps of the relation, so every order of events is covered. Library functions
  (registrable domain, URL canonicalisation, regular expressions of the user agent, preference
  storage) are parameters with the documented law as a named hypothesis
  (\<open>registry_api_ok\<close>, \<open>ua_engine_ok\<close>, \<open>barrier_ok\<close>, \<open>overlap_ok\<close>, \<open>env_ok\<close>, \<open>vm_answers\<close>,
  \<open>fresh_mirrors\<close>, \<open>probe_env\<close>, and for the interpreter \<open>wasm_env_ok\<close>, \<open>memory_ok\<close>, \<open>rotates_ok\<close>, \<open>aligned_ok\<close>, \<open>simd_lib_ok\<close>, \<open>gen_api_ok\<close>,
  for downloads and file types \<open>download_env_ok\<close> and \<open>mime_env_ok\<close>); every property under such a hypothesis has a witness on a
  concrete environment. Machine integers have their width wherever the code does arithmetic on
  them. Locks are not modelled where the code holds one lock for a whole operation: the operation
  is then one step.

  \<^bold>\<open>Fuel.\<close> Loops are structural recursions or have a measure. The only fuel is the nesting of
  \<open>AllocateForCodeInRegion\<close>, which calls itself through \<open>AddCodeSpaceLocked\<close>: three levels are
  enough, which is itself one of the properties.

  \<^bold>\<open>Not modelled.\<close> The UIKit layer (\<^verbatim>\<open>*.mm\<close> files: views, keyboards, layers, dialogs, media
  capture) is Objective-C glue around system frameworks. The remaining Chromium files of the overlay
  (garbage collector, JavaScript API of WebAssembly, network stack, media, compositor, message pumps,
  Mojo channels, crashpad, WebNN) differ from upstream by build fixes and rest on code outside the
  overlay. In the modelled files the parts left out are: \<^verbatim>\<open>main\<close> and bundle lookup in
  \<^verbatim>\<open>shell_main.cc\<close>; resource bundles and client factories in \<^verbatim>\<open>shell_main_delegate.cc\<close>;
  constant answers and factory methods of the browser client; publishing, logging and
  serialization of code in \<^verbatim>\<open>wasm-code-manager.cc\<close>; protection keys (absent on iOS) and the byte
  writers in \<^verbatim>\<open>code-memory-access-inl.h\<close>; in \<^verbatim>\<open>wasm-interpreter.cc\<close> the floating-point handlers
  (on scalars and on lanes), the reference, table and call handlers, the branch table (the type of its offsets is declared
  outside the overlay), and of the bytecode generator the encoding of instructions other than local accesses, blocks and
  argument passing, exception blocks, branch offsets and unreachable code.
\<close>

end
